(* ===== verification/Gravebound_Prelude.thy ===== *)
theory Gravebound_Prelude
  imports Main "HOL-Library.Word" "HOL-Library.Multiset" "HOL-Library.List_Lexorder"
    "HOL-Library.Char_ord" "HOL-Library.Product_Lexorder"
begin

text \<open>
  Shared vocabulary of the development: Rust's machine integers with their checked and
  saturating operations, \<open>Result\<close> values with the \<open>?\<close> operator, early-returning loops
  over slices, fixed-size byte identifiers, and the list lemmas that the component theories
  use. A \<open>usize\<close> is a \<^typ>\<open>nat\<close>: in the code it only ever measures or indexes an
  allocated slice.
\<close>

named_theorems rust_simps \<open>characterisations of the Rust primitives over \<open>unat\<close>\<close>
named_theorems slot_simps \<open>facts on storage slots and the identities they hold\<close>
named_theorems step_defs \<open>definitions of the step functions of the state machines\<close>

section \<open>Machine integers\<close>

type_synonym u8 = "8 word"
type_synonym u16 = "16 word"
type_synonym u32 = "32 word"
type_synonym u64 = "64 word"
type_synonym u128 = "128 word"

text \<open>A signed 32-bit integer is its two's complement word; \<^const>\<open>sint\<close> reads it.\<close>

type_synonym i32 = "32 word"

definition checked_add :: "'a::len word \<Rightarrow> 'a word \<Rightarrow> 'a word option" where
  "checked_add a b =
     (let s = unat a + unat b in if s < 2 ^ LENGTH('a) then Some (of_nat s) else None)"

definition checked_mul :: "'a::len word \<Rightarrow> 'a word \<Rightarrow> 'a word option" where
  "checked_mul a b =
     (let p = unat a * unat b in if p < 2 ^ LENGTH('a) then Some (of_nat p) else None)"

definition checked_sub :: "'a::len word \<Rightarrow> 'a word \<Rightarrow> 'a word option" where
  "checked_sub a b = (if b \<le> a then Some (a - b) else None)"

definition saturating_add :: "'a::len word \<Rightarrow> 'a word \<Rightarrow> 'a word" where
  "saturating_add a b = (case checked_add a b of Some s \<Rightarrow> s | None \<Rightarrow> - 1)"

definition saturating_mul :: "'a::len word \<Rightarrow> 'a word \<Rightarrow> 'a word" where
  "saturating_mul a b = (case checked_mul a b of Some p \<Rightarrow> p | None \<Rightarrow> - 1)"

text \<open>\<open>u64::div_ceil\<close> as the standard library computes it: quotient, plus one for a remainder.\<close>

definition div_ceil :: "'a::len word \<Rightarrow> 'a word \<Rightarrow> 'a word" where
  "div_ceil a b = (if a mod b = 0 then a div b else a div b + 1)"

text \<open>\<open>u32::try_from(value)\<close> between unsigned widths, and from \<open>usize\<close>.\<close>

definition try_from_word :: "'a::len word \<Rightarrow> 'b::len word option" where
  "try_from_word a = (if unat a < 2 ^ LENGTH('b) then Some (ucast a) else None)"

definition try_from_usize :: "nat \<Rightarrow> 'a::len word option" where
  "try_from_usize n = (if n < 2 ^ LENGTH('a) then Some (of_nat n) else None)"

lemma unat_of_nat_bounded [simp]:
  "n < 2 ^ LENGTH('a) \<Longrightarrow> unat (of_nat n :: 'a::len word) = n"
  by (simp add: unat_of_nat take_bit_nat_eq_self)

lemma unat_bound: "unat (a :: 'a::len word) < 2 ^ LENGTH('a)"
  by (rule unsigned_less)

lemma checked_add_eq_Some [rust_simps]:
  "checked_add a b = Some c \<longleftrightarrow> unat c = unat (a :: 'a::len word) + unat b"
proof
  assume "checked_add a b = Some c"
  then show "unat c = unat a + unat b"
    by (auto simp: checked_add_def Let_def unat_word_ariths split: if_splits)
next
  assume c: "unat c = unat a + unat b"
  then have "unat a + unat b < 2 ^ LENGTH('a)"
    by (metis unsigned_less)
  with c show "checked_add a b = Some c"
    by (simp add: checked_add_def flip: c)
qed

lemma checked_add_eq_None [rust_simps]:
  "checked_add a b = None \<longleftrightarrow> 2 ^ LENGTH('a) \<le> unat (a :: 'a::len word) + unat b"
  by (auto simp: checked_add_def Let_def)

lemma checked_mul_eq_Some [rust_simps]:
  "checked_mul a b = Some c \<longleftrightarrow> unat c = unat (a :: 'a::len word) * unat b"
proof
  assume "checked_mul a b = Some c"
  then show "unat c = unat a * unat b"
    by (auto simp: checked_mul_def Let_def unat_word_ariths split: if_splits)
next
  assume c: "unat c = unat a * unat b"
  then have "unat a * unat b < 2 ^ LENGTH('a)"
    by (metis unsigned_less)
  with c show "checked_mul a b = Some c"
    by (simp add: checked_mul_def flip: c)
qed

lemma checked_mul_eq_None [rust_simps]:
  "checked_mul a b = None \<longleftrightarrow> 2 ^ LENGTH('a) \<le> unat (a :: 'a::len word) * unat b"
  by (auto simp: checked_mul_def Let_def)

lemma checked_sub_eq_Some [rust_simps]:
  "checked_sub a b = Some c \<longleftrightarrow> unat b + unat c = unat (a :: 'a::len word)"
proof
  assume "checked_sub a b = Some c"
  then have "b \<le> a" "c = a - b"
    by (auto simp: checked_sub_def split: if_splits)
  then show "unat b + unat c = unat a"
    by (simp add: unat_sub word_le_nat_alt)
next
  assume s: "unat b + unat c = unat a"
  then have "b \<le> a"
    by (simp add: word_le_nat_alt)
  moreover from this s have "c = a - b"
    by (intro word_unat_eq_iff [THEN iffD2]) (simp add: unat_sub)
  ultimately show "checked_sub a b = Some c"
    by (simp add: checked_sub_def)
qed

lemma unat_max_word: "unat (- 1 :: 'a::len word) = 2 ^ LENGTH('a) - 1"
  by (simp add: unsigned_minus_1_eq_mask mask_eq_exp_minus_1)

lemma checked_add_one:
  "checked_add v 1 = (if v = - 1 then None else Some (v + 1 :: 'a::len word))"
proof (cases "v = - 1")
  case True
  then show ?thesis
    by (simp add: checked_add_eq_None unat_max_word)
next
  case False
  then have "unat v \<noteq> 2 ^ LENGTH('a) - 1"
    by (metis unat_max_word word_unat_eq_iff)
  with unat_bound [of v] have "unat v + 1 < 2 ^ LENGTH('a)"
    by linarith
  then have "unat (v + 1) = unat v + 1"
    by (simp add: unat_word_ariths)
  with False show ?thesis
    by (simp add: checked_add_eq_Some)
qed

lemma checked_mul_ex:
  "unat a * unat b < 2 ^ LENGTH('a) \<Longrightarrow> \<exists>c. checked_mul a b = Some (c :: 'a::len word) \<and> unat c = unat a * unat b"
  by (cases "checked_mul a b") (auto simp: checked_mul_eq_None checked_mul_eq_Some)

lemma checked_add_ex:
  "unat a + unat b < 2 ^ LENGTH('a) \<Longrightarrow> \<exists>c. checked_add a b = Some (c :: 'a::len word) \<and> unat c = unat a + unat b"
  by (cases "checked_add a b") (auto simp: checked_add_eq_None checked_add_eq_Some)

lemma unat_saturating_add [rust_simps]:
  "unat (saturating_add a b) = min (2 ^ LENGTH('a) - 1) (unat (a :: 'a::len word) + unat b)"
  by (auto simp: saturating_add_def checked_add_def Let_def unat_word_ariths unat_max_word)

lemma unat_saturating_mul [rust_simps]:
  "unat (saturating_mul a b) = min (2 ^ LENGTH('a) - 1) (unat (a :: 'a::len word) * unat b)"
  by (auto simp: saturating_mul_def checked_mul_def Let_def unat_word_ariths unat_max_word)

lemma try_from_word_eq_Some [rust_simps]:
  "(try_from_word (a :: 'a::len word) :: 'b::len word option) = Some c \<longleftrightarrow> unat c = unat a"
proof
  assume "(try_from_word a :: 'b word option) = Some c"
  then show "unat c = unat a"
    by (auto simp: try_from_word_def unsigned_ucast_eq take_bit_nat_eq_self split: if_splits)
next
  assume c: "unat c = unat a"
  then have "unat a < 2 ^ LENGTH('b)"
    by (metis unsigned_less)
  moreover from this c have "ucast a = c"
    by (intro word_unat_eq_iff [THEN iffD2]) (simp add: unsigned_ucast_eq take_bit_nat_eq_self)
  ultimately show "(try_from_word a :: 'b word option) = Some c"
    by (simp add: try_from_word_def)
qed

lemma try_from_word_eq_None [rust_simps]:
  "(try_from_word (a :: 'a::len word) :: 'b::len word option) = None \<longleftrightarrow> 2 ^ LENGTH('b) \<le> unat a"
  by (auto simp: try_from_word_def)

lemma try_from_usize_eq_Some [rust_simps]:
  "(try_from_usize n :: 'a::len word option) = Some c \<longleftrightarrow> unat c = n"
  by (auto simp: try_from_usize_def split: if_splits)

lemma unat_ucast_widen [rust_simps]:
  "LENGTH('a) \<le> LENGTH('b) \<Longrightarrow> unat (ucast (a :: 'a::len word) :: 'b::len word) = unat a"
  by (rule unsigned_ucast_eq [THEN trans], rule take_bit_nat_eq_self)
    (meson order_less_le_trans power_increasing one_le_numeral unsigned_less)

lemma unat_min: "unat (min a b) = min (unat a) (unat (b :: 'a::len word))"
  by (simp add: min_def word_le_nat_alt)

lemma unat_diff_min: "unat (a - min b a) = unat a - unat (b :: 'a::len word)"
  "unat (a - min a b) = unat a - unat b"
  by (simp_all add: unat_sub unat_min)

section \<open>Signed integers\<close>

text \<open>
  \<open>i32::checked_add\<close> and \<open>i64::saturating_mul\<close>. The unchecked operators of signed integers are those
  of the word, which wrap.
\<close>

type_synonym i64 = "64 word"

definition checked_sadd :: "'a::len word \<Rightarrow> 'a word \<Rightarrow> 'a word option" where
  "checked_sadd a b =
     (let s = sint a + sint b in
      if - (2 ^ (LENGTH('a) - 1)) \<le> s \<and> s < 2 ^ (LENGTH('a) - 1) then Some (word_of_int s) else None)"

definition saturating_smul :: "'a::len word \<Rightarrow> 'a word \<Rightarrow> 'a word" where
  "saturating_smul a b =
     word_of_int (max (- (2 ^ (LENGTH('a) - 1))) (min (2 ^ (LENGTH('a) - 1) - 1) (sint a * sint b)))"

lemma sint_of_int_exact:
  "- (2 ^ (LENGTH('a) - 1)) \<le> k \<Longrightarrow> k < 2 ^ (LENGTH('a) - 1) \<Longrightarrow> sint (word_of_int k :: 'a::len word) = k"
  by (simp add: signed_of_int signed_take_bit_int_eq_self)

lemma checked_sadd_eq_Some [rust_simps]:
  "checked_sadd a b = Some c \<longleftrightarrow> sint c = sint (a :: 'a::len word) + sint b"
proof
  assume "checked_sadd a b = Some c"
  then have "c = word_of_int (sint a + sint b)"
    "- (2 ^ (LENGTH('a) - 1)) \<le> sint a + sint b" "sint a + sint b < 2 ^ (LENGTH('a) - 1)"
    by (simp_all only: checked_sadd_def Let_def option.simps simp_thms split: if_splits)
  then show "sint c = sint a + sint b"
    by (simp only: sint_of_int_exact)
next
  assume c: "sint c = sint a + sint b"
  moreover from this have "word_of_int (sint a + sint b) = c"
    by (simp flip: c)
  ultimately show "checked_sadd a b = Some c"
    using sint_ge [of c] sint_lt [of c] by (simp add: checked_sadd_def)
qed

lemma sint_saturating_smul [rust_simps]:
  "sint (saturating_smul a b) =
     max (- (2 ^ (LENGTH('a) - 1))) (min (2 ^ (LENGTH('a) - 1) - 1) (sint (a :: 'a::len word) * sint b))"
  unfolding saturating_smul_def by (rule sint_of_int_exact) (simp_all add: min_def max_def)

lemma sint_add_exact:
  "- (2 ^ (LENGTH('a) - 1)) \<le> sint a + sint b \<Longrightarrow> sint a + sint b < 2 ^ (LENGTH('a) - 1)
     \<Longrightarrow> sint (a + b) = sint (a :: 'a::len word) + sint b"
  by (simp add: sint_word_ariths signed_take_bit_int_eq_self)

lemma sint_diff_exact:
  "- (2 ^ (LENGTH('a) - 1)) \<le> sint a - sint b \<Longrightarrow> sint a - sint b < 2 ^ (LENGTH('a) - 1)
     \<Longrightarrow> sint (a - b) = sint (a :: 'a::len word) - sint b"
  by (simp add: sint_word_ariths signed_take_bit_int_eq_self)

lemma sint_scast_widen [simp]: "sint (scast (d :: i32) :: i64) = sint d"
  using sint_lt [of d] sint_ge [of d] by (simp add: signed_scast_eq signed_take_bit_int_eq_self)

lemma signed_take_bit_small: "0 \<le> k \<Longrightarrow> k < 2 ^ 63 \<Longrightarrow> signed_take_bit 63 k = (k :: int)"
  by (rule signed_take_bit_int_eq_self) auto

lemma sint_ucast_widen [simp]: "sint (ucast (w :: u32) :: i64) = uint w"
proof -
  have "uint w < 2 ^ 32"
    using unsigned_less [of w, where ?'a = int] by simp
  then show ?thesis
    by (simp add: signed_ucast_eq signed_take_bit_small)
qed

section \<open>Results, the question-mark operator and early-returning loops\<close>

text \<open>
  A \<open>Result<T, E>\<close> is a sum with the error on the left. \<open>and_then r k\<close> is
  \<open>let v = r?; k(v)\<close>: the first error returns at once.
\<close>

definition ok_or :: "'a option \<Rightarrow> 'e \<Rightarrow> 'e + 'a" where
  "ok_or v e = (case v of Some x \<Rightarrow> Inr x | None \<Rightarrow> Inl e)"

fun and_then :: "'e + 'a \<Rightarrow> ('a \<Rightarrow> 'e + 'b) \<Rightarrow> 'e + 'b" where
  "and_then (Inl e) k = Inl e"
| "and_then (Inr x) k = k x"

text \<open>\<open>Result::map_err\<close> and \<open>Option::is_some_and\<close>.\<close>

definition map_err :: "('e \<Rightarrow> 'f) \<Rightarrow> 'e + 'a \<Rightarrow> 'f + 'a" where
  "map_err f r = (case r of Inl e \<Rightarrow> Inl (f e) | Inr x \<Rightarrow> Inr x)"

definition is_some_and :: "'a option \<Rightarrow> ('a \<Rightarrow> bool) \<Rightarrow> bool" where
  "is_some_and v P = (case v of None \<Rightarrow> False | Some x \<Rightarrow> P x)"

text \<open>A \<open>for\<close> loop whose body updates the loop state or returns an error.\<close>

fun try_fold :: "('a \<Rightarrow> 's \<Rightarrow> 'e + 's) \<Rightarrow> 'a list \<Rightarrow> 's \<Rightarrow> 'e + 's" where
  "try_fold f [] s = Inr s"
| "try_fold f (x # xs) s = and_then (f x s) (try_fold f xs)"

text \<open>\<open>iter().map(f).collect::<Result<Vec<_>, _>>()\<close>.\<close>

fun try_map :: "('a \<Rightarrow> 'e + 'b) \<Rightarrow> 'a list \<Rightarrow> 'e + 'b list" where
  "try_map f [] = Inr []"
| "try_map f (x # xs) = and_then (f x) (\<lambda>y. and_then (try_map f xs) (\<lambda>ys. Inr (y # ys)))"

lemma ok_or_eq_Inr [simp]: "ok_or v e = Inr x \<longleftrightarrow> v = Some x"
  by (auto simp: ok_or_def split: option.splits)

lemma ok_or_eq_Inl [simp]: "ok_or v e = Inl e' \<longleftrightarrow> v = None \<and> e' = e"
  by (auto simp: ok_or_def split: option.splits)

lemma ok_or_Some [simp]: "ok_or (Some x) e = Inr x"
  and ok_or_None [simp]: "ok_or None e = Inl e"
  by (simp_all add: ok_or_def)

lemma and_then_eq_Inr [simp]:
  "and_then r k = Inr y \<longleftrightarrow> (\<exists>x. r = Inr x \<and> k x = Inr y)"
  by (cases r) auto

lemma and_then_eq_Inl [simp]:
  "and_then r k = Inl e \<longleftrightarrow> r = Inl e \<or> (\<exists>x. r = Inr x \<and> k x = Inl e)"
  by (cases r) auto

lemma map_err_eq_Inr [simp]: "map_err f r = Inr x \<longleftrightarrow> r = Inr x"
  by (cases r) (auto simp: map_err_def)

lemma map_err_simps [simp]: "map_err f (Inr x) = Inr x" "map_err f (Inl e) = Inl (f e)"
  by (simp_all add: map_err_def)

lemma and_then_cong [fundef_cong]:
  "r = r' \<Longrightarrow> (\<And>x. r' = Inr x \<Longrightarrow> k x = k' x) \<Longrightarrow> and_then r k = and_then r' k'"
  by (cases r') auto

lemma sum_not_Inl [simp]: "(\<forall>e. r \<noteq> Inl e) \<longleftrightarrow> (\<exists>x. r = Inr x)"
  by (cases r) auto

text \<open>An invariant of the body is an invariant of the whole loop.\<close>

lemma try_fold_invariant:
  assumes "try_fold f xs s = Inr s'"
    and "P s"
    and "\<And>x s s'. x \<in> set xs \<Longrightarrow> P s \<Longrightarrow> f x s = Inr s' \<Longrightarrow> P s'"
  shows "P s'"
  using assms
proof (induction xs arbitrary: s)
  case Nil
  then show ?case by simp
next
  case (Cons x xs)
  then obtain t where "f x s = Inr t" "try_fold f xs t = Inr s'"
    by auto
  moreover from this Cons.prems have "P t"
    by auto
  ultimately show ?case
    using Cons.IH [of t] Cons.prems(3) by auto
qed

lemma try_fold_append:
  "try_fold f (xs @ ys) s = and_then (try_fold f xs s) (try_fold f ys)"
proof (induction xs arbitrary: s)
  case (Cons x xs)
  then show ?case by (cases "f x s") auto
qed simp

lemma try_map_eq_Inr:
  "try_map f xs = Inr ys \<longleftrightarrow> list_all2 (\<lambda>x y. f x = Inr y) xs ys"
  by (induction xs arbitrary: ys) (auto simp: list_all2_Cons1)

lemma try_map_all: "(\<And>x. x \<in> set xs \<Longrightarrow> f x = Inr (g x)) \<Longrightarrow> try_map f xs = Inr (map g xs)"
  by (induction xs) auto

lemma try_map_if:
  assumes "\<And>x. x \<in> set xs \<Longrightarrow> f x = (if P x then Inl e else Inr (g x))"
  shows "try_map f xs = (if \<exists>x \<in> set xs. P x then Inl e else Inr (map g xs))"
  using assms by (induction xs) auto

section \<open>Slices\<close>

text \<open>\<open>iter().position(p)\<close>: the index of the first element that satisfies the predicate.\<close>

fun position :: "('a \<Rightarrow> bool) \<Rightarrow> 'a list \<Rightarrow> nat option" where
  "position P [] = None"
| "position P (x # xs) = (if P x then Some 0 else map_option Suc (position P xs))"

text \<open>\<open>windows(2).all(|w| r(w[0], w[1]))\<close>.\<close>

fun windows2_all :: "('a \<Rightarrow> 'a \<Rightarrow> bool) \<Rightarrow> 'a list \<Rightarrow> bool" where
  "windows2_all r (x # y # xs) = (r x y \<and> windows2_all r (y # xs))"
| "windows2_all r xs = True"

text \<open>\<open>slice.get(i)\<close>.\<close>

definition get :: "'a list \<Rightarrow> nat \<Rightarrow> 'a option" where
  "get xs i = (if i < length xs then Some (xs ! i) else None)"

lemma position_eq_Some:
  "position P xs = Some i \<longleftrightarrow> i < length xs \<and> P (xs ! i) \<and> (\<forall>j < i. \<not> P (xs ! j))"
proof (induction xs arbitrary: i)
  case (Cons x xs)
  show ?case
  proof (cases i)
    case (Suc k)
    with Cons.IH [of k] show ?thesis
      by (auto simp: All_less_Suc2)
  qed auto
qed simp

lemma position_eq_None: "position P xs = None \<longleftrightarrow> (\<forall>x \<in> set xs. \<not> P x)"
  by (induction xs) auto

lemma position_SomeD:
  "position P xs = Some i \<Longrightarrow> i < length xs \<and> P (xs ! i)"
  by (simp add: position_eq_Some)

lemma position_Some_ex: "x \<in> set xs \<Longrightarrow> P x \<Longrightarrow> \<exists>i. position P xs = Some i"
  using position_eq_None [of P xs] by (cases "position P xs") auto

lemma windows2_all_Cons:
  "windows2_all r (x # xs) \<longleftrightarrow> (xs \<noteq> [] \<longrightarrow> r x (hd xs)) \<and> windows2_all r xs"
  by (cases xs) auto

lemma windows2_all_less: "windows2_all (<) xs \<longleftrightarrow> sorted_wrt (<) (xs :: 'a::linorder list)"
proof (induction xs)
  case (Cons x xs)
  have "sorted_wrt (<) xs \<Longrightarrow> xs \<noteq> [] \<and> x < hd xs \<Longrightarrow> \<forall>y \<in> set xs. x < y"
    by (cases xs) (auto intro: less_trans)
  with Cons show ?case
    by (cases "xs = []") (auto simp: windows2_all_Cons)
qed simp

lemma get_eq_Some [simp]: "get xs i = Some x \<longleftrightarrow> i < length xs \<and> xs ! i = x"
  by (auto simp: get_def)

lemma get_eq_None [simp]: "get xs i = None \<longleftrightarrow> length xs \<le> i"
  by (auto simp: get_def)

lemma find_mapped: "p \<in> set ps \<Longrightarrow> (\<And>q. key (f q) = q) \<Longrightarrow> find (\<lambda>r. key r = p) (map f ps) = Some (f p)"
  by (induction ps) auto

lemma windows2_all_map: "windows2_all P (map f xs) \<longleftrightarrow> windows2_all (\<lambda>a b. P (f a) (f b)) xs"
  by (induction xs rule: induct_list012) simp_all

section \<open>Byte identifiers\<close>

text \<open>
  A \<open>[u8; N]\<close> is its list of bytes. Arrays compare lexicographically, which is the order
  \<open>HOL-Library.List_Lexorder\<close> puts on lists; strings compare as their bytes.
\<close>

type_synonym bytes = "u8 list"

definition is_zero :: "bytes \<Rightarrow> bool" where
  "is_zero bs = list_all (\<lambda>b. b = 0) bs"

lemma is_zero_iff: "is_zero bs \<longleftrightarrow> bs = replicate (length bs) 0"
  by (induction bs) (auto simp: is_zero_def)

section \<open>Transition systems\<close>

text \<open>
  The contract shared by the state machines of the program: an initial condition, a labelled
  step relation and an invariant that holds initially and that every step keeps. The clients
  of the contract are the reachability and trace lemmas below; each machine of the development
  interprets it with its own step relation.
\<close>

inductive reachable :: "('s \<Rightarrow> bool) \<Rightarrow> ('s \<Rightarrow> 'l \<Rightarrow> 's \<Rightarrow> bool) \<Rightarrow> 's \<Rightarrow> bool"
  for initial :: "'s \<Rightarrow> bool" and step :: "'s \<Rightarrow> 'l \<Rightarrow> 's \<Rightarrow> bool" where
  reachable_initial: "initial s \<Longrightarrow> reachable initial step s"
| reachable_step: "reachable initial step s \<Longrightarrow> step s l t \<Longrightarrow> reachable initial step t"

fun trace :: "('s \<Rightarrow> 'l \<Rightarrow> 's \<Rightarrow> bool) \<Rightarrow> 's \<Rightarrow> ('l \<times> 's) list \<Rightarrow> bool" where
  "trace step s [] = True"
| "trace step s ((l, t) # ts) = (step s l t \<and> trace step t ts)"

locale transition_system =
  fixes initial :: "'s \<Rightarrow> bool"
    and step :: "'s \<Rightarrow> 'l \<Rightarrow> 's \<Rightarrow> bool"
    and inv :: "'s \<Rightarrow> bool"
  assumes inv_initial: "initial s \<Longrightarrow> inv s"
    and inv_step: "inv s \<Longrightarrow> step s l t \<Longrightarrow> inv t"
begin

lemma reachable_inv: "reachable initial step s \<Longrightarrow> inv s"
  by (induction rule: reachable.induct) (auto intro: inv_initial inv_step)

lemma trace_inv: "inv s \<Longrightarrow> trace step s ts \<Longrightarrow> (l, t) \<in> set ts \<Longrightarrow> inv t"
proof (induction ts arbitrary: s)
  case (Cons lt ts)
  then show ?case
    by (cases lt) (auto dest: inv_step)
qed simp

lemma reachable_trace:
  "reachable initial step s \<Longrightarrow> trace step s ts \<Longrightarrow> (l, t) \<in> set ts \<Longrightarrow> reachable initial step t"
proof (induction ts arbitrary: s)
  case (Cons lt ts)
  then show ?case
    by (cases lt) (auto dest: reachable_step)
qed simp

end

text \<open>
  A machine whose states carry a measure that no step lowers: an earlier state of a trace is
  never ahead of a later one.
\<close>

locale monotone_system = transition_system initial step inv
  for initial :: "'s \<Rightarrow> bool" and step :: "'s \<Rightarrow> 'l \<Rightarrow> 's \<Rightarrow> bool" and inv :: "'s \<Rightarrow> bool" +
  fixes progress :: "'s \<Rightarrow> nat"
  assumes progress_step: "inv s \<Longrightarrow> step s l t \<Longrightarrow> progress s \<le> progress t"
begin

lemma trace_progress:
  "inv s \<Longrightarrow> trace step s ts \<Longrightarrow> (l, t) \<in> set ts \<Longrightarrow> progress s \<le> progress t"
proof (induction ts arbitrary: s)
  case (Cons lt ts)
  obtain l' u where lt: "lt = (l', u)"
    by (cases lt)
  with Cons.prems have u: "progress s \<le> progress u" "inv u" "trace step u ts"
    by (auto dest: progress_step inv_step)
  show ?case
  proof (cases "(l, t) = lt")
    case True
    with lt u show ?thesis by simp
  next
    case False
    with Cons.prems have "(l, t) \<in> set ts" by simp
    with Cons.IH [of u] u show ?thesis by simp
  qed
qed simp

end

end
