(* ===== verification/Simulation_Clock.thy ===== *)
theory Simulation_Clock
  imports Gravebound_Prelude
begin

text \<open>
  The authoritative 30 Hz clock (\<open>sim_core/src/clock.rs\<close>) and the entity-identifier
  allocator (\<open>sim_core/src/entity.rs\<close>): tick arithmetic, the two millisecond conversions,
  the render-loop accumulator, and monotone allocation of non-zero identifiers.
\<close>

section \<open>Ticks\<close>

definition TICK_RATE_HZ :: u32 where
  "TICK_RATE_HZ = 30"

definition NANOS_PER_SECOND :: u128 where
  "NANOS_PER_SECOND = 1000000000"

type_synonym tick = u64

definition checked_next :: "tick \<Rightarrow> tick option" where
  "checked_next t = checked_add t 1"

definition duration_ms_to_ticks_ceil :: "u64 \<Rightarrow> u64" where
  "duration_ms_to_ticks_ceil milliseconds =
     (let scaled = saturating_mul milliseconds (ucast TICK_RATE_HZ) in div_ceil scaled 1000)"

definition duration_ms_to_ticks_nearest :: "u64 \<Rightarrow> u64" where
  "duration_ms_to_ticks_nearest milliseconds =
     saturating_add (saturating_mul milliseconds (ucast TICK_RATE_HZ)) 500 div 1000"

section \<open>The fixed-step accumulator\<close>

text \<open>\<open>std::time::Duration\<close>: whole seconds and the sub-second nanoseconds.\<close>

record duration =
  secs :: u64
  subsec_nanos :: u32

definition as_nanos :: "duration \<Rightarrow> u128" where
  "as_nanos d = ucast (secs d) * NANOS_PER_SECOND + ucast (subsec_nanos d)"

record fixed_step_clock =
  clock_tick :: tick
  scaled_nanosecond_remainder :: u128

definition new_clock :: fixed_step_clock where
  "new_clock = \<lparr>clock_tick = 0, scaled_nanosecond_remainder = 0\<rparr>"

definition push_elapsed :: "fixed_step_clock \<Rightarrow> duration \<Rightarrow> u64 \<times> fixed_step_clock" where
  "push_elapsed c elapsed =
     (let scaled = saturating_mul (as_nanos elapsed) (ucast TICK_RATE_HZ);
          remainder = saturating_add (scaled_nanosecond_remainder c) scaled;
          steps = remainder div NANOS_PER_SECOND
      in (case try_from_word steps of Some n \<Rightarrow> n | None \<Rightarrow> - 1,
          c\<lparr>scaled_nanosecond_remainder := remainder mod NANOS_PER_SECOND\<rparr>))"

definition complete_step :: "fixed_step_clock \<Rightarrow> tick option \<times> fixed_step_clock" where
  "complete_step c =
     (case checked_next (clock_tick c) of
        None \<Rightarrow> (None, c)
      | Some t \<Rightarrow> (Some t, c\<lparr>clock_tick := t\<rparr>))"

text \<open>A render loop: one \<open>push_elapsed\<close> per frame; the sum of the steps it was told to run.\<close>

fun push_frames :: "fixed_step_clock \<Rightarrow> duration list \<Rightarrow> nat \<times> fixed_step_clock" where
  "push_frames c [] = (0, c)"
| "push_frames c (d # ds) =
     (let (steps, c') = push_elapsed c d; (total, c'') = push_frames c' ds
      in (unat steps + total, c''))"

section \<open>Entity identifiers\<close>

datatype entity_id = EntityId (entity_value: u64)

definition new_entity_id :: "u64 \<Rightarrow> entity_id option" where
  "new_entity_id v = (if v = 0 then None else Some (EntityId v))"

instantiation entity_id :: linorder
begin

definition less_eq_entity_id :: "entity_id \<Rightarrow> entity_id \<Rightarrow> bool" where
  "less_eq_entity_id a b \<longleftrightarrow> entity_value a \<le> entity_value b"

definition less_entity_id :: "entity_id \<Rightarrow> entity_id \<Rightarrow> bool" where
  "less_entity_id a b \<longleftrightarrow> entity_value a < entity_value b"

instance
  by standard (auto simp: less_eq_entity_id_def less_entity_id_def intro: entity_id.expand)

end

record entity_id_allocator =
  next_id :: u64

definition default_allocator :: entity_id_allocator where
  "default_allocator = \<lparr>next_id = 1\<rparr>"

definition allocate :: "entity_id_allocator \<Rightarrow> entity_id option \<times> entity_id_allocator" where
  "allocate a =
     (case checked_add (next_id a) 1 of
        None \<Rightarrow> (None, a)
      | Some n \<Rightarrow> (if n = 0 then (None, a) else (Some (EntityId (next_id a)), a\<lparr>next_id := n\<rparr>)))"

definition peek :: "entity_id_allocator \<Rightarrow> entity_id" where
  "peek a = EntityId (next_id a)"

fun allocate_many :: "nat \<Rightarrow> entity_id_allocator \<Rightarrow> entity_id option list \<times> entity_id_allocator" where
  "allocate_many 0 a = ([], a)"
| "allocate_many (Suc n) a =
     (let (e, a') = allocate a; (es, a'') = allocate_many n a' in (e # es, a''))"

section \<open>Lemmas: tick conversion\<close>

lemma unat_tick_rate: "unat (ucast TICK_RATE_HZ :: u64) = 30"
  "unat (ucast TICK_RATE_HZ :: u128) = 30"
  by (simp_all add: TICK_RATE_HZ_def)

lemma nat_div_ceil:
  fixes a b :: nat
  assumes "0 < b"
  shows "(a + (b - 1)) div b = (if a mod b = 0 then a div b else a div b + 1)"
proof -
  define q r where "q = a div b" and "r = a mod b"
  then have a: "a = b * q + r" and r: "r < b"
    using assms by simp_all
  have "(b * q + (b - 1)) div b = q"
    using assms by (simp only: div_mult_self4) simp
  moreover have "(b * (q + 1) + (r - 1)) div b = q + 1"
    using assms r by (simp only: div_mult_self4) simp
  moreover have "a + (b - 1) = (if r = 0 then b * q + (b - 1) else b * (q + 1) + (r - 1))"
    using a assms by auto
  ultimately show ?thesis
    by (metis q_def r_def)
qed

lemma unat_div_ceil:
  fixes a b :: "'a::len word"
  assumes "1 < unat b"
  shows "unat (div_ceil a b) = (unat a + (unat b - 1)) div unat b"
proof -
  have "unat a div unat b < 2 ^ LENGTH('a) - 1"
  proof (cases "unat a = 0")
    case True
    have "1 < (2::nat) ^ LENGTH('a)"
      using assms unat_bound [of b] by linarith
    with True show ?thesis by simp
  next
    case False
    with assms have "unat a div unat b < unat a"
      by (simp add: div_less_dividend)
    with unat_bound [of a] show ?thesis
      by linarith
  qed
  then have "unat (a div b + 1) = unat a div unat b + 1"
    by (simp add: unat_word_ariths unat_div)
  moreover have "a mod b = 0 \<longleftrightarrow> unat a mod unat b = 0"
    by (simp add: word_unat_eq_iff unat_mod)
  ultimately show ?thesis
    using assms nat_div_ceil [of "unat b" "unat a"] by (simp add: div_ceil_def unat_div)
qed

lemma unat_duration_ms_to_ticks_ceil:
  "unat (duration_ms_to_ticks_ceil ms) = (min (2 ^ 64 - 1) (30 * unat ms) + 999) div 1000"
  by (simp add: duration_ms_to_ticks_ceil_def Let_def unat_div_ceil unat_saturating_mul
      unat_tick_rate mult.commute)

lemma unat_duration_ms_to_ticks_nearest:
  "unat (duration_ms_to_ticks_nearest ms) =
     min (2 ^ 64 - 1) (min (2 ^ 64 - 1) (30 * unat ms) + 500) div 1000"
  by (simp add: duration_ms_to_ticks_nearest_def unat_div unat_saturating_add
      unat_saturating_mul unat_tick_rate mult.commute)

text \<open>
  While the scaled product fits in 64 bits, the ceiling conversion of an authored duration
  is the least number of 30 Hz ticks that covers it: \<open>n\<close> ticks last at least as long as the
  duration exactly when \<open>n\<close> is at least the converted count.
\<close>

lemma ceil_ticks_least_cover:
  assumes "30 * unat ms < 2 ^ 64"
  shows "30 * unat ms \<le> 1000 * n \<longleftrightarrow> unat (duration_ms_to_ticks_ceil ms) \<le> n"
  using assms by (auto simp: unat_duration_ms_to_ticks_ceil min_def)

section \<open>Lemmas: the accumulator\<close>

definition duration_wf :: "duration \<Rightarrow> bool" where
  "duration_wf d \<longleftrightarrow> unat (subsec_nanos d) < 1000000000 \<and> unat (secs d) < 2 ^ 59"

definition nanos :: "duration \<Rightarrow> nat" where
  "nanos d = unat (secs d) * 1000000000 + unat (subsec_nanos d)"

lemma unat_as_nanos: "duration_wf d \<Longrightarrow> unat (as_nanos d) = nanos d"
proof -
  assume "duration_wf d"
  then have b: "unat (secs d) * 1000000000 + unat (subsec_nanos d) < 2 ^ 128"
    by (simp add: duration_wf_def)
  then have "unat (secs d) * 1000000000 < 2 ^ 128"
    by linarith
  then have "unat (ucast (secs d) * NANOS_PER_SECOND) = unat (secs d) * 1000000000"
    by (simp add: unat_word_ariths NANOS_PER_SECOND_def unat_ucast_widen)
  with b show ?thesis
    by (simp add: as_nanos_def nanos_def unat_word_ariths unat_ucast_widen)
qed

lemma push_elapsed_exact:
  assumes wf: "duration_wf d"
    and rem: "unat (scaled_nanosecond_remainder c) < 1000000000"
    and push: "push_elapsed c d = (steps, c')"
  shows "unat steps = (unat (scaled_nanosecond_remainder c) + 30 * nanos d) div 1000000000"
    and "unat (scaled_nanosecond_remainder c') =
           (unat (scaled_nanosecond_remainder c) + 30 * nanos d) mod 1000000000"
    and "clock_tick c' = clock_tick c"
proof -
  let ?r = "unat (scaled_nanosecond_remainder c) + 30 * nanos d"
  let ?R = "saturating_add (scaled_nanosecond_remainder c)
              (saturating_mul (as_nanos d) (ucast TICK_RATE_HZ))"
  have n: "nanos d < 2 ^ 59 * 1000000000"
    using wf by (auto simp: nanos_def duration_wf_def)
  then have R: "unat ?R = ?r"
    using rem by (simp add: unat_saturating_add unat_saturating_mul unat_as_nanos [OF wf]
        unat_tick_rate min_def mult.commute)
  have q: "unat (?R div NANOS_PER_SECOND) = ?r div 1000000000"
    by (simp only: unat_div R) (simp add: NANOS_PER_SECOND_def)
  have m: "unat (?R mod NANOS_PER_SECOND) = ?r mod 1000000000"
    by (simp only: unat_mod R) (simp add: NANOS_PER_SECOND_def)
  have "?r div 1000000000 < 2 ^ 64"
    using n rem by (simp add: div_less_iff_less_mult)
  then obtain k :: u64 where k: "try_from_word (?R div NANOS_PER_SECOND) = Some k"
    using q try_from_word_eq_None [of "?R div NANOS_PER_SECOND", where 'b = 64]
    by (cases "try_from_word (?R div NANOS_PER_SECOND) :: u64 option") auto
  then have "unat k = ?r div 1000000000"
    using q by (simp add: try_from_word_eq_Some)
  with push k m show "unat steps = ?r div 1000000000"
    and "unat (scaled_nanosecond_remainder c') = ?r mod 1000000000"
    and "clock_tick c' = clock_tick c"
    by (auto simp: push_elapsed_def Let_def)
qed

lemma push_frames_exact:
  assumes "\<forall>d \<in> set ds. duration_wf d"
    and "unat (scaled_nanosecond_remainder c) < 1000000000"
    and "push_frames c ds = (n, c')"
  shows "n = (unat (scaled_nanosecond_remainder c) + 30 * sum_list (map nanos ds)) div 1000000000
    \<and> unat (scaled_nanosecond_remainder c') =
        (unat (scaled_nanosecond_remainder c) + 30 * sum_list (map nanos ds)) mod 1000000000"
  using assms
proof (induction ds arbitrary: c n)
  case Nil
  then show ?case by simp
next
  case (Cons d ds)
  obtain steps c1 where p: "push_elapsed c d = (steps, c1)"
    by fastforce
  obtain n1 where f: "push_frames c1 ds = (n1, c')" and t: "n = unat steps + n1"
    using Cons.prems(3) p by (auto split: prod.splits)
  note e = push_elapsed_exact [OF _ Cons.prems(2) p]
  let ?r = "unat (scaled_nanosecond_remainder c) + 30 * nanos d"
  have "unat (scaled_nanosecond_remainder c1) < 1000000000"
    using e Cons.prems by simp
  then have ih: "n1 = (?r mod 1000000000 + 30 * sum_list (map nanos ds)) div 1000000000"
    "unat (scaled_nanosecond_remainder c') =
       (?r mod 1000000000 + 30 * sum_list (map nanos ds)) mod 1000000000"
    using Cons.IH [OF _ _ f] e Cons.prems by auto
  let ?S = "30 * sum_list (map nanos ds)"
  have split: "?r + ?S = 1000000000 * (?r div 1000000000) + (?r mod 1000000000 + ?S)"
    by simp
  have "(?r + ?S) div 1000000000 = ?r div 1000000000 + (?r mod 1000000000 + ?S) div 1000000000"
    by (subst split) (simp only: div_mult_self4 zero_neq_numeral not_False_eq_True)
  moreover have "(?r + ?S) mod 1000000000 = (?r mod 1000000000 + ?S) mod 1000000000"
    by (simp add: mod_add_left_eq)
  ultimately show ?case
    using ih t e Cons.prems by (simp add: algebra_simps)
qed

text \<open>
  The accumulator does not drift: over any sequence of frames (each shorter than
  \<open>2\<^sup>5\<^sup>9\<close> seconds, with a normalised sub-second part), the fixed steps reported since the clock
  was created are exactly the whole number of 30 Hz steps in the total elapsed time, whatever
  the frame boundaries.
\<close>

lemma push_frames_no_drift:
  assumes "\<forall>d \<in> set ds. duration_wf d"
  shows "fst (push_frames new_clock ds) = 30 * sum_list (map nanos ds) div 1000000000"
  using push_frames_exact [OF assms, of new_clock] by (cases "push_frames new_clock ds")
    (simp add: new_clock_def)

section \<open>Lemmas: allocation\<close>

lemma allocate_cases:
  "allocate a = (if next_id a = - 1 then (None, a)
     else (Some (EntityId (next_id a)), a\<lparr>next_id := next_id a + 1\<rparr>))"
proof -
  have "next_id a \<noteq> - 1 \<Longrightarrow> next_id a + 1 \<noteq> 0"
    by (metis add_diff_cancel_right' diff_0)
  then show ?thesis
    by (simp add: allocate_def checked_add_one)
qed

lemma allocate_many_prefix:
  assumes "allocate_many n a = (es, a')" and "next_id a \<noteq> 0"
    and "unat (next_id a) + n < 2 ^ 64"
  shows "map (\<lambda>e. unat (entity_value (the e))) es = [unat (next_id a) ..< unat (next_id a) + n]
    \<and> None \<notin> set es \<and> unat (next_id a') = unat (next_id a) + n"
  using assms
proof (induction n arbitrary: a es)
  case 0
  then show ?case by simp
next
  case (Suc n)
  have ne: "next_id a \<noteq> - 1"
    using Suc.prems(3) by (auto simp: unat_max_word)
  have u: "unat (next_id a + 1) = unat (next_id a) + 1"
    using Suc.prems(3) by (simp add: unat_word_ariths)
  obtain es1 where f: "allocate_many n (a\<lparr>next_id := next_id a + 1\<rparr>) = (es1, a')"
    and es: "es = Some (EntityId (next_id a)) # es1"
    using Suc.prems(1) ne by (auto simp: allocate_cases split: prod.splits)
  have "next_id a + 1 \<noteq> 0"
    using u by (metis unat_0 add_is_0 one_neq_zero)
  with Suc.IH [OF f] Suc.prems u have
    "map (\<lambda>e. unat (entity_value (the e))) es1 = [Suc (unat (next_id a)) ..< Suc (unat (next_id a)) + n]
     \<and> None \<notin> set es1 \<and> unat (next_id a') = Suc (unat (next_id a)) + n"
    by simp
  then show ?case
    by (simp add: es upt_rec)
qed

text \<open>
  Until the 64-bit space is exhausted, successive allocations from the default allocator never
  fail and hand out the identifiers 1, 2, 3, ... in order.
\<close>

lemma allocate_many_consecutive:
  assumes "n < 2 ^ 64 - 1"
  shows "map (map_option (unat \<circ> entity_value)) (fst (allocate_many n default_allocator))
       = map Some [1 ..< n + 1]"
proof -
  obtain es a' where r: "allocate_many n default_allocator = (es, a')"
    by fastforce
  have "map (\<lambda>e. unat (entity_value (the e))) es = [1 ..< n + 1] \<and> None \<notin> set es"
    using allocate_many_prefix [OF r] assms by (simp add: default_allocator_def add.commute)
  moreover have "None \<notin> set xs \<Longrightarrow> map (map_option (unat \<circ> entity_value)) xs
    = map Some (map (\<lambda>e. unat (entity_value (the e))) xs)" for xs
    by (induction xs) (auto, metis option.collapse)
  ultimately show ?thesis
    unfolding r fst_conv by metis
qed

text \<open>The exhausted allocator refuses every request and keeps its state; the value
  \<open>u64::MAX\<close>, which \<open>peek\<close> still shows, is never handed out.\<close>

lemma allocate_exhausted:
  "next_id a = - 1 \<Longrightarrow> allocate a = (None, a) \<and> peek a = EntityId (- 1)"
  by (simp add: allocate_cases peek_def)

lemma allocate_never_max: "allocate a = (Some e, a') \<Longrightarrow> entity_value e \<noteq> - 1"
  by (auto simp: allocate_cases split: if_splits)

section \<open>Concrete runs\<close>

end
