(* ===== verification/Direct_Hit_Damage.thy ===== *)
theory Direct_Hit_Damage
  imports Simulation_Clock
begin

text \<open>
  Direct-hit damage resolution (\<open>sim_core/src/damage.rs\<close>): request validation, the
  fixed-point pipeline attacker multiplier, resistance, strongest reduction, armor, half-up
  rounding, barrier, health cap, health; and the damage-band classification.
\<close>

definition BASIS_POINTS_PER_ONE :: u32 where
  "BASIS_POINTS_PER_ONE = 10000"

definition ARMOR_MAX_REDUCTION_BASIS_POINTS :: u32 where
  "ARMOR_MAX_REDUCTION_BASIS_POINTS = 3500"

definition ORDINARY_RESISTANCE_CAP_BASIS_POINTS :: int where
  "ORDINARY_RESISTANCE_CAP_BASIS_POINTS = 2500"

datatype damage_type = Physical | Veil

datatype damage_band = Chip | Pressure | Major | Severe | Execution

datatype damage_error =
    SourceEqualsTarget
  | CollisionNotConfirmed
  | TargetImmune
  | ZeroRawDamage
  | ZeroAttackerMultiplier
  | InvalidDirectDamageReduction
  | InvalidHealthDamageCap
  | ZeroMaxHealth
  | TargetAlreadyDead
  | HealthExceedsMaximum
  | ArithmeticOverflow

datatype damage_band_error =
    BandZeroMaxHealth
  | BandZeroDamage
  | BelowChipMinimum
  | DeclaredBandMismatch damage_band damage_band
  | ExecutionForbidden

record direct_hit_parameters =
  hit_source :: entity_id
  hit_target :: entity_id
  collision_confirmed :: bool
  target_is_immune :: bool
  raw_damage :: u32
  hit_damage_type :: damage_type
  attacker_multiplier_basis_points :: u32
  target_resistance_basis_points :: i32
  direct_damage_reductions_basis_points :: "u32 list"
  hit_armor :: u32
  current_barrier :: u32
  health_damage_cap_basis_points :: "u32 option"
  current_health :: u32
  max_health :: u32

datatype direct_hit_request = DirectHitRequest (parameters: direct_hit_parameters)

definition new_direct_hit_request :: "direct_hit_parameters \<Rightarrow> damage_error + direct_hit_request" where
  "new_direct_hit_request p =
     (if hit_source p = hit_target p then Inl SourceEqualsTarget
      else if \<not> collision_confirmed p then Inl CollisionNotConfirmed
      else if target_is_immune p then Inl TargetImmune
      else if raw_damage p = 0 then Inl ZeroRawDamage
      else if attacker_multiplier_basis_points p = 0 then Inl ZeroAttackerMultiplier
      else if list_ex (\<lambda>r. r > BASIS_POINTS_PER_ONE) (direct_damage_reductions_basis_points p)
        then Inl InvalidDirectDamageReduction
      else if (case health_damage_cap_basis_points p of None \<Rightarrow> False
               | Some cap \<Rightarrow> cap = 0 \<or> cap > BASIS_POINTS_PER_ONE)
        then Inl InvalidHealthDamageCap
      else if max_health p = 0 then Inl ZeroMaxHealth
      else if current_health p = 0 then Inl TargetAlreadyDead
      else if current_health p > max_health p then Inl HealthExceedsMaximum
      else Inr (DirectHitRequest p))"

record damage_event =
  ev_source :: entity_id
  ev_target :: entity_id
  ev_damage_type :: damage_type
  ev_raw_damage :: u32
  ev_attacker_multiplier :: u32
  damage_after_attacker_fixed :: u64
  resistance_input_basis_points :: i32
  resistance_applied_basis_points :: i32
  damage_after_resistance_fixed :: u64
  strongest_direct_reduction_basis_points :: u32
  damage_after_direct_reduction_fixed :: u64
  ev_armor :: u32
  armor_max_reduction_fixed :: u64
  armor_reduction_fixed :: u64
  post_armor_damage_fixed :: u64
  post_armor_damage :: u32
  barrier_before :: u32
  barrier_absorbed :: u32
  barrier_after :: u32
  damage_after_barrier :: u32
  ev_health_damage_cap_basis_points :: "u32 option"
  health_damage_cap :: "u32 option"
  cap_reduction :: u32
  health_damage_after_cap :: u32
  health_before :: u32
  health_damage_applied :: u32
  health_after :: u32
  resolved_band :: "damage_band option"
  lethal :: bool

definition classify_damage_band :: "u32 \<Rightarrow> u32 \<Rightarrow> damage_band option" where
  "classify_damage_band final_damage maximum_health =
     (if final_damage = 0 \<or> maximum_health = 0 then None
      else let damage = (ucast final_damage :: u128) * ucast BASIS_POINTS_PER_ONE;
               maximum = (ucast maximum_health :: u128)
           in Some (if damage \<le> maximum * 800 then Chip
                    else if damage \<le> maximum * 1800 then Pressure
                    else if damage \<le> maximum * 3500 then Major
                    else if damage \<le> maximum * 6000 then Severe
                    else Execution))"

definition validate_damage_band ::
  "damage_band \<Rightarrow> u32 \<Rightarrow> u32 \<Rightarrow> bool \<Rightarrow> damage_band_error + unit" where
  "validate_damage_band declared final_damage maximum_health execution_allowed =
     (if maximum_health = 0 then Inl BandZeroMaxHealth
      else if final_damage = 0 then Inl BandZeroDamage
      else if (ucast final_damage :: u128) * ucast BASIS_POINTS_PER_ONE < ucast maximum_health * 100
        then Inl BelowChipMinimum
      else and_then (ok_or (classify_damage_band final_damage maximum_health) BandZeroDamage)
        (\<lambda>resolved.
          if resolved \<noteq> declared then Inl (DeclaredBandMismatch declared resolved)
          else if resolved = Execution \<and> \<not> execution_allowed then Inl ExecutionForbidden
          else Inr ()))"

definition multiply_fixed :: "u64 \<Rightarrow> u32 \<Rightarrow> damage_error + u64" where
  "multiply_fixed v multiplier =
     ok_or (map_option (\<lambda>product. product div ucast BASIS_POINTS_PER_ONE)
              (checked_mul v (ucast multiplier))) ArithmeticOverflow"

definition round_positive_damage_half_up :: "u64 \<Rightarrow> damage_error + u32" where
  "round_positive_damage_half_up value_fixed =
     (if value_fixed = 0 then Inr 0
      else and_then (ok_or (checked_add value_fixed (ucast (BASIS_POINTS_PER_ONE div 2))) ArithmeticOverflow)
        (\<lambda>s. ok_or (try_from_word (max (s div ucast BASIS_POINTS_PER_ONE) 1)) ArithmeticOverflow))"

text \<open>\<open>i32::clamp\<close>, and the factor \<open>u32::try_from(10_000_i64 - i64::from(resistance))\<close>.\<close>

definition clamp_resistance :: "i32 \<Rightarrow> i32" where
  "clamp_resistance r =
     word_of_int (max (- ORDINARY_RESISTANCE_CAP_BASIS_POINTS)
                      (min ORDINARY_RESISTANCE_CAP_BASIS_POINTS (sint r)))"

definition resistance_factor :: "i32 \<Rightarrow> damage_error + u32" where
  "resistance_factor r =
     (let f = uint BASIS_POINTS_PER_ONE - sint r
      in if 0 \<le> f \<and> f < 2 ^ 32 then Inr (word_of_int f) else Inl ArithmeticOverflow)"

definition resolve_health_damage_cap :: "u32 \<Rightarrow> u32 option \<Rightarrow> damage_error + u32 option" where
  "resolve_health_damage_cap maximum_health cap_bp =
     (case cap_bp of
        None \<Rightarrow> Inr None
      | Some cap \<Rightarrow>
          and_then (ok_or (Option.bind (map_option (\<lambda>scaled. scaled div ucast BASIS_POINTS_PER_ONE)
              (checked_mul (ucast maximum_health :: u64) (ucast cap))) try_from_word) ArithmeticOverflow)
            (\<lambda>c. Inr (Some c)))"

definition resolve_direct_hit :: "direct_hit_request \<Rightarrow> damage_error + damage_event" where
  "resolve_direct_hit request =
    (let input = parameters request in
     and_then (ok_or (checked_mul (ucast (raw_damage input) :: u64)
                (ucast (attacker_multiplier_basis_points input))) ArithmeticOverflow)
     (\<lambda>after_attacker.
     let resistance_applied = clamp_resistance (target_resistance_basis_points input) in
     and_then (resistance_factor resistance_applied) (\<lambda>factor.
     and_then (multiply_fixed after_attacker factor) (\<lambda>after_resistance.
     let strongest = fold max (direct_damage_reductions_basis_points input) 0;
         reduction_factor = BASIS_POINTS_PER_ONE - strongest in
     and_then (multiply_fixed after_resistance reduction_factor) (\<lambda>after_reduction.
     and_then (multiply_fixed after_reduction ARMOR_MAX_REDUCTION_BASIS_POINTS) (\<lambda>armor_max.
     and_then (ok_or (checked_mul (ucast (hit_armor input) :: u64) (ucast BASIS_POINTS_PER_ONE))
                ArithmeticOverflow) (\<lambda>armor_fixed.
     let armor_reduction = min armor_fixed armor_max in
     and_then (ok_or (checked_sub after_reduction armor_reduction) ArithmeticOverflow) (\<lambda>post_armor_fixed.
     and_then (round_positive_damage_half_up post_armor_fixed) (\<lambda>post_armor.
     let absorbed = min (current_barrier input) post_armor;
         after_barrier = post_armor - absorbed in
     and_then (resolve_health_damage_cap (max_health input) (health_damage_cap_basis_points input)) (\<lambda>hcap.
     let after_cap = (case hcap of None \<Rightarrow> after_barrier | Some cap \<Rightarrow> min after_barrier cap);
         applied = min (current_health input) after_cap;
         health = current_health input - applied in
     Inr \<lparr>ev_source = hit_source input,
          ev_target = hit_target input,
          ev_damage_type = hit_damage_type input,
          ev_raw_damage = raw_damage input,
          ev_attacker_multiplier = attacker_multiplier_basis_points input,
          damage_after_attacker_fixed = after_attacker,
          resistance_input_basis_points = target_resistance_basis_points input,
          resistance_applied_basis_points = resistance_applied,
          damage_after_resistance_fixed = after_resistance,
          strongest_direct_reduction_basis_points = strongest,
          damage_after_direct_reduction_fixed = after_reduction,
          ev_armor = hit_armor input,
          armor_max_reduction_fixed = armor_max,
          armor_reduction_fixed = armor_reduction,
          post_armor_damage_fixed = post_armor_fixed,
          post_armor_damage = post_armor,
          barrier_before = current_barrier input,
          barrier_absorbed = absorbed,
          barrier_after = current_barrier input - absorbed,
          damage_after_barrier = after_barrier,
          ev_health_damage_cap_basis_points = health_damage_cap_basis_points input,
          health_damage_cap = hcap,
          cap_reduction = after_barrier - after_cap,
          health_damage_after_cap = after_cap,
          health_before = current_health input,
          health_damage_applied = applied,
          health_after = health,
          resolved_band = classify_damage_band after_cap (max_health input),
          lethal = (health = 0)\<rparr>))))))))))"

section \<open>The reference arithmetic\<close>

text \<open>
  The \<open>COM-002\<close> order over unbounded naturals: no machine width, no intermediate error.
\<close>

definition applied_resistance :: "direct_hit_parameters \<Rightarrow> int" where
  "applied_resistance p = max (- 2500) (min 2500 (sint (target_resistance_basis_points p)))"

definition strongest_reduction :: "direct_hit_parameters \<Rightarrow> nat" where
  "strongest_reduction p = fold max (map unat (direct_damage_reductions_basis_points p)) 0"

definition spec_after_resistance :: "direct_hit_parameters \<Rightarrow> nat" where
  "spec_after_resistance p =
     unat (raw_damage p) * unat (attacker_multiplier_basis_points p)
       * nat (10000 - applied_resistance p) div 10000"

definition spec_after_reduction :: "direct_hit_parameters \<Rightarrow> nat" where
  "spec_after_reduction p = spec_after_resistance p * (10000 - strongest_reduction p) div 10000"

definition spec_post_armor_fixed :: "direct_hit_parameters \<Rightarrow> nat" where
  "spec_post_armor_fixed p =
     spec_after_reduction p
       - min (unat (hit_armor p) * 10000) (spec_after_reduction p * 3500 div 10000)"

definition half_up :: "nat \<Rightarrow> nat" where
  "half_up x = (if x = 0 then 0 else max 1 ((x + 5000) div 10000))"

definition spec_post_armor :: "direct_hit_parameters \<Rightarrow> nat" where
  "spec_post_armor p = half_up (spec_post_armor_fixed p)"

definition spec_health_damage :: "direct_hit_parameters \<Rightarrow> nat" where
  "spec_health_damage p =
     (let through = spec_post_armor p - unat (current_barrier p);
          capped = (case health_damage_cap_basis_points p of None \<Rightarrow> through
                    | Some cap \<Rightarrow> min through (unat (max_health p) * unat cap div 10000))
      in min (unat (current_health p)) capped)"

section \<open>Lemmas: the fixed-point steps\<close>

lemma unat_basis_points: "unat BASIS_POINTS_PER_ONE = 10000"
  "unat (ucast BASIS_POINTS_PER_ONE :: u64) = 10000"
  "unat (ucast BASIS_POINTS_PER_ONE :: u128) = 10000"
  "unat (BASIS_POINTS_PER_ONE div 2) = 5000"
  "uint BASIS_POINTS_PER_ONE = 10000"
  "unat ARMOR_MAX_REDUCTION_BASIS_POINTS = 3500"
  by (simp_all add: BASIS_POINTS_PER_ONE_def ARMOR_MAX_REDUCTION_BASIS_POINTS_def)

lemma unat_widen_u32 [simp]: "unat (ucast (x :: u32) :: u64) = unat x"
  "unat (ucast (x :: u32) :: u128) = unat x"
  by (simp_all add: unat_ucast_widen)

lemma multiply_fixed_eq_Inr [rust_simps]:
  "multiply_fixed v m = Inr w \<longleftrightarrow>
     unat v * unat m < 2 ^ 64 \<and> unat w = unat v * unat m div 10000"
proof -
  have "(\<exists>p. checked_mul v (ucast m) = Some p \<and> w = p div ucast BASIS_POINTS_PER_ONE) \<longleftrightarrow>
    unat v * unat m < 2 ^ 64 \<and> unat w = unat v * unat m div 10000" (is "?L \<longleftrightarrow> ?R")
  proof
    assume ?L
    then obtain p where p: "unat p = unat v * unat m" "w = p div ucast BASIS_POINTS_PER_ONE"
      by (auto simp: checked_mul_eq_Some)
    moreover have "unat v * unat m < 2 ^ 64"
      using unat_bound [of p] p by simp
    ultimately show ?R
      by (simp add: unat_div unat_basis_points)
  next
    assume R: ?R
    define p :: u64 where "p = of_nat (unat v * unat m)"
    have p: "unat p = unat v * unat m"
      using R unfolding p_def by (intro unat_of_nat_bounded) simp
    then have "w = p div ucast BASIS_POINTS_PER_ONE"
      using R by (simp add: word_unat_eq_iff unat_div unat_basis_points)
    with p show ?L
      by (auto simp: checked_mul_eq_Some)
  qed
  then show ?thesis
    by (auto simp: multiply_fixed_def)
qed

lemma round_half_up_eq_Inr [rust_simps]:
  "round_positive_damage_half_up v = Inr w \<Longrightarrow> unat w = half_up (unat v)"
  by (auto simp: round_positive_damage_half_up_def half_up_def checked_add_eq_Some
      try_from_word_eq_Some max_def word_le_nat_alt unat_div unat_basis_points unat_eq_zero
      split: if_splits)

lemma round_half_up_total:
  assumes "unat v + 5000 < 2 ^ 64" and "half_up (unat v) < 2 ^ 32"
  shows "\<exists>w. round_positive_damage_half_up v = Inr w"
proof (cases "v = 0")
  case False
  obtain t where t: "checked_add v (ucast (BASIS_POINTS_PER_ONE div 2)) = Some t"
    using assms(1) checked_add_eq_None [of v "ucast (BASIS_POINTS_PER_ONE div 2)"]
    by (cases "checked_add v (ucast (BASIS_POINTS_PER_ONE div 2))") (auto simp: unat_basis_points)
  then have "unat t = unat v + 5000"
    by (simp add: checked_add_eq_Some unat_basis_points)
  then have "unat (max (t div ucast BASIS_POINTS_PER_ONE) 1) = half_up (unat v)"
    using False by (auto simp: half_up_def max_def word_le_nat_alt unat_div unat_basis_points
        unat_eq_zero)
  with assms(2) obtain w where
    "try_from_word (max (t div ucast BASIS_POINTS_PER_ONE) 1) = Some (w :: u32)"
    using try_from_word_eq_None [of "max (t div ucast BASIS_POINTS_PER_ONE) 1", where 'b = 32]
    by (cases "try_from_word (max (t div ucast BASIS_POINTS_PER_ONE) 1) :: u32 option") auto
  with t False show ?thesis
    by (simp add: round_positive_damage_half_up_def)
qed (simp add: round_positive_damage_half_up_def)

lemma sint_clamp_resistance:
  "sint (clamp_resistance r) = max (- 2500) (min 2500 (sint r))"
  by (simp add: clamp_resistance_def ORDINARY_RESISTANCE_CAP_BASIS_POINTS_def sint_sbintrunc'
      signed_take_bit_int_eq_self)

lemma resistance_factor_clamped:
  "\<exists>f. resistance_factor (clamp_resistance r) = Inr f
     \<and> unat f = nat (10000 - max (- 2500) (min 2500 (sint r)))"
proof -
  define f where "f = 10000 - max (- 2500) (min 2500 (sint r))"
  then have f: "0 \<le> f" "f < 2 ^ 32"
    by (auto simp: max_def min_def)
  then have "resistance_factor (clamp_resistance r) = Inr (word_of_int f)"
    by (simp add: resistance_factor_def Let_def unat_basis_points sint_clamp_resistance f_def)
  moreover from f have "uint (word_of_int f :: u32) = f"
    by (simp add: uint_word_of_int)
  ultimately show ?thesis
    unfolding f_def [symmetric] by (metis unat_eq_nat_uint)
qed

lemma unat_fold_max: "unat (fold max xs a) = fold max (map unat xs) (unat (a :: 'a::len word))"
  by (induction xs arbitrary: a) (auto simp: max_def word_le_nat_alt)

lemma fold_max_le: "\<forall>x \<in> set xs. x \<le> b \<Longrightarrow> a \<le> b \<Longrightarrow> fold max xs a \<le> (b :: 'a::linorder)"
  by (induction xs arbitrary: a) auto

lemma fold_max_ge: "a \<le> fold max xs (a :: 'a::linorder)"
  by (induction xs arbitrary: a) (auto intro: order_trans [OF max.cobounded2])

section \<open>Lemmas: the pipeline against the reference\<close>

lemma new_request_valid:
  assumes "new_direct_hit_request p = Inr r"
  shows "parameters r = p" "strongest_reduction p \<le> 10000"
    "current_health p \<le> max_health p" "current_health p \<noteq> 0"
    "health_damage_cap_basis_points p = Some cap \<Longrightarrow> unat cap \<le> 10000"
    "hit_source p \<noteq> hit_target p"
proof -
  have red: "list_ex (\<lambda>r. r > BASIS_POINTS_PER_ONE) xs = False \<Longrightarrow>
      fold max (map unat xs) 0 \<le> 10000" for xs :: "u32 list"
    by (intro fold_max_le) (auto simp: list_ex_iff word_less_nat_alt unat_basis_points not_less)
  show "parameters r = p" "strongest_reduction p \<le> 10000"
    "current_health p \<le> max_health p" "current_health p \<noteq> 0" "hit_source p \<noteq> hit_target p"
    "health_damage_cap_basis_points p = Some cap \<Longrightarrow> unat cap \<le> 10000"
    using assms red [of "direct_damage_reductions_basis_points p"]
    by (auto simp: new_direct_hit_request_def strongest_reduction_def word_less_nat_alt
        word_le_nat_alt unat_basis_points split: if_splits option.splits)
qed

lemma unat_reduction_factor:
  assumes "strongest_reduction p \<le> 10000"
  shows "unat (BASIS_POINTS_PER_ONE - fold max (direct_damage_reductions_basis_points p) 0)
    = 10000 - strongest_reduction p"
proof -
  have u: "unat (fold max (direct_damage_reductions_basis_points p) 0) = strongest_reduction p"
    by (simp add: strongest_reduction_def unat_fold_max)
  with assms have "fold max (direct_damage_reductions_basis_points p) 0 \<le> BASIS_POINTS_PER_ONE"
    by (simp add: word_le_nat_alt unat_basis_points)
  with u show ?thesis
    by (simp add: unat_sub unat_basis_points)
qed

lemma health_cap_eq_Inr:
  assumes "resolve_health_damage_cap m cap_bp = Inr hcap"
  shows "hcap = None \<longleftrightarrow> cap_bp = None"
    and "cap_bp = Some cap \<Longrightarrow> hcap = Some c \<Longrightarrow> unat c = unat m * unat cap div 10000"
  using assms
  by (auto simp: resolve_health_damage_cap_def try_from_word_eq_Some checked_mul_eq_Some
      bind_eq_Some_conv unat_div unat_basis_points split: option.splits)

lemma health_cap_total:
  assumes "\<And>cap. cap_bp = Some cap \<Longrightarrow> unat cap \<le> 10000"
  shows "\<exists>hcap. resolve_health_damage_cap m cap_bp = Inr hcap"
proof (cases cap_bp)
  case (Some cap)
  have b: "unat m * unat cap \<le> unat m * 10000" "unat m < 2 ^ 32"
    using assms [OF Some] unat_bound [of m] by simp_all
  have "unat m * unat cap < 2 ^ 64"
    by (rule le_less_trans [OF b(1)]) (use b(2) in simp)
  then obtain x where x: "checked_mul (ucast m :: u64) (ucast cap) = Some x"
    using checked_mul_eq_None [of "ucast m :: u64" "ucast cap"]
    by (cases "checked_mul (ucast m :: u64) (ucast cap)") auto
  then have "unat (x div ucast BASIS_POINTS_PER_ONE) = unat m * unat cap div 10000"
    by (simp add: checked_mul_eq_Some unat_div unat_basis_points)
  moreover have "unat m * unat cap div 10000 < 2 ^ 32"
    using b by (simp only: div_less_iff_less_mult)
  ultimately obtain c :: u32 where "try_from_word (x div ucast BASIS_POINTS_PER_ONE) = Some c"
    using try_from_word_eq_None [of "x div ucast BASIS_POINTS_PER_ONE", where 'b = 32]
    by (cases "try_from_word (x div ucast BASIS_POINTS_PER_ONE) :: u32 option") auto
  with x Some show ?thesis
    by (simp add: resolve_health_damage_cap_def)
qed (simp add: resolve_health_damage_cap_def)

text \<open>What a resolved event records, one conjunct per step of the pipeline.\<close>

lemma resolve_direct_hit_steps:
  assumes "resolve_direct_hit r = Inr ev"
  shows "checked_mul (ucast (raw_damage (parameters r)))
      (ucast (attacker_multiplier_basis_points (parameters r))) = Some (damage_after_attacker_fixed ev)"
    and "\<exists>f. resistance_factor (clamp_resistance (target_resistance_basis_points (parameters r))) = Inr f
      \<and> multiply_fixed (damage_after_attacker_fixed ev) f = Inr (damage_after_resistance_fixed ev)"
    and "multiply_fixed (damage_after_resistance_fixed ev) (BASIS_POINTS_PER_ONE -
      fold max (direct_damage_reductions_basis_points (parameters r)) 0)
      = Inr (damage_after_direct_reduction_fixed ev)"
    and "multiply_fixed (damage_after_direct_reduction_fixed ev) ARMOR_MAX_REDUCTION_BASIS_POINTS
      = Inr (armor_max_reduction_fixed ev)"
    and "\<exists>a. checked_mul (ucast (hit_armor (parameters r)) :: u64) (ucast BASIS_POINTS_PER_ONE) = Some a
      \<and> armor_reduction_fixed ev = min a (armor_max_reduction_fixed ev)"
    and "checked_sub (damage_after_direct_reduction_fixed ev) (armor_reduction_fixed ev)
      = Some (post_armor_damage_fixed ev)"
    and "round_positive_damage_half_up (post_armor_damage_fixed ev) = Inr (post_armor_damage ev)"
    and "barrier_absorbed ev = min (current_barrier (parameters r)) (post_armor_damage ev)"
    and "barrier_before ev = current_barrier (parameters r)"
    and "barrier_after ev = barrier_before ev - barrier_absorbed ev"
    and "damage_after_barrier ev = post_armor_damage ev - barrier_absorbed ev"
    and "resolve_health_damage_cap (max_health (parameters r))
      (health_damage_cap_basis_points (parameters r)) = Inr (health_damage_cap ev)"
    and "health_damage_after_cap ev = (case health_damage_cap ev of None \<Rightarrow> damage_after_barrier ev
      | Some c \<Rightarrow> min (damage_after_barrier ev) c)"
    and "cap_reduction ev = damage_after_barrier ev - health_damage_after_cap ev"
    and "health_before ev = current_health (parameters r)"
    and "health_damage_applied ev = min (health_before ev) (health_damage_after_cap ev)"
    and "health_after ev = health_before ev - health_damage_applied ev"
    and "lethal ev \<longleftrightarrow> health_after ev = 0"
  using assms unfolding resolve_direct_hit_def Let_def and_then_eq_Inr ok_or_eq_Inr sum.inject
  by (clarify, (simp only: damage_event.select_convs; fail | (simp only: damage_event.select_convs, blast)))+

lemma resolve_direct_hit_spec:
  assumes new: "new_direct_hit_request p = Inr r" and ok: "resolve_direct_hit r = Inr ev"
  shows "unat (damage_after_direct_reduction_fixed ev) = spec_after_reduction p"
    and "unat (post_armor_damage_fixed ev) = spec_post_armor_fixed p"
    and "unat (post_armor_damage ev) = spec_post_armor p"
    and "unat (health_damage_applied ev) = spec_health_damage p"
proof -
  note v = new_request_valid [OF new] and st = resolve_direct_hit_steps [OF ok, unfolded v(1)]
  obtain f where f: "resistance_factor (clamp_resistance (target_resistance_basis_points p)) = Inr f"
    "unat f = nat (10000 - applied_resistance p)"
    using resistance_factor_clamped unfolding applied_resistance_def by blast
  have "unat (damage_after_attacker_fixed ev) =
      unat (raw_damage p) * unat (attacker_multiplier_basis_points p)"
    using st(1) [unfolded v(1)] by (simp add: checked_mul_eq_Some)
  then have res: "unat (damage_after_resistance_fixed ev) = spec_after_resistance p"
    using st(2) [unfolded v(1)] f by (auto simp: multiply_fixed_eq_Inr spec_after_resistance_def)
  show red: "unat (damage_after_direct_reduction_fixed ev) = spec_after_reduction p"
    using st(3) [unfolded v(1)] res
    by (simp add: multiply_fixed_eq_Inr spec_after_reduction_def unat_reduction_factor [OF v(2)])
  have "unat (armor_max_reduction_fixed ev) = spec_after_reduction p * 3500 div 10000"
    using st(4) red by (simp add: multiply_fixed_eq_Inr unat_basis_points)
  then have "unat (armor_reduction_fixed ev) =
      min (unat (hit_armor p) * 10000) (spec_after_reduction p * 3500 div 10000)"
    using st(5) [unfolded v(1)] by (auto simp: checked_mul_eq_Some unat_min unat_basis_points)
  then show fixed: "unat (post_armor_damage_fixed ev) = spec_post_armor_fixed p"
    using st(6) red by (simp add: checked_sub_eq_Some spec_post_armor_fixed_def)
  show post: "unat (post_armor_damage ev) = spec_post_armor p"
    using round_half_up_eq_Inr [OF st(7)] fixed by (simp add: spec_post_armor_def)
  have "unat (damage_after_barrier ev) = spec_post_armor p - unat (current_barrier p)"
    using st(8,11) post v(1) by (simp add: unat_diff_min)
  then show "unat (health_damage_applied ev) = spec_health_damage p"
    using st(13,15,16) health_cap_eq_Inr [OF st(12)] v(1)
    by (auto simp: unat_min spec_health_damage_def Let_def split: option.splits)
qed

section \<open>Properties of direct hits\<close>

text \<open>
  C35. For every request that passes validation, a resolved event computes exactly the reference
  arithmetic: the fixed-width pipeline with its checked steps agrees with the \<open>COM-002\<close> order
  over unbounded naturals in the rounded post-armor damage and in the health removed, and the
  target's new health is the old one less that amount.
\<close>

theorem resolve_direct_hit_refines_reference:
  assumes "new_direct_hit_request p = Inr r" and "resolve_direct_hit r = Inr ev"
  shows "unat (post_armor_damage ev) = spec_post_armor p
    \<and> unat (health_damage_applied ev) = spec_health_damage p
    \<and> unat (health_after ev) = unat (current_health p) - spec_health_damage p"
proof -
  note spec = resolve_direct_hit_spec [OF assms]
  note st = resolve_direct_hit_steps [OF assms(2), unfolded new_request_valid(1) [OF assms(1)]]
  have "unat (health_after ev) = unat (current_health p) - unat (health_damage_applied ev)"
    using st(15,16,17) by (simp add: unat_sub unat_min)
  with spec show ?thesis by simp
qed

text \<open>
  Damage is accounted for exactly, and none of the unchecked subtractions of the pipeline can
  wrap: absorbed, capped-off and health damage add up to the post-armor damage; barrier and
  health before the hit are what remains plus what was taken; the applied damage is at most the
  target's health; and the event is lethal exactly when no health is left.
\<close>

lemma resolve_direct_hit_parts:
  assumes "resolve_direct_hit r = Inr ev"
  shows "unat (barrier_absorbed ev) + unat (cap_reduction ev) + unat (health_damage_after_cap ev)
      = unat (post_armor_damage ev)
    \<and> unat (barrier_after ev) + unat (barrier_absorbed ev) = unat (current_barrier (parameters r))
    \<and> unat (health_after ev) + unat (health_damage_applied ev) = unat (current_health (parameters r))
    \<and> (lethal ev \<longleftrightarrow> current_health (parameters r) \<le> health_damage_after_cap ev)"
proof -
  note st = resolve_direct_hit_steps [OF assms]
  have "unat (damage_after_barrier ev) + unat (barrier_absorbed ev) = unat (post_armor_damage ev)"
    using st(8,11) by (simp add: unat_sub unat_min)
  moreover have le: "unat (health_damage_after_cap ev) \<le> unat (damage_after_barrier ev)"
    using st(13) by (auto simp: unat_min split: option.splits)
  then have "unat (cap_reduction ev) + unat (health_damage_after_cap ev) = unat (damage_after_barrier ev)"
    using st(14) by (simp add: unat_sub word_le_nat_alt)
  moreover have "unat (barrier_after ev) + unat (barrier_absorbed ev) = unat (current_barrier (parameters r))"
    using st(8,9,10) by (simp add: unat_sub unat_min)
  moreover have health: "unat (health_after ev) + unat (health_damage_applied ev)
      = unat (current_health (parameters r))"
    using st(15,16,17) by (simp add: unat_sub unat_min)
  moreover have "lethal ev \<longleftrightarrow> unat (health_after ev) = 0"
    using st(18) by (simp add: unat_eq_zero)
  moreover have "unat (health_damage_applied ev)
      = min (unat (current_health (parameters r))) (unat (health_damage_after_cap ev))"
    using st(15,16) by (simp add: unat_min)
  ultimately show ?thesis
    by (auto simp: word_le_nat_alt)
qed

lemma multiply_fixed_total:
  assumes "unat v * unat m < 2 ^ 64"
  obtains w where "multiply_fixed v m = Inr w" "unat w = unat v * unat m div 10000"
proof -
  obtain q where "checked_mul v (ucast m) = Some q"
    using assms checked_mul_eq_None [of v "ucast m"] by (cases "checked_mul v (ucast m)") auto
  then have "multiply_fixed v m = Inr (q div ucast BASIS_POINTS_PER_ONE)"
    by (simp add: multiply_fixed_def)
  then show thesis
    using that multiply_fixed_eq_Inr by blast
qed

lemma reduced_damage_total:
  assumes small: "unat (raw_damage p) * unat (attacker_multiplier_basis_points p) < 2 ^ 44"
    and reduction: "strongest_reduction p \<le> 10000"
  shows "\<exists>a f ar ad. checked_mul (ucast (raw_damage p) :: u64) (ucast (attacker_multiplier_basis_points p)) = Some a
    \<and> resistance_factor (clamp_resistance (target_resistance_basis_points p)) = Inr f
    \<and> multiply_fixed a f = Inr ar
    \<and> multiply_fixed ar (BASIS_POINTS_PER_ONE - fold max (direct_damage_reductions_basis_points p) 0) = Inr ad
    \<and> unat ad \<le> 2 ^ 44 * 12500 div 10000"
proof -
  obtain a where a: "checked_mul (ucast (raw_damage p) :: u64)
      (ucast (attacker_multiplier_basis_points p)) = Some a"
    using small checked_mul_eq_None [of "ucast (raw_damage p) :: u64"
        "ucast (attacker_multiplier_basis_points p)"]
    by (cases "checked_mul (ucast (raw_damage p) :: u64) (ucast (attacker_multiplier_basis_points p))") auto
  then have ua: "unat a < 2 ^ 44"
    using small by (simp add: checked_mul_eq_Some)
  obtain f where f: "resistance_factor (clamp_resistance (target_resistance_basis_points p)) = Inr f"
    and uf: "unat f = nat (10000 - max (- 2500) (min 2500 (sint (target_resistance_basis_points p))))"
    using resistance_factor_clamped by blast
  have "unat f \<le> 12500"
    unfolding uf by (simp add: max_def min_def nat_le_iff)
  with ua have af: "unat a * unat f \<le> 2 ^ 44 * 12500"
    by (intro mult_le_mono) simp_all
  then have "unat a * unat f < 2 ^ 64"
    by (rule le_less_trans) simp
  from multiply_fixed_total [OF this]
  obtain ar where ar: "multiply_fixed a f = Inr ar" "unat ar = unat a * unat f div 10000" .
  have uar: "unat ar \<le> 2 ^ 44 * 12500 div 10000"
    unfolding ar(2) using af by (rule div_le_mono)
  let ?k = "BASIS_POINTS_PER_ONE - fold max (direct_damage_reductions_basis_points p) 0"
  have k: "unat ?k \<le> 10000"
    using unat_reduction_factor [OF reduction] by simp
  have "unat ar * unat ?k \<le> 2 ^ 45 * 10000"
    using uar k by (intro mult_le_mono) simp_all
  then have "unat ar * unat ?k < 2 ^ 64"
    by (rule le_less_trans) simp
  from multiply_fixed_total [OF this]
  obtain ad where ad: "multiply_fixed ar ?k = Inr ad" "unat ad = unat ar * unat ?k div 10000" .
  have "unat ar * unat ?k \<le> unat ar * 10000"
    using k by simp
  then have "unat ad \<le> unat ar"
    unfolding ad(2) by (metis div_le_mono nonzero_mult_div_cancel_right zero_neq_numeral)
  then have uad: "unat ad \<le> 2 ^ 44 * 12500 div 10000"
    using uar by (rule order_trans)
  show ?thesis
    using a f ar(1) ad(1) uad by blast
qed

text \<open>
  The overflow error is out of reach for ordinary hits: a validated request whose raw damage
  times attacker multiplier stays below \<open>2\<^sup>4\<^sup>4\<close> always resolves to an event.
\<close>

lemma resolve_direct_hit_succeeds:
  assumes new: "new_direct_hit_request p = Inr r"
    and small: "unat (raw_damage p) * unat (attacker_multiplier_basis_points p) < 2 ^ 44"
  shows "\<exists>ev. resolve_direct_hit r = Inr ev"
proof -
  note v = new_request_valid [OF new]
  let ?k = "BASIS_POINTS_PER_ONE - fold max (direct_damage_reductions_basis_points p) 0"
  obtain a f ar ad where a: "checked_mul (ucast (raw_damage p) :: u64) (ucast (attacker_multiplier_basis_points p)) = Some a"
    and f: "resistance_factor (clamp_resistance (target_resistance_basis_points p)) = Inr f"
    and ar: "multiply_fixed a f = Inr ar" and ad: "multiply_fixed ar ?k = Inr ad"
    and uad: "unat ad \<le> 2 ^ 44 * 12500 div 10000"
    using reduced_damage_total [OF small v(2)] by blast
  have "unat ad * unat ARMOR_MAX_REDUCTION_BASIS_POINTS < 2 ^ 64"
    using uad by (simp add: unat_basis_points)
  from multiply_fixed_total [OF this, unfolded unat_basis_points]
  obtain am where am: "multiply_fixed ad ARMOR_MAX_REDUCTION_BASIS_POINTS = Inr am"
      "unat am = unat ad * 3500 div 10000" .
  have "unat (hit_armor p) * 10000 < 2 ^ 64"
    using unat_bound [of "hit_armor p"] by simp
  then obtain af where af: "checked_mul (ucast (hit_armor p) :: u64) (ucast BASIS_POINTS_PER_ONE) = Some af"
    using checked_mul_eq_None [of "ucast (hit_armor p) :: u64" "ucast BASIS_POINTS_PER_ONE"]
    by (cases "checked_mul (ucast (hit_armor p) :: u64) (ucast BASIS_POINTS_PER_ONE)")
      (auto simp: unat_basis_points)
  have "min af am \<le> ad"
    using am(2) by (simp add: word_le_nat_alt unat_min min.coboundedI2)
  then obtain pf where pf: "checked_sub ad (min af am) = Some pf" "unat pf \<le> unat ad"
    by (simp add: checked_sub_def unat_sub)
  then have "half_up (unat pf) \<le> (2 ^ 44 * 12500 div 10000 + 5000) div 10000"
    using uad by (auto simp: half_up_def intro: div_le_mono)
  then obtain pa where pa: "round_positive_damage_half_up pf = Inr pa"
    using round_half_up_total [of pf] pf(2) uad by auto
  obtain hc where hc: "resolve_health_damage_cap (max_health p) (health_damage_cap_basis_points p) = Inr hc"
    using health_cap_total v(5) by blast
  show ?thesis
    unfolding resolve_direct_hit_def Let_def v(1) a f ar ad am(1) af pf(1) pa hc
      ok_or_Some and_then.simps
    by (simp only: Inr_not_Inl sum.inject ex_simps simp_thms)
qed

lemma half_up_mono: "x \<le> y \<Longrightarrow> half_up x \<le> half_up y"
  by (auto simp: half_up_def intro: max.coboundedI2 div_le_mono)

lemma spec_health_damage_mono_armor:
  assumes "q = p\<lparr>hit_armor := a\<rparr>" and "hit_armor p \<le> a"
  shows "spec_health_damage q \<le> spec_health_damage p"
proof -
  have "spec_after_reduction q = spec_after_reduction p"
    using assms(1) by (simp add: spec_after_reduction_def spec_after_resistance_def
        applied_resistance_def strongest_reduction_def)
  moreover have "unat (hit_armor p) \<le> unat (hit_armor q)"
    using assms by (simp add: word_le_nat_alt)
  ultimately have "spec_post_armor_fixed q \<le> spec_post_armor_fixed p"
    unfolding spec_post_armor_fixed_def by (simp add: diff_le_mono2 min.coboundedI1)
  then have "spec_post_armor q \<le> spec_post_armor p"
    by (simp add: spec_post_armor_def half_up_mono)
  then show ?thesis
    using assms(1) by (auto simp: spec_health_damage_def Let_def split: option.splits)
qed

text \<open>
  Armor is bounded and monotone: it removes at most 35 percent of the damage that reaches it, it
  never turns a hit that reaches it into zero, and of two hits that differ only in the target's
  armor the one against more armor never removes more health.
\<close>

lemma armor_bounded_and_monotone:
  assumes "new_direct_hit_request p = Inr r" and "resolve_direct_hit r = Inr ev"
    and "new_direct_hit_request (p\<lparr>hit_armor := a\<rparr>) = Inr r'" and "resolve_direct_hit r' = Inr ev'"
    and "hit_armor p \<le> a"
  shows "10000 * unat (post_armor_damage_fixed ev) \<ge> 6500 * unat (damage_after_direct_reduction_fixed ev)
    \<and> (damage_after_direct_reduction_fixed ev \<noteq> 0 \<longrightarrow> post_armor_damage ev \<noteq> 0)
    \<and> health_damage_applied ev' \<le> health_damage_applied ev"
proof -
  note s = resolve_direct_hit_spec [OF assms(1,2)] and s' = resolve_direct_hit_spec [OF assms(3,4)]
  have "min (unat (hit_armor p) * 10000) (spec_after_reduction p * 3500 div 10000)
      \<le> spec_after_reduction p * 3500 div 10000"
    by simp
  then have le: "10000 * spec_post_armor_fixed p \<ge> 6500 * spec_after_reduction p"
    unfolding spec_post_armor_fixed_def by linarith
  moreover have "spec_after_reduction p \<noteq> 0 \<Longrightarrow> spec_post_armor p \<noteq> 0"
    using le by (auto simp: spec_post_armor_def half_up_def)
  moreover have "unat (health_damage_applied ev') \<le> unat (health_damage_applied ev)"
    unfolding s(4) s'(4) by (rule spec_health_damage_mono_armor [OF refl assms(5)])
  ultimately show ?thesis
    unfolding word_le_nat_alt s [symmetric] unat_eq_zero [symmetric] by simp
qed

section \<open>Properties of damage bands\<close>

lemma unat_band_scaled:
  fixes x :: u32
  shows "unat ((ucast x :: u128) * ucast BASIS_POINTS_PER_ONE) = unat x * 10000"
    and "n < 2 ^ 32 \<Longrightarrow> unat ((ucast x :: u128) * of_nat n) = unat x * n"
proof -
  have b: "unat x * k < 2 ^ 128" if "k < 2 ^ 32" for k
  proof -
    have "unat x * k \<le> 2 ^ 32 * 2 ^ 32"
      using unat_bound [of x] that by (intro mult_le_mono) simp_all
    then show ?thesis by simp
  qed
  from b [of 10000] show "unat ((ucast x :: u128) * ucast BASIS_POINTS_PER_ONE) = unat x * 10000"
    by (simp add: unat_word_ariths unat_basis_points)
  show "unat ((ucast x :: u128) * of_nat n) = unat x * n" if "n < 2 ^ 32"
    using b [OF that] that by (simp add: unat_word_ariths unat_of_nat)
qed

lemma classify_damage_band_nat:
  "classify_damage_band d m =
     (if d = 0 \<or> m = 0 then None
      else Some (if unat d * 10000 \<le> unat m * 800 then Chip
                 else if unat d * 10000 \<le> unat m * 1800 then Pressure
                 else if unat d * 10000 \<le> unat m * 3500 then Major
                 else if unat d * 10000 \<le> unat m * 6000 then Severe
                 else Execution))"
  using unat_band_scaled(2) [of 800 m] unat_band_scaled(2) [of 1800 m]
    unat_band_scaled(2) [of 3500 m] unat_band_scaled(2) [of 6000 m] unat_band_scaled(1) [of d]
  by (simp add: classify_damage_band_def Let_def word_le_nat_alt)

definition band_interval :: "damage_band \<Rightarrow> nat \<Rightarrow> nat \<Rightarrow> bool" where
  "band_interval b d m =
     (case b of
        Chip \<Rightarrow> m * 100 \<le> d * 10000 \<and> d * 10000 \<le> m * 800
      | Pressure \<Rightarrow> m * 800 < d * 10000 \<and> d * 10000 \<le> m * 1800
      | Major \<Rightarrow> m * 1800 < d * 10000 \<and> d * 10000 \<le> m * 3500
      | Severe \<Rightarrow> m * 3500 < d * 10000 \<and> d * 10000 \<le> m * 6000
      | Execution \<Rightarrow> m * 6000 < d * 10000)"

text \<open>
  Authored band validation accepts exactly the damage of the declared band: at least one percent
  of the reference health, inside the band's half-open percentage interval, and for the
  Execution band only where the content stage allows it.
\<close>

lemma validate_damage_band_exact:
  "validate_damage_band declared d m execution_allowed = Inr () \<longleftrightarrow>
     m \<noteq> 0 \<and> d \<noteq> 0 \<and> band_interval declared (unat d) (unat m)
       \<and> (declared = Execution \<longrightarrow> execution_allowed)"
  using unat_band_scaled(2) [of 100 m] unat_band_scaled(1) [of d]
  by (cases declared) (auto simp: validate_damage_band_def classify_damage_band_nat
      band_interval_def word_less_nat_alt)

section \<open>A concrete hit\<close>

definition sample_hit :: direct_hit_parameters where
  "sample_hit =
     \<lparr>hit_source = EntityId 1, hit_target = EntityId 2, collision_confirmed = True,
      target_is_immune = False, raw_damage = 100, hit_damage_type = Physical,
      attacker_multiplier_basis_points = 10000, target_resistance_basis_points = 0,
      direct_damage_reductions_basis_points = [1000, 2000], hit_armor = 10, current_barrier = 5,
      health_damage_cap_basis_points = Some 6000, current_health = 80, max_health = 100\<rparr>"

lemma sample_hit_request:
  "new_direct_hit_request sample_hit = Inr (DirectHitRequest sample_hit)"
  "new_direct_hit_request (sample_hit\<lparr>hit_armor := 20\<rparr>) = Inr (DirectHitRequest (sample_hit\<lparr>hit_armor := 20\<rparr>))"
  by (simp_all add: new_direct_hit_request_def sample_hit_def BASIS_POINTS_PER_ONE_def)

lemma sample_hit_resolves:
  "\<exists>ev. resolve_direct_hit (DirectHitRequest sample_hit) = Inr ev \<and> health_damage_applied ev = 60"
  "\<exists>ev. resolve_direct_hit (DirectHitRequest (sample_hit\<lparr>hit_armor := 20\<rparr>)) = Inr ev"
  by (simp_all add: resolve_direct_hit_def sample_hit_def Let_def checked_mul_def clamp_resistance_def
      ORDINARY_RESISTANCE_CAP_BASIS_POINTS_def resistance_factor_def BASIS_POINTS_PER_ONE_def
      multiply_fixed_def ARMOR_MAX_REDUCTION_BASIS_POINTS_def checked_sub_def
      round_positive_damage_half_up_def checked_add_def try_from_word_def resolve_health_damage_cap_def)

theorem resolve_direct_hit_refines_reference_witness:
  "\<exists>ev. resolve_direct_hit (DirectHitRequest sample_hit) = Inr ev
     \<and> unat (post_armor_damage ev) = spec_post_armor sample_hit
     \<and> unat (health_damage_applied ev) = spec_health_damage sample_hit"
  using sample_hit_resolves(1) resolve_direct_hit_refines_reference [OF sample_hit_request(1)] by blast

end
