(* ===== verification/Durable_Slots.thy ===== *)
theory Durable_Slots
  imports Gravebound_Prelude
begin

text \<open>
  Durable item identities and storage slots, as the storage planners share them:
  \<open>ItemUid\<close> of \<open>sim_core/src/item_lifecycle.rs\<close>, \<open>DurableStorageSlot\<close> of
  \<open>sim_core/src/safe_storage.rs\<close>, the per-slot validation loop, the merge of consumable
  units into existing stacks and the search for an empty slot. Conservation of item
  identities is stated on the list of identities a container holds.
\<close>

section \<open>Item identities\<close>

definition ITEM_UID_BYTES :: nat where
  "ITEM_UID_BYTES = 16"

datatype item_uid = ItemUid (uid_bytes: bytes)

datatype item_lifecycle_error =
    ZeroItemUid
  | DerivationFieldTooLong
  | EmptyTemplateId
  | ZeroRewardQuantity
  | InvalidRunBackpackCapacity
  | InvalidConsumableStack
  | InvalidInventoryVersion
  | EmptyContentRevision
  | EmptyEquipmentTemplateId
  | InvalidEquipmentItemLevel
  | InvalidEquipmentItemVersion
  | RunBackpackSourceOutOfRange
  | RunBackpackSourceNotEquipment
  | ZeroPersonalGroundPickupId
  | PersonalGroundExpired
  | BackpackFullForPersonalGroundSwap
  | IllegalEquippedSlot
  | DuplicateEquipmentItem
  | StaleEquipmentPreview

definition new_item_uid :: "bytes \<Rightarrow> item_lifecycle_error + item_uid" where
  "new_item_uid bs =
     (if bs = replicate ITEM_UID_BYTES 0 then Inl ZeroItemUid else Inr (ItemUid bs))"

instantiation item_uid :: linorder
begin

definition less_eq_item_uid :: "item_uid \<Rightarrow> item_uid \<Rightarrow> bool" where
  "less_eq_item_uid a b \<longleftrightarrow> uid_bytes a \<le> uid_bytes b"

definition less_item_uid :: "item_uid \<Rightarrow> item_uid \<Rightarrow> bool" where
  "less_item_uid a b \<longleftrightarrow> uid_bytes a < uid_bytes b"

instance
  by standard (auto simp: less_eq_item_uid_def less_item_uid_def intro: item_uid.expand)

end

section \<open>Slots\<close>

definition DURABLE_CONSUMABLE_STACK_CAP :: nat where
  "DURABLE_CONSUMABLE_STACK_CAP = 6"

definition RUN_BACKPACK_CAPACITY :: nat where
  "RUN_BACKPACK_CAPACITY = 8"

definition EQUIPMENT_SLOT_COUNT :: nat where
  "EQUIPMENT_SLOT_COUNT = 4"

datatype durable_storage_slot =
    Empty
  | Equipment item_uid
  | Consumable string "item_uid list"

fun slot_uids :: "durable_storage_slot \<Rightarrow> item_uid list" where
  "slot_uids Empty = []"
| "slot_uids (Equipment u) = [u]"
| "slot_uids (Consumable t us) = us"

definition uids_of :: "durable_storage_slot list \<Rightarrow> item_uid list" where
  "uids_of slots = concat (map slot_uids slots)"

definition lowest_empty :: "durable_storage_slot list \<Rightarrow> nat option" where
  "lowest_empty slots = position (\<lambda>slot. slot = Empty) slots"

record 'l item_placement =
  placed_uid :: item_uid
  placed_from :: 'l
  placed_to :: 'l

section \<open>Validation of slots and identities\<close>

text \<open>
  \<open>identities.insert(uid)\<close> over a stack: the first identity that is already present is the
  duplicate error \<open>dup\<close>.
\<close>

fun insert_identities :: "'e \<Rightarrow> item_uid list \<Rightarrow> item_uid set \<Rightarrow> 'e + item_uid set" where
  "insert_identities dup [] ids = Inr ids"
| "insert_identities dup (u # us) ids =
     (if u \<in> ids then Inl dup else insert_identities dup us (insert u ids))"

fun validate_slot_and_uids ::
  "(string \<Rightarrow> bool) \<Rightarrow> 'e \<Rightarrow> 'e \<Rightarrow> durable_storage_slot \<Rightarrow> item_uid set \<Rightarrow> 'e + item_uid set" where
  "validate_slot_and_uids template_ok bad_stack dup Empty ids = Inr ids"
| "validate_slot_and_uids template_ok bad_stack dup (Equipment u) ids =
     insert_identities dup [u] ids"
| "validate_slot_and_uids template_ok bad_stack dup (Consumable t us) ids =
     (if \<not> template_ok t \<or> us = [] \<or> length us > DURABLE_CONSUMABLE_STACK_CAP
         \<or> \<not> windows2_all (<) us
      then Inl bad_stack else insert_identities dup us ids)"

fun slot_ok :: "(string \<Rightarrow> bool) \<Rightarrow> durable_storage_slot \<Rightarrow> bool" where
  "slot_ok template_ok Empty = True"
| "slot_ok template_ok (Equipment u) = True"
| "slot_ok template_ok (Consumable t us) =
     (template_ok t \<and> us \<noteq> [] \<and> length us \<le> DURABLE_CONSUMABLE_STACK_CAP \<and> sorted_wrt (<) us)"

section \<open>Merging consumable units into existing stacks\<close>

text \<open>
  The inner \<open>while\<close> loop on one stack: units move from the front of the remaining list into the
  stack, which is sorted again after each push, until the stack is full or nothing remains.
  \<open>here\<close> is the result of locating the stack's slot.
\<close>

fun fill_stack ::
  "'e + 'l \<Rightarrow> 'l \<Rightarrow> item_uid list \<Rightarrow> item_uid list \<Rightarrow> 'l item_placement list
     \<Rightarrow> 'e + item_uid list \<times> item_uid list \<times> 'l item_placement list" where
  "fill_stack here source stored [] acc = Inr (stored, [], acc)"
| "fill_stack here source stored (u # us) acc =
     (if length stored < DURABLE_CONSUMABLE_STACK_CAP
      then and_then here (\<lambda>l. fill_stack here source (sort (stored @ [u])) us
             (acc @ [\<lparr>placed_uid = u, placed_from = source, placed_to = l\<rparr>]))
      else Inr (stored, u # us, acc))"

text \<open>
  The \<open>for\<close> loop over the destination: stacks of other templates and other slots are skipped; the
  loop ends as soon as nothing remains after a matching stack.
\<close>

fun merge_consumables ::
  "(nat \<Rightarrow> 'e + 'l) \<Rightarrow> 'l \<Rightarrow> string \<Rightarrow> nat \<Rightarrow> durable_storage_slot list \<Rightarrow> item_uid list
     \<Rightarrow> 'l item_placement list
     \<Rightarrow> 'e + durable_storage_slot list \<times> item_uid list \<times> 'l item_placement list" where
  "merge_consumables location source template i [] remaining acc = Inr ([], remaining, acc)"
| "merge_consumables location source template i (slot # slots) remaining acc =
     (case slot of
        Consumable stored_template stored \<Rightarrow>
          (if stored_template \<noteq> template
           then and_then (merge_consumables location source template (Suc i) slots remaining acc)
                  (\<lambda>(slots', rest). Inr (slot # slots', rest))
           else and_then (fill_stack (location i) source stored remaining acc)
                  (\<lambda>(stored', remaining', acc').
                     if remaining' = [] then Inr (Consumable stored_template stored' # slots, [], acc')
                     else and_then
                            (merge_consumables location source template (Suc i) slots remaining' acc')
                            (\<lambda>(slots', rest). Inr (Consumable stored_template stored' # slots', rest))))
      | _ \<Rightarrow> and_then (merge_consumables location source template (Suc i) slots remaining acc)
               (\<lambda>(slots', rest). Inr (slot # slots', rest)))"

section \<open>Lemmas: validation\<close>

lemma insert_identities_eq_Inr [slot_simps]:
  "insert_identities dup us ids = Inr ids' \<longleftrightarrow>
     distinct us \<and> set us \<inter> ids = {} \<and> ids' = ids \<union> set us"
  by (induction us arbitrary: ids) auto

lemma validate_slot_eq_Inr [slot_simps]:
  "validate_slot_and_uids tok bad dup slot ids = Inr ids' \<longleftrightarrow>
     slot_ok tok slot \<and> distinct (slot_uids slot) \<and> set (slot_uids slot) \<inter> ids = {}
       \<and> ids' = ids \<union> set (slot_uids slot)"
  by (cases slot) (auto simp: insert_identities_eq_Inr windows2_all_less)

lemma uids_of_simps [simp]:
  "uids_of [] = []"
  "uids_of (slot # slots) = slot_uids slot @ uids_of slots"
  "uids_of (slots @ slots') = uids_of slots @ uids_of slots'"
  by (simp_all add: uids_of_def)

lemma uids_of_replicate_Empty [simp]: "uids_of (replicate n Empty) = []"
  by (induction n) simp_all

lemma set_uids_of: "set (uids_of slots) = (\<Union>slot \<in> set slots. set (slot_uids slot))"
  by (induction slots) auto

lemma validate_slots_eq_Inr [slot_simps]:
  "try_fold (validate_slot_and_uids tok bad dup) slots ids = Inr ids' \<longleftrightarrow>
     (\<forall>slot \<in> set slots. slot_ok tok slot) \<and> distinct (uids_of slots)
       \<and> set (uids_of slots) \<inter> ids = {} \<and> ids' = ids \<union> set (uids_of slots)"
  by (induction slots arbitrary: ids) (auto simp: validate_slot_eq_Inr)

section \<open>Lemmas: slot updates\<close>

lemma lowest_empty_SomeD:
  "lowest_empty slots = Some i \<Longrightarrow> i < length slots \<and> slots ! i = Empty"
  by (auto simp: lowest_empty_def dest: position_SomeD)

lemma lowest_empty_None: "lowest_empty slots = None \<longleftrightarrow> Empty \<notin> set slots"
  by (auto simp: lowest_empty_def position_eq_None)

definition empties :: "durable_storage_slot list \<Rightarrow> nat" where
  "empties slots = length (filter (\<lambda>s. s = Empty) slots)"

lemma empties_pos: "0 < empties slots \<longleftrightarrow> (\<exists>i. lowest_empty slots = Some i)"
  using lowest_empty_None [of slots]
  by (cases "lowest_empty slots") (auto simp: empties_def filter_empty_conv)

lemma empties_fill:
  "lowest_empty slots = Some i \<Longrightarrow> slot \<noteq> Empty \<Longrightarrow> Suc (empties (slots[i := slot])) = empties slots"
proof (induction slots arbitrary: i)
  case (Cons a slots)
  then show ?case
    by (cases i) (auto simp: empties_def lowest_empty_def split: if_splits)
qed (simp add: lowest_empty_def)

lemma empties_count: "empties slots = count_list (map (\<lambda>s. s = Empty) slots) True"
  by (induction slots) (auto simp: empties_def)

lemma empties_cong_shape:
  "map (\<lambda>s. s = Empty) slots' = map (\<lambda>s. s = Empty) slots \<Longrightarrow> empties slots' = empties slots"
  by (simp only: empties_count)

lemma mset_uids_of_update:
  "i < length slots \<Longrightarrow>
     mset (uids_of (slots[i := slot])) + mset (slot_uids (slots ! i))
       = mset (uids_of slots) + mset (slot_uids slot)"
proof (induction slots arbitrary: i)
  case (Cons a slots)
  then show ?case
    by (cases i) (auto simp: ac_simps)
qed simp

lemma mset_uids_of_fill_empty:
  "lowest_empty slots = Some i \<Longrightarrow>
     mset (uids_of (slots[i := slot])) = mset (uids_of slots) + mset (slot_uids slot)"
  using mset_uids_of_update [of i slots slot] by (auto dest: lowest_empty_SomeD)

lemma distinct_mset_eq: "mset xs = mset ys \<Longrightarrow> distinct xs \<longleftrightarrow> distinct ys"
  by (rule mset_eq_imp_distinct_iff)

section \<open>Lemmas: filling one stack\<close>

lemma fill_stack_Inr:
  assumes "fill_stack here source stored remaining acc = Inr (stored', remaining', acc')"
  shows "\<exists>new. acc' = acc @ new \<and> remaining = map placed_uid new @ remaining'
    \<and> mset stored' = mset stored + mset (map placed_uid new)
    \<and> (\<forall>pl \<in> set new. placed_from pl = source \<and> here = Inr (placed_to pl))"
  using assms
proof (induction here source stored remaining acc rule: fill_stack.induct)
  case (1 here source stored acc)
  then show ?case by simp
next
  case (2 here source stored u us acc)
  show ?case
  proof (cases "length stored < DURABLE_CONSUMABLE_STACK_CAP")
    case True
    with "2.prems" obtain l where l: "here = Inr l" and rest:
      "fill_stack here source (sort (stored @ [u])) us
         (acc @ [\<lparr>placed_uid = u, placed_from = source, placed_to = l\<rparr>]) = Inr (stored', remaining', acc')"
      by auto
    from "2.IH" [OF True l rest] obtain new where new:
      "acc' = (acc @ [\<lparr>placed_uid = u, placed_from = source, placed_to = l\<rparr>]) @ new"
      "us = map placed_uid new @ remaining'"
      "mset stored' = mset (sort (stored @ [u])) + mset (map placed_uid new)"
      "\<forall>pl \<in> set new. placed_from pl = source \<and> here = Inr (placed_to pl)"
      by blast
    then show ?thesis
      using l by (intro exI [of _ "\<lparr>placed_uid = u, placed_from = source, placed_to = l\<rparr> # new"]) auto
  next
    case False
    with "2.prems" show ?thesis by simp
  qed
qed

lemma fill_stack_stack:
  assumes "fill_stack here source stored remaining acc = Inr (stored', remaining', acc')"
    and "sorted stored" "length stored \<le> DURABLE_CONSUMABLE_STACK_CAP"
  shows "sorted stored' \<and> length stored' \<le> DURABLE_CONSUMABLE_STACK_CAP
    \<and> (remaining' \<noteq> [] \<longrightarrow> length stored' = DURABLE_CONSUMABLE_STACK_CAP)"
  using assms by (induction here source stored remaining acc rule: fill_stack.induct)
    (auto split: if_splits)

lemma fill_stack_total:
  "here = Inr l \<Longrightarrow> \<exists>r. fill_stack here source stored remaining acc = Inr r"
  by (induction here source stored remaining acc rule: fill_stack.induct) auto

lemma sorted_distinct_strict: "sorted xs \<Longrightarrow> distinct xs \<Longrightarrow> sorted_wrt (<) (xs :: 'a::linorder list)"
  by (simp add: strict_sorted_iff)

section \<open>Lemmas: merging into a container\<close>

text \<open>
  Induction over a successful merge: the container is exhausted, a slot is skipped, the last units
  go into a matching stack, or a matching stack is filled and the loop goes on.
\<close>

lemma merge_induct [consumes 1, case_names Nil Skip Last More]:
  assumes merge: "merge_consumables location source template i slots remaining acc
      = Inr (slots', remaining', acc')"
    and Nil: "\<And>i remaining acc. P i [] remaining acc [] remaining acc"
    and Skip: "\<And>i slot slots remaining acc tail remaining' acc'.
      \<forall>stored. slot \<noteq> Consumable template stored \<Longrightarrow>
      P (Suc i) slots remaining acc tail remaining' acc' \<Longrightarrow>
      P i (slot # slots) remaining acc (slot # tail) remaining' acc'"
    and Last: "\<And>i stored slots remaining acc st ac.
      fill_stack (location i) source stored remaining acc = Inr (st, [], ac) \<Longrightarrow>
      P i (Consumable template stored # slots) remaining acc (Consumable template st # slots) [] ac"
    and More: "\<And>i stored slots remaining acc st re ac tail remaining' acc'.
      fill_stack (location i) source stored remaining acc = Inr (st, re, ac) \<Longrightarrow> re \<noteq> [] \<Longrightarrow>
      P (Suc i) slots re ac tail remaining' acc' \<Longrightarrow>
      P i (Consumable template stored # slots) remaining acc
        (Consumable template st # tail) remaining' acc'"
  shows "P i slots remaining acc slots' remaining' acc'"
  using merge
proof (induction slots arbitrary: i remaining acc slots')
  case Nil
  then show ?case by (simp add: assms(2))
next
  case (Cons slot slots)
  show ?case
  proof (cases "\<forall>stored. slot \<noteq> Consumable template stored")
    case True
    with Cons.prems obtain tail where
      "merge_consumables location source template (Suc i) slots remaining acc = Inr (tail, remaining', acc')"
      "slots' = slot # tail"
      by (auto split: durable_storage_slot.splits if_splits)
    with Cons.IH True show ?thesis
      by (auto intro: Skip)
  next
    case False
    then obtain stored where slot: "slot = Consumable template stored"
      by blast
    with Cons.prems obtain st re ac where
      fill: "fill_stack (location i) source stored remaining acc = Inr (st, re, ac)"
      and rest: "(if re = [] then Inr (Consumable template st # slots, [], ac)
        else and_then (merge_consumables location source template (Suc i) slots re ac)
          (\<lambda>(slots', rest). Inr (Consumable template st # slots', rest))) = Inr (slots', remaining', acc')"
      by auto
    show ?thesis
    proof (cases "re = []")
      case True
      with rest fill slot show ?thesis
        by (auto intro: Last)
    next
      case False
      with rest obtain tail where
        "merge_consumables location source template (Suc i) slots re ac = Inr (tail, remaining', acc')"
        "slots' = Consumable template st # tail"
        by auto
      with Cons.IH fill slot False show ?thesis
        by (auto intro: More)
    qed
  qed
qed

lemma merge_conserves:
  assumes "merge_consumables location source template i slots remaining acc
    = Inr (slots', remaining', acc')"
  shows "mset (uids_of slots') + mset remaining' = mset (uids_of slots) + mset remaining"
  using assms
proof (induction rule: merge_induct)
  case (Last i stored slots remaining acc st ac)
  from fill_stack_Inr [OF Last] show ?case
    by (auto simp: ac_simps)
next
  case (More i stored slots remaining acc st re ac tail remaining' acc')
  from fill_stack_Inr [OF More(1)] have "mset st + mset re = mset stored + mset remaining"
    by (auto simp: ac_simps)
  then have m: "mset st + mset re = mset stored + mset remaining" .
  have "mset (uids_of (Consumable template st # tail)) + mset remaining'
      = mset st + (mset (uids_of tail) + mset remaining')"
    by (simp add: ac_simps)
  also have "\<dots> = mset (uids_of slots) + (mset st + mset re)"
    unfolding More(3) by (simp add: ac_simps)
  finally show ?case
    unfolding m by (simp add: ac_simps)
qed (simp_all add: ac_simps)

text \<open>
  The placements a merge appends name the units it took, in order, and each names a slot of the
  container that holds the unit afterwards.
\<close>

lemma merge_placements:
  assumes "merge_consumables location source template i slots remaining acc
    = Inr (slots', remaining', acc')"
  shows "\<exists>new. acc' = acc @ new \<and> remaining = map placed_uid new @ remaining' \<and>
    (\<forall>pl \<in> set new. placed_from pl = source \<and>
      (\<exists>j < length slots'. location (i + j) = Inr (placed_to pl)
         \<and> placed_uid pl \<in> set (slot_uids (slots' ! j))))"
  using assms
proof (induction rule: merge_induct)
  case (Skip i slot slots remaining acc tail remaining' acc')
  then obtain new where new: "acc' = acc @ new" "remaining = map placed_uid new @ remaining'"
    and at: "\<And>pl. pl \<in> set new \<Longrightarrow> placed_from pl = source \<and> (\<exists>j < length tail.
      location (Suc i + j) = Inr (placed_to pl) \<and> placed_uid pl \<in> set (slot_uids (tail ! j)))"
    by blast
  show ?case
    using new by (intro exI [of _ new]) (fastforce dest!: at intro!: exI [of _ "Suc _"])
next
  case (Last i stored slots remaining acc st ac)
  from fill_stack_Inr [OF Last] obtain new where new: "ac = acc @ new"
    "remaining = map placed_uid new" "mset st = mset stored + mset (map placed_uid new)"
    and at: "\<And>pl. pl \<in> set new \<Longrightarrow> placed_from pl = source \<and> location i = Inr (placed_to pl)"
    by auto
  have "set st = set stored \<union> placed_uid ` set new"
    using new(3) by (metis image_set set_mset_mset set_mset_union)
  with new(1,2) show ?case
    by (intro exI [of _ new]) (auto dest: at intro!: exI [of _ 0])
next
  case (More i stored slots remaining acc st re ac tail remaining' acc')
  from fill_stack_Inr [OF More(1)] obtain new where new: "ac = acc @ new"
    "remaining = map placed_uid new @ re" "mset st = mset stored + mset (map placed_uid new)"
    and at: "\<And>pl. pl \<in> set new \<Longrightarrow> placed_from pl = source \<and> location i = Inr (placed_to pl)"
    by auto
  from More(3) obtain new' where new': "acc' = ac @ new'" "re = map placed_uid new' @ remaining'"
    and at': "\<And>pl. pl \<in> set new' \<Longrightarrow> placed_from pl = source \<and> (\<exists>j < length tail.
      location (Suc i + j) = Inr (placed_to pl) \<and> placed_uid pl \<in> set (slot_uids (tail ! j)))"
    by blast
  have st: "set st = set stored \<union> placed_uid ` set new"
    using new(3) by (metis image_set set_mset_mset set_mset_union)
  show ?case
  proof (intro exI [of _ "new @ new'"] conjI ballI)
    fix pl assume pl: "pl \<in> set (new @ new')"
    then show "placed_from pl = source" by (auto dest: at at')
    show "\<exists>j < length (Consumable template st # tail). location (i + j) = Inr (placed_to pl)
        \<and> placed_uid pl \<in> set (slot_uids ((Consumable template st # tail) ! j))"
    proof (cases "pl \<in> set new")
      case True
      with st show ?thesis by (intro exI [of _ 0]) (auto dest: at)
    next
      case False
      with pl at' obtain j where "j < length tail" "location (Suc i + j) = Inr (placed_to pl)"
        "placed_uid pl \<in> set (slot_uids (tail ! j))" by auto
      then show ?thesis by (intro exI [of _ "Suc j"]) auto
    qed
  qed (use new new' in simp_all)
qed simp

lemma merge_shape:
  assumes "merge_consumables location source template i slots remaining acc
    = Inr (slots', remaining', acc')"
  shows "map (\<lambda>s. s = Empty) slots' = map (\<lambda>s. s = Empty) slots \<and> length slots' = length slots"
  using assms by (induction rule: merge_induct) auto

lemma merge_slot_ok:
  assumes "merge_consumables location source template i slots remaining acc
    = Inr (slots', remaining', acc')"
    and "\<forall>slot \<in> set slots. slot_ok tok slot" and "distinct (uids_of slots @ remaining)"
  shows "\<forall>slot \<in> set slots'. slot_ok tok slot"
  using assms
proof (induction rule: merge_induct)
  case (Last i stored slots remaining acc st ac)
  from fill_stack_Inr [OF Last(1)] have m: "mset st = mset (stored @ remaining)"
    by auto
  then have "distinct st" "st \<noteq> []"
    using Last.prems distinct_mset_eq [OF m] by auto
  with fill_stack_stack [OF Last(1)] Last.prems show ?case
    by (auto simp: strict_sorted_iff)
next
  case (More i stored slots remaining acc st re ac tail remaining' acc')
  from fill_stack_Inr [OF More(1)] have m: "mset (st @ re) = mset (stored @ remaining)"
    by (auto simp: ac_simps)
  then have d: "distinct (st @ re)"
    using More.prems distinct_mset_eq [OF m] by auto
  have st: "st \<noteq> []"
    using fill_stack_Inr [OF More(1)] More.prems by auto
  have "set re \<subseteq> set stored \<union> set remaining"
    using m by (metis set_append set_mset_mset sup_ge2)
  then have "distinct (uids_of slots @ re)"
    using More.prems d by auto
  with More d st fill_stack_stack [OF More(1)] show ?case
    by (auto simp: strict_sorted_iff)
qed auto

section \<open>The contract of a container's slot locator\<close>

text \<open>
  A planner names a destination by the kind of its container and a checked conversion of the slot
  index. What the planners rely on is that every index below the container's capacity converts,
  and that different indices have different names.
\<close>

locale slot_locator =
  fixes location :: "nat \<Rightarrow> 'e + 'l" and capacity :: nat
  assumes location_total: "i < capacity \<Longrightarrow> \<exists>l. location i = Inr l"
    and location_inj: "location i = Inr l \<Longrightarrow> location j = Inr l \<Longrightarrow> i = j"
begin

lemma merge_total:
  "i + length slots \<le> capacity \<Longrightarrow>
     \<exists>r. merge_consumables location source template i slots remaining acc = Inr r"
proof (induction slots arbitrary: i remaining acc)
  case (Cons slot slots)
  then have more: "\<exists>slots' re' ac'. merge_consumables location source template (Suc i) slots re ac
      = Inr (slots', re', ac')" for re ac
    by (metis Cons.IH add_Suc_shift length_Cons prod.exhaust)
  show ?case
  proof (cases slot)
    case (Consumable t stored)
    obtain l where l: "location i = Inr l"
      using Cons.prems location_total [of i] by auto
    obtain st re ac where fill: "fill_stack (location i) source stored remaining acc = Inr (st, re, ac)"
      using fill_stack_total [OF l] by (metis prod.exhaust)
    with Consumable more [of remaining acc] more [of re ac] show ?thesis
      by auto
  qed (use more [of remaining acc] in auto)
qed simp

text \<open>Each placement of a merge names exactly one slot of the container: the one that now holds it.\<close>

lemma merge_placement_unique:
  assumes "merge_consumables location source template 0 slots remaining [] = Inr (slots', remaining', new)"
    and "pl \<in> set new" and "location j = Inr (placed_to pl)"
  shows "j < length slots' \<and> placed_uid pl \<in> set (slot_uids (slots' ! j))"
proof -
  from merge_placements [OF assms(1)] assms(2) obtain k where
    "k < length slots'" "location k = Inr (placed_to pl)" "placed_uid pl \<in> set (slot_uids (slots' ! k))"
    by auto
  with location_inj assms(3) show ?thesis by blast
qed

end

section \<open>Sample identities\<close>

text \<open>Identities for the concrete plans of the planner theories: the last byte distinguishes them.\<close>

definition sample_uid :: "nat \<Rightarrow> item_uid" where
  "sample_uid n = ItemUid (replicate 15 0 @ [of_nat n])"

lemma sample_uid_eq [simp]: "m < 256 \<Longrightarrow> n < 256 \<Longrightarrow> sample_uid m = sample_uid n \<longleftrightarrow> m = n"
proof
  assume "m < 256" "n < 256" "sample_uid m = sample_uid n"
  then have "unat (of_nat m :: u8) = unat (of_nat n :: u8)"
    by (simp add: sample_uid_def)
  with \<open>m < 256\<close> \<open>n < 256\<close> show "m = n" by simp
qed simp

lemma sample_uid_less [simp]:
  "m < 256 \<Longrightarrow> n < 256 \<Longrightarrow> sample_uid m < sample_uid n \<longleftrightarrow> m < n"
  by (simp add: sample_uid_def less_item_uid_def numeral_eq_Suc word_less_nat_alt)

lemma uids_of_map_Equipment [simp]: "uids_of (map (\<lambda>n. Equipment (f n)) ns) = map f ns"
  by (induction ns) simp_all

lemma inj_on_sample_uid [simp]: "A \<subseteq> {..<256} \<Longrightarrow> inj_on sample_uid A"
  by (auto intro!: inj_onI simp: subset_iff)

end
