(* ===== verification/Safe_Storage.thy ===== *)
theory Safe_Storage
  imports Durable_Slots
begin

text \<open>
  The safe-storage planner (\<open>sim_core/src/safe_storage.rs\<close>): transfers of one stack between
  CharacterSafe, Vault and RunBackpack, and the preflight that moves the whole CharacterSafe
  into the Vault. A plan lists one placement per item identity and the aggregate versions.
\<close>

section \<open>Data\<close>

definition CHARACTER_SAFE_CAPACITY :: nat where
  "CHARACTER_SAFE_CAPACITY = 8"

definition VAULT_CAPACITY :: nat where
  "VAULT_CAPACITY = 160"

record safe_storage_snapshot =
  ss_account_version :: u64
  ss_inventory_version :: u64
  ss_character_safe :: "durable_storage_slot list"
  ss_vault :: "durable_storage_slot list"
  ss_run_backpack :: "durable_storage_slot list"

datatype safe_storage_command =
    CharacterSafeToVault u8
  | VaultToCharacterSafe u16
  | CharacterSafeToRunBackpack u8

datatype safe_storage_location = InCharacterSafe u8 | InVault u16 | InRunBackpack u8

record safe_storage_plan =
  sp_placements :: "safe_storage_location item_placement list"
  pre_account_version :: u64
  post_account_version :: u64
  pre_inventory_version :: u64
  post_inventory_version :: u64

datatype safe_storage_error =
    InvalidVersion
  | InvalidCharacterSafeCapacity
  | InvalidVaultCapacity
  | InvalidRunBackpackCapacity
  | InvalidConsumableStack
  | DuplicateItemUid
  | SourceOutOfRange
  | EmptySource
  | StorageFull
  | CharacterSafeFull
  | RunBackpackFull
  | VersionOverflow

datatype destination_kind = ToCharacterSafe | ToVault | ToRunBackpack

section \<open>Operations\<close>

fun kind_location :: "destination_kind \<Rightarrow> nat \<Rightarrow> safe_storage_error + safe_storage_location" where
  "kind_location ToCharacterSafe i =
     and_then (ok_or (try_from_usize i) InvalidCharacterSafeCapacity) (\<lambda>n. Inr (InCharacterSafe n))"
| "kind_location ToVault i =
     and_then (ok_or (try_from_usize i) InvalidVaultCapacity) (\<lambda>n. Inr (InVault n))"
| "kind_location ToRunBackpack i =
     and_then (ok_or (try_from_usize i) InvalidRunBackpackCapacity) (\<lambda>n. Inr (InRunBackpack n))"

fun full_error :: "destination_kind \<Rightarrow> safe_storage_error" where
  "full_error ToCharacterSafe = CharacterSafeFull"
| "full_error ToVault = StorageFull"
| "full_error ToRunBackpack = RunBackpackFull"

definition source_stack ::
  "durable_storage_slot list \<Rightarrow> nat \<Rightarrow> safe_storage_error + durable_storage_slot" where
  "source_stack slots i =
     and_then (ok_or (get slots i) SourceOutOfRange)
       (\<lambda>stack. if stack = Empty then Inl EmptySource else Inr stack)"

text \<open>
  The second loop of \<open>place_consumables\<close>: while units remain, the lowest empty slot takes up to
  six of them as a new stack.
\<close>

function place_in_empty_slots ::
  "destination_kind \<Rightarrow> string \<Rightarrow> safe_storage_location \<Rightarrow> durable_storage_slot list \<Rightarrow> item_uid list
     \<Rightarrow> safe_storage_location item_placement list
     \<Rightarrow> safe_storage_error + safe_storage_location item_placement list \<times> durable_storage_slot list" where
  "place_in_empty_slots kind template source destination remaining acc =
     (if remaining = [] then Inr (acc, destination)
      else case lowest_empty destination of
        None \<Rightarrow> Inl (full_error kind)
      | Some i \<Rightarrow>
          (let placed = take DURABLE_CONSUMABLE_STACK_CAP remaining in
           and_then (kind_location kind i) (\<lambda>l.
             place_in_empty_slots kind template source
               (destination[i := Consumable template placed])
               (drop DURABLE_CONSUMABLE_STACK_CAP remaining)
               (acc @ map (\<lambda>u. \<lparr>placed_uid = u, placed_from = source, placed_to = l\<rparr>) placed))))"
  by pat_completeness auto
termination
  by (relation "measure (\<lambda>(_, _, _, _, remaining, _). length remaining)")
    (auto simp: DURABLE_CONSUMABLE_STACK_CAP_def)

definition place_consumables ::
  "string \<Rightarrow> item_uid list \<Rightarrow> safe_storage_location \<Rightarrow> durable_storage_slot list \<Rightarrow> destination_kind
     \<Rightarrow> safe_storage_error + safe_storage_location item_placement list \<times> durable_storage_slot list" where
  "place_consumables template uids source destination kind =
     and_then (merge_consumables (kind_location kind) source template 0 destination uids [])
       (\<lambda>(destination', remaining, acc).
          place_in_empty_slots kind template source destination' remaining acc)"

fun place_stack ::
  "durable_storage_slot \<Rightarrow> safe_storage_location \<Rightarrow> durable_storage_slot list \<Rightarrow> destination_kind
     \<Rightarrow> safe_storage_error + safe_storage_location item_placement list \<times> durable_storage_slot list" where
  "place_stack Empty source destination kind = Inl EmptySource"
| "place_stack (Equipment u) source destination kind =
     and_then (ok_or (lowest_empty destination) (full_error kind)) (\<lambda>i.
       and_then (kind_location kind i) (\<lambda>l.
         Inr ([\<lparr>placed_uid = u, placed_from = source, placed_to = l\<rparr>],
              destination[i := Equipment u])))"
| "place_stack (Consumable template uids) source destination kind =
     place_consumables template uids source destination kind"

definition build_plan ::
  "safe_storage_snapshot \<Rightarrow> safe_storage_location item_placement list \<Rightarrow> bool
     \<Rightarrow> safe_storage_error + safe_storage_plan" where
  "build_plan snapshot placements advances_account =
     (let changed = (placements \<noteq> []) in
      and_then (if changed \<and> advances_account
                then ok_or (checked_add (ss_account_version snapshot) 1) VersionOverflow
                else Inr (ss_account_version snapshot)) (\<lambda>post_account.
      and_then (if changed
                then ok_or (checked_add (ss_inventory_version snapshot) 1) VersionOverflow
                else Inr (ss_inventory_version snapshot)) (\<lambda>post_inventory.
      Inr \<lparr>sp_placements = placements,
           pre_account_version = ss_account_version snapshot,
           post_account_version = post_account,
           pre_inventory_version = ss_inventory_version snapshot,
           post_inventory_version = post_inventory\<rparr>)))"

definition validate_safe_snapshot :: "safe_storage_snapshot \<Rightarrow> safe_storage_error + unit" where
  "validate_safe_snapshot snapshot =
     (if ss_account_version snapshot = 0 \<or> ss_inventory_version snapshot = 0 then Inl InvalidVersion
      else if length (ss_character_safe snapshot) \<noteq> CHARACTER_SAFE_CAPACITY
        then Inl InvalidCharacterSafeCapacity
      else if length (ss_vault snapshot) \<noteq> VAULT_CAPACITY then Inl InvalidVaultCapacity
      else if length (ss_run_backpack snapshot) \<noteq> RUN_BACKPACK_CAPACITY
        then Inl InvalidRunBackpackCapacity
      else and_then
        (try_fold (validate_slot_and_uids (\<lambda>t. t \<noteq> []) InvalidConsumableStack DuplicateItemUid)
           (ss_character_safe snapshot @ ss_vault snapshot @ ss_run_backpack snapshot) {})
        (\<lambda>_. Inr ()))"

fun transfer_parts ::
  "safe_storage_snapshot \<Rightarrow> safe_storage_command
     \<Rightarrow> safe_storage_location \<times> durable_storage_slot list \<times> nat \<times> durable_storage_slot list
         \<times> destination_kind \<times> bool" where
  "transfer_parts snapshot (CharacterSafeToVault i) =
     (InCharacterSafe i, ss_character_safe snapshot, unat i, ss_vault snapshot, ToVault, True)"
| "transfer_parts snapshot (VaultToCharacterSafe i) =
     (InVault i, ss_vault snapshot, unat i, ss_character_safe snapshot, ToCharacterSafe, True)"
| "transfer_parts snapshot (CharacterSafeToRunBackpack i) =
     (InCharacterSafe i, ss_character_safe snapshot, unat i, ss_run_backpack snapshot,
      ToRunBackpack, False)"

definition plan_safe_storage_transfer ::
  "safe_storage_snapshot \<Rightarrow> safe_storage_command \<Rightarrow> safe_storage_error + safe_storage_plan" where
  "plan_safe_storage_transfer snapshot command =
     and_then (validate_safe_snapshot snapshot) (\<lambda>_.
       let (source, slots, index, destination, kind, advances_account) =
             transfer_parts snapshot command in
       and_then (source_stack slots index) (\<lambda>stack.
       and_then (place_stack stack source destination kind) (\<lambda>(placements, _).
         build_plan snapshot placements advances_account)))"

text \<open>One iteration of the preflight loop over the CharacterSafe; the vault is the mutable copy.\<close>

definition preflight_slot ::
  "nat \<times> durable_storage_slot
     \<Rightarrow> safe_storage_location item_placement list \<times> durable_storage_slot list
     \<Rightarrow> safe_storage_error + safe_storage_location item_placement list \<times> durable_storage_slot list" where
  "preflight_slot entry state =
     (case entry of (index, stack) \<Rightarrow> case state of (placements, vault) \<Rightarrow>
       if stack = Empty then Inr (placements, vault)
       else and_then (ok_or (try_from_usize index) InvalidCharacterSafeCapacity) (\<lambda>i.
            and_then (place_stack stack (InCharacterSafe i) vault ToVault) (\<lambda>(placed, vault').
              Inr (placements @ placed, vault'))))"

definition plan_character_safe_preflight ::
  "safe_storage_snapshot \<Rightarrow> safe_storage_error + safe_storage_plan" where
  "plan_character_safe_preflight snapshot =
     and_then (validate_safe_snapshot snapshot) (\<lambda>_.
     and_then (try_fold preflight_slot (enumerate 0 (ss_character_safe snapshot))
                 ([], ss_vault snapshot)) (\<lambda>(placements, _).
       build_plan snapshot placements True))"

section \<open>The locators of the three containers\<close>

lemma kind_location_inj:
  "kind_location kind i = Inr l \<Longrightarrow> kind_location kind j = Inr l \<Longrightarrow> i = j"
  by (cases kind) (auto simp: try_from_usize_eq_Some)

lemma kind_location_total:
  "i < 256 \<Longrightarrow> \<exists>l. kind_location kind i = Inr l"
  by (cases kind) (auto simp: try_from_usize_def)

interpretation character_safe_slots: slot_locator "kind_location ToCharacterSafe" CHARACTER_SAFE_CAPACITY
  by unfold_locales (auto simp: CHARACTER_SAFE_CAPACITY_def kind_location_total
      intro: kind_location_inj simp del: kind_location.simps)

interpretation vault_slots: slot_locator "kind_location ToVault" VAULT_CAPACITY
  by unfold_locales (auto simp: VAULT_CAPACITY_def kind_location_total
      intro: kind_location_inj simp del: kind_location.simps)

interpretation run_backpack_slots: slot_locator "kind_location ToRunBackpack" RUN_BACKPACK_CAPACITY
  by unfold_locales (auto simp: RUN_BACKPACK_CAPACITY_def kind_location_total
      intro: kind_location_inj simp del: kind_location.simps)

fun kind_capacity :: "destination_kind \<Rightarrow> nat" where
  "kind_capacity ToCharacterSafe = CHARACTER_SAFE_CAPACITY"
| "kind_capacity ToVault = VAULT_CAPACITY"
| "kind_capacity ToRunBackpack = RUN_BACKPACK_CAPACITY"

lemma merge_total_kind:
  "length slots = kind_capacity kind \<Longrightarrow>
     \<exists>r. merge_consumables (kind_location kind) source template 0 slots remaining acc = Inr r"
  using character_safe_slots.merge_total [of 0] vault_slots.merge_total [of 0]
    run_backpack_slots.merge_total [of 0]
  by (cases kind) (simp_all del: kind_location.simps)

section \<open>Lemmas: placing a stack\<close>

declare place_in_empty_slots.simps [simp del]

text \<open>Where a placement list puts the identities: in a slot of the container that now holds them.\<close>

definition placed_in ::
  "(nat \<Rightarrow> 'e + 'l) \<Rightarrow> 'l \<Rightarrow> durable_storage_slot list \<Rightarrow> 'l item_placement list \<Rightarrow> bool" where
  "placed_in location source slots pls \<longleftrightarrow>
     (\<forall>pl \<in> set pls. placed_from pl = source \<and>
        (\<exists>j < length slots. location j = Inr (placed_to pl)
           \<and> placed_uid pl \<in> set (slot_uids (slots ! j))))"

lemma placed_in_append [simp]:
  "placed_in location source slots (xs @ ys) \<longleftrightarrow>
     placed_in location source slots xs \<and> placed_in location source slots ys"
  by (auto simp: placed_in_def)

lemma placed_in_mono:
  assumes "placed_in location source slots pls" and "length slots' = length slots"
    and "\<And>j. j < length slots \<Longrightarrow> slots ! j \<noteq> Empty \<Longrightarrow> slots' ! j = slots ! j"
  shows "placed_in location source slots' pls"
  using assms unfolding placed_in_def
  by (metis empty_iff empty_set slot_uids.simps(1))

abbreviation one_stack :: "item_uid list \<Rightarrow> item_uid list" where
  "one_stack remaining \<equiv> take DURABLE_CONSUMABLE_STACK_CAP remaining"

abbreviation placements_at ::
  "safe_storage_location \<Rightarrow> safe_storage_location \<Rightarrow> item_uid list
     \<Rightarrow> safe_storage_location item_placement list" where
  "placements_at source l \<equiv> map (\<lambda>u. \<lparr>placed_uid = u, placed_from = source, placed_to = l\<rparr>)"

lemma place_in_empty_induct [consumes 1, case_names Done Place]:
  assumes "place_in_empty_slots kind template source dest remaining acc = Inr (acc', dest')"
    and Done: "\<And>dest acc. P dest [] acc acc dest"
    and Place: "\<And>dest remaining acc i l acc' dest'. remaining \<noteq> [] \<Longrightarrow> lowest_empty dest = Some i \<Longrightarrow>
      kind_location kind i = Inr l \<Longrightarrow>
      place_in_empty_slots kind template source (dest[i := Consumable template (one_stack remaining)])
        (drop DURABLE_CONSUMABLE_STACK_CAP remaining)
        (acc @ placements_at source l (one_stack remaining)) = Inr (acc', dest') \<Longrightarrow>
      P (dest[i := Consumable template (one_stack remaining)])
        (drop DURABLE_CONSUMABLE_STACK_CAP remaining)
        (acc @ placements_at source l (one_stack remaining)) acc' dest' \<Longrightarrow>
      P dest remaining acc acc' dest'"
  shows "P dest remaining acc acc' dest'"
  using assms
proof (induction kind template source dest remaining acc rule: place_in_empty_slots.induct)
  case (1 kind template source dest remaining acc)
  show ?case
  proof (cases "remaining = []")
    case True
    with "1.prems"(1,2) show ?thesis by (simp add: place_in_empty_slots.simps)
  next
    case False
    with "1.prems"(1) obtain i l where i: "lowest_empty dest = Some i"
      and l: "kind_location kind i = Inr l"
      and rest: "place_in_empty_slots kind template source
        (dest[i := Consumable template (one_stack remaining)])
        (drop DURABLE_CONSUMABLE_STACK_CAP remaining)
        (acc @ placements_at source l (one_stack remaining)) = Inr (acc', dest')"
      by (subst (asm) place_in_empty_slots.simps) (auto simp: Let_def split: option.splits)
    show ?thesis
      by (rule "1.prems"(3) [OF False i l rest "1.IH" [OF False i refl l rest "1.prems"(2,3)]])
  qed
qed

lemma place_in_empty_slots_keeps:
  assumes "place_in_empty_slots kind template source dest remaining acc = Inr (acc', dest')"
  shows "length dest' = length dest \<and> (\<forall>j < length dest. dest ! j \<noteq> Empty \<longrightarrow> dest' ! j = dest ! j)"
  using assms
proof (induction rule: place_in_empty_induct)
  case (Place dest remaining acc i l acc' dest')
  then show ?case
    using lowest_empty_SomeD [OF Place(2)] by (auto simp: nth_list_update)
qed simp

lemma place_in_empty_slots_conserves:
  assumes "place_in_empty_slots kind template source dest remaining acc = Inr (acc', dest')"
  shows "mset (uids_of dest') = mset (uids_of dest) + mset remaining"
  using assms
proof (induction rule: place_in_empty_induct)
  case (Place dest remaining acc i l acc' dest')
  have "mset remaining = mset (one_stack remaining) + mset (drop DURABLE_CONSUMABLE_STACK_CAP remaining)"
    by (metis append_take_drop_id mset_append)
  then show ?case
    using Place(5) mset_uids_of_fill_empty [OF Place(2)] by simp
qed simp

lemma place_in_empty_slots_placed:
  assumes "place_in_empty_slots kind template source dest remaining acc = Inr (acc', dest')"
  shows "\<exists>new. acc' = acc @ new \<and> map placed_uid new = remaining
    \<and> placed_in (kind_location kind) source dest' new"
  using assms
proof (induction rule: place_in_empty_induct)
  case (Place dest remaining acc i l acc' dest')
  have "i < length dest'" "dest' ! i = Consumable template (one_stack remaining)"
    using place_in_empty_slots_keeps [OF Place(4)] lowest_empty_SomeD [OF Place(2)]
    by (auto simp: nth_list_update)
  then have "placed_in (kind_location kind) source dest' (placements_at source l (one_stack remaining))"
    using Place(3) by (auto simp: placed_in_def intro!: exI [of _ i])
  moreover from Place(5) obtain new where
    "acc' = (acc @ placements_at source l (one_stack remaining)) @ new"
    "map placed_uid new = drop DURABLE_CONSUMABLE_STACK_CAP remaining"
    "placed_in (kind_location kind) source dest' new"
    by blast
  ultimately show ?case
    by (intro exI [of _ "placements_at source l (one_stack remaining) @ new"]) (simp add: comp_def)
qed (simp add: placed_in_def)

lemma place_in_empty_slots_ok:
  assumes "place_in_empty_slots kind template source dest remaining acc = Inr (acc', dest')"
    and "tok template" and "sorted_wrt (<) remaining" and "\<forall>slot \<in> set dest. slot_ok tok slot"
  shows "\<forall>slot \<in> set dest'. slot_ok tok slot"
  using assms
proof (induction rule: place_in_empty_induct)
  case (Place dest remaining acc i l acc' dest')
  have "slot_ok tok (Consumable template (one_stack remaining))"
    using Place by (simp add: DURABLE_CONSUMABLE_STACK_CAP_def sorted_wrt_take)
  then have "\<forall>slot \<in> set (dest[i := Consumable template (one_stack remaining)]). slot_ok tok slot"
    using Place.prems(3) by (metis insert_iff set_update_subset_insert subset_iff)
  with Place show ?case
    by (simp add: sorted_wrt_drop)
qed simp

lemma place_stack_Inr:
  assumes "place_stack stack source dest kind = Inr (pls, dest')"
  shows "map placed_uid pls = slot_uids stack" "placed_in (kind_location kind) source dest' pls"
    "mset (uids_of dest') = mset (uids_of dest) + mset (slot_uids stack)"
    "length dest' = length dest"
proof -
  have "map placed_uid pls = slot_uids stack \<and> placed_in (kind_location kind) source dest' pls
    \<and> mset (uids_of dest') = mset (uids_of dest) + mset (slot_uids stack) \<and> length dest' = length dest"
  proof (cases stack)
    case Empty
    with assms show ?thesis by simp
  next
    case (Equipment u)
    with assms show ?thesis
      by (auto simp: placed_in_def mset_uids_of_fill_empty simp del: kind_location.simps
          dest: lowest_empty_SomeD intro!: exI)
  next
    case (Consumable template uids)
    with assms obtain mid remaining acc where
      merge: "merge_consumables (kind_location kind) source template 0 dest uids [] = Inr (mid, remaining, acc)"
      and rest: "place_in_empty_slots kind template source mid remaining acc = Inr (pls, dest')"
      by (auto simp: place_consumables_def)
    from merge_placements [OF merge] have m: "uids = map placed_uid acc @ remaining"
      "placed_in (kind_location kind) source mid acc"
      by (auto simp: placed_in_def)
    from place_in_empty_slots_placed [OF rest] obtain new where new: "pls = acc @ new"
      "map placed_uid new = remaining" "placed_in (kind_location kind) source dest' new" by blast
    have "placed_in (kind_location kind) source dest' acc"
      using placed_in_mono [OF m(2)] place_in_empty_slots_keeps [OF rest] by blast
    with m new Consumable merge_conserves [OF merge] merge_shape [OF merge]
      place_in_empty_slots_keeps [OF rest] place_in_empty_slots_conserves [OF rest] show ?thesis
      by simp
  qed
  then show "map placed_uid pls = slot_uids stack" "placed_in (kind_location kind) source dest' pls"
    "mset (uids_of dest') = mset (uids_of dest) + mset (slot_uids stack)"
    "length dest' = length dest" by blast+
qed

lemma place_stack_ok:
  assumes "place_stack stack source dest kind = Inr (pls, dest')"
    and "slot_ok tok stack" and "\<forall>slot \<in> set dest. slot_ok tok slot"
    and "distinct (uids_of dest @ slot_uids stack)"
  shows "\<forall>slot \<in> set dest'. slot_ok tok slot"
proof (cases stack)
  case (Equipment u)
  with assms show ?thesis
    by (auto dest!: subsetD [OF set_update_subset_insert] simp del: kind_location.simps)
next
  case (Consumable template uids)
  with assms obtain mid remaining acc where
    merge: "merge_consumables (kind_location kind) source template 0 dest uids [] = Inr (mid, remaining, acc)"
    and rest: "place_in_empty_slots kind template source mid remaining acc = Inr (pls, dest')"
    by (auto simp: place_consumables_def)
  have mid: "\<forall>slot \<in> set mid. slot_ok tok slot"
    using merge_slot_ok [OF merge assms(3)] assms(4) Consumable by simp
  from merge_placements [OF merge] have "sorted_wrt (<) remaining"
    using assms(2) Consumable by (auto simp: sorted_wrt_append)
  with place_in_empty_slots_ok [OF rest _ _ mid] assms(2) Consumable show ?thesis
    by simp
qed (use assms in simp)

lemma place_remaining_stack:
  assumes "place_in_empty_slots kind template source mid remaining acc = Inr (pls, dest')"
    and "length remaining \<le> DURABLE_CONSUMABLE_STACK_CAP"
  shows "empties mid \<le> Suc (empties dest')"
  using assms
proof (induction rule: place_in_empty_induct)
  case (Place dest remaining acc i l acc' dest')
  from Place(4) have "dest' = dest[i := Consumable template (one_stack remaining)]"
    using Place.prems by (simp add: place_in_empty_slots.simps)
  with empties_fill [OF Place(2)] show ?case by simp
qed simp

lemma place_stack_empties:
  assumes "place_stack stack source dest kind = Inr (pls, dest')" and "slot_ok tok stack"
  shows "empties dest \<le> Suc (empties dest')"
proof (cases stack)
  case (Equipment u)
  with assms show ?thesis
    by (auto simp del: kind_location.simps dest: empties_fill [of _ _ "Equipment u"])
next
  case (Consumable template uids)
  with assms(1) obtain mid remaining acc where
    merge: "merge_consumables (kind_location kind) source template 0 dest uids [] = Inr (mid, remaining, acc)"
    and rest: "place_in_empty_slots kind template source mid remaining acc = Inr (pls, dest')"
    by (auto simp: place_consumables_def)
  have "length remaining \<le> DURABLE_CONSUMABLE_STACK_CAP"
    using merge_placements [OF merge] assms(2) Consumable by auto
  from place_remaining_stack [OF rest this] show ?thesis
    using empties_cong_shape merge_shape [OF merge] by metis
qed (use assms in simp)

lemma place_stack_total:
  assumes "stack \<noteq> Empty" and "slot_ok tok stack" and "length dest = kind_capacity kind"
    and "0 < empties dest"
  shows "\<exists>pls dest'. place_stack stack source dest kind = Inr (pls, dest')"
proof -
  have loc: "\<exists>l. kind_location kind i = Inr l" if "i < length dest" for i
    using that assms(3) kind_location_total [of i kind]
    by (cases kind) (auto simp: CHARACTER_SAFE_CAPACITY_def VAULT_CAPACITY_def
        RUN_BACKPACK_CAPACITY_def simp del: kind_location.simps)
  show ?thesis
  proof (cases stack)
    case (Equipment u)
    obtain i where i: "lowest_empty dest = Some i"
      using assms(4) empties_pos by blast
    then obtain l where "kind_location kind i = Inr l"
      using loc lowest_empty_SomeD by blast
    with i Equipment show ?thesis by simp
  next
    case (Consumable template uids)
    obtain mid remaining acc where merge:
      "merge_consumables (kind_location kind) source template 0 dest uids [] = Inr (mid, remaining, acc)"
      using merge_total_kind [OF assms(3)] by (metis prod.exhaust)
    note shape = merge_shape [OF merge]
    obtain i where i: "lowest_empty mid = Some i"
      using assms(4) empties_pos empties_cong_shape shape by metis
    then obtain l where l: "kind_location kind i = Inr l"
      using loc lowest_empty_SomeD [OF i] shape by metis
    have "drop DURABLE_CONSUMABLE_STACK_CAP remaining = []"
      using merge_placements [OF merge] assms(2) Consumable by auto
    then have "\<exists>pls dest'. place_in_empty_slots kind template source mid remaining acc = Inr (pls, dest')"
      using i l by (subst place_in_empty_slots.simps) (auto simp: Let_def place_in_empty_slots.simps)
    with merge Consumable show ?thesis
      by (auto simp: place_consumables_def)
  qed (use assms in simp)
qed

section \<open>What every slot receives\<close>

text \<open>
  The identities a placement list sends to a slot, and what a slot that receives some identities of a stack becomes: one
  without arrivals is unchanged; an equipment goes into an empty slot; units start a stack in an empty slot or join one of their template.
\<close>

definition arrivals :: "(nat \<Rightarrow> 'e + 'l) \<Rightarrow> 'l item_placement list \<Rightarrow> nat \<Rightarrow> item_uid list" where
  "arrivals location pls j = map placed_uid (filter (\<lambda>pl. location j = Inr (placed_to pl)) pls)"

fun received :: "durable_storage_slot \<Rightarrow> durable_storage_slot \<Rightarrow> item_uid list \<Rightarrow> durable_storage_slot \<Rightarrow> bool" where
  "received stack before [] after = (after = before)"
| "received Empty before (u # us) after = False"
| "received (Equipment item) before (u # us) after = (u # us = [item] \<and> before = Empty \<and> after = Equipment item)"
| "received (Consumable template units) before (u # us) after =
     (before = Empty \<and> after = Consumable template (u # us)
      \<or> (\<exists>old. before = Consumable template old \<and> after = Consumable template (sort (old @ u # us))))"

lemma arrivals_append [simp]: "arrivals location (xs @ ys) j = arrivals location xs j @ arrivals location ys j"
  by (simp add: arrivals_def)

lemma arrivals_none: "(\<And>pl. pl \<in> set pls \<Longrightarrow> location j \<noteq> Inr (placed_to pl)) \<Longrightarrow> arrivals location pls j = []"
  by (auto simp: arrivals_def filter_empty_conv)

lemma arrivals_all: "(\<And>pl. pl \<in> set pls \<Longrightarrow> location j = Inr (placed_to pl)) \<Longrightarrow> arrivals location pls j = map placed_uid pls"
  by (simp add: arrivals_def)

lemma arrivals_elsewhere:
  assumes "\<And>a b l. location a = Inr l \<Longrightarrow> location b = Inr l \<Longrightarrow> a = b"
    and "\<And>pl. pl \<in> set pls \<Longrightarrow> \<exists>k. k \<noteq> j \<and> location k = Inr (placed_to pl)"
  shows "arrivals location pls j = []"
proof (rule arrivals_none)
  fix pl assume "pl \<in> set pls"
  then obtain k where "k \<noteq> j" "location k = Inr (placed_to pl)"
    using assms(2) by blast
  then show "location j \<noteq> Inr (placed_to pl)"
    using assms(1) [of k _ j] by blast
qed

lemma arrivals_behind:
  assumes inj: "\<And>a b l. location a = Inr l \<Longrightarrow> location b = Inr l \<Longrightarrow> a = b"
    and "\<forall>pl \<in> set pls. \<exists>j < n. location (Suc i + j) = Inr (placed_to pl)"
  shows "arrivals location pls i = []"
proof (rule arrivals_elsewhere [OF inj])
  fix pl assume "pl \<in> set pls"
  with assms(2) obtain j where "location (Suc i + j) = Inr (placed_to pl)"
    by blast
  then show "\<exists>k. k \<noteq> i \<and> location k = Inr (placed_to pl)"
    by (intro exI [of _ "Suc i + j"]) simp
qed

lemma received_units:
  "us \<noteq> [] \<Longrightarrow> received (Consumable template units) before us after \<longleftrightarrow>
     before = Empty \<and> after = Consumable template us
     \<or> (\<exists>old. before = Consumable template old \<and> after = Consumable template (sort (old @ us)))"
  by (cases us) auto

lemma fill_stack_sorts:
  assumes "fill_stack here source stored remaining acc = Inr (stored', remaining', acc')"
  shows "\<exists>new. acc' = acc @ new \<and> (\<forall>pl \<in> set new. here = Inr (placed_to pl))
    \<and> stored' = (if new = [] then stored else sort (stored @ map placed_uid new))"
  using assms
proof (induction here source stored remaining acc rule: fill_stack.induct)
  case (2 here source stored u us acc)
  show ?case
  proof (cases "length stored < DURABLE_CONSUMABLE_STACK_CAP")
    case True
    with "2.prems" obtain l where l: "here = Inr l" and rest:
      "fill_stack here source (sort (stored @ [u])) us
         (acc @ [\<lparr>placed_uid = u, placed_from = source, placed_to = l\<rparr>]) = Inr (stored', remaining', acc')"
      by auto
    from "2.IH" [OF True l rest] obtain new where new:
      "acc' = (acc @ [\<lparr>placed_uid = u, placed_from = source, placed_to = l\<rparr>]) @ new"
      "\<forall>pl \<in> set new. here = Inr (placed_to pl)"
      "stored' = (if new = [] then sort (stored @ [u]) else sort (sort (stored @ [u]) @ map placed_uid new))"
      by blast
    have "sort (sort (stored @ [u]) @ xs) = sort (stored @ u # xs)" for xs
      by (rule properties_for_sort) (simp_all add: ac_simps)
    with new l show ?thesis
      by (intro exI [of _ "\<lparr>placed_uid = u, placed_from = source, placed_to = l\<rparr> # new"]) auto
  next
    case False
    with "2.prems" show ?thesis by auto
  qed
qed auto

lemma merge_received:
  assumes "merge_consumables location source template i slots remaining acc = Inr (slots', remaining', acc')"
    and inj: "\<And>a b l. location a = Inr l \<Longrightarrow> location b = Inr l \<Longrightarrow> a = b"
  shows "\<exists>new. acc' = acc @ new \<and> (\<forall>pl \<in> set new. \<exists>j < length slots. location (i + j) = Inr (placed_to pl))
    \<and> length slots' = length slots
    \<and> (\<forall>j < length slots. received (Consumable template units) (slots ! j) (arrivals location new (i + j)) (slots' ! j))"
  using assms(1)
proof (induction rule: merge_induct)
  case (Nil i remaining acc)
  then show ?case by simp
next
  case (Skip i slot slots remaining acc tail remaining' acc')
  then obtain new where new: "acc' = acc @ new" "length tail = length slots"
    "\<forall>pl \<in> set new. \<exists>j < length slots. location (Suc i + j) = Inr (placed_to pl)"
    "\<forall>j < length slots. received (Consumable template units) (slots ! j) (arrivals location new (Suc i + j)) (tail ! j)"
    by blast
  have "arrivals location new i = []"
    by (rule arrivals_behind [OF inj new(3)])
  moreover have "\<exists>j < Suc (length slots). location (i + j) = Inr (placed_to pl)" if "pl \<in> set new" for pl
  proof -
    from new(3) that obtain j where "j < length slots" "location (Suc i + j) = Inr (placed_to pl)"
      by blast
    then show ?thesis by (intro exI [of _ "Suc j"]) simp
  qed
  ultimately show ?case
    using new(1,2,4) by (intro exI [of _ new]) (simp add: All_less_Suc2)
next
  case (Last i stored slots remaining acc st ac)
  from fill_stack_sorts [OF Last] obtain new where new: "ac = acc @ new"
    "\<forall>pl \<in> set new. location i = Inr (placed_to pl)"
    "st = (if new = [] then stored else sort (stored @ map placed_uid new))"
    by blast
  have "arrivals location new (Suc (i + j)) = []" for j
    by (rule arrivals_elsewhere [OF inj]) (use new(2) in \<open>auto intro!: exI [of _ i]\<close>)
  with new show ?case
    by (intro exI [of _ new]) (auto simp: All_less_Suc2 arrivals_all received_units)
next
  case (More i stored slots remaining acc st re ac tail remaining' acc')
  from fill_stack_sorts [OF More(1)] obtain new where new: "ac = acc @ new"
    "\<forall>pl \<in> set new. location i = Inr (placed_to pl)"
    "st = (if new = [] then stored else sort (stored @ map placed_uid new))"
    by blast
  from More(3) obtain new' where new': "acc' = ac @ new'" "length tail = length slots"
    "\<forall>pl \<in> set new'. \<exists>j < length slots. location (Suc i + j) = Inr (placed_to pl)"
    "\<forall>j < length slots. received (Consumable template units) (slots ! j) (arrivals location new' (Suc i + j)) (tail ! j)"
    by blast
  have "arrivals location new (Suc (i + j)) = []" for j
    by (rule arrivals_elsewhere [OF inj]) (use new(2) in \<open>auto intro!: exI [of _ i]\<close>)
  moreover have "arrivals location new' i = []"
    by (rule arrivals_behind [OF inj new'(3)])
  moreover have "\<exists>j < Suc (length slots). location (i + j) = Inr (placed_to pl)" if "pl \<in> set (new @ new')" for pl
  proof (cases "pl \<in> set new")
    case False
    with that new'(3) obtain j where "j < length slots" "location (Suc i + j) = Inr (placed_to pl)"
      by auto
    then show ?thesis by (intro exI [of _ "Suc j"]) simp
  qed (use new(2) in auto)
  ultimately show ?case
    using new new' by (intro exI [of _ "new @ new'"]) (auto simp: All_less_Suc2 arrivals_all received_units)
qed

lemma fill_empty_received:
  assumes "place_in_empty_slots kind template source dest remaining acc = Inr (acc', dest')"
  shows "\<exists>new. acc' = acc @ new \<and> (\<forall>j < length dest. if arrivals (kind_location kind) new j = [] then dest' ! j = dest ! j
      else dest ! j = Empty \<and> dest' ! j = Consumable template (arrivals (kind_location kind) new j))"
  using assms
proof (induction rule: place_in_empty_induct)
  case (Done dest acc)
  then show ?case
    by (intro exI [of _ "[]"]) (simp add: arrivals_def)
next
  case (Place dest remaining acc i l acc' dest')
  let ?here = "placements_at source l (one_stack remaining)"
  from Place(5) obtain new where new: "acc' = (acc @ ?here) @ new"
    "\<forall>j < length dest. if arrivals (kind_location kind) new j = [] then dest' ! j = dest[i := Consumable template (one_stack remaining)] ! j
      else dest[i := Consumable template (one_stack remaining)] ! j = Empty
        \<and> dest' ! j = Consumable template (arrivals (kind_location kind) new j)"
    by auto
  have i: "i < length dest" "dest ! i = Empty"
    using lowest_empty_SomeD [OF Place(2)] by blast+
  have at_i: "arrivals (kind_location kind) ?here i = one_stack remaining"
    using Place(3) by (subst arrivals_all) (auto simp: comp_def)
  have off: "arrivals (kind_location kind) ?here j = []" if "j \<noteq> i" for j
    by (rule arrivals_elsewhere [OF kind_location_inj]) (use that Place(3) in \<open>auto intro!: exI [of _ i]\<close>)
  have "one_stack remaining \<noteq> []"
    using Place(1) by (simp add: DURABLE_CONSUMABLE_STACK_CAP_def)
  moreover have "arrivals (kind_location kind) new i = []"
    using new(2) i by (auto split: if_splits)
  ultimately have "if arrivals (kind_location kind) (?here @ new) j = [] then dest' ! j = dest ! j
      else dest ! j = Empty \<and> dest' ! j = Consumable template (arrivals (kind_location kind) (?here @ new) j)"
    if "j < length dest" for j
    using that new(2) i at_i off by (cases "j = i") auto
  with new(1) show ?case
    by (intro exI [of _ "?here @ new"]) simp
qed

lemma place_stack_received:
  assumes "place_stack stack source dest kind = Inr (pls, dest')"
  shows "\<forall>j < length dest. received stack (dest ! j) (arrivals (kind_location kind) pls j) (dest' ! j)"
proof (cases stack)
  case (Equipment u)
  with assms obtain i l where i: "lowest_empty dest = Some i" "kind_location kind i = Inr l"
    "pls = [\<lparr>placed_uid = u, placed_from = source, placed_to = l\<rparr>]" "dest' = dest[i := Equipment u]"
    by (auto simp del: kind_location.simps)
  have "arrivals (kind_location kind) pls j = (if j = i then [u] else [])" for j
  proof (cases "j = i")
    case False
    with i(2) have "kind_location kind j \<noteq> Inr l"
      using kind_location_inj [of kind i l j] by blast
    with False i(3) show ?thesis by (simp add: arrivals_def)
  qed (use i(2,3) in \<open>simp add: arrivals_def\<close>)
  with i Equipment lowest_empty_SomeD [OF i(1)] show ?thesis
    by (auto simp: nth_list_update)
next
  case (Consumable template uids)
  with assms obtain mid remaining acc where
    merge: "merge_consumables (kind_location kind) source template 0 dest uids [] = Inr (mid, remaining, acc)"
    and rest: "place_in_empty_slots kind template source mid remaining acc = Inr (pls, dest')"
    by (auto simp: place_consumables_def)
  from merge_received [OF merge kind_location_inj, where units = uids] have merged: "length mid = length dest"
    "\<forall>j < length dest. received stack (dest ! j) (arrivals (kind_location kind) acc j) (mid ! j)"
    using Consumable by auto
  from fill_empty_received [OF rest] obtain new where new: "pls = acc @ new"
    "\<forall>j < length mid. if arrivals (kind_location kind) new j = [] then dest' ! j = mid ! j
      else mid ! j = Empty \<and> dest' ! j = Consumable template (arrivals (kind_location kind) new j)"
    by blast
  show ?thesis
  proof (intro allI impI)
    fix j assume j: "j < length dest"
    let ?acc = "arrivals (kind_location kind) acc j" and ?new = "arrivals (kind_location kind) new j"
    show "received stack (dest ! j) (arrivals (kind_location kind) pls j) (dest' ! j)"
    proof (cases "?new = []")
      case True
      with new merged j show ?thesis by simp
    next
      case False
      with new(2) merged(1) j have "mid ! j = Empty" "dest' ! j = Consumable template ?new"
        by auto
      moreover from this(1) merged(2) j have "?acc = []" "dest ! j = Empty"
        using Consumable by (cases ?acc; fastforce)+
      ultimately show ?thesis
        using new(1) False Consumable by (simp add: received_units)
    qed
  qed
qed (use assms in simp)

section \<open>Properties of the planner\<close>

lemma validate_safe_snapshot_eq [slot_simps]:
  "validate_safe_snapshot snapshot = Inr () \<longleftrightarrow>
     ss_account_version snapshot \<noteq> 0 \<and> ss_inventory_version snapshot \<noteq> 0
     \<and> length (ss_character_safe snapshot) = CHARACTER_SAFE_CAPACITY
     \<and> length (ss_vault snapshot) = VAULT_CAPACITY
     \<and> length (ss_run_backpack snapshot) = RUN_BACKPACK_CAPACITY
     \<and> (\<forall>slot \<in> set (ss_character_safe snapshot @ ss_vault snapshot @ ss_run_backpack snapshot).
          slot_ok (\<lambda>t. t \<noteq> []) slot)
     \<and> distinct (uids_of (ss_character_safe snapshot @ ss_vault snapshot @ ss_run_backpack snapshot))"
  by (auto simp: validate_safe_snapshot_def validate_slots_eq_Inr)

lemma transfer_parts_valid:
  assumes "validate_safe_snapshot snapshot = Inr ()"
    and "transfer_parts snapshot command = (source, slots, index, dest, kind, adv)"
    and "index < length slots"
  shows "slot_ok (\<lambda>t. t \<noteq> []) (slots ! index)" "\<forall>slot \<in> set dest. slot_ok (\<lambda>t. t \<noteq> []) slot"
    "length dest = kind_capacity kind" "distinct (uids_of dest @ slot_uids (slots ! index))"
proof -
  have sub: "set (slot_uids (slots ! index)) \<subseteq> set (uids_of slots)" "slots ! index \<in> set slots"
    using assms(3) by (auto simp: set_uids_of dest: nth_mem)
  have d: "distinct (uids_of slots) \<Longrightarrow> distinct (slot_uids (slots ! index))"
    using assms(3) by (metis id_take_nth_drop distinct_append uids_of_simps(2,3))
  show "slot_ok (\<lambda>t. t \<noteq> []) (slots ! index)" "\<forall>slot \<in> set dest. slot_ok (\<lambda>t. t \<noteq> []) slot"
    "length dest = kind_capacity kind" "distinct (uids_of dest @ slot_uids (slots ! index))"
    using assms(1,2) sub d by (cases command; auto simp: validate_safe_snapshot_eq)+
qed

lemma build_plan_Inr:
  assumes "build_plan snapshot pls adv = Inr plan"
  shows "sp_placements plan = pls"
    and "pls \<noteq> [] \<Longrightarrow> unat (post_inventory_version plan) = unat (ss_inventory_version snapshot) + 1"
    and "pls \<noteq> [] \<Longrightarrow> unat (post_account_version plan)
      = unat (ss_account_version snapshot) + (if adv then 1 else 0)"
  using assms by (auto simp: build_plan_def Let_def checked_add_eq_Some split: if_splits)

lemma slot_uids_nonempty: "slot_ok tok stack \<Longrightarrow> stack \<noteq> Empty \<Longrightarrow> slot_uids stack \<noteq> []"
  by (cases stack) auto

text \<open>
  C37. A transfer plan moves exactly the source stack and loses or duplicates nothing: its placements
  list the stack's identities in order, each from the source slot and into a slot of the
  destination container. The container after the transfer is the one the planner computed, and it is determined slot by slot by the
  placements: a slot without arrivals keeps its content, an equipment arrives in an empty slot, and
  units start a stack in an empty slot or join, in order, a stack of their template. It holds the old identities plus the stack's,
  with every stack of at most six units and strictly ordered; and the inventory version
  advances by one, the account version by one exactly when account storage is involved.
\<close>

theorem safe_transfer_sound:
  assumes plan: "plan_safe_storage_transfer snapshot command = Inr plan"
    and parts: "transfer_parts snapshot command = (source, slots, index, dest, kind, adv)"
  shows "\<exists>dest'. index < length slots
    \<and> place_stack (slots ! index) source dest kind = Inr (sp_placements plan, dest')
    \<and> map placed_uid (sp_placements plan) = slot_uids (slots ! index)
    \<and> sp_placements plan \<noteq> []
    \<and> placed_in (kind_location kind) source dest' (sp_placements plan)
    \<and> length dest' = length dest
    \<and> (\<forall>j < length dest. received (slots ! index) (dest ! j)
         (arrivals (kind_location kind) (sp_placements plan) j) (dest' ! j))
    \<and> mset (uids_of dest') = mset (uids_of dest) + mset (slot_uids (slots ! index))
    \<and> (\<forall>slot \<in> set dest'. slot_ok (\<lambda>t. t \<noteq> []) slot) \<and> distinct (uids_of dest')
    \<and> unat (post_inventory_version plan) = unat (ss_inventory_version snapshot) + 1
    \<and> unat (post_account_version plan) = unat (ss_account_version snapshot) + (if adv then 1 else 0)"
proof -
  from plan parts obtain pls dest' where valid: "validate_safe_snapshot snapshot = Inr ()"
    and index: "index < length slots" "slots ! index \<noteq> Empty"
    and place: "place_stack (slots ! index) source dest kind = Inr (pls, dest')"
    and build: "build_plan snapshot pls adv = Inr plan"
    by (auto simp: plan_safe_storage_transfer_def source_stack_def split: if_splits)
  note v = transfer_parts_valid [OF valid parts index(1)] and p = place_stack_Inr [OF place]
  have "distinct (uids_of dest')"
    using v(4) p(3) distinct_mset_eq [of "uids_of dest'" "uids_of dest @ slot_uids (slots ! index)"]
    by simp
  moreover have "pls \<noteq> []"
    using p(1) slot_uids_nonempty [OF v(1) index(2)] by auto
  ultimately show ?thesis
    using index p place place_stack_ok [OF place v(1,2,4)] place_stack_received [OF place] build_plan_Inr [OF build]
    by (intro exI [of _ dest']) simp
qed

lemma safe_transfer_plan_exists:
  assumes valid: "validate_safe_snapshot snapshot = Inr ()"
    and parts: "transfer_parts snapshot command = (source, slots, index, dest, kind, adv)"
    and index: "index < length slots" "slots ! index \<noteq> Empty" and room: "Empty \<in> set dest"
    and versions: "ss_account_version snapshot \<noteq> - 1" "ss_inventory_version snapshot \<noteq> - 1"
  shows "\<exists>plan. plan_safe_storage_transfer snapshot command = Inr plan"
proof -
  note v = transfer_parts_valid [OF valid parts index(1)]
  have "0 < empties dest"
    using room lowest_empty_None [of dest] empties_pos by (cases "lowest_empty dest") auto
  from place_stack_total [OF index(2) v(1,3) this] obtain pls dest' where
    place: "place_stack (slots ! index) source dest kind = Inr (pls, dest')" by blast
  have "\<exists>plan. build_plan snapshot pls adv = Inr plan"
    using versions by (simp add: build_plan_def Let_def checked_add_one)
  with valid parts index place show ?thesis
    by (auto simp: plan_safe_storage_transfer_def source_stack_def)
qed

text \<open>
  A transfer cannot fail for lack of room while the destination has an empty slot: on a valid
  snapshot with versions that can still advance, a command that names a non-empty source slot
  always yields a plan.
\<close>

lemma safe_transfer_total:
  assumes valid: "validate_safe_snapshot snapshot = Inr ()"
    and parts: "transfer_parts snapshot command = (source, slots, index, dest, kind, adv)"
    and index: "index < length slots" "slots ! index \<noteq> Empty" and room: "Empty \<in> set dest"
    and versions: "ss_account_version snapshot \<noteq> - 1" "ss_inventory_version snapshot \<noteq> - 1"
  shows "\<exists>plan. plan_safe_storage_transfer snapshot command = Inr plan"
  by (rule safe_transfer_plan_exists [OF assms])

lemma preflight_slot_Inr:
  assumes "preflight_slot (i, stack) (pls, vault) = Inr (pls', vault')"
  shows "mset (uids_of vault') = mset (uids_of vault) + mset (slot_uids stack)
    \<and> (\<exists>new. pls' = pls @ new \<and> map placed_uid new = slot_uids stack) \<and> length vault' = length vault"
  using assms place_stack_Inr
  by (fastforce simp: preflight_slot_def split: if_splits)

lemma preflight_loop_Inr:
  assumes "try_fold preflight_slot (enumerate n stacks) (pls, vault) = Inr (pls', vault')"
  shows "mset (uids_of vault') = mset (uids_of vault) + mset (uids_of stacks)
    \<and> (\<exists>new. pls' = pls @ new \<and> map placed_uid new = uids_of stacks) \<and> length vault' = length vault"
  using assms
proof (induction stacks arbitrary: n pls vault)
  case (Cons stack stacks)
  then obtain pls1 vault1 where step: "preflight_slot (n, stack) (pls, vault) = Inr (pls1, vault1)"
    and rest: "try_fold preflight_slot (enumerate (Suc n) stacks) (pls1, vault1) = Inr (pls', vault')"
    by auto
  from preflight_slot_Inr [OF step] Cons.IH [OF rest] show ?case
    by (force simp: ac_simps)
qed simp

text \<open>
  The preflight empties the whole CharacterSafe into the Vault or fails as a whole: a plan lists
  every identity of the CharacterSafe exactly once, in slot order, and the vault it describes
  holds the old vault's identities together with the CharacterSafe's.
\<close>

lemma preflight_sound:
  assumes "plan_character_safe_preflight snapshot = Inr plan"
  shows "map placed_uid (sp_placements plan) = uids_of (ss_character_safe snapshot)
    \<and> distinct (map placed_uid (sp_placements plan))
    \<and> (\<exists>vault'. try_fold preflight_slot (enumerate 0 (ss_character_safe snapshot))
            ([], ss_vault snapshot) = Inr (sp_placements plan, vault')
          \<and> mset (uids_of vault')
              = mset (uids_of (ss_vault snapshot)) + mset (uids_of (ss_character_safe snapshot))
          \<and> length vault' = VAULT_CAPACITY)"
proof -
  from assms obtain pls vault' where valid: "validate_safe_snapshot snapshot = Inr ()"
    and loop: "try_fold preflight_slot (enumerate 0 (ss_character_safe snapshot))
      ([], ss_vault snapshot) = Inr (pls, vault')"
    and build: "build_plan snapshot pls True = Inr plan"
    by (auto simp: plan_character_safe_preflight_def)
  from preflight_loop_Inr [OF loop] build_plan_Inr(1) [OF build] valid loop show ?thesis
    by (auto simp: validate_safe_snapshot_eq)
qed

section \<open>A concrete storage\<close>

definition sample_storage :: safe_storage_snapshot where
  "sample_storage =
     \<lparr>ss_account_version = 3, ss_inventory_version = 5,
      ss_character_safe = Equipment (sample_uid 1) # replicate 7 Empty,
      ss_vault = Empty # replicate 159 Empty, ss_run_backpack = replicate 8 Empty\<rparr>"

lemma sample_storage_valid: "validate_safe_snapshot sample_storage = Inr ()"
  by (simp add: validate_safe_snapshot_eq sample_storage_def CHARACTER_SAFE_CAPACITY_def
      VAULT_CAPACITY_def RUN_BACKPACK_CAPACITY_def uids_of_replicate_Empty)

abbreviation sample_parts ::
  "safe_storage_location \<times> durable_storage_slot list \<times> nat \<times> durable_storage_slot list \<times> destination_kind \<times> bool" where
  "sample_parts \<equiv> (InCharacterSafe 0, ss_character_safe sample_storage, 0, ss_vault sample_storage, ToVault, True)"

lemma sample_transfer_parts: "transfer_parts sample_storage (CharacterSafeToVault 0) = sample_parts"
  by simp

lemma sample_source:
  "0 < length (ss_character_safe sample_storage)" "ss_character_safe sample_storage ! 0 \<noteq> Empty"
  "Empty \<in> set (ss_vault sample_storage)"
  "ss_account_version sample_storage \<noteq> - 1" "ss_inventory_version sample_storage \<noteq> - 1"
  by (simp_all add: sample_storage_def)

theorem safe_transfer_sound_witness:
  "\<exists>plan. plan_safe_storage_transfer sample_storage (CharacterSafeToVault 0) = Inr plan
     \<and> map placed_uid (sp_placements plan) = [sample_uid 1]"
proof -
  obtain plan where plan: "plan_safe_storage_transfer sample_storage (CharacterSafeToVault 0) = Inr plan"
    using safe_transfer_plan_exists [OF sample_storage_valid sample_transfer_parts sample_source] by blast
  have "slot_uids (ss_character_safe sample_storage ! 0) = [sample_uid 1]"
    by (simp add: sample_storage_def)
  with safe_transfer_sound [OF plan sample_transfer_parts] plan show ?thesis by auto
qed

lemma preflight_skips_empty:
  "try_fold preflight_slot (enumerate n (replicate k Empty)) state = Inr state"
  by (induction k arbitrary: n) (auto simp: preflight_slot_def split: prod.splits)

lemma sample_preflight: "\<exists>plan. plan_character_safe_preflight sample_storage = Inr plan"
proof -
  have "\<exists>r. try_fold preflight_slot (enumerate 0 (ss_character_safe sample_storage))
      ([], ss_vault sample_storage) = Inr r"
    by (simp add: sample_storage_def preflight_skips_empty)
      (simp add: preflight_slot_def try_from_usize_def lowest_empty_def)
  then obtain pls vault where "try_fold preflight_slot (enumerate 0 (ss_character_safe sample_storage))
      ([], ss_vault sample_storage) = Inr (pls, vault)"
    by auto
  moreover have "\<exists>plan. build_plan sample_storage pls True = Inr plan"
    using sample_source(4,5) by (simp add: build_plan_def Let_def checked_add_one)
  ultimately show ?thesis
    by (simp add: plan_character_safe_preflight_def sample_storage_valid)
qed

end
