(* ===== verification/Terminal_Inventory.thy ===== *)
theory Terminal_Inventory
  imports Safe_Storage
begin

text \<open>
  The terminal inventory planner (\<open>sim_core/src/terminal_inventory.rs\<close>): what happens to
  every item and material when a character's run ends. Successful extraction places the run
  backpack into belt stacks, CharacterSafe, Vault, Overflow and ResolutionHold; emergency
  recall keeps equipment and belt and destroys the rest; ResolutionHold recovery moves or
  destroys one held stack. This theory holds the data, the validation and the operations;
  the theories \<open>Extraction_Properties\<close> and \<open>Recall_Properties\<close> hold what is proved of them.
\<close>

section \<open>Data\<close>

definition TERMINAL_BELT_CAPACITY :: nat where
  "TERMINAL_BELT_CAPACITY = 2"

definition TERMINAL_OVERFLOW_CAPACITY :: nat where
  "TERMINAL_OVERFLOW_CAPACITY = 20"

definition TERMINAL_RESOLUTION_HOLD_CAPACITY :: nat where
  "TERMINAL_RESOLUTION_HOLD_CAPACITY = RUN_BACKPACK_CAPACITY"

definition TERMINAL_MATERIAL_CAPACITY :: nat where
  "TERMINAL_MATERIAL_CAPACITY = 4"

definition TERMINAL_PENDING_ITEM_CAPACITY :: nat where
  "TERMINAL_PENDING_ITEM_CAPACITY = 4096"

definition TERMINAL_STABILIZED_ITEM_CAPACITY :: nat where
  "TERMINAL_STABILIZED_ITEM_CAPACITY =
     EQUIPMENT_SLOT_COUNT + TERMINAL_BELT_CAPACITY * DURABLE_CONSUMABLE_STACK_CAP"

definition OVERFLOW_LIFETIME_MICROS :: u64 where
  "OVERFLOW_LIFETIME_MICROS = 72 * 60 * 60 * 1000000"

datatype terminal_inventory_location =
    AtEquipped u8
  | AtBelt u8
  | AtRunBackpack u8
  | AtCharacterSafe u8
  | AtVault u16
  | AtOverflow u8
  | AtResolutionHold u8

record terminal_material_snapshot =
  tm_material_id :: string
  tm_safe_quantity :: u32
  tm_pending_quantity :: u16
  tm_wallet_cap :: u32
  tm_wallet_version :: u64
  tm_pouch_version :: u64

record terminal_material_credit =
  tc_material_id :: string
  tc_credited_quantity :: u16
  tc_pre_safe_quantity :: u32
  tc_post_safe_quantity :: u32
  tc_pre_wallet_version :: u64
  tc_post_wallet_version :: u64
  tc_pre_pouch_version :: u64
  tc_post_pouch_version :: u64

datatype recall_item_location =
    RecallEquipped u8
  | RecallBelt u8
  | RecallRunBackpack u8
  | RecallPersonalGround bytes bytes u64

record recall_personal_ground_stack =
  pg_instance_id :: bytes
  pg_pickup_id :: bytes
  pg_expires_at_tick :: u64
  pg_stack :: durable_storage_slot

record recall_material_snapshot =
  rm_material_id :: string
  rm_pending_quantity :: u16
  rm_pouch_version :: u64

record recall_item_mutation =
  mutation_uid :: item_uid
  mutation_source :: recall_item_location

record recall_material_destruction =
  rd_material_id :: string
  rd_destroyed_quantity :: u16
  rd_pre_pouch_version :: u64
  rd_post_pouch_version :: u64

record recall_inventory_snapshot =
  rs_account_version :: u64
  rs_inventory_version :: u64
  rs_equipped :: "durable_storage_slot list"
  rs_belt :: "durable_storage_slot list"
  rs_run_backpack :: "durable_storage_slot list"
  rs_personal_ground :: "recall_personal_ground_stack list"
  rs_materials :: "recall_material_snapshot list"

record recall_inventory_plan =
  rp_stabilized_items :: "recall_item_mutation list"
  rp_destroyed_items :: "recall_item_mutation list"
  rp_destroyed_materials :: "recall_material_destruction list"
  rp_post_account_version :: u64
  rp_post_inventory_version :: u64
  rp_post_equipped :: "durable_storage_slot list"
  rp_post_belt :: "durable_storage_slot list"
  rp_post_run_backpack :: "durable_storage_slot list"

record extraction_inventory_snapshot =
  es_account_version :: u64
  es_inventory_version :: u64
  es_committed_at_unix_micros :: u64
  es_equipped :: "durable_storage_slot list"
  es_belt :: "durable_storage_slot list"
  es_character_safe :: "durable_storage_slot list"
  es_vault :: "durable_storage_slot list"
  es_overflow :: "durable_storage_slot list"
  es_run_backpack :: "durable_storage_slot list"
  es_resolution_hold :: "durable_storage_slot list"
  es_materials :: "terminal_material_snapshot list"

record extraction_inventory_plan =
  ep_placements :: "terminal_inventory_location item_placement list"
  ep_material_credits :: "terminal_material_credit list"
  ep_post_account_version :: u64
  ep_post_inventory_version :: u64
  ep_overflow_expires_at_unix_micros :: u64
  ep_post_belt :: "durable_storage_slot list"
  ep_post_character_safe :: "durable_storage_slot list"
  ep_post_vault :: "durable_storage_slot list"
  ep_post_overflow :: "durable_storage_slot list"
  ep_post_run_backpack :: "durable_storage_slot list"
  ep_post_resolution_hold :: "durable_storage_slot list"

datatype resolution_hold_recovery_action = Move | DestroyConfirmed

datatype resolution_hold_recovery_destination =
    HoldToCharacterSafe u8
  | HoldToVault u16
  | HoldToOverflow u8 u64

record resolution_hold_recovery_snapshot =
  hs_account_version :: u64
  hs_inventory_version :: u64
  hs_authoritative_time_unix_micros :: u64
  hs_extracted_at_unix_micros :: u64
  hs_held_stack :: durable_storage_slot
  hs_character_safe :: "durable_storage_slot list"
  hs_vault :: "durable_storage_slot list"
  hs_overflow :: "durable_storage_slot list"

record resolution_hold_recovery_plan =
  hp_action :: resolution_hold_recovery_action
  hp_destination :: "resolution_hold_recovery_destination option"
  hp_item_uids :: "item_uid list"
  hp_pre_account_version :: u64
  hp_post_account_version :: u64
  hp_pre_inventory_version :: u64
  hp_post_inventory_version :: u64
  hp_post_character_safe :: "durable_storage_slot list"
  hp_post_vault :: "durable_storage_slot list"
  hp_post_overflow :: "durable_storage_slot list"

datatype terminal_inventory_error =
    InvalidAuthorityVersion
  | InvalidCapacity
  | InvalidSlotKind
  | InvalidTerminalStack
  | DuplicateTerminalUid
  | UnresolvedResolutionHold
  | ResolutionHoldFull
  | InvalidResolutionHoldStack
  | ResolutionHoldStorageFull
  | InvalidMaterial
  | DuplicateMaterial
  | InvalidPersonalGround
  | RecallItemCapacity
  | TerminalOverflow

section \<open>Projections of a plan\<close>

definition resolution_required :: "extraction_inventory_plan \<Rightarrow> bool" where
  "resolution_required plan = list_ex (\<lambda>slot. slot \<noteq> Empty) (ep_post_resolution_hold plan)"

fun is_run_backpack_location :: "terminal_inventory_location \<Rightarrow> bool" where
  "is_run_backpack_location (AtRunBackpack i) = True"
| "is_run_backpack_location l = False"

definition accepted_item_count :: "extraction_inventory_plan \<Rightarrow> nat" where
  "accepted_item_count plan =
     length (filter (\<lambda>pl. is_run_backpack_location (placed_from pl)) (ep_placements plan))"

fun account_owned :: "resolution_hold_recovery_destination \<Rightarrow> bool" where
  "account_owned (HoldToCharacterSafe i) = False"
| "account_owned (HoldToVault i) = True"
| "account_owned (HoldToOverflow i e) = True"

section \<open>Validation\<close>

definition is_template_byte :: "char \<Rightarrow> bool" where
  "is_template_byte c =
     (let b = (of_char c :: nat)
      in (97 \<le> b \<and> b \<le> 122) \<or> (48 \<le> b \<and> b \<le> 57) \<or> c = CHR ''.'' \<or> c = CHR ''_'' \<or> c = CHR ''-'')"

definition valid_template_id :: "string \<Rightarrow> bool" where
  "valid_template_id v \<longleftrightarrow> 3 \<le> length v \<and> length v \<le> 96 \<and> list_all is_template_byte v"

datatype slot_policy = EquipmentOnly | ConsumableOnly | AnyKind

fun slot_kind_allowed :: "slot_policy \<Rightarrow> durable_storage_slot \<Rightarrow> bool" where
  "slot_kind_allowed policy Empty = True"
| "slot_kind_allowed policy (Equipment u) = (policy = EquipmentOnly \<or> policy = AnyKind)"
| "slot_kind_allowed policy (Consumable t us) = (policy = ConsumableOnly \<or> policy = AnyKind)"

definition validate_slot_kinds ::
  "durable_storage_slot list \<Rightarrow> slot_policy \<Rightarrow> terminal_inventory_error + unit" where
  "validate_slot_kinds slots policy =
     (if list_all (slot_kind_allowed policy) slots then Inr () else Inl InvalidSlotKind)"

definition validate_terminal_slot ::
  "durable_storage_slot \<Rightarrow> item_uid set \<Rightarrow> terminal_inventory_error + item_uid set" where
  "validate_terminal_slot =
     validate_slot_and_uids valid_template_id InvalidTerminalStack DuplicateTerminalUid"

definition validate_material ::
  "terminal_material_snapshot \<Rightarrow> string set \<Rightarrow> terminal_inventory_error + string set" where
  "validate_material m ids =
     and_then (ok_or (checked_add (tm_safe_quantity m) (ucast (tm_pending_quantity m))) InvalidMaterial)
       (\<lambda>sum.
          if \<not> valid_template_id (tm_material_id m) \<or> tm_pending_quantity m = 0
             \<or> tm_pending_quantity m > 99 \<or> tm_wallet_cap m = 0 \<or> sum > tm_wallet_cap m
             \<or> tm_wallet_version m = 0 \<or> tm_pouch_version m = 0
          then Inl InvalidMaterial
          else if tm_material_id m \<in> ids then Inl DuplicateMaterial
          else Inr (insert (tm_material_id m) ids))"

definition validate_materials :: "terminal_material_snapshot list \<Rightarrow> terminal_inventory_error + unit" where
  "validate_materials materials =
     (if length materials > TERMINAL_MATERIAL_CAPACITY then Inl InvalidMaterial
      else and_then (try_fold validate_material materials {}) (\<lambda>_. Inr ()))"

definition validate_extraction_snapshot ::
  "extraction_inventory_snapshot \<Rightarrow> terminal_inventory_error + unit" where
  "validate_extraction_snapshot s =
     (if es_account_version s = 0 \<or> es_inventory_version s = 0 \<or> es_committed_at_unix_micros s = 0
        then Inl InvalidAuthorityVersion
      else if length (es_equipped s) \<noteq> EQUIPMENT_SLOT_COUNT
           \<or> length (es_belt s) \<noteq> TERMINAL_BELT_CAPACITY
           \<or> length (es_character_safe s) \<noteq> CHARACTER_SAFE_CAPACITY
           \<or> length (es_vault s) \<noteq> VAULT_CAPACITY
           \<or> length (es_overflow s) \<noteq> TERMINAL_OVERFLOW_CAPACITY
           \<or> length (es_run_backpack s) \<noteq> RUN_BACKPACK_CAPACITY
           \<or> length (es_resolution_hold s) \<noteq> TERMINAL_RESOLUTION_HOLD_CAPACITY
        then Inl InvalidCapacity
      else if list_ex (\<lambda>slot. slot \<noteq> Empty) (es_resolution_hold s) then Inl UnresolvedResolutionHold
      else and_then (validate_slot_kinds (es_equipped s) EquipmentOnly) (\<lambda>_.
           and_then (validate_slot_kinds (es_belt s) ConsumableOnly) (\<lambda>_.
           and_then (try_fold (\<lambda>slots _. validate_slot_kinds slots AnyKind)
             [es_character_safe s, es_vault s, es_overflow s, es_run_backpack s] ()) (\<lambda>_.
           and_then (try_fold validate_terminal_slot
             (es_equipped s @ es_belt s @ es_character_safe s @ es_vault s @ es_overflow s
                @ es_run_backpack s) {}) (\<lambda>_.
           validate_materials (es_materials s))))))"

definition validate_recall_material ::
  "recall_material_snapshot \<Rightarrow> string set \<Rightarrow> terminal_inventory_error + string set" where
  "validate_recall_material m ids =
     (if \<not> valid_template_id (rm_material_id m) \<or> rm_pending_quantity m = 0
         \<or> rm_pending_quantity m > 99 \<or> rm_pouch_version m = 0
      then Inl InvalidMaterial
      else if rm_material_id m \<in> ids then Inl DuplicateMaterial
      else Inr (insert (rm_material_id m) ids))"

definition validate_recall_materials ::
  "recall_material_snapshot list \<Rightarrow> terminal_inventory_error + unit" where
  "validate_recall_materials materials =
     (if length materials > TERMINAL_MATERIAL_CAPACITY then Inl InvalidMaterial
      else and_then (try_fold validate_recall_material materials {}) (\<lambda>_. Inr ()))"

definition validate_personal_ground ::
  "recall_personal_ground_stack \<Rightarrow> (bytes \<times> bytes) set \<times> item_uid set
     \<Rightarrow> terminal_inventory_error + (bytes \<times> bytes) set \<times> item_uid set" where
  "validate_personal_ground entry state =
     (case state of (authorities, ids) \<Rightarrow>
       if pg_instance_id entry = replicate 16 0 \<or> pg_pickup_id entry = replicate 16 0
          \<or> pg_expires_at_tick entry = 0 \<or> pg_stack entry = Empty
          \<or> (pg_instance_id entry, pg_pickup_id entry) \<in> authorities
       then Inl InvalidPersonalGround
       else and_then (validate_terminal_slot (pg_stack entry) ids) (\<lambda>ids'.
              Inr (insert (pg_instance_id entry, pg_pickup_id entry) authorities, ids')))"

definition validate_recall_snapshot :: "recall_inventory_snapshot \<Rightarrow> terminal_inventory_error + unit" where
  "validate_recall_snapshot s =
     (if rs_account_version s = 0 \<or> rs_inventory_version s = 0 then Inl InvalidAuthorityVersion
      else if length (rs_equipped s) \<noteq> EQUIPMENT_SLOT_COUNT
           \<or> length (rs_belt s) \<noteq> TERMINAL_BELT_CAPACITY
           \<or> length (rs_run_backpack s) \<noteq> RUN_BACKPACK_CAPACITY
        then Inl InvalidCapacity
      else and_then (validate_slot_kinds (rs_equipped s) EquipmentOnly) (\<lambda>_.
           and_then (validate_slot_kinds (rs_belt s) ConsumableOnly) (\<lambda>_.
           and_then (validate_slot_kinds (rs_run_backpack s) AnyKind) (\<lambda>_.
           and_then (try_fold validate_terminal_slot
             (rs_equipped s @ rs_belt s @ rs_run_backpack s) {}) (\<lambda>ids.
           and_then (try_fold validate_personal_ground (rs_personal_ground s) ({}, ids)) (\<lambda>(_, ids').
             if card ids' > TERMINAL_PENDING_ITEM_CAPACITY + TERMINAL_STABILIZED_ITEM_CAPACITY
             then Inl RecallItemCapacity
             else validate_recall_materials (rs_materials s)))))))"

section \<open>Extraction\<close>

datatype terminal_location_kind =
    KindEquipped
  | KindBelt
  | KindCharacterSafe
  | KindVault
  | KindOverflow
  | KindResolutionHold

fun terminal_location ::
  "terminal_location_kind \<Rightarrow> nat \<Rightarrow> terminal_inventory_error + terminal_inventory_location" where
  "terminal_location KindEquipped i =
     and_then (ok_or (try_from_usize i) InvalidCapacity) (\<lambda>n. Inr (AtEquipped n))"
| "terminal_location KindBelt i =
     and_then (ok_or (try_from_usize i) InvalidCapacity) (\<lambda>n. Inr (AtBelt n))"
| "terminal_location KindCharacterSafe i =
     and_then (ok_or (try_from_usize i) InvalidCapacity) (\<lambda>n. Inr (AtCharacterSafe n))"
| "terminal_location KindVault i =
     and_then (ok_or (try_from_usize i) InvalidCapacity) (\<lambda>n. Inr (AtVault n))"
| "terminal_location KindOverflow i =
     and_then (ok_or (try_from_usize i) InvalidCapacity) (\<lambda>n. Inr (AtOverflow n))"
| "terminal_location KindResolutionHold i =
     and_then (ok_or (try_from_usize i) InvalidCapacity) (\<lambda>n. Inr (AtResolutionHold n))"

record planned_extraction_items =
  pi_placements :: "terminal_inventory_location item_placement list"
  pi_belt :: "durable_storage_slot list"
  pi_character_safe :: "durable_storage_slot list"
  pi_vault :: "durable_storage_slot list"
  pi_overflow :: "durable_storage_slot list"
  pi_run_backpack :: "durable_storage_slot list"
  pi_resolution_hold :: "durable_storage_slot list"

definition append_stabilized_placements ::
  "durable_storage_slot list \<Rightarrow> terminal_location_kind \<Rightarrow> terminal_inventory_location item_placement list
     \<Rightarrow> terminal_inventory_error + terminal_inventory_location item_placement list" where
  "append_stabilized_placements slots kind placements =
     try_fold (\<lambda>(i, slot) acc. and_then (terminal_location kind i) (\<lambda>l.
         Inr (acc @ map (\<lambda>u. \<lparr>placed_uid = u, placed_from = l, placed_to = l\<rparr>) (slot_uids slot))))
       (enumerate 0 slots) placements"

text \<open>
  The container loop shared by \<open>place_equipment\<close> and \<open>place_consumable_remainder\<close>: the new slot
  goes into the lowest empty slot of the first container that has one.
\<close>

definition place_in_first_empty ::
  "durable_storage_slot \<Rightarrow> planned_extraction_items
     \<Rightarrow> terminal_inventory_error + terminal_inventory_location \<times> planned_extraction_items" where
  "place_in_first_empty slot items =
     (case lowest_empty (pi_character_safe items) of
        Some i \<Rightarrow> and_then (terminal_location KindCharacterSafe i) (\<lambda>l.
          Inr (l, items\<lparr>pi_character_safe := (pi_character_safe items)[i := slot]\<rparr>))
      | None \<Rightarrow>
     (case lowest_empty (pi_vault items) of
        Some i \<Rightarrow> and_then (terminal_location KindVault i) (\<lambda>l.
          Inr (l, items\<lparr>pi_vault := (pi_vault items)[i := slot]\<rparr>))
      | None \<Rightarrow>
     (case lowest_empty (pi_overflow items) of
        Some i \<Rightarrow> and_then (terminal_location KindOverflow i) (\<lambda>l.
          Inr (l, items\<lparr>pi_overflow := (pi_overflow items)[i := slot]\<rparr>))
      | None \<Rightarrow>
     (case lowest_empty (pi_resolution_hold items) of
        Some i \<Rightarrow> and_then (terminal_location KindResolutionHold i) (\<lambda>l.
          Inr (l, items\<lparr>pi_resolution_hold := (pi_resolution_hold items)[i := slot]\<rparr>))
      | None \<Rightarrow> Inl ResolutionHoldFull))))"

definition place_equipment ::
  "item_uid \<Rightarrow> planned_extraction_items
     \<Rightarrow> terminal_inventory_error + terminal_inventory_location \<times> planned_extraction_items" where
  "place_equipment u items = place_in_first_empty (Equipment u) items"

definition place_consumable_remainder ::
  "string \<Rightarrow> item_uid list \<Rightarrow> planned_extraction_items
     \<Rightarrow> terminal_inventory_error + terminal_inventory_location \<times> planned_extraction_items" where
  "place_consumable_remainder template remaining items =
     place_in_first_empty (Consumable template remaining) items"

definition place_run_backpack_consumables ::
  "string \<Rightarrow> item_uid list \<Rightarrow> terminal_inventory_location \<Rightarrow> planned_extraction_items
     \<Rightarrow> terminal_inventory_error + planned_extraction_items" where
  "place_run_backpack_consumables template uids source items =
     and_then (merge_consumables (terminal_location KindBelt) source template 0
                 (pi_belt items) uids (pi_placements items)) (\<lambda>(belt, remaining1, placements1).
     and_then (merge_consumables (terminal_location KindCharacterSafe) source template 0
                 (pi_character_safe items) remaining1 placements1) (\<lambda>(safe, remaining2, placements2).
     and_then (merge_consumables (terminal_location KindVault) source template 0
                 (pi_vault items) remaining2 placements2) (\<lambda>(vault, remaining3, placements3).
     let items' = items\<lparr>pi_placements := placements3, pi_belt := belt,
                        pi_character_safe := safe, pi_vault := vault\<rparr> in
     if remaining3 = [] then Inr items'
     else and_then (place_consumable_remainder template remaining3 items') (\<lambda>(destination, items'').
       Inr (items''\<lparr>pi_placements := pi_placements items'' @
              map (\<lambda>u. \<lparr>placed_uid = u, placed_from = source, placed_to = destination\<rparr>) remaining3\<rparr>)))))"

definition place_run_backpack_slot ::
  "nat \<Rightarrow> durable_storage_slot \<Rightarrow> planned_extraction_items
     \<Rightarrow> terminal_inventory_error + planned_extraction_items" where
  "place_run_backpack_slot source_index source_slot items =
     and_then (ok_or (try_from_usize source_index) InvalidCapacity) (\<lambda>n.
       case source_slot of
         Empty \<Rightarrow> Inr items
       | Equipment u \<Rightarrow> and_then (place_equipment u items) (\<lambda>(destination, items').
           Inr (items'\<lparr>pi_placements := pi_placements items' @
                  [\<lparr>placed_uid = u, placed_from = AtRunBackpack n, placed_to = destination\<rparr>]\<rparr>))
       | Consumable template uids \<Rightarrow>
           place_run_backpack_consumables template uids (AtRunBackpack n) items)"

definition extract_backpack_slot ::
  "nat \<times> durable_storage_slot \<Rightarrow> planned_extraction_items
     \<Rightarrow> terminal_inventory_error + planned_extraction_items" where
  "extract_backpack_slot entry items =
     (case entry of (source_index, source_slot) \<Rightarrow>
       and_then (place_run_backpack_slot source_index source_slot items) (\<lambda>items'.
         Inr (items'\<lparr>pi_run_backpack := (pi_run_backpack items')[source_index := Empty]\<rparr>)))"

definition plan_extraction_items ::
  "extraction_inventory_snapshot \<Rightarrow> terminal_inventory_error + planned_extraction_items" where
  "plan_extraction_items s =
     and_then (append_stabilized_placements (es_equipped s) KindEquipped []) (\<lambda>placements1.
     and_then (append_stabilized_placements (es_belt s) KindBelt placements1) (\<lambda>placements2.
     try_fold extract_backpack_slot (enumerate 0 (es_run_backpack s))
       \<lparr>pi_placements = placements2, pi_belt = es_belt s, pi_character_safe = es_character_safe s,
        pi_vault = es_vault s, pi_overflow = es_overflow s, pi_run_backpack = es_run_backpack s,
        pi_resolution_hold = es_resolution_hold s\<rparr>))"

definition credit_material ::
  "terminal_material_snapshot \<Rightarrow> terminal_inventory_error + terminal_material_credit" where
  "credit_material m =
     and_then (ok_or (checked_add (tm_safe_quantity m) (ucast (tm_pending_quantity m))) TerminalOverflow)
       (\<lambda>post_safe.
     and_then (ok_or (checked_add (tm_wallet_version m) 1) TerminalOverflow) (\<lambda>post_wallet.
     and_then (ok_or (checked_add (tm_pouch_version m) 1) TerminalOverflow) (\<lambda>post_pouch.
       Inr \<lparr>tc_material_id = tm_material_id m,
            tc_credited_quantity = tm_pending_quantity m,
            tc_pre_safe_quantity = tm_safe_quantity m,
            tc_post_safe_quantity = post_safe,
            tc_pre_wallet_version = tm_wallet_version m,
            tc_post_wallet_version = post_wallet,
            tc_pre_pouch_version = tm_pouch_version m,
            tc_post_pouch_version = post_pouch\<rparr>)))"

definition plan_material_credits ::
  "terminal_material_snapshot list \<Rightarrow> terminal_inventory_error + terminal_material_credit list" where
  "plan_material_credits materials = try_map credit_material (sort_key tm_material_id materials)"

definition validate_plan_conservation ::
  "extraction_inventory_snapshot \<Rightarrow> extraction_inventory_plan \<Rightarrow> terminal_inventory_error + unit" where
  "validate_plan_conservation s plan =
     (let accepted = set (uids_of (es_run_backpack s));
          placed = map placed_uid
            (filter (\<lambda>pl. is_run_backpack_location (placed_from pl)) (ep_placements plan));
          placed_set = set placed
      in if length placed \<noteq> card placed_set \<or> placed_set \<noteq> accepted
            \<or> list_ex (\<lambda>slot. slot \<noteq> Empty) (ep_post_run_backpack plan)
         then Inl DuplicateTerminalUid else Inr ())"

fun is_account_location :: "terminal_inventory_location \<Rightarrow> bool" where
  "is_account_location (AtVault i) = True"
| "is_account_location (AtOverflow i) = True"
| "is_account_location l = False"

definition plan_successful_extraction ::
  "extraction_inventory_snapshot \<Rightarrow> terminal_inventory_error + extraction_inventory_plan" where
  "plan_successful_extraction s =
     and_then (validate_extraction_snapshot s) (\<lambda>_.
     and_then (ok_or (checked_add (es_committed_at_unix_micros s) OVERFLOW_LIFETIME_MICROS)
                 TerminalOverflow) (\<lambda>expires.
     and_then (plan_extraction_items s) (\<lambda>items.
     and_then (plan_material_credits (es_materials s)) (\<lambda>credits.
     let account_changed = (credits \<noteq> [] \<or>
           list_ex (\<lambda>pl. is_account_location (placed_to pl) \<and> placed_from pl \<noteq> placed_to pl)
             (pi_placements items)) in
     and_then (ok_or (checked_add (es_inventory_version s) 1) TerminalOverflow) (\<lambda>post_inventory.
     and_then (if account_changed then ok_or (checked_add (es_account_version s) 1) TerminalOverflow
               else Inr (es_account_version s)) (\<lambda>post_account.
     let plan = \<lparr>ep_placements = pi_placements items,
                 ep_material_credits = credits,
                 ep_post_account_version = post_account,
                 ep_post_inventory_version = post_inventory,
                 ep_overflow_expires_at_unix_micros = expires,
                 ep_post_belt = pi_belt items,
                 ep_post_character_safe = pi_character_safe items,
                 ep_post_vault = pi_vault items,
                 ep_post_overflow = pi_overflow items,
                 ep_post_run_backpack = pi_run_backpack items,
                 ep_post_resolution_hold = pi_resolution_hold items\<rparr> in
     and_then (validate_plan_conservation s plan) (\<lambda>_. Inr plan)))))))"

section \<open>Emergency recall\<close>

datatype recall_slot_kind = RecallKindEquipped | RecallKindBelt | RecallKindRunBackpack

definition recall_location ::
  "recall_slot_kind \<Rightarrow> nat \<Rightarrow> terminal_inventory_error + recall_item_location" where
  "recall_location kind i =
     and_then (ok_or (try_from_usize i) InvalidCapacity) (\<lambda>n.
       Inr (case kind of RecallKindEquipped \<Rightarrow> RecallEquipped n
              | RecallKindBelt \<Rightarrow> RecallBelt n | RecallKindRunBackpack \<Rightarrow> RecallRunBackpack n))"

definition append_slot_item_uids ::
  "durable_storage_slot \<Rightarrow> recall_item_location \<Rightarrow> recall_item_mutation list
     \<Rightarrow> recall_item_mutation list" where
  "append_slot_item_uids slot source mutations =
     mutations @ map (\<lambda>u. \<lparr>mutation_uid = u, mutation_source = source\<rparr>) (slot_uids slot)"

definition append_recall_slot_mutations ::
  "durable_storage_slot list \<Rightarrow> recall_slot_kind \<Rightarrow> recall_item_mutation list
     \<Rightarrow> terminal_inventory_error + recall_item_mutation list" where
  "append_recall_slot_mutations slots kind mutations =
     try_fold (\<lambda>(i, slot) acc. and_then (recall_location kind i) (\<lambda>l.
         Inr (append_slot_item_uids slot l acc)))
       (enumerate 0 slots) mutations"

definition destroy_material ::
  "recall_material_snapshot \<Rightarrow> terminal_inventory_error + recall_material_destruction" where
  "destroy_material m =
     and_then (ok_or (checked_add (rm_pouch_version m) 1) TerminalOverflow) (\<lambda>post_pouch.
       Inr \<lparr>rd_material_id = rm_material_id m,
            rd_destroyed_quantity = rm_pending_quantity m,
            rd_pre_pouch_version = rm_pouch_version m,
            rd_post_pouch_version = post_pouch\<rparr>)"

definition plan_recall_material_destruction ::
  "recall_material_snapshot list \<Rightarrow> terminal_inventory_error + recall_material_destruction list" where
  "plan_recall_material_destruction materials =
     try_map destroy_material (sort_key rm_material_id materials)"

definition validate_recall_plan_conservation ::
  "recall_inventory_snapshot \<Rightarrow> recall_inventory_plan \<Rightarrow> terminal_inventory_error + unit" where
  "validate_recall_plan_conservation s plan =
     (let expected_stabilized = set (uids_of (rs_equipped s @ rs_belt s));
          expected_destroyed = set (uids_of (rs_run_backpack s))
            \<union> set (uids_of (map pg_stack (rs_personal_ground s)));
          stabilized = set (map mutation_uid (rp_stabilized_items plan));
          destroyed = set (map mutation_uid (rp_destroyed_items plan))
      in if card stabilized \<noteq> length (rp_stabilized_items plan)
            \<or> card destroyed \<noteq> length (rp_destroyed_items plan)
            \<or> stabilized \<noteq> expected_stabilized \<or> destroyed \<noteq> expected_destroyed
            \<or> stabilized \<inter> destroyed \<noteq> {}
            \<or> list_ex (\<lambda>slot. slot \<noteq> Empty) (rp_post_run_backpack plan)
            \<or> rp_post_equipped plan \<noteq> rs_equipped s \<or> rp_post_belt plan \<noteq> rs_belt s
            \<or> rp_post_account_version plan \<noteq> rs_account_version s
         then Inl DuplicateTerminalUid else Inr ())"

definition ground_location :: "recall_personal_ground_stack \<Rightarrow> recall_item_location" where
  "ground_location entry =
     RecallPersonalGround (pg_instance_id entry) (pg_pickup_id entry) (pg_expires_at_tick entry)"

definition plan_emergency_recall ::
  "recall_inventory_snapshot \<Rightarrow> terminal_inventory_error + recall_inventory_plan" where
  "plan_emergency_recall s =
     and_then (validate_recall_snapshot s) (\<lambda>_.
     and_then (append_recall_slot_mutations (rs_equipped s) RecallKindEquipped []) (\<lambda>stabilized1.
     and_then (append_recall_slot_mutations (rs_belt s) RecallKindBelt stabilized1) (\<lambda>stabilized.
     and_then (append_recall_slot_mutations (rs_run_backpack s) RecallKindRunBackpack []) (\<lambda>destroyed1.
     let ground = sort_key (\<lambda>e. (pg_instance_id e, pg_pickup_id e)) (rs_personal_ground s);
         destroyed = fold (\<lambda>e acc. append_slot_item_uids (pg_stack e) (ground_location e) acc)
                       ground destroyed1 in
     if length stabilized > TERMINAL_STABILIZED_ITEM_CAPACITY
        \<or> length destroyed > TERMINAL_PENDING_ITEM_CAPACITY
     then Inl RecallItemCapacity
     else
     and_then (plan_recall_material_destruction (rs_materials s)) (\<lambda>destroyed_materials.
     and_then (ok_or (checked_add (rs_inventory_version s) 1) TerminalOverflow) (\<lambda>post_inventory.
     let plan = \<lparr>rp_stabilized_items = stabilized,
                 rp_destroyed_items = destroyed,
                 rp_destroyed_materials = destroyed_materials,
                 rp_post_account_version = rs_account_version s,
                 rp_post_inventory_version = post_inventory,
                 rp_post_equipped = rs_equipped s,
                 rp_post_belt = rs_belt s,
                 rp_post_run_backpack = replicate RUN_BACKPACK_CAPACITY Empty\<rparr> in
     and_then (validate_recall_plan_conservation s plan) (\<lambda>_. Inr plan)))))))"

section \<open>Recovery of a held stack\<close>

fun accepts_complete_stack :: "string \<Rightarrow> nat \<Rightarrow> durable_storage_slot \<Rightarrow> bool" where
  "accepts_complete_stack template held_count (Consumable stored_template uids) =
     (stored_template = template \<and> length uids + held_count \<le> DURABLE_CONSUMABLE_STACK_CAP)"
| "accepts_complete_stack template held_count slot = False"

definition complete_merge_index ::
  "durable_storage_slot list \<Rightarrow> string \<Rightarrow> nat \<Rightarrow> nat option" where
  "complete_merge_index slots template held_count =
     position (accepts_complete_stack template held_count) slots"

fun merge_complete_stack ::
  "durable_storage_slot \<Rightarrow> item_uid list \<Rightarrow> terminal_inventory_error + durable_storage_slot" where
  "merge_complete_stack (Consumable template uids) held = Inr (Consumable template (sort (uids @ held)))"
| "merge_complete_stack slot held = Inl InvalidTerminalStack"

text \<open>The three containers that recovery may write, as the mutable slices of the call.\<close>

record hold_containers =
  hc_character_safe :: "durable_storage_slot list"
  hc_vault :: "durable_storage_slot list"
  hc_overflow :: "durable_storage_slot list"

definition put_character_safe ::
  "nat \<Rightarrow> durable_storage_slot \<Rightarrow> hold_containers
     \<Rightarrow> terminal_inventory_error + resolution_hold_recovery_destination \<times> hold_containers" where
  "put_character_safe i slot cs =
     and_then (ok_or (try_from_usize i) InvalidCapacity) (\<lambda>n.
       Inr (HoldToCharacterSafe n, cs\<lparr>hc_character_safe := (hc_character_safe cs)[i := slot]\<rparr>))"

definition put_vault ::
  "nat \<Rightarrow> durable_storage_slot \<Rightarrow> hold_containers
     \<Rightarrow> terminal_inventory_error + resolution_hold_recovery_destination \<times> hold_containers" where
  "put_vault i slot cs =
     and_then (ok_or (try_from_usize i) InvalidCapacity) (\<lambda>n.
       Inr (HoldToVault n, cs\<lparr>hc_vault := (hc_vault cs)[i := slot]\<rparr>))"

definition place_complete_stack_in_overflow ::
  "durable_storage_slot \<Rightarrow> u64 \<Rightarrow> u64 \<Rightarrow> hold_containers
     \<Rightarrow> terminal_inventory_error + resolution_hold_recovery_destination \<times> hold_containers" where
  "place_complete_stack_in_overflow held now expires cs =
     (if expires \<le> now then Inl ResolutionHoldStorageFull
      else and_then (ok_or (lowest_empty (hc_overflow cs)) ResolutionHoldStorageFull) (\<lambda>i.
           and_then (ok_or (try_from_usize i) InvalidCapacity) (\<lambda>n.
             Inr (HoldToOverflow n expires, cs\<lparr>hc_overflow := (hc_overflow cs)[i := held]\<rparr>))))"

text \<open>The part both kinds of stack share: the lowest empty slot, then Overflow.\<close>

definition place_complete_in_empty ::
  "durable_storage_slot \<Rightarrow> u64 \<Rightarrow> u64 \<Rightarrow> hold_containers
     \<Rightarrow> terminal_inventory_error + resolution_hold_recovery_destination \<times> hold_containers" where
  "place_complete_in_empty held now expires cs =
     (case lowest_empty (hc_character_safe cs) of
        Some i \<Rightarrow> put_character_safe i held cs
      | None \<Rightarrow> (case lowest_empty (hc_vault cs) of
          Some i \<Rightarrow> put_vault i held cs
        | None \<Rightarrow> place_complete_stack_in_overflow held now expires cs))"

fun place_complete_resolution_hold_stack ::
  "durable_storage_slot \<Rightarrow> u64 \<Rightarrow> u64 \<Rightarrow> hold_containers
     \<Rightarrow> terminal_inventory_error + resolution_hold_recovery_destination \<times> hold_containers" where
  "place_complete_resolution_hold_stack Empty now expires cs = Inl InvalidResolutionHoldStack"
| "place_complete_resolution_hold_stack (Equipment u) now expires cs =
     place_complete_in_empty (Equipment u) now expires cs"
| "place_complete_resolution_hold_stack (Consumable template uids) now expires cs =
     (case complete_merge_index (hc_character_safe cs) template (length uids) of
        Some i \<Rightarrow> and_then (merge_complete_stack (hc_character_safe cs ! i) uids) (\<lambda>merged.
          put_character_safe i merged cs)
      | None \<Rightarrow> (case complete_merge_index (hc_vault cs) template (length uids) of
          Some i \<Rightarrow> and_then (merge_complete_stack (hc_vault cs ! i) uids) (\<lambda>merged.
            put_vault i merged cs)
        | None \<Rightarrow> place_complete_in_empty (Consumable template uids) now expires cs))"

definition validate_resolution_hold_recovery_snapshot ::
  "resolution_hold_recovery_snapshot \<Rightarrow> terminal_inventory_error + unit" where
  "validate_resolution_hold_recovery_snapshot s =
     (if hs_account_version s = 0 \<or> hs_inventory_version s = 0
         \<or> hs_authoritative_time_unix_micros s = 0 \<or> hs_extracted_at_unix_micros s = 0
         \<or> hs_held_stack s = Empty
      then Inl InvalidResolutionHoldStack
      else and_then (ok_or (checked_add (hs_extracted_at_unix_micros s) OVERFLOW_LIFETIME_MICROS)
                       TerminalOverflow) (\<lambda>_.
        if length (hs_character_safe s) \<noteq> CHARACTER_SAFE_CAPACITY
           \<or> length (hs_vault s) \<noteq> VAULT_CAPACITY
           \<or> length (hs_overflow s) \<noteq> TERMINAL_OVERFLOW_CAPACITY
        then Inl InvalidCapacity
        else and_then (try_fold validate_terminal_slot
               (hs_held_stack s # hs_character_safe s @ hs_vault s @ hs_overflow s) {})
               (\<lambda>_. Inr ())))"

fun destination_slot ::
  "resolution_hold_recovery_plan \<Rightarrow> resolution_hold_recovery_destination
     \<Rightarrow> durable_storage_slot option" where
  "destination_slot plan (HoldToCharacterSafe i) = get (hp_post_character_safe plan) (unat i)"
| "destination_slot plan (HoldToVault i) = get (hp_post_vault plan) (unat i)"
| "destination_slot plan (HoldToOverflow i expires) = get (hp_post_overflow plan) (unat i)"

definition expected_account_version ::
  "resolution_hold_recovery_snapshot \<Rightarrow> resolution_hold_recovery_destination option
     \<Rightarrow> terminal_inventory_error + u64" where
  "expected_account_version s destination =
     (if case_option False account_owned destination
      then ok_or (checked_add (hs_account_version s) 1) TerminalOverflow
      else Inr (hs_account_version s))"

text \<open>
  The disjuncts of the first guard and of the Move guard are evaluated left to right: a checked
  addition in the last disjunct only runs, and only returns its overflow error, when the disjuncts
  before it are false.
\<close>

definition validate_resolution_hold_recovery_plan ::
  "resolution_hold_recovery_snapshot \<Rightarrow> resolution_hold_recovery_plan
     \<Rightarrow> terminal_inventory_error + unit" where
  "validate_resolution_hold_recovery_plan s plan =
     (if hp_item_uids plan \<noteq> slot_uids (hs_held_stack s) \<or> hp_item_uids plan = []
         \<or> hp_pre_account_version plan \<noteq> hs_account_version s
         \<or> hp_pre_inventory_version plan \<noteq> hs_inventory_version s
      then Inl InvalidResolutionHoldStack
      else and_then (ok_or (checked_add (hs_inventory_version s) 1) TerminalOverflow) (\<lambda>next_inventory.
      if hp_post_inventory_version plan \<noteq> next_inventory then Inl InvalidResolutionHoldStack
      else case (hp_action plan, hp_destination plan) of
        (DestroyConfirmed, None) \<Rightarrow>
          if hp_post_character_safe plan \<noteq> hs_character_safe s \<or> hp_post_vault plan \<noteq> hs_vault s
             \<or> hp_post_overflow plan \<noteq> hs_overflow s
             \<or> hp_post_account_version plan \<noteq> hs_account_version s
          then Inl InvalidResolutionHoldStack else Inr ()
      | (Move, Some destination) \<Rightarrow>
          and_then (ok_or (destination_slot plan destination) InvalidCapacity) (\<lambda>slot.
            if \<not> list_all (\<lambda>u. u \<in> set (slot_uids slot)) (hp_item_uids plan)
            then Inl InvalidResolutionHoldStack
            else and_then (expected_account_version s (Some destination)) (\<lambda>account.
              if hp_post_account_version plan \<noteq> account then Inl InvalidResolutionHoldStack
              else Inr ()))
      | _ \<Rightarrow> Inl InvalidResolutionHoldStack))"

definition plan_resolution_hold_recovery ::
  "resolution_hold_recovery_snapshot \<Rightarrow> resolution_hold_recovery_action
     \<Rightarrow> terminal_inventory_error + resolution_hold_recovery_plan" where
  "plan_resolution_hold_recovery s action =
     and_then (validate_resolution_hold_recovery_snapshot s) (\<lambda>_.
     and_then (ok_or (checked_add (hs_extracted_at_unix_micros s) OVERFLOW_LIFETIME_MICROS)
                 TerminalOverflow) (\<lambda>expires.
     let containers = \<lparr>hc_character_safe = hs_character_safe s, hc_vault = hs_vault s,
                       hc_overflow = hs_overflow s\<rparr> in
     and_then (case action of
         DestroyConfirmed \<Rightarrow> Inr (None, containers)
       | Move \<Rightarrow> and_then (place_complete_resolution_hold_stack (hs_held_stack s)
             (hs_authoritative_time_unix_micros s) expires containers) (\<lambda>(d, cs). Inr (Some d, cs)))
       (\<lambda>(destination, cs).
     and_then (expected_account_version s destination) (\<lambda>post_account.
     and_then (ok_or (checked_add (hs_inventory_version s) 1) TerminalOverflow) (\<lambda>post_inventory.
     let plan = \<lparr>hp_action = action, hp_destination = destination,
                 hp_item_uids = slot_uids (hs_held_stack s),
                 hp_pre_account_version = hs_account_version s,
                 hp_post_account_version = post_account,
                 hp_pre_inventory_version = hs_inventory_version s,
                 hp_post_inventory_version = post_inventory,
                 hp_post_character_safe = hc_character_safe cs,
                 hp_post_vault = hc_vault cs,
                 hp_post_overflow = hc_overflow cs\<rparr> in
     and_then (validate_resolution_hold_recovery_plan s plan) (\<lambda>_. Inr plan))))))"

end
