(* ===== verification/Extraction_Properties.thy ===== *)
theory Extraction_Properties
  imports Terminal_Inventory
begin

text \<open>
  What successful extraction (\<open>plan_successful_extraction\<close> of
  \<open>sim_core/src/terminal_inventory.rs\<close>) guarantees: no item identity is lost or duplicated
  between the run backpack and the five destination containers, every placement names the slot
  that now holds the identity, ResolutionHold is used only when everything else is full, and on a
  valid snapshot the planner cannot fail except by version or time overflow.
\<close>

section \<open>The destination containers\<close>

fun kind_slots :: "terminal_location_kind \<Rightarrow> planned_extraction_items \<Rightarrow> durable_storage_slot list" where
  "kind_slots KindEquipped items = []"
| "kind_slots KindBelt items = pi_belt items"
| "kind_slots KindCharacterSafe items = pi_character_safe items"
| "kind_slots KindVault items = pi_vault items"
| "kind_slots KindOverflow items = pi_overflow items"
| "kind_slots KindResolutionHold items = pi_resolution_hold items"

fun set_slots ::
  "terminal_location_kind \<Rightarrow> durable_storage_slot list \<Rightarrow> planned_extraction_items
     \<Rightarrow> planned_extraction_items" where
  "set_slots KindEquipped slots items = items"
| "set_slots KindBelt slots items = items\<lparr>pi_belt := slots\<rparr>"
| "set_slots KindCharacterSafe slots items = items\<lparr>pi_character_safe := slots\<rparr>"
| "set_slots KindVault slots items = items\<lparr>pi_vault := slots\<rparr>"
| "set_slots KindOverflow slots items = items\<lparr>pi_overflow := slots\<rparr>"
| "set_slots KindResolutionHold slots items = items\<lparr>pi_resolution_hold := slots\<rparr>"

text \<open>The slot a location names, and the identities the five destination containers hold.\<close>

fun slot_at :: "planned_extraction_items \<Rightarrow> terminal_inventory_location \<Rightarrow> durable_storage_slot option" where
  "slot_at items (AtEquipped i) = None"
| "slot_at items (AtBelt i) = get (pi_belt items) (unat i)"
| "slot_at items (AtRunBackpack i) = None"
| "slot_at items (AtCharacterSafe i) = get (pi_character_safe items) (unat i)"
| "slot_at items (AtVault i) = get (pi_vault items) (unat i)"
| "slot_at items (AtOverflow i) = get (pi_overflow items) (unat i)"
| "slot_at items (AtResolutionHold i) = get (pi_resolution_hold items) (unat i)"

definition held_at :: "planned_extraction_items \<Rightarrow> terminal_inventory_location \<Rightarrow> item_uid \<Rightarrow> bool" where
  "held_at items l u \<longleftrightarrow> (case slot_at items l of None \<Rightarrow> False | Some slot \<Rightarrow> u \<in> set (slot_uids slot))"

definition stored :: "planned_extraction_items \<Rightarrow> item_uid list" where
  "stored items = uids_of (pi_belt items @ pi_character_safe items @ pi_vault items
     @ pi_overflow items @ pi_resolution_hold items)"

lemma terminal_location_inj:
  "terminal_location kind i = Inr l \<Longrightarrow> terminal_location kind j = Inr l \<Longrightarrow> i = j"
  by (cases kind) (auto simp: try_from_usize_eq_Some)

lemma terminal_location_total: "i < 256 \<Longrightarrow> \<exists>l. terminal_location kind i = Inr l"
  by (cases kind) (auto simp: try_from_usize_def)

lemma slot_at_location:
  "terminal_location kind i = Inr l \<Longrightarrow> slot_at items l = get (kind_slots kind items) i"
  by (cases kind) (auto simp: try_from_usize_eq_Some get_def)

fun terminal_capacity :: "terminal_location_kind \<Rightarrow> nat" where
  "terminal_capacity KindEquipped = EQUIPMENT_SLOT_COUNT"
| "terminal_capacity KindBelt = TERMINAL_BELT_CAPACITY"
| "terminal_capacity KindCharacterSafe = CHARACTER_SAFE_CAPACITY"
| "terminal_capacity KindVault = VAULT_CAPACITY"
| "terminal_capacity KindOverflow = TERMINAL_OVERFLOW_CAPACITY"
| "terminal_capacity KindResolutionHold = TERMINAL_RESOLUTION_HOLD_CAPACITY"

lemmas capacity_defs = EQUIPMENT_SLOT_COUNT_def TERMINAL_BELT_CAPACITY_def CHARACTER_SAFE_CAPACITY_def
  VAULT_CAPACITY_def TERMINAL_OVERFLOW_CAPACITY_def TERMINAL_RESOLUTION_HOLD_CAPACITY_def
  RUN_BACKPACK_CAPACITY_def

lemma terminal_capacity_bound: "terminal_capacity kind < 256"
  by (cases kind) (simp_all add: capacity_defs)

interpretation terminal_slots: slot_locator "terminal_location kind" "terminal_capacity kind" for kind
  by unfold_locales (blast intro: terminal_location_inj terminal_location_total
      less_trans terminal_capacity_bound)+

lemma kind_slots_set [simp]:
  "kind_slots k (items\<lparr>pi_placements := pls\<rparr>) = kind_slots k items"
  "kind_slots k (items\<lparr>pi_run_backpack := rb\<rparr>) = kind_slots k items"
  "kind \<noteq> KindEquipped \<Longrightarrow>
     kind_slots k (set_slots kind slots items) = (if k = kind then slots else kind_slots k items)"
  "pi_placements (set_slots kind slots items) = pi_placements items"
  "pi_run_backpack (set_slots kind slots items) = pi_run_backpack items"
  by (cases k; cases kind; simp)+

lemma held_at_set [simp]:
  "held_at (items\<lparr>pi_placements := pls\<rparr>) = held_at items"
  "held_at (items\<lparr>pi_run_backpack := rb\<rparr>) = held_at items"
proof -
  have "slot_at (items\<lparr>pi_placements := pls\<rparr>) l = slot_at items l"
    "slot_at (items\<lparr>pi_run_backpack := rb\<rparr>) l = slot_at items l" for l
    by (cases l; simp)+
  then show "held_at (items\<lparr>pi_placements := pls\<rparr>) = held_at items"
    "held_at (items\<lparr>pi_run_backpack := rb\<rparr>) = held_at items"
    by (auto simp: held_at_def fun_eq_iff)
qed

lemma stored_set [simp]:
  "stored (items\<lparr>pi_placements := pls\<rparr>) = stored items"
  "stored (items\<lparr>pi_run_backpack := rb\<rparr>) = stored items"
  by (simp_all add: stored_def)

lemma stored_split:
  "kind \<noteq> KindEquipped \<Longrightarrow>
     \<exists>rest. mset (stored items) = mset (uids_of (kind_slots kind items)) + rest
       \<and> (\<forall>slots. mset (stored (set_slots kind slots items)) = mset (uids_of slots) + rest)"
proof (cases kind)
  case KindBelt
  then show ?thesis
    by (intro exI [of _ "mset (uids_of (pi_character_safe items @ pi_vault items @ pi_overflow items
      @ pi_resolution_hold items))"]) (simp add: stored_def)
next
  case KindCharacterSafe
  then show ?thesis
    by (intro exI [of _ "mset (uids_of (pi_belt items @ pi_vault items @ pi_overflow items
      @ pi_resolution_hold items))"]) (simp add: stored_def ac_simps)
next
  case KindVault
  then show ?thesis
    by (intro exI [of _ "mset (uids_of (pi_belt items @ pi_character_safe items @ pi_overflow items
      @ pi_resolution_hold items))"]) (simp add: stored_def ac_simps)
next
  case KindOverflow
  then show ?thesis
    by (intro exI [of _ "mset (uids_of (pi_belt items @ pi_character_safe items @ pi_vault items
      @ pi_resolution_hold items))"]) (simp add: stored_def ac_simps)
next
  case KindResolutionHold
  then show ?thesis
    by (intro exI [of _ "mset (uids_of (pi_belt items @ pi_character_safe items @ pi_vault items
      @ pi_overflow items))"]) (simp add: stored_def ac_simps)
qed simp

lemma stored_kind:
  assumes "kind \<noteq> KindEquipped"
    and "mset (uids_of slots) + mset rest = mset (uids_of (kind_slots kind items)) + mset us"
  shows "mset (stored (set_slots kind slots items)) + mset rest = mset (stored items) + mset us"
proof -
  from stored_split [OF assms(1), of items] obtain others where
    "mset (stored items) = mset (uids_of (kind_slots kind items)) + others"
    "mset (stored (set_slots kind slots items)) = mset (uids_of slots) + others"
    by blast
  with assms(2) show ?thesis
    by (metis add.assoc add.commute)
qed

section \<open>Containers only grow\<close>

definition grows :: "durable_storage_slot list \<Rightarrow> durable_storage_slot list \<Rightarrow> bool" where
  "grows = list_all2 (\<lambda>s s'. set (slot_uids s) \<subseteq> set (slot_uids s') \<and> (s' = Empty \<longrightarrow> s = Empty))"

lemma grows_refl [simp]: "grows slots slots"
  by (simp add: grows_def list_all2_refl)

lemma grows_trans: "grows a b \<Longrightarrow> grows b c \<Longrightarrow> grows a c"
  by (fastforce simp: grows_def list_all2_conv_all_nth)

lemma grows_length: "grows a b \<Longrightarrow> length b = length a"
  by (simp add: grows_def list_all2_lengthD)

lemma grows_full: "grows a b \<Longrightarrow> Empty \<in> set b \<Longrightarrow> Empty \<in> set a"
  unfolding grows_def by (auto simp: list_all2_conv_all_nth in_set_conv_nth)

lemma grows_nth: "grows a b \<Longrightarrow> i < length a \<Longrightarrow> set (slot_uids (a ! i)) \<subseteq> set (slot_uids (b ! i))"
  by (simp add: grows_def list_all2_conv_all_nth)

lemma grows_fill: "lowest_empty a = Some i \<Longrightarrow> grows a (a[i := slot])"
  using lowest_empty_SomeD [of a i]
  by (auto simp: grows_def list_all2_conv_all_nth nth_list_update split: if_splits)

lemma merge_grows:
  assumes "merge_consumables location source template i slots remaining acc
    = Inr (slots', remaining', acc')"
  shows "grows slots slots'"
  using assms
proof (induction rule: merge_induct)
  case (Last i stored slots remaining acc st ac)
  from fill_stack_Inr [OF Last] have "set stored \<subseteq> set st"
    by (metis set_mset_mset set_mset_union sup_ge1)
  then show ?case
    by (simp add: grows_def list_all2_refl)
next
  case (More i stored slots remaining acc st re ac tail remaining' acc')
  from fill_stack_Inr [OF More(1)] have "set stored \<subseteq> set st"
    by (metis set_mset_mset set_mset_union sup_ge1)
  with More(3) show ?case
    by (simp add: grows_def)
qed (auto simp: grows_def)

definition all_grow :: "planned_extraction_items \<Rightarrow> planned_extraction_items \<Rightarrow> bool" where
  "all_grow items items' \<longleftrightarrow> (\<forall>kind. grows (kind_slots kind items) (kind_slots kind items'))"

lemma all_grow_trans: "all_grow a b \<Longrightarrow> all_grow b c \<Longrightarrow> all_grow a c"
  by (auto simp: all_grow_def intro: grows_trans)

lemma all_grow_kind:
  "kind \<noteq> KindEquipped \<Longrightarrow> grows (kind_slots kind items) slots
     \<Longrightarrow> all_grow items (set_slots kind slots items)"
  by (auto simp: all_grow_def)

lemma slot_at_kind:
  "slot_at items l = Some slot \<Longrightarrow>
     \<exists>kind i. terminal_location kind i = Inr l \<and> kind \<noteq> KindEquipped
       \<and> get (kind_slots kind items) i = Some slot"
proof (cases l)
  case (AtBelt i)
  moreover assume "slot_at items l = Some slot"
  ultimately show ?thesis
    by (intro exI [of _ KindBelt] exI [of _ "unat i"]) (auto simp: try_from_usize_eq_Some)
next
  case (AtCharacterSafe i)
  moreover assume "slot_at items l = Some slot"
  ultimately show ?thesis
    by (intro exI [of _ KindCharacterSafe] exI [of _ "unat i"]) (auto simp: try_from_usize_eq_Some)
next
  case (AtVault i)
  moreover assume "slot_at items l = Some slot"
  ultimately show ?thesis
    by (intro exI [of _ KindVault] exI [of _ "unat i"]) (auto simp: try_from_usize_eq_Some)
next
  case (AtOverflow i)
  moreover assume "slot_at items l = Some slot"
  ultimately show ?thesis
    by (intro exI [of _ KindOverflow] exI [of _ "unat i"]) (auto simp: try_from_usize_eq_Some)
next
  case (AtResolutionHold i)
  moreover assume "slot_at items l = Some slot"
  ultimately show ?thesis
    by (intro exI [of _ KindResolutionHold] exI [of _ "unat i"]) (auto simp: try_from_usize_eq_Some)
qed auto

lemma held_at_mono:
  assumes "all_grow items items'" and "held_at items l u"
  shows "held_at items' l u"
proof -
  from assms(2) obtain slot where "slot_at items l = Some slot" "u \<in> set (slot_uids slot)"
    by (auto simp: held_at_def split: option.splits)
  with slot_at_kind obtain kind i where l: "terminal_location kind i = Inr l"
    and i: "i < length (kind_slots kind items)" "u \<in> set (slot_uids (kind_slots kind items ! i))"
    by fastforce
  have "grows (kind_slots kind items) (kind_slots kind items')"
    using assms(1) by (simp add: all_grow_def)
  with i grows_length grows_nth have "get (kind_slots kind items') i = Some (kind_slots kind items' ! i)"
    "u \<in> set (slot_uids (kind_slots kind items' ! i))"
    by (fastforce simp: get_def)+
  then show ?thesis
    by (simp add: held_at_def slot_at_location [OF l] del: get_eq_Some)
qed

section \<open>One backpack slot\<close>

text \<open>
  What placing the identities \<open>us\<close> from \<open>source\<close> does to the plan: the containers gain exactly
  these identities and lose none, the placements are extended by one entry per identity in
  order, and each names a slot that holds the identity.
\<close>

definition extends ::
  "terminal_inventory_location \<Rightarrow> item_uid list \<Rightarrow> planned_extraction_items
     \<Rightarrow> planned_extraction_items \<Rightarrow> bool" where
  "extends source us items items' \<longleftrightarrow>
     mset (stored items') = mset (stored items) + mset us
     \<and> all_grow items items' \<and> pi_run_backpack items' = pi_run_backpack items
     \<and> (\<exists>new. pi_placements items' = pi_placements items @ new \<and> map placed_uid new = us
          \<and> (\<forall>pl \<in> set new. placed_from pl = source \<and> held_at items' (placed_to pl) (placed_uid pl)))"

lemma extends_refl [simp]: "extends source [] items items"
  by (simp add: extends_def all_grow_def)

lemma extends_trans:
  assumes "extends source us a b" and "extends source vs b c"
  shows "extends source (us @ vs) a c"
proof -
  from assms obtain new new' where
    new: "pi_placements b = pi_placements a @ new" "map placed_uid new = us"
      "\<forall>pl \<in> set new. placed_from pl = source \<and> held_at b (placed_to pl) (placed_uid pl)"
    and new': "pi_placements c = pi_placements b @ new'" "map placed_uid new' = vs"
      "\<forall>pl \<in> set new'. placed_from pl = source \<and> held_at c (placed_to pl) (placed_uid pl)"
    by (auto simp: extends_def)
  have "\<forall>pl \<in> set (new @ new'). placed_from pl = source \<and> held_at c (placed_to pl) (placed_uid pl)"
    using new(3) new'(3) held_at_mono assms(2) by (auto simp: extends_def)
  with assms new new' show ?thesis
    by (auto simp: extends_def ac_simps intro: all_grow_trans)
qed

lemma merge_extends:
  assumes "merge_consumables (terminal_location kind) source template 0 (kind_slots kind items) uids
      (pi_placements items) = Inr (slots', remaining, pls)"
    and "kind \<noteq> KindEquipped"
  shows "\<exists>us. uids = us @ remaining
    \<and> extends source us items ((set_slots kind slots' items)\<lparr>pi_placements := pls\<rparr>)"
proof -
  from merge_placements [OF assms(1)] obtain new where
    new: "pls = pi_placements items @ new" "uids = map placed_uid new @ remaining"
    and at: "\<And>pl. pl \<in> set new \<Longrightarrow> placed_from pl = source \<and> (\<exists>j < length slots'.
        terminal_location kind j = Inr (placed_to pl) \<and> placed_uid pl \<in> set (slot_uids (slots' ! j)))"
    by auto
  have "held_at (set_slots kind slots' items) (placed_to pl) (placed_uid pl)" if "pl \<in> set new" for pl
    using at [OF that] assms(2) by (auto simp: held_at_def slot_at_location get_def)
  moreover have "mset (stored (set_slots kind slots' items)) + mset remaining
      = mset (stored items) + mset uids"
    by (rule stored_kind [OF assms(2) merge_conserves [OF assms(1)]])
  then have "mset (stored (set_slots kind slots' items)) = mset (stored items) + mset (map placed_uid new)"
    by (simp add: new(2))
  ultimately show ?thesis
    using new at all_grow_kind [OF assms(2) merge_grows [OF assms(1)]]
    by (intro exI [of _ "map placed_uid new"]) (auto simp: extends_def all_grow_def)
qed

lemma place_in_first_empty_Inr:
  assumes "place_in_first_empty slot items = Inr (l, items')"
  shows "\<exists>kind i. kind \<noteq> KindEquipped \<and> kind \<noteq> KindBelt \<and> terminal_location kind i = Inr l
    \<and> lowest_empty (kind_slots kind items) = Some i
    \<and> items' = set_slots kind ((kind_slots kind items)[i := slot]) items
    \<and> (kind = KindResolutionHold \<longrightarrow> Empty \<notin> set (pi_character_safe items @ pi_vault items @ pi_overflow items))"
proof (cases "lowest_empty (pi_character_safe items)")
  case (Some i)
  with assms show ?thesis
    by (intro exI [of _ KindCharacterSafe] exI [of _ i]) (auto simp: place_in_first_empty_def)
next
  case safe: None
  show ?thesis
  proof (cases "lowest_empty (pi_vault items)")
    case (Some i)
    with assms safe show ?thesis
      by (intro exI [of _ KindVault] exI [of _ i]) (auto simp: place_in_first_empty_def)
  next
    case vault: None
    show ?thesis
    proof (cases "lowest_empty (pi_overflow items)")
      case (Some i)
      with assms safe vault show ?thesis
        by (intro exI [of _ KindOverflow] exI [of _ i]) (auto simp: place_in_first_empty_def)
    next
      case None
      with assms safe vault obtain i where "lowest_empty (pi_resolution_hold items) = Some i"
        by (auto simp: place_in_first_empty_def split: option.splits)
      with assms safe vault None show ?thesis
        by (intro exI [of _ KindResolutionHold] exI [of _ i])
          (auto simp: place_in_first_empty_def lowest_empty_None)
    qed
  qed
qed

lemma place_in_first_empty_extends:
  assumes "place_in_first_empty slot items = Inr (l, items')"
  shows "extends source (slot_uids slot) items (items'\<lparr>pi_placements := pi_placements items' @
    map (\<lambda>u. \<lparr>placed_uid = u, placed_from = source, placed_to = l\<rparr>) (slot_uids slot)\<rparr>)"
proof -
  from place_in_first_empty_Inr [OF assms] obtain kind i where k: "kind \<noteq> KindEquipped"
    "terminal_location kind i = Inr l" "lowest_empty (kind_slots kind items) = Some i"
    "items' = set_slots kind ((kind_slots kind items)[i := slot]) items"
    by blast
  have "mset (stored items') + mset [] = mset (stored items) + mset (slot_uids slot)"
    unfolding k(4) using mset_uids_of_fill_empty [OF k(3), of slot]
    by (intro stored_kind [OF k(1)]) simp
  moreover have "held_at items' l u" if "u \<in> set (slot_uids slot)" for u
    using that lowest_empty_SomeD [OF k(3)] k(1)
    by (simp add: held_at_def slot_at_location [OF k(2)] k(4) get_def)
  moreover have "all_grow items items'"
    unfolding k(4) by (rule all_grow_kind [OF k(1) grows_fill [OF k(3)]])
  ultimately show ?thesis
    using k(4) by (simp add: extends_def all_grow_def comp_def)
qed

text \<open>
  Reasoning about \<open>place_run_backpack_consumables\<close>: a predicate on the units that remain and
  the plan so far holds at the end when every merge into belt, CharacterSafe and Vault and the
  placement of the remainder keep it.
\<close>

lemma consumables_rule [consumes 1, case_names Start Merge Place]:
  assumes "place_run_backpack_consumables template uids source items = Inr items'"
    and start: "P uids items"
    and merge: "\<And>kind rem it slots' rem' pls. kind \<in> {KindBelt, KindCharacterSafe, KindVault} \<Longrightarrow>
      merge_consumables (terminal_location kind) source template 0 (kind_slots kind it) rem
        (pi_placements it) = Inr (slots', rem', pls) \<Longrightarrow> P rem it \<Longrightarrow>
      P rem' ((set_slots kind slots' it)\<lparr>pi_placements := pls\<rparr>)"
    and place: "\<And>rem it l it'. rem \<noteq> [] \<Longrightarrow>
      place_in_first_empty (Consumable template rem) it = Inr (l, it') \<Longrightarrow> P rem it \<Longrightarrow>
      P [] (it'\<lparr>pi_placements := pi_placements it' @
        map (\<lambda>u. \<lparr>placed_uid = u, placed_from = source, placed_to = l\<rparr>) rem\<rparr>)"
  shows "P [] items'"
proof -
  from assms(1) obtain belt r1 p1 safe r2 p2 vault r3 p3 where
    belt: "merge_consumables (terminal_location KindBelt) source template 0 (pi_belt items) uids
        (pi_placements items) = Inr (belt, r1, p1)"
    and safe: "merge_consumables (terminal_location KindCharacterSafe) source template 0
        (pi_character_safe items) r1 p1 = Inr (safe, r2, p2)"
    and vault: "merge_consumables (terminal_location KindVault) source template 0
        (pi_vault items) r2 p2 = Inr (vault, r3, p3)"
    and rest: "(let merged = items\<lparr>pi_placements := p3, pi_belt := belt, pi_character_safe := safe,
          pi_vault := vault\<rparr> in
       if r3 = [] then Inr merged
       else and_then (place_consumable_remainder template r3 merged) (\<lambda>(destination, items'').
         Inr (items''\<lparr>pi_placements := pi_placements items'' @
           map (\<lambda>u. \<lparr>placed_uid = u, placed_from = source, placed_to = destination\<rparr>) r3\<rparr>)))
       = Inr items'"
    unfolding place_run_backpack_consumables_def by (auto simp del: terminal_location.simps)
  define i1 where "i1 = items\<lparr>pi_belt := belt, pi_placements := p1\<rparr>"
  define i2 where "i2 = i1\<lparr>pi_character_safe := safe, pi_placements := p2\<rparr>"
  define i3 where "i3 = i2\<lparr>pi_vault := vault, pi_placements := p3\<rparr>"
  have "P r1 i1"
    using merge [of KindBelt items uids] start belt by (simp add: i1_def)
  then have "P r2 i2"
    using merge [of KindCharacterSafe i1 r1] safe by (simp add: i1_def i2_def)
  then have m: "P r3 i3"
    using merge [of KindVault i2 r2] vault by (simp add: i1_def i2_def i3_def)
  have i3: "i3 = items\<lparr>pi_placements := p3, pi_belt := belt, pi_character_safe := safe, pi_vault := vault\<rparr>"
    by (simp add: i1_def i2_def i3_def)
  show ?thesis
  proof (cases "r3 = []")
    case True
    with rest m i3 show ?thesis by simp
  next
    case False
    with rest i3 m show ?thesis
      by (auto simp: place_consumable_remainder_def Let_def dest!: place)
  qed
qed

lemma consumables_extends:
  assumes "place_run_backpack_consumables template uids source items = Inr items'"
  shows "extends source uids items items'"
proof -
  define P where "P = (\<lambda>rem it. \<exists>us. uids = us @ rem \<and> extends source us items it)"
  have "P [] items'"
    using assms
  proof (induction rule: consumables_rule [where P = P])
    case Start
    show ?case by (simp add: P_def)
  next
    case (Merge kind rem it slots' rem' pls)
    then have "kind \<noteq> KindEquipped" by auto
    from merge_extends [OF Merge(2) this] Merge(3) obtain us vs where
      "uids = us @ rem" "extends source us items it" "rem = vs @ rem'"
      "extends source vs it ((set_slots kind slots' it)\<lparr>pi_placements := pls\<rparr>)"
      unfolding P_def by auto
    then show ?case
      unfolding P_def by (intro exI [of _ "us @ vs"]) (auto intro: extends_trans)
  next
    case (Place rem it l it')
    then show ?case
      using place_in_first_empty_extends [OF Place(2), of source] extends_trans unfolding P_def
      by (metis append.right_neutral slot_uids.simps(3))
  qed
  then show ?thesis by (simp add: P_def)
qed

lemma place_run_backpack_slot_extends:
  assumes "place_run_backpack_slot n slot items = Inr items'"
  shows "\<exists>i. unat i = n \<and> extends (AtRunBackpack i) (slot_uids slot) items items'"
proof -
  from assms obtain i where i: "unat i = n"
    and body: "(case slot of Empty \<Rightarrow> Inr items
       | Equipment u \<Rightarrow> and_then (place_equipment u items) (\<lambda>(destination, items').
           Inr (items'\<lparr>pi_placements := pi_placements items' @
                  [\<lparr>placed_uid = u, placed_from = AtRunBackpack i, placed_to = destination\<rparr>]\<rparr>))
       | Consumable template uids \<Rightarrow>
           place_run_backpack_consumables template uids (AtRunBackpack i) items) = Inr items'"
    by (auto simp: place_run_backpack_slot_def try_from_usize_eq_Some)
  show ?thesis
  proof (intro exI conjI)
    show "extends (AtRunBackpack i) (slot_uids slot) items items'"
    proof (cases slot)
      case (Equipment u)
      with body show ?thesis
        using place_in_first_empty_extends [of "Equipment u" items] by (auto simp: place_equipment_def)
    qed (use body consumables_extends in auto)
  qed (rule i)
qed

section \<open>Well-formed stacks and the order of the containers\<close>

definition items_ok :: "planned_extraction_items \<Rightarrow> bool" where
  "items_ok items \<longleftrightarrow> (\<forall>kind. \<forall>slot \<in> set (kind_slots kind items). slot_ok valid_template_id slot)"

lemma items_ok_set [simp]:
  "items_ok (items\<lparr>pi_placements := pls\<rparr>) = items_ok items"
  "items_ok (items\<lparr>pi_run_backpack := rb\<rparr>) = items_ok items"
  by (simp_all add: items_ok_def)

lemma items_ok_kind:
  "kind \<noteq> KindEquipped \<Longrightarrow> items_ok items \<Longrightarrow> \<forall>slot \<in> set slots. slot_ok valid_template_id slot
     \<Longrightarrow> items_ok (set_slots kind slots items)"
  by (auto simp: items_ok_def)

lemma distinct_kind_slots: "distinct (stored items @ us) \<Longrightarrow> distinct (uids_of (kind_slots kind items) @ us)"
  by (cases kind) (auto simp: stored_def)

lemma place_in_first_empty_ok:
  assumes "place_in_first_empty slot items = Inr (l, items')"
    and "items_ok items" and "slot_ok valid_template_id slot"
  shows "items_ok items'"
proof -
  from place_in_first_empty_Inr [OF assms(1)] obtain kind i where k: "kind \<noteq> KindEquipped"
    "items' = set_slots kind ((kind_slots kind items)[i := slot]) items"
    by blast
  have "\<forall>s \<in> set ((kind_slots kind items)[i := slot]). slot_ok valid_template_id s"
    using assms(2,3) by (auto simp: items_ok_def dest!: subsetD [OF set_update_subset_insert])
  with k assms(2) items_ok_kind show ?thesis by blast
qed

lemma consumables_ok:
  assumes "place_run_backpack_consumables template uids source items = Inr items'"
    and "items_ok items" and "distinct (stored items @ uids)" and "slot_ok valid_template_id (Consumable template uids)"
  shows "items_ok items'"
proof -
  define P where "P = (\<lambda>rem it. items_ok it \<and> distinct (stored it @ rem)
    \<and> (rem \<noteq> [] \<longrightarrow> slot_ok valid_template_id (Consumable template rem)))"
  have "P [] items'"
    using assms(1)
  proof (induction rule: consumables_rule [where P = P])
    case Start
    show ?case using assms(2-4) by (simp add: P_def)
  next
    case (Merge kind rem it slots' rem' pls)
    then have kind: "kind \<noteq> KindEquipped" by auto
    from merge_extends [OF Merge(2) kind] obtain us where
      us: "rem = us @ rem'" "mset (stored (set_slots kind slots' it)) = mset (stored it) + mset us"
      by (auto simp: extends_def)
    have P: "items_ok it" "distinct (stored it @ rem)" and
      rem: "rem \<noteq> [] \<longrightarrow> slot_ok valid_template_id (Consumable template rem)"
      using Merge(3) by (auto simp: P_def)
    have "mset (stored (set_slots kind slots' it) @ rem') = mset (stored it @ rem)"
      using us by simp
    from distinct_mset_eq [OF this] P(2) have "distinct (stored (set_slots kind slots' it) @ rem')" by blast
    moreover have "items_ok (set_slots kind slots' it)"
    proof (rule items_ok_kind [OF kind P(1)])
      show "\<forall>slot \<in> set slots'. slot_ok valid_template_id slot"
        using P(1) by (intro merge_slot_ok [OF Merge(2) _ distinct_kind_slots [OF P(2)]])
          (simp add: items_ok_def)
    qed
    moreover have "rem' \<noteq> [] \<longrightarrow> slot_ok valid_template_id (Consumable template rem')"
      using rem us(1) by (auto simp: sorted_wrt_append)
    ultimately show ?case
      by (simp add: P_def)
  next
    case (Place rem it l it')
    then have P: "items_ok it" "distinct (stored it @ rem)" "slot_ok valid_template_id (Consumable template rem)"
      by (auto simp: P_def)
    have "mset (stored it') = mset (stored it @ rem)"
      using place_in_first_empty_extends [OF Place(2)] by (simp add: extends_def)
    with P distinct_mset_eq [OF this] place_in_first_empty_ok [OF Place(2)] show ?case
      by (simp add: P_def del: slot_ok.simps)
  qed
  then show ?thesis by (simp add: P_def)
qed

lemma place_run_backpack_slot_ok:
  assumes "place_run_backpack_slot n slot items = Inr items'"
    and "items_ok items" and "distinct (stored items @ slot_uids slot)" and "slot_ok valid_template_id slot"
  shows "items_ok items'"
proof (cases slot)
  case (Equipment u)
  with assms(1) obtain l it where "place_in_first_empty (Equipment u) items = Inr (l, it)"
    "items_ok items' = items_ok it"
    by (auto simp: place_run_backpack_slot_def place_equipment_def)
  with place_in_first_empty_ok assms(2) show ?thesis by auto
next
  case (Consumable template uids)
  with assms consumables_ok show ?thesis
    by (auto simp: place_run_backpack_slot_def simp del: slot_ok.simps)
qed (use assms in \<open>auto simp: place_run_backpack_slot_def\<close>)

text \<open>ResolutionHold is the last resort: while it is in use, no other storage slot is free.\<close>

definition hold_last :: "planned_extraction_items \<Rightarrow> bool" where
  "hold_last items \<longleftrightarrow>
     (list_ex (\<lambda>slot. slot \<noteq> Empty) (pi_resolution_hold items) \<longrightarrow>
        Empty \<notin> set (pi_character_safe items @ pi_vault items @ pi_overflow items))"

lemma place_in_first_empty_hold:
  assumes "place_in_first_empty slot items = Inr (l, items')" and "slot \<noteq> Empty" and "hold_last items"
  shows "hold_last items' \<and> empties (pi_resolution_hold items) \<le> Suc (empties (pi_resolution_hold items'))"
proof -
  from place_in_first_empty_Inr [OF assms(1)] obtain kind i where k: "kind \<noteq> KindEquipped" "kind \<noteq> KindBelt"
    "lowest_empty (kind_slots kind items) = Some i"
    "items' = set_slots kind ((kind_slots kind items)[i := slot]) items"
    "kind = KindResolutionHold \<longrightarrow> Empty \<notin> set (pi_character_safe items @ pi_vault items @ pi_overflow items)"
    by blast
  have empty: "Empty \<in> set (kind_slots kind items)"
    using k(3) lowest_empty_SomeD nth_mem by metis
  show ?thesis
    using k assms(2,3) empty empties_fill [OF k(3) assms(2)]
    by (cases kind) (auto simp: hold_last_def dest!: subsetD [OF set_update_subset_insert])
qed

lemma merge_hold:
  assumes "merge_consumables location source template 0 (kind_slots kind it) rem acc = Inr (slots', rem', pls)"
    and "kind \<in> {KindBelt, KindCharacterSafe, KindVault}" and "hold_last it"
  shows "hold_last (set_slots kind slots' it) \<and> pi_resolution_hold (set_slots kind slots' it) = pi_resolution_hold it"
  using assms(2,3) grows_full [OF merge_grows [OF assms(1)]] by (auto simp: hold_last_def)

lemma consumables_hold:
  assumes "place_run_backpack_consumables template uids source items = Inr items'" and "hold_last items"
    and "uids \<noteq> []"
  shows "hold_last items' \<and> empties (pi_resolution_hold items) \<le> Suc (empties (pi_resolution_hold items'))"
proof -
  define P where "P = (\<lambda>(rem :: item_uid list) it. hold_last it
    \<and> (if rem = [] then empties (pi_resolution_hold items) \<le> Suc (empties (pi_resolution_hold it))
       else pi_resolution_hold it = pi_resolution_hold items))"
  have "P [] items'"
    using assms(1)
  proof (induction rule: consumables_rule [where P = P])
    case Start
    show ?case using assms(2,3) by (simp add: P_def)
  next
    case (Merge kind rem it slots' rem' pls)
    have "rem' = []" if "rem = []"
      using merge_placements [OF Merge(2)] that by auto
    with merge_hold [OF Merge(2,1)] Merge(3) show ?case
      by (auto simp: P_def hold_last_def split: if_splits)
  next
    case (Place rem it l it')
    then have it: "hold_last it" "pi_resolution_hold it = pi_resolution_hold items"
      by (auto simp: P_def)
    from place_in_first_empty_hold [OF Place(2) _ it(1)] it(2) show ?case
      by (simp add: P_def hold_last_def)
  qed
  then show ?thesis by (simp add: P_def)
qed

lemma place_run_backpack_slot_hold:
  assumes "place_run_backpack_slot n slot items = Inr items'" and "hold_last items"
    and "slot_ok valid_template_id slot"
  shows "hold_last items' \<and> empties (pi_resolution_hold items) \<le> Suc (empties (pi_resolution_hold items'))"
proof (cases slot)
  case (Equipment u)
  with assms(1) obtain l it pls where "place_in_first_empty (Equipment u) items = Inr (l, it)"
    "items' = it\<lparr>pi_placements := pls\<rparr>"
    by (auto simp: place_run_backpack_slot_def place_equipment_def)
  with place_in_first_empty_hold assms(2) show ?thesis
    by (fastforce simp: hold_last_def)
next
  case (Consumable template uids)
  with assms consumables_hold show ?thesis
    by (auto simp: place_run_backpack_slot_def)
qed (use assms in \<open>auto simp: place_run_backpack_slot_def\<close>)

section \<open>The whole backpack\<close>

text \<open>The placements the loop appends: in backpack order, each from the slot that held the identity.\<close>

definition placed_from_slots ::
  "nat \<Rightarrow> durable_storage_slot list \<Rightarrow> planned_extraction_items
     \<Rightarrow> terminal_inventory_location item_placement list \<Rightarrow> bool" where
  "placed_from_slots n slots items pls \<longleftrightarrow> map placed_uid pls = uids_of slots \<and>
     (\<forall>pl \<in> set pls. held_at items (placed_to pl) (placed_uid pl) \<and>
        (\<exists>i. placed_from pl = AtRunBackpack i \<and> n \<le> unat i \<and> unat i < n + length slots
           \<and> placed_uid pl \<in> set (slot_uids (slots ! (unat i - n)))))"

lemma placed_from_slots_Cons:
  assumes new: "map placed_uid new = slot_uids slot"
      "\<forall>pl \<in> set new. placed_from pl = AtRunBackpack i \<and> held_at items (placed_to pl) (placed_uid pl)"
    and i: "unat i = n" and grow: "all_grow items items'"
    and rest: "placed_from_slots (Suc n) slots items' rest"
  shows "placed_from_slots n (slot # slots) items' (new @ rest)"
  unfolding placed_from_slots_def
proof (intro conjI ballI)
  show "map placed_uid (new @ rest) = uids_of (slot # slots)"
    using new(1) rest by (simp add: placed_from_slots_def)
next
  fix pl assume pl: "pl \<in> set (new @ rest)"
  then show "held_at items' (placed_to pl) (placed_uid pl)"
    using new(2) rest held_at_mono [OF grow] by (auto simp: placed_from_slots_def)
  show "\<exists>i. placed_from pl = AtRunBackpack i \<and> n \<le> unat i \<and> unat i < n + length (slot # slots)
      \<and> placed_uid pl \<in> set (slot_uids ((slot # slots) ! (unat i - n)))"
  proof (cases "pl \<in> set new")
    case True
    moreover from this new(1) have "placed_uid pl \<in> set (slot_uids slot)"
      by (metis image_eqI list.set_map)
    ultimately show ?thesis
      using new(2) i by (intro exI [of _ i]) auto
  next
    case False
    with pl rest obtain j where "placed_from pl = AtRunBackpack j" "Suc n \<le> unat j"
      "unat j < Suc n + length slots" "placed_uid pl \<in> set (slot_uids (slots ! (unat j - Suc n)))"
      by (auto simp: placed_from_slots_def)
    moreover from this have "unat j - n = Suc (unat j - Suc n)"
      by simp
    ultimately show ?thesis
      by (intro exI [of _ j]) simp
  qed
qed

lemma extract_backpack_slot_Inr:
  assumes "extract_backpack_slot (n, slot) items = Inr items'"
  obtains mid where "place_run_backpack_slot n slot items = Inr mid"
    "items' = mid\<lparr>pi_run_backpack := (pi_run_backpack mid)[n := Empty]\<rparr>"
  using assms by (auto simp: extract_backpack_slot_def)

lemma backpack_loop:
  assumes "try_fold extract_backpack_slot (enumerate n slots) items = Inr items'"
  shows "mset (stored items') = mset (stored items) + mset (uids_of slots) \<and> all_grow items items'
    \<and> (\<exists>new. pi_placements items' = pi_placements items @ new \<and> placed_from_slots n slots items' new)"
  using assms
proof (induction slots arbitrary: n items)
  case Nil
  then show ?case by (simp add: all_grow_def placed_from_slots_def)
next
  case (Cons slot slots)
  then obtain it where step: "extract_backpack_slot (n, slot) items = Inr it"
    and rest: "try_fold extract_backpack_slot (enumerate (Suc n) slots) it = Inr items'"
    by auto
  obtain mid where mid: "place_run_backpack_slot n slot items = Inr mid"
    "it = mid\<lparr>pi_run_backpack := (pi_run_backpack mid)[n := Empty]\<rparr>"
    using extract_backpack_slot_Inr [OF step] .
  from place_run_backpack_slot_extends [OF mid(1)] obtain i new where i: "unat i = n"
    and e: "mset (stored it) = mset (stored items) + mset (slot_uids slot)" "all_grow items it"
      "pi_placements it = pi_placements items @ new" "map placed_uid new = slot_uids slot"
      "\<forall>pl \<in> set new. placed_from pl = AtRunBackpack i \<and> held_at it (placed_to pl) (placed_uid pl)"
    using mid(2) by (auto simp: extends_def all_grow_def)
  from Cons.IH [OF rest] obtain tail where
    t: "mset (stored items') = mset (stored it) + mset (uids_of slots)" "all_grow it items'"
      "pi_placements items' = pi_placements it @ tail" "placed_from_slots (Suc n) slots items' tail"
    by blast
  have "placed_from_slots n (slot # slots) items' (new @ tail)"
    by (rule placed_from_slots_Cons [OF e(4,5) i t(2,4)])
  moreover have "all_grow items items'"
    using e(2) t(2) all_grow_trans by blast
  moreover have "mset (stored items') = mset (stored items) + mset (uids_of (slot # slots))"
    using t(1) e(1) by simp
  ultimately show ?case
    using t(3) e(3) by (auto intro!: exI [of _ "new @ tail"])
qed

lemma backpack_loop_emptied:
  assumes "try_fold extract_backpack_slot (enumerate n slots) items = Inr items'"
    and "length (pi_run_backpack items) = n + length slots"
  shows "pi_run_backpack items' = take n (pi_run_backpack items) @ replicate (length slots) Empty"
  using assms
proof (induction slots arbitrary: n items)
  case (Cons slot slots)
  then obtain it where step: "extract_backpack_slot (n, slot) items = Inr it"
    and rest: "try_fold extract_backpack_slot (enumerate (Suc n) slots) it = Inr items'"
    by auto
  obtain mid where mid: "place_run_backpack_slot n slot items = Inr mid"
    "it = mid\<lparr>pi_run_backpack := (pi_run_backpack mid)[n := Empty]\<rparr>"
    using extract_backpack_slot_Inr [OF step] .
  have it: "pi_run_backpack it = (pi_run_backpack items)[n := Empty]"
    using place_run_backpack_slot_extends [OF mid(1)] mid(2) by (auto simp: extends_def)
  moreover have "take (Suc n) ((pi_run_backpack items)[n := Empty]) = take n (pi_run_backpack items) @ [Empty]"
    using Cons.prems(2) by (simp add: take_Suc_conv_app_nth)
  ultimately show ?case
    using Cons.IH [OF rest] Cons.prems(2) by simp
qed simp

definition loop_ok :: "durable_storage_slot list \<Rightarrow> planned_extraction_items \<Rightarrow> bool" where
  "loop_ok slots items \<longleftrightarrow> items_ok items \<and> hold_last items \<and> distinct (stored items @ uids_of slots)
     \<and> (\<forall>slot \<in> set slots. slot_ok valid_template_id slot)
     \<and> (\<forall>kind. kind \<noteq> KindEquipped \<longrightarrow> length (kind_slots kind items) = terminal_capacity kind)
     \<and> length slots \<le> empties (pi_resolution_hold items)"

lemma loop_ok_step:
  assumes "extract_backpack_slot (n, slot) items = Inr items'" and "loop_ok (slot # slots) items"
  shows "loop_ok slots items'"
proof -
  obtain mid where mid: "place_run_backpack_slot n slot items = Inr mid"
    "items' = mid\<lparr>pi_run_backpack := (pi_run_backpack mid)[n := Empty]\<rparr>"
    using extract_backpack_slot_Inr [OF assms(1)] .
  note ok = assms(2) [unfolded loop_ok_def]
  from place_run_backpack_slot_extends [OF mid(1)] have
    e: "mset (stored mid @ uids_of slots) = mset (stored items @ uids_of (slot # slots))"
      "\<forall>kind. length (kind_slots kind mid) = length (kind_slots kind items)"
    by (auto simp: extends_def all_grow_def grows_length)
  have "distinct (stored mid @ uids_of slots)"
    using distinct_mset_eq [OF e(1)] ok by blast
  moreover have "items_ok mid"
    using place_run_backpack_slot_ok [OF mid(1)] ok by auto
  moreover have "hold_last mid \<and> empties (pi_resolution_hold items) \<le> Suc (empties (pi_resolution_hold mid))"
    using place_run_backpack_slot_hold [OF mid(1)] ok by simp
  ultimately show ?thesis
    using ok e(2) mid(2) by (simp add: loop_ok_def hold_last_def)
qed

lemma loop_ok_result:
  "try_fold extract_backpack_slot (enumerate n slots) items = Inr items' \<Longrightarrow> loop_ok slots items
     \<Longrightarrow> loop_ok [] items'"
  by (induction slots arbitrary: n items) (auto dest: loop_ok_step)

section \<open>The loop cannot fail\<close>

lemma place_in_first_empty_total:
  assumes "0 < empties (pi_resolution_hold items)"
    and "\<And>kind. kind \<noteq> KindEquipped \<Longrightarrow> length (kind_slots kind items) = terminal_capacity kind"
  shows "\<exists>l items'. place_in_first_empty slot items = Inr (l, items')"
proof -
  have loc: "\<exists>l. terminal_location kind i = Inr l"
    if "lowest_empty (kind_slots kind items) = Some i" "kind \<noteq> KindEquipped" for kind i
    using terminal_slots.location_total [of i kind] lowest_empty_SomeD [OF that(1)] assms(2) [OF that(2)]
    by simp
  obtain h where h: "lowest_empty (pi_resolution_hold items) = Some h"
    using assms(1) empties_pos by blast
  show ?thesis
    using loc [of KindCharacterSafe] loc [of KindVault] loc [of KindOverflow] loc [of KindResolutionHold] h
    by (fastforce simp: place_in_first_empty_def split: option.splits simp del: terminal_location.simps)
qed

lemma merge_total_terminal:
  "length slots = terminal_capacity kind \<Longrightarrow>
     \<exists>s r p. merge_consumables (terminal_location kind) source template 0 slots rem acc = Inr (s, r, p)"
  using terminal_slots.merge_total [of 0 slots kind source template rem acc] by auto

lemma consumables_total:
  assumes "0 < empties (pi_resolution_hold items)"
    and cap: "\<And>kind. kind \<noteq> KindEquipped \<Longrightarrow> length (kind_slots kind items) = terminal_capacity kind"
  shows "\<exists>items'. place_run_backpack_consumables template uids source items = Inr items'"
proof -
  obtain belt r1 p1 where belt: "merge_consumables (terminal_location KindBelt) source template 0
      (pi_belt items) uids (pi_placements items) = Inr (belt, r1, p1)"
    using merge_total_terminal cap [of KindBelt] by fastforce
  obtain safe r2 p2 where safe: "merge_consumables (terminal_location KindCharacterSafe) source template 0
      (pi_character_safe items) r1 p1 = Inr (safe, r2, p2)"
    using merge_total_terminal cap [of KindCharacterSafe] by fastforce
  obtain vault r3 p3 where vault: "merge_consumables (terminal_location KindVault) source template 0
      (pi_vault items) r2 p2 = Inr (vault, r3, p3)"
    using merge_total_terminal cap [of KindVault] by fastforce
  define merged where "merged = items\<lparr>pi_placements := p3, pi_belt := belt, pi_character_safe := safe, pi_vault := vault\<rparr>"
  have "length belt = length (pi_belt items)" "length safe = length (pi_character_safe items)"
    "length vault = length (pi_vault items)"
    using merge_shape [OF belt] merge_shape [OF safe] merge_shape [OF vault] by auto
  then have "length (kind_slots kind merged) = terminal_capacity kind" if "kind \<noteq> KindEquipped" for kind
    using cap [OF that] that by (cases kind) (auto simp: merged_def)
  moreover have "0 < empties (pi_resolution_hold merged)"
    using assms(1) by (simp add: merged_def)
  ultimately obtain l items' where "place_in_first_empty (Consumable template r3) merged = Inr (l, items')"
    using place_in_first_empty_total by metis
  with belt safe vault show ?thesis
    unfolding place_run_backpack_consumables_def
    by (simp add: Let_def merged_def place_consumable_remainder_def del: terminal_location.simps)
qed

lemma extract_backpack_slot_total:
  assumes "loop_ok (slot # slots) items" and "n < 256"
  shows "\<exists>items'. extract_backpack_slot (n, slot) items = Inr items'"
proof -
  have pre: "0 < empties (pi_resolution_hold items)"
    "\<And>kind. kind \<noteq> KindEquipped \<Longrightarrow> length (kind_slots kind items) = terminal_capacity kind"
    using assms(1) by (auto simp: loop_ok_def)
  obtain w where w: "(try_from_usize n :: u8 option) = Some w"
    using assms(2) by (auto simp: try_from_usize_def)
  have "\<exists>items'. place_run_backpack_slot n slot items = Inr items'"
  proof (cases slot)
    case (Equipment u)
    with w place_in_first_empty_total [of items "Equipment u"] pre show ?thesis
      by (auto simp: place_run_backpack_slot_def place_equipment_def)
  next
    case (Consumable template uids)
    with w consumables_total [of items template uids "AtRunBackpack w"] pre show ?thesis
      by (auto simp: place_run_backpack_slot_def)
  qed (use w in \<open>simp add: place_run_backpack_slot_def\<close>)
  then show ?thesis
    by (auto simp: extract_backpack_slot_def)
qed

lemma backpack_loop_total:
  "loop_ok slots items \<Longrightarrow> n + length slots \<le> 256 \<Longrightarrow>
     \<exists>items'. try_fold extract_backpack_slot (enumerate n slots) items = Inr items'"
proof (induction slots arbitrary: n items)
  case (Cons slot slots)
  obtain it where it: "extract_backpack_slot (n, slot) items = Inr it"
    using extract_backpack_slot_total [OF Cons.prems(1), of n] Cons.prems(2) by auto
  with Cons.IH [OF loop_ok_step [OF it Cons.prems(1)], of "Suc n"] Cons.prems(2) show ?case
    by auto
qed simp

section \<open>The plan\<close>

lemma not_list_ex_replicate: "\<not> list_ex (\<lambda>slot. slot \<noteq> e) xs \<longleftrightarrow> xs = replicate (length xs) e"
  by (induction xs) auto

lemma validate_extraction_snapshot_iff:
  "validate_extraction_snapshot s = Inr () \<longleftrightarrow>
     es_account_version s \<noteq> 0 \<and> es_inventory_version s \<noteq> 0 \<and> es_committed_at_unix_micros s \<noteq> 0
     \<and> length (es_equipped s) = EQUIPMENT_SLOT_COUNT \<and> length (es_belt s) = TERMINAL_BELT_CAPACITY
     \<and> length (es_character_safe s) = CHARACTER_SAFE_CAPACITY \<and> length (es_vault s) = VAULT_CAPACITY
     \<and> length (es_overflow s) = TERMINAL_OVERFLOW_CAPACITY
     \<and> length (es_run_backpack s) = RUN_BACKPACK_CAPACITY
     \<and> es_resolution_hold s = replicate TERMINAL_RESOLUTION_HOLD_CAPACITY Empty
     \<and> list_all (slot_kind_allowed EquipmentOnly) (es_equipped s)
     \<and> list_all (slot_kind_allowed ConsumableOnly) (es_belt s)
     \<and> (\<forall>slot \<in> set (es_equipped s @ es_belt s @ es_character_safe s @ es_vault s @ es_overflow s
          @ es_run_backpack s). slot_ok valid_template_id slot)
     \<and> distinct (uids_of (es_equipped s @ es_belt s @ es_character_safe s @ es_vault s @ es_overflow s
          @ es_run_backpack s))
     \<and> validate_materials (es_materials s) = Inr ()"
proof -
  have "slot_kind_allowed AnyKind slot" for slot
    by (cases slot) simp_all
  then have any: "list_all (slot_kind_allowed AnyKind) slots" for slots
    by (simp add: list_all_iff)
  have hold: "(es_resolution_hold s = replicate TERMINAL_RESOLUTION_HOLD_CAPACITY Empty) \<longleftrightarrow>
      length (es_resolution_hold s) = TERMINAL_RESOLUTION_HOLD_CAPACITY
      \<and> \<not> list_ex (\<lambda>slot. slot \<noteq> Empty) (es_resolution_hold s)"
    using not_list_ex_replicate [of Empty "es_resolution_hold s"] by (metis length_replicate)
  show ?thesis
    unfolding hold validate_extraction_snapshot_def validate_terminal_slot_def
    by (auto simp add: validate_slots_eq_Inr any validate_slot_kinds_def
        simp del: set_append distinct_append uids_of_simps split: if_splits)
qed

lemma validate_extraction_snapshot_eq:
  assumes "validate_extraction_snapshot s = Inr ()"
  shows "length (es_equipped s) = EQUIPMENT_SLOT_COUNT \<and> length (es_belt s) = TERMINAL_BELT_CAPACITY
     \<and> length (es_character_safe s) = CHARACTER_SAFE_CAPACITY \<and> length (es_vault s) = VAULT_CAPACITY
     \<and> length (es_overflow s) = TERMINAL_OVERFLOW_CAPACITY
     \<and> length (es_run_backpack s) = RUN_BACKPACK_CAPACITY
     \<and> es_resolution_hold s = replicate TERMINAL_RESOLUTION_HOLD_CAPACITY Empty
     \<and> (\<forall>slot \<in> set (es_equipped s @ es_belt s @ es_character_safe s @ es_vault s @ es_overflow s
          @ es_run_backpack s). slot_ok valid_template_id slot)
     \<and> distinct (uids_of (es_equipped s @ es_belt s @ es_character_safe s @ es_vault s @ es_overflow s
          @ es_run_backpack s))
     \<and> validate_materials (es_materials s) = Inr ()"
  using assms unfolding validate_extraction_snapshot_iff by blast

definition initial_items ::
  "extraction_inventory_snapshot \<Rightarrow> terminal_inventory_location item_placement list
     \<Rightarrow> planned_extraction_items" where
  "initial_items s placements =
     \<lparr>pi_placements = placements, pi_belt = es_belt s, pi_character_safe = es_character_safe s,
      pi_vault = es_vault s, pi_overflow = es_overflow s, pi_run_backpack = es_run_backpack s,
      pi_resolution_hold = es_resolution_hold s\<rparr>"

lemma initial_loop_ok:
  assumes "validate_extraction_snapshot s = Inr ()"
  shows "loop_ok (es_run_backpack s) (initial_items s placements)"
proof -
  note v = validate_extraction_snapshot_eq [OF assms]
  have "items_ok (initial_items s placements)"
    unfolding items_ok_def
  proof
    fix kind
    show "\<forall>slot \<in> set (kind_slots kind (initial_items s placements)). slot_ok valid_template_id slot"
      using v by (cases kind) (auto simp: initial_items_def)
  qed
  moreover have "length (kind_slots kind (initial_items s placements)) = terminal_capacity kind"
    if "kind \<noteq> KindEquipped" for kind
    using v that by (cases kind) (auto simp: initial_items_def)
  ultimately show ?thesis
    using v by (auto simp: loop_ok_def stored_def hold_last_def initial_items_def empties_def
        TERMINAL_RESOLUTION_HOLD_CAPACITY_def list_ex_iff)
qed

lemma stabilized_Inr:
  assumes "try_fold (\<lambda>(i, slot) acc. and_then (terminal_location kind i) (\<lambda>l.
         Inr (acc @ map (\<lambda>u. \<lparr>placed_uid = u, placed_from = l, placed_to = l\<rparr>) (slot_uids slot))))
       (enumerate n slots) placements = Inr placements'"
  shows "\<exists>new. placements' = placements @ new \<and> map placed_uid new = uids_of slots
    \<and> (\<forall>pl \<in> set new. placed_from pl = placed_to pl \<and> \<not> is_run_backpack_location (placed_from pl))"
  using assms
proof (induction slots arbitrary: n placements)
  case (Cons slot slots)
  then obtain l where l: "terminal_location kind n = Inr l"
    and rest: "try_fold (\<lambda>(i, slot) acc. and_then (terminal_location kind i) (\<lambda>l.
         Inr (acc @ map (\<lambda>u. \<lparr>placed_uid = u, placed_from = l, placed_to = l\<rparr>) (slot_uids slot))))
       (enumerate (Suc n) slots)
       (placements @ map (\<lambda>u. \<lparr>placed_uid = u, placed_from = l, placed_to = l\<rparr>) (slot_uids slot))
      = Inr placements'"
    by auto
  have "\<not> is_run_backpack_location l"
    using l by (cases kind) auto
  with Cons.IH [OF rest] show ?case
    by (fastforce simp: comp_def)
qed simp

lemma stabilized_total:
  "n + length slots \<le> 256 \<Longrightarrow>
     \<exists>r. try_fold (\<lambda>(i, slot) acc. and_then (terminal_location kind i) (\<lambda>l.
         Inr (acc @ map (\<lambda>u. \<lparr>placed_uid = u, placed_from = l, placed_to = l\<rparr>) (slot_uids slot))))
       (enumerate n slots) placements = Inr r"
proof (induction slots arbitrary: n placements)
  case (Cons slot slots)
  obtain l where "terminal_location kind n = Inr l"
    using terminal_location_total [of n kind] Cons.prems by auto
  with Cons.IH [of "Suc n"] Cons.prems show ?case by simp
qed simp

lemma plan_extraction_items_Inr:
  assumes "validate_extraction_snapshot s = Inr ()" and "plan_extraction_items s = Inr items"
  shows "(\<exists>fixed new. pi_placements items = fixed @ new
      \<and> map placed_uid fixed = uids_of (es_equipped s @ es_belt s)
      \<and> (\<forall>pl \<in> set fixed. placed_from pl = placed_to pl \<and> \<not> is_run_backpack_location (placed_from pl))
      \<and> placed_from_slots 0 (es_run_backpack s) items new)"
    and "mset (stored items) = mset (uids_of (es_belt s @ es_character_safe s @ es_vault s @ es_overflow s
       @ es_run_backpack s))"
    and "loop_ok [] items" and "pi_run_backpack items = replicate RUN_BACKPACK_CAPACITY Empty"
proof -
  from assms(2) obtain p1 p2 where
    p1: "append_stabilized_placements (es_equipped s) KindEquipped [] = Inr p1"
    and p2: "append_stabilized_placements (es_belt s) KindBelt p1 = Inr p2"
    and loop: "try_fold extract_backpack_slot (enumerate 0 (es_run_backpack s)) (initial_items s p2) = Inr items"
    by (auto simp: plan_extraction_items_def initial_items_def)
  from stabilized_Inr [OF p1 [unfolded append_stabilized_placements_def]]
    stabilized_Inr [OF p2 [unfolded append_stabilized_placements_def]]
  have p2': "map placed_uid p2 = uids_of (es_equipped s @ es_belt s)"
    "\<forall>pl \<in> set p2. placed_from pl = placed_to pl \<and> \<not> is_run_backpack_location (placed_from pl)"
    by auto
  note v = validate_extraction_snapshot_eq [OF assms(1)]
  from backpack_loop [OF loop] obtain new where new:
    "pi_placements items = p2 @ new" "placed_from_slots 0 (es_run_backpack s) items new"
    "mset (stored items) = mset (stored (initial_items s p2)) + mset (uids_of (es_run_backpack s))"
    by (auto simp: initial_items_def)
  show "pi_run_backpack items = replicate RUN_BACKPACK_CAPACITY Empty"
    using backpack_loop_emptied [OF loop] v by (simp add: initial_items_def)
  show "mset (stored items) = mset (uids_of (es_belt s @ es_character_safe s @ es_vault s @ es_overflow s
       @ es_run_backpack s))"
    using v new(3) by (simp add: initial_items_def stored_def)
  show "loop_ok [] items"
    by (rule loop_ok_result [OF loop initial_loop_ok [OF assms(1)]])
  show "\<exists>fixed new. pi_placements items = fixed @ new
      \<and> map placed_uid fixed = uids_of (es_equipped s @ es_belt s)
      \<and> (\<forall>pl \<in> set fixed. placed_from pl = placed_to pl \<and> \<not> is_run_backpack_location (placed_from pl))
      \<and> placed_from_slots 0 (es_run_backpack s) items new"
    using p2' new by blast
qed

definition plan_items :: "extraction_inventory_plan \<Rightarrow> planned_extraction_items" where
  "plan_items plan =
     \<lparr>pi_placements = ep_placements plan, pi_belt = ep_post_belt plan,
      pi_character_safe = ep_post_character_safe plan, pi_vault = ep_post_vault plan,
      pi_overflow = ep_post_overflow plan, pi_run_backpack = ep_post_run_backpack plan,
      pi_resolution_hold = ep_post_resolution_hold plan\<rparr>"

lemma plan_items_placements: "pi_placements (plan_items plan) = ep_placements plan"
  by (simp add: plan_items_def)

lemma plan_successful_extraction_Inr:
  assumes "plan_successful_extraction s = Inr plan"
  shows "validate_extraction_snapshot s = Inr ()" "plan_extraction_items s = Inr (plan_items plan)"
    "plan_material_credits (es_materials s) = Inr (ep_material_credits plan)"
  using assms by (auto simp: plan_successful_extraction_def plan_items_def Let_def)

lemma placed_not_backpack:
  assumes "placed_from_slots n slots items new" and "pl \<in> set new"
  shows "is_run_backpack_location (placed_from pl)"
  using assms unfolding placed_from_slots_def by (metis is_run_backpack_location.simps(1))

lemma filter_backpack_placements:
  assumes "\<forall>pl \<in> set fixed. \<not> is_run_backpack_location (placed_from pl)"
    and "placed_from_slots n slots items new"
  shows "filter (\<lambda>pl. is_run_backpack_location (placed_from pl)) (fixed @ new) = new"
  using assms placed_not_backpack [OF assms(2)] by (simp add: filter_empty_conv)

text \<open>
  C1. Extraction loses and duplicates no item: together the belt, CharacterSafe, Vault, Overflow and
  ResolutionHold of the plan hold exactly the identities that belt, CharacterSafe, Vault, Overflow
  and run backpack held before, each once; the run backpack is empty; every container keeps its
  size and every consumable stack has one to six strictly ordered units.
\<close>

theorem extraction_conserves_items:
  assumes "plan_successful_extraction s = Inr plan"
  shows "mset (uids_of (ep_post_belt plan @ ep_post_character_safe plan @ ep_post_vault plan
        @ ep_post_overflow plan @ ep_post_resolution_hold plan))
      = mset (uids_of (es_belt s @ es_character_safe s @ es_vault s @ es_overflow s @ es_run_backpack s))
    \<and> distinct (uids_of (ep_post_belt plan @ ep_post_character_safe plan @ ep_post_vault plan
        @ ep_post_overflow plan @ ep_post_resolution_hold plan))
    \<and> ep_post_run_backpack plan = replicate RUN_BACKPACK_CAPACITY Empty
    \<and> length (ep_post_belt plan) = TERMINAL_BELT_CAPACITY
    \<and> length (ep_post_character_safe plan) = CHARACTER_SAFE_CAPACITY
    \<and> length (ep_post_vault plan) = VAULT_CAPACITY
    \<and> length (ep_post_overflow plan) = TERMINAL_OVERFLOW_CAPACITY
    \<and> length (ep_post_resolution_hold plan) = TERMINAL_RESOLUTION_HOLD_CAPACITY
    \<and> (\<forall>slot \<in> set (ep_post_belt plan @ ep_post_character_safe plan @ ep_post_vault plan
        @ ep_post_overflow plan @ ep_post_resolution_hold plan). slot_ok valid_template_id slot)"
proof -
  note plan = plan_successful_extraction_Inr [OF assms]
  from plan_extraction_items_Inr [OF plan(1,2)] have
    m: "mset (stored (plan_items plan))
      = mset (uids_of (es_belt s @ es_character_safe s @ es_vault s @ es_overflow s @ es_run_backpack s))"
    and ok: "items_ok (plan_items plan)" "distinct (stored (plan_items plan))"
    and len: "\<And>kind. kind \<noteq> KindEquipped \<Longrightarrow> length (kind_slots kind (plan_items plan)) = terminal_capacity kind"
    and bp: "pi_run_backpack (plan_items plan) = replicate RUN_BACKPACK_CAPACITY Empty"
    by (simp_all add: loop_ok_def)
  have oks: "\<forall>slot \<in> set (kind_slots kind (plan_items plan)). slot_ok valid_template_id slot" for kind
    using ok(1) by (simp add: items_ok_def)
  show ?thesis
    using m ok(2) bp len [of KindBelt] len [of KindCharacterSafe] len [of KindVault] len [of KindOverflow]
      len [of KindResolutionHold] oks [of KindBelt] oks [of KindCharacterSafe] oks [of KindVault]
      oks [of KindOverflow] oks [of KindResolutionHold]
    unfolding plan_items_def stored_def by auto
qed

text \<open>
  The plan's placement list is exact: it starts with the identities of equipment and belt, which
  stay where they are, and continues with the run backpack's identities in slot order, once each;
  every backpack placement names the backpack slot that held the identity and a destination slot
  that holds it in the planned containers.
\<close>

lemma extraction_placements_exact:
  assumes "plan_successful_extraction s = Inr plan"
  shows "\<exists>fixed new. ep_placements plan = fixed @ new
    \<and> map placed_uid fixed = uids_of (es_equipped s @ es_belt s)
    \<and> (\<forall>pl \<in> set fixed. placed_from pl = placed_to pl)
    \<and> map placed_uid new = uids_of (es_run_backpack s)
    \<and> accepted_item_count plan = length (uids_of (es_run_backpack s))
    \<and> (\<forall>pl \<in> set new. held_at (plan_items plan) (placed_to pl) (placed_uid pl)
         \<and> (\<exists>i. placed_from pl = AtRunBackpack i \<and> unat i < RUN_BACKPACK_CAPACITY
              \<and> placed_uid pl \<in> set (slot_uids (es_run_backpack s ! unat i))))"
proof -
  note plan = plan_successful_extraction_Inr [OF assms]
  from plan_extraction_items_Inr(1) [OF plan(1,2)] obtain fixed new where
    split: "ep_placements plan = fixed @ new"
    and fixed: "map placed_uid fixed = uids_of (es_equipped s @ es_belt s)"
      "\<forall>pl \<in> set fixed. placed_from pl = placed_to pl \<and> \<not> is_run_backpack_location (placed_from pl)"
    and new: "placed_from_slots 0 (es_run_backpack s) (plan_items plan) new"
    unfolding plan_items_placements by blast
  have "accepted_item_count plan = length (map placed_uid new)"
    using filter_backpack_placements [OF _ new, of fixed] fixed(2) split
    unfolding accepted_item_count_def by (metis length_map)
  also have "map placed_uid new = uids_of (es_run_backpack s)"
    using new by (simp add: placed_from_slots_def)
  finally show ?thesis
    using split fixed new validate_extraction_snapshot_eq [OF plan(1)]
    by (intro exI [of _ fixed] exI [of _ new]) (auto simp: placed_from_slots_def)
qed

text \<open>
  ResolutionHold is a last resort: a plan that requires resolution leaves no empty slot in
  CharacterSafe, Vault or Overflow.
\<close>

lemma resolution_hold_last_resort:
  assumes "plan_successful_extraction s = Inr plan" and "resolution_required plan"
  shows "Empty \<notin> set (ep_post_character_safe plan @ ep_post_vault plan @ ep_post_overflow plan)"
proof -
  note plan = plan_successful_extraction_Inr [OF assms(1)]
  from plan_extraction_items_Inr [OF plan(1,2)] have "hold_last (plan_items plan)"
    by (simp add: loop_ok_def)
  with assms(2) show ?thesis
    by (simp add: hold_last_def plan_items_def resolution_required_def)
qed

section \<open>Materials\<close>

lemma validate_material_eq_Inr:
  "validate_material m ids = Inr ids' \<longleftrightarrow>
     valid_template_id (tm_material_id m) \<and> tm_pending_quantity m \<noteq> 0 \<and> tm_pending_quantity m \<le> 99
     \<and> tm_wallet_cap m \<noteq> 0
     \<and> unat (tm_safe_quantity m) + unat (tm_pending_quantity m) \<le> unat (tm_wallet_cap m)
     \<and> tm_wallet_version m \<noteq> 0 \<and> tm_pouch_version m \<noteq> 0
     \<and> tm_material_id m \<notin> ids \<and> ids' = insert (tm_material_id m) ids"
proof (cases "checked_add (tm_safe_quantity m) (ucast (tm_pending_quantity m))")
  case None
  then have "2 ^ 32 \<le> unat (tm_safe_quantity m) + unat (tm_pending_quantity m)"
    by (simp add: checked_add_eq_None unat_ucast_widen)
  with unat_bound [of "tm_wallet_cap m"] None show ?thesis
    by (auto simp: validate_material_def)
next
  case (Some sum)
  then have "unat sum = unat (tm_safe_quantity m) + unat (tm_pending_quantity m)"
    by (simp add: checked_add_eq_Some unat_ucast_widen)
  with Some show ?thesis
    by (auto simp: validate_material_def word_le_nat_alt word_less_nat_alt not_less)
qed

lemma validate_material_loop:
  assumes "try_fold validate_material ms ids = Inr ids'"
  shows "distinct (map tm_material_id ms) \<and> set (map tm_material_id ms) \<inter> ids = {}
    \<and> (\<forall>m \<in> set ms. unat (tm_safe_quantity m) + unat (tm_pending_quantity m) \<le> unat (tm_wallet_cap m))"
  using assms by (induction ms arbitrary: ids) (auto simp: validate_material_eq_Inr)

lemma validate_materials_Inr:
  "validate_materials ms = Inr () \<Longrightarrow> distinct (map tm_material_id ms)
    \<and> (\<forall>m \<in> set ms. unat (tm_safe_quantity m) + unat (tm_pending_quantity m) \<le> unat (tm_wallet_cap m))"
  by (auto simp: validate_materials_def dest: validate_material_loop split: if_splits)

lemma credit_material_Inr:
  "credit_material m = Inr c \<Longrightarrow>
     tc_material_id c = tm_material_id m \<and> tc_credited_quantity c = tm_pending_quantity m
     \<and> tc_pre_safe_quantity c = tm_safe_quantity m
     \<and> unat (tc_post_safe_quantity c) = unat (tm_safe_quantity m) + unat (tm_pending_quantity m)
     \<and> unat (tc_post_wallet_version c) = unat (tm_wallet_version m) + 1
     \<and> unat (tc_post_pouch_version c) = unat (tm_pouch_version m) + 1"
  by (auto simp: credit_material_def checked_add_eq_Some unat_ucast_widen)

lemma credit_material_total:
  assumes "unat (tm_safe_quantity m) + unat (tm_pending_quantity m) \<le> unat (tm_wallet_cap m)"
    and "tm_wallet_version m \<noteq> - 1" and "tm_pouch_version m \<noteq> - 1"
  shows "\<exists>c. credit_material m = Inr c"
proof -
  have "checked_add (tm_safe_quantity m) (ucast (tm_pending_quantity m)) \<noteq> None"
    using assms(1) unat_bound [of "tm_wallet_cap m"] by (simp add: checked_add_eq_None unat_ucast_widen)
  with assms(2,3) show ?thesis
    by (auto simp: credit_material_def checked_add_one)
qed

lemma try_map_total: "(\<And>x. x \<in> set xs \<Longrightarrow> \<exists>y. f x = Inr y) \<Longrightarrow> \<exists>ys. try_map f xs = Inr ys"
proof (induction xs)
  case (Cons x xs)
  then show ?case by (metis and_then.simps(2) list.set_intros try_map.simps(2))
qed simp

text \<open>
  Extraction credits every pending material in full and never above its wallet cap: the credits
  list the snapshot's materials in increasing order of their identifiers, each exactly once, with
  the pending quantity added to the safe quantity and both versions advanced by one.
\<close>

lemma extraction_material_credits:
  assumes "plan_successful_extraction s = Inr plan"
  shows "map tc_material_id (ep_material_credits plan) = sort (map tm_material_id (es_materials s))
    \<and> sorted_wrt (<) (map tc_material_id (ep_material_credits plan))
    \<and> list_all2 (\<lambda>m c. tc_material_id c = tm_material_id m
        \<and> tc_credited_quantity c = tm_pending_quantity m
        \<and> unat (tc_post_safe_quantity c) = unat (tm_safe_quantity m) + unat (tm_pending_quantity m)
        \<and> unat (tc_post_safe_quantity c) \<le> unat (tm_wallet_cap m)
        \<and> unat (tc_post_wallet_version c) = unat (tm_wallet_version m) + 1
        \<and> unat (tc_post_pouch_version c) = unat (tm_pouch_version m) + 1)
      (sort_key tm_material_id (es_materials s)) (ep_material_credits plan)"
proof -
  note plan = plan_successful_extraction_Inr [OF assms]
  have v: "distinct (map tm_material_id (es_materials s))"
    "\<forall>m \<in> set (es_materials s).
       unat (tm_safe_quantity m) + unat (tm_pending_quantity m) \<le> unat (tm_wallet_cap m)"
    using validate_extraction_snapshot_eq [OF plan(1)] validate_materials_Inr by auto
  have c: "list_all2 (\<lambda>m c. credit_material m = Inr c) (sort_key tm_material_id (es_materials s))
      (ep_material_credits plan)"
    using plan(3) by (simp add: plan_material_credits_def try_map_eq_Inr)
  have all: "list_all2 (\<lambda>m c. tc_material_id c = tm_material_id m
        \<and> tc_credited_quantity c = tm_pending_quantity m
        \<and> unat (tc_post_safe_quantity c) = unat (tm_safe_quantity m) + unat (tm_pending_quantity m)
        \<and> unat (tc_post_safe_quantity c) \<le> unat (tm_wallet_cap m)
        \<and> unat (tc_post_wallet_version c) = unat (tm_wallet_version m) + 1
        \<and> unat (tc_post_pouch_version c) = unat (tm_pouch_version m) + 1)
      (sort_key tm_material_id (es_materials s)) (ep_material_credits plan)"
    using c by (rule list.rel_mono_strong) (use v(2) in \<open>auto dest!: credit_material_Inr\<close>)
  then have ids: "map tc_material_id (ep_material_credits plan)
      = map tm_material_id (sort_key tm_material_id (es_materials s))"
    by (auto simp: list_all2_conv_all_nth intro!: nth_equalityI)
  also have "\<dots> = sort (map tm_material_id (es_materials s))"
    by (rule properties_for_sort [symmetric]) simp_all
  finally have "map tc_material_id (ep_material_credits plan) = sort (map tm_material_id (es_materials s))" .
  with all v(1) show ?thesis
    by (simp add: strict_sorted_iff)
qed

section \<open>Totality\<close>

lemma plan_extraction_items_total:
  assumes "validate_extraction_snapshot s = Inr ()"
  shows "\<exists>items. plan_extraction_items s = Inr items"
proof -
  note v = validate_extraction_snapshot_eq [OF assms]
  have len: "length (es_equipped s) \<le> 256" "length (es_belt s) \<le> 256" "length (es_run_backpack s) \<le> 256"
    using v by (simp_all add: capacity_defs)
  obtain p1 where p1: "append_stabilized_placements (es_equipped s) KindEquipped [] = Inr p1"
    unfolding append_stabilized_placements_def using stabilized_total [of 0 "es_equipped s" KindEquipped "[]"] len(1) by auto
  obtain p2 where p2: "append_stabilized_placements (es_belt s) KindBelt p1 = Inr p2"
    unfolding append_stabilized_placements_def using stabilized_total [of 0 "es_belt s" KindBelt p1] len(2) by auto
  from backpack_loop_total [OF initial_loop_ok [OF assms], of 0 p2] len(3) p1 p2 show ?thesis
    by (auto simp: plan_extraction_items_def initial_items_def)
qed

lemma conservation_check_passes:
  assumes "validate_extraction_snapshot s = Inr ()" and "plan_extraction_items s = Inr (plan_items plan)"
  shows "validate_plan_conservation s plan = Inr ()"
proof -
  from plan_extraction_items_Inr(1) [OF assms] obtain fixed new where
    split: "ep_placements plan = fixed @ new"
    and fixed: "\<forall>pl \<in> set fixed. \<not> is_run_backpack_location (placed_from pl)"
    and new: "placed_from_slots 0 (es_run_backpack s) (plan_items plan) new"
    unfolding plan_items_placements by blast
  have "ep_post_run_backpack plan = replicate RUN_BACKPACK_CAPACITY Empty"
    using plan_extraction_items_Inr(4) [OF assms] by (simp add: plan_items_def)
  moreover have u: "map placed_uid new = uids_of (es_run_backpack s)"
    using new by (simp add: placed_from_slots_def)
  moreover have "distinct (uids_of (es_run_backpack s))"
    using validate_extraction_snapshot_eq [OF assms(1)] by simp
  ultimately show ?thesis
    using filter_backpack_placements [OF fixed new] split
    by (simp add: validate_plan_conservation_def Let_def distinct_card not_list_ex_replicate
        flip: set_map length_map [of placed_uid new])
qed

lemma extraction_plan_exists:
  assumes valid: "validate_extraction_snapshot s = Inr ()"
    and time: "unat (es_committed_at_unix_micros s) + unat OVERFLOW_LIFETIME_MICROS < 2 ^ 64"
    and versions: "es_account_version s \<noteq> - 1" "es_inventory_version s \<noteq> - 1"
    and materials: "\<forall>m \<in> set (es_materials s). tm_wallet_version m \<noteq> - 1 \<and> tm_pouch_version m \<noteq> - 1"
  shows "\<exists>plan. plan_successful_extraction s = Inr plan"
proof -
  obtain expires where e: "checked_add (es_committed_at_unix_micros s) OVERFLOW_LIFETIME_MICROS = Some expires"
    using time by (cases "checked_add (es_committed_at_unix_micros s) OVERFLOW_LIFETIME_MICROS")
      (auto simp: checked_add_eq_None)
  obtain items where items: "plan_extraction_items s = Inr items"
    using plan_extraction_items_total [OF valid] by blast
  have "\<forall>m \<in> set (es_materials s).
      unat (tm_safe_quantity m) + unat (tm_pending_quantity m) \<le> unat (tm_wallet_cap m)"
    using validate_extraction_snapshot_eq [OF valid] validate_materials_Inr by auto
  then obtain credits where credits: "plan_material_credits (es_materials s) = Inr credits"
    using try_map_total [of "sort_key tm_material_id (es_materials s)" credit_material]
      credit_material_total materials by (auto simp: plan_material_credits_def)
  have "validate_plan_conservation s plan = Inr ()" if "items = plan_items plan" for plan
    using conservation_check_passes [OF valid] items that by simp
  then show ?thesis
    using valid e items credits versions
    by (simp add: plan_successful_extraction_def Let_def checked_add_one plan_items_def)
qed

text \<open>
  C2. Extraction cannot strand a player: on every valid snapshot whose clock and versions can still
  advance the planner returns a plan. In particular the full-hold error and the final conservation
  check are unreachable.
\<close>

theorem extraction_total:
  assumes valid: "validate_extraction_snapshot s = Inr ()"
    and time: "unat (es_committed_at_unix_micros s) + unat OVERFLOW_LIFETIME_MICROS < 2 ^ 64"
    and versions: "es_account_version s \<noteq> - 1" "es_inventory_version s \<noteq> - 1"
    and materials: "\<forall>m \<in> set (es_materials s). tm_wallet_version m \<noteq> - 1 \<and> tm_pouch_version m \<noteq> - 1"
  shows "\<exists>plan. plan_successful_extraction s = Inr plan"
  by (rule extraction_plan_exists [OF assms])

section \<open>Concrete extractions\<close>

definition sample_extraction :: extraction_inventory_snapshot where
  "sample_extraction =
     \<lparr>es_account_version = 7, es_inventory_version = 11, es_committed_at_unix_micros = 1000,
      es_equipped = [Equipment (sample_uid 1), Empty, Empty, Empty],
      es_belt = [Consumable ''potion'' (map sample_uid [2, 3, 4, 5, 6]), Empty],
      es_character_safe = Consumable ''ration'' [sample_uid 7] # replicate 7 Empty,
      es_vault = replicate 160 Empty, es_overflow = replicate 20 Empty,
      es_run_backpack = [Consumable ''potion'' (map sample_uid [8, 9]), Equipment (sample_uid 10)]
        @ replicate 6 Empty,
      es_resolution_hold = replicate 8 Empty,
      es_materials = [\<lparr>tm_material_id = ''ash'', tm_safe_quantity = 5, tm_pending_quantity = 3,
        tm_wallet_cap = 10, tm_wallet_version = 2, tm_pouch_version = 4\<rparr>]\<rparr>"

text \<open>The same character with every storage slot taken and one piece of equipment to extract.\<close>

definition full_extraction :: extraction_inventory_snapshot where
  "full_extraction = sample_extraction
     \<lparr>es_character_safe := map (\<lambda>n. Equipment (sample_uid n)) [20..<28],
      es_vault := map (\<lambda>n. Equipment (sample_uid n)) [28..<188],
      es_overflow := map (\<lambda>n. Equipment (sample_uid n)) [188..<208],
      es_run_backpack := Equipment (sample_uid 10) # replicate 7 Empty\<rparr>"

lemma sample_extraction_valid: "validate_extraction_snapshot sample_extraction = Inr ()"
  unfolding validate_extraction_snapshot_iff
  by (simp add: sample_extraction_def capacity_defs DURABLE_CONSUMABLE_STACK_CAP_def
      valid_template_id_def is_template_byte_def validate_materials_def TERMINAL_MATERIAL_CAPACITY_def
      validate_material_eq_Inr)

lemma full_extraction_valid: "validate_extraction_snapshot full_extraction = Inr ()"
  unfolding validate_extraction_snapshot_iff
  by (auto simp: full_extraction_def sample_extraction_def capacity_defs DURABLE_CONSUMABLE_STACK_CAP_def
      valid_template_id_def is_template_byte_def validate_materials_def TERMINAL_MATERIAL_CAPACITY_def
      validate_material_eq_Inr distinct_map)

theorem extraction_total_witness:
  "\<exists>plan. plan_successful_extraction sample_extraction = Inr plan"
  by (rule extraction_total [OF sample_extraction_valid])
    (simp_all add: sample_extraction_def OVERFLOW_LIFETIME_MICROS_def)

lemma sample_plan: "\<exists>plan. plan_successful_extraction sample_extraction = Inr plan"
  by (rule extraction_plan_exists [OF sample_extraction_valid])
    (simp_all add: sample_extraction_def OVERFLOW_LIFETIME_MICROS_def)

lemma place_in_hold:
  assumes "Empty \<notin> set (pi_character_safe items @ pi_vault items @ pi_overflow items)"
    and "pi_resolution_hold items = Empty # hold"
  shows "place_in_first_empty slot items
    = Inr (AtResolutionHold 0, items\<lparr>pi_resolution_hold := slot # hold\<rparr>)"
proof -
  have "lowest_empty (pi_character_safe items) = None" "lowest_empty (pi_vault items) = None"
    "lowest_empty (pi_overflow items) = None"
    using assms(1) by (simp_all add: lowest_empty_None)
  with assms(2) show ?thesis
    by (simp add: place_in_first_empty_def lowest_empty_def try_from_usize_def)
qed

lemma full_plan:
  "\<exists>plan. plan_successful_extraction full_extraction = Inr plan \<and> resolution_required plan"
proof -
  obtain plan where plan: "plan_successful_extraction full_extraction = Inr plan"
    using extraction_plan_exists [OF full_extraction_valid]
    by (auto simp: full_extraction_def sample_extraction_def OVERFLOW_LIFETIME_MICROS_def)
  from plan_successful_extraction_Inr(2) [OF plan] obtain pls where loop:
    "try_fold extract_backpack_slot (enumerate 0 (es_run_backpack full_extraction))
       (initial_items full_extraction pls) = Inr (plan_items plan)"
    by (auto simp: plan_extraction_items_def initial_items_def)
  have "es_run_backpack full_extraction = Equipment (sample_uid 10) # replicate 7 Empty"
    by (simp add: full_extraction_def)
  with loop obtain it where it: "extract_backpack_slot (0, Equipment (sample_uid 10))
      (initial_items full_extraction pls) = Inr it"
    and rest: "try_fold extract_backpack_slot (enumerate 1 (replicate 7 Empty)) it = Inr (plan_items plan)"
    by auto
  have "place_in_first_empty (Equipment (sample_uid 10)) (initial_items full_extraction pls)
    = Inr (AtResolutionHold 0, (initial_items full_extraction pls)
        \<lparr>pi_resolution_hold := Equipment (sample_uid 10) # replicate 7 Empty\<rparr>)"
    by (rule place_in_hold) (auto simp: initial_items_def full_extraction_def sample_extraction_def
        simp flip: replicate_Suc)
  with it have "pi_resolution_hold it = Equipment (sample_uid 10) # replicate 7 Empty"
    by (auto simp: extract_backpack_slot_def place_run_backpack_slot_def place_equipment_def)
  moreover have "grows (pi_resolution_hold it) (ep_post_resolution_hold plan)"
    using backpack_loop [OF rest] kind_slots.simps(6) unfolding all_grow_def plan_items_def
    by (metis planned_extraction_items.select_convs(7))
  ultimately have "resolution_required plan"
    by (auto simp: resolution_required_def grows_def list_all2_Cons1)
  with plan show ?thesis by blast
qed

theorem extraction_conserves_items_witness:
  "\<exists>plan. plan_successful_extraction sample_extraction = Inr plan
     \<and> ep_post_run_backpack plan = replicate RUN_BACKPACK_CAPACITY Empty
     \<and> mset (uids_of (ep_post_belt plan @ ep_post_character_safe plan @ ep_post_vault plan
        @ ep_post_overflow plan @ ep_post_resolution_hold plan)) = mset (map sample_uid [2..<11])"
proof -
  obtain plan where plan: "plan_successful_extraction sample_extraction = Inr plan"
    using sample_plan by blast
  have ids: "mset (uids_of (es_belt sample_extraction @ es_character_safe sample_extraction
      @ es_vault sample_extraction @ es_overflow sample_extraction @ es_run_backpack sample_extraction))
    = mset (map sample_uid [2..<11])"
    by (simp add: sample_extraction_def upt_rec)
  show ?thesis
    using extraction_conserves_items [OF plan] plan unfolding ids by blast
qed

end
