(* ===== verification/Recall_Properties.thy ===== *)
theory Recall_Properties
  imports Extraction_Properties
begin

text \<open>
  What emergency recall and the recovery of held stacks (\<open>plan_emergency_recall\<close> and
  \<open>plan_resolution_hold_recovery\<close> of \<open>sim_core/src/terminal_inventory.rs\<close>) guarantee: recall
  partitions every identity of the character into kept and destroyed ones, recovery moves one
  whole stack into one slot or changes nothing, and the self-checks at the end of both planners
  never reject a plan.
\<close>

section \<open>Emergency recall\<close>

definition recalled :: "item_uid list \<Rightarrow> recall_item_location \<Rightarrow> recall_item_mutation list" where
  "recalled us source = map (\<lambda>u. \<lparr>mutation_uid = u, mutation_source = source\<rparr>) us"

lemma map_mutation_uid_recalled [simp]: "map mutation_uid (recalled us source) = us"
  by (simp add: recalled_def comp_def)

lemma append_slot_item_uids_recalled:
  "append_slot_item_uids slot source acc = acc @ recalled (slot_uids slot) source"
  by (simp add: append_slot_item_uids_def recalled_def)

lemma recall_location_total: "i < 256 \<Longrightarrow> \<exists>l. recall_location kind i = Inr l"
  by (auto simp: recall_location_def try_from_usize_def)

lemma append_recall_Inr:
  assumes "try_fold (\<lambda>(i, slot) acc. and_then (recall_location kind i) (\<lambda>l.
         Inr (append_slot_item_uids slot l acc))) (enumerate n slots) mutations = Inr mutations'"
  shows "\<exists>new. mutations' = mutations @ new \<and> map mutation_uid new = uids_of slots"
  using assms
proof (induction slots arbitrary: n mutations)
  case (Cons slot slots)
  then obtain l where rest: "try_fold (\<lambda>(i, slot) acc. and_then (recall_location kind i) (\<lambda>l.
         Inr (append_slot_item_uids slot l acc))) (enumerate (Suc n) slots)
       (mutations @ recalled (slot_uids slot) l) = Inr mutations'"
    by (auto simp: append_slot_item_uids_recalled)
  from Cons.IH [OF rest] show ?case
    by (metis append.assoc map_append map_mutation_uid_recalled uids_of_simps(2))
qed simp

lemma append_recall_total:
  "n + length slots \<le> 256 \<Longrightarrow>
     \<exists>r. try_fold (\<lambda>(i, slot) acc. and_then (recall_location kind i) (\<lambda>l.
         Inr (append_slot_item_uids slot l acc))) (enumerate n slots) mutations = Inr r"
proof (induction slots arbitrary: n mutations)
  case (Cons slot slots)
  obtain l where "recall_location kind n = Inr l"
    using recall_location_total [of n kind] Cons.prems by auto
  with Cons.IH [of "Suc n"] Cons.prems show ?case by simp
qed simp

lemma append_ground:
  "map mutation_uid (fold (\<lambda>e acc. append_slot_item_uids (pg_stack e) (ground_location e) acc) ground acc)
     = map mutation_uid acc @ uids_of (map pg_stack ground)"
  by (induction ground arbitrary: acc) (simp_all add: append_slot_item_uids_recalled)

lemma validate_ground_loop:
  assumes "try_fold validate_personal_ground ground (authorities, ids) = Inr (authorities', ids')"
  shows "distinct (uids_of (map pg_stack ground)) \<and> set (uids_of (map pg_stack ground)) \<inter> ids = {}
    \<and> ids' = ids \<union> set (uids_of (map pg_stack ground))
    \<and> (\<forall>e \<in> set ground. slot_ok valid_template_id (pg_stack e) \<and> pg_stack e \<noteq> Empty)"
  using assms
proof (induction ground arbitrary: authorities ids)
  case (Cons e ground)
  then obtain as ids1 where step: "validate_personal_ground e (authorities, ids) = Inr (as, ids1)"
    and rest: "try_fold validate_personal_ground ground (as, ids1) = Inr (authorities', ids')"
    by auto
  from step have "slot_ok valid_template_id (pg_stack e)" "pg_stack e \<noteq> Empty" "distinct (slot_uids (pg_stack e))"
    "set (slot_uids (pg_stack e)) \<inter> ids = {}" "ids1 = ids \<union> set (slot_uids (pg_stack e))"
    by (auto simp: validate_personal_ground_def validate_terminal_slot_def validate_slot_eq_Inr
        split: if_splits)
  with Cons.IH [OF rest] show ?case by auto
qed simp

lemma validate_recall_snapshot_Inr:
  assumes "validate_recall_snapshot s = Inr ()"
  shows "length (rs_equipped s) = EQUIPMENT_SLOT_COUNT" "length (rs_belt s) = TERMINAL_BELT_CAPACITY"
    "length (rs_run_backpack s) = RUN_BACKPACK_CAPACITY"
    "distinct (uids_of (rs_equipped s @ rs_belt s @ rs_run_backpack s @ map pg_stack (rs_personal_ground s)))"
    "\<forall>slot \<in> set (rs_equipped s @ rs_belt s @ rs_run_backpack s). slot_ok valid_template_id slot"
    "list_all (slot_kind_allowed EquipmentOnly) (rs_equipped s)"
    "validate_recall_materials (rs_materials s) = Inr ()"
proof -
  from assms obtain authorities ids ids' where
    slots: "try_fold validate_terminal_slot (rs_equipped s @ rs_belt s @ rs_run_backpack s) {} = Inr ids"
    and ground: "try_fold validate_personal_ground (rs_personal_ground s) ({}, ids) = Inr (authorities, ids')"
    and rest: "length (rs_equipped s) = EQUIPMENT_SLOT_COUNT" "length (rs_belt s) = TERMINAL_BELT_CAPACITY"
      "length (rs_run_backpack s) = RUN_BACKPACK_CAPACITY"
      "list_all (slot_kind_allowed EquipmentOnly) (rs_equipped s)"
      "validate_recall_materials (rs_materials s) = Inr ()"
    by (auto simp: validate_recall_snapshot_def validate_slot_kinds_def split: if_splits)
  from slots have v: "\<forall>slot \<in> set (rs_equipped s @ rs_belt s @ rs_run_backpack s). slot_ok valid_template_id slot"
    "distinct (uids_of (rs_equipped s @ rs_belt s @ rs_run_backpack s))"
    "ids = set (uids_of (rs_equipped s @ rs_belt s @ rs_run_backpack s))"
    unfolding validate_terminal_slot_def validate_slots_eq_Inr by auto
  show "distinct (uids_of (rs_equipped s @ rs_belt s @ rs_run_backpack s @ map pg_stack (rs_personal_ground s)))"
    using validate_ground_loop [OF ground] v(2,3) by auto
  show "\<forall>slot \<in> set (rs_equipped s @ rs_belt s @ rs_run_backpack s). slot_ok valid_template_id slot"
    by (rule v(1))
qed (use assms in \<open>auto simp: validate_recall_snapshot_def validate_slot_kinds_def split: if_splits\<close>)

lemma length_slot_uids:
  "slot_ok tok slot \<Longrightarrow> length (slot_uids slot) \<le> DURABLE_CONSUMABLE_STACK_CAP"
  by (cases slot) (auto simp: DURABLE_CONSUMABLE_STACK_CAP_def)

lemma length_uids_of:
  "\<forall>slot \<in> set slots. length (slot_uids slot) \<le> k \<Longrightarrow> length (uids_of slots) \<le> length slots * k"
  by (induction slots) auto

lemma stabilized_capacity:
  assumes "validate_recall_snapshot s = Inr ()"
  shows "length (uids_of (rs_equipped s @ rs_belt s)) \<le> TERMINAL_STABILIZED_ITEM_CAPACITY"
proof -
  note v = validate_recall_snapshot_Inr [OF assms]
  have "length (slot_uids slot) \<le> 1" if "slot_kind_allowed EquipmentOnly slot" for slot
    using that by (cases slot) auto
  then have "length (uids_of (rs_equipped s)) \<le> EQUIPMENT_SLOT_COUNT"
    using length_uids_of [of "rs_equipped s" 1] v(1,6) by (simp add: list_all_iff)
  moreover have "length (uids_of (rs_belt s)) \<le> TERMINAL_BELT_CAPACITY * DURABLE_CONSUMABLE_STACK_CAP"
    using length_uids_of [of "rs_belt s" DURABLE_CONSUMABLE_STACK_CAP] v(2,5) length_slot_uids
    by auto
  ultimately show ?thesis
    by (simp add: TERMINAL_STABILIZED_ITEM_CAPACITY_def)
qed

lemma uids_of_sort_ground:
  "mset (uids_of (map pg_stack (sort_key k ground))) = mset (uids_of (map pg_stack ground))"
proof -
  have "mset (uids_of slots) = sum_mset (image_mset (mset \<circ> slot_uids) (mset slots))" for slots
    by (induction slots) simp_all
  then show ?thesis by simp
qed

lemma plan_emergency_recall_Inr:
  assumes "plan_emergency_recall s = Inr plan"
  shows "validate_recall_snapshot s = Inr ()"
    "map mutation_uid (rp_stabilized_items plan) = uids_of (rs_equipped s @ rs_belt s)"
    "mset (map mutation_uid (rp_destroyed_items plan))
       = mset (uids_of (rs_run_backpack s @ map pg_stack (rs_personal_ground s)))"
    "rp_post_equipped plan = rs_equipped s" "rp_post_belt plan = rs_belt s"
    "rp_post_run_backpack plan = replicate RUN_BACKPACK_CAPACITY Empty"
    "rp_post_account_version plan = rs_account_version s"
    "unat (rp_post_inventory_version plan) = unat (rs_inventory_version s) + 1"
    "length (rp_destroyed_items plan) \<le> TERMINAL_PENDING_ITEM_CAPACITY"
proof -
  from assms obtain s1 s2 d1 where valid: "validate_recall_snapshot s = Inr ()"
    and s1: "append_recall_slot_mutations (rs_equipped s) RecallKindEquipped [] = Inr s1"
    and s2: "append_recall_slot_mutations (rs_belt s) RecallKindBelt s1 = Inr s2"
    and d1: "append_recall_slot_mutations (rs_run_backpack s) RecallKindRunBackpack [] = Inr d1"
    and plan: "rp_stabilized_items plan = s2" "rp_destroyed_items plan
        = fold (\<lambda>e acc. append_slot_item_uids (pg_stack e) (ground_location e) acc)
            (sort_key (\<lambda>e. (pg_instance_id e, pg_pickup_id e)) (rs_personal_ground s)) d1"
      "rp_post_equipped plan = rs_equipped s" "rp_post_belt plan = rs_belt s"
      "rp_post_run_backpack plan = replicate RUN_BACKPACK_CAPACITY Empty"
      "rp_post_account_version plan = rs_account_version s"
      "unat (rp_post_inventory_version plan) = unat (rs_inventory_version s) + 1"
      "length (rp_destroyed_items plan) \<le> TERMINAL_PENDING_ITEM_CAPACITY"
    unfolding plan_emergency_recall_def
    by (auto simp: Let_def checked_add_eq_Some not_less split: if_splits)
  note stab = append_recall_Inr [OF s1 [unfolded append_recall_slot_mutations_def]]
    append_recall_Inr [OF s2 [unfolded append_recall_slot_mutations_def]]
    append_recall_Inr [OF d1 [unfolded append_recall_slot_mutations_def]]
  show "map mutation_uid (rp_stabilized_items plan) = uids_of (rs_equipped s @ rs_belt s)"
    using stab(1,2) plan(1) by auto
  show "mset (map mutation_uid (rp_destroyed_items plan))
       = mset (uids_of (rs_run_backpack s @ map pg_stack (rs_personal_ground s)))"
    unfolding plan(2) append_ground using stab(3) by (auto simp: uids_of_sort_ground)
qed (use assms in \<open>auto simp: plan_emergency_recall_def Let_def checked_add_eq_Some not_less split: if_splits\<close>)

lemma validate_recall_material_loop:
  "try_fold validate_recall_material ms ids = Inr ids' \<Longrightarrow>
     \<forall>m \<in> set ms. rm_pouch_version m \<noteq> 0 \<and> rm_pending_quantity m \<noteq> 0"
  by (induction ms arbitrary: ids) (auto simp: validate_recall_material_def split: if_splits)

lemma destruction_total:
  assumes "\<forall>m \<in> set ms. rm_pouch_version m \<noteq> - 1"
  shows "\<exists>ds. plan_recall_material_destruction ms = Inr ds"
  unfolding plan_recall_material_destruction_def
  by (rule try_map_total) (use assms in \<open>auto simp: destroy_material_def checked_add_one\<close>)

lemma recall_check_passes:
  assumes "validate_recall_snapshot s = Inr ()"
    and "map mutation_uid (rp_stabilized_items plan) = uids_of (rs_equipped s @ rs_belt s)"
    and "mset (map mutation_uid (rp_destroyed_items plan))
       = mset (uids_of (rs_run_backpack s @ map pg_stack (rs_personal_ground s)))"
    and "rp_post_equipped plan = rs_equipped s" "rp_post_belt plan = rs_belt s"
    and "rp_post_run_backpack plan = replicate RUN_BACKPACK_CAPACITY Empty"
    and "rp_post_account_version plan = rs_account_version s"
  shows "validate_recall_plan_conservation s plan = Inr ()"
proof -
  note d = validate_recall_snapshot_Inr(4) [OF assms(1)]
  have st: "card (set (map mutation_uid (rp_stabilized_items plan))) = length (rp_stabilized_items plan)"
  proof -
    have "distinct (map mutation_uid (rp_stabilized_items plan))"
      unfolding assms(2) using d by auto
    then show ?thesis
      by (metis distinct_card length_map)
  qed
  have "distinct (map mutation_uid (rp_destroyed_items plan))"
    using d distinct_mset_eq [OF assms(3)] by auto
  then have de: "card (set (map mutation_uid (rp_destroyed_items plan))) = length (rp_destroyed_items plan)"
    by (metis distinct_card length_map)
  have sets: "set (map mutation_uid (rp_stabilized_items plan)) = set (uids_of (rs_equipped s @ rs_belt s))"
    "set (map mutation_uid (rp_destroyed_items plan))
      = set (uids_of (rs_run_backpack s)) \<union> set (uids_of (map pg_stack (rs_personal_ground s)))"
    using assms(2) mset_eq_setD [OF assms(3)] by simp_all
  have "set (uids_of (rs_equipped s @ rs_belt s))
      \<inter> (set (uids_of (rs_run_backpack s)) \<union> set (uids_of (map pg_stack (rs_personal_ground s)))) = {}"
    using d by auto
  with st de sets assms(4-7) show ?thesis
    unfolding validate_recall_plan_conservation_def Let_def by (simp add: list_ex_iff)
qed

text \<open>
  Emergency recall partitions the character's items: equipment and belt are kept where they are,
  the run backpack and the personal ground stacks are destroyed, each identity exactly once and
  none in both lists; the post-state keeps equipment, belt and account version, empties the
  backpack and advances the inventory version by one.
\<close>

lemma recall_partitions_items:
  assumes "plan_emergency_recall s = Inr plan"
  shows "map mutation_uid (rp_stabilized_items plan) = uids_of (rs_equipped s @ rs_belt s)
    \<and> mset (map mutation_uid (rp_destroyed_items plan))
        = mset (uids_of (rs_run_backpack s @ map pg_stack (rs_personal_ground s)))
    \<and> distinct (map mutation_uid (rp_stabilized_items plan @ rp_destroyed_items plan))
    \<and> rp_post_equipped plan = rs_equipped s \<and> rp_post_belt plan = rs_belt s
    \<and> rp_post_run_backpack plan = replicate RUN_BACKPACK_CAPACITY Empty
    \<and> rp_post_account_version plan = rs_account_version s
    \<and> unat (rp_post_inventory_version plan) = unat (rs_inventory_version s) + 1"
proof -
  note p = plan_emergency_recall_Inr [OF assms]
  have "mset (map mutation_uid (rp_stabilized_items plan @ rp_destroyed_items plan))
      = mset (uids_of (rs_equipped s @ rs_belt s @ rs_run_backpack s @ map pg_stack (rs_personal_ground s)))"
    using p(2,3) by (simp add: flip: mset_map)
  from distinct_mset_eq [OF this] validate_recall_snapshot_Inr(4) [OF p(1)]
  have "distinct (map mutation_uid (rp_stabilized_items plan @ rp_destroyed_items plan))"
    by blast
  with p show ?thesis by blast
qed

lemma recall_plan_cases:
  assumes valid: "validate_recall_snapshot s = Inr ()"
    and version: "rs_inventory_version s \<noteq> - 1"
    and pouches: "\<forall>m \<in> set (rs_materials s). rm_pouch_version m \<noteq> - 1"
  shows "if length (uids_of (rs_run_backpack s @ map pg_stack (rs_personal_ground s)))
            \<le> TERMINAL_PENDING_ITEM_CAPACITY
         then \<exists>plan. plan_emergency_recall s = Inr plan
         else plan_emergency_recall s = Inl RecallItemCapacity"
proof -
  note v = validate_recall_snapshot_Inr [OF valid]
  have len: "0 + length (rs_equipped s) \<le> 256" "0 + length (rs_belt s) \<le> 256"
    "0 + length (rs_run_backpack s) \<le> 256"
    using v(1-3) by (simp_all add: capacity_defs)
  obtain s1 where s1: "append_recall_slot_mutations (rs_equipped s) RecallKindEquipped [] = Inr s1"
    unfolding append_recall_slot_mutations_def using append_recall_total [OF len(1)] by blast
  obtain s2 where s2: "append_recall_slot_mutations (rs_belt s) RecallKindBelt s1 = Inr s2"
    unfolding append_recall_slot_mutations_def using append_recall_total [OF len(2)] by blast
  obtain d1 where d1: "append_recall_slot_mutations (rs_run_backpack s) RecallKindRunBackpack [] = Inr d1"
    unfolding append_recall_slot_mutations_def using append_recall_total [OF len(3)] by blast
  define d2 where "d2 = fold (\<lambda>e acc. append_slot_item_uids (pg_stack e) (ground_location e) acc)
            (sort_key (\<lambda>e. (pg_instance_id e, pg_pickup_id e)) (rs_personal_ground s)) d1"
  note app = append_recall_Inr [OF s1 [unfolded append_recall_slot_mutations_def]]
    append_recall_Inr [OF s2 [unfolded append_recall_slot_mutations_def]]
    append_recall_Inr [OF d1 [unfolded append_recall_slot_mutations_def]]
  have s2': "map mutation_uid s2 = uids_of (rs_equipped s @ rs_belt s)"
    using app(1,2) by auto
  have d2': "mset (map mutation_uid d2) = mset (uids_of (rs_run_backpack s @ map pg_stack (rs_personal_ground s)))"
    unfolding d2_def append_ground using app(3) by (auto simp: uids_of_sort_ground)
  have stab: "length s2 \<le> TERMINAL_STABILIZED_ITEM_CAPACITY"
    using stabilized_capacity [OF valid] s2' by (metis length_map)
  have dest: "length d2 = length (uids_of (rs_run_backpack s @ map pg_stack (rs_personal_ground s)))"
    using d2' by (metis length_map size_mset)
  obtain ds where ds: "plan_recall_material_destruction (rs_materials s) = Inr ds"
    using destruction_total [OF pouches] by blast
  show ?thesis
    using valid s1 s2 d1 ds version stab dest recall_check_passes [OF valid] s2' d2'
    by (simp add: plan_emergency_recall_def Let_def checked_add_one flip: d2_def)
qed

text \<open>
  Recall is refused only for a real reason: on a valid snapshot whose inventory and pouch versions
  can advance it yields a plan exactly when at most 4096 items would be destroyed, and the
  capacity error otherwise; its own conservation check never rejects a plan.
\<close>

lemma recall_total_up_to_capacity:
  assumes valid: "validate_recall_snapshot s = Inr ()"
    and version: "rs_inventory_version s \<noteq> - 1"
    and pouches: "\<forall>m \<in> set (rs_materials s). rm_pouch_version m \<noteq> - 1"
  shows "if length (uids_of (rs_run_backpack s @ map pg_stack (rs_personal_ground s)))
            \<le> TERMINAL_PENDING_ITEM_CAPACITY
         then \<exists>plan. plan_emergency_recall s = Inr plan
         else plan_emergency_recall s = Inl RecallItemCapacity"
  by (rule recall_plan_cases [OF assms])

section \<open>Recovery of a held stack\<close>

definition containers_uids :: "hold_containers \<Rightarrow> item_uid list" where
  "containers_uids cs = uids_of (hc_character_safe cs @ hc_vault cs @ hc_overflow cs)"

definition containers_ok :: "hold_containers \<Rightarrow> bool" where
  "containers_ok cs \<longleftrightarrow> length (hc_character_safe cs) = CHARACTER_SAFE_CAPACITY
     \<and> length (hc_vault cs) = VAULT_CAPACITY \<and> length (hc_overflow cs) = TERMINAL_OVERFLOW_CAPACITY
     \<and> (\<forall>slot \<in> set (hc_character_safe cs @ hc_vault cs @ hc_overflow cs). slot_ok valid_template_id slot)"

fun container_slot :: "hold_containers \<Rightarrow> resolution_hold_recovery_destination \<Rightarrow> durable_storage_slot option" where
  "container_slot cs (HoldToCharacterSafe i) = get (hc_character_safe cs) (unat i)"
| "container_slot cs (HoldToVault i) = get (hc_vault cs) (unat i)"
| "container_slot cs (HoldToOverflow i e) = get (hc_overflow cs) (unat i)"

text \<open>What a placement of the held identities does: one slot takes all of them.\<close>

definition takes_all ::
  "item_uid list \<Rightarrow> hold_containers \<Rightarrow> resolution_hold_recovery_destination \<Rightarrow> hold_containers \<Rightarrow> bool" where
  "takes_all us cs d cs' \<longleftrightarrow>
     mset (containers_uids cs') = mset (containers_uids cs) + mset us
     \<and> (\<exists>slot. container_slot cs' d = Some slot \<and> set us \<subseteq> set (slot_uids slot))"

lemma mset_uids_of_replace:
  assumes "i < length slots" and "mset (slot_uids slot) = mset (slot_uids (slots ! i)) + mset us"
  shows "mset (uids_of (slots[i := slot])) = mset (uids_of slots) + mset us"
proof -
  have "mset (uids_of (slots[i := slot])) + mset (slot_uids (slots ! i))
      = (mset (uids_of slots) + mset us) + mset (slot_uids (slots ! i))"
    using mset_uids_of_update [OF assms(1), of slot] assms(2) by (simp add: ac_simps)
  then show ?thesis by simp
qed

lemma put_character_safe_takes:
  assumes "put_character_safe i slot cs = Inr (d, cs')" and "i < length (hc_character_safe cs)"
    and "mset (slot_uids slot) = mset (slot_uids (hc_character_safe cs ! i)) + mset us"
  shows "takes_all us cs d cs'"
proof -
  have "set us \<subseteq> set (slot_uids slot)"
    using assms(3) by (metis set_mset_mset set_mset_union sup_ge2)
  with assms mset_uids_of_replace [OF assms(2,3)] show ?thesis
    by (auto simp: put_character_safe_def takes_all_def containers_uids_def try_from_usize_eq_Some)
qed

lemma put_vault_takes:
  assumes "put_vault i slot cs = Inr (d, cs')" and "i < length (hc_vault cs)"
    and "mset (slot_uids slot) = mset (slot_uids (hc_vault cs ! i)) + mset us"
  shows "takes_all us cs d cs'"
proof -
  have "set us \<subseteq> set (slot_uids slot)"
    using assms(3) by (metis set_mset_mset set_mset_union sup_ge2)
  with assms mset_uids_of_replace [OF assms(2,3)] show ?thesis
    by (auto simp: put_vault_def takes_all_def containers_uids_def try_from_usize_eq_Some)
qed

lemma place_complete_in_empty_takes:
  assumes "place_complete_in_empty held now expires cs = Inr (d, cs')"
  shows "takes_all (slot_uids held) cs d cs'"
proof (cases "lowest_empty (hc_character_safe cs)")
  case (Some i)
  with assms lowest_empty_SomeD [OF Some] show ?thesis
    by (auto simp: place_complete_in_empty_def intro!: put_character_safe_takes)
next
  case safe: None
  show ?thesis
  proof (cases "lowest_empty (hc_vault cs)")
    case (Some i)
    with assms safe lowest_empty_SomeD [OF Some] show ?thesis
      by (auto simp: place_complete_in_empty_def intro!: put_vault_takes)
  next
    case None
    with assms safe obtain i where i: "lowest_empty (hc_overflow cs) = Some i"
      and r: "try_from_usize i = Some n \<Longrightarrow> d = HoldToOverflow n expires"
        "cs' = cs\<lparr>hc_overflow := (hc_overflow cs)[i := held]\<rparr>" for n
      by (auto simp: place_complete_in_empty_def place_complete_stack_in_overflow_def split: if_splits)
    have "\<exists>n. (try_from_usize i :: u8 option) = Some n"
      using assms safe None i
      by (auto simp: place_complete_in_empty_def place_complete_stack_in_overflow_def split: if_splits)
    with r lowest_empty_SomeD [OF i] mset_uids_of_fill_empty [OF i] show ?thesis
      by (auto simp: takes_all_def containers_uids_def try_from_usize_eq_Some)
  qed
qed

lemma complete_merge_index_SomeD:
  assumes "complete_merge_index slots template n = Some i"
  obtains us where "i < length slots" "slots ! i = Consumable template us"
    "length us + n \<le> DURABLE_CONSUMABLE_STACK_CAP"
  using position_SomeD [OF assms [unfolded complete_merge_index_def]]
  by (cases "slots ! i") auto

lemma place_complete_takes:
  assumes "place_complete_resolution_hold_stack held now expires cs = Inr (d, cs')"
  shows "takes_all (slot_uids held) cs d cs'"
proof (cases held)
  case (Consumable template us)
  show ?thesis
  proof (cases "complete_merge_index (hc_character_safe cs) template (length us)")
    case (Some i)
    obtain st where "i < length (hc_character_safe cs)" "hc_character_safe cs ! i = Consumable template st"
      by (rule complete_merge_index_SomeD [OF Some])
    with assms Some Consumable show ?thesis
      by (auto intro!: put_character_safe_takes)
  next
    case safe: None
    show ?thesis
    proof (cases "complete_merge_index (hc_vault cs) template (length us)")
      case (Some i)
      obtain st where "i < length (hc_vault cs)" "hc_vault cs ! i = Consumable template st"
        by (rule complete_merge_index_SomeD [OF Some])
      with assms safe Some Consumable show ?thesis
        by (auto intro!: put_vault_takes)
    next
      case None
      with assms safe Consumable show ?thesis
        by (auto dest: place_complete_in_empty_takes)
    qed
  qed
qed (use assms in \<open>auto dest: place_complete_in_empty_takes\<close>)

lemma slots_ok_update:
  "\<forall>slot \<in> set slots. slot_ok tok slot \<Longrightarrow> slot_ok tok new \<Longrightarrow> \<forall>slot \<in> set (slots[i := new]). slot_ok tok slot"
  by (auto dest!: subsetD [OF set_update_subset_insert])

lemma put_character_safe_ok:
  "put_character_safe i slot cs = Inr (d, cs') \<Longrightarrow> containers_ok cs \<Longrightarrow> slot_ok valid_template_id slot
     \<Longrightarrow> containers_ok cs'"
  using slots_ok_update [of "hc_character_safe cs" valid_template_id slot i]
  by (auto simp: put_character_safe_def containers_ok_def)

lemma put_vault_ok:
  "put_vault i slot cs = Inr (d, cs') \<Longrightarrow> containers_ok cs \<Longrightarrow> slot_ok valid_template_id slot
     \<Longrightarrow> containers_ok cs'"
  using slots_ok_update [of "hc_vault cs" valid_template_id slot i]
  by (auto simp: put_vault_def containers_ok_def)

lemma place_complete_in_empty_ok:
  assumes "place_complete_in_empty held now expires cs = Inr (d, cs')" and "containers_ok cs"
    and "slot_ok valid_template_id held"
  shows "containers_ok cs'"
  using assms slots_ok_update [of "hc_overflow cs" valid_template_id held]
  by (auto simp: place_complete_in_empty_def place_complete_stack_in_overflow_def containers_ok_def
      dest!: put_character_safe_ok put_vault_ok split: option.splits if_splits)

lemma merged_stack_ok:
  assumes "slot_ok tok (Consumable template st)" and "length st + length us \<le> DURABLE_CONSUMABLE_STACK_CAP"
    and "distinct (st @ us)"
  shows "slot_ok tok (Consumable template (sort (st @ us)))"
proof -
  have "sort (st @ us) \<noteq> []"
    using assms(1) by (metis append_is_Nil_conv set_empty set_sort slot_ok.simps(3))
  with assms show ?thesis
    by (auto simp: strict_sorted_iff)
qed

lemma place_complete_ok:
  assumes place: "place_complete_resolution_hold_stack held now expires cs = Inr (d, cs')"
    and ok: "containers_ok cs" "slot_ok valid_template_id held"
    and dist: "distinct (containers_uids cs @ slot_uids held)"
  shows "containers_ok cs'"
proof (cases held)
  case (Consumable template us)
  have merged: "slot_ok valid_template_id (Consumable template (sort (st @ us)))"
    if "slots ! i = Consumable template st" "i < length slots" "length st + length us \<le> DURABLE_CONSUMABLE_STACK_CAP"
      "set slots \<subseteq> set (hc_character_safe cs @ hc_vault cs @ hc_overflow cs)" for slots i st
  proof (rule merged_stack_ok [OF _ that(3)])
    have m: "Consumable template st \<in> set (hc_character_safe cs @ hc_vault cs @ hc_overflow cs)"
      using that by (metis nth_mem subsetD)
    then show st: "slot_ok valid_template_id (Consumable template st)"
      using ok(1) unfolding containers_ok_def by blast
    have "set st \<subseteq> set (containers_uids cs)"
      using m unfolding containers_uids_def set_uids_of by force
    with dist Consumable st show "distinct (st @ us)"
      by (auto simp: strict_sorted_iff)
  qed
  show ?thesis
  proof (cases "complete_merge_index (hc_character_safe cs) template (length us)")
    case (Some i)
    obtain st where "i < length (hc_character_safe cs)" "hc_character_safe cs ! i = Consumable template st"
      "length st + length us \<le> DURABLE_CONSUMABLE_STACK_CAP"
      by (rule complete_merge_index_SomeD [OF Some])
    with place Some Consumable ok(1) merged [of "hc_character_safe cs" i st] show ?thesis
      by (auto dest!: put_character_safe_ok simp del: slot_ok.simps)
  next
    case safe: None
    show ?thesis
    proof (cases "complete_merge_index (hc_vault cs) template (length us)")
      case (Some i)
      obtain st where "i < length (hc_vault cs)" "hc_vault cs ! i = Consumable template st"
        "length st + length us \<le> DURABLE_CONSUMABLE_STACK_CAP"
        by (rule complete_merge_index_SomeD [OF Some])
      with place safe Some Consumable ok(1) merged [of "hc_vault cs" i st] show ?thesis
        by (auto dest!: put_vault_ok simp del: slot_ok.simps)
    next
      case None
      with place safe Consumable ok show ?thesis
        by (auto dest: place_complete_in_empty_ok)
    qed
  qed
qed (use place ok in \<open>auto dest: place_complete_in_empty_ok\<close>)

lemma try_from_usize_small:
  "i < 256 \<Longrightarrow> \<exists>n. (try_from_usize i :: u8 option) = Some n"
  "i < 256 \<Longrightarrow> \<exists>n. (try_from_usize i :: u16 option) = Some n"
  by (simp_all add: try_from_usize_def)

lemma put_total:
  "containers_ok cs \<Longrightarrow> i < length (hc_character_safe cs) \<Longrightarrow> \<exists>r. put_character_safe i slot cs = Inr r"
  "containers_ok cs \<Longrightarrow> i < length (hc_vault cs) \<Longrightarrow> \<exists>r. put_vault i slot cs = Inr r"
  using try_from_usize_small [of i]
  by (auto simp: put_character_safe_def put_vault_def containers_ok_def capacity_defs)

definition no_room :: "u64 \<Rightarrow> u64 \<Rightarrow> hold_containers \<Rightarrow> bool" where
  "no_room now expires cs \<longleftrightarrow> Empty \<notin> set (hc_character_safe cs @ hc_vault cs)
     \<and> (expires \<le> now \<or> Empty \<notin> set (hc_overflow cs))"

lemma place_complete_in_empty_cases:
  assumes "containers_ok cs"
  shows "if no_room now expires cs
         then place_complete_in_empty held now expires cs = Inl ResolutionHoldStorageFull
         else \<exists>r. place_complete_in_empty held now expires cs = Inr r"
proof (cases "lowest_empty (hc_character_safe cs)")
  case (Some i)
  then have "Empty \<in> set (hc_character_safe cs)"
    using lowest_empty_None [of "hc_character_safe cs"] by auto
  with put_total(1) [OF assms] lowest_empty_SomeD [OF Some] Some show ?thesis
    by (simp add: place_complete_in_empty_def no_room_def)
next
  case safe: None
  then have sf: "Empty \<notin> set (hc_character_safe cs)"
    by (simp add: lowest_empty_None)
  show ?thesis
  proof (cases "lowest_empty (hc_vault cs)")
    case (Some i)
    then have "Empty \<in> set (hc_vault cs)"
      using lowest_empty_None [of "hc_vault cs"] by auto
    with put_total(2) [OF assms] lowest_empty_SomeD [OF Some] Some safe show ?thesis
      by (simp add: place_complete_in_empty_def no_room_def)
  next
    case vault: None
    then have vf: "Empty \<notin> set (hc_vault cs)"
      by (simp add: lowest_empty_None)
    have "\<exists>n. (try_from_usize i :: u8 option) = Some n" if "lowest_empty (hc_overflow cs) = Some i" for i
      using lowest_empty_SomeD [OF that] assms try_from_usize_small(1) [of i]
      by (auto simp: containers_ok_def capacity_defs)
    with sf vf safe vault lowest_empty_None [of "hc_overflow cs"] show ?thesis
      by (cases "lowest_empty (hc_overflow cs)")
        (auto simp: place_complete_in_empty_def no_room_def place_complete_stack_in_overflow_def)
  qed
qed

lemma place_complete_cases:
  assumes "containers_ok cs" and "held \<noteq> Empty"
  shows "(\<exists>r. place_complete_resolution_hold_stack held now expires cs = Inr r)
    \<or> place_complete_resolution_hold_stack held now expires cs = Inl ResolutionHoldStorageFull
      \<and> no_room now expires cs"
proof (cases held)
  case (Equipment u)
  with place_complete_in_empty_cases [OF assms(1), of now expires held] show ?thesis
    by (auto split: if_splits)
next
  case (Consumable template us)
  have merge: "\<exists>r. merge_complete_stack (slots ! i) us = Inr r \<and> i < length slots"
    if i: "complete_merge_index slots template (length us) = Some i" for slots i
  proof -
    obtain st where "i < length slots" "slots ! i = Consumable template st"
      by (rule complete_merge_index_SomeD [OF i])
    then show ?thesis by simp
  qed
  show ?thesis
  proof (cases "complete_merge_index (hc_character_safe cs) template (length us)")
    case (Some i)
    with merge [OF Some] put_total(1) [OF assms(1)] Consumable show ?thesis by fastforce
  next
    case safe: None
    show ?thesis
    proof (cases "complete_merge_index (hc_vault cs) template (length us)")
      case (Some i)
      with merge [OF Some] put_total(2) [OF assms(1)] safe Consumable show ?thesis by fastforce
    next
      case None
      with place_complete_in_empty_cases [OF assms(1), of now expires held] safe Consumable show ?thesis
        by (auto split: if_splits)
    qed
  qed
qed (use assms in simp)

section \<open>The recovery plan\<close>

definition snapshot_containers :: "resolution_hold_recovery_snapshot \<Rightarrow> hold_containers" where
  "snapshot_containers s = \<lparr>hc_character_safe = hs_character_safe s, hc_vault = hs_vault s,
     hc_overflow = hs_overflow s\<rparr>"

definition plan_containers :: "resolution_hold_recovery_plan \<Rightarrow> hold_containers" where
  "plan_containers plan = \<lparr>hc_character_safe = hp_post_character_safe plan, hc_vault = hp_post_vault plan,
     hc_overflow = hp_post_overflow plan\<rparr>"

lemma validate_hold_snapshot_iff:
  "validate_resolution_hold_recovery_snapshot s = Inr () \<longleftrightarrow>
     hs_account_version s \<noteq> 0 \<and> hs_inventory_version s \<noteq> 0
     \<and> hs_authoritative_time_unix_micros s \<noteq> 0 \<and> hs_extracted_at_unix_micros s \<noteq> 0
     \<and> hs_held_stack s \<noteq> Empty
     \<and> unat (hs_extracted_at_unix_micros s) + unat OVERFLOW_LIFETIME_MICROS < 2 ^ 64
     \<and> slot_ok valid_template_id (hs_held_stack s) \<and> containers_ok (snapshot_containers s)
     \<and> distinct (containers_uids (snapshot_containers s) @ slot_uids (hs_held_stack s))"
proof -
  have "(\<exists>c. checked_add a b = Some c) \<longleftrightarrow> unat a + unat b < 2 ^ 64" for a b :: u64
    by (cases "checked_add a b") (auto simp: checked_add_def Let_def split: if_splits)
  then show ?thesis
    unfolding validate_resolution_hold_recovery_snapshot_def validate_terminal_slot_def containers_ok_def
      containers_uids_def snapshot_containers_def
    by (auto simp del: try_fold.simps simp: validate_slots_eq_Inr)
qed

lemma destination_slot_containers:
  "destination_slot plan d = container_slot (plan_containers plan) d"
  by (cases d) (simp_all add: plan_containers_def)

lemma hold_plan_check_passes:
  assumes "hs_held_stack s \<noteq> Empty" "slot_ok valid_template_id (hs_held_stack s)"
    and "hp_item_uids plan = slot_uids (hs_held_stack s)"
    and "hp_pre_account_version plan = hs_account_version s"
    and "hp_pre_inventory_version plan = hs_inventory_version s"
    and "checked_add (hs_inventory_version s) 1 = Some (hp_post_inventory_version plan)"
    and "expected_account_version s (hp_destination plan) = Inr (hp_post_account_version plan)"
    and "(hp_action plan = DestroyConfirmed \<and> hp_destination plan = None
           \<and> plan_containers plan = snapshot_containers s)
         \<or> (hp_action plan = Move \<and> (\<exists>d. hp_destination plan = Some d
           \<and> takes_all (slot_uids (hs_held_stack s)) (snapshot_containers s) d (plan_containers plan)))"
  shows "validate_resolution_hold_recovery_plan s plan = Inr ()"
  using assms slot_uids_nonempty [OF assms(2,1)]
  by (auto simp: validate_resolution_hold_recovery_plan_def takes_all_def destination_slot_containers
      expected_account_version_def list_all_iff plan_containers_def snapshot_containers_def)

lemma plan_hold_recovery_Inr:
  assumes "plan_resolution_hold_recovery s action = Inr plan"
  shows "validate_resolution_hold_recovery_snapshot s = Inr ()" "hp_action plan = action"
    "hp_item_uids plan = slot_uids (hs_held_stack s)"
    "action = Move \<Longrightarrow> \<exists>d expires. hp_destination plan = Some d
       \<and> place_complete_resolution_hold_stack (hs_held_stack s) (hs_authoritative_time_unix_micros s)
           expires (snapshot_containers s) = Inr (d, plan_containers plan)
       \<and> unat (hp_post_account_version plan) = unat (hs_account_version s) + (if account_owned d then 1 else 0)"
    "unat (hp_post_inventory_version plan) = unat (hs_inventory_version s) + 1"
proof -
  assume move: "action = Move"
  with assms obtain d cs expires account where
    place: "place_complete_resolution_hold_stack (hs_held_stack s) (hs_authoritative_time_unix_micros s)
           expires (snapshot_containers s) = Inr (d, cs)"
    and account: "expected_account_version s (Some d) = Inr account"
    and plan: "hp_destination plan = Some d" "hp_post_account_version plan = account"
      "hp_post_character_safe plan = hc_character_safe cs" "hp_post_vault plan = hc_vault cs"
      "hp_post_overflow plan = hc_overflow cs"
    unfolding plan_resolution_hold_recovery_def snapshot_containers_def Let_def
    by auto
  have "plan_containers plan = cs"
    using plan by (simp add: plan_containers_def)
  with place account plan(1,2) show "\<exists>d expires. hp_destination plan = Some d
       \<and> place_complete_resolution_hold_stack (hs_held_stack s) (hs_authoritative_time_unix_micros s)
           expires (snapshot_containers s) = Inr (d, plan_containers plan)
       \<and> unat (hp_post_account_version plan) = unat (hs_account_version s) + (if account_owned d then 1 else 0)"
    by (auto simp: expected_account_version_def checked_add_eq_Some split: if_splits)
qed (use assms in \<open>auto simp: plan_resolution_hold_recovery_def Let_def checked_add_eq_Some\<close>)

text \<open>
  Moving a held stack never splits, loses or duplicates it: the containers of the plan hold the
  old identities plus exactly the held ones, all of the held ones in the single slot the plan
  names; sizes and stack rules are kept; the inventory version advances by one and the account
  version by one exactly when the destination is account storage.
\<close>

lemma hold_move_whole_stack:
  assumes "plan_resolution_hold_recovery s Move = Inr plan"
  shows "\<exists>d slot. hp_destination plan = Some d \<and> destination_slot plan d = Some slot
    \<and> set (slot_uids (hs_held_stack s)) \<subseteq> set (slot_uids slot)
    \<and> mset (containers_uids (plan_containers plan))
        = mset (containers_uids (snapshot_containers s)) + mset (slot_uids (hs_held_stack s))
    \<and> distinct (containers_uids (plan_containers plan)) \<and> containers_ok (plan_containers plan)
    \<and> unat (hp_post_inventory_version plan) = unat (hs_inventory_version s) + 1
    \<and> unat (hp_post_account_version plan) = unat (hs_account_version s) + (if account_owned d then 1 else 0)"
proof -
  note p = plan_hold_recovery_Inr [OF assms]
  from p(4) [OF refl] obtain d expires where d: "hp_destination plan = Some d"
    and place: "place_complete_resolution_hold_stack (hs_held_stack s) (hs_authoritative_time_unix_micros s)
           expires (snapshot_containers s) = Inr (d, plan_containers plan)"
    and acc: "unat (hp_post_account_version plan) = unat (hs_account_version s) + (if account_owned d then 1 else 0)"
    by blast
  note v = p(1) [unfolded validate_hold_snapshot_iff]
  from place_complete_takes [OF place] obtain slot where
    slot: "destination_slot plan d = Some slot" "set (slot_uids (hs_held_stack s)) \<subseteq> set (slot_uids slot)"
    and m: "mset (containers_uids (plan_containers plan))
        = mset (containers_uids (snapshot_containers s) @ slot_uids (hs_held_stack s))"
    by (auto simp: takes_all_def destination_slot_containers)
  have "containers_ok (plan_containers plan)"
    using place_complete_ok [OF place] v by blast
  moreover have "distinct (containers_uids (plan_containers plan))"
    using distinct_mset_eq [OF m] v by blast
  ultimately show ?thesis
    using d slot m acc p(5) by auto
qed

lemma hold_move_cases:
  assumes valid: "validate_resolution_hold_recovery_snapshot s = Inr ()"
    and versions: "hs_account_version s \<noteq> - 1" "hs_inventory_version s \<noteq> - 1"
  shows "(\<exists>plan. plan_resolution_hold_recovery s Move = Inr plan)
    \<or> plan_resolution_hold_recovery s Move = Inl ResolutionHoldStorageFull
      \<and> no_room (hs_authoritative_time_unix_micros s)
          (hs_extracted_at_unix_micros s + OVERFLOW_LIFETIME_MICROS) (snapshot_containers s)"
proof -
  note v = valid [unfolded validate_hold_snapshot_iff]
  have e: "checked_add (hs_extracted_at_unix_micros s) OVERFLOW_LIFETIME_MICROS
      = Some (hs_extracted_at_unix_micros s + OVERFLOW_LIFETIME_MICROS)"
    using v by (simp add: checked_add_eq_Some unat_word_ariths)
  from place_complete_cases [of "snapshot_containers s" "hs_held_stack s"
      "hs_authoritative_time_unix_micros s" "hs_extracted_at_unix_micros s + OVERFLOW_LIFETIME_MICROS"] v
  consider (placed) d cs where "place_complete_resolution_hold_stack (hs_held_stack s)
      (hs_authoritative_time_unix_micros s) (hs_extracted_at_unix_micros s + OVERFLOW_LIFETIME_MICROS)
      (snapshot_containers s) = Inr (d, cs)"
    | (full) "place_complete_resolution_hold_stack (hs_held_stack s) (hs_authoritative_time_unix_micros s)
      (hs_extracted_at_unix_micros s + OVERFLOW_LIFETIME_MICROS) (snapshot_containers s)
      = Inl ResolutionHoldStorageFull"
      "no_room (hs_authoritative_time_unix_micros s)
          (hs_extracted_at_unix_micros s + OVERFLOW_LIFETIME_MICROS) (snapshot_containers s)"
    by auto
  then show ?thesis
  proof cases
    case placed
    obtain acc where acc: "expected_account_version s (Some d) = Inr acc"
      using versions(1) by (cases "account_owned d") (simp_all add: expected_account_version_def checked_add_one)
    define plan where "plan = \<lparr>hp_action = Move, hp_destination = Some d,
                 hp_item_uids = slot_uids (hs_held_stack s),
                 hp_pre_account_version = hs_account_version s, hp_post_account_version = acc,
                 hp_pre_inventory_version = hs_inventory_version s,
                 hp_post_inventory_version = hs_inventory_version s + 1,
                 hp_post_character_safe = hc_character_safe cs, hp_post_vault = hc_vault cs,
                 hp_post_overflow = hc_overflow cs\<rparr>"
    have "plan_containers plan = cs"
      by (simp add: plan_def plan_containers_def)
    then have "validate_resolution_hold_recovery_plan s plan = Inr ()"
      using v versions(2) acc place_complete_takes [OF placed]
      by (intro hold_plan_check_passes) (auto simp: plan_def checked_add_one)
    with valid e placed acc versions(2) show ?thesis
      by (simp add: plan_resolution_hold_recovery_def Let_def snapshot_containers_def checked_add_one plan_def)
  next
    case full
    with valid e show ?thesis
      by (simp add: plan_resolution_hold_recovery_def Let_def snapshot_containers_def)
  qed
qed

text \<open>
  A held stack never gets stuck while there is room: on a valid snapshot with versions that can
  advance, a move either succeeds or reports full storage, and it reports full storage only when
  CharacterSafe and Vault have no empty slot and Overflow has none or its deadline has passed.
\<close>

lemma hold_move_refused_only_when_full:
  assumes valid: "validate_resolution_hold_recovery_snapshot s = Inr ()"
    and versions: "hs_account_version s \<noteq> - 1" "hs_inventory_version s \<noteq> - 1"
  shows "(\<exists>plan. plan_resolution_hold_recovery s Move = Inr plan)
    \<or> plan_resolution_hold_recovery s Move = Inl ResolutionHoldStorageFull
      \<and> no_room (hs_authoritative_time_unix_micros s)
          (hs_extracted_at_unix_micros s + OVERFLOW_LIFETIME_MICROS) (snapshot_containers s)"
  by (rule hold_move_cases [OF assms])

text \<open>
  Confirmed destruction always works and touches nothing else: on a valid snapshot whose inventory
  version can advance it yields a plan that lists exactly the held identities, names no
  destination and leaves every container and the account version as they were.
\<close>

lemma hold_destroy_touches_nothing:
  assumes valid: "validate_resolution_hold_recovery_snapshot s = Inr ()"
    and version: "hs_inventory_version s \<noteq> - 1"
  shows "\<exists>plan. plan_resolution_hold_recovery s DestroyConfirmed = Inr plan
    \<and> hp_destination plan = None \<and> hp_item_uids plan = slot_uids (hs_held_stack s)
    \<and> plan_containers plan = snapshot_containers s
    \<and> hp_post_account_version plan = hs_account_version s
    \<and> hp_post_inventory_version plan = hs_inventory_version s + 1"
proof -
  note v = valid [unfolded validate_hold_snapshot_iff]
  have e: "checked_add (hs_extracted_at_unix_micros s) OVERFLOW_LIFETIME_MICROS
      = Some (hs_extracted_at_unix_micros s + OVERFLOW_LIFETIME_MICROS)"
    using v by (simp add: checked_add_eq_Some unat_word_ariths)
  have check: "validate_resolution_hold_recovery_plan s plan = Inr ()"
    if "hp_action plan = DestroyConfirmed" "hp_destination plan = None"
      "hp_item_uids plan = slot_uids (hs_held_stack s)"
      "hp_pre_account_version plan = hs_account_version s" "hp_post_account_version plan = hs_account_version s"
      "hp_pre_inventory_version plan = hs_inventory_version s"
      "hp_post_inventory_version plan = hs_inventory_version s + 1"
      "plan_containers plan = snapshot_containers s" for plan
    using that v version by (intro hold_plan_check_passes) (auto simp: expected_account_version_def checked_add_one)
  show ?thesis
    using valid e version check
    by (simp add: plan_resolution_hold_recovery_def Let_def expected_account_version_def checked_add_one
        plan_containers_def snapshot_containers_def)
qed

section \<open>Concrete plans\<close>

definition sample_recall :: recall_inventory_snapshot where
  "sample_recall =
     \<lparr>rs_account_version = 7, rs_inventory_version = 11,
      rs_equipped = [Equipment (sample_uid 1), Empty, Empty, Empty],
      rs_belt = [Consumable ''potion'' (map sample_uid [2, 3]), Empty],
      rs_run_backpack = Consumable ''potion'' (map sample_uid [8, 9]) # replicate 7 Empty,
      rs_personal_ground = [\<lparr>pg_instance_id = replicate 16 1, pg_pickup_id = replicate 16 2,
        pg_expires_at_tick = 90, pg_stack = Equipment (sample_uid 10)\<rparr>],
      rs_materials = [\<lparr>rm_material_id = ''ash'', rm_pending_quantity = 3, rm_pouch_version = 4\<rparr>]\<rparr>"

lemma sample_recall_valid: "validate_recall_snapshot sample_recall = Inr ()"
proof -
  define ids where "ids = sample_uid ` {1, 2, 3, 8, 9}"
  let ?slots = "rs_equipped sample_recall @ rs_belt sample_recall @ rs_run_backpack sample_recall"
  have slots: "try_fold validate_terminal_slot ?slots {} = Inr ids"
    unfolding ids_def validate_terminal_slot_def validate_slots_eq_Inr
    by (auto simp: sample_recall_def valid_template_id_def is_template_byte_def DURABLE_CONSUMABLE_STACK_CAP_def)
  have ground: "try_fold validate_personal_ground (rs_personal_ground sample_recall)
      ({}, ids)
    = Inr ({(replicate 16 1, replicate 16 2)}, insert (sample_uid 10) ids)"
    by (simp add: ids_def sample_recall_def validate_personal_ground_def validate_terminal_slot_def)
  have kinds: "validate_slot_kinds (rs_equipped sample_recall) EquipmentOnly = Inr ()"
    "validate_slot_kinds (rs_belt sample_recall) ConsumableOnly = Inr ()"
    "validate_slot_kinds (rs_run_backpack sample_recall) AnyKind = Inr ()"
    by (simp_all add: sample_recall_def validate_slot_kinds_def list_all_iff)
  have materials: "validate_recall_materials (rs_materials sample_recall) = Inr ()"
    by (simp add: sample_recall_def validate_recall_materials_def validate_recall_material_def
        TERMINAL_MATERIAL_CAPACITY_def valid_template_id_def is_template_byte_def)
  have "card (insert (sample_uid 10) ids) \<le> card (sample_uid ` {10, 1, 2, 3, 8, 9})"
    by (simp add: ids_def)
  also have "\<dots> \<le> 6"
    by (rule order_trans [OF card_image_le]) simp_all
  finally have "\<not> TERMINAL_PENDING_ITEM_CAPACITY + TERMINAL_STABILIZED_ITEM_CAPACITY
      < card (insert (sample_uid 10) ids)"
    by (simp add: TERMINAL_PENDING_ITEM_CAPACITY_def)
  moreover have "rs_account_version sample_recall \<noteq> 0" "rs_inventory_version sample_recall \<noteq> 0"
    "length (rs_equipped sample_recall) = EQUIPMENT_SLOT_COUNT"
    "length (rs_belt sample_recall) = TERMINAL_BELT_CAPACITY"
    "length (rs_run_backpack sample_recall) = RUN_BACKPACK_CAPACITY"
    by (simp_all add: sample_recall_def capacity_defs)
  ultimately show ?thesis
    unfolding validate_recall_snapshot_def by (simp add: slots ground kinds materials del: append_Cons)
qed

lemma sample_recall_bounds:
  "rs_inventory_version sample_recall \<noteq> - 1"
  "\<forall>m \<in> set (rs_materials sample_recall). rm_pouch_version m \<noteq> - 1"
  "length (uids_of (rs_run_backpack sample_recall @ map pg_stack (rs_personal_ground sample_recall)))
     \<le> TERMINAL_PENDING_ITEM_CAPACITY"
  by (simp_all add: sample_recall_def TERMINAL_PENDING_ITEM_CAPACITY_def)

lemma sample_recall_plan: "\<exists>plan. plan_emergency_recall sample_recall = Inr plan"
  using recall_plan_cases [OF sample_recall_valid sample_recall_bounds(1,2)] sample_recall_bounds(3)
  by simp

definition sample_hold :: resolution_hold_recovery_snapshot where
  "sample_hold =
     \<lparr>hs_account_version = 7, hs_inventory_version = 11, hs_authoritative_time_unix_micros = 2000,
      hs_extracted_at_unix_micros = 1000, hs_held_stack = Consumable ''potion'' [sample_uid 3, sample_uid 5],
      hs_character_safe = Consumable ''potion'' [sample_uid 4] # replicate 7 Empty,
      hs_vault = replicate 160 Empty, hs_overflow = replicate 20 Empty\<rparr>"

lemma sample_hold_valid: "validate_resolution_hold_recovery_snapshot sample_hold = Inr ()"
  unfolding validate_hold_snapshot_iff
  by (simp add: sample_hold_def containers_ok_def containers_uids_def snapshot_containers_def capacity_defs
      valid_template_id_def is_template_byte_def DURABLE_CONSUMABLE_STACK_CAP_def OVERFLOW_LIFETIME_MICROS_def)

lemma sample_hold_room: "\<not> no_room now expires (snapshot_containers sample_hold)"
  by (simp add: no_room_def snapshot_containers_def sample_hold_def)

lemma sample_hold_plan: "\<exists>plan. plan_resolution_hold_recovery sample_hold Move = Inr plan"
  using hold_move_cases [OF sample_hold_valid] sample_hold_room by (auto simp: sample_hold_def)

end
