(* ===== verification/Terminal_Arbiter.thy ===== *)
theory Terminal_Arbiter
  imports Gravebound_Prelude
begin

text \<open>
  The terminal arbiter of one character (\<open>server_app/src/terminal_arbiter.rs\<close>): candidates for the
  end of a run are submitted during a simulation tick, the tick is sealed by preparing the
  canonical winner, and the durable receipt of the winner is committed. The arbiter is a state
  machine over Open, Pending, Prepared and Committed; a panic of the source (\<open>expect\<close>) is the
  value None.
\<close>

section \<open>Data\<close>

definition STORED_TERMINAL_RECEIPT_SCHEMA_V1 :: u16 where
  "STORED_TERMINAL_RECEIPT_SCHEMA_V1 = 1"

definition MAX_TERMINAL_CANDIDATES_PER_TICK :: nat where
  "MAX_TERMINAL_CANDIDATES_PER_TICK = 32"

datatype terminal_kind =
    LethalDeath
  | SuccessfulExtraction
  | EmergencyRecall
  | DisconnectRecovery
  | VerifiedServerFaultRestoration

fun priority :: "terminal_kind \<Rightarrow> u8" where
  "priority LethalDeath = 0"
| "priority SuccessfulExtraction = 1"
| "priority EmergencyRecall = 2"
| "priority DisconnectRecovery = 3"
| "priority VerifiedServerFaultRestoration = 4"

fun stable_code :: "terminal_kind \<Rightarrow> u8" where
  "stable_code LethalDeath = 1"
| "stable_code SuccessfulExtraction = 2"
| "stable_code EmergencyRecall = 3"
| "stable_code DisconnectRecovery = 4"
| "stable_code VerifiedServerFaultRestoration = 5"

definition from_stable_code :: "u8 \<Rightarrow> terminal_kind option" where
  "from_stable_code code =
     (if code = 1 then Some LethalDeath
      else if code = 2 then Some SuccessfulExtraction
      else if code = 3 then Some EmergencyRecall
      else if code = 4 then Some DisconnectRecovery
      else if code = 5 then Some VerifiedServerFaultRestoration
      else None)"

record terminal_binding =
  bind_account :: bytes
  bind_character :: bytes
  bind_lineage :: bytes
  bind_restore_point :: bytes

datatype terminal_validation_error =
    MissingAccountId
  | MissingCharacterId
  | MissingLineageId
  | MissingRestorePointId
  | MissingTerminalId
  | MissingMutationId
  | MissingPayloadHash
  | MissingServerPlanHash
  | MissingResultHash
  | StateVersionExhausted
  | InvalidPostStateVersion
  | CommitBeforeObservation

definition new_terminal_binding ::
  "bytes \<Rightarrow> bytes \<Rightarrow> bytes \<Rightarrow> bytes \<Rightarrow> terminal_validation_error + terminal_binding" where
  "new_terminal_binding account character lineage restore_point =
     (if is_zero account then Inl MissingAccountId
      else if is_zero character then Inl MissingCharacterId
      else if is_zero lineage then Inl MissingLineageId
      else if is_zero restore_point then Inl MissingRestorePointId
      else Inr \<lparr>bind_account = account, bind_character = character, bind_lineage = lineage,
                bind_restore_point = restore_point\<rparr>)"

record terminal_candidate =
  cand_binding :: terminal_binding
  cand_terminal_id :: bytes
  cand_mutation_id :: bytes
  cand_payload_hash :: bytes
  cand_server_plan_hash :: bytes
  cand_expected_state_version :: u64
  cand_observed_tick :: u64
  cand_kind :: terminal_kind

definition validate_candidate :: "terminal_candidate \<Rightarrow> terminal_validation_error + unit" where
  "validate_candidate c =
     (if is_zero (cand_terminal_id c) then Inl MissingTerminalId
      else if is_zero (cand_mutation_id c) then Inl MissingMutationId
      else if is_zero (cand_payload_hash c) then Inl MissingPayloadHash
      else if is_zero (cand_server_plan_hash c) then Inl MissingServerPlanHash
      else if cand_expected_state_version c = - 1 then Inl StateVersionExhausted
      else Inr ())"

definition from_server_plan ::
  "terminal_binding \<Rightarrow> bytes \<Rightarrow> bytes \<Rightarrow> bytes \<Rightarrow> bytes \<Rightarrow> u64 \<Rightarrow> u64 \<Rightarrow> terminal_kind
     \<Rightarrow> terminal_validation_error + terminal_candidate" where
  "from_server_plan binding terminal_id mutation_id payload_hash plan_hash version tick kind =
     (let c = \<lparr>cand_binding = binding, cand_terminal_id = terminal_id, cand_mutation_id = mutation_id,
               cand_payload_hash = payload_hash, cand_server_plan_hash = plan_hash,
               cand_expected_state_version = version, cand_observed_tick = tick, cand_kind = kind\<rparr>
      in and_then (validate_candidate c) (\<lambda>_. Inr c))"

text \<open>\<open>std::cmp::Ordering\<close> with \<open>cmp\<close> and \<open>then_with\<close>.\<close>

datatype ordering = Less | Equal | Greater

definition cmp :: "'a::linorder \<Rightarrow> 'a \<Rightarrow> ordering" where
  "cmp a b = (if a < b then Less else if a = b then Equal else Greater)"

fun then_with :: "ordering \<Rightarrow> ordering \<Rightarrow> ordering" where
  "then_with Equal o2 = o2"
| "then_with o1 o2 = o1"

definition canonical_cmp :: "terminal_candidate \<Rightarrow> terminal_candidate \<Rightarrow> ordering" where
  "canonical_cmp a b =
     then_with (then_with (then_with (then_with
       (cmp (priority (cand_kind a)) (priority (cand_kind b)))
       (cmp (cand_terminal_id a) (cand_terminal_id b)))
       (cmp (cand_mutation_id a) (cand_mutation_id b)))
       (cmp (cand_payload_hash a) (cand_payload_hash b)))
       (cmp (cand_server_plan_hash a) (cand_server_plan_hash b))"

text \<open>\<open>Iterator::min_by\<close> keeps the first minimum, \<open>max_by\<close> the last maximum; both are None on empty.\<close>

fun min_by :: "('a \<Rightarrow> 'a \<Rightarrow> ordering) \<Rightarrow> 'a list \<Rightarrow> 'a option" where
  "min_by compare [] = None"
| "min_by compare (x # xs) =
     Some (fold (\<lambda>y best. if compare best y = Greater then y else best) xs x)"

fun max_by :: "('a \<Rightarrow> 'a \<Rightarrow> ordering) \<Rightarrow> 'a list \<Rightarrow> 'a option" where
  "max_by compare [] = None"
| "max_by compare (x # xs) =
     Some (fold (\<lambda>y best. if compare best y = Greater then best else y) xs x)"

datatype non_terminal_admission = Allowed | BlockedByUnresolvedTerminal | BlockedByCommittedTerminal

record prepared_terminal =
  prep_winner :: terminal_candidate
  prep_candidate_count :: nat
  prep_sealed_through_tick :: u64

datatype prepare_error = NothingPending | TickNotSealed u64

record stored_terminal_receipt_v1 =
  st_schema_version :: u16
  st_account_id :: bytes
  st_character_id :: bytes
  st_lineage_id :: bytes
  st_restore_point_id :: bytes
  st_terminal_id :: bytes
  st_mutation_id :: bytes
  st_payload_hash :: bytes
  st_server_plan_hash :: bytes
  st_result_hash :: bytes
  st_expected_state_version :: u64
  st_post_state_version :: u64
  st_observed_tick :: u64
  st_committed_tick :: u64
  st_terminal_kind_code :: u8

datatype stored_receipt_error =
    UnsupportedSchemaVersion u16
  | UnknownTerminalKind u8
  | InvalidStored terminal_validation_error

record stored_terminal_receipt =
  rc_binding :: terminal_binding
  rc_terminal_id :: bytes
  rc_mutation_id :: bytes
  rc_payload_hash :: bytes
  rc_server_plan_hash :: bytes
  rc_result_hash :: bytes
  rc_expected_state_version :: u64
  rc_post_state_version :: u64
  rc_observed_tick :: u64
  rc_committed_tick :: u64
  rc_kind :: terminal_kind

section \<open>Receipts\<close>

definition receipt_candidate :: "stored_terminal_receipt \<Rightarrow> terminal_candidate" where
  "receipt_candidate r =
     \<lparr>cand_binding = rc_binding r, cand_terminal_id = rc_terminal_id r,
      cand_mutation_id = rc_mutation_id r, cand_payload_hash = rc_payload_hash r,
      cand_server_plan_hash = rc_server_plan_hash r,
      cand_expected_state_version = rc_expected_state_version r,
      cand_observed_tick = rc_observed_tick r, cand_kind = rc_kind r\<rparr>"

definition validate_receipt :: "stored_terminal_receipt \<Rightarrow> terminal_validation_error + unit" where
  "validate_receipt r =
     and_then (validate_candidate (receipt_candidate r)) (\<lambda>_.
       if is_zero (rc_result_hash r) then Inl MissingResultHash
       else and_then (ok_or (checked_add (rc_expected_state_version r) 1) StateVersionExhausted)
         (\<lambda>expected_post.
            if rc_post_state_version r \<noteq> expected_post then Inl InvalidPostStateVersion
            else if rc_committed_tick r < rc_observed_tick r then Inl CommitBeforeObservation
            else Inr ()))"

definition from_prepared ::
  "prepared_terminal \<Rightarrow> u64 \<Rightarrow> bytes \<Rightarrow> terminal_validation_error + stored_terminal_receipt" where
  "from_prepared prepared committed_tick result_hash =
     (let w = prep_winner prepared in
      and_then (ok_or (checked_add (cand_expected_state_version w) 1) StateVersionExhausted) (\<lambda>post.
      let r = \<lparr>rc_binding = cand_binding w, rc_terminal_id = cand_terminal_id w,
               rc_mutation_id = cand_mutation_id w, rc_payload_hash = cand_payload_hash w,
               rc_server_plan_hash = cand_server_plan_hash w, rc_result_hash = result_hash,
               rc_expected_state_version = cand_expected_state_version w,
               rc_post_state_version = post, rc_observed_tick = cand_observed_tick w,
               rc_committed_tick = committed_tick, rc_kind = cand_kind w\<rparr>
      in and_then (validate_receipt r) (\<lambda>_. Inr r)))"

definition from_storage ::
  "stored_terminal_receipt_v1 \<Rightarrow> stored_receipt_error + stored_terminal_receipt" where
  "from_storage stored =
     (if st_schema_version stored \<noteq> STORED_TERMINAL_RECEIPT_SCHEMA_V1
      then Inl (UnsupportedSchemaVersion (st_schema_version stored))
      else and_then (ok_or (from_stable_code (st_terminal_kind_code stored))
                      (UnknownTerminalKind (st_terminal_kind_code stored))) (\<lambda>kind.
           and_then (map_err InvalidStored (new_terminal_binding (st_account_id stored)
                      (st_character_id stored) (st_lineage_id stored) (st_restore_point_id stored)))
             (\<lambda>binding.
           let r = \<lparr>rc_binding = binding, rc_terminal_id = st_terminal_id stored,
                    rc_mutation_id = st_mutation_id stored, rc_payload_hash = st_payload_hash stored,
                    rc_server_plan_hash = st_server_plan_hash stored,
                    rc_result_hash = st_result_hash stored,
                    rc_expected_state_version = st_expected_state_version stored,
                    rc_post_state_version = st_post_state_version stored,
                    rc_observed_tick = st_observed_tick stored,
                    rc_committed_tick = st_committed_tick stored, rc_kind = kind\<rparr>
           in and_then (map_err InvalidStored (validate_receipt r)) (\<lambda>_. Inr r))))"

definition to_storage_v1 :: "stored_terminal_receipt \<Rightarrow> stored_terminal_receipt_v1" where
  "to_storage_v1 r =
     \<lparr>st_schema_version = STORED_TERMINAL_RECEIPT_SCHEMA_V1,
      st_account_id = bind_account (rc_binding r), st_character_id = bind_character (rc_binding r),
      st_lineage_id = bind_lineage (rc_binding r),
      st_restore_point_id = bind_restore_point (rc_binding r),
      st_terminal_id = rc_terminal_id r, st_mutation_id = rc_mutation_id r,
      st_payload_hash = rc_payload_hash r, st_server_plan_hash = rc_server_plan_hash r,
      st_result_hash = rc_result_hash r, st_expected_state_version = rc_expected_state_version r,
      st_post_state_version = rc_post_state_version r, st_observed_tick = rc_observed_tick r,
      st_committed_tick = rc_committed_tick r, st_terminal_kind_code = stable_code (rc_kind r)\<rparr>"

definition matches_candidate :: "stored_terminal_receipt \<Rightarrow> terminal_candidate \<Rightarrow> bool" where
  "matches_candidate r c \<longleftrightarrow>
     rc_binding r = cand_binding c \<and> rc_terminal_id r = cand_terminal_id c
     \<and> rc_mutation_id r = cand_mutation_id c \<and> rc_payload_hash r = cand_payload_hash c
     \<and> rc_server_plan_hash r = cand_server_plan_hash c
     \<and> rc_expected_state_version r = cand_expected_state_version c
     \<and> rc_observed_tick r = cand_observed_tick c \<and> rc_kind r = cand_kind c"

section \<open>The arbiter\<close>

datatype submit_rejection =
    InvalidCandidate terminal_validation_error
  | BindingMismatch
  | IdempotencyConflict
  | TerminalIdConflict
  | AggregateVersionConflict u64
  | EarlierTickUnresolved u64
  | StaleTick u64
  | TickAlreadySealed u64
  | CandidateCapacityExhausted nat
  | TerminalAlreadyCommitted stored_terminal_receipt

datatype submit_result =
    Accepted u64 nat terminal_candidate
  | ReplayedPending terminal_candidate
  | ReplayedPrepared prepared_terminal
  | ReplayedCommitted stored_terminal_receipt
  | Rejected submit_rejection

datatype commit_result = CommittedNow stored_terminal_receipt | Replayed stored_terminal_receipt

datatype commit_error =
    InvalidReceipt terminal_validation_error
  | NotPrepared
  | ReceiptDoesNotMatchPreparedWinner
  | ImmutableOutcome

datatype arbiter_state =
    Open
  | Pending u64 "terminal_candidate list"
  | Prepared prepared_terminal
  | Committed stored_terminal_receipt

record terminal_arbiter =
  arb_binding :: terminal_binding
  arb_state :: arbiter_state

definition new_arbiter :: "terminal_binding \<Rightarrow> terminal_arbiter" where
  "new_arbiter binding = \<lparr>arb_binding = binding, arb_state = Open\<rparr>"

definition from_stored_receipt ::
  "stored_terminal_receipt \<Rightarrow> terminal_validation_error + terminal_arbiter" where
  "from_stored_receipt r =
     and_then (validate_receipt r) (\<lambda>_. Inr \<lparr>arb_binding = rc_binding r, arb_state = Committed r\<rparr>)"

definition non_terminal_admission_of :: "terminal_arbiter \<Rightarrow> non_terminal_admission" where
  "non_terminal_admission_of a =
     (case arb_state a of
        Open \<Rightarrow> Allowed
      | Pending t cs \<Rightarrow> BlockedByUnresolvedTerminal
      | Prepared p \<Rightarrow> BlockedByUnresolvedTerminal
      | Committed r \<Rightarrow> BlockedByCommittedTerminal)"

definition committed_receipt :: "terminal_arbiter \<Rightarrow> stored_terminal_receipt option" where
  "committed_receipt a = (case arb_state a of Committed r \<Rightarrow> Some r | _ \<Rightarrow> None)"

definition prepared_terminal_of :: "terminal_arbiter \<Rightarrow> prepared_terminal option" where
  "prepared_terminal_of a = (case arb_state a of Prepared p \<Rightarrow> Some p | _ \<Rightarrow> None)"

text \<open>The outer option of the mutating operations is None for a panic of the source.\<close>

definition replace_for_lethal_overflow ::
  "terminal_candidate list \<Rightarrow> terminal_candidate
     \<Rightarrow> (submit_rejection + terminal_candidate list) option" where
  "replace_for_lethal_overflow candidates candidate =
     (let has_lethal = list_ex (\<lambda>e. cand_kind e = LethalDeath) candidates in
      if cand_kind candidate \<noteq> LethalDeath \<or> has_lethal
      then Some (Inl (CandidateCapacityExhausted MAX_TERMINAL_CANDIDATES_PER_TICK))
      else case max_by (\<lambda>(_, l) (_, r). canonical_cmp l r) (enumerate 0 candidates) of
             None \<Rightarrow> None
           | Some (worst_index, _) \<Rightarrow> Some (Inr (candidates[worst_index := candidate])))"

definition submit_pending ::
  "u64 \<Rightarrow> terminal_candidate list \<Rightarrow> terminal_candidate
     \<Rightarrow> (submit_result \<times> terminal_candidate list) option" where
  "submit_pending tick candidates candidate =
     (case find (\<lambda>e. cand_mutation_id e = cand_mutation_id candidate) candidates of
        Some existing \<Rightarrow>
          Some (if existing = candidate then ReplayedPending existing
                else Rejected IdempotencyConflict, candidates)
      | None \<Rightarrow>
     if list_ex (\<lambda>e. cand_terminal_id e = cand_terminal_id candidate) candidates
     then Some (Rejected TerminalIdConflict, candidates)
     else if cand_observed_tick candidate \<noteq> tick
     then Some (Rejected (if cand_observed_tick candidate < tick then StaleTick tick
                          else EarlierTickUnresolved tick), candidates)
     else case candidates of
        [] \<Rightarrow> None
      | first # _ \<Rightarrow>
     let pending_version = cand_expected_state_version first in
     if cand_expected_state_version candidate \<noteq> pending_version
     then Some (Rejected (AggregateVersionConflict pending_version), candidates)
     else case (if length candidates = MAX_TERMINAL_CANDIDATES_PER_TICK
                then replace_for_lethal_overflow candidates candidate
                else Some (Inr (candidates @ [candidate]))) of
        None \<Rightarrow> None
      | Some (Inl rejection) \<Rightarrow> Some (Rejected rejection, candidates)
      | Some (Inr candidates') \<Rightarrow>
          (case min_by canonical_cmp candidates' of
             None \<Rightarrow> None
           | Some leader \<Rightarrow> Some (Accepted tick (length candidates') leader, candidates')))"

definition submit_prepared :: "prepared_terminal \<Rightarrow> terminal_candidate \<Rightarrow> submit_result" where
  "submit_prepared prepared candidate =
     (if prep_winner prepared = candidate then ReplayedPrepared prepared
      else Rejected (if cand_mutation_id (prep_winner prepared) = cand_mutation_id candidate
                     then IdempotencyConflict
                     else if cand_terminal_id (prep_winner prepared) = cand_terminal_id candidate
                     then TerminalIdConflict
                     else TickAlreadySealed (prep_sealed_through_tick prepared)))"

definition submit_committed :: "stored_terminal_receipt \<Rightarrow> terminal_candidate \<Rightarrow> submit_result" where
  "submit_committed receipt candidate =
     (if rc_mutation_id receipt = cand_mutation_id candidate
      then if matches_candidate receipt candidate then ReplayedCommitted receipt
           else Rejected IdempotencyConflict
      else if rc_terminal_id receipt = cand_terminal_id candidate then Rejected TerminalIdConflict
      else Rejected (TerminalAlreadyCommitted receipt))"

definition submit ::
  "terminal_arbiter \<Rightarrow> terminal_candidate \<Rightarrow> (submit_result \<times> terminal_arbiter) option" where
  "submit a candidate =
     (case validate_candidate candidate of
        Inl e \<Rightarrow> Some (Rejected (InvalidCandidate e), a)
      | Inr _ \<Rightarrow>
     if cand_binding candidate \<noteq> arb_binding a then Some (Rejected BindingMismatch, a)
     else case arb_state a of
        Open \<Rightarrow> Some (Accepted (cand_observed_tick candidate) 1 candidate,
                  a\<lparr>arb_state := Pending (cand_observed_tick candidate) [candidate]\<rparr>)
      | Pending tick candidates \<Rightarrow>
          map_option (\<lambda>(r, candidates'). (r, a\<lparr>arb_state := Pending tick candidates'\<rparr>))
            (submit_pending tick candidates candidate)
      | Prepared prepared \<Rightarrow> Some (submit_prepared prepared candidate, a)
      | Committed receipt \<Rightarrow> Some (submit_committed receipt candidate, a))"

definition prepare ::
  "terminal_arbiter \<Rightarrow> u64 \<Rightarrow> ((prepare_error + prepared_terminal) \<times> terminal_arbiter) option" where
  "prepare a sealed_through_tick =
     (case arb_state a of
        Pending tick candidates \<Rightarrow>
          if tick > sealed_through_tick then Some (Inl (TickNotSealed tick), a)
          else (case min_by canonical_cmp candidates of
                  None \<Rightarrow> None
                | Some winner \<Rightarrow>
                    let prepared = \<lparr>prep_winner = winner, prep_candidate_count = length candidates,
                                    prep_sealed_through_tick = sealed_through_tick\<rparr>
                    in Some (Inr prepared, a\<lparr>arb_state := Prepared prepared\<rparr>))
      | Prepared prepared \<Rightarrow> Some (Inr prepared, a)
      | _ \<Rightarrow> Some (Inl NothingPending, a))"

definition record_commit ::
  "terminal_arbiter \<Rightarrow> stored_terminal_receipt \<Rightarrow> (commit_error + commit_result) \<times> terminal_arbiter" where
  "record_commit a receipt =
     (case validate_receipt receipt of
        Inl e \<Rightarrow> (Inl (InvalidReceipt e), a)
      | Inr _ \<Rightarrow>
     case arb_state a of
        Prepared prepared \<Rightarrow>
          if \<not> matches_candidate receipt (prep_winner prepared)
          then (Inl ReceiptDoesNotMatchPreparedWinner, a)
          else (Inr (CommittedNow receipt), a\<lparr>arb_state := Committed receipt\<rparr>)
      | Committed existing \<Rightarrow>
          if existing = receipt then (Inr (Replayed existing), a) else (Inl ImmutableOutcome, a)
      | _ \<Rightarrow> (Inl NotPrepared, a))"

end
