(* ===== verification/Arbiter_Properties.thy ===== *)
theory Arbiter_Properties
  imports Terminal_Arbiter
begin

text \<open>
  What the terminal arbiter guarantees: its well-formedness invariant and the absence of panics, the
  immutability of a committed outcome, the canonical choice of the winner with the precedence of
  lethal death, idempotent resubmission, and the storage round trip of receipts.
\<close>

section \<open>The canonical order\<close>

definition canonical_key :: "terminal_candidate \<Rightarrow> u8 \<times> bytes \<times> bytes \<times> bytes \<times> bytes" where
  "canonical_key c = (priority (cand_kind c), cand_terminal_id c, cand_mutation_id c,
     cand_payload_hash c, cand_server_plan_hash c)"

lemma cmp_simps [simp]:
  "cmp a b = Less \<longleftrightarrow> a < b" "cmp a b = Equal \<longleftrightarrow> a = b" "cmp a b = Greater \<longleftrightarrow> b < a"
  by (auto simp: cmp_def)

lemma then_with_simps [simp]:
  "then_with o1 o2 = Less \<longleftrightarrow> o1 = Less \<or> o1 = Equal \<and> o2 = Less"
  "then_with o1 o2 = Equal \<longleftrightarrow> o1 = Equal \<and> o2 = Equal"
  "then_with o1 o2 = Greater \<longleftrightarrow> o1 = Greater \<or> o1 = Equal \<and> o2 = Greater"
  by (cases o1; auto)+

lemma canonical_cmp_key: "canonical_cmp a b = cmp (canonical_key a) (canonical_key b)"
proof -
  have "canonical_cmp a b = Less \<longleftrightarrow> canonical_key a < canonical_key b"
    "canonical_cmp a b = Equal \<longleftrightarrow> canonical_key a = canonical_key b"
    by (auto simp: canonical_cmp_def canonical_key_def less_prod_def')
  then show ?thesis
    by (cases "canonical_cmp a b") (auto simp: cmp_def)
qed

text \<open>
  What the arbiter relies on of \<open>min_by\<close> and \<open>max_by\<close>: for a comparison that reads off a key,
  they select an element with an extremal key, and only an empty list has none.
\<close>

locale keyed_comparison =
  fixes compare :: "'a \<Rightarrow> 'a \<Rightarrow> ordering" and key :: "'a \<Rightarrow> 'k::linorder"
  assumes compare_key: "compare a b = cmp (key a) (key b)"
begin

lemma fold_min:
  "fold (\<lambda>y best. if compare best y = Greater then y else best) xs x = b \<Longrightarrow>
     b \<in> set (x # xs) \<and> (\<forall>y \<in> set (x # xs). key b \<le> key y)"
proof (induction xs arbitrary: x)
  case (Cons y xs)
  then show ?case
    by (cases "key y < key x") (fastforce simp: compare_key)+
qed simp

lemma fold_max:
  "fold (\<lambda>y best. if compare best y = Greater then best else y) xs x = b \<Longrightarrow>
     b \<in> set (x # xs) \<and> (\<forall>y \<in> set (x # xs). key y \<le> key b)"
proof (induction xs arbitrary: x)
  case (Cons y xs)
  then show ?case
    by (cases "key y < key x") (fastforce simp: compare_key)+
qed simp

lemma min_by_Some: "min_by compare xs = Some b \<Longrightarrow> b \<in> set xs \<and> (\<forall>y \<in> set xs. key b \<le> key y)"
  using fold_min by (cases xs) (auto simp del: list.set)

lemma max_by_Some: "max_by compare xs = Some b \<Longrightarrow> b \<in> set xs \<and> (\<forall>y \<in> set xs. key y \<le> key b)"
  using fold_max by (cases xs) (auto simp del: list.set)

lemma min_by_None: "min_by compare xs = None \<longleftrightarrow> xs = []"
  and max_by_None: "max_by compare xs = None \<longleftrightarrow> xs = []"
  by (cases xs; simp)+

lemma min_by_set_cong:
  assumes "set xs = set ys" and "inj_on key (set xs)"
  shows "min_by compare xs = min_by compare ys"
proof (cases "min_by compare xs")
  case None
  with assms(1) show ?thesis by (simp add: min_by_None)
next
  case (Some a)
  then obtain b where b: "min_by compare ys = Some b"
    using assms(1) min_by_None [of xs] min_by_None [of ys] by (cases "min_by compare ys") auto
  from min_by_Some [OF Some] min_by_Some [OF b] assms have "key a = key b" "a \<in> set xs" "b \<in> set xs"
    by (auto intro: antisym)
  with assms(2) Some b show ?thesis
    by (auto dest: inj_onD)
qed

end

interpretation canonical: keyed_comparison canonical_cmp canonical_key
  by unfold_locales (rule canonical_cmp_key)

interpretation indexed: keyed_comparison
  "\<lambda>(_ :: nat, l) (_ :: nat, r). canonical_cmp l r" "\<lambda>(_, c). canonical_key c"
  by unfold_locales (auto simp: canonical_cmp_key)

section \<open>The invariant\<close>

definition candidate_ok :: "terminal_binding \<Rightarrow> u64 \<Rightarrow> u64 \<Rightarrow> terminal_candidate \<Rightarrow> bool" where
  "candidate_ok binding tick version c \<longleftrightarrow>
     validate_candidate c = Inr () \<and> cand_binding c = binding \<and> cand_observed_tick c = tick
     \<and> cand_expected_state_version c = version"

definition candidates_ok :: "terminal_binding \<Rightarrow> u64 \<Rightarrow> terminal_candidate list \<Rightarrow> bool" where
  "candidates_ok binding tick cs \<longleftrightarrow>
     cs \<noteq> [] \<and> length cs \<le> MAX_TERMINAL_CANDIDATES_PER_TICK
     \<and> distinct (map cand_mutation_id cs) \<and> distinct (map cand_terminal_id cs)
     \<and> (\<exists>version. \<forall>c \<in> set cs. candidate_ok binding tick version c)"

definition arbiter_inv :: "terminal_arbiter \<Rightarrow> bool" where
  "arbiter_inv a \<longleftrightarrow>
     (case arb_state a of
        Open \<Rightarrow> True
      | Pending tick cs \<Rightarrow> candidates_ok (arb_binding a) tick cs
      | Prepared p \<Rightarrow> validate_candidate (prep_winner p) = Inr ()
          \<and> cand_binding (prep_winner p) = arb_binding a
          \<and> cand_observed_tick (prep_winner p) \<le> prep_sealed_through_tick p
          \<and> 1 \<le> prep_candidate_count p \<and> prep_candidate_count p \<le> MAX_TERMINAL_CANDIDATES_PER_TICK
      | Committed r \<Rightarrow> validate_receipt r = Inr () \<and> rc_binding r = arb_binding a)"

lemma replace_for_lethal_overflow_Inr:
  assumes "replace_for_lethal_overflow cs c = Some (Inr cs')"
  shows "cand_kind c = LethalDeath \<and> (\<forall>e \<in> set cs. cand_kind e \<noteq> LethalDeath)
    \<and> (\<exists>i < length cs. cs' = cs[i := c])"
proof -
  from assms obtain i e where "max_by (\<lambda>(_, l) (_, r). canonical_cmp l r) (enumerate 0 cs) = Some (i, e)"
    and r: "cand_kind c = LethalDeath" "\<forall>e \<in> set cs. cand_kind e \<noteq> LethalDeath" "cs' = cs[i := c]"
    by (auto simp: replace_for_lethal_overflow_def Let_def list_ex_iff split: if_splits option.splits)
  with indexed.max_by_Some have "(i, e) \<in> set (enumerate 0 cs)"
    by blast
  then have "i < length cs"
    by (simp add: in_set_enumerate_eq)
  with r show ?thesis by blast
qed

lemma replace_for_lethal_overflow_total:
  "cs \<noteq> [] \<Longrightarrow> \<exists>r. replace_for_lethal_overflow cs c = Some r"
proof -
  assume "cs \<noteq> []"
  then have "enumerate 0 cs \<noteq> []" by (cases cs) auto
  then obtain ie where "max_by (\<lambda>(_, l) (_, r). canonical_cmp l r) (enumerate 0 cs) = Some ie"
    using indexed.max_by_None [of "enumerate 0 cs"]
    by (cases "max_by (\<lambda>(_, l) (_, r). canonical_cmp l r) (enumerate 0 cs)") auto
  then show ?thesis
    by (cases ie) (simp add: replace_for_lethal_overflow_def Let_def)
qed

text \<open>The three ways a pending submission ends: replay, rejection, or a candidate taken in.\<close>

lemma submit_pending_cases:
  assumes "submit_pending tick cs c = Some (r, cs')"
  obtains (unchanged) "cs' = cs" "\<forall>t n l. r \<noteq> Accepted t n l"
      "r = ReplayedPending c \<or> (\<exists>x. r = Rejected x)"
  | (taken) leader where "r = Accepted tick (length cs') leader" "min_by canonical_cmp cs' = Some leader"
      "cs \<noteq> []" "cand_mutation_id c \<notin> cand_mutation_id ` set cs"
      "cand_terminal_id c \<notin> cand_terminal_id ` set cs" "cand_observed_tick c = tick"
      "cand_expected_state_version c = cand_expected_state_version (hd cs)"
      "(length cs \<noteq> MAX_TERMINAL_CANDIDATES_PER_TICK \<and> cs' = cs @ [c])
        \<or> (length cs = MAX_TERMINAL_CANDIDATES_PER_TICK \<and> replace_for_lethal_overflow cs c = Some (Inr cs'))"
proof (cases "find (\<lambda>e. cand_mutation_id e = cand_mutation_id c) cs")
  case (Some e)
  with assms have "cs' = cs" "r = (if e = c then ReplayedPending e else Rejected IdempotencyConflict)"
    by (auto simp: submit_pending_def)
  then show thesis
    by (intro unchanged) (auto split: if_splits)
next
  case None
  then have m: "cand_mutation_id c \<notin> cand_mutation_id ` set cs"
    by (auto simp: find_None_iff)
  show thesis
  proof (cases "list_ex (\<lambda>e. cand_terminal_id e = cand_terminal_id c) cs \<or> cand_observed_tick c \<noteq> tick")
    case True
    with assms None show thesis
      by (intro unchanged) (auto simp: submit_pending_def split: if_splits)
  next
    case False
    with assms None obtain first rest where cs: "cs = first # rest"
      by (auto simp: submit_pending_def split: list.splits)
    let ?next = "if length cs = MAX_TERMINAL_CANDIDATES_PER_TICK then replace_for_lethal_overflow cs c
      else Some (Inr (cs @ [c]))"
    have r: "(if cand_expected_state_version c \<noteq> cand_expected_state_version first
         then Some (Rejected (AggregateVersionConflict (cand_expected_state_version first)), cs)
         else case ?next of None \<Rightarrow> None
           | Some (Inl rejection) \<Rightarrow> Some (Rejected rejection, cs)
           | Some (Inr candidates') \<Rightarrow>
               (case min_by canonical_cmp candidates' of None \<Rightarrow> None
                | Some leader \<Rightarrow> Some (Accepted tick (length candidates') leader, candidates')))
       = Some (r, cs')"
      using assms None False unfolding cs by (simp add: submit_pending_def Let_def)
    show thesis
    proof (cases "\<exists>taken. cand_expected_state_version c = cand_expected_state_version first
        \<and> ?next = Some (Inr taken)")
      case True
      then obtain taken' where t: "cand_expected_state_version c = cand_expected_state_version first"
        "?next = Some (Inr taken')" by blast
      with r obtain leader where "min_by canonical_cmp taken' = Some leader" "cs' = taken'"
        "r = Accepted tick (length cs') leader"
        by (auto split: option.splits)
      with t m False cs show thesis
        by (intro taken [of leader]) (auto simp: list_ex_iff split: if_splits)
    next
      case False
      with r show thesis
        by (intro unchanged) (auto split: if_splits option.splits sum.splits)
    qed
  qed
qed

lemma submit_pending_total:
  assumes "cs \<noteq> []"
  shows "\<exists>r cs'. submit_pending tick cs c = Some (r, cs')"
proof -
  obtain first rest where cs: "cs = first # rest"
    using assms by (cases cs) auto
  obtain x where x: "replace_for_lethal_overflow cs c = Some x"
    using replace_for_lethal_overflow_total [OF assms] by blast
  have "\<exists>leader. min_by canonical_cmp taken = Some leader" if "x = Inr taken" for taken
    using replace_for_lethal_overflow_Inr [of cs c taken] x that assms canonical.min_by_None [of taken]
    by (cases "min_by canonical_cmp taken") (auto dest: sym)
  with x show ?thesis
    unfolding cs submit_pending_def Let_def
    by (cases x) (auto split: option.splits)
qed

lemma candidate_ok_like_head:
  assumes "\<forall>e \<in> set cs. candidate_ok binding tick version e" and "cs \<noteq> []"
    and "validate_candidate c = Inr ()" "cand_binding c = binding" "cand_observed_tick c = tick"
    and "cand_expected_state_version c = cand_expected_state_version (hd cs)"
  shows "candidate_ok binding tick version c"
  using assms(1) hd_in_set [OF assms(2)] assms(3-6) by (simp add: candidate_ok_def)

lemma distinct_map_update:
  "distinct (map f xs) \<Longrightarrow> i < length xs \<Longrightarrow> f c \<notin> f ` set xs \<Longrightarrow> distinct (map f (xs[i := c]))"
  by (auto simp: map_update intro!: distinct_list_update)

lemma submit_pending_ok:
  assumes "submit_pending tick cs c = Some (r, cs')" and "candidates_ok binding tick cs"
    and "validate_candidate c = Inr ()" "cand_binding c = binding"
  shows "candidates_ok binding tick cs'"
  using assms(1)
proof (cases rule: submit_pending_cases)
  case unchanged
  with assms(2) show ?thesis by simp
next
  case (taken leader)
  from assms(2) obtain version where v: "\<forall>e \<in> set cs. candidate_ok binding tick version e"
    by (auto simp: candidates_ok_def)
  have c: "candidate_ok binding tick version c"
    using candidate_ok_like_head [OF v taken(3)] assms(3,4) taken(6,7) by blast
  have sets: "cs \<noteq> []" "length cs \<le> MAX_TERMINAL_CANDIDATES_PER_TICK"
    "distinct (map cand_mutation_id cs)" "distinct (map cand_terminal_id cs)"
    using assms(2) by (auto simp: candidates_ok_def)
  from taken(8) show ?thesis
  proof
    assume "length cs \<noteq> MAX_TERMINAL_CANDIDATES_PER_TICK \<and> cs' = cs @ [c]"
    with sets v c taken(4,5) show ?thesis
      unfolding candidates_ok_def by (intro conjI exI [of _ version]) auto
  next
    assume "length cs = MAX_TERMINAL_CANDIDATES_PER_TICK \<and> replace_for_lethal_overflow cs c = Some (Inr cs')"
    with replace_for_lethal_overflow_Inr obtain i where i: "i < length cs" "cs' = cs[i := c]"
      by blast
    have "\<forall>e \<in> set cs'. candidate_ok binding tick version e"
      using v c i(2) set_update_subset_insert [of cs i c] by auto
    with sets i taken(4,5) show ?thesis
      unfolding candidates_ok_def by (auto simp: distinct_map_update)
  qed
qed

section \<open>The state machine\<close>

datatype arbiter_call =
    CallSubmit terminal_candidate
  | CallPrepare u64
  | CallRecordCommit stored_terminal_receipt

inductive arbiter_step :: "terminal_arbiter \<Rightarrow> arbiter_call \<Rightarrow> terminal_arbiter \<Rightarrow> bool" where
  step_submit: "submit a c = Some (r, a') \<Longrightarrow> arbiter_step a (CallSubmit c) a'"
| step_prepare: "prepare a t = Some (r, a') \<Longrightarrow> arbiter_step a (CallPrepare t) a'"
| step_commit: "record_commit a rc = (r, a') \<Longrightarrow> arbiter_step a (CallRecordCommit rc) a'"

inductive_cases arbiter_stepE: "arbiter_step a call a'"

definition arbiter_initial :: "terminal_arbiter \<Rightarrow> bool" where
  "arbiter_initial a \<longleftrightarrow> arb_state a = Open \<or> (\<exists>r. from_stored_receipt r = Inr a)"

lemma submit_inv:
  assumes "submit a c = Some (r, a')" and "arbiter_inv a"
  shows "arbiter_inv a'"
proof (cases "validate_candidate c")
  case (Inr u)
  with assms show ?thesis
    by (auto simp: submit_def arbiter_inv_def candidates_ok_def [of _ _ "[c]"] candidate_ok_def MAX_TERMINAL_CANDIDATES_PER_TICK_def
        split: if_splits arbiter_state.splits dest: submit_pending_ok)
qed (use assms in \<open>auto simp: submit_def\<close>)

lemma prepare_inv:
  assumes "prepare a t = Some (r, a')" and "arbiter_inv a"
  shows "arbiter_inv a'"
proof (cases "arb_state a")
  case (Pending tick cs)
  show ?thesis
  proof (cases "tick > t")
    case False
    with assms Pending obtain winner where w: "min_by canonical_cmp cs = Some winner"
      "a' = a\<lparr>arb_state := Prepared \<lparr>prep_winner = winner, prep_candidate_count = length cs,
         prep_sealed_through_tick = t\<rparr>\<rparr>"
      by (auto simp: prepare_def Let_def split: option.splits)
    have "winner \<in> set cs"
      using canonical.min_by_Some [OF w(1)] by blast
    with w(2) assms(2) Pending False show ?thesis
      by (cases cs) (auto simp: arbiter_inv_def candidates_ok_def candidate_ok_def)
  qed (use assms Pending in \<open>simp add: prepare_def\<close>)
qed (use assms in \<open>auto simp: prepare_def\<close>)

lemma record_commit_inv:
  assumes "record_commit a rc = (r, a')" and "arbiter_inv a"
  shows "arbiter_inv a'"
proof (cases "validate_receipt rc")
  case (Inr u)
  with assms show ?thesis
    by (cases "arb_state a")
      (auto simp: record_commit_def arbiter_inv_def matches_candidate_def split: if_splits)
qed (use assms in \<open>auto simp: record_commit_def\<close>)

fun phase :: "arbiter_state \<Rightarrow> nat" where
  "phase Open = 0"
| "phase (Pending t cs) = 1"
| "phase (Prepared p) = 2"
| "phase (Committed r) = 3"

lemma arbiter_step_phase: "arbiter_step a call a' \<Longrightarrow> phase (arb_state a) \<le> phase (arb_state a')"
  by (erule arbiter_stepE)
    (auto simp: submit_def prepare_def record_commit_def Let_def
      split: if_splits arbiter_state.splits sum.splits option.splits)

interpretation arbiter: monotone_system arbiter_initial arbiter_step arbiter_inv "\<lambda>a. phase (arb_state a)"
proof
  show "arbiter_inv a" if "arbiter_initial a" for a
    using that by (auto simp: arbiter_initial_def arbiter_inv_def from_stored_receipt_def)
  show "arbiter_inv a'" if "arbiter_inv a" "arbiter_step a call a'" for a call a'
    using that(2,1) by (cases rule: arbiter_step.cases) (auto intro: submit_inv prepare_inv record_commit_inv)
qed (rule arbiter_step_phase)

lemma submit_total: "arbiter_inv a \<Longrightarrow> \<exists>r. submit a c = Some r"
  using submit_pending_total
  by (fastforce simp: submit_def arbiter_inv_def candidates_ok_def split: arbiter_state.splits sum.splits)

lemma prepare_total: "arbiter_inv a \<Longrightarrow> \<exists>r. prepare a t = Some r"
  by (cases "arb_state a")
    (auto simp: prepare_def arbiter_inv_def candidates_ok_def Let_def canonical.min_by_None split: option.splits)

text \<open>
  C5. In every reachable state of the arbiter the pending candidates are between one and 32, valid, of
  one binding, tick and aggregate version, with pairwise different mutation and terminal
  identifiers; a prepared winner and a committed receipt are valid and belong to the arbiter; and
  neither \<open>submit\<close> nor \<open>prepare\<close> can panic.
\<close>

theorem arbiter_reachable_ok:
  assumes "reachable arbiter_initial arbiter_step a"
  shows "arbiter_inv a \<and> (\<exists>r. submit a c = Some r) \<and> (\<exists>r. prepare a t = Some r)"
  using arbiter.reachable_inv [OF assms] submit_total prepare_total by blast

lemma committed_step:
  "arbiter_step a call a' \<Longrightarrow> committed_receipt a = Some r \<Longrightarrow> committed_receipt a' = Some r"
  by (erule arbiter_stepE)
    (auto simp: committed_receipt_def submit_def prepare_def record_commit_def
      split: if_splits arbiter_state.splits sum.splits)

lemma committed_trace:
  "trace arbiter_step a ts \<Longrightarrow> committed_receipt a = Some r \<Longrightarrow> (call, a') \<in> set ts \<Longrightarrow>
     committed_receipt a' = Some r"
proof (induction ts arbitrary: a)
  case (Cons t ts)
  then show ?case
    by (cases t) (auto dest: committed_step)
qed simp

lemma step_binding: "arbiter_step a call a' \<Longrightarrow> arb_binding a' = arb_binding a"
  by (erule arbiter_stepE)
    (auto simp: submit_def prepare_def record_commit_def Let_def
      split: if_splits arbiter_state.splits sum.splits option.splits)

text \<open>
  C4. A committed outcome is immutable: whatever is submitted, prepared or committed afterwards, in any
  order, every later state still has the same committed receipt, and ordinary mutations of the
  character stay blocked.
\<close>

theorem committed_outcome_immutable:
  assumes "trace arbiter_step a ts" and "committed_receipt a = Some r" and "(call, a') \<in> set ts"
  shows "committed_receipt a' = Some r \<and> non_terminal_admission_of a' = BlockedByCommittedTerminal"
proof -
  have "committed_receipt a' = Some r"
    by (rule committed_trace [OF assms])
  then show ?thesis
    by (auto simp: committed_receipt_def non_terminal_admission_of_def split: arbiter_state.splits)
qed

section \<open>The winner\<close>

lemma canonical_key_inj:
  assumes "candidates_ok binding tick cs"
  shows "inj_on canonical_key (set cs)"
proof (rule inj_onI)
  fix c d assume "c \<in> set cs" "d \<in> set cs" "canonical_key c = canonical_key d"
  moreover have "inj_on cand_terminal_id (set cs)"
    using assms by (simp add: candidates_ok_def distinct_map)
  ultimately show "c = d"
    by (auto simp: canonical_key_def dest: inj_onD)
qed

lemma prepare_pending:
  assumes "arb_state a = Pending tick cs" and "prepare a t = Some (Inr p, a')"
  shows "min_by canonical_cmp cs = Some (prep_winner p)" "arb_state a' = Prepared p"
    "prep_candidate_count p = length cs" "prep_sealed_through_tick p = t" "tick \<le> t"
  using assms by (auto simp: prepare_def Let_def split: if_splits option.splits)

text \<open>
  Sealing a tick chooses the canonical winner: it is one of the pending candidates, no candidate
  precedes it in the order of kind, terminal, mutation, payload and plan identifiers, and the
  choice depends only on which candidates are pending, not on the order they arrived in.
\<close>

lemma prepare_canonical_winner:
  assumes inv: "arbiter_inv a" and pending: "arb_state a = Pending tick cs"
    and prepared: "prepare a t = Some (Inr p, a')"
  shows "prep_winner p \<in> set cs \<and> (\<forall>c \<in> set cs. canonical_key (prep_winner p) \<le> canonical_key c)
    \<and> (\<forall>cs'. set cs' = set cs \<longrightarrow> min_by canonical_cmp cs' = Some (prep_winner p))"
proof -
  note w = prepare_pending(1) [OF pending prepared]
  have "candidates_ok (arb_binding a) tick cs"
    using inv pending by (simp add: arbiter_inv_def)
  then have inj: "inj_on canonical_key (set cs)"
    by (rule canonical_key_inj)
  have "min_by canonical_cmp cs' = Some (prep_winner p)" if "set cs' = set cs" for cs'
    using canonical.min_by_set_cong [OF that [symmetric] inj] w by simp
  with canonical.min_by_Some [OF w] show ?thesis by blast
qed

fun run_submits ::
  "terminal_arbiter \<Rightarrow> terminal_candidate list \<Rightarrow> (submit_result list \<times> terminal_arbiter) option" where
  "run_submits a [] = Some ([], a)"
| "run_submits a (c # cs) =
     (case submit a c of
        None \<Rightarrow> None
      | Some (r, a') \<Rightarrow> map_option (\<lambda>(rs, a''). (r # rs, a'')) (run_submits a' cs))"

definition lethal_pending :: "terminal_arbiter \<Rightarrow> bool" where
  "lethal_pending a \<longleftrightarrow>
     (case arb_state a of Pending t cs \<Rightarrow> \<exists>c \<in> set cs. cand_kind c = LethalDeath | _ \<Rightarrow> False)"

lemma submit_pending_accepts:
  assumes "submit_pending tick cs c = Some (Accepted t n l, cs')"
  shows "c \<in> set cs'"
  using assms
proof (cases rule: submit_pending_cases)
  case (taken leader)
  then show ?thesis
    by (auto dest!: replace_for_lethal_overflow_Inr simp: set_update_memI)
qed auto

lemma submit_pending_lethal:
  assumes "submit_pending tick cs c = Some (r, cs')" and "\<exists>e \<in> set cs. cand_kind e = LethalDeath"
  shows "\<exists>e \<in> set cs'. cand_kind e = LethalDeath"
  using assms(1)
proof (cases rule: submit_pending_cases)
  case (taken leader)
  with assms(2) show ?thesis
    by (auto dest!: replace_for_lethal_overflow_Inr)
qed (use assms(2) in auto)

lemma submit_lethal_kept:
  assumes "submit a c = Some (r, a')" and "lethal_pending a"
  shows "lethal_pending a'"
proof (cases "arb_state a")
  case (Pending tick cs)
  with assms show ?thesis
    by (auto simp: lethal_pending_def submit_def split: sum.splits if_splits dest!: submit_pending_lethal)
qed (use assms in \<open>auto simp: lethal_pending_def\<close>)

lemma submit_lethal_accepted:
  assumes "submit a c = Some (Accepted t n l, a')" and "cand_kind c = LethalDeath"
  shows "lethal_pending a'"
proof (cases "arb_state a")
  case (Pending tick cs)
  with assms show ?thesis
    by (auto simp: lethal_pending_def submit_def split: sum.splits if_splits dest!: submit_pending_accepts)
qed (use assms in \<open>auto simp: lethal_pending_def submit_def submit_prepared_def submit_committed_def
      split: sum.splits if_splits\<close>)

lemma run_submits_lethal_kept:
  "run_submits a cs = Some (rs, a') \<Longrightarrow> lethal_pending a \<Longrightarrow> lethal_pending a'"
  by (induction cs arbitrary: a rs) (auto split: option.splits dest: submit_lethal_kept)

lemma run_submits_lethal:
  assumes "run_submits a cs = Some (rs, a')" and "(c, Accepted t n l) \<in> set (zip cs rs)"
    and "cand_kind c = LethalDeath"
  shows "lethal_pending a'"
  using assms(1,2)
proof (induction cs arbitrary: a rs)
  case (Cons d cs)
  then obtain r a1 rs' where step: "submit a d = Some (r, a1)" "run_submits a1 cs = Some (rs', a')"
    "rs = r # rs'"
    by (auto split: option.splits)
  show ?case
  proof (cases "(c, Accepted t n l) = (d, r)")
    case True
    with step assms(3) show ?thesis
      by (auto intro: run_submits_lethal_kept submit_lethal_accepted)
  next
    case False
    with Cons.prems step Cons.IH show ?thesis by auto
  qed
qed simp

lemma priority_zero: "priority k \<le> priority LethalDeath \<Longrightarrow> k = LethalDeath"
  by (cases k) (auto simp: word_le_nat_alt)

text \<open>
  C3. Lethal death wins the race: when any of the submissions of a tick was an accepted lethal
  candidate, the winner prepared for that tick is a lethal one, whatever else was submitted before
  or after it, even beyond the 32 candidates the queue holds.
\<close>

theorem lethal_death_wins:
  assumes run: "run_submits a cs = Some (rs, a')"
    and accepted: "(c, Accepted t n l) \<in> set (zip cs rs)" "cand_kind c = LethalDeath"
    and prepared: "prepare a' sealed = Some (Inr p, a'')"
  shows "cand_kind (prep_winner p) = LethalDeath"
proof -
  from run_submits_lethal [OF run accepted] obtain tick cands e where
    state: "arb_state a' = Pending tick cands" and e: "e \<in> set cands" "cand_kind e = LethalDeath"
    by (auto simp: lethal_pending_def split: arbiter_state.splits)
  from canonical.min_by_Some [OF prepare_pending(1) [OF state prepared]] e(1)
  have "canonical_key (prep_winner p) \<le> canonical_key e"
    by blast
  then have "priority (cand_kind (prep_winner p)) \<le> priority (cand_kind e)"
    by (auto simp: canonical_key_def less_eq_prod_def less_imp_le)
  with e(2) show ?thesis
    using priority_zero by metis
qed

section \<open>Replays and storage\<close>

lemma find_distinct_key:
  "distinct (map f xs) \<Longrightarrow> c \<in> set xs \<Longrightarrow> find (\<lambda>e. f e = f c) xs = Some c"
  by (induction xs) (auto simp: image_iff)

lemma submit_pending_replay:
  assumes "candidates_ok binding tick cs" and "c \<in> set cs"
  shows "submit_pending tick cs c = Some (ReplayedPending c, cs)"
  using find_distinct_key [of cand_mutation_id cs c] assms
  by (simp add: submit_pending_def candidates_ok_def)

lemma submit_accepted_pending:
  assumes "submit a c = Some (Accepted t n l, a')"
  shows "validate_candidate c = Inr () \<and> cand_binding c = arb_binding a' \<and>
    (\<exists>tick cs. arb_state a' = Pending tick cs \<and> c \<in> set cs)"
  using assms
  by (auto simp: submit_def submit_prepared_def submit_committed_def
      split: sum.splits if_splits arbiter_state.splits dest: submit_pending_accepts)

text \<open>
  Resubmitting an accepted candidate is harmless in every phase: while it is pending, after it was
  prepared as the winner, and after its receipt was committed, the same candidate is answered by
  the matching replay and the arbiter does not change.
\<close>

lemma resubmission_idempotent:
  assumes inv: "arbiter_inv a" and accepted: "submit a c = Some (Accepted t n l, a1)"
  shows "submit a1 c = Some (ReplayedPending c, a1)
    \<and> (\<forall>sealed p a2. prepare a1 sealed = Some (Inr p, a2) \<and> prep_winner p = c \<longrightarrow>
         submit a2 c = Some (ReplayedPrepared p, a2)
         \<and> (\<forall>r res a3. record_commit a2 r = (Inr res, a3) \<longrightarrow>
              submit a3 c = Some (ReplayedCommitted r, a3) \<and> record_commit a3 r = (Inr (Replayed r), a3)))"
proof -
  from submit_accepted_pending [OF accepted] obtain tick cs where c: "validate_candidate c = Inr ()"
    "cand_binding c = arb_binding a1" and state: "arb_state a1 = Pending tick cs" "c \<in> set cs"
    by blast
  have "candidates_ok (arb_binding a1) tick cs"
    using submit_inv [OF accepted inv] state(1) by (simp add: arbiter_inv_def)
  from submit_pending_replay [OF this state(2)] have "submit a1 c = Some (ReplayedPending c, a1)"
    using c state by (simp add: submit_def)
  moreover have "submit a2 c = Some (ReplayedPrepared p, a2)
      \<and> (\<forall>r res a3. record_commit a2 r = (Inr res, a3) \<longrightarrow>
           submit a3 c = Some (ReplayedCommitted r, a3) \<and> record_commit a3 r = (Inr (Replayed r), a3))"
    if "prepare a1 sealed = Some (Inr p, a2)" "prep_winner p = c" for sealed p a2
  proof -
    have a2: "arb_state a2 = Prepared p" "arb_binding a2 = arb_binding a1"
      using prepare_pending(2) [OF state(1) that(1)] step_binding [OF step_prepare [OF that(1)]] by auto
    then have "submit a2 c = Some (ReplayedPrepared p, a2)"
      using c that(2) by (simp add: submit_def submit_prepared_def)
    moreover have "submit a3 c = Some (ReplayedCommitted r, a3) \<and> record_commit a3 r = (Inr (Replayed r), a3)"
      if commit: "record_commit a2 r = (Inr res, a3)" for r res a3
    proof -
      have "validate_receipt r = Inr ()" "matches_candidate r c" "a3 = a2\<lparr>arb_state := Committed r\<rparr>"
        using commit a2 \<open>prep_winner p = c\<close>
        by (auto simp: record_commit_def split: sum.splits if_splits)
      with c a2 show ?thesis
        by (simp add: submit_def submit_committed_def record_commit_def matches_candidate_def)
    qed
    ultimately show ?thesis by blast
  qed
  ultimately show ?thesis by blast
qed

definition binding_ok :: "terminal_binding \<Rightarrow> bool" where
  "binding_ok b \<longleftrightarrow> \<not> is_zero (bind_account b) \<and> \<not> is_zero (bind_character b)
     \<and> \<not> is_zero (bind_lineage b) \<and> \<not> is_zero (bind_restore_point b)"

lemma stable_code_round_trip: "from_stable_code (stable_code k) = Some k"
  by (cases k) (simp_all add: from_stable_code_def)

lemma from_stable_code_Some: "from_stable_code code = Some k \<Longrightarrow> code = stable_code k"
  by (auto simp: from_stable_code_def split: if_splits)

lemma new_terminal_binding_eq_Inr:
  "new_terminal_binding acc ch li re = Inr b \<longleftrightarrow>
     b = \<lparr>bind_account = acc, bind_character = ch, bind_lineage = li, bind_restore_point = re\<rparr> \<and> binding_ok b"
  by (auto simp: new_terminal_binding_def binding_ok_def)

text \<open>
  C6. Receipts survive storage exactly: a valid receipt with a complete binding is read back unchanged
  from what it was written as, and everything that storage accepts is written back as the same
  record and is valid with a complete binding; a stored record with another schema version or
  an unknown kind is never accepted.
\<close>

theorem receipt_storage_round_trip:
  "(from_storage (to_storage_v1 r) = Inr r \<longleftrightarrow> validate_receipt r = Inr () \<and> binding_ok (rc_binding r))
   \<and> (from_storage stored = Inr r \<longleftrightarrow>
        stored = to_storage_v1 r \<and> validate_receipt r = Inr () \<and> binding_ok (rc_binding r))"
proof -
  have fwd: "from_storage (to_storage_v1 r) = Inr r \<longleftrightarrow> validate_receipt r = Inr () \<and> binding_ok (rc_binding r)"
    for r
    by (cases r, cases "rc_binding r")
      (auto simp: from_storage_def to_storage_v1_def stable_code_round_trip new_terminal_binding_eq_Inr Let_def)
  moreover have "stored = to_storage_v1 r" if "from_storage stored = Inr r"
    using that by (auto simp: from_storage_def to_storage_v1_def new_terminal_binding_eq_Inr Let_def
        dest!: from_stable_code_Some split: if_splits)
  ultimately show ?thesis by blast
qed

section \<open>A concrete race\<close>

definition sample_binding :: terminal_binding where
  "sample_binding = \<lparr>bind_account = [1], bind_character = [2], bind_lineage = [3], bind_restore_point = [4]\<rparr>"

definition sample_candidate :: "terminal_kind \<Rightarrow> u8 \<Rightarrow> terminal_candidate" where
  "sample_candidate kind n =
     \<lparr>cand_binding = sample_binding, cand_terminal_id = [n], cand_mutation_id = [n],
      cand_payload_hash = [9], cand_server_plan_hash = [8], cand_expected_state_version = 5,
      cand_observed_tick = 40, cand_kind = kind\<rparr>"

abbreviation sample_extract :: terminal_candidate where
  "sample_extract \<equiv> sample_candidate SuccessfulExtraction 1"

abbreviation sample_death :: terminal_candidate where
  "sample_death \<equiv> sample_candidate LethalDeath 2"

definition sample_pending :: terminal_arbiter where
  "sample_pending = \<lparr>arb_binding = sample_binding, arb_state = Pending 40 [sample_extract, sample_death]\<rparr>"

definition sample_prepared :: prepared_terminal where
  "sample_prepared = \<lparr>prep_winner = sample_death, prep_candidate_count = 2, prep_sealed_through_tick = 40\<rparr>"

definition sample_receipt :: stored_terminal_receipt where
  "sample_receipt =
     \<lparr>rc_binding = sample_binding, rc_terminal_id = [2], rc_mutation_id = [2], rc_payload_hash = [9],
      rc_server_plan_hash = [8], rc_result_hash = [7], rc_expected_state_version = 5,
      rc_post_state_version = 6, rc_observed_tick = 40, rc_committed_tick = 41, rc_kind = LethalDeath\<rparr>"

lemmas sample_defs = sample_binding_def sample_candidate_def sample_pending_def sample_prepared_def
  sample_receipt_def new_arbiter_def is_zero_def validate_candidate_def canonical_cmp_def cmp_def

lemma sample_runs:
  "submit (new_arbiter sample_binding) sample_extract
     = Some (Accepted 40 1 sample_extract, \<lparr>arb_binding = sample_binding, arb_state = Pending 40 [sample_extract]\<rparr>)"
  "run_submits (new_arbiter sample_binding) [sample_extract, sample_death]
     = Some ([Accepted 40 1 sample_extract, Accepted 40 2 sample_death], sample_pending)"
  "prepare sample_pending 40 = Some (Inr sample_prepared, sample_pending\<lparr>arb_state := Prepared sample_prepared\<rparr>)"
  "arbiter_inv (new_arbiter sample_binding)" "arbiter_inv sample_pending"
  by (simp_all add: submit_def submit_pending_def MAX_TERMINAL_CANDIDATES_PER_TICK_def prepare_def Let_def
      arbiter_inv_def candidates_ok_def candidate_ok_def sample_defs)

theorem arbiter_reachable_ok_witness:
  "arbiter_inv sample_pending \<and> (\<exists>r. submit sample_pending sample_death = Some r)
     \<and> (\<exists>r. prepare sample_pending 40 = Some r)"
proof (rule arbiter_reachable_ok)
  have "reachable arbiter_initial arbiter_step (new_arbiter sample_binding)"
    by (rule reachable_initial) (simp add: arbiter_initial_def new_arbiter_def)
  moreover from sample_runs(2) obtain r a1 where
    "submit (new_arbiter sample_binding) sample_extract = Some (r, a1)"
    "submit a1 sample_death = Some (Accepted 40 2 sample_death, sample_pending)"
    by (auto split: option.splits)
  ultimately show "reachable arbiter_initial arbiter_step sample_pending"
    by (meson reachable_step step_submit)
qed

theorem committed_outcome_immutable_witness:
  "committed_receipt \<lparr>arb_binding = sample_binding, arb_state = Committed sample_receipt\<rparr> = Some sample_receipt"
proof -
  let ?a = "\<lparr>arb_binding = sample_binding, arb_state = Committed sample_receipt\<rparr>"
  have "trace arbiter_step ?a [(CallPrepare 50, ?a)]"
    by (auto intro: step_prepare simp: prepare_def)
  from committed_outcome_immutable [OF this, of sample_receipt "CallPrepare 50" ?a] show ?thesis
    by (simp add: committed_receipt_def)
qed

theorem lethal_death_wins_witness: "cand_kind (prep_winner sample_prepared) = LethalDeath"
proof -
  have "(sample_death, Accepted 40 2 sample_death)
      \<in> set (zip [sample_extract, sample_death] [Accepted 40 1 sample_extract, Accepted 40 2 sample_death])"
    by simp
  from lethal_death_wins [OF sample_runs(2) this _ sample_runs(3)] show ?thesis
    by (simp add: sample_candidate_def)
qed

end
