(* ===== verification/Ordered_Map.thy ===== *)
theory Ordered_Map
  imports Gravebound_Prelude
begin

text \<open>
  \<open>std::collections::BTreeMap\<close> as the program uses it: insertion, lookup, removal and iteration
  over the values in increasing order of their keys. The representation is a list of pairs with
  strictly increasing keys; the contract of the operations is the locale \<open>ordered_map\<close>, extended
  with removal by \<open>ordered_map_remove\<close>.
\<close>

type_synonym ('k, 'v) btree_map = "('k \<times> 'v) list"

fun btree_insert :: "'k::linorder \<Rightarrow> 'v \<Rightarrow> ('k, 'v) btree_map \<Rightarrow> ('k, 'v) btree_map" where
  "btree_insert k v [] = [(k, v)]"
| "btree_insert k v ((k', v') # m) =
     (if k < k' then (k, v) # (k', v') # m
      else if k = k' then (k, v) # m
      else (k', v') # btree_insert k v m)"

definition btree_get :: "('k, 'v) btree_map \<Rightarrow> 'k \<Rightarrow> 'v option" where
  "btree_get m k = map_of m k"

definition btree_values :: "('k, 'v) btree_map \<Rightarrow> 'v list" where
  "btree_values m = map snd m"

definition btree_ok :: "('k::linorder, 'v) btree_map \<Rightarrow> bool" where
  "btree_ok m \<longleftrightarrow> sorted_wrt (<) (map fst m)"

locale ordered_map =
  fixes empty :: 'm
    and insert :: "'k::linorder \<Rightarrow> 'v \<Rightarrow> 'm \<Rightarrow> 'm"
    and lookup :: "'m \<Rightarrow> 'k \<Rightarrow> 'v option"
    and vals :: "'m \<Rightarrow> 'v list"
    and ok :: "'m \<Rightarrow> bool"
  assumes ok_empty: "ok empty"
    and lookup_empty: "lookup empty k = None"
    and ok_insert: "ok m \<Longrightarrow> ok (insert k v m)"
    and lookup_insert: "ok m \<Longrightarrow> lookup (insert k v m) = (lookup m)(k \<mapsto> v)"
    and set_vals: "ok m \<Longrightarrow> set (vals m) = ran (lookup m)"
    and length_vals: "ok m \<Longrightarrow> length (vals m) = card (dom (lookup m))"
begin

text \<open>A map built by inserting one value per key holds exactly these values.\<close>

lemma ok_fold_insert: "ok m \<Longrightarrow> ok (fold (\<lambda>x. insert (key x) x) xs m)"
  by (induction xs arbitrary: m) (simp_all add: ok_insert)

lemma lookup_fold_insert:
  assumes "ok m" and "distinct (map key xs)" and "\<forall>x \<in> set xs. lookup m (key x) = None"
  shows "lookup (fold (\<lambda>x. insert (key x) x) xs m) k = Some v \<longleftrightarrow>
    lookup m k = Some v \<or> v \<in> set xs \<and> key v = k"
  using assms
proof (induction xs arbitrary: m)
  case (Cons x xs)
  have "\<forall>y \<in> set xs. lookup (insert (key x) x m) (key y) = None"
    using Cons.prems by (auto simp: lookup_insert image_iff)
  from Cons.IH [OF ok_insert [OF Cons.prems(1)] _ this] Cons.prems show ?case
    by (auto simp: lookup_insert)
qed simp

lemma built_map:
  assumes "distinct (map key xs)"
  shows "ok (fold (\<lambda>x. insert (key x) x) xs empty)"
    and "lookup (fold (\<lambda>x. insert (key x) x) xs empty) k = Some v \<longleftrightarrow> v \<in> set xs \<and> key v = k"
    and "set (vals (fold (\<lambda>x. insert (key x) x) xs empty)) = set xs"
    and "distinct (map key (vals (fold (\<lambda>x. insert (key x) x) xs empty)))"
proof -
  show ok: "ok (fold (\<lambda>x. insert (key x) x) xs empty)"
    by (rule ok_fold_insert [OF ok_empty])
  show l: "lookup (fold (\<lambda>x. insert (key x) x) xs empty) k = Some v \<longleftrightarrow> v \<in> set xs \<and> key v = k" for k v
    using lookup_fold_insert [OF ok_empty assms] by (simp add: lookup_empty)
  show vals: "set (vals (fold (\<lambda>x. insert (key x) x) xs empty)) = set xs"
    unfolding set_vals [OF ok] ran_def by (auto simp: l)
  have "dom (lookup (fold (\<lambda>x. insert (key x) x) xs empty)) = set (map key xs)"
    using l by (auto simp: dom_def)
  then have "length (vals (fold (\<lambda>x. insert (key x) x) xs empty)) = card (set (map key xs))"
    using length_vals [OF ok] by simp
  also have "\<dots> = card (set xs)"
    using assms by (simp add: distinct_map card_image)
  finally have "distinct (vals (fold (\<lambda>x. insert (key x) x) xs empty))"
    using vals by (metis card_distinct)
  with vals assms show "distinct (map key (vals (fold (\<lambda>x. insert (key x) x) xs empty)))"
    by (simp add: distinct_map)
qed

end

text \<open>Maps with removal: a removed key is gone and nothing else changes.\<close>

locale ordered_map_remove = ordered_map empty insert lookup vals ok
  for empty :: 'm and insert :: "'k::linorder \<Rightarrow> 'v \<Rightarrow> 'm \<Rightarrow> 'm" and lookup :: "'m \<Rightarrow> 'k \<Rightarrow> 'v option"
    and vals :: "'m \<Rightarrow> 'v list" and ok :: "'m \<Rightarrow> bool" +
  fixes remove :: "'k \<Rightarrow> 'm \<Rightarrow> 'm"
  assumes ok_remove: "ok m \<Longrightarrow> ok (remove k m)"
    and lookup_remove: "ok m \<Longrightarrow> lookup (remove k m) = (lookup m)(k := None)"
begin

lemma ran_remove:
  assumes "ok m" "lookup m k = Some v"
  shows "ran (lookup m) = Set.insert v (ran (lookup (remove k m)))"
proof -
  have "lookup m = (lookup (remove k m))(k \<mapsto> v)"
    using assms by (auto simp: lookup_remove)
  moreover have "lookup (remove k m) k = None"
    using assms(1) by (simp add: lookup_remove)
  ultimately show ?thesis
    by (metis ran_map_upd)
qed

end

definition btree_remove :: "'k \<Rightarrow> ('k, 'v) btree_map \<Rightarrow> ('k, 'v) btree_map" where
  "btree_remove k m = filter (\<lambda>(k', _). k' \<noteq> k) m"

lemma btree_get_map_of: "btree_get m = map_of m"
  by (simp add: fun_eq_iff btree_get_def)

lemma btree_insert_keys: "set (map fst (btree_insert k v m)) = Set.insert k (set (map fst m))"
  by (induction m rule: btree_insert.induct) auto

lemma btree_ok_insert: "btree_ok m \<Longrightarrow> btree_ok (btree_insert k v m)"
proof (induction k v m rule: btree_insert.induct)
  case (2 k v k' v' m)
  have "\<forall>x \<in> set (map fst (btree_insert k v m)). k' < x" if "k' < k" "\<forall>x \<in> set (map fst m). k' < x"
    using that btree_insert_keys [of k v m] by auto
  with 2 show ?case
    by (fastforce simp: btree_ok_def)
qed (simp add: btree_ok_def)

lemma btree_get_insert:
  "btree_ok m \<Longrightarrow> btree_get (btree_insert k v m) = (btree_get m)(k \<mapsto> v)"
proof (induction k v m rule: btree_insert.induct)
  case (2 k v k' v' m)
  then show ?case
    by (auto simp: btree_get_def btree_ok_def fun_eq_iff)
qed (simp add: btree_get_def fun_eq_iff)

lemma btree_values_ran: "btree_ok m \<Longrightarrow> set (btree_values m) = ran (btree_get m)"
proof -
  assume "btree_ok m"
  then have "distinct (map fst m)"
    by (simp add: btree_ok_def strict_sorted_iff)
  then show ?thesis
    by (simp add: btree_values_def btree_get_map_of ran_distinct)
qed

lemma btree_sum_insert:
  fixes f :: "'v \<Rightarrow> nat"
  assumes "btree_ok m" and "btree_get m k = Some v"
  shows "sum_list (map f (btree_values (btree_insert k v' m))) + f v = sum_list (map f (btree_values m)) + f v'"
  using assms
proof (induction k v' m rule: btree_insert.induct)
  case (2 k v' k' w m)
  have "k < k' \<Longrightarrow> btree_get ((k', w) # m) k = None"
    using "2.prems"(1) by (auto simp: btree_ok_def btree_get_def map_of_eq_None_iff)
  with 2 show ?case
    by (auto simp: btree_ok_def btree_get_def btree_values_def split: if_splits)
qed (simp add: btree_get_def)

lemma btree_values_card: "btree_ok m \<Longrightarrow> length (btree_values m) = card (dom (btree_get m))"
  using distinct_card [of "map fst m"]
  by (simp add: btree_values_def btree_get_map_of btree_ok_def strict_sorted_iff dom_map_of_conv_image_fst)

interpretation btree: ordered_map "[]" btree_insert btree_get btree_values btree_ok
  by unfold_locales (auto simp: btree_ok_def [of "[]"] btree_get_def [of "[]"] btree_ok_insert
      btree_get_insert btree_values_ran btree_values_card)

lemma btree_remove_ok: "btree_ok m \<Longrightarrow> btree_ok (btree_remove k m)"
  unfolding btree_ok_def sorted_wrt_map btree_remove_def by (rule sorted_wrt_filter)

lemma btree_get_remove: "btree_get (btree_remove k m) = (btree_get m)(k := None)"
  by (induction m) (auto simp: btree_get_def btree_remove_def fun_eq_iff)

lemma btree_remove_shrinks: "btree_get m k = Some v \<Longrightarrow> length (btree_remove k m) < length m"
proof -
  assume "btree_get m k = Some v"
  then have "(k, v) \<in> set m"
    by (auto simp: btree_get_def dest: map_of_SomeD)
  then show ?thesis
    unfolding btree_remove_def by (rule length_filter_less) simp
qed

interpretation btree_rm: ordered_map_remove "[]" btree_insert btree_get btree_values btree_ok btree_remove
  by unfold_locales (simp_all add: btree_remove_ok btree_get_remove)

end
