(* ===== verification/Boss_Lock.thy ===== *)
theory Boss_Lock
  imports Simulation_Clock Ordered_Map
begin

text \<open>
  The boss lock (\<open>sim_core/src/core_boss_lock.rs\<close>): staging of entrants at the boss door, the ready
  countdown, the committed participant lock with its health scaling, the introduction, combat and
  the empty-arena reset, advanced by one step per tick. Operations that mutate the simulation and
  append events pass the pair of both; a step that fails leaves the simulation as it was, because
  the source works on a clone.
\<close>

section \<open>Data\<close>

definition CORE_BOSS_LOAD_TIMEOUT_TICKS :: u32 where
  "CORE_BOSS_LOAD_TIMEOUT_TICKS = 300"

definition CORE_BOSS_READY_COUNTDOWN_TICKS :: u32 where
  "CORE_BOSS_READY_COUNTDOWN_TICKS = 150"

definition CORE_CALDUS_INTRODUCTION_TICKS :: u32 where
  "CORE_CALDUS_INTRODUCTION_TICKS = 75"

definition CORE_BOSS_EMPTY_RESET_TICKS :: u32 where
  "CORE_BOSS_EMPTY_RESET_TICKS = 150"

definition CORE_BOSS_MINIMUM_PARTICIPANTS :: u8 where
  "CORE_BOSS_MINIMUM_PARTICIPANTS = 1"

definition CORE_BOSS_MAXIMUM_PARTICIPANTS :: u8 where
  "CORE_BOSS_MAXIMUM_PARTICIPANTS = 8"

definition CORE_CALDUS_BASE_HEALTH :: u32 where
  "CORE_CALDUS_BASE_HEALTH = 7200"

definition CORE_CALDUS_ADDITIONAL_PARTICIPANT_HEALTH_BASIS_POINTS :: u32 where
  "CORE_CALDUS_ADDITIONAL_PARTICIPANT_HEALTH_BASIS_POINTS = 7200"

record core_boss_participant =
  part_entity_id :: entity_id
  part_party_slot :: u8

datatype core_boss_connection_state = Disconnected | ConnectedLoading | ConnectedLoaded

datatype core_boss_life_state = Living | Dead | Recalled

record core_boss_entrant_input =
  ent_participant :: core_boss_participant
  ent_connection :: core_boss_connection_state
  ent_life :: core_boss_life_state
  ent_inside_boundary :: bool

record core_boss_lock_input =
  in_tick :: tick
  in_entrants :: "core_boss_entrant_input list"

record core_boss_participant_lock =
  lock_attempt_ordinal :: u32
  lock_participants :: "core_boss_participant list"
  lock_maximum_health :: u32

datatype core_boss_reset_resume = ResumeIntroduction tick u32 | ResumeCombat

datatype core_boss_lock_phase =
    BossWarning
  | Loading tick "core_boss_participant list"
  | ReadyCountdown tick tick "core_boss_participant list"
  | Introduction tick tick core_boss_participant_lock
  | Combat core_boss_participant_lock
  | ResetPending tick tick core_boss_participant_lock core_boss_reset_resume

datatype core_boss_lock_event =
    StagingStarted tick "core_boss_participant list"
  | StagedRosterChanged tick "core_boss_participant list"
  | ReadyCountdownStarted tick tick
  | ReadyCountdownAbandoned tick
  | LateEntryRejected tick core_boss_participant
  | DoorClosed tick
  | ParticipantLockCommitted tick core_boss_participant_lock
  | EntranceRadiusCleared tick
  | IntroductionStarted tick tick
  | CombatStarted tick core_boss_participant_lock
  | EmptyResetStarted tick tick
  | EmptyResetCancelled tick
  | EmptyResetCompleted tick bool bool bool

record core_boss_lock_step =
  step_tick :: tick
  step_phase :: core_boss_lock_phase
  step_events :: "core_boss_lock_event list"

record core_boss_lock_simulation =
  sim_tick :: tick
  sim_phase :: core_boss_lock_phase
  next_attempt_ordinal :: u32
  rejected_late_entries :: "entity_id set"

datatype core_boss_lock_error =
    TickMismatch tick tick
  | InvalidEntrantState
  | DuplicateEntity
  | DuplicatePartySlot
  | InvalidParticipantCount
  | TooManyLockedParticipants
  | AttemptOrdinalOverflow
  | TickOverflow
  | LockArithmeticOverflow

type_synonym entrant_map = "(entity_id, core_boss_entrant_input) btree_map"

definition new_at_tick :: "tick \<Rightarrow> core_boss_lock_simulation" where
  "new_at_tick start_tick =
     \<lparr>sim_tick = start_tick, sim_phase = BossWarning, next_attempt_ordinal = 1,
      rejected_late_entries = {}\<rparr>"

fun door_closed :: "core_boss_lock_phase \<Rightarrow> bool" where
  "door_closed (Introduction s a l) = True"
| "door_closed (Combat l) = True"
| "door_closed (ResetPending s r l x) = True"
| "door_closed p = False"

section \<open>Helpers\<close>

definition is_connected :: "core_boss_entrant_input \<Rightarrow> bool" where
  "is_connected e \<longleftrightarrow> ent_connection e = ConnectedLoading \<or> ent_connection e = ConnectedLoaded"

definition is_loaded :: "core_boss_entrant_input \<Rightarrow> bool" where
  "is_loaded e \<longleftrightarrow> ent_connection e = ConnectedLoaded"

definition is_living :: "core_boss_entrant_input \<Rightarrow> bool" where
  "is_living e \<longleftrightarrow> ent_life e = Living"

abbreviation entrant_id :: "core_boss_entrant_input \<Rightarrow> entity_id" where
  "entrant_id e \<equiv> part_entity_id (ent_participant e)"

definition add_ticks :: "tick \<Rightarrow> u32 \<Rightarrow> core_boss_lock_error + tick" where
  "add_ticks t n = ok_or (checked_add t (ucast n)) TickOverflow"

definition scaled_caldus_health :: "u8 \<Rightarrow> core_boss_lock_error + u32" where
  "scaled_caldus_health locked_participants =
     (if \<not> (CORE_BOSS_MINIMUM_PARTICIPANTS \<le> locked_participants
            \<and> locked_participants \<le> CORE_BOSS_MAXIMUM_PARTICIPANTS)
      then Inl InvalidParticipantCount
      else let factor = (10000 :: u64)
             + ucast CORE_CALDUS_ADDITIONAL_PARTICIPANT_HEALTH_BASIS_POINTS * ucast (locked_participants - 1)
           in and_then (ok_or (checked_mul (ucast CORE_CALDUS_BASE_HEALTH) factor) LockArithmeticOverflow)
                (\<lambda>numerator. ok_or (try_from_word ((numerator + 5000) div 10000)) LockArithmeticOverflow))"

definition validate_entrant ::
  "core_boss_entrant_input \<Rightarrow> entrant_map \<times> u8 set
     \<Rightarrow> core_boss_lock_error + entrant_map \<times> u8 set" where
  "validate_entrant e state =
     (case state of (by_entity, slots) \<Rightarrow>
       if part_party_slot (ent_participant e) \<ge> CORE_BOSS_MAXIMUM_PARTICIPANTS then Inl InvalidEntrantState
       else if btree_get by_entity (entrant_id e) \<noteq> None then Inl DuplicateEntity
       else if part_party_slot (ent_participant e) \<in> slots then Inl DuplicatePartySlot
       else Inr (btree_insert (entrant_id e) e by_entity,
                 insert (part_party_slot (ent_participant e)) slots))"

definition validate_entrants ::
  "core_boss_entrant_input list \<Rightarrow> core_boss_lock_error + entrant_map" where
  "validate_entrants entrants =
     and_then (try_fold validate_entrant entrants ([], {})) (\<lambda>(by_entity, _). Inr by_entity)"

definition participant_key :: "core_boss_participant \<Rightarrow> u8 \<times> entity_id" where
  "participant_key p = (part_party_slot p, part_entity_id p)"

definition staged_participants :: "entrant_map \<Rightarrow> core_boss_participant list" where
  "staged_participants entrants =
     sort_key participant_key
       (map ent_participant
         (filter (\<lambda>e. is_connected e \<and> is_living e \<and> ent_inside_boundary e) (btree_values entrants)))"

definition merge_staged ::
  "core_boss_participant list \<Rightarrow> entrant_map \<Rightarrow> core_boss_participant list" where
  "merge_staged staged entrants =
     (let existing = set (map part_entity_id staged) in
      sort_key participant_key
        (staged @ filter (\<lambda>p. part_entity_id p \<notin> existing) (staged_participants entrants)))"

fun all_staged_loaded :: "core_boss_lock_phase \<Rightarrow> entrant_map \<Rightarrow> bool" where
  "all_staged_loaded (Loading s staged) entrants =
     (staged \<noteq> [] \<and> list_all (\<lambda>p. is_some_and (btree_get entrants (part_entity_id p))
        (\<lambda>e. is_connected e \<and> is_loaded e)) staged)"
| "all_staged_loaded phase entrants = False"

definition any_locked_living :: "core_boss_participant_lock \<Rightarrow> entrant_map \<Rightarrow> bool" where
  "any_locked_living lock entrants =
     list_ex (\<lambda>p. is_some_and (btree_get entrants (part_entity_id p)) is_living) (lock_participants lock)"

definition any_locked_living_inside :: "core_boss_participant_lock \<Rightarrow> entrant_map \<Rightarrow> bool" where
  "any_locked_living_inside lock entrants =
     list_ex (\<lambda>p. is_some_and (btree_get entrants (part_entity_id p))
        (\<lambda>e. is_living e \<and> ent_inside_boundary e)) (lock_participants lock)"

definition any_living_party_outside :: "core_boss_participant_lock \<Rightarrow> entrant_map \<Rightarrow> bool" where
  "any_living_party_outside lock entrants =
     (let locked = set (map part_entity_id (lock_participants lock)) in
      list_ex (\<lambda>e. is_living e \<and> \<not> ent_inside_boundary e \<and> entrant_id e \<notin> locked)
        (btree_values entrants))"

section \<open>Transitions\<close>

type_synonym lock_work = "core_boss_lock_simulation \<times> core_boss_lock_event list"

definition begin_countdown :: "lock_work \<Rightarrow> core_boss_lock_error + lock_work" where
  "begin_countdown work =
     (case work of (sim, events) \<Rightarrow>
      case sim_phase sim of
        Loading s staged \<Rightarrow>
          and_then (add_ticks (sim_tick sim) CORE_BOSS_READY_COUNTDOWN_TICKS) (\<lambda>closes_at.
            Inr (sim\<lparr>sim_phase := ReadyCountdown (sim_tick sim) closes_at staged\<rparr>,
                 events @ [ReadyCountdownStarted (sim_tick sim) closes_at]))
      | _ \<Rightarrow> Inr (sim, events))"

definition maybe_begin_countdown ::
  "entrant_map \<Rightarrow> lock_work \<Rightarrow> core_boss_lock_error + lock_work" where
  "maybe_begin_countdown entrants work =
     (if all_staged_loaded (sim_phase (fst work)) entrants then begin_countdown work else Inr work)"

definition commit_or_abandon ::
  "entrant_map \<Rightarrow> lock_work \<Rightarrow> core_boss_lock_error + lock_work" where
  "commit_or_abandon entrants work =
     (case work of (sim, events) \<Rightarrow>
      case sim_phase sim of
        ReadyCountdown s c staged \<Rightarrow>
          (let living = sort_key participant_key
                 (filter (\<lambda>p. is_some_and (btree_get entrants (part_entity_id p))
                    (\<lambda>e. is_living e \<and> ent_inside_boundary e)) staged)
           in if living = []
              then Inr (sim\<lparr>sim_phase := BossWarning\<rparr>, events @ [ReadyCountdownAbandoned (sim_tick sim)])
              else if length living > unat CORE_BOSS_MAXIMUM_PARTICIPANTS
              then Inl TooManyLockedParticipants
              else and_then (ok_or (checked_add (next_attempt_ordinal sim) 1) AttemptOrdinalOverflow)
                (\<lambda>next_ordinal.
                   and_then (ok_or (try_from_usize (length living)) TooManyLockedParticipants) (\<lambda>n.
                   and_then (scaled_caldus_health n) (\<lambda>health.
                   let lock = \<lparr>lock_attempt_ordinal = next_attempt_ordinal sim,
                               lock_participants = living, lock_maximum_health = health\<rparr> in
                   and_then (add_ticks (sim_tick sim) CORE_CALDUS_INTRODUCTION_TICKS) (\<lambda>activates_at.
                     Inr (sim\<lparr>next_attempt_ordinal := next_ordinal,
                              sim_phase := Introduction (sim_tick sim) activates_at lock\<rparr>,
                          events @ [DoorClosed (sim_tick sim),
                                    ParticipantLockCommitted (sim_tick sim) lock,
                                    EntranceRadiusCleared (sim_tick sim),
                                    IntroductionStarted (sim_tick sim) activates_at]))))))
      | _ \<Rightarrow> Inr (sim, events))"

definition reset_resume ::
  "core_boss_lock_simulation
     \<Rightarrow> core_boss_lock_error + (core_boss_participant_lock \<times> core_boss_reset_resume) option" where
  "reset_resume sim =
     (case sim_phase sim of
        Introduction started_at activates_at lock \<Rightarrow>
          and_then (ok_or (Option.bind (checked_sub activates_at (sim_tick sim)) try_from_word)
                      LockArithmeticOverflow) (\<lambda>remaining.
            Inr (Some (lock, ResumeIntroduction started_at remaining)))
      | Combat lock \<Rightarrow> Inr (Some (lock, ResumeCombat))
      | _ \<Rightarrow> Inr None)"

definition maybe_begin_empty_reset ::
  "entrant_map \<Rightarrow> lock_work \<Rightarrow> core_boss_lock_error + lock_work" where
  "maybe_begin_empty_reset entrants work =
     (case work of (sim, events) \<Rightarrow>
      and_then (reset_resume sim) (\<lambda>found.
      case found of
        None \<Rightarrow> Inr (sim, events)
      | Some (lock, resume) \<Rightarrow>
          if \<not> any_locked_living lock entrants \<and> any_living_party_outside lock entrants
          then and_then (add_ticks (sim_tick sim) CORE_BOSS_EMPTY_RESET_TICKS) (\<lambda>resets_at.
                 Inr (sim\<lparr>sim_phase := ResetPending (sim_tick sim) resets_at lock resume\<rparr>,
                      events @ [EmptyResetStarted (sim_tick sim) resets_at]))
          else Inr (sim, events)))"

fun phase_lock :: "core_boss_lock_phase \<Rightarrow> core_boss_participant_lock option" where
  "phase_lock (Introduction s a lock) = Some lock"
| "phase_lock (Combat lock) = Some lock"
| "phase_lock (ResetPending s r lock x) = Some lock"
| "phase_lock p = None"

definition reject_late_entry ::
  "core_boss_entrant_input \<Rightarrow> lock_work \<Rightarrow> lock_work" where
  "reject_late_entry e work =
     (case work of (sim, events) \<Rightarrow>
       if entrant_id e \<in> rejected_late_entries sim then (sim, events)
       else (sim\<lparr>rejected_late_entries := insert (entrant_id e) (rejected_late_entries sim)\<rparr>,
             events @ [LateEntryRejected (sim_tick sim) (ent_participant e)]))"

definition reject_late_entries :: "entrant_map \<Rightarrow> lock_work \<Rightarrow> lock_work" where
  "reject_late_entries entrants work =
     (case phase_lock (sim_phase (fst work)) of
        None \<Rightarrow> work
      | Some lock \<Rightarrow>
          (let locked = set (map part_entity_id (lock_participants lock)) in
           fold reject_late_entry
             (filter (\<lambda>e. is_living e \<and> ent_inside_boundary e \<and> entrant_id e \<notin> locked)
                (btree_values entrants)) work))"

definition update_roster ::
  "(core_boss_participant list \<Rightarrow> core_boss_lock_phase) \<Rightarrow> core_boss_participant list \<Rightarrow> entrant_map
     \<Rightarrow> lock_work \<Rightarrow> lock_work" where
  "update_roster mk staged entrants work =
     (case work of (sim, events) \<Rightarrow>
      let updated = merge_staged staged entrants in
      if staged \<noteq> updated
      then (sim\<lparr>sim_phase := mk updated\<rparr>, events @ [StagedRosterChanged (sim_tick sim) updated])
      else (sim, events))"

definition step_phase_work ::
  "entrant_map \<Rightarrow> lock_work \<Rightarrow> core_boss_lock_error + lock_work" where
  "step_phase_work entrants work =
     (case work of (sim, events) \<Rightarrow>
      case sim_phase sim of
        BossWarning \<Rightarrow>
          (let staged = staged_participants entrants in
           if staged \<noteq> []
           then maybe_begin_countdown entrants
                  (sim\<lparr>sim_phase := Loading (sim_tick sim) staged\<rparr>,
                   events @ [StagingStarted (sim_tick sim) staged])
           else Inr (sim, events))
      | Loading started_at staged \<Rightarrow>
          (let work' = update_roster (Loading started_at) staged entrants (sim, events) in
           and_then (add_ticks started_at CORE_BOSS_LOAD_TIMEOUT_TICKS) (\<lambda>timeout_at.
             if all_staged_loaded (sim_phase (fst work')) entrants \<or> sim_tick sim \<ge> timeout_at
             then begin_countdown work' else Inr work'))
      | ReadyCountdown started_at closes_at staged \<Rightarrow>
          (let work' = update_roster (ReadyCountdown started_at closes_at) staged entrants (sim, events) in
           if sim_tick sim \<ge> closes_at then commit_or_abandon entrants work' else Inr work')
      | Introduction started_at activates_at lock \<Rightarrow>
          if sim_tick sim \<ge> activates_at
          then Inr (sim\<lparr>sim_phase := Combat lock\<rparr>, events @ [CombatStarted (sim_tick sim) lock])
          else maybe_begin_empty_reset entrants (sim, events)
      | Combat lock \<Rightarrow> maybe_begin_empty_reset entrants (sim, events)
      | ResetPending started_at resets_at lock resume \<Rightarrow>
          if any_locked_living_inside lock entrants
          then (case resume of
                  ResumeIntroduction intro_started remaining \<Rightarrow>
                    and_then (add_ticks (sim_tick sim) remaining) (\<lambda>activates_at.
                      Inr (sim\<lparr>sim_phase := Introduction intro_started activates_at lock\<rparr>,
                           events @ [EmptyResetCancelled (sim_tick sim)]))
                | ResumeCombat \<Rightarrow>
                    Inr (sim\<lparr>sim_phase := Combat lock\<rparr>, events @ [EmptyResetCancelled (sim_tick sim)]))
          else if sim_tick sim \<ge> resets_at
          then Inr (sim\<lparr>sim_phase := BossWarning, rejected_late_entries := {}\<rparr>,
                    events @ [EmptyResetCompleted (sim_tick sim) True True True])
          else Inr (sim, events))"

definition step_inner ::
  "core_boss_lock_simulation \<Rightarrow> core_boss_lock_input
     \<Rightarrow> core_boss_lock_error + core_boss_lock_step \<times> core_boss_lock_simulation" where
  "step_inner sim input =
     (if in_tick input \<noteq> sim_tick sim then Inl (TickMismatch (sim_tick sim) (in_tick input))
      else and_then (validate_entrants (in_entrants input)) (\<lambda>entrants.
      and_then (step_phase_work entrants (reject_late_entries entrants (sim, []))) (\<lambda>(sim', events).
      and_then (add_ticks (sim_tick sim') 1) (\<lambda>next_tick.
        Inr (\<lparr>step_tick = sim_tick sim', step_phase = sim_phase sim', step_events = events\<rparr>,
             sim'\<lparr>sim_tick := next_tick\<rparr>)))))"

definition boss_lock_step ::
  "core_boss_lock_simulation \<Rightarrow> core_boss_lock_input
     \<Rightarrow> (core_boss_lock_error + core_boss_lock_step) \<times> core_boss_lock_simulation" where
  "boss_lock_step sim input =
     (case step_inner sim input of
        Inl e \<Rightarrow> (Inl e, sim)
      | Inr (out, sim') \<Rightarrow> (Inr out, sim'))"

end
