(* ===== verification/Boss_Lock_Properties.thy ===== *)
theory Boss_Lock_Properties
  imports Boss_Lock
begin

text \<open>
  What the boss lock guarantees: the invariant of its reachable states (a committed lock has one to
  eight different participants and the health scaled to their number), that a step on valid input
  fails only by tick or ordinal overflow, that a committed lock is frozen until an empty reset, and
  which participants a commit takes.
\<close>

section \<open>Validated entrants\<close>

lemma validate_entrant_fold:
  assumes "try_fold validate_entrant es (m, slots) = Inr (m', slots')" and "btree_ok m"
  shows "m' = fold (\<lambda>e. btree_insert (entrant_id e) e) es m
    \<and> distinct (map entrant_id es) \<and> (\<forall>e \<in> set es. btree_get m (entrant_id e) = None)
    \<and> distinct (map (\<lambda>e. part_party_slot (ent_participant e)) es)
    \<and> (\<forall>e \<in> set es. part_party_slot (ent_participant e) < CORE_BOSS_MAXIMUM_PARTICIPANTS
         \<and> part_party_slot (ent_participant e) \<notin> slots)"
  using assms
proof (induction es arbitrary: m slots)
  case (Cons e es)
  from Cons.prems(1) obtain m1 slots1 where step: "validate_entrant e (m, slots) = Inr (m1, slots1)"
    and rest: "try_fold validate_entrant es (m1, slots1) = Inr (m', slots')"
    by auto
  from step have e: "part_party_slot (ent_participant e) < CORE_BOSS_MAXIMUM_PARTICIPANTS"
    "btree_get m (entrant_id e) = None" "part_party_slot (ent_participant e) \<notin> slots"
    "m1 = btree_insert (entrant_id e) e m" "slots1 = insert (part_party_slot (ent_participant e)) slots"
    by (auto simp: validate_entrant_def not_le split: if_splits)
  have "btree_ok m1"
    using e(4) Cons.prems(2) by (simp add: btree_ok_insert)
  note IH = Cons.IH [OF rest this]
  have "\<forall>x \<in> set es. entrant_id x \<noteq> entrant_id e \<and> btree_get m (entrant_id x) = None"
    using IH Cons.prems(2) by (auto simp: e(4) btree_get_insert split: if_splits)
  with IH e show ?case
    by auto
qed simp

lemma validate_entrants_Inr:
  assumes "validate_entrants es = Inr m"
  shows "btree_get m k = Some e \<longleftrightarrow> e \<in> set es \<and> entrant_id e = k"
    and "set (btree_values m) = set es" and "distinct (map entrant_id es)"
    and "length es \<le> 8" and "distinct (map entrant_id (btree_values m))"
proof -
  from assms obtain slots where "try_fold validate_entrant es ([], {}) = Inr (m, slots)"
    by (auto simp: validate_entrants_def)
  from validate_entrant_fold [OF this btree.ok_empty]
  have m: "m = fold (\<lambda>e. btree_insert (entrant_id e) e) es []" and d: "distinct (map entrant_id es)"
    and slots: "distinct (map (\<lambda>e. part_party_slot (ent_participant e)) es)"
      "\<forall>e \<in> set es. part_party_slot (ent_participant e) < CORE_BOSS_MAXIMUM_PARTICIPANTS"
    by auto
  show "btree_get m k = Some e \<longleftrightarrow> e \<in> set es \<and> entrant_id e = k" "set (btree_values m) = set es"
    "distinct (map entrant_id (btree_values m))"
    unfolding m using btree.built_map [OF d] by auto
  show "distinct (map entrant_id es)" by (rule d)
  have "distinct (map (\<lambda>e. unat (part_party_slot (ent_participant e))) es)"
    using slots(1) by (auto simp: distinct_map inj_on_def word_unat_eq_iff)
  moreover have "set (map (\<lambda>e. unat (part_party_slot (ent_participant e))) es) \<subseteq> {..<8}"
    using slots(2) by (auto simp: CORE_BOSS_MAXIMUM_PARTICIPANTS_def word_less_nat_alt)
  ultimately have "length (map (\<lambda>e. unat (part_party_slot (ent_participant e))) es) \<le> card {..<8 :: nat}"
    using card_mono [of "{..<8}"] by (metis distinct_card finite_lessThan)
  then show "length es \<le> 8" by simp
qed

section \<open>The invariant\<close>

definition caldus_health :: "nat \<Rightarrow> nat" where
  "caldus_health n = 7200 + 5184 * (n - 1)"

lemma scaled_caldus_health_exact:
  assumes "1 \<le> n" "n \<le> 8"
  shows "scaled_caldus_health (of_nat n) = Inr (of_nat (caldus_health n))"
proof -
  have "n \<in> {1, 2, 3, 4, 5, 6, 7, 8}"
    using assms by auto
  then show ?thesis
    by (auto simp: scaled_caldus_health_def CORE_BOSS_MINIMUM_PARTICIPANTS_def Let_def checked_mul_def
        CORE_BOSS_MAXIMUM_PARTICIPANTS_def CORE_CALDUS_BASE_HEALTH_def caldus_health_def
        CORE_CALDUS_ADDITIONAL_PARTICIPANT_HEALTH_BASIS_POINTS_def try_from_word_def)
qed

definition staged_ok :: "core_boss_participant list \<Rightarrow> bool" where
  "staged_ok staged \<longleftrightarrow> staged \<noteq> [] \<and> distinct (map part_entity_id staged) \<and> sorted (map participant_key staged)"

definition lock_ok :: "u32 \<Rightarrow> core_boss_participant_lock \<Rightarrow> bool" where
  "lock_ok next_ordinal lock \<longleftrightarrow>
     1 \<le> length (lock_participants lock) \<and> length (lock_participants lock) \<le> 8
     \<and> distinct (map part_entity_id (lock_participants lock))
     \<and> sorted (map participant_key (lock_participants lock))
     \<and> unat (lock_maximum_health lock) = caldus_health (length (lock_participants lock))
     \<and> unat (lock_attempt_ordinal lock) < unat next_ordinal"

definition boss_inv :: "core_boss_lock_simulation \<Rightarrow> bool" where
  "boss_inv sim \<longleftrightarrow>
     (case sim_phase sim of
        BossWarning \<Rightarrow> True
      | Loading started staged \<Rightarrow> staged_ok staged \<and> started \<le> sim_tick sim
      | ReadyCountdown started closes staged \<Rightarrow> staged_ok staged
      | Introduction started activates lock \<Rightarrow>
          lock_ok (next_attempt_ordinal sim) lock \<and> unat activates \<le> unat (sim_tick sim) + 75
      | Combat lock \<Rightarrow> lock_ok (next_attempt_ordinal sim) lock
      | ResetPending started resets lock resume \<Rightarrow> lock_ok (next_attempt_ordinal sim) lock
          \<and> (case resume of ResumeIntroduction t remaining \<Rightarrow> unat remaining \<le> 75 | ResumeCombat \<Rightarrow> True))"

lemma boss_inv_rejected [simp]:
  "boss_inv (sim\<lparr>rejected_late_entries := R\<rparr>) = boss_inv sim"
  by (simp add: boss_inv_def cong: core_boss_lock_phase.case_cong)

lemma reject_late_fold:
  "\<exists>R new. fold reject_late_entry es (sim, events) = (sim\<lparr>rejected_late_entries := R\<rparr>, events @ new)"
proof (induction es arbitrary: sim events)
  case Nil
  show ?case by (intro exI [of _ "rejected_late_entries sim"] exI [of _ "[]"]) simp
next
  case (Cons e es)
  show ?case
  proof (cases "entrant_id e \<in> rejected_late_entries sim")
    case True
    with Cons.IH show ?thesis by (simp add: reject_late_entry_def)
  next
    case False
    from Cons.IH [of "sim\<lparr>rejected_late_entries := insert (entrant_id e) (rejected_late_entries sim)\<rparr>"
        "events @ [LateEntryRejected (sim_tick sim) (ent_participant e)]"]
    obtain R new where "fold reject_late_entry (e # es) (sim, events)
        = (sim\<lparr>rejected_late_entries := R\<rparr>, events @ LateEntryRejected (sim_tick sim) (ent_participant e) # new)"
      using False by (auto simp: reject_late_entry_def [of e])
    then show ?thesis by blast
  qed
qed

lemma reject_late_entries_only:
  "\<exists>R new. reject_late_entries entrants (sim, events) = (sim\<lparr>rejected_late_entries := R\<rparr>, events @ new)"
proof (cases "phase_lock (sim_phase sim)")
  case None
  then show ?thesis
    by (intro exI [of _ "rejected_late_entries sim"] exI [of _ "[]"]) (simp add: reject_late_entries_def)
next
  case (Some lock)
  then show ?thesis
    using reject_late_fold by (simp add: reject_late_entries_def Let_def)
qed

lemma add_ticks_eq:
  "add_ticks t n = (if unat t + unat n < 2 ^ 64 then Inr (t + ucast n) else Inl TickOverflow)"
proof (cases "unat t + unat n < 2 ^ 64")
  case True
  have "checked_add t (ucast n) = Some (t + ucast n)"
    using True by (simp add: checked_add_eq_Some unat_word_ariths unat_ucast_widen)
  with True show ?thesis by (simp add: add_ticks_def)
next
  case False
  then have "checked_add t (ucast n) = None"
    by (simp add: checked_add_eq_None unat_ucast_widen)
  with False show ?thesis by (simp add: add_ticks_def)
qed

lemma unat_add_ticks:
  "add_ticks t n = Inr t' \<Longrightarrow> unat t' = unat t + unat n"
  by (auto simp: add_ticks_def checked_add_eq_Some unat_ucast_widen)

section \<open>Rosters\<close>

lemma staged_participants_ok:
  assumes "validate_entrants es = Inr m"
  shows "distinct (map part_entity_id (staged_participants m))"
    and "sorted (map participant_key (staged_participants m))"
    and "set (staged_participants m)
      = ent_participant ` {e \<in> set es. is_connected e \<and> is_living e \<and> ent_inside_boundary e}"
proof -
  note v = validate_entrants_Inr [OF assms]
  show "distinct (map part_entity_id (staged_participants m))"
    using v(5) by (auto simp: staged_participants_def distinct_map inj_on_def)
  show "sorted (map participant_key (staged_participants m))"
    by (simp add: staged_participants_def)
  show "set (staged_participants m)
      = ent_participant ` {e \<in> set es. is_connected e \<and> is_living e \<and> ent_inside_boundary e}"
    using v(2) by (auto simp: staged_participants_def)
qed

lemma distinct_map_sort_key [simp]: "distinct (map f (sort_key k xs)) \<longleftrightarrow> distinct (map f xs)"
  by (simp add: distinct_map)

lemma sort_key_Nil_iff [simp]: "sort_key k xs = [] \<longleftrightarrow> xs = []"
  by (metis length_0_conv length_sort)

lemma merge_staged_ok:
  assumes "validate_entrants es = Inr m" and "staged_ok staged"
  shows "staged_ok (merge_staged staged m)"
proof -
  have "distinct (map part_entity_id (staged @ filter (\<lambda>p. part_entity_id p \<notin> set (map part_entity_id staged))
      (staged_participants m)))"
    using assms(2) staged_participants_ok(1) [OF assms(1)] by (auto simp: staged_ok_def distinct_map_filter intro: rev_image_eqI)
  then show ?thesis
    using assms(2) by (auto simp: staged_ok_def merge_staged_def Let_def)
qed

definition living_inside :: "entrant_map \<Rightarrow> core_boss_participant \<Rightarrow> bool" where
  "living_inside m p = is_some_and (btree_get m (part_entity_id p)) (\<lambda>e. is_living e \<and> ent_inside_boundary e)"

lemma living_inside_iff:
  assumes "validate_entrants es = Inr m"
  shows "living_inside m p \<longleftrightarrow>
    (\<exists>e \<in> set es. entrant_id e = part_entity_id p \<and> is_living e \<and> ent_inside_boundary e)"
proof (cases "btree_get m (part_entity_id p)")
  case None
  then have "\<forall>e \<in> set es. entrant_id e \<noteq> part_entity_id p"
    using validate_entrants_Inr(1) [OF assms] by (metis option.distinct(1))
  with None show ?thesis
    by (auto simp: living_inside_def is_some_and_def)
next
  case (Some x)
  have unique: "e = x" if "e \<in> set es" "entrant_id e = part_entity_id p" for e
    using Some that validate_entrants_Inr(1) [OF assms] by (metis option.inject)
  have x: "x \<in> set es" "entrant_id x = part_entity_id p"
    using Some validate_entrants_Inr(1) [OF assms] by blast+
  have "living_inside m p \<longleftrightarrow> is_living x \<and> ent_inside_boundary x"
    using Some by (simp add: living_inside_def is_some_and_def)
  with unique x show ?thesis by blast
qed

text \<open>At most eight staged participants can be living inside: they are among the entrants.\<close>

lemma living_inside_bound:
  assumes "validate_entrants es = Inr m" and "distinct (map part_entity_id staged)"
  shows "length (filter (living_inside m) staged) \<le> 8"
proof -
  let ?l = "map part_entity_id (filter (living_inside m) staged)"
  have "set ?l \<subseteq> set (map entrant_id es)"
    using living_inside_iff [OF assms(1)] by force
  then have "card (set ?l) \<le> card (set (map entrant_id es))"
    by (intro card_mono) simp_all
  also have "\<dots> \<le> length es"
    by (rule order_trans [OF card_length]) simp
  finally have "card (set ?l) \<le> length es" .
  moreover have "distinct ?l"
    using assms(2) by (simp add: distinct_map_filter)
  ultimately show ?thesis
    using validate_entrants_Inr(4) [OF assms(1)] by (metis distinct_card le_trans length_map)
qed

lemma commit_or_abandon_ready:
  assumes valid: "validate_entrants es = Inr m" and phase: "sim_phase sim = ReadyCountdown s c staged"
    and ok: "staged_ok staged"
  shows "case commit_or_abandon m (sim, events) of
      Inl e \<Rightarrow> e = AttemptOrdinalOverflow \<and> next_attempt_ordinal sim = - 1
        \<or> e = TickOverflow \<and> 2 ^ 64 \<le> unat (sim_tick sim) + 75
    | Inr (sim', events') \<Rightarrow>
        filter (living_inside m) staged = [] \<and> sim' = sim\<lparr>sim_phase := BossWarning\<rparr>
        \<or> (\<exists>activates lock. sim' = sim\<lparr>next_attempt_ordinal := next_attempt_ordinal sim + 1,
               sim_phase := Introduction (sim_tick sim) activates lock\<rparr>
             \<and> lock_ok (next_attempt_ordinal sim + 1) lock
             \<and> lock_participants lock = sort_key participant_key (filter (living_inside m) staged)
             \<and> lock_attempt_ordinal lock = next_attempt_ordinal sim
             \<and> unat activates = unat (sim_tick sim) + 75)"
proof -
  let ?living = "sort_key participant_key (filter (living_inside m) staged)"
  have bound: "length ?living \<le> 8"
    using living_inside_bound [OF valid] ok by (simp add: staged_ok_def)
  have cap: "unat CORE_BOSS_MAXIMUM_PARTICIPANTS = 8"
    by (simp add: CORE_BOSS_MAXIMUM_PARTICIPANTS_def)
  have fold: "(\<lambda>p. is_some_and (btree_get m (part_entity_id p)) (\<lambda>e. is_living e \<and> ent_inside_boundary e))
      = living_inside m"
    by (simp add: fun_eq_iff living_inside_def)
  show ?thesis
  proof (cases "?living = []")
    case True
    then have "filter (living_inside m) staged = []"
      by simp
    with phase show ?thesis
      by (simp add: commit_or_abandon_def fold)
  next
    case False
    then have pos: "1 \<le> length ?living"
      by (cases ?living) simp_all
    have count: "(try_from_usize (length ?living) :: u8 option) = Some (of_nat (length ?living))"
      using bound by (simp add: try_from_usize_def)
    note health = scaled_caldus_health_exact [OF pos bound]
    have uh: "unat (of_nat (caldus_health (length ?living)) :: u32) = caldus_health (length ?living)"
      using bound by (intro unat_of_nat_bounded) (simp add: caldus_health_def)
    have dist: "distinct (map part_entity_id ?living)"
      using ok by (simp add: staged_ok_def distinct_map_filter)
    show ?thesis
    proof (cases "next_attempt_ordinal sim = - 1")
      case True
      with phase False bound show ?thesis
        by (simp add: commit_or_abandon_def fold Let_def cap checked_add_one)
    next
      case ord: False
      then have nxt: "unat (next_attempt_ordinal sim + 1) = unat (next_attempt_ordinal sim) + 1"
        using checked_add_one [of "next_attempt_ordinal sim"] by (simp add: checked_add_eq_Some)
      define lock where "lock = \<lparr>lock_attempt_ordinal = next_attempt_ordinal sim,
          lock_participants = ?living, lock_maximum_health = of_nat (caldus_health (length ?living))\<rparr>"
      have lock: "lock_ok (next_attempt_ordinal sim + 1) lock"
        using pos bound dist uh nxt by (simp add: lock_ok_def lock_def)
      have eval: "commit_or_abandon m (sim, events)
        = and_then (add_ticks (sim_tick sim) CORE_CALDUS_INTRODUCTION_TICKS) (\<lambda>activates_at.
            Inr (sim\<lparr>next_attempt_ordinal := next_attempt_ordinal sim + 1,
                     sim_phase := Introduction (sim_tick sim) activates_at lock\<rparr>,
                 events @ [DoorClosed (sim_tick sim), ParticipantLockCommitted (sim_tick sim) lock,
                   EntranceRadiusCleared (sim_tick sim), IntroductionStarted (sim_tick sim) activates_at]))"
        using phase False bound ord count health
        by (simp add: commit_or_abandon_def fold Let_def cap checked_add_one lock_def)
      have ticks: "unat CORE_CALDUS_INTRODUCTION_TICKS = 75"
        by (simp add: CORE_CALDUS_INTRODUCTION_TICKS_def)
      show ?thesis
      proof (cases "add_ticks (sim_tick sim) CORE_CALDUS_INTRODUCTION_TICKS")
        case (Inl e)
        then show ?thesis
          using ticks by (simp add: eval) (simp add: add_ticks_eq split: if_splits)
      next
        case (Inr activates)
        with unat_add_ticks [OF Inr] ticks lock show ?thesis
          unfolding eval by (auto simp: lock_def intro!: exI [of _ activates] exI [of _ lock])
      qed
    qed
  qed
qed

section \<open>One step\<close>

lemma tick_counts [simp]:
  "unat CORE_BOSS_LOAD_TIMEOUT_TICKS = 300" "unat CORE_BOSS_READY_COUNTDOWN_TICKS = 150"
  "unat CORE_BOSS_EMPTY_RESET_TICKS = 150" "unat CORE_CALDUS_INTRODUCTION_TICKS = 75"
  by (simp_all add: CORE_BOSS_LOAD_TIMEOUT_TICKS_def CORE_BOSS_READY_COUNTDOWN_TICKS_def
      CORE_BOSS_EMPTY_RESET_TICKS_def CORE_CALDUS_INTRODUCTION_TICKS_def)

definition step_error :: "core_boss_lock_simulation \<Rightarrow> core_boss_lock_error \<Rightarrow> bool" where
  "step_error sim e \<longleftrightarrow> e = AttemptOrdinalOverflow \<and> next_attempt_ordinal sim = - 1
     \<or> e = TickOverflow \<and> 2 ^ 64 \<le> unat (sim_tick sim) + 300"

text \<open>
  What a phase step may do, as a relation between the simulations before and after: the tick and, unless
  a lock is committed, the ordinal are kept; the invariant holds again; a lock stays or is cleared by a
  completed empty reset; a lock appears only when a ready countdown closes.
\<close>

definition phase_step :: "entrant_map \<Rightarrow> core_boss_lock_simulation \<Rightarrow> core_boss_lock_simulation \<Rightarrow> bool" where
  "phase_step m sim sim' \<longleftrightarrow> boss_inv sim' \<and> sim_tick sim' = sim_tick sim \<and>
     (case phase_lock (sim_phase sim) of
        Some lock \<Rightarrow> next_attempt_ordinal sim' = next_attempt_ordinal sim \<and>
          (phase_lock (sim_phase sim') = Some lock
           \<or> sim_phase sim' = BossWarning \<and> (\<exists>s r x. sim_phase sim = ResetPending s r lock x
                \<and> r \<le> sim_tick sim \<and> \<not> any_locked_living_inside lock m))
      | None \<Rightarrow>
          phase_lock (sim_phase sim') = None \<and> next_attempt_ordinal sim' = next_attempt_ordinal sim
          \<or> (\<exists>s c staged lock. sim_phase sim = ReadyCountdown s c staged \<and> c \<le> sim_tick sim
               \<and> phase_lock (sim_phase sim') = Some lock
               \<and> next_attempt_ordinal sim' = next_attempt_ordinal sim + 1
               \<and> lock_attempt_ordinal lock = next_attempt_ordinal sim
               \<and> lock_participants lock
                   = sort_key participant_key (filter (living_inside m) (merge_staged staged m))))"

definition step_result ::
  "entrant_map \<Rightarrow> core_boss_lock_simulation \<Rightarrow> core_boss_lock_error + lock_work \<Rightarrow> bool" where
  "step_result m sim r \<longleftrightarrow> (case r of Inl e \<Rightarrow> step_error sim e | Inr (sim', events) \<Rightarrow> phase_step m sim sim')"

lemma begin_countdown_result:
  assumes "sim_phase sim = Loading s staged" and "staged_ok staged"
  shows "case begin_countdown (sim, events) of
      Inl e \<Rightarrow> e = TickOverflow \<and> 2 ^ 64 \<le> unat (sim_tick sim) + 150
    | Inr (sim', events') \<Rightarrow> \<exists>closes. sim' = sim\<lparr>sim_phase := ReadyCountdown (sim_tick sim) closes staged\<rparr>"
  using assms by (auto simp: begin_countdown_def add_ticks_eq)

lemma warning_result:
  assumes valid: "validate_entrants es = Inr m" and phase: "sim_phase sim = BossWarning"
  shows "step_result m sim (step_phase_work m (sim, events))"
proof (cases "staged_participants m = []")
  case True
  with phase show ?thesis
    by (simp add: step_phase_work_def step_result_def phase_step_def boss_inv_def)
next
  case False
  let ?sim = "sim\<lparr>sim_phase := Loading (sim_tick sim) (staged_participants m)\<rparr>"
  have ok: "staged_ok (staged_participants m)"
    using False staged_participants_ok [OF valid] by (simp add: staged_ok_def)
  from begin_countdown_result [of ?sim _ _ "events @ [StagingStarted (sim_tick sim) (staged_participants m)]"] ok
  show ?thesis
    using False phase ok
    by (auto simp: step_phase_work_def maybe_begin_countdown_def step_result_def phase_step_def
        boss_inv_def step_error_def Let_def split: sum.splits)
qed

lemma update_roster_eq:
  assumes "sim_phase sim = mk staged"
  shows "\<exists>events'. update_roster mk staged m (sim, events)
    = (sim\<lparr>sim_phase := mk (merge_staged staged m)\<rparr>, events')"
  using assms by (auto simp: update_roster_def Let_def)

lemma loading_result:
  assumes valid: "validate_entrants es = Inr m" and phase: "sim_phase sim = Loading s staged"
    and inv: "boss_inv sim"
  shows "step_result m sim (step_phase_work m (sim, events))"
proof -
  let ?sim = "sim\<lparr>sim_phase := Loading s (merge_staged staged m)\<rparr>"
  have ok: "staged_ok staged" "s \<le> sim_tick sim"
    using inv phase by (auto simp: boss_inv_def)
  have merged: "staged_ok (merge_staged staged m)"
    by (rule merge_staged_ok [OF valid ok(1)])
  obtain events' where roster: "update_roster (Loading s) staged m (sim, events) = (?sim, events')"
    using update_roster_eq [of sim "Loading s"] phase by blast
  have "unat s \<le> unat (sim_tick sim)"
    using ok(2) by (simp add: word_le_nat_alt)
  with begin_countdown_result [of ?sim s _ events'] merged show ?thesis
    using phase ok(2)
    by (auto simp: step_phase_work_def roster step_result_def phase_step_def boss_inv_def
        step_error_def add_ticks_eq Let_def split: sum.splits if_splits)
qed

lemma countdown_result:
  assumes valid: "validate_entrants es = Inr m" and phase: "sim_phase sim = ReadyCountdown s c staged"
    and inv: "boss_inv sim"
  shows "step_result m sim (step_phase_work m (sim, events))"
proof -
  let ?sim = "sim\<lparr>sim_phase := ReadyCountdown s c (merge_staged staged m)\<rparr>"
  have merged: "staged_ok (merge_staged staged m)"
    using inv phase by (intro merge_staged_ok [OF valid]) (auto simp: boss_inv_def)
  obtain events' where roster: "update_roster (ReadyCountdown s c) staged m (sim, events) = (?sim, events')"
    using update_roster_eq [of sim "ReadyCountdown s c"] phase by blast
  show ?thesis
  proof (cases "c \<le> sim_tick sim")
    case False
    with phase roster merged show ?thesis
      by (simp add: step_phase_work_def step_result_def phase_step_def boss_inv_def)
  next
    case True
    have work: "step_phase_work m (sim, events) = commit_or_abandon m (?sim, events')"
      using True phase roster by (simp add: step_phase_work_def)
    note commit = commit_or_abandon_ready [OF valid _ merged, of ?sim s c events', simplified]
    show ?thesis
    proof (cases "commit_or_abandon m (?sim, events')")
      case (Inl e)
      with commit show ?thesis
        by (auto simp: work step_result_def step_error_def)
    next
      case (Inr r)
      obtain sim' events'' where r: "r = (sim', events'')" by (cases r)
      from commit consider
          (abandon) "sim' = ?sim\<lparr>sim_phase := BossWarning\<rparr>"
        | (lock) activates lock where "sim' = ?sim\<lparr>next_attempt_ordinal := next_attempt_ordinal sim + 1,
               sim_phase := Introduction (sim_tick sim) activates lock\<rparr>"
             "lock_ok (next_attempt_ordinal sim + 1) lock"
             "lock_participants lock = sort_key participant_key (filter (living_inside m) (merge_staged staged m))"
             "lock_attempt_ordinal lock = next_attempt_ordinal sim" "unat activates = unat (sim_tick sim) + 75"
        unfolding Inr r by auto
      then show ?thesis
      proof cases
        case abandon
        with Inr r phase show ?thesis
          by (simp add: work step_result_def phase_step_def boss_inv_def)
      next
        case lock
        with Inr r phase True show ?thesis
          by (simp add: work step_result_def phase_step_def boss_inv_def)
      qed
    qed
  qed
qed

lemma reset_resume_Inr:
  assumes "boss_inv sim" and "phase_lock (sim_phase sim) = Some lock"
    and "case sim_phase sim of Introduction s a l \<Rightarrow> sim_tick sim < a | Combat l \<Rightarrow> True | _ \<Rightarrow> False"
  shows "\<exists>resume. reset_resume sim = Inr (Some (lock, resume))
    \<and> (case resume of ResumeIntroduction t remaining \<Rightarrow> unat remaining \<le> 75 | ResumeCombat \<Rightarrow> True)"
proof (cases "sim_phase sim")
  case (Introduction s a l)
  with assms have a: "unat a \<le> unat (sim_tick sim) + 75" "sim_tick sim < a" and l: "l = lock"
    by (auto simp: boss_inv_def)
  have sub: "checked_sub a (sim_tick sim) = Some (a - sim_tick sim)"
    using a(2) by (simp add: checked_sub_def)
  have u: "unat (a - sim_tick sim) = unat a - unat (sim_tick sim)"
    using a(2) by (simp add: unat_sub)
  with a(1) have small: "unat (a - sim_tick sim) \<le> 75" by simp
  then have "(try_from_word (a - sim_tick sim) :: u32 option) = Some (ucast (a - sim_tick sim))"
    by (simp add: try_from_word_def)
  moreover from this have "unat (ucast (a - sim_tick sim) :: u32) \<le> 75"
    using small by (simp add: try_from_word_eq_Some)
  ultimately show ?thesis
    using Introduction sub l by (simp add: reset_resume_def)
qed (use assms in \<open>auto simp: reset_resume_def\<close>)

lemma empty_reset_result:
  assumes inv: "boss_inv sim" and lock: "phase_lock (sim_phase sim) = Some lock"
    and shape: "case sim_phase sim of Introduction s a l \<Rightarrow> sim_tick sim < a | Combat l \<Rightarrow> True | _ \<Rightarrow> False"
  shows "step_result m sim (maybe_begin_empty_reset m (sim, events))"
proof -
  from reset_resume_Inr [OF assms] obtain resume where r: "reset_resume sim = Inr (Some (lock, resume))"
    and small: "case resume of ResumeIntroduction t remaining \<Rightarrow> unat remaining \<le> 75 | ResumeCombat \<Rightarrow> True"
    by blast
  have ok: "lock_ok (next_attempt_ordinal sim) lock"
    using inv lock by (auto simp: boss_inv_def split: core_boss_lock_phase.splits)
  show ?thesis
  proof (cases "\<not> any_locked_living lock m \<and> any_living_party_outside lock m")
    case False
    with inv lock r show ?thesis
      by (auto simp: maybe_begin_empty_reset_def step_result_def phase_step_def)
  next
    case reset: True
    show ?thesis
    proof (cases "add_ticks (sim_tick sim) CORE_BOSS_EMPTY_RESET_TICKS")
      case (Inl e)
      with r reset show ?thesis
        by (simp add: maybe_begin_empty_reset_def step_result_def)
          (auto simp: add_ticks_eq step_error_def split: if_splits)
    next
      case (Inr resets)
      have "boss_inv (sim\<lparr>sim_phase := ResetPending (sim_tick sim) resets lock resume\<rparr>)"
        using ok small by (simp add: boss_inv_def)
      with lock r reset Inr show ?thesis
        by (simp add: maybe_begin_empty_reset_def step_result_def phase_step_def)
    qed
  qed
qed

lemma reset_pending_result:
  assumes inv: "boss_inv sim" and phase: "sim_phase sim = ResetPending s r lock resume"
  shows "step_result m sim (step_phase_work m (sim, events))"
proof (cases resume)
  case (ResumeIntroduction t remaining)
  show ?thesis
  proof (cases "any_locked_living_inside lock m")
    case False
    with inv phase show ?thesis
      by (auto simp: step_phase_work_def step_result_def phase_step_def boss_inv_def)
  next
    case inside: True
    have ok: "unat remaining \<le> 75" "lock_ok (next_attempt_ordinal sim) lock"
      using inv phase ResumeIntroduction by (auto simp: boss_inv_def)
    show ?thesis
    proof (cases "add_ticks (sim_tick sim) remaining")
      case (Inl e)
      with phase ResumeIntroduction inside ok(1) show ?thesis
        by (simp add: step_phase_work_def step_result_def)
          (auto simp: add_ticks_eq step_error_def split: if_splits)
    next
      case (Inr activates)
      have "boss_inv (sim\<lparr>sim_phase := Introduction t activates lock\<rparr>)"
        using ok unat_add_ticks [OF Inr] by (simp add: boss_inv_def)
      with phase ResumeIntroduction inside Inr show ?thesis
        by (simp add: step_phase_work_def step_result_def phase_step_def)
    qed
  qed
next
  case ResumeCombat
  with inv phase show ?thesis
    by (auto simp: step_phase_work_def step_result_def phase_step_def boss_inv_def)
qed

lemma step_phase_work_result:
  assumes valid: "validate_entrants es = Inr m" and inv: "boss_inv sim"
  shows "step_result m sim (step_phase_work m (sim, events))"
proof (cases "sim_phase sim")
  case (Introduction s a lock)
  show ?thesis
  proof (cases "a \<le> sim_tick sim")
    case True
    with Introduction inv show ?thesis
      by (auto simp: step_phase_work_def step_result_def phase_step_def boss_inv_def)
  next
    case False
    with Introduction inv empty_reset_result [OF inv, of lock] show ?thesis
      by (simp add: step_phase_work_def)
  qed
next
  case (Combat lock)
  with empty_reset_result [OF inv, of lock] show ?thesis
    by (simp add: step_phase_work_def)
qed (use warning_result [OF valid] loading_result [OF valid _ inv] countdown_result [OF valid _ inv]
    reset_pending_result [OF inv] in blast)+

section \<open>The state machine\<close>

inductive boss_step ::
  "core_boss_lock_simulation \<Rightarrow> core_boss_lock_input \<Rightarrow> core_boss_lock_simulation \<Rightarrow> bool" where
  boss_stepI: "boss_lock_step sim input = (r, sim') \<Longrightarrow> boss_step sim input sim'"

inductive_cases boss_stepE: "boss_step sim input sim'"

definition boss_initial :: "core_boss_lock_simulation \<Rightarrow> bool" where
  "boss_initial sim \<longleftrightarrow> (\<exists>t. sim = new_at_tick t)"

lemma phase_step_rejected:
  "phase_step m (sim\<lparr>rejected_late_entries := R\<rparr>) sim' = phase_step m sim sim'"
  by (cases "phase_lock (sim_phase sim)") (simp_all add: phase_step_def)

lemma step_inner_Inr:
  assumes "step_inner sim input = Inr (out, sim')" and "boss_inv sim"
  shows "\<exists>m mid. validate_entrants (in_entrants input) = Inr m \<and> in_tick input = sim_tick sim
    \<and> phase_step m sim mid \<and> sim' = mid\<lparr>sim_tick := sim_tick sim + 1\<rparr>
    \<and> unat (sim_tick sim') = unat (sim_tick sim) + 1
    \<and> step_tick out = sim_tick sim \<and> step_phase out = sim_phase sim'"
proof -
  from assms(1) obtain m mid events next_tick where tick: "in_tick input = sim_tick sim"
    and valid: "validate_entrants (in_entrants input) = Inr m"
    and work: "step_phase_work m (reject_late_entries m (sim, [])) = Inr (mid, events)"
    and nt: "add_ticks (sim_tick mid) 1 = Inr next_tick" and sim': "sim' = mid\<lparr>sim_tick := next_tick\<rparr>"
    and out: "step_tick out = sim_tick mid" "step_phase out = sim_phase mid"
    by (auto simp: step_inner_def split: if_splits)
  obtain R new where reject: "reject_late_entries m (sim, []) = (sim\<lparr>rejected_late_entries := R\<rparr>, new)"
    using reject_late_entries_only [of m sim "[]"] by auto
  from step_phase_work_result [OF valid, of "sim\<lparr>rejected_late_entries := R\<rparr>" new] assms(2) work reject
  have step: "phase_step m sim mid"
    by (simp add: step_result_def phase_step_rejected)
  then have t: "sim_tick mid = sim_tick sim"
    by (simp add: phase_step_def)
  have "unat next_tick = unat (sim_tick sim) + 1" "next_tick = sim_tick sim + 1"
    using unat_add_ticks [OF nt] nt t by (auto simp: add_ticks_eq split: if_splits)
  with tick valid step sim' out t show ?thesis by auto
qed

lemma boss_inv_tick:
  assumes "boss_inv sim" and "unat (sim_tick sim + 1) = unat (sim_tick sim) + 1"
  shows "boss_inv (sim\<lparr>sim_tick := sim_tick sim + 1\<rparr>)"
  using assms by (auto simp: boss_inv_def word_le_nat_alt split: core_boss_lock_phase.splits)

lemma boss_lock_step_cases:
  assumes "boss_lock_step sim input = (r, sim')"
  obtains (failed) e where "r = Inl e" "sim' = sim" "step_inner sim input = Inl e"
  | (stepped) out where "r = Inr out" "step_inner sim input = Inr (out, sim')"
  using assms by (auto simp: boss_lock_step_def split: sum.splits)

lemma boss_step_inv:
  assumes "boss_step sim input sim'" and "boss_inv sim"
  shows "boss_inv sim' \<and> unat (sim_tick sim) \<le> unat (sim_tick sim')"
proof -
  from assms(1) obtain r where "boss_lock_step sim input = (r, sim')"
    by (rule boss_stepE)
  then show ?thesis
  proof (cases rule: boss_lock_step_cases)
    case failed
    with assms(2) show ?thesis by simp
  next
    case (stepped out)
    from step_inner_Inr [OF stepped(2) assms(2)] obtain m mid where
      mid: "phase_step m sim mid" "sim' = mid\<lparr>sim_tick := sim_tick sim + 1\<rparr>"
        "unat (sim_tick sim') = unat (sim_tick sim) + 1"
      by blast
    have "boss_inv mid" "sim_tick mid = sim_tick sim"
      using mid(1) by (auto simp: phase_step_def)
    with boss_inv_tick [of mid] mid(2,3) show ?thesis by simp
  qed
qed

interpretation boss: monotone_system boss_initial boss_step boss_inv "\<lambda>sim. unat (sim_tick sim)"
  by unfold_locales (auto simp: boss_initial_def new_at_tick_def boss_inv_def [of "\<lparr>sim_tick = _, sim_phase = _,
      next_attempt_ordinal = _, rejected_late_entries = _\<rparr>"] dest: boss_step_inv)

text \<open>
  C10. In every reachable state of the boss lock a committed lock has between one and eight participants,
  all different and in party order, the boss health is 7200 plus 5184 for every participant after
  the first, and its attempt ordinal lies below the next one; while players stage, the roster is
  non-empty and without duplicates; time never runs backwards along a run.
\<close>

theorem boss_lock_reachable_ok:
  assumes "reachable boss_initial boss_step sim"
  shows "(\<forall>lock. phase_lock (sim_phase sim) = Some lock \<longrightarrow> lock_ok (next_attempt_ordinal sim) lock)
    \<and> (\<forall>s staged. sim_phase sim = Loading s staged \<longrightarrow> staged_ok staged)
    \<and> (\<forall>s c staged. sim_phase sim = ReadyCountdown s c staged \<longrightarrow> staged_ok staged)
    \<and> (\<forall>ts input sim'. trace boss_step sim ts \<and> (input, sim') \<in> set ts \<longrightarrow> sim_tick sim \<le> sim_tick sim')"
proof -
  have inv: "boss_inv sim"
    by (rule boss.reachable_inv [OF assms])
  have "lock_ok (next_attempt_ordinal sim) lock" if "phase_lock (sim_phase sim) = Some lock" for lock
    using inv that by (auto simp: boss_inv_def split: core_boss_lock_phase.splits)
  moreover have "sim_tick sim \<le> sim_tick sim'" if "trace boss_step sim ts" "(input, sim') \<in> set ts"
    for ts input sim'
    using boss.trace_progress [OF inv that] by (simp add: word_le_nat_alt)
  moreover have "sim_phase sim = Loading s staged \<Longrightarrow> staged_ok staged"
    "sim_phase sim = ReadyCountdown s c staged \<Longrightarrow> staged_ok staged" for s c staged
    using inv by (auto simp: boss_inv_def)
  ultimately show ?thesis by blast
qed

text \<open>
  A step on well-formed input cannot fail for an internal reason: in a reachable state, with the
  expected tick, validated entrants, at least 300 ticks left on the clock and an attempt ordinal
  left, it always succeeds. The errors for too many locked participants, an invalid participant
  count and arithmetic overflow are unreachable.
\<close>

lemma boss_lock_step_total:
  assumes reach: "reachable boss_initial boss_step sim" and tick: "in_tick input = sim_tick sim"
    and valid: "validate_entrants (in_entrants input) = Inr m"
    and room: "unat (sim_tick sim) + 300 < 2 ^ 64" and ordinal: "next_attempt_ordinal sim \<noteq> - 1"
  shows "\<exists>out sim'. boss_lock_step sim input = (Inr out, sim')"
proof -
  have inv: "boss_inv sim"
    by (rule boss.reachable_inv [OF reach])
  obtain R new where reject: "reject_late_entries m (sim, []) = (sim\<lparr>rejected_late_entries := R\<rparr>, new)"
    using reject_late_entries_only [of m sim "[]"] by auto
  have "step_result m (sim\<lparr>rejected_late_entries := R\<rparr>)
      (step_phase_work m (sim\<lparr>rejected_late_entries := R\<rparr>, new))"
    by (rule step_phase_work_result [OF valid]) (simp add: inv)
  with room ordinal obtain mid events where
    work: "step_phase_work m (sim\<lparr>rejected_late_entries := R\<rparr>, new) = Inr (mid, events)"
    and "phase_step m sim mid"
    by (auto simp: step_result_def step_error_def phase_step_rejected split: sum.splits)
  then have "sim_tick mid = sim_tick sim"
    by (simp add: phase_step_def)
  then have "add_ticks (sim_tick mid) 1 = Inr (sim_tick sim + 1)"
    using room by (simp add: add_ticks_eq)
  with tick valid reject work show ?thesis
    by (simp add: boss_lock_step_def step_inner_def)
qed

text \<open>
  C12. A committed lock is frozen: while the door is closed a step keeps the very same lock, so nobody can
  join or leave the roster or change the scaled health; the only way out is a completed empty
  reset, with the deadline passed and no locked participant alive inside.
\<close>

theorem boss_lock_frozen:
  assumes "boss_inv sim" and "phase_lock (sim_phase sim) = Some lock"
    and "boss_lock_step sim input = (Inr out, sim')"
  shows "phase_lock (sim_phase sim') = Some lock \<and> next_attempt_ordinal sim' = next_attempt_ordinal sim
    \<or> sim_phase sim' = BossWarning
      \<and> (\<exists>started resets resume. sim_phase sim = ResetPending started resets lock resume \<and> resets \<le> sim_tick sim)
      \<and> (\<forall>p \<in> set (lock_participants lock). \<forall>e \<in> set (in_entrants input).
           entrant_id e = part_entity_id p \<longrightarrow> \<not> (is_living e \<and> ent_inside_boundary e))"
proof -
  from assms(3) have "step_inner sim input = Inr (out, sim')"
    by (auto simp: boss_lock_step_def split: sum.splits)
  from step_inner_Inr [OF this assms(1)] obtain m mid where
    valid: "validate_entrants (in_entrants input) = Inr m" and mid: "phase_step m sim mid"
    and sim': "sim' = mid\<lparr>sim_tick := sim_tick sim + 1\<rparr>"
    by blast
  have "(\<forall>p \<in> set (lock_participants lock). \<forall>e \<in> set (in_entrants input).
           entrant_id e = part_entity_id p \<longrightarrow> \<not> (is_living e \<and> ent_inside_boundary e))"
    if "\<not> any_locked_living_inside lock m"
    using that living_inside_iff [OF valid]
    by (auto simp: any_locked_living_inside_def list_ex_iff simp flip: living_inside_def)
  with mid assms(2) sim' show ?thesis
    by (auto simp: phase_step_def)
qed

text \<open>
  C11. A lock is committed only when a ready countdown closes, and it takes exactly the staged players who
  are alive inside the boundary at that tick: a step that creates a lock starts from a ready
  countdown whose deadline has passed, and the participants are the members of the updated roster
  that some entrant shows living and inside; the lock carries the next attempt ordinal.
\<close>

theorem boss_lock_commit_exact:
  assumes "boss_inv sim" and "phase_lock (sim_phase sim) = None"
    and "boss_lock_step sim input = (Inr out, sim')" and "phase_lock (sim_phase sim') = Some lock"
  shows "\<exists>started closes staged m. sim_phase sim = ReadyCountdown started closes staged
    \<and> closes \<le> sim_tick sim \<and> validate_entrants (in_entrants input) = Inr m
    \<and> set (lock_participants lock) = {p \<in> set (merge_staged staged m). \<exists>e \<in> set (in_entrants input).
        entrant_id e = part_entity_id p \<and> is_living e \<and> ent_inside_boundary e}
    \<and> lock_attempt_ordinal lock = next_attempt_ordinal sim
    \<and> next_attempt_ordinal sim' = next_attempt_ordinal sim + 1"
proof -
  from assms(3) have "step_inner sim input = Inr (out, sim')"
    by (auto simp: boss_lock_step_def split: sum.splits)
  from step_inner_Inr [OF this assms(1)] obtain m mid where
    valid: "validate_entrants (in_entrants input) = Inr m" and mid: "phase_step m sim mid"
    and sim': "sim' = mid\<lparr>sim_tick := sim_tick sim + 1\<rparr>"
    by blast
  from mid assms(2,4) sim' obtain s c staged where phase: "sim_phase sim = ReadyCountdown s c staged" "c \<le> sim_tick sim"
    and lock: "lock_attempt_ordinal lock = next_attempt_ordinal sim"
      "next_attempt_ordinal sim' = next_attempt_ordinal sim + 1"
      "lock_participants lock = sort_key participant_key (filter (living_inside m) (merge_staged staged m))"
    by (auto simp: phase_step_def)
  have "set (lock_participants lock) = {p \<in> set (merge_staged staged m). \<exists>e \<in> set (in_entrants input).
        entrant_id e = part_entity_id p \<and> is_living e \<and> ent_inside_boundary e}"
    unfolding lock(3) by (simp add: living_inside_iff [OF valid])
  with phase lock(1,2) valid show ?thesis by blast
qed

section \<open>A concrete attempt\<close>

definition sample_player :: core_boss_participant where
  "sample_player = \<lparr>part_entity_id = EntityId 9, part_party_slot = 2\<rparr>"

definition sample_entrant :: core_boss_entrant_input where
  "sample_entrant = \<lparr>ent_participant = sample_player, ent_connection = ConnectedLoaded, ent_life = Living,
     ent_inside_boundary = True\<rparr>"

definition sample_input :: "tick \<Rightarrow> core_boss_lock_input" where
  "sample_input t = \<lparr>in_tick = t, in_entrants = [sample_entrant]\<rparr>"

definition sample_ready :: core_boss_lock_simulation where
  "sample_ready = \<lparr>sim_tick = 150, sim_phase = ReadyCountdown 0 150 [sample_player],
     next_attempt_ordinal = 1, rejected_late_entries = {}\<rparr>"

definition sample_lock :: core_boss_participant_lock where
  "sample_lock = \<lparr>lock_attempt_ordinal = 1, lock_participants = [sample_player], lock_maximum_health = 7200\<rparr>"

definition sample_locked :: core_boss_lock_simulation where
  "sample_locked = \<lparr>sim_tick = 151, sim_phase = Introduction 150 225 sample_lock,
     next_attempt_ordinal = 2, rejected_late_entries = {}\<rparr>"

lemma sample_entrants: "validate_entrants [sample_entrant] = Inr [(EntityId 9, sample_entrant)]"
  by (simp add: validate_entrants_def validate_entrant_def sample_entrant_def sample_player_def
      CORE_BOSS_MAXIMUM_PARTICIPANTS_def btree_get_def)

lemma sample_health: "scaled_caldus_health 1 = Inr 7200"
  using scaled_caldus_health_exact [of 1] by (simp add: caldus_health_def)

lemma sample_roster: "merge_staged [sample_player] [(EntityId 9, sample_entrant)] = [sample_player]"
  by (simp add: merge_staged_def staged_participants_def btree_values_def sample_entrant_def is_connected_def
      is_living_def)

abbreviation sample_map :: entrant_map where
  "sample_map \<equiv> [(EntityId 9, sample_entrant)]"

lemma sample_present [simp]:
  "btree_get sample_map (part_entity_id sample_player) = Some sample_entrant"
  "is_living sample_entrant" "ent_inside_boundary sample_entrant"
  by (simp_all add: btree_get_def sample_player_def sample_entrant_def is_living_def)

lemma sample_close: "\<exists>events. commit_or_abandon sample_map (sample_ready, []) = Inr
    (sample_locked\<lparr>sim_tick := 150\<rparr>, events)"
  unfolding sample_ready_def sample_locked_def sample_lock_def
  by (simp add: commit_or_abandon_def is_some_and_def CORE_BOSS_MAXIMUM_PARTICIPANTS_def Let_def
      checked_add_def try_from_usize_def sample_health add_ticks_def CORE_CALDUS_INTRODUCTION_TICKS_def)

lemma sample_commit: "\<exists>out. boss_lock_step sample_ready (sample_input 150) = (Inr out, sample_locked)"
proof -
  have "reject_late_entries sample_map (sample_ready, []) = (sample_ready, [])"
    by (simp add: reject_late_entries_def sample_ready_def)
  moreover have "step_phase_work sample_map (sample_ready, []) = commit_or_abandon sample_map (sample_ready, [])"
    by (simp add: step_phase_work_def update_roster_def sample_roster sample_ready_def)
  moreover have "sample_ready\<lparr>sim_tick := 150\<rparr> = sample_ready" "sim_tick sample_ready = 150"
    by (simp_all add: sample_ready_def)
  ultimately show ?thesis using sample_close
    by (auto simp: boss_lock_step_def step_inner_def sample_input_def sample_entrants add_ticks_def
        checked_add_def sample_locked_def)
qed

lemma sample_inv: "boss_inv sample_ready" "boss_inv sample_locked"
  by (simp_all add: boss_inv_def sample_ready_def sample_locked_def staged_ok_def lock_ok_def sample_lock_def
      caldus_health_def)

theorem boss_lock_reachable_ok_witness:
  "sim_tick (new_at_tick 5) \<le> sim_tick (snd (boss_lock_step (new_at_tick 5) (sample_input 5)))"
proof -
  have reach: "reachable boss_initial boss_step (new_at_tick 5)"
    by (rule reachable_initial) (auto simp: boss_initial_def)
  have "trace boss_step (new_at_tick 5)
      [(sample_input 5, snd (boss_lock_step (new_at_tick 5) (sample_input 5)))]"
    by (auto intro: boss_stepI [of _ _ "fst (boss_lock_step (new_at_tick 5) (sample_input 5))"])
  with boss_lock_reachable_ok [OF reach] show ?thesis
    by (metis list.set_intros(1))
qed

theorem boss_lock_commit_exact_witness:
  "set (lock_participants sample_lock) = {sample_player} \<and> lock_attempt_ordinal sample_lock = 1"
proof -
  obtain out where "boss_lock_step sample_ready (sample_input 150) = (Inr out, sample_locked)"
    using sample_commit by blast
  from boss_lock_commit_exact [OF sample_inv(1) _ this, of sample_lock] obtain staged m where
    "sim_phase sample_ready = ReadyCountdown 0 150 staged" "validate_entrants (in_entrants (sample_input 150)) = Inr m"
    "set (lock_participants sample_lock) \<subseteq> set (merge_staged staged m)"
    "lock_attempt_ordinal sample_lock = next_attempt_ordinal sample_ready"
    by (auto simp: sample_ready_def sample_locked_def)
  then show ?thesis
    by (auto simp: sample_ready_def sample_input_def sample_entrants sample_roster sample_lock_def)
qed

lemma sample_intro: "\<exists>out sim'. boss_lock_step sample_locked (sample_input 151) = (Inr out, sim')
    \<and> sim_phase sim' = Introduction 150 225 sample_lock"
  by (simp add: boss_lock_step_def step_inner_def sample_input_def sample_entrants sample_locked_def
      reject_late_entries_def step_phase_work_def Let_def btree_values_def sample_lock_def
      maybe_begin_empty_reset_def reset_resume_def checked_sub_def try_from_word_def any_locked_living_def
      btree_get_def is_some_and_def add_ticks_eq)
    (simp add: sample_player_def sample_entrant_def is_living_def)

theorem boss_lock_frozen_witness:
  "\<exists>out sim'. boss_lock_step sample_locked (sample_input 151) = (Inr out, sim')
     \<and> phase_lock (sim_phase sim') = Some sample_lock"
proof -
  obtain out sim' where step: "boss_lock_step sample_locked (sample_input 151) = (Inr out, sim')"
    using sample_intro by blast
  have "phase_lock (sim_phase sample_locked) = Some sample_lock"
    by (simp add: sample_locked_def)
  from boss_lock_frozen [OF sample_inv(2) this step] step show ?thesis
    by (auto simp: sample_locked_def)
qed

end
