(* ===== verification/Byte_Encoding.thy ===== *)
theory Byte_Encoding
  imports Gravebound_Prelude
begin

text \<open>
  Byte encodings of hash input. The identifier derivations, the equipment preview and the named
  random streams of \<open>sim_core\<close> feed a hash with little-endian integers and length-prefixed
  fields; what makes the streams and identities separate is that two different inputs never
  encode to the same bytes. The contract \<open>prefix_code\<close> states this for one encoder (a decoder
  that reads the value back off the front of any byte string), and the encoders of the program
  are its interpretations.
\<close>

section \<open>The contract of an encoder\<close>

locale prefix_code =
  fixes valid :: "'a \<Rightarrow> bool"
    and encode :: "'a \<Rightarrow> bytes"
    and decode :: "bytes \<Rightarrow> ('a \<times> bytes) option"
  assumes decode_encode: "valid x \<Longrightarrow> decode (encode x @ rest) = Some (x, rest)"
begin

lemma encode_append_inject:
  assumes "valid x" "valid y" "encode x @ r = encode y @ s"
  shows "x = y \<and> r = s"
proof -
  have "Some (x, r) = Some (y, s)"
    unfolding decode_encode [OF assms(1), of r, symmetric] decode_encode [OF assms(2), of s, symmetric]
    by (rule arg_cong [OF assms(3)])
  then show ?thesis by simp
qed

lemma encode_inject: "valid x \<Longrightarrow> valid y \<Longrightarrow> encode x = encode y \<longleftrightarrow> x = y"
  using encode_append_inject [of x y "[]" "[]"] by auto

end

text \<open>An encoder that never yields the empty string can be repeated: the sequence is decodable too.\<close>

locale item_code = prefix_code valid encode decode
  for valid :: "'a \<Rightarrow> bool" and encode :: "'a \<Rightarrow> bytes" and decode :: "bytes \<Rightarrow> ('a \<times> bytes) option" +
  assumes encode_nonempty: "encode x \<noteq> []"
begin

lemma encode_list_inject:
  assumes "list_all valid xs" "list_all valid ys" "concat (map encode xs) = concat (map encode ys)"
  shows "xs = ys"
  using assms
proof (induction xs arbitrary: ys)
  case Nil
  then show ?case
    using encode_nonempty by (cases ys) auto
next
  case (Cons x xs)
  then obtain y ys' where ys: "ys = y # ys'"
    using encode_nonempty [of x] by (cases ys) auto
  with Cons.prems have "x = y \<and> concat (map encode xs) = concat (map encode ys')"
    by (intro encode_append_inject) auto
  with Cons ys show ?case by simp
qed

end

section \<open>Little-endian integers\<close>

fun le_bytes :: "nat \<Rightarrow> nat \<Rightarrow> bytes" where
  "le_bytes 0 v = []"
| "le_bytes (Suc n) v = of_nat (v mod 256) # le_bytes n (v div 256)"

fun of_le_bytes :: "bytes \<Rightarrow> nat" where
  "of_le_bytes [] = 0"
| "of_le_bytes (b # bs) = unat b + 256 * of_le_bytes bs"

text \<open>\<open>to_le_bytes()\<close> of an unsigned integer whose width is a multiple of eight.\<close>

definition to_le_bytes :: "'a::len word \<Rightarrow> bytes" where
  "to_le_bytes w = le_bytes (LENGTH('a) div 8) (unat w)"

definition from_le_bytes :: "bytes \<Rightarrow> ('a::len word \<times> bytes) option" where
  "from_le_bytes bs =
     (let n = LENGTH('a) div 8 in
      if length bs < n then None else Some (of_nat (of_le_bytes (take n bs)), drop n bs))"

lemma length_le_bytes [simp]: "length (le_bytes n v) = n"
  by (induction n arbitrary: v) auto

lemma of_le_bytes_le_bytes: "of_le_bytes (le_bytes n v) = v mod 256 ^ n"
proof (induction n arbitrary: v)
  case (Suc n)
  have "unat (of_nat (v mod 256) :: u8) = v mod 256"
    by (simp add: unat_of_nat take_bit_nat_eq_self)
  with Suc [of "v div 256"] show ?case
    by (simp add: mod_mult2_eq algebra_simps)
qed simp

lemma of_le_bytes_word:
  assumes "8 dvd LENGTH('a)"
  shows "of_le_bytes (to_le_bytes w) = unat (w :: 'a::len word)"
proof -
  have "(256 :: nat) ^ (LENGTH('a) div 8) = 2 ^ (8 * (LENGTH('a) div 8))"
    by (simp add: power_mult)
  also have "\<dots> = 2 ^ LENGTH('a)"
    using assms by simp
  finally show ?thesis
    using unat_bound [of w] by (simp add: to_le_bytes_def of_le_bytes_le_bytes)
qed

lemma length_to_le_bytes [simp]: "length (to_le_bytes (w :: 'a::len word)) = LENGTH('a) div 8"
  by (simp add: to_le_bytes_def)

lemma from_to_le_bytes:
  "8 dvd LENGTH('a) \<Longrightarrow> from_le_bytes (to_le_bytes w @ rest) = Some (w :: 'a::len word, rest)"
  using of_le_bytes_word [of w] by (simp add: from_le_bytes_def Let_def)

interpretation le16: prefix_code "\<lambda>_. True" "to_le_bytes :: u16 \<Rightarrow> bytes" from_le_bytes
  by unfold_locales (simp add: from_to_le_bytes)

interpretation le32: prefix_code "\<lambda>_. True" "to_le_bytes :: u32 \<Rightarrow> bytes" from_le_bytes
  by unfold_locales (simp add: from_to_le_bytes)

interpretation le64: prefix_code "\<lambda>_. True" "to_le_bytes :: u64 \<Rightarrow> bytes" from_le_bytes
  by unfold_locales (simp add: from_to_le_bytes)

lemmas le_bytes_inject [simp] =
  le16.encode_inject [OF TrueI TrueI] le32.encode_inject [OF TrueI TrueI] le64.encode_inject [OF TrueI TrueI]

section \<open>Length-prefixed fields\<close>

text \<open>A field is preceded by its length as a little-endian \<open>u32\<close>.\<close>

definition framed :: "bytes \<Rightarrow> bytes" where
  "framed field = to_le_bytes (of_nat (length field) :: u32) @ field"

definition fits_u32 :: "bytes \<Rightarrow> bool" where
  "fits_u32 field \<longleftrightarrow> length field < 2 ^ 32"

definition unframed :: "bytes \<Rightarrow> (bytes \<times> bytes) option" where
  "unframed bs =
     (case (from_le_bytes bs :: (u32 \<times> bytes) option) of
        None \<Rightarrow> None
      | Some (n, rest) \<Rightarrow>
          if length rest < unat n then None else Some (take (unat n) rest, drop (unat n) rest))"

interpretation field: item_code fits_u32 framed unframed
proof
  fix x rest assume "fits_u32 x"
  then have "unat (of_nat (length x) :: u32) = length x"
    by (simp add: fits_u32_def)
  then show "unframed (framed x @ rest) = Some (x, rest)"
    by (simp add: framed_def unframed_def from_to_le_bytes)
next
  fix x show "framed x \<noteq> []"
    by (auto simp: framed_def simp flip: length_0_conv)
qed

definition frames :: "bytes list \<Rightarrow> bytes" where
  "frames fields = concat (map framed fields)"

lemma frames_simps [simp]:
  "frames [] = []" "frames (f # fs) = framed f @ frames fs" "frames (fs @ gs) = frames fs @ frames gs"
  by (simp_all add: frames_def)

lemma frames_inject:
  "list_all fits_u32 fs \<Longrightarrow> list_all fits_u32 gs \<Longrightarrow> frames fs = frames gs \<longleftrightarrow> fs = gs"
  using field.encode_list_inject by (auto simp: frames_def)

section \<open>Strings\<close>

text \<open>\<open>str::as_bytes\<close>: a string is modelled by its bytes, one character each.\<close>

definition as_bytes :: "string \<Rightarrow> bytes" where
  "as_bytes s = map of_char s"

lemma of_char_u8_inject [simp]: "(of_char c :: u8) = of_char d \<longleftrightarrow> c = d"
proof -
  have "unat (of_char c :: u8) = of_char c" for c
  proof -
    have "of_char c < (256 :: nat)"
      by (metis mod_less_divisor of_char_mod_256 zero_less_numeral)
    then show ?thesis
      by (subst of_nat_of_char [symmetric]) simp
  qed
  then show ?thesis
    by (metis of_char_eq_iff)
qed

lemma as_bytes_inject [simp]: "as_bytes s = as_bytes t \<longleftrightarrow> s = t"
  by (auto simp: as_bytes_def inj_map_eq_map inj_def)

lemma length_as_bytes [simp]: "length (as_bytes s) = length s"
  by (simp add: as_bytes_def)

end
