(* ===== verification/Item_Lifecycle.thy ===== *)
theory Item_Lifecycle
  imports Durable_Slots Byte_Encoding
begin

text \<open>
  The item lifecycle rules of \<open>sim_core/src/item_lifecycle.rs\<close>: derivation of item identities from
  hashed, length-prefixed fields; the field equipment swap with its preview and application; and
  the placement of consumable and equipment rewards in the run backpack. The key derivation
  function (\<open>blake3::derive_key\<close>) is a parameter \<open>derive_key\<close> from a context and the hashed
  material to the derived bytes. A fixed-size array is a list; \<open>field_shape\<close> states the lengths
  that the array types fix.
\<close>

section \<open>Data\<close>

text \<open>The rarity \<open>Relic\<close> is written \<open>RelicRarity\<close>, apart from the slot of that name.\<close>

datatype equipment_slot = Weapon | Relic | Armor | Charm

datatype equipment_rarity = Worn | Forged | Oathed | RelicRarity | Sainted | BlackUnique

fun slot_position :: "equipment_slot \<Rightarrow> nat" where
  "slot_position Weapon = 0"
| "slot_position Relic = 1"
| "slot_position Armor = 2"
| "slot_position Charm = 3"

fun rarity_code :: "equipment_rarity \<Rightarrow> u8" where
  "rarity_code Worn = 0"
| "rarity_code Forged = 1"
| "rarity_code Oathed = 2"
| "rarity_code RelicRarity = 3"
| "rarity_code Sainted = 4"
| "rarity_code BlackUnique = 5"

record durable_equipment_item =
  eq_item_uid :: item_uid
  eq_template_id :: string
  eq_legal_slot :: equipment_slot
  eq_item_level :: u8
  eq_rarity :: equipment_rarity
  eq_item_version :: u64

datatype durable_run_backpack_slot =
    BackpackEmpty
  | BackpackEquipment durable_equipment_item
  | BackpackConsumable

record field_equipment_snapshot =
  fe_inventory_version :: u64
  fe_equipped :: "durable_equipment_item option list"
  fe_backpack :: "durable_run_backpack_slot list"

datatype field_equipment_source =
    SourceRunBackpack u8
  | SourcePersonalGround durable_equipment_item bytes bytes u64

datatype replacement_destination = NoDestination | DestinationRunBackpack u8

record field_equipment_preview =
  pv_inventory_version :: u64
  pv_content_revision :: string
  pv_source :: field_equipment_source
  pv_incoming :: durable_equipment_item
  pv_replaced :: "durable_equipment_item option"
  pv_replacement_destination :: replacement_destination
  pv_preview_hash :: bytes

datatype run_backpack_slot = RunEmpty | RunEquipment | RunConsumable string u16

record stack_placement =
  sp_slot_index :: u8
  sp_quantity :: u16

record consumable_placement_plan =
  cp_backpack :: "stack_placement list"
  cp_personal_ground_quantity :: u16

datatype equipment_placement_plan = PlaceRunBackpack u8 | PlacePersonalGround

section \<open>Hashed material and identity derivation\<close>

definition push_hash_field :: "bytes \<Rightarrow> bytes \<Rightarrow> item_lifecycle_error + bytes" where
  "push_hash_field field material =
     and_then (ok_or (try_from_usize (length field)) DerivationFieldTooLong) (\<lambda>length32 :: u32.
       Inr (material @ to_le_bytes length32 @ field))"

definition push_equipment_hash_fields ::
  "durable_equipment_item \<Rightarrow> bytes \<Rightarrow> item_lifecycle_error + bytes" where
  "push_equipment_hash_fields item material =
     try_fold push_hash_field
       [uid_bytes (eq_item_uid item),
        as_bytes (eq_template_id item),
        [of_nat (slot_position (eq_legal_slot item)), eq_item_level item, rarity_code (eq_rarity item)],
        to_le_bytes (eq_item_version item)] material"

definition source_hash_fields :: "field_equipment_source \<Rightarrow> bytes list" where
  "source_hash_fields source =
     (case source of
        SourceRunBackpack slot_index \<Rightarrow> [[0, slot_index]]
      | SourcePersonalGround item instance_id pickup_id expires_at_tick \<Rightarrow>
          [[1], instance_id, pickup_id, to_le_bytes expires_at_tick])"

definition preview_material ::
  "u64 \<Rightarrow> string \<Rightarrow> field_equipment_source \<Rightarrow> durable_equipment_item \<Rightarrow> durable_equipment_item option
     \<Rightarrow> replacement_destination \<Rightarrow> item_lifecycle_error + bytes" where
  "preview_material inventory_version content_revision source incoming replaced destination =
     and_then (push_hash_field (to_le_bytes inventory_version) []) (\<lambda>m.
     and_then (push_hash_field (as_bytes content_revision) m) (\<lambda>m.
     and_then (try_fold push_hash_field (source_hash_fields source) m) (\<lambda>m.
     and_then (push_equipment_hash_fields incoming m) (\<lambda>m.
     and_then (case replaced of
                 Some item \<Rightarrow> and_then (push_hash_field [1] m) (push_equipment_hash_fields item)
               | None \<Rightarrow> push_hash_field [0] m) (\<lambda>m.
     case destination of
       NoDestination \<Rightarrow> push_hash_field [0] m
     | DestinationRunBackpack slot_index \<Rightarrow> push_hash_field [1, slot_index] m)))))"

definition field_equipment_preview_hash ::
  "(string \<Rightarrow> bytes \<Rightarrow> bytes) \<Rightarrow> u64 \<Rightarrow> string \<Rightarrow> field_equipment_source \<Rightarrow> durable_equipment_item
     \<Rightarrow> durable_equipment_item option \<Rightarrow> replacement_destination \<Rightarrow> item_lifecycle_error + bytes" where
  "field_equipment_preview_hash derive_key inventory_version content_revision source incoming replaced destination =
     and_then (preview_material inventory_version content_revision source incoming replaced destination)
       (\<lambda>material. Inr (derive_key ''gravebound.field-equipment-preview.v1'' material))"

definition ITEM_UID_CONTEXT :: string where
  "ITEM_UID_CONTEXT = ''gravebound.item-uid.v1''"

definition STARTER_UID_CONTEXT :: string where
  "STARTER_UID_CONTEXT = ''gravebound.starter-init.v1''"

definition derive_uid ::
  "(string \<Rightarrow> bytes \<Rightarrow> bytes) \<Rightarrow> string \<Rightarrow> bytes list \<Rightarrow> item_lifecycle_error + item_uid" where
  "derive_uid derive_key key_context parts =
     and_then (try_fold push_hash_field parts []) (\<lambda>material.
       new_item_uid (take ITEM_UID_BYTES (derive_key key_context material)))"

definition derive_reward_item_uid ::
  "(string \<Rightarrow> bytes \<Rightarrow> bytes) \<Rightarrow> bytes \<Rightarrow> u16 \<Rightarrow> u16 \<Rightarrow> item_lifecycle_error + item_uid" where
  "derive_reward_item_uid derive_key reward_request_id roll_index unit_ordinal =
     derive_uid derive_key ITEM_UID_CONTEXT
       [reward_request_id, to_le_bytes roll_index, to_le_bytes unit_ordinal]"

definition derive_starter_item_uid ::
  "(string \<Rightarrow> bytes \<Rightarrow> bytes) \<Rightarrow> bytes \<Rightarrow> string \<Rightarrow> string \<Rightarrow> u16 \<Rightarrow> item_lifecycle_error + item_uid" where
  "derive_starter_item_uid derive_key character_id initializer_revision template_id unit_ordinal =
     (if initializer_revision = [] \<or> template_id = [] then Inl EmptyTemplateId
      else derive_uid derive_key STARTER_UID_CONTEXT
        [character_id, as_bytes initializer_revision, as_bytes template_id, to_le_bytes unit_ordinal])"

section \<open>The field equipment swap\<close>

definition validate_equipment_item :: "durable_equipment_item \<Rightarrow> item_lifecycle_error + unit" where
  "validate_equipment_item item =
     (if eq_template_id item = [] then Inl EmptyEquipmentTemplateId
      else if \<not> (1 \<le> eq_item_level item \<and> eq_item_level item \<le> 20) then Inl InvalidEquipmentItemLevel
      else if eq_item_version item = 0 then Inl InvalidEquipmentItemVersion
      else Inr ())"

definition validate_equipped ::
  "nat \<times> durable_equipment_item option \<Rightarrow> item_uid list \<Rightarrow> item_lifecycle_error + item_uid list" where
  "validate_equipped entry identities =
     (case entry of
        (index, None) \<Rightarrow> Inr identities
      | (index, Some item) \<Rightarrow>
          and_then (validate_equipment_item item) (\<lambda>_.
            if slot_position (eq_legal_slot item) \<noteq> index then Inl IllegalEquippedSlot
            else Inr (identities @ [eq_item_uid item])))"

definition validate_backpack_slot ::
  "durable_run_backpack_slot \<Rightarrow> item_uid list \<Rightarrow> item_lifecycle_error + item_uid list" where
  "validate_backpack_slot slot identities =
     (case slot of
        BackpackEquipment item \<Rightarrow>
          and_then (validate_equipment_item item) (\<lambda>_. Inr (identities @ [eq_item_uid item]))
      | _ \<Rightarrow> Inr identities)"

definition validate_field_snapshot :: "field_equipment_snapshot \<Rightarrow> item_lifecycle_error + unit" where
  "validate_field_snapshot snapshot =
     (if fe_inventory_version snapshot = 0 then Inl InvalidInventoryVersion
      else and_then (try_fold validate_equipped (enumerate 0 (fe_equipped snapshot)) []) (\<lambda>identities.
           and_then (try_fold validate_backpack_slot (fe_backpack snapshot) identities) (\<lambda>identities.
             if \<not> windows2_all (\<noteq>) (sort identities) then Inl DuplicateEquipmentItem else Inr ())))"

definition snapshot_contains :: "field_equipment_snapshot \<Rightarrow> item_uid \<Rightarrow> bool" where
  "snapshot_contains snapshot uid \<longleftrightarrow>
     list_ex (\<lambda>entry. case entry of Some item \<Rightarrow> eq_item_uid item = uid | None \<Rightarrow> False) (fe_equipped snapshot)
     \<or> list_ex (\<lambda>slot. case slot of BackpackEquipment item \<Rightarrow> eq_item_uid item = uid | _ \<Rightarrow> False)
         (fe_backpack snapshot)"

definition incoming_item ::
  "field_equipment_snapshot \<Rightarrow> field_equipment_source \<Rightarrow> u64
     \<Rightarrow> item_lifecycle_error + durable_equipment_item" where
  "incoming_item snapshot source now_tick =
     (case source of
        SourceRunBackpack slot_index \<Rightarrow>
          and_then (ok_or (get (fe_backpack snapshot) (unat slot_index)) RunBackpackSourceOutOfRange) (\<lambda>slot.
            case slot of BackpackEquipment item \<Rightarrow> Inr item | _ \<Rightarrow> Inl RunBackpackSourceNotEquipment)
      | SourcePersonalGround item instance_id pickup_id expires_at_tick \<Rightarrow>
          and_then (validate_equipment_item item) (\<lambda>_.
            if instance_id = replicate 16 0 \<or> pickup_id = replicate 16 0 then Inl ZeroPersonalGroundPickupId
            else if now_tick \<ge> expires_at_tick then Inl PersonalGroundExpired
            else if snapshot_contains snapshot (eq_item_uid item) then Inl DuplicateEquipmentItem
            else Inr item))"

definition replacement_destination_of ::
  "field_equipment_snapshot \<Rightarrow> field_equipment_source \<Rightarrow> durable_equipment_item option
     \<Rightarrow> item_lifecycle_error + replacement_destination" where
  "replacement_destination_of snapshot source replaced =
     (case (source, replaced) of
        (_, None) \<Rightarrow> Inr NoDestination
      | (SourceRunBackpack slot_index, Some _) \<Rightarrow> Inr (DestinationRunBackpack slot_index)
      | (SourcePersonalGround _ _ _ _, Some _) \<Rightarrow>
          and_then (ok_or (position (\<lambda>slot. slot = BackpackEmpty) (fe_backpack snapshot))
                     BackpackFullForPersonalGroundSwap) (\<lambda>index.
          and_then (ok_or (try_from_usize index) InvalidRunBackpackCapacity) (\<lambda>slot_index.
            Inr (DestinationRunBackpack slot_index))))"

definition plan_field_equipment_swap ::
  "(string \<Rightarrow> bytes \<Rightarrow> bytes) \<Rightarrow> field_equipment_snapshot \<Rightarrow> field_equipment_source \<Rightarrow> string \<Rightarrow> u64
     \<Rightarrow> item_lifecycle_error + field_equipment_preview" where
  "plan_field_equipment_swap derive_key snapshot source content_revision now_tick =
     and_then (validate_field_snapshot snapshot) (\<lambda>_.
     if content_revision = [] then Inl EmptyContentRevision
     else and_then (incoming_item snapshot source now_tick) (\<lambda>incoming.
     let replaced = fe_equipped snapshot ! slot_position (eq_legal_slot incoming) in
     and_then (replacement_destination_of snapshot source replaced) (\<lambda>destination.
     and_then (field_equipment_preview_hash derive_key (fe_inventory_version snapshot) content_revision
                 source incoming replaced destination) (\<lambda>preview_hash.
       Inr \<lparr>pv_inventory_version = fe_inventory_version snapshot, pv_content_revision = content_revision,
            pv_source = source, pv_incoming = incoming, pv_replaced = replaced,
            pv_replacement_destination = destination, pv_preview_hash = preview_hash\<rparr>))))"

definition apply_source ::
  "field_equipment_preview \<Rightarrow> field_equipment_snapshot
     \<Rightarrow> item_lifecycle_error + field_equipment_snapshot" where
  "apply_source preview snapshot =
     (case pv_source preview of
        SourceRunBackpack slot_index \<Rightarrow>
          Inr (snapshot\<lparr>fe_backpack := (fe_backpack snapshot)[unat slot_index :=
                 (case pv_replaced preview of None \<Rightarrow> BackpackEmpty | Some item \<Rightarrow> BackpackEquipment item)]\<rparr>)
      | SourcePersonalGround _ _ _ _ \<Rightarrow>
          (case pv_replacement_destination preview of
             DestinationRunBackpack slot_index \<Rightarrow>
               and_then (ok_or (pv_replaced preview) StaleEquipmentPreview) (\<lambda>item.
                 Inr (snapshot\<lparr>fe_backpack := (fe_backpack snapshot)[unat slot_index := BackpackEquipment item]\<rparr>))
           | NoDestination \<Rightarrow> Inr snapshot))"

definition apply_field_equipment_preview ::
  "(string \<Rightarrow> bytes \<Rightarrow> bytes) \<Rightarrow> field_equipment_snapshot \<Rightarrow> field_equipment_preview \<Rightarrow> u64
     \<Rightarrow> item_lifecycle_error + field_equipment_snapshot" where
  "apply_field_equipment_preview derive_key snapshot preview now_tick =
     and_then (plan_field_equipment_swap derive_key snapshot (pv_source preview)
                 (pv_content_revision preview) now_tick) (\<lambda>expected.
     if expected \<noteq> preview then Inl StaleEquipmentPreview
     else and_then (apply_source preview snapshot) (\<lambda>moved.
     let equipped = moved\<lparr>fe_equipped := (fe_equipped moved)
           [slot_position (eq_legal_slot (pv_incoming preview)) := Some (pv_incoming preview)]\<rparr> in
     and_then (ok_or (checked_add (fe_inventory_version equipped) 1) InvalidInventoryVersion) (\<lambda>version.
     let updated = equipped\<lparr>fe_inventory_version := version\<rparr> in
     and_then (validate_field_snapshot updated) (\<lambda>_. Inr updated))))"

section \<open>Reward placement\<close>

abbreviation stack_cap :: u16 where
  "stack_cap \<equiv> of_nat DURABLE_CONSUMABLE_STACK_CAP"

definition validate_run_slot :: "run_backpack_slot \<Rightarrow> unit \<Rightarrow> item_lifecycle_error + unit" where
  "validate_run_slot slot u =
     (case slot of
        RunConsumable template_id quantity \<Rightarrow>
          if template_id = [] then Inl EmptyTemplateId
          else if \<not> (1 \<le> quantity \<and> quantity \<le> stack_cap) then Inl InvalidConsumableStack
          else Inr ()
      | _ \<Rightarrow> Inr ())"

definition validate_run_slots :: "run_backpack_slot list \<Rightarrow> item_lifecycle_error + unit" where
  "validate_run_slots slots =
     (if length slots \<noteq> RUN_BACKPACK_CAPACITY then Inl InvalidRunBackpackCapacity
      else try_fold validate_run_slot slots ())"

text \<open>
  The two placement loops: \<open>room\<close> is the number of units a slot takes in the loop (\<open>None\<close>: the loop
  skips the slot). A loop stops as soon as nothing remains.
\<close>

fun place_units ::
  "(run_backpack_slot \<Rightarrow> u16 option) \<Rightarrow> (nat \<times> run_backpack_slot) list \<Rightarrow> u16 \<Rightarrow> stack_placement list
     \<Rightarrow> item_lifecycle_error + u16 \<times> stack_placement list" where
  "place_units room [] remaining backpack = Inr (remaining, backpack)"
| "place_units room ((index, slot) # slots) remaining backpack =
     (case room slot of
        None \<Rightarrow> place_units room slots remaining backpack
      | Some space \<Rightarrow>
          (let placed = min remaining space in
           and_then (ok_or (try_from_usize index) InvalidRunBackpackCapacity) (\<lambda>slot_index.
           let backpack' = backpack @ [\<lparr>sp_slot_index = slot_index, sp_quantity = placed\<rparr>] in
           if remaining - placed = 0 then Inr (remaining - placed, backpack')
           else place_units room slots (remaining - placed) backpack')))"

definition stack_room :: "string \<Rightarrow> run_backpack_slot \<Rightarrow> u16 option" where
  "stack_room template_id slot =
     (case slot of
        RunConsumable stored_template stored_quantity \<Rightarrow>
          if stored_template = template_id \<and> stored_quantity < stack_cap
          then Some (stack_cap - stored_quantity) else None
      | _ \<Rightarrow> None)"

definition empty_room :: "run_backpack_slot \<Rightarrow> u16 option" where
  "empty_room slot = (if slot = RunEmpty then Some stack_cap else None)"

definition plan_consumable_reward_placement ::
  "run_backpack_slot list \<Rightarrow> string \<Rightarrow> u16 \<Rightarrow> item_lifecycle_error + consumable_placement_plan" where
  "plan_consumable_reward_placement slots template_id quantity =
     and_then (validate_run_slots slots) (\<lambda>_.
     if template_id = [] then Inl EmptyTemplateId
     else if quantity = 0 then Inl ZeroRewardQuantity
     else and_then (place_units (stack_room template_id) (enumerate 0 slots) quantity []) (\<lambda>(remaining, backpack).
          and_then (if remaining > 0 then place_units empty_room (enumerate 0 slots) remaining backpack
                    else Inr (remaining, backpack)) (\<lambda>(remaining, backpack).
            Inr \<lparr>cp_backpack = backpack, cp_personal_ground_quantity = remaining\<rparr>)))"

definition plan_equipment_reward_placement ::
  "run_backpack_slot list \<Rightarrow> item_lifecycle_error + equipment_placement_plan" where
  "plan_equipment_reward_placement slots =
     and_then (validate_run_slots slots) (\<lambda>_.
     case position (\<lambda>slot. slot = RunEmpty) slots of
       None \<Rightarrow> Inr PlacePersonalGround
     | Some index \<Rightarrow>
         and_then (ok_or (try_from_usize index) InvalidRunBackpackCapacity) (\<lambda>slot_index.
           Inr (PlaceRunBackpack slot_index)))"

end
