(* ===== verification/Item_Lifecycle_Properties.thy ===== *)
theory Item_Lifecycle_Properties
  imports Item_Lifecycle
begin

text \<open>
  Properties of the item lifecycle rules: the equipment swap conserves every item, refuses a preview
  that was already applied and never fails after a fresh preview; the hashed preview material
  determines the preview; consumable rewards are placed greedily and completely.
\<close>

section \<open>The equipment a snapshot holds\<close>

fun option_items :: "durable_equipment_item option \<Rightarrow> durable_equipment_item list" where
  "option_items None = []"
| "option_items (Some item) = [item]"

fun backpack_items :: "durable_run_backpack_slot \<Rightarrow> durable_equipment_item list" where
  "backpack_items (BackpackEquipment item) = [item]"
| "backpack_items _ = []"

definition snapshot_items :: "field_equipment_snapshot \<Rightarrow> durable_equipment_item list" where
  "snapshot_items snapshot =
     concat (map option_items (fe_equipped snapshot)) @ concat (map backpack_items (fe_backpack snapshot))"

definition field_shape :: "field_equipment_snapshot \<Rightarrow> bool" where
  "field_shape snapshot \<longleftrightarrow>
     length (fe_equipped snapshot) = EQUIPMENT_SLOT_COUNT \<and> length (fe_backpack snapshot) = RUN_BACKPACK_CAPACITY"

definition equipped_in_place :: "durable_equipment_item option list \<Rightarrow> bool" where
  "equipped_in_place equipped \<longleftrightarrow>
     (\<forall>i item. i < length equipped \<and> equipped ! i = Some item \<longrightarrow> slot_position (eq_legal_slot item) = i)"

definition equipment_ok :: "durable_equipment_item \<Rightarrow> bool" where
  "equipment_ok item \<longleftrightarrow> validate_equipment_item item = Inr ()"

lemma slot_position_less: "slot_position s < EQUIPMENT_SLOT_COUNT"
  by (cases s) (simp_all add: EQUIPMENT_SLOT_COUNT_def)

lemma windows2_all_neq_sorted: "sorted xs \<Longrightarrow> windows2_all (\<noteq>) xs \<longleftrightarrow> windows2_all (<) (xs :: 'a::linorder list)"
proof (induction xs)
  case (Cons x xs)
  then show ?case
    by (cases xs) auto
qed simp

lemma no_duplicate_windows: "windows2_all (\<noteq>) (sort xs) \<longleftrightarrow> distinct (xs :: 'a::linorder list)"
  using strict_sorted_iff [of "sort xs"] by (simp add: windows2_all_neq_sorted windows2_all_less)

lemma validate_equipped_simps:
  "validate_equipped (n, None) ids = Inr ids"
  "validate_equipped (n, Some item) ids = Inr ids'
     \<longleftrightarrow> equipment_ok item \<and> slot_position (eq_legal_slot item) = n \<and> ids' = ids @ [eq_item_uid item]"
  by (auto simp: validate_equipped_def equipment_ok_def)

lemma validate_equipped_loop:
  "try_fold validate_equipped (enumerate n xs) ids = Inr ids'
     \<longleftrightarrow> (\<forall>i < length xs. \<forall>item. xs ! i = Some item
            \<longrightarrow> equipment_ok item \<and> slot_position (eq_legal_slot item) = n + i)
        \<and> ids' = ids @ map eq_item_uid (concat (map option_items xs))"
proof (induction xs arbitrary: n ids)
  case (Cons x xs)
  show ?case
    by (cases x) (auto simp: Cons.IH validate_equipped_simps All_less_Suc2)
qed auto

lemma validate_backpack_loop:
  "try_fold validate_backpack_slot xs ids = Inr ids'
     \<longleftrightarrow> (\<forall>item \<in> set (concat (map backpack_items xs)). equipment_ok item)
        \<and> ids' = ids @ map eq_item_uid (concat (map backpack_items xs))"
proof (induction xs arbitrary: ids)
  case (Cons x xs)
  then show ?case
    by (cases x) (auto simp: validate_backpack_slot_def equipment_ok_def)
qed auto

lemma set_option_items:
  "item \<in> set (concat (map option_items xs)) \<longleftrightarrow> (\<exists>i < length xs. xs ! i = Some item)"
proof -
  have "item \<in> set (option_items x) \<longleftrightarrow> x = Some item" for x
    by (cases x) auto
  then show ?thesis
    by (auto simp: in_set_conv_nth)
qed

lemma validate_field_snapshot_iff:
  "validate_field_snapshot s = Inr () \<longleftrightarrow> fe_inventory_version s \<noteq> 0 \<and> equipped_in_place (fe_equipped s)
     \<and> (\<forall>item \<in> set (snapshot_items s). equipment_ok item) \<and> distinct (map eq_item_uid (snapshot_items s))"
  by (auto simp: validate_field_snapshot_def validate_equipped_loop validate_backpack_loop
      no_duplicate_windows snapshot_items_def equipped_in_place_def set_option_items ball_Un
      simp del: set_concat concat.simps map_eq_conv)

lemma snapshot_contains_iff: "snapshot_contains s uid \<longleftrightarrow> uid \<in> eq_item_uid ` set (snapshot_items s)"
proof -
  have "(case x of Some item \<Rightarrow> eq_item_uid item = uid | None \<Rightarrow> False) \<longleftrightarrow> uid \<in> eq_item_uid ` set (option_items x)" for x
    by (cases x) auto
  moreover have "(case x of BackpackEquipment item \<Rightarrow> eq_item_uid item = uid | _ \<Rightarrow> False)
      \<longleftrightarrow> uid \<in> eq_item_uid ` set (backpack_items x)" for x
    by (cases x) auto
  ultimately show ?thesis
    by (auto simp: snapshot_contains_def snapshot_items_def list_ex_iff)
qed

lemma mset_concat_map_update:
  "i < length xs \<Longrightarrow> mset (concat (map f (xs[i := v]))) + mset (f (xs ! i)) = mset (concat (map f xs)) + mset (f v)"
  by (induction xs arbitrary: i) (auto simp: nth_Cons split: nat.splits)

section \<open>Plans and their application\<close>

text \<open>The items that enter the snapshot from outside: only a pickup from the ground adds one.\<close>

fun ground_items :: "field_equipment_source \<Rightarrow> durable_equipment_item list" where
  "ground_items (SourceRunBackpack i) = []"
| "ground_items (SourcePersonalGround item a b c) = [item]"

fun not_expired :: "field_equipment_source \<Rightarrow> u64 \<Rightarrow> bool" where
  "not_expired (SourceRunBackpack i) now = True"
| "not_expired (SourcePersonalGround item a b expires) now = (now < expires)"

definition moved_backpack :: "field_equipment_preview \<Rightarrow> durable_run_backpack_slot list \<Rightarrow> durable_run_backpack_slot list" where
  "moved_backpack p backpack =
     (case (pv_source p, pv_replacement_destination p) of
        (SourceRunBackpack i, _) \<Rightarrow>
          backpack[unat i := (case pv_replaced p of None \<Rightarrow> BackpackEmpty | Some item \<Rightarrow> BackpackEquipment item)]
      | (SourcePersonalGround _ _ _ _, DestinationRunBackpack i) \<Rightarrow>
          backpack[unat i := BackpackEquipment (the (pv_replaced p))]
      | (SourcePersonalGround _ _ _ _, NoDestination) \<Rightarrow> backpack)"

definition swapped :: "field_equipment_preview \<Rightarrow> field_equipment_snapshot \<Rightarrow> field_equipment_snapshot" where
  "swapped p s = s\<lparr>fe_backpack := moved_backpack p (fe_backpack s),
     fe_equipped := (fe_equipped s)[slot_position (eq_legal_slot (pv_incoming p)) := Some (pv_incoming p)],
     fe_inventory_version := fe_inventory_version s + 1\<rparr>"

lemma plan_swap_Inr:
  "plan_field_equipment_swap dk s src content now = Inr p \<longleftrightarrow>
     validate_field_snapshot s = Inr () \<and> content \<noteq> [] \<and> incoming_item s src now = Inr (pv_incoming p)
     \<and> pv_replaced p = fe_equipped s ! slot_position (eq_legal_slot (pv_incoming p))
     \<and> replacement_destination_of s src (pv_replaced p) = Inr (pv_replacement_destination p)
     \<and> field_equipment_preview_hash dk (fe_inventory_version s) content src (pv_incoming p) (pv_replaced p)
         (pv_replacement_destination p) = Inr (pv_preview_hash p)
     \<and> pv_inventory_version p = fe_inventory_version s \<and> pv_content_revision p = content \<and> pv_source p = src"
  by (cases p) (auto simp: plan_field_equipment_swap_def Let_def)

lemma incoming_item_later:
  "incoming_item s src now = Inr item \<Longrightarrow> not_expired src now' \<Longrightarrow> incoming_item s src now' = Inr item"
  by (cases src) (auto simp: incoming_item_def not_le split: if_splits)

lemma incoming_item_Inr:
  assumes "incoming_item s src now = Inr item" "validate_field_snapshot s = Inr ()"
  shows "equipment_ok item"
    and "src = SourceRunBackpack i \<Longrightarrow> unat i < length (fe_backpack s) \<and> fe_backpack s ! unat i = BackpackEquipment item"
    and "src = SourcePersonalGround g a b e \<Longrightarrow> g = item \<and> eq_item_uid item \<notin> eq_item_uid ` set (snapshot_items s)"
proof -
  show b: "src = SourceRunBackpack i \<Longrightarrow> unat i < length (fe_backpack s) \<and> fe_backpack s ! unat i = BackpackEquipment item" for i
    using assms(1) by (auto simp: incoming_item_def split: durable_run_backpack_slot.splits)
  show g: "src = SourcePersonalGround g a b e \<Longrightarrow> g = item \<and> eq_item_uid item \<notin> eq_item_uid ` set (snapshot_items s)" for g a b e
    using assms(1) by (auto simp: incoming_item_def snapshot_contains_iff split: if_splits)
  show "equipment_ok item"
  proof (cases src)
    case (SourceRunBackpack i)
    with b have "BackpackEquipment item \<in> set (fe_backpack s)"
      by (metis nth_mem)
    then have "item \<in> set (snapshot_items s)"
      by (force simp: snapshot_items_def)
    with assms(2) show ?thesis
      by (simp add: validate_field_snapshot_iff)
  next
    case (SourcePersonalGround g a b e)
    with assms(1) show ?thesis
      by (auto simp: incoming_item_def equipment_ok_def split: if_splits)
  qed
qed

lemma replacement_destination_Inr:
  assumes "replacement_destination_of s src r = Inr d" "length (fe_backpack s) \<le> 8"
  shows "src = SourcePersonalGround g a b e \<Longrightarrow> r = Some item
      \<Longrightarrow> \<exists>i. d = DestinationRunBackpack i \<and> unat i < length (fe_backpack s) \<and> fe_backpack s ! unat i = BackpackEmpty"
    and "r = None \<Longrightarrow> d = NoDestination"
  using assms
  by (auto simp: replacement_destination_of_def try_from_usize_eq_Some
      split: field_equipment_source.splits dest!: position_SomeD)

lemma apply_swap_eq:
  assumes plan: "plan_field_equipment_swap dk s (pv_source p) (pv_content_revision p) now = Inr p" and "field_shape s"
    and "fe_inventory_version s \<noteq> - 1"
  shows "apply_field_equipment_preview dk s p now
    = and_then (validate_field_snapshot (swapped p s)) (\<lambda>_. Inr (swapped p s))"
proof -
  have dest: "replacement_destination_of s (pv_source p) (pv_replaced p) = Inr (pv_replacement_destination p)"
    using plan unfolding plan_swap_Inr by blast
  have len: "length (fe_backpack s) \<le> 8"
    using assms(2) by (simp add: field_shape_def RUN_BACKPACK_CAPACITY_def)
  have "apply_source p s = Inr (s\<lparr>fe_backpack := moved_backpack p (fe_backpack s)\<rparr>)"
    using replacement_destination_Inr [OF dest len]
    by (cases "pv_source p"; cases "pv_replaced p") (auto simp: apply_source_def moved_backpack_def
        split: replacement_destination.splits)
  with plan assms(3) show ?thesis
    by (simp add: apply_field_equipment_preview_def Let_def checked_add_one swapped_def)
qed

lemma swapped_items:
  assumes plan: "plan_field_equipment_swap dk s src content now = Inr p" and shape: "field_shape s"
  shows "mset (snapshot_items (swapped p s)) = mset (snapshot_items s) + mset (ground_items src)"
proof -
  let ?k = "slot_position (eq_legal_slot (pv_incoming p))"
  from plan have valid: "validate_field_snapshot s = Inr ()" and inc: "incoming_item s src now = Inr (pv_incoming p)"
    and src: "pv_source p = src" and repl: "fe_equipped s ! ?k = pv_replaced p"
    and dest: "replacement_destination_of s src (pv_replaced p) = Inr (pv_replacement_destination p)"
    unfolding plan_swap_Inr by metis+
  have len: "?k < length (fe_equipped s)" "length (fe_backpack s) \<le> 8"
    using shape slot_position_less by (simp_all add: field_shape_def RUN_BACKPACK_CAPACITY_def)
  note equipped = mset_concat_map_update [OF len(1), of option_items "Some (pv_incoming p)", unfolded repl]
  note taken = incoming_item_Inr(2,3) [OF inc valid]
  note freed = replacement_destination_Inr [OF dest len(2)]
  have backpack: "mset (concat (map backpack_items (moved_backpack p (fe_backpack s)))) + {#pv_incoming p#}
      = mset (concat (map backpack_items (fe_backpack s))) + mset (option_items (pv_replaced p)) + mset (ground_items src)"
  proof (cases src)
    case (SourceRunBackpack i)
    with taken(1) have "unat i < length (fe_backpack s)" "fe_backpack s ! unat i = BackpackEquipment (pv_incoming p)"
      by auto
    from mset_concat_map_update [OF this(1), of backpack_items] this(2) SourceRunBackpack src show ?thesis
      by (cases "pv_replaced p") (simp_all add: moved_backpack_def)
  next
    case (SourcePersonalGround g a b e)
    with taken(2) have g: "g = pv_incoming p" by blast
    show ?thesis
    proof (cases "pv_replaced p")
      case None
      with freed(2) SourcePersonalGround g src show ?thesis
        by (simp add: moved_backpack_def)
    next
      case (Some item)
      with freed(1) SourcePersonalGround obtain i where
        i: "pv_replacement_destination p = DestinationRunBackpack i" "unat i < length (fe_backpack s)"
          "fe_backpack s ! unat i = BackpackEmpty"
        by blast
      from mset_concat_map_update [OF i(2), of backpack_items] i(1,3) Some SourcePersonalGround g src show ?thesis
        by (simp add: moved_backpack_def)
    qed
  qed
  have "mset (snapshot_items (swapped p s)) + (mset (option_items (pv_replaced p)) + {#pv_incoming p#})
      = (mset (snapshot_items s) + mset (ground_items src)) + (mset (option_items (pv_replaced p)) + {#pv_incoming p#})"
    using arg_cong2 [OF equipped backpack, of "(+)"] by (simp add: snapshot_items_def swapped_def ac_simps)
  then show ?thesis
    by (simp only: add_right_cancel)
qed

lemma equipped_in_place_update:
  assumes "equipped_in_place xs"
  shows "equipped_in_place (xs[slot_position (eq_legal_slot item) := Some item])"
  unfolding equipped_in_place_def
proof (intro allI impI)
  fix i it assume "i < length (xs[slot_position (eq_legal_slot item) := Some item])
    \<and> xs[slot_position (eq_legal_slot item) := Some item] ! i = Some it"
  with assms show "slot_position (eq_legal_slot it) = i"
    by (cases "i = slot_position (eq_legal_slot item)") (auto simp: equipped_in_place_def)
qed

lemma swapped_valid:
  assumes plan: "plan_field_equipment_swap dk s src content now = Inr p" and shape: "field_shape s"
    and version: "fe_inventory_version s \<noteq> - 1"
  shows "validate_field_snapshot (swapped p s) = Inr ()"
proof -
  from plan have valid: "validate_field_snapshot s = Inr ()" and inc: "incoming_item s src now = Inr (pv_incoming p)"
    unfolding plan_swap_Inr by metis+
  note items = swapped_items [OF plan shape]
  have "set (snapshot_items (swapped p s)) = set (snapshot_items s) \<union> set (ground_items src)"
    using arg_cong [OF items, of set_mset] by simp
  moreover have "distinct (map eq_item_uid (snapshot_items (swapped p s)))"
  proof -
    have "mset (map eq_item_uid (snapshot_items (swapped p s))) = mset (map eq_item_uid (snapshot_items s @ ground_items src))"
      by (simp add: items flip: image_mset_union)
    moreover have "distinct (map eq_item_uid (snapshot_items s @ ground_items src))"
      using valid incoming_item_Inr(3) [OF inc valid] by (cases src) (auto simp: validate_field_snapshot_iff)
    ultimately show ?thesis
      by (metis mset_eq_imp_distinct_iff)
  qed
  moreover have "equipment_ok item" if "item \<in> set (ground_items src)" for item
    using that incoming_item_Inr [OF inc valid] by (cases src) auto
  moreover have "equipped_in_place (fe_equipped (swapped p s))"
    using valid by (auto simp: validate_field_snapshot_iff swapped_def intro: equipped_in_place_update)
  moreover have "fe_inventory_version (swapped p s) \<noteq> 0"
    using version by (simp add: swapped_def eq_neg_iff_add_eq_0)
  ultimately show ?thesis
    using valid by (auto simp: validate_field_snapshot_iff)
qed

section \<open>Swap properties\<close>

text \<open>
  What the swap does to the backpack. A backpack source takes the replaced item into its own slot; from the ground
  the replaced item goes to the first empty slot; every other slot, consumables included, stays as it is.
\<close>

lemma swapped_backpack:
  assumes plan: "plan_field_equipment_swap dk s src content now = Inr p" and shape: "field_shape s"
  shows "case src of
      SourceRunBackpack i \<Rightarrow> fe_backpack s ! unat i = BackpackEquipment (pv_incoming p)
        \<and> fe_backpack (swapped p s) = (fe_backpack s)[unat i := (case fe_equipped s ! slot_position (eq_legal_slot (pv_incoming p)) of
             None \<Rightarrow> BackpackEmpty | Some old \<Rightarrow> BackpackEquipment old)]
    | SourcePersonalGround item _ _ _ \<Rightarrow> item = pv_incoming p
        \<and> (case fe_equipped s ! slot_position (eq_legal_slot (pv_incoming p)) of
             None \<Rightarrow> fe_backpack (swapped p s) = fe_backpack s
           | Some old \<Rightarrow> \<exists>before after. fe_backpack s = before @ BackpackEmpty # after \<and> BackpackEmpty \<notin> set before
                \<and> fe_backpack (swapped p s) = before @ BackpackEquipment old # after)"
proof -
  from plan have valid: "validate_field_snapshot s = Inr ()" and inc: "incoming_item s src now = Inr (pv_incoming p)"
    and src: "pv_source p = src" and repl: "fe_equipped s ! slot_position (eq_legal_slot (pv_incoming p)) = pv_replaced p"
    and dest: "replacement_destination_of s src (pv_replaced p) = Inr (pv_replacement_destination p)"
    unfolding plan_swap_Inr by metis+
  note taken = incoming_item_Inr(2,3) [OF inc valid]
  show ?thesis
  proof (cases src)
    case (SourceRunBackpack i)
    with taken(1) src repl show ?thesis
      by (simp add: swapped_def moved_backpack_def)
  next
    case (SourcePersonalGround g a b e)
    note ground = this
    show ?thesis
    proof (cases "pv_replaced p")
      case None
      with dest ground taken(2) src repl show ?thesis
        by (auto simp: replacement_destination_of_def swapped_def moved_backpack_def split: replacement_destination.splits)
    next
      case (Some old)
      with dest ground obtain k and i :: u8 where
        k: "position (\<lambda>slot. slot = BackpackEmpty) (fe_backpack s) = Some k" "unat i = k"
          "pv_replacement_destination p = DestinationRunBackpack i"
        by (auto simp: replacement_destination_of_def try_from_usize_eq_Some)
      then have empty: "k < length (fe_backpack s)" "fe_backpack s ! k = BackpackEmpty"
        "\<forall>j < k. fe_backpack s ! j \<noteq> BackpackEmpty"
        by (simp_all add: position_eq_Some)
      from empty have "BackpackEmpty \<notin> set (take k (fe_backpack s))"
        by (auto simp: in_set_conv_nth)
      moreover have "fe_backpack s = take k (fe_backpack s) @ BackpackEmpty # drop (Suc k) (fe_backpack s)"
        using id_take_nth_drop [OF empty(1)] empty(2) by simp
      moreover have "fe_backpack (swapped p s) = take k (fe_backpack s) @ BackpackEquipment old # drop (Suc k) (fe_backpack s)"
        using k(2,3) ground Some src empty(1) by (simp add: swapped_def moved_backpack_def upd_conv_take_nth_drop)
      ultimately show ?thesis
        using ground Some taken(2) repl by auto
    qed
  qed
qed

text \<open>
  C36. A previewed equipment swap goes through and loses nothing: applying the preview to the unchanged
  inventory before the ground item expires succeeds with a valid snapshot whose version is one
  higher, the incoming item sits in its legal slot, and every other equipped slot is unchanged. In the
  backpack one slot changes at most: a backpack source held the incoming item and now holds the replaced one or is
  empty; from the ground, a replaced item goes to the first empty slot and without one the backpack is unchanged. So no
  consumable is touched, and the equipment held is exactly the equipment held before, plus the picked-up item for a ground source.
  Applying the same preview once more is refused.
\<close>

theorem field_swap_conserves:
  assumes "field_shape s" and "fe_inventory_version s \<noteq> - 1" and "not_expired src now'"
    and "plan_field_equipment_swap derive_key s src content now = Inr p"
  shows "\<exists>s'. apply_field_equipment_preview derive_key s p now' = Inr s'
    \<and> validate_field_snapshot s' = Inr () \<and> field_shape s'
    \<and> fe_inventory_version s' = fe_inventory_version s + 1
    \<and> mset (snapshot_items s') = mset (snapshot_items s) + mset (ground_items src)
    \<and> (\<forall>i < EQUIPMENT_SLOT_COUNT. fe_equipped s' ! i =
         (if i = slot_position (eq_legal_slot (pv_incoming p)) then Some (pv_incoming p) else fe_equipped s ! i))
    \<and> (case src of
         SourceRunBackpack i \<Rightarrow> fe_backpack s ! unat i = BackpackEquipment (pv_incoming p)
           \<and> fe_backpack s' = (fe_backpack s)[unat i := (case fe_equipped s ! slot_position (eq_legal_slot (pv_incoming p)) of
                None \<Rightarrow> BackpackEmpty | Some old \<Rightarrow> BackpackEquipment old)]
       | SourcePersonalGround item _ _ _ \<Rightarrow> item = pv_incoming p
           \<and> (case fe_equipped s ! slot_position (eq_legal_slot (pv_incoming p)) of
                None \<Rightarrow> fe_backpack s' = fe_backpack s
              | Some old \<Rightarrow> \<exists>before after. fe_backpack s = before @ BackpackEmpty # after \<and> BackpackEmpty \<notin> set before
                   \<and> fe_backpack s' = before @ BackpackEquipment old # after))
    \<and> (\<forall>later. \<exists>e. apply_field_equipment_preview derive_key s' p later = Inl e)"
proof -
  have p: "pv_source p = src" "pv_content_revision p = content" "pv_inventory_version p = fe_inventory_version s"
    using assms(4) unfolding plan_swap_Inr by metis+
  have "plan_field_equipment_swap derive_key s src content now' = Inr p"
    using assms(4) incoming_item_later [OF _ assms(3)] unfolding plan_swap_Inr by metis
  then have applied: "apply_field_equipment_preview derive_key s p now' = Inr (swapped p s)"
    using apply_swap_eq [of derive_key s p now', OF _ assms(1,2)] swapped_valid [OF assms(4,1,2)] p by simp
  have "plan_field_equipment_swap derive_key (swapped p s) src content later \<noteq> Inr p" for later
    by (simp add: plan_swap_Inr p swapped_def)
  then have "\<exists>e. apply_field_equipment_preview derive_key (swapped p s) p later = Inl e" for later
    by (cases "plan_field_equipment_swap derive_key (swapped p s) src content later")
      (auto simp: apply_field_equipment_preview_def p)
  moreover have "field_shape (swapped p s)"
    using assms(1) by (auto simp: field_shape_def swapped_def moved_backpack_def
        split: field_equipment_source.splits replacement_destination.splits)
  moreover have "\<forall>i < EQUIPMENT_SLOT_COUNT. fe_equipped (swapped p s) ! i =
      (if i = slot_position (eq_legal_slot (pv_incoming p)) then Some (pv_incoming p) else fe_equipped s ! i)"
    using assms(1) by (simp add: swapped_def field_shape_def nth_list_update)
  moreover have "fe_inventory_version (swapped p s) = fe_inventory_version s + 1"
    by (simp add: swapped_def)
  ultimately show ?thesis
    using applied swapped_valid [OF assms(4,1,2)] swapped_items [OF assms(4,1)] swapped_backpack [OF assms(4,1)]
    by blast
qed

section \<open>Hashed material\<close>

lemma push_hash_field_Inr: "push_hash_field f m = Inr m' \<longleftrightarrow> fits_u32 f \<and> m' = m @ framed f"
  by (auto simp: push_hash_field_def try_from_usize_def framed_def fits_u32_def split: if_splits)

lemma push_hash_fields_Inr:
  "try_fold push_hash_field fs m = Inr m' \<longleftrightarrow> list_all fits_u32 fs \<and> m' = m @ frames fs"
  by (induction fs arbitrary: m) (auto simp: push_hash_field_Inr)

text \<open>Identity derivation hashes a byte string that determines the derivation fields.\<close>

lemma derivation_material_separates:
  "try_fold push_hash_field fs [] = Inr m \<Longrightarrow> try_fold push_hash_field gs [] = Inr m \<Longrightarrow> fs = gs"
  by (auto simp: push_hash_fields_Inr frames_inject)

definition item_hash_fields :: "durable_equipment_item \<Rightarrow> bytes list" where
  "item_hash_fields item =
     [uid_bytes (eq_item_uid item), as_bytes (eq_template_id item),
      [of_nat (slot_position (eq_legal_slot item)), eq_item_level item, rarity_code (eq_rarity item)],
      to_le_bytes (eq_item_version item)]"

definition preview_fields ::
  "u64 \<Rightarrow> string \<Rightarrow> field_equipment_source \<Rightarrow> durable_equipment_item \<Rightarrow> durable_equipment_item option
     \<Rightarrow> replacement_destination \<Rightarrow> bytes list" where
  "preview_fields v content src incoming replaced dest =
     to_le_bytes v # as_bytes content # source_hash_fields src @ item_hash_fields incoming
       @ (case replaced of Some item \<Rightarrow> [1] # item_hash_fields item | None \<Rightarrow> [[0]])
       @ (case dest of NoDestination \<Rightarrow> [[0]] | DestinationRunBackpack i \<Rightarrow> [[1, i]])"

lemma preview_material_Inr:
  "preview_material v content src incoming replaced dest = Inr m
     \<longleftrightarrow> list_all fits_u32 (preview_fields v content src incoming replaced dest)
        \<and> m = frames (preview_fields v content src incoming replaced dest)"
  by (cases replaced; cases dest)
    (auto simp: preview_material_def preview_fields_def push_equipment_hash_fields_def item_hash_fields_def
      push_hash_field_Inr push_hash_fields_Inr)

lemma slot_position_byte_inject [simp]:
  "(of_nat (slot_position a) :: u8) = of_nat (slot_position b) \<longleftrightarrow> a = b"
  by (cases a; cases b) simp_all

lemma rarity_code_inject [simp]: "rarity_code a = rarity_code b \<longleftrightarrow> a = b"
  by (cases a; cases b) simp_all

lemma item_hash_fields_inject [simp]: "item_hash_fields a = item_hash_fields b \<longleftrightarrow> a = b"
  by (cases a; cases b) (auto simp: item_hash_fields_def intro: item_uid.expand)

lemma length_item_hash_fields [simp]: "length (item_hash_fields item) = 4"
  by (simp add: item_hash_fields_def)

fun same_source :: "field_equipment_source \<Rightarrow> field_equipment_source \<Rightarrow> bool" where
  "same_source (SourceRunBackpack i) (SourceRunBackpack j) = (i = j)"
| "same_source (SourcePersonalGround x a b e) (SourcePersonalGround y c d f) = (a = c \<and> b = d \<and> e = f)"
| "same_source _ _ = False"

lemma preview_fields_inject:
  assumes "preview_fields v content src incoming replaced dest = preview_fields v' content' src' incoming' replaced' dest'"
  shows "v = v' \<and> content = content' \<and> same_source src src' \<and> incoming = incoming' \<and> replaced = replaced' \<and> dest = dest'"
proof -
  have same: "same_source src src'" "length (source_hash_fields src) = length (source_hash_fields src')"
    using assms by (cases src; cases src'; auto simp: preview_fields_def source_hash_fields_def)+
  then have "item_hash_fields incoming = item_hash_fields incoming'"
    and rest: "(case replaced of Some item \<Rightarrow> [1] # item_hash_fields item | None \<Rightarrow> [[0]])
       @ (case dest of NoDestination \<Rightarrow> [[0]] | DestinationRunBackpack i \<Rightarrow> [[1, i]])
      = (case replaced' of Some item \<Rightarrow> [1] # item_hash_fields item | None \<Rightarrow> [[0]])
       @ (case dest' of NoDestination \<Rightarrow> [[0]] | DestinationRunBackpack i \<Rightarrow> [[1, i]])"
    using assms by (simp_all add: preview_fields_def)
  moreover from rest have "replaced = replaced' \<and> dest = dest'"
    by (cases replaced; cases replaced'; cases dest; cases dest') auto
  ultimately show ?thesis
    using same(1) assms by (simp add: preview_fields_def)
qed

lemma plan_ground_source:
  "plan_field_equipment_swap dk s src content now = Inr p \<Longrightarrow> ground_items src = [] \<or> ground_items src = [pv_incoming p]"
  unfolding plan_swap_Inr by (cases src) (auto dest: incoming_item_Inr(3))

definition material_of :: "field_equipment_preview \<Rightarrow> item_lifecycle_error + bytes" where
  "material_of p = preview_material (pv_inventory_version p) (pv_content_revision p) (pv_source p)
     (pv_incoming p) (pv_replaced p) (pv_replacement_destination p)"

lemma plan_material:
  assumes "plan_field_equipment_swap derive_key s src content now = Inr p"
  shows "pv_source p = src"
    and "\<exists>m. material_of p = Inr m \<and> pv_preview_hash p = derive_key ''gravebound.field-equipment-preview.v1'' m"
proof -
  from assms have p: "pv_source p = src" "pv_content_revision p = content" "pv_inventory_version p = fe_inventory_version s"
    and "field_equipment_preview_hash derive_key (fe_inventory_version s) content src (pv_incoming p) (pv_replaced p)
         (pv_replacement_destination p) = Inr (pv_preview_hash p)"
    unfolding plan_swap_Inr by metis+
  then show "pv_source p = src"
    "\<exists>m. material_of p = Inr m \<and> pv_preview_hash p = derive_key ''gravebound.field-equipment-preview.v1'' m"
    by (auto simp: material_of_def field_equipment_preview_hash_def)
qed

text \<open>
  The preview hash binds the whole preview: the planner always hashes some byte string, and two
  previews, planned from any two snapshots and at any times, that hash the same byte string are
  equal in every field, from the inventory version to the replaced item and its destination.
\<close>

lemma preview_hash_binds:
  assumes "plan_field_equipment_swap derive_key s1 src1 content1 now1 = Inr p1"
    and "plan_field_equipment_swap derive_key s2 src2 content2 now2 = Inr p2"
  shows "(\<exists>m. material_of p1 = Inr m \<and> pv_preview_hash p1 = derive_key ''gravebound.field-equipment-preview.v1'' m)
    \<and> (material_of p1 = material_of p2 \<longrightarrow> p1 = p2)"
proof -
  note p = plan_material [OF assms(1)] plan_material [OF assms(2)]
  have "p1 = p2" if same: "material_of p1 = material_of p2"
  proof -
    from p same obtain m where m: "material_of p1 = Inr m" "material_of p2 = Inr m"
      and h: "pv_preview_hash p1 = pv_preview_hash p2"
      by auto
    from m [unfolded material_of_def preview_material_Inr]
    have "preview_fields (pv_inventory_version p1) (pv_content_revision p1) (pv_source p1) (pv_incoming p1)
        (pv_replaced p1) (pv_replacement_destination p1)
      = preview_fields (pv_inventory_version p2) (pv_content_revision p2) (pv_source p2) (pv_incoming p2)
        (pv_replaced p2) (pv_replacement_destination p2)"
      by (metis frames_inject)
    note eq = preview_fields_inject [OF this]
    then have "pv_source p1 = pv_source p2"
      using plan_ground_source [OF assms(1)] plan_ground_source [OF assms(2)]
      by (cases src1; cases src2) (auto simp: p)
    with eq h show ?thesis
      by (cases p1; cases p2) simp
  qed
  with p show ?thesis by blast
qed

section \<open>Reward placement\<close>

text \<open>
  What a placement loop has done when it stops: the new placements lie in the slots it visited, in
  order and without repetition, each within the room of its slot; if something remains, every
  slot with room has been filled.
\<close>

definition units :: "stack_placement list \<Rightarrow> nat" where
  "units ps = sum_list (map (\<lambda>p. unat (sp_quantity p)) ps)"

definition placed_index :: "stack_placement \<Rightarrow> nat" where
  "placed_index p = unat (sp_slot_index p)"

definition filled ::
  "(run_backpack_slot \<Rightarrow> u16 option) \<Rightarrow> nat \<Rightarrow> run_backpack_slot list \<Rightarrow> stack_placement list \<Rightarrow> bool" where
  "filled room n slots ps \<longleftrightarrow> (\<forall>i < length slots. \<forall>space. room (slots ! i) = Some space
     \<longrightarrow> (\<exists>p \<in> set ps. placed_index p = n + i \<and> sp_quantity p = space))"

definition placed_within ::
  "(run_backpack_slot \<Rightarrow> u16 option) \<Rightarrow> nat \<Rightarrow> run_backpack_slot list \<Rightarrow> stack_placement \<Rightarrow> bool" where
  "placed_within room n slots p \<longleftrightarrow> (\<exists>i < length slots. \<exists>space. placed_index p = n + i
     \<and> room (slots ! i) = Some space \<and> sp_quantity p \<le> space \<and> sp_quantity p \<noteq> 0)"

definition loop_placed ::
  "(run_backpack_slot \<Rightarrow> u16 option) \<Rightarrow> nat \<Rightarrow> run_backpack_slot list \<Rightarrow> u16 \<Rightarrow> u16 \<Rightarrow> stack_placement list \<Rightarrow> bool" where
  "loop_placed room n slots remaining remaining' new \<longleftrightarrow>
     units new + unat remaining' = unat remaining \<and> sorted_wrt (<) (map placed_index new)
     \<and> list_all (placed_within room n slots) new \<and> (remaining' \<noteq> 0 \<longrightarrow> filled room n slots new)"

lemma units_simps [simp]: "units [] = 0" "units (p # ps) = unat (sp_quantity p) + units ps"
  "units (ps @ qs) = units ps + units qs"
  by (simp_all add: units_def)

lemma placed_within_Suc: "placed_within room (Suc n) slots p \<Longrightarrow> placed_within room n (slot # slots) p \<and> n < placed_index p"
  by (fastforce simp: placed_within_def)

lemma filled_Cons:
  "filled room n (slot # slots) ps \<longleftrightarrow>
     (\<forall>space. room slot = Some space \<longrightarrow> (\<exists>p \<in> set ps. placed_index p = n \<and> sp_quantity p = space))
     \<and> filled room (Suc n) slots ps"
  by (auto simp: filled_def All_less_Suc2)

lemma loop_placed_skip:
  assumes "room slot = None" "loop_placed room (Suc n) slots remaining remaining' new"
  shows "loop_placed room n (slot # slots) remaining remaining' new"
  using assms by (auto simp: loop_placed_def filled_Cons list_all_iff dest: placed_within_Suc [of _ _ _ _ slot])

lemma placed_within_Cons:
  "room slot = Some space \<Longrightarrow> placed_index p = n \<Longrightarrow> sp_quantity p \<le> space \<Longrightarrow> sp_quantity p \<noteq> 0
     \<Longrightarrow> placed_within room n (slot # slots) p"
  by (auto simp: placed_within_def intro!: exI [of _ "0 :: nat"])

lemma loop_placed_last:
  assumes "room slot = Some space" "placed_index p = n" "sp_quantity p = remaining" "remaining \<le> space" "remaining \<noteq> 0"
  shows "loop_placed room n (slot # slots) remaining 0 [p]"
  using assms placed_within_Cons [of room slot space p n slots] by (simp add: loop_placed_def)

lemma loop_placed_cons:
  assumes "room slot = Some space" "space \<noteq> 0" "placed_index p = n" "sp_quantity p = space" "space \<le> remaining"
    and rest: "loop_placed room (Suc n) slots (remaining - space) remaining' new"
  shows "loop_placed room n (slot # slots) remaining remaining' (p # new)"
proof -
  from rest have parts: "units new + unat remaining' = unat (remaining - space)" "sorted_wrt (<) (map placed_index new)"
    "\<forall>q \<in> set new. placed_within room (Suc n) slots q" "remaining' \<noteq> 0 \<Longrightarrow> filled room (Suc n) slots new"
    by (auto simp: loop_placed_def list_all_iff)
  have "placed_within room n (slot # slots) q \<and> n < placed_index q" if "q \<in> set new" for q
    using parts(3) that placed_within_Suc by blast
  moreover have "filled room (Suc n) slots (p # new)" if "remaining' \<noteq> 0"
    using parts(4) [OF that] by (fastforce simp: filled_def)
  moreover have "unat (remaining - space) = unat remaining - unat space" "unat space \<le> unat remaining"
    using assms(5) by (simp_all add: unat_sub word_le_nat_alt)
  ultimately show ?thesis
    using assms(1-4) parts(1,2) placed_within_Cons [of room slot space p n slots]
    by (auto simp: loop_placed_def filled_Cons list_all_iff)
qed

lemma place_units_placed:
  assumes "n + length slots \<le> 256" and "remaining \<noteq> 0"
    and "\<And>slot space. slot \<in> set slots \<Longrightarrow> room slot = Some space \<Longrightarrow> space \<noteq> 0"
  shows "\<exists>remaining' new. place_units room (enumerate n slots) remaining acc = Inr (remaining', acc @ new)
    \<and> loop_placed room n slots remaining remaining' new"
  using assms
proof (induction slots arbitrary: n remaining acc)
  case Nil
  then show ?case by (auto simp: loop_placed_def filled_def)
next
  case (Cons slot slots)
  show ?case
  proof (cases "room slot")
    case None
    with Cons.IH [of "Suc n" remaining acc] Cons.prems show ?thesis
      by (auto intro: loop_placed_skip)
  next
    case (Some space)
    have space: "space \<noteq> 0"
      by (rule Cons.prems(3) [of slot, OF _ Some]) simp
    let ?p = "\<lparr>sp_slot_index = of_nat n, sp_quantity = min remaining space\<rparr>"
    have index: "try_from_usize n = Some (of_nat n :: u8)" "placed_index ?p = n"
      using Cons.prems(1) by (simp_all add: try_from_usize_def placed_index_def)
    show ?thesis
    proof (cases "remaining \<le> space")
      case True
      then have "loop_placed room n (slot # slots) remaining 0 [?p]"
        using loop_placed_last [of room slot space ?p n remaining slots] Some index(2) Cons.prems(2)
        by (simp add: min_def)
      with True Some index(1) show ?thesis
        by (auto simp: Let_def min_def)
    next
      case False
      then have less: "remaining - space \<noteq> 0" "min remaining space = space" "space \<le> remaining"
        by (auto simp: min_def)
      from Cons.IH [of "Suc n" "remaining - space" "acc @ [?p]", OF _ less(1)] Cons.prems
      obtain remaining' new where rest: "loop_placed room (Suc n) slots (remaining - space) remaining' new"
        "place_units room (enumerate (Suc n) slots) (remaining - space) (acc @ [?p]) = Inr (remaining', (acc @ [?p]) @ new)"
        by auto
      from loop_placed_cons [of room slot space ?p n remaining slots remaining' new] rest(1) less space Some index(2)
      have "loop_placed room n (slot # slots) remaining remaining' (?p # new)"
        by simp
      with rest(2) less Some index(1) show ?thesis
        by (auto simp: Let_def)
    qed
  qed
qed

fun stored_units :: "string \<Rightarrow> run_backpack_slot \<Rightarrow> nat option" where
  "stored_units template_id RunEmpty = Some 0"
| "stored_units template_id RunEquipment = None"
| "stored_units template_id (RunConsumable t n) = (if t = template_id then Some (unat n) else None)"

definition full_after :: "string \<Rightarrow> run_backpack_slot list \<Rightarrow> stack_placement list \<Rightarrow> nat \<Rightarrow> bool" where
  "full_after template_id slots ps i \<longleftrightarrow> (\<forall>n. stored_units template_id (slots ! i) = Some n
     \<longrightarrow> n = DURABLE_CONSUMABLE_STACK_CAP
       \<or> (\<exists>p \<in> set ps. placed_index p = i \<and> n + unat (sp_quantity p) = DURABLE_CONSUMABLE_STACK_CAP))"

definition placement_ok :: "string \<Rightarrow> run_backpack_slot list \<Rightarrow> stack_placement \<Rightarrow> bool" where
  "placement_ok template_id slots p \<longleftrightarrow> placed_index p < length slots \<and> sp_quantity p \<noteq> 0
     \<and> (\<exists>n. stored_units template_id (slots ! placed_index p) = Some n
          \<and> n + unat (sp_quantity p) \<le> DURABLE_CONSUMABLE_STACK_CAP)"

lemma stack_cap_eq: "stack_cap = 6" "unat stack_cap = 6"
  by (simp_all add: DURABLE_CONSUMABLE_STACK_CAP_def)

lemma stack_room_Some:
  "stack_room t slot = Some space \<longleftrightarrow> (\<exists>n. slot = RunConsumable t n \<and> unat n < 6 \<and> unat n + unat space = 6)"
proof (cases slot)
  case (RunConsumable t' n)
  have "n < 6 \<and> space = 6 - n \<longleftrightarrow> unat n < 6 \<and> unat n + unat space = 6"
    by (auto simp: word_less_nat_alt unat_sub word_le_nat_alt word_unat_eq_iff)
  with RunConsumable show ?thesis
    by (auto simp: stack_room_def stack_cap_eq)
qed (auto simp: stack_room_def)

lemma empty_room_Some: "empty_room slot = Some space \<longleftrightarrow> slot = RunEmpty \<and> unat space = 6"
  by (auto simp: empty_room_def stack_cap_eq word_unat_eq_iff)

lemma placed_within_ok:
  assumes "placed_within room 0 slots p" and "room = stack_room t \<or> room = empty_room"
  shows "placement_ok t slots p"
  using assms by (auto simp: placed_within_def placement_ok_def stack_room_Some empty_room_Some word_le_nat_alt
      DURABLE_CONSUMABLE_STACK_CAP_def)

lemma filled_stacks:
  assumes "filled (stack_room t) 0 slots ps" and "i < length slots" "slots ! i = RunConsumable t n" "unat n \<le> 6"
  shows "full_after t slots ps i"
proof (cases "unat n = 6")
  case False
  with assms(3,4) have "stack_room t (slots ! i) = Some (6 - n)"
    by (simp add: stack_room_Some unat_sub word_le_nat_alt)
  with assms(1,2) obtain p where "p \<in> set ps" "placed_index p = i" "sp_quantity p = 6 - n"
    by (auto simp: filled_def)
  with assms(3,4) show ?thesis
    by (auto simp: full_after_def DURABLE_CONSUMABLE_STACK_CAP_def unat_sub word_le_nat_alt)
qed (simp add: full_after_def assms DURABLE_CONSUMABLE_STACK_CAP_def)

lemma filled_empties:
  assumes "filled empty_room 0 slots ps" and "i < length slots" "slots ! i = RunEmpty"
  shows "full_after t slots ps i"
proof -
  have "empty_room (slots ! i) = Some 6"
    using assms(3) by (simp add: empty_room_Some)
  with assms(1,2) obtain p where "p \<in> set ps" "placed_index p = i" "sp_quantity p = 6"
    by (auto simp: filled_def)
  with assms(3) show ?thesis
    by (auto simp: full_after_def DURABLE_CONSUMABLE_STACK_CAP_def)
qed

lemma full_after_mono: "full_after t slots ps i \<Longrightarrow> set ps \<subseteq> set qs \<Longrightarrow> full_after t slots qs i"
  by (fastforce simp: full_after_def)

lemma validate_run_slots_Inr:
  assumes "validate_run_slots slots = Inr u"
  shows "length slots = 8" and "RunConsumable t n \<in> set slots \<Longrightarrow> 1 \<le> unat n \<and> unat n \<le> 6"
proof -
  from assms show "length slots = 8"
    by (auto simp: validate_run_slots_def RUN_BACKPACK_CAPACITY_def split: if_splits)
  have "try_fold validate_run_slot xs v = Inr w \<Longrightarrow> RunConsumable t n \<in> set xs \<Longrightarrow> 1 \<le> unat n \<and> unat n \<le> 6" for xs v w
    by (induction xs arbitrary: v)
      (auto simp: validate_run_slot_def stack_cap_eq word_le_nat_alt not_less split: if_splits)
  then show "RunConsumable t n \<in> set slots \<Longrightarrow> 1 \<le> unat n \<and> unat n \<le> 6"
    using assms by (auto simp: validate_run_slots_def split: if_splits)
qed

lemma sorted_distinct_index: "sorted_wrt (<) (map placed_index ps) \<Longrightarrow> distinct (map placed_index ps)"
  using strict_sorted_iff by blast

lemma loops_disjoint:
  assumes "list_all (placed_within (stack_room t) 0 slots) ps" "list_all (placed_within empty_room 0 slots) qs"
  shows "set (map placed_index ps) \<inter> set (map placed_index qs) = {}"
  using assms by (fastforce simp: list_all_iff placed_within_def stack_room_Some empty_room_Some)

lemma stacks_full_first:
  assumes "validate_run_slots slots = Inr u" and "loop_placed (stack_room t) 0 slots quantity rest ps"
    and "rest \<noteq> 0" "i < length slots" "slots ! i \<noteq> RunEmpty"
  shows "full_after t slots (ps @ qs) i"
proof (cases "slots ! i")
  case (RunConsumable t' n)
  with assms validate_run_slots_Inr(2) [of slots u t' n] have "unat n \<le> 6"
    by (metis nth_mem)
  with assms filled_stacks [of t slots ps i n] RunConsumable have "full_after t slots ps i"
    by (cases "t' = t") (auto simp: loop_placed_def full_after_def)
  then show ?thesis
    by (rule full_after_mono) simp
qed (use assms in \<open>auto simp: full_after_def\<close>)

text \<open>
  Reward consumables are placed completely and greedily: on valid slots the planner always returns
  a plan, whose placements and ground remainder add up to the reward; every placement goes to a
  different slot that is empty or holds the same template and keeps it within six units; an empty
  slot is opened only when every matching stack is filled to six; and units fall to the ground
  only when every slot that could take them is filled.
\<close>

lemma reward_placement_complete:
  assumes "validate_run_slots slots = Inr u" and "template_id \<noteq> []" and "quantity \<noteq> 0"
  shows "\<exists>plan. plan_consumable_reward_placement slots template_id quantity = Inr plan
    \<and> units (cp_backpack plan) + unat (cp_personal_ground_quantity plan) = unat quantity
    \<and> distinct (map placed_index (cp_backpack plan))
    \<and> (\<forall>p \<in> set (cp_backpack plan). placement_ok template_id slots p)
    \<and> ((\<exists>p \<in> set (cp_backpack plan). slots ! placed_index p = RunEmpty) \<longrightarrow>
         (\<forall>i < length slots. slots ! i \<noteq> RunEmpty \<longrightarrow> full_after template_id slots (cp_backpack plan) i))
    \<and> (cp_personal_ground_quantity plan \<noteq> 0 \<longrightarrow>
         (\<forall>i < length slots. full_after template_id slots (cp_backpack plan) i))"
proof -
  note valid = validate_run_slots_Inr [OF assms(1)]
  have rooms: "stack_room template_id slot = Some space \<Longrightarrow> space \<noteq> 0" "empty_room slot = Some space \<Longrightarrow> space \<noteq> 0"
    for slot space
    by (auto simp: stack_room_Some empty_room_Some)
  obtain rest ps where first: "place_units (stack_room template_id) (enumerate 0 slots) quantity [] = Inr (rest, ps)"
    "loop_placed (stack_room template_id) 0 slots quantity rest ps"
    using place_units_placed [of 0 slots quantity "stack_room template_id" "[]"] valid(1) assms(3) rooms(1) by auto
  note full_stacks = stacks_full_first [OF assms(1) first(2)]
  have ps_ok: "placement_ok template_id slots p \<and> slots ! placed_index p \<noteq> RunEmpty" if "p \<in> set ps" for p
  proof -
    from first(2) that have "placed_within (stack_room template_id) 0 slots p"
      by (simp add: loop_placed_def list_all_iff)
    then show ?thesis
      using placed_within_ok [of "stack_room template_id" slots p template_id]
      by (auto simp: placed_within_def stack_room_Some)
  qed
  show ?thesis
  proof (cases "rest = 0")
    case True
    with first ps_ok assms show ?thesis
      by (auto simp: plan_consumable_reward_placement_def loop_placed_def sorted_distinct_index)
  next
    case False
    obtain ground qs where second: "place_units empty_room (enumerate 0 slots) rest ps = Inr (ground, ps @ qs)"
      "loop_placed empty_room 0 slots rest ground qs"
      using place_units_placed [of 0 slots rest empty_room ps] valid(1) False rooms(2) by auto
    have "full_after template_id slots (ps @ qs) i" if "ground \<noteq> 0" "i < length slots" for i
      using full_stacks [OF False that(2), of qs] filled_empties [of slots qs i template_id] second(2) that
        full_after_mono [of template_id slots qs i "ps @ qs"]
      by (cases "slots ! i = RunEmpty") (auto simp: loop_placed_def)
    moreover have "\<forall>p \<in> set qs. placement_ok template_id slots p"
      using second(2) by (auto simp: loop_placed_def list_all_iff intro: placed_within_ok)
    moreover have "distinct (map placed_index (ps @ qs))"
      using first(2) second(2) loops_disjoint [of template_id slots ps qs]
      by (auto simp: loop_placed_def sorted_distinct_index)
    moreover have "plan_consumable_reward_placement slots template_id quantity
        = Inr \<lparr>cp_backpack = ps @ qs, cp_personal_ground_quantity = ground\<rparr>"
      using first(1) second(1) False assms by (simp add: plan_consumable_reward_placement_def word_neq_0_conv)
    moreover have "units (ps @ qs) + unat ground = unat quantity"
      using first(2) second(2) by (simp add: loop_placed_def)
    ultimately show ?thesis
      using ps_ok full_stacks [OF False] by (intro exI conjI) (auto simp del: map_append)
  qed
qed

section \<open>A concrete swap and a concrete reward\<close>

definition sample_item :: "nat \<Rightarrow> durable_equipment_item" where
  "sample_item n = \<lparr>eq_item_uid = sample_uid n, eq_template_id = ''bow'', eq_legal_slot = Weapon,
     eq_item_level = 3, eq_rarity = Forged, eq_item_version = 1\<rparr>"

definition sample_field :: field_equipment_snapshot where
  "sample_field = \<lparr>fe_inventory_version = 4, fe_equipped = [Some (sample_item 1), None, None, None],
     fe_backpack = BackpackConsumable # BackpackEquipment (sample_item 2) # replicate 6 BackpackEmpty\<rparr>"

definition sample_key :: "string \<Rightarrow> bytes \<Rightarrow> bytes" where
  "sample_key c m = replicate 32 (of_nat (length m))"

lemma sample_field_valid: "validate_field_snapshot sample_field = Inr ()" "field_shape sample_field"
  by (auto simp: validate_field_snapshot_iff sample_field_def snapshot_items_def equipped_in_place_def sample_item_def
      equipment_ok_def validate_equipment_item_def nth_Cons field_shape_def EQUIPMENT_SLOT_COUNT_def
      RUN_BACKPACK_CAPACITY_def sample_uid_eq split: nat.splits)

lemma sample_fits: "fits_u32 (uid_bytes (sample_uid n))"
  by (simp add: fits_u32_def sample_uid_def)

lemma sample_swap_plan:
  "\<exists>p. plan_field_equipment_swap sample_key sample_field (SourceRunBackpack 1) ''r7'' now = Inr p
     \<and> pv_incoming p = sample_item 2"
proof -
  have inc: "incoming_item sample_field (SourceRunBackpack 1) now = Inr (sample_item 2)"
    by (simp add: incoming_item_def sample_field_def get_def)
  have repl: "fe_equipped sample_field ! slot_position (eq_legal_slot (sample_item 2)) = Some (sample_item 1)"
    by (simp add: sample_field_def sample_item_def)
  have "list_all fits_u32 (preview_fields 4 ''r7'' (SourceRunBackpack 1) (sample_item 2) (Some (sample_item 1))
      (DestinationRunBackpack 1))"
    using sample_fits by (simp add: preview_fields_def source_hash_fields_def item_hash_fields_def sample_item_def)
      (simp add: fits_u32_def)
  then have "preview_material 4 ''r7'' (SourceRunBackpack 1) (sample_item 2) (Some (sample_item 1))
      (DestinationRunBackpack 1) = Inr (frames (preview_fields 4 ''r7'' (SourceRunBackpack 1) (sample_item 2)
        (Some (sample_item 1)) (DestinationRunBackpack 1)))"
    by (simp add: preview_material_Inr)
  moreover have "fe_inventory_version sample_field = 4"
    by (simp add: sample_field_def)
  ultimately show ?thesis
    using inc repl sample_field_valid(1)
    by (simp add: plan_field_equipment_swap_def replacement_destination_of_def field_equipment_preview_hash_def
        Let_def)
qed

theorem field_swap_conserves_witness:
  "\<exists>p s'. apply_field_equipment_preview sample_key sample_field p 9 = Inr s'
     \<and> fe_equipped s' ! 0 = Some (sample_item 2) \<and> fe_backpack s' = BackpackConsumable # BackpackEquipment (sample_item 1) # replicate 6 BackpackEmpty
     \<and> mset (snapshot_items s') = mset (snapshot_items sample_field)"
proof -
  obtain p where p: "plan_field_equipment_swap sample_key sample_field (SourceRunBackpack 1) ''r7'' 5 = Inr p"
    "pv_incoming p = sample_item 2"
    using sample_swap_plan by blast
  have "fe_inventory_version sample_field \<noteq> - 1" "not_expired (SourceRunBackpack 1) 9"
    by (simp_all add: sample_field_def)
  from field_swap_conserves [OF sample_field_valid(2) this p(1)] obtain s' where
    s': "apply_field_equipment_preview sample_key sample_field p 9 = Inr s'"
      "mset (snapshot_items s') = mset (snapshot_items sample_field)"
      "\<forall>i < EQUIPMENT_SLOT_COUNT. fe_equipped s' ! i = (if i = slot_position (eq_legal_slot (pv_incoming p))
         then Some (pv_incoming p) else fe_equipped sample_field ! i)"
      "fe_backpack s' = (fe_backpack sample_field)[1 := (case fe_equipped sample_field ! slot_position (eq_legal_slot (pv_incoming p)) of
         None \<Rightarrow> BackpackEmpty | Some old \<Rightarrow> BackpackEquipment old)]"
    by auto
  from s'(3) have "fe_equipped s' ! 0 = Some (sample_item 2)"
    using p(2) by (simp add: EQUIPMENT_SLOT_COUNT_def sample_item_def)
  moreover have "fe_backpack s' = BackpackConsumable # BackpackEquipment (sample_item 1) # replicate 6 BackpackEmpty"
    using s'(4) p(2) by (simp add: sample_field_def sample_item_def)
  ultimately show ?thesis
    using s'(1,2) by blast
qed

definition sample_backpack :: "run_backpack_slot list" where
  "sample_backpack = [RunConsumable ''potion'' 4, RunEmpty, RunEquipment, RunEquipment, RunEquipment,
     RunEquipment, RunEquipment, RunEquipment]"

lemma sample_backpack_valid: "validate_run_slots sample_backpack = Inr ()"
  by (simp add: sample_backpack_def validate_run_slots_def validate_run_slot_def RUN_BACKPACK_CAPACITY_def
      DURABLE_CONSUMABLE_STACK_CAP_def)

end
