(* ===== verification/Deterministic_Rng.thy ===== *)
theory Deterministic_Rng
  imports Byte_Encoding
begin

text \<open>
  Named deterministic random streams (\<open>sim_core/src/rng.rs\<close>): the seed material of a stream and
  the rejection sampling of bounded integers. The hash function (\<open>blake3\<close>) and the generator
  (\<open>ChaCha8Rng\<close>) are code of other packages, so they are parameters: \<open>hash\<close> from the bytes fed to
  the hasher to the digest, \<open>from_seed\<close> from a seed to a generator state, and \<open>draw\<close> from a
  generator state to the next raw value and the following state.
\<close>

section \<open>Seeds\<close>

datatype rng_error = ZeroUpperBound

definition DOMAIN_SEPARATOR :: bytes where
  "DOMAIN_SEPARATOR = as_bytes ''gravebound-rng-v1'' @ [0]"

text \<open>The hasher is the byte string it has been fed; \<open>None\<close> is the panic on an over-long field.\<close>

definition update_length_prefixed :: "bytes \<Rightarrow> bytes \<Rightarrow> bytes option" where
  "update_length_prefixed hasher val =
     Option.bind (try_from_usize (length val)) (\<lambda>length32 :: u32.
       Some (hasher @ to_le_bytes length32 @ val))"

definition stream_material :: "string \<Rightarrow> u64 \<Rightarrow> string \<Rightarrow> bytes option" where
  "stream_material content_version root_seed stream_label =
     Option.bind (update_length_prefixed DOMAIN_SEPARATOR (as_bytes content_version)) (\<lambda>hasher.
       update_length_prefixed (hasher @ to_le_bytes root_seed) (as_bytes stream_label))"

definition derive_stream_seed :: "(bytes \<Rightarrow> bytes) \<Rightarrow> string \<Rightarrow> u64 \<Rightarrow> string \<Rightarrow> bytes option" where
  "derive_stream_seed hash content_version root_seed stream_label =
     map_option hash (stream_material content_version root_seed stream_label)"

definition new_rng ::
  "(bytes \<Rightarrow> bytes) \<Rightarrow> (bytes \<Rightarrow> 'g) \<Rightarrow> string \<Rightarrow> u64 \<Rightarrow> string \<Rightarrow> 'g option" where
  "new_rng hash from_seed content_version root_seed stream_label =
     map_option from_seed (derive_stream_seed hash content_version root_seed stream_label)"

section \<open>Bounded draws\<close>

definition rejection_zone :: "u64 \<Rightarrow> u64" where
  "rejection_zone upper_exclusive = (- upper_exclusive) mod upper_exclusive"

text \<open>The loop runs until a raw value lies outside the rejection zone; \<open>None\<close> is a run that never ends.\<close>

partial_function (option) sample_loop ::
  "('g \<Rightarrow> u64 \<times> 'g) \<Rightarrow> u64 \<Rightarrow> u64 \<Rightarrow> 'g \<Rightarrow> (u64 \<times> 'g) option" where
  "sample_loop draw zone upper_exclusive g =
     (if fst (draw g) \<ge> zone then Some (fst (draw g) mod upper_exclusive, snd (draw g))
      else sample_loop draw zone upper_exclusive (snd (draw g)))"

definition bounded_u64 ::
  "('g \<Rightarrow> u64 \<times> 'g) \<Rightarrow> 'g \<Rightarrow> u64 \<Rightarrow> ((rng_error + u64) \<times> 'g) option" where
  "bounded_u64 draw g upper_exclusive =
     (if upper_exclusive = 0 then Some (Inl ZeroUpperBound, g)
      else map_option (\<lambda>(v, g'). (Inr v, g'))
             (sample_loop draw (rejection_zone upper_exclusive) upper_exclusive g))"

section \<open>The rejection zone\<close>

lemma unat_uminus:
  assumes "w \<noteq> 0"
  shows "unat (- w :: 'a::len word) = 2 ^ LENGTH('a) - unat w"
proof -
  have "uint w \<noteq> 0" "uint w < 2 ^ LENGTH('a)"
    using assms by (simp_all add: unsigned_eq_0_iff unsigned_less)
  then have "uint (- w) = 2 ^ LENGTH('a) - uint w"
    by (simp add: uint_word_ariths zmod_zminus1_eq_if)
  then have "int (unat (- w)) = int (2 ^ LENGTH('a) - unat w)"
    using unat_bound [of w] by (simp add: of_nat_diff less_imp_le)
  then show ?thesis
    by (simp only: of_nat_eq_iff)
qed

lemma unat_rejection_zone:
  assumes "upper \<noteq> 0"
  shows "unat (rejection_zone upper) = 2 ^ 64 mod unat upper"
proof -
  have "unat (- upper) = 2 ^ 64 - unat upper"
    using unat_uminus [OF assms] by simp
  moreover have "unat upper \<le> 2 ^ 64"
    using unat_bound [of upper] by simp
  ultimately show ?thesis
    by (simp add: rejection_zone_def unat_mod le_mod_geq)
qed

lemma rejection_zone_below_half:
  assumes "upper \<noteq> 0"
  shows "unat (rejection_zone upper) < 2 ^ 63"
proof (cases "unat upper \<le> 2 ^ 63")
  case True
  moreover have "unat upper > 0"
    using assms by (simp add: unat_gt_0)
  ultimately have "2 ^ 64 mod unat upper < 2 ^ 63"
    by (meson mod_less_divisor order_less_le_trans)
  then show ?thesis
    using unat_rejection_zone [OF assms] by simp
next
  case False
  then have "2 ^ 64 mod unat upper = 2 ^ 64 - unat upper"
    using unat_bound [of upper] by (subst le_mod_geq) auto
  with False show ?thesis
    using unat_rejection_zone [OF assms] by simp
qed

text \<open>Exactly one number of a run of \<open>u\<close> consecutive ones has a given residue.\<close>

lemma card_residue_window:
  assumes "r < u"
  shows "card {n \<in> {a..<a + u}. n mod u = (r :: nat)} = 1"
proof -
  define m where "m = a + (r + (u - a mod u)) mod u"
  have "m mod u = (a mod u + (r + (u - a mod u))) mod u"
    by (simp add: m_def mod_simps)
  also have "a mod u + (r + (u - a mod u)) = r + u"
    using mod_less_divisor [of u a] assms by linarith
  also have "\<dots> mod u = r"
    using assms by simp
  finally have m: "m mod u = r" "a \<le> m" "m < a + u"
    using assms by (auto simp: m_def)
  have "n = m" if "n mod u = r" "a \<le> n" "n < a + u" for n
  proof (rule ccontr)
    assume "n \<noteq> m"
    then consider "n < m" | "m < n" by linarith
    then show False
    proof cases
      case 1
      then have "u dvd m - n"
        using that m by (intro mod_eq_dvd_iff_nat [THEN iffD1]) auto
      with 1 that m show False
        by (auto dest: dvd_imp_le)
    next
      case 2
      then have "u dvd n - m"
        using that m by (intro mod_eq_dvd_iff_nat [THEN iffD1]) auto
      with 2 that m show False
        by (auto dest: dvd_imp_le)
    qed
  qed
  with m have "{n \<in> {a..<a + u}. n mod u = r} = {m}"
    unfolding atLeastLessThan_iff by blast
  then show ?thesis by simp
qed

lemma card_residue_interval:
  assumes "r < u"
  shows "card {n \<in> {a..<a + u * q}. n mod u = (r :: nat)} = q"
proof (induction q)
  case (Suc q)
  have "{n \<in> {a..<a + u * Suc q}. n mod u = r}
      = {n \<in> {a..<a + u * q}. n mod u = r} \<union> {n \<in> {a + u * q..<(a + u * q) + u}. n mod u = r}"
    by (auto simp: algebra_simps)
  moreover have "{n \<in> {a..<a + u * q}. n mod u = r} \<inter> {n \<in> {a + u * q..<(a + u * q) + u}. n mod u = r} = {}"
    by auto
  ultimately show ?case
    using Suc card_residue_window [OF assms, of "a + u * q"] by (simp add: card_Un_disjoint)
qed simp

lemma image_unat_residue:
  "unat ` {v :: u64. zone \<le> v \<and> v mod upper = r}
     = {n \<in> {unat zone..<2 ^ 64}. n mod unat upper = unat r}"
proof (intro equalityI subsetI)
  fix n assume "n \<in> {n \<in> {unat zone..<2 ^ 64}. n mod unat upper = unat r}"
  then have "unat (of_nat n :: u64) = n" "n \<in> {unat zone..<2 ^ 64}" "n mod unat upper = unat r"
    by auto
  then show "n \<in> unat ` {v :: u64. zone \<le> v \<and> v mod upper = r}"
    by (intro image_eqI [of _ _ "of_nat n"]) (simp_all add: word_le_nat_alt word_unat_eq_iff unat_mod)
next
  fix n assume "n \<in> unat ` {v :: u64. zone \<le> v \<and> v mod upper = r}"
  then show "n \<in> {n \<in> {unat zone..<2 ^ 64}. n mod unat upper = unat r}"
    using unat_bound [where 'a = 64] by (auto simp: word_le_nat_alt unat_mod)
qed

section \<open>Seed material\<close>

lemma update_length_prefixed_Some:
  "update_length_prefixed hasher v = Some m \<longleftrightarrow> fits_u32 v \<and> m = hasher @ framed v"
  by (auto simp: update_length_prefixed_def bind_eq_Some_conv try_from_usize_def framed_def fits_u32_def)

lemma stream_material_Some:
  "stream_material v r l = Some m \<longleftrightarrow> fits_u32 (as_bytes v) \<and> fits_u32 (as_bytes l)
     \<and> m = DOMAIN_SEPARATOR @ framed (as_bytes v) @ to_le_bytes r @ framed (as_bytes l)"
  by (auto simp: stream_material_def bind_eq_Some_conv update_length_prefixed_Some)

section \<open>Runs of the sampling loop\<close>

definition generator_after :: "('g \<Rightarrow> u64 \<times> 'g) \<Rightarrow> nat \<Rightarrow> 'g \<Rightarrow> 'g" where
  "generator_after draw n g = ((snd \<circ> draw) ^^ n) g"

definition nth_draw :: "('g \<Rightarrow> u64 \<times> 'g) \<Rightarrow> nat \<Rightarrow> 'g \<Rightarrow> u64" where
  "nth_draw draw n g = fst (draw (generator_after draw n g))"

lemma generator_after_simps [simp]:
  "generator_after draw 0 g = g"
  "generator_after draw (Suc n) g = generator_after draw n (snd (draw g))"
  "nth_draw draw 0 g = fst (draw g)" "nth_draw draw (Suc n) g = nth_draw draw n (snd (draw g))"
  by (simp_all add: generator_after_def nth_draw_def funpow_swap1)

lemma sample_loop_first:
  assumes "zone \<le> nth_draw draw n g" and "\<And>k. k < n \<Longrightarrow> nth_draw draw k g < zone"
  shows "sample_loop draw zone upper g = Some (nth_draw draw n g mod upper, generator_after draw (Suc n) g)"
  using assms
proof (induction n arbitrary: g)
  case 0
  then show ?case by (simp add: sample_loop.simps)
next
  case (Suc n)
  have "fst (draw g) < zone"
    using Suc.prems(2) [of 0] by simp
  moreover have "nth_draw draw k (snd (draw g)) < zone" if "k < n" for k
    using Suc.prems(2) [of "Suc k"] that by simp
  ultimately show ?case
    using Suc.IH [of "snd (draw g)"] Suc.prems(1) by (subst sample_loop.simps) (auto dest: leD)
qed

lemma sample_loop_accepts:
  assumes "sample_loop draw zone upper g = Some y"
  shows "\<exists>n. zone \<le> nth_draw draw n g"
  using assms
proof (rule sample_loop.raw_induct [where P = "\<lambda>draw zone upper g y. \<exists>n. zone \<le> nth_draw draw n g", rotated])
  fix loop :: "('g \<Rightarrow> u64 \<times> 'g) \<Rightarrow> u64 \<Rightarrow> u64 \<Rightarrow> 'g \<Rightarrow> (u64 \<times> 'g) option"
    and draw :: "'g \<Rightarrow> u64 \<times> 'g" and zone upper g y
  assume IH: "\<And>draw zone upper g y. loop draw zone upper g = Some y \<Longrightarrow> \<exists>n. zone \<le> nth_draw draw n g"
    and body: "(if zone \<le> fst (draw g) then Some (fst (draw g) mod upper, snd (draw g))
      else loop draw zone upper (snd (draw g))) = Some y"
  show "\<exists>n. zone \<le> nth_draw draw n g"
  proof (cases "zone \<le> fst (draw g)")
    case True
    then have "zone \<le> nth_draw draw 0 g" by simp
    then show ?thesis ..
  next
    case False
    with body have "loop draw zone upper (snd (draw g)) = Some y" by simp
    from IH [OF this] obtain n where "zone \<le> nth_draw draw n (snd (draw g))" ..
    then have "zone \<le> nth_draw draw (Suc n) g" by simp
    then show ?thesis ..
  qed
qed

lemma bounded_draw_returns:
  assumes "upper \<noteq> 0" and m: "rejection_zone upper \<le> nth_draw draw m g"
  shows "\<exists>n \<le> m. (\<forall>k < n. nth_draw draw k g < rejection_zone upper)
    \<and> bounded_u64 draw g upper = Some (Inr (nth_draw draw n g mod upper), generator_after draw (Suc n) g)"
proof -
  define n where "n = (LEAST n. rejection_zone upper \<le> nth_draw draw n g)"
  have n: "rejection_zone upper \<le> nth_draw draw n g" "n \<le> m"
    unfolding n_def by (rule LeastI, rule m, rule Least_le, rule m)
  have before: "nth_draw draw k g < rejection_zone upper" if "k < n" for k
    using not_less_Least [OF that [unfolded n_def]] by (simp add: not_le)
  from sample_loop_first [OF n(1) before, of upper] assms(1)
  have "bounded_u64 draw g upper = Some (Inr (nth_draw draw n g mod upper), generator_after draw (Suc n) g)"
    by (simp add: bounded_u64_def)
  with n(2) before show ?thesis by blast
qed

section \<open>Properties\<close>

text \<open>
  A bounded draw returns exactly when some raw value lies outside the rejection zone, which the first
  raw value of the upper half ensures for every bound; the result is then the first accepted
  value modulo the bound, below the bound, and the generator has advanced past exactly the values
  inspected.
\<close>

lemma bounded_draw_terminates:
  assumes "upper \<noteq> 0"
  shows "((\<exists>y. bounded_u64 draw g upper = Some y) \<longleftrightarrow> (\<exists>n. rejection_zone upper \<le> nth_draw draw n g))
    \<and> (\<forall>m. 2 ^ 63 \<le> nth_draw draw m g \<longrightarrow> (\<exists>n \<le> m. (\<forall>k < n. nth_draw draw k g < rejection_zone upper)
        \<and> bounded_u64 draw g upper = Some (Inr (nth_draw draw n g mod upper), generator_after draw (Suc n) g)
        \<and> nth_draw draw n g mod upper < upper))"
proof -
  have "v mod upper < upper" for v
    using assms by (simp add: word_less_nat_alt unat_mod unat_gt_0)
  moreover have "rejection_zone upper \<le> nth_draw draw m g" if "2 ^ 63 \<le> nth_draw draw m g" for m
    using that rejection_zone_below_half [OF assms] by (simp add: word_le_nat_alt)
  moreover have "\<exists>n. rejection_zone upper \<le> nth_draw draw n g" if "bounded_u64 draw g upper = Some y" for y
    using that assms by (auto simp: bounded_u64_def dest: sample_loop_accepts)
  ultimately show ?thesis
    using bounded_draw_returns [OF assms, of draw _ g] by blast
qed

text \<open>
  The raw values of a draw as a list that the sampler consumes. (Behind its end the generator repeats 0.)
\<close>

fun next_raw :: "u64 list \<Rightarrow> u64 \<times> u64 list" where
  "next_raw [] = (0, [])"
| "next_raw (v # vs) = (v, vs)"

lemma nth_draw_exhausted: "nth_draw next_raw n [] = 0"
  by (induction n) simp_all

lemma sample_loop_exhausted: "0 < zone \<Longrightarrow> sample_loop next_raw zone upper [] = None"
  using sample_loop_accepts [of next_raw zone upper "[]"] by (cases "sample_loop next_raw zone upper []")
    (auto simp: nth_draw_exhausted)

text \<open>The lists of n + 1 raw values that a draw consumes entirely: only the last one is accepted.\<close>

lemma sample_loop_consumes:
  assumes "length raw = Suc n"
  shows "sample_loop next_raw zone upper raw = Some (r, [])
    \<longleftrightarrow> set (butlast raw) \<subseteq> {v. v < zone} \<and> zone \<le> last raw \<and> last raw mod upper = r"
  using assms
proof (induction n arbitrary: raw)
  case 0
  then obtain v where "raw = [v]"
    by (cases raw) auto
  moreover have "sample_loop next_raw zone upper [] = None" if "v < zone"
    using that by (intro sample_loop_exhausted) (simp add: word_less_nat_alt)
  ultimately show ?case
    by (cases "zone \<le> v") (simp_all add: sample_loop.simps [of next_raw zone upper "[v]"] not_le)
next
  case (Suc n)
  then obtain v vs where raw: "raw = v # vs" "length vs = Suc n"
    by (cases raw) auto
  then have "vs \<noteq> []"
    by auto
  with raw Suc.IH [OF raw(2)] show ?case
    by (subst sample_loop.simps) auto
qed

lemma card_below: "card {v :: u64. v < zone} = unat zone"
proof -
  have "unat ` {v. v < zone} = {..<unat zone}"
  proof (intro equalityI subsetI)
    fix n assume "n \<in> {..<unat zone}"
    then have "n < 2 ^ 64"
      using unat_bound [of zone] by simp
    with \<open>n \<in> {..<unat zone}\<close> show "n \<in> unat ` {v. v < zone}"
      by (intro image_eqI [of _ _ "of_nat n"]) (simp_all add: word_less_nat_alt)
  qed (auto simp: word_less_nat_alt)
  moreover have "card (unat ` {v. v < zone}) = card {v. v < zone}"
    by (intro card_image inj_onI) (simp add: word_unat_eq_iff)
  ultimately show ?thesis
    by simp
qed

lemma card_accepted:
  assumes "r < upper"
  shows "card {v. rejection_zone upper \<le> v \<and> v mod upper = r} = 2 ^ 64 div unat upper"
proof -
  let ?zone = "rejection_zone upper"
  have zone: "unat ?zone = 2 ^ 64 mod unat upper"
    using assms by (intro unat_rejection_zone) auto
  have "card {v. ?zone \<le> v \<and> v mod upper = r} = card (unat ` {v. ?zone \<le> v \<and> v mod upper = r})"
    by (intro card_image [symmetric] inj_onI) (simp add: word_unat_eq_iff)
  also have "\<dots> = card {n \<in> {unat ?zone..<unat ?zone + unat upper * (2 ^ 64 div unat upper)}.
      n mod unat upper = unat r}"
    by (simp add: image_unat_residue zone)
  also have "\<dots> = 2 ^ 64 div unat upper"
    using assms by (intro card_residue_interval) (simp add: word_less_nat_alt)
  finally show ?thesis .
qed

text \<open>These lists are the concatenations of n rejected values and one accepted value.\<close>

lemma bounded_u64_consumes:
  assumes "upper \<noteq> 0"
  shows "{raw. length raw = Suc n \<and> bounded_u64 next_raw raw upper = Some (Inr r, [])} =
    (\<lambda>(ys, v). ys @ [v]) ` ({ys. set ys \<subseteq> {v. v < rejection_zone upper} \<and> length ys = n}
      \<times> {v. rejection_zone upper \<le> v \<and> v mod upper = r})" (is "?runs = ?concat ` (?rejected \<times> ?accepted)")
proof -
  let ?zone = "rejection_zone upper"
  have "bounded_u64 next_raw raw upper = Some (Inr r, []) \<longleftrightarrow> sample_loop next_raw ?zone upper raw = Some (r, [])" for raw
    using assms by (auto simp: bounded_u64_def)
  then have runs: "raw \<in> ?runs \<longleftrightarrow> length raw = Suc n \<and> set (butlast raw) \<subseteq> {v. v < ?zone} \<and> last raw \<in> ?accepted" for raw
    using sample_loop_consumes [of raw n ?zone upper r] by auto
  show ?thesis
  proof (intro equalityI subsetI)
    fix raw assume raw: "raw \<in> ?runs"
    then have "raw = butlast raw @ [last raw]"
      by (intro append_butlast_last_id [symmetric]) auto
    with raw [unfolded runs] show "raw \<in> ?concat ` (?rejected \<times> ?accepted)"
      by (intro image_eqI [of _ _ "(butlast raw, last raw)"]) auto
  next
    fix raw assume "raw \<in> ?concat ` (?rejected \<times> ?accepted)"
    then show "raw \<in> ?runs"
      unfolding runs by auto
  qed
qed

text \<open>
  C39. A bounded draw is unbiased and ends. Among all sequences of n + 1 raw values, the number of those
  that \<open>bounded_u64\<close> consumes entirely and turns into the result r is the same for every r below the bound,
  whatever n is: each of the n rejected values is one of (2^64 mod bound), fewer than half of all values, and the accepted one
  of (2^64 div bound). On any generator that yields a value of the upper half the draw returns: it skips the rejected
  values, returns the first accepted one modulo the bound and leaves the generator just behind it.
\<close>

theorem bounded_draw_unbiased:
  assumes "r < upper"
  shows "card {raw. length raw = Suc n \<and> bounded_u64 next_raw raw upper = Some (Inr r, [])}
      = (2 ^ 64 mod unat upper) ^ n * (2 ^ 64 div unat upper)
    \<and> 2 ^ 64 mod unat upper < 2 ^ 63
    \<and> (\<forall>m. 2 ^ 63 \<le> nth_draw draw m g \<longrightarrow> (\<exists>k \<le> m. (\<forall>j < k. unat (nth_draw draw j g) < 2 ^ 64 mod unat upper)
        \<and> bounded_u64 draw g upper = Some (Inr (nth_draw draw k g mod upper), generator_after draw (Suc k) g)))"
proof -
  let ?zone = "rejection_zone upper"
  have upper: "upper \<noteq> 0"
    using assms by auto
  note zone = unat_rejection_zone [OF upper]
  have "card {raw. length raw = Suc n \<and> bounded_u64 next_raw raw upper = Some (Inr r, [])}
      = card ({ys. set ys \<subseteq> {v. v < ?zone} \<and> length ys = n} \<times> {v. ?zone \<le> v \<and> v mod upper = r})"
    unfolding bounded_u64_consumes [OF upper] by (intro card_image inj_onI) auto
  also have "\<dots> = (2 ^ 64 mod unat upper) ^ n * (2 ^ 64 div unat upper)"
    using card_lists_length_eq [of "{v. v < ?zone}" n] card_below [of ?zone]
    by (simp add: card_cartesian_product card_accepted [OF assms] zone)
  finally have runs: "card {raw. length raw = Suc n \<and> bounded_u64 next_raw raw upper = Some (Inr r, [])}
      = (2 ^ 64 mod unat upper) ^ n * (2 ^ 64 div unat upper)" .
  have returns: "\<forall>m. 2 ^ 63 \<le> nth_draw draw m g \<longrightarrow> (\<exists>k \<le> m. (\<forall>j < k. unat (nth_draw draw j g) < 2 ^ 64 mod unat upper)
        \<and> bounded_u64 draw g upper = Some (Inr (nth_draw draw k g mod upper), generator_after draw (Suc k) g))"
    using bounded_draw_terminates [OF upper, of draw g] by (simp add: word_less_nat_alt zone) blast
  have "2 ^ 64 mod unat upper < 2 ^ 63"
    using rejection_zone_below_half [OF upper] zone by simp
  with runs returns show ?thesis
    by blast
qed

text \<open>
  Different streams have different seed material: whenever two triples of content version, root seed
  and stream label are fed to the hash as the same bytes, they are the same triple; every triple
  whose strings are shorter than $2^{32}$ bytes has such material.
\<close>

lemma stream_material_separates:
  "(\<forall>m. stream_material v1 r1 l1 = Some m \<and> stream_material v2 r2 l2 = Some m
      \<longrightarrow> v1 = v2 \<and> r1 = r2 \<and> l1 = l2)
    \<and> (length v1 < 2 ^ 32 \<and> length l1 < 2 ^ 32 \<longrightarrow> (\<exists>m. stream_material v1 r1 l1 = Some m))"
proof (intro conjI allI impI; (elim conjE)?)
  fix m assume m: "stream_material v1 r1 l1 = Some m" "stream_material v2 r2 l2 = Some m"
  then have fits: "fits_u32 (as_bytes v1)" "fits_u32 (as_bytes v2)" "fits_u32 (as_bytes l1)" "fits_u32 (as_bytes l2)"
    and same: "framed (as_bytes v1) @ to_le_bytes r1 @ framed (as_bytes l1)
      = framed (as_bytes v2) @ to_le_bytes r2 @ framed (as_bytes l2)"
    by (simp_all add: stream_material_Some)
  from field.encode_append_inject [OF fits(1,2) same]
  have v: "v1 = v2" and rest: "to_le_bytes r1 @ framed (as_bytes l1) = to_le_bytes r2 @ framed (as_bytes l2)"
    by simp_all
  from le64.encode_append_inject [OF TrueI TrueI rest] field.encode_inject [OF fits(3,4)] v
  show "v1 = v2" "r1 = r2" "l1 = l2"
    by simp_all
next
  assume "length v1 < 2 ^ 32" "length l1 < 2 ^ 32"
  then show "\<exists>m. stream_material v1 r1 l1 = Some m"
    by (simp add: stream_material_Some fits_u32_def)
qed

section \<open>Concrete streams\<close>

text \<open>A counter stands in for the generator.\<close>

definition counter_draw :: "u64 \<Rightarrow> u64 \<times> u64" where
  "counter_draw g = (g, g + 1)"

theorem bounded_draw_unbiased_witness:
  "card {raw. length raw = 3 \<and> bounded_u64 next_raw raw 10 = Some (Inr 3, [])} = 6 ^ 2 * 1844674407370955161
    \<and> bounded_u64 counter_draw (2 ^ 63) 10 = Some (Inr 8, 2 ^ 63 + 1)"
proof -
  have "3 < (10 :: u64)"
    by simp
  note facts = bounded_draw_unbiased [OF this, of 2 counter_draw "2 ^ 63"]
  have count: "card {raw. length raw = 3 \<and> bounded_u64 next_raw raw 10 = Some (Inr 3, [])} = 6 ^ 2 * 1844674407370955161"
    using facts by simp
  have "nth_draw counter_draw 0 (2 ^ 63) = 2 ^ 63"
    by (simp add: counter_draw_def)
  then have "2 ^ 63 \<le> nth_draw counter_draw 0 (2 ^ 63)"
    by (simp only: order.refl)
  from facts [THEN conjunct2, THEN conjunct2, THEN spec, THEN mp, OF this] obtain k where "k \<le> 0"
    "bounded_u64 counter_draw (2 ^ 63) 10
      = Some (Inr (nth_draw counter_draw k (2 ^ 63) mod 10), generator_after counter_draw (Suc k) (2 ^ 63))"
    by blast
  with count show ?thesis
    by (simp add: counter_draw_def)
qed

end
