(* ===== verification/Core_Progression.thy ===== *)
theory Core_Progression
  imports Simulation_Clock
begin

text \<open>
  Character progression (\<open>sim_core/src/progression.rs\<close>): the level curve, XP grants up to the Core cap,
  level stats, health rebuild and the XP eligibility rules. A fixed-size array is a list whose
  length the theorems assume. Unchecked \<open>+\<close> and \<open>*\<close> wrap, as in the release profile.
\<close>

section \<open>Curve, definition and state\<close>

definition CORE_LEVEL_COUNT :: nat where
  "CORE_LEVEL_COUNT = 10"

definition NORMAL_XP_RADIUS_MILLI_TILES :: i32 where
  "NORMAL_XP_RADIUS_MILLI_TILES = 16000"

definition NORMAL_XP_CONTRIBUTION_WINDOW_TICKS :: u32 where
  "NORMAL_XP_CONTRIBUTION_WINDOW_TICKS = 10 * TICK_RATE_HZ"

definition SOC_SHORT_ENCOUNTER_TICKS :: u64 where
  "SOC_SHORT_ENCOUNTER_TICKS = 600"

definition SOC_INACTIVITY_LIMIT_TICKS :: u64 where
  "SOC_INACTIVITY_LIMIT_TICKS = 600"

datatype core_progression_error =
    ZeroVersion
  | InvalidLevelXpPair
  | InvalidLevelCurve
  | InvalidClassProgression
  | VersionExhausted
  | LevelOutsideCore
  | InvalidLivingVitals
  | InvalidEligibilityEvidence

record level_curve =
  cumulative_xp :: "u32 list"

definition validate_curve :: "level_curve \<Rightarrow> core_progression_error + unit" where
  "validate_curve curve =
     (if cumulative_xp curve ! 0 \<noteq> 0 \<or> \<not> windows2_all (<) (cumulative_xp curve)
      then Inl InvalidLevelCurve else Inr ())"

definition xp_cap :: "level_curve \<Rightarrow> u32" where
  "xp_cap curve = cumulative_xp curve ! (CORE_LEVEL_COUNT - 1)"

text \<open>\<open>slice::partition_point\<close>: the number of leading elements that satisfy the predicate.\<close>

definition partition_point :: "('a \<Rightarrow> bool) \<Rightarrow> 'a list \<Rightarrow> nat" where
  "partition_point P xs = length (takeWhile P xs)"

definition level_for_core_xp :: "level_curve \<Rightarrow> u32 \<Rightarrow> core_progression_error + u16" where
  "level_for_core_xp curve xp =
     and_then (validate_curve curve) (\<lambda>_.
     let bounded = min xp (xp_cap curve) in
     ok_or (try_from_usize (partition_point (\<lambda>threshold. threshold \<le> bounded) (cumulative_xp curve)))
       InvalidLevelCurve)"

record core_progression_state =
  total_xp :: u32
  level :: u16
  progression_version :: u64

definition new_progression :: core_progression_state where
  "new_progression = \<lparr>total_xp = 0, level = 1, progression_version = 1\<rparr>"

definition validate_progression ::
  "core_progression_state \<Rightarrow> level_curve \<Rightarrow> core_progression_error + unit" where
  "validate_progression state curve =
     and_then (validate_curve curve) (\<lambda>_.
     if progression_version state = 0 then Inl ZeroVersion
     else if total_xp state > xp_cap curve then Inl InvalidLevelXpPair
     else and_then (level_for_core_xp curve (total_xp state)) (\<lambda>l.
       if level state \<noteq> l then Inl InvalidLevelXpPair else Inr ()))"

record core_progression_grant =
  grant_before :: core_progression_state
  grant_after :: core_progression_state
  requested_xp :: u32
  applied_xp :: u32
  discarded_at_core_cap :: u32
  levels_gained :: u16

definition apply_core_xp ::
  "level_curve \<Rightarrow> core_progression_state \<Rightarrow> u32 \<Rightarrow> core_progression_error + core_progression_grant" where
  "apply_core_xp curve state requested =
     and_then (validate_progression state curve) (\<lambda>_.
     let uncapped = saturating_add (total_xp state) requested;
         xp = min uncapped (xp_cap curve);
         applied = xp - total_xp state in
     and_then (level_for_core_xp curve xp) (\<lambda>l.
     and_then (if applied = 0 then Inr (progression_version state)
               else ok_or (checked_add (progression_version state) 1) VersionExhausted) (\<lambda>version.
     let after = \<lparr>total_xp = xp, level = l, progression_version = version\<rparr> in
     and_then (validate_progression after curve) (\<lambda>_.
       Inr \<lparr>grant_before = state, grant_after = after, requested_xp = requested, applied_xp = applied,
            discarded_at_core_cap = requested - applied, levels_gained = l - level state\<rparr>))))"

section \<open>Level stats and health\<close>

record grave_arbalist_progression_definition =
  starting_maximum_health :: u32
  health_per_level_after_one :: u32
  starting_armor :: u16
  armor_growth_levels :: "u16 list"
  definition_movement_milli_tiles_per_second :: u32
  level_damage_growth_basis_points :: u32

definition validate_class_progression ::
  "grave_arbalist_progression_definition \<Rightarrow> core_progression_error + unit" where
  "validate_class_progression d =
     (if starting_maximum_health d = 0 \<or> health_per_level_after_one d = 0
         \<or> definition_movement_milli_tiles_per_second d = 0 \<or> level_damage_growth_basis_points d = 0
         \<or> armor_growth_levels d = [] \<or> \<not> windows2_all (<) (armor_growth_levels d)
      then Inl InvalidClassProgression else Inr ())"

record grave_arbalist_level_stats =
  stats_level :: u16
  stats_maximum_health :: u32
  stats_armor :: u16
  stats_movement_milli_tiles_per_second :: u32
  stats_damage_multiplier_basis_points :: u32

definition grave_arbalist_level_stats ::
  "grave_arbalist_progression_definition \<Rightarrow> u16 \<Rightarrow> core_progression_error + grave_arbalist_level_stats" where
  "grave_arbalist_level_stats d l =
     and_then (validate_class_progression d) (\<lambda>_.
     if \<not> (1 \<le> l \<and> l \<le> of_nat CORE_LEVEL_COUNT) then Inl LevelOutsideCore
     else let levels_after_one = ucast (l - 1) in
          and_then (ok_or (try_from_usize (length (filter (\<lambda>g. g \<le> l) (armor_growth_levels d))))
                     InvalidClassProgression) (\<lambda>armor_growth.
            Inr \<lparr>stats_level = l,
                 stats_maximum_health = starting_maximum_health d + health_per_level_after_one d * levels_after_one,
                 stats_armor = starting_armor d + armor_growth,
                 stats_movement_milli_tiles_per_second = definition_movement_milli_tiles_per_second d,
                 stats_damage_multiplier_basis_points =
                   10000 + level_damage_growth_basis_points d * levels_after_one\<rparr>))"

definition rebuild_current_health :: "u32 \<Rightarrow> u32 \<Rightarrow> u32 \<Rightarrow> core_progression_error + u32" where
  "rebuild_current_health current_health old_maximum_health new_maximum_health =
     (if old_maximum_health = 0 \<or> new_maximum_health = 0 \<or> current_health = 0
         \<or> current_health > old_maximum_health
      then Inl InvalidLivingVitals
      else Inr (max (min current_health new_maximum_health) 1))"

section \<open>XP eligibility\<close>

record normal_xp_evidence =
  living_at_enemy_death :: bool
  delta_x_milli_tiles :: i32
  delta_y_milli_tiles :: i32
  contribution_window_ticks :: u32
  actual_health_damage_to_enemy :: u64
  effective_support_to_qualifying_player :: bool

datatype reward_life_state = Living | Dead
datatype reward_recall_state = Eligible | EmergencyRecallCompleted
datatype reward_trust_state = Valid | InvalidSession | AntiCheatRejected

record encounter_xp_evidence =
  active_ticks :: u64
  present_ticks :: u64
  longest_inactivity_ticks :: u64
  encounter_contribution_reference_health :: u64
  direct_damage :: u64
  effective_healing_to_others :: u64
  damage_prevented_on_others :: u64
  qualifying_objective_credits :: u8
  life_state :: reward_life_state
  recall_state :: reward_recall_state
  trust_state :: reward_trust_state

record xp_eligibility =
  eligible :: bool
  contribution_centi_units :: u128

text \<open>The squared distance is computed on \<open>i64\<close>, compared as signed values.\<close>

definition evaluate_normal_xp_eligibility ::
  "normal_xp_evidence \<Rightarrow> core_progression_error + xp_eligibility" where
  "evaluate_normal_xp_eligibility e =
     (if contribution_window_ticks e > NORMAL_XP_CONTRIBUTION_WINDOW_TICKS then Inl InvalidEligibilityEvidence
      else let x = scast (delta_x_milli_tiles e) :: u64;
               y = scast (delta_y_milli_tiles e);
               radius = scast NORMAL_XP_RADIUS_MILLI_TILES :: u64;
               in_range = sint (x * x + y * y) \<le> sint (radius * radius);
               contributed = actual_health_damage_to_enemy e \<ge> 1 \<or> effective_support_to_qualifying_player e
           in Inr \<lparr>eligible = living_at_enemy_death e \<and> in_range \<and> contributed,
                   contribution_centi_units = ucast (actual_health_damage_to_enemy e) * 100\<rparr>)"

definition evaluate_encounter_xp_eligibility ::
  "encounter_xp_evidence \<Rightarrow> core_progression_error + xp_eligibility" where
  "evaluate_encounter_xp_eligibility e =
     (if active_ticks e = 0 \<or> present_ticks e > active_ticks e
         \<or> encounter_contribution_reference_health e = 0 \<or> qualifying_objective_credits e > 2
      then Inl InvalidEligibilityEvidence
      else let contribution = (ucast (direct_damage e) * 100 + ucast (effective_healing_to_others e) * 80
                 + ucast (damage_prevented_on_others e) * 60
                 + ucast (qualifying_objective_credits e) * 2
                     * ucast (encounter_contribution_reference_health e)) :: u128;
               presence_qualified = active_ticks e < SOC_SHORT_ENCOUNTER_TICKS
                 \<or> (ucast (present_ticks e) * 2 :: u128) \<ge> ucast (active_ticks e);
               contribution_qualified =
                 contribution * 2 \<ge> ucast (encounter_contribution_reference_health e)
           in Inr \<lparr>eligible = presence_qualified \<and> contribution_qualified
                     \<and> longest_inactivity_ticks e \<le> SOC_INACTIVITY_LIMIT_TICKS
                     \<and> life_state e = Living \<and> recall_state e = Eligible \<and> trust_state e = Valid,
                   contribution_centi_units = contribution\<rparr>)"

definition first_clear_bonus :: "u32 \<Rightarrow> u32" where
  "first_clear_bonus base_xp = div_ceil base_xp 2"

end
