(* ===== verification/Progression_Properties.thy ===== *)
theory Progression_Properties
  imports Core_Progression
begin

text \<open>
  Properties of character progression: any run of XP grants behaves as one grant of their sum, capped
  once; the XP eligibility rules compute the intended arithmetic conditions.
\<close>

section \<open>Levels\<close>

definition curve_ok :: "level_curve \<Rightarrow> bool" where
  "curve_ok curve \<longleftrightarrow> length (cumulative_xp curve) = CORE_LEVEL_COUNT \<and> validate_curve curve = Inr ()"

definition level_at :: "level_curve \<Rightarrow> u32 \<Rightarrow> nat" where
  "level_at curve xp = length (filter (\<lambda>threshold. threshold \<le> xp) (cumulative_xp curve))"

lemma curve_ok_sorted:
  assumes "curve_ok curve"
  shows "sorted_wrt (<) (cumulative_xp curve)" "length (cumulative_xp curve) = 10"
  using assms by (auto simp: curve_ok_def validate_curve_def windows2_all_less CORE_LEVEL_COUNT_def split: if_splits)

lemma takeWhile_le_sorted:
  "sorted_wrt (<) xs \<Longrightarrow> takeWhile (\<lambda>t. t \<le> b) xs = filter (\<lambda>t. t \<le> (b :: 'a::linorder)) xs"
proof (induction xs)
  case (Cons x xs)
  have "filter (\<lambda>t. t \<le> b) xs = []" if "\<not> x \<le> b"
    using that Cons.prems by (auto simp: filter_empty_conv)
  with Cons show ?case by auto
qed simp

lemma level_for_core_xp_eq:
  assumes "curve_ok curve" and "xp \<le> xp_cap curve"
  shows "level_for_core_xp curve xp = Inr (of_nat (level_at curve xp))" and "level_at curve xp \<le> 10"
proof -
  show "level_at curve xp \<le> 10"
    using curve_ok_sorted [OF assms(1)] by (metis level_at_def length_filter_le)
  then show "level_for_core_xp curve xp = Inr (of_nat (level_at curve xp))"
    using assms curve_ok_sorted [OF assms(1)]
    by (simp add: level_for_core_xp_def Let_def partition_point_def takeWhile_le_sorted level_at_def
        try_from_usize_def curve_ok_def)
qed

lemma length_filter_le_filter:
  "(\<And>x. P x \<Longrightarrow> Q x) \<Longrightarrow> length (filter P xs) \<le> length (filter Q xs)"
  by (induction xs) (auto simp: le_SucI)

lemma level_at_mono: "a \<le> b \<Longrightarrow> level_at curve a \<le> level_at curve b"
  unfolding level_at_def by (rule length_filter_le_filter) (rule order_trans)

definition progression_ok :: "level_curve \<Rightarrow> core_progression_state \<Rightarrow> bool" where
  "progression_ok curve state \<longleftrightarrow> progression_version state \<noteq> 0 \<and> total_xp state \<le> xp_cap curve
     \<and> level state = of_nat (level_at curve (total_xp state))"

lemma validate_progression_iff:
  assumes "curve_ok curve"
  shows "validate_progression state curve = Inr () \<longleftrightarrow> progression_ok curve state"
proof (cases "total_xp state \<le> xp_cap curve")
  case True
  with level_for_core_xp_eq(1) [OF assms True] assms show ?thesis
    by (auto simp: validate_progression_def progression_ok_def curve_ok_def)
next
  case False
  with assms show ?thesis
    by (auto simp: validate_progression_def progression_ok_def curve_ok_def)
qed

section \<open>Grants\<close>

fun apply_grants ::
  "level_curve \<Rightarrow> core_progression_state \<Rightarrow> u32 list \<Rightarrow> core_progression_error + core_progression_state" where
  "apply_grants curve state [] = Inr state"
| "apply_grants curve state (xp # xps) =
     and_then (apply_core_xp curve state xp) (\<lambda>grant. apply_grants curve (grant_after grant) xps)"

definition capped_xp :: "level_curve \<Rightarrow> nat \<Rightarrow> nat" where
  "capped_xp curve n = min (unat (xp_cap curve)) n"

lemma grant_total:
  assumes "total_xp state \<le> xp_cap curve"
  shows "unat (min (saturating_add (total_xp state) requested) (xp_cap curve))
      = capped_xp curve (unat (total_xp state) + unat requested)"
    and "total_xp state \<le> min (saturating_add (total_xp state) requested) (xp_cap curve)"
  using assms unat_bound [of "xp_cap curve"]
  by (auto simp: capped_xp_def unat_min unat_saturating_add word_le_nat_alt)

lemma levels_gained_exact:
  assumes "k \<le> l" "l \<le> 10"
  shows "unat (of_nat l :: u16) = unat (of_nat k :: u16) + unat (of_nat l - of_nat k :: u16)"
proof -
  have "unat (of_nat l :: u16) = l" "unat (of_nat k :: u16) = k"
    using assms by simp_all
  with assms show ?thesis
    by (simp only: unat_sub word_le_nat_alt)
qed

lemma unat_add_diff: "a \<le> b \<Longrightarrow> unat a + unat (b - a) = unat (b :: 'a::len word)"
  by (simp add: unat_sub word_le_nat_alt)

lemma apply_core_xp_ok:
  assumes "curve_ok curve" and state: "progression_ok curve state" and "progression_version state \<noteq> - 1"
  shows "\<exists>grant. apply_core_xp curve state requested = Inr grant \<and> grant_before grant = state
    \<and> progression_ok curve (grant_after grant)
    \<and> unat (total_xp (grant_after grant)) = capped_xp curve (unat (total_xp state) + unat requested)
    \<and> unat (total_xp (grant_after grant)) = unat (total_xp state) + unat (applied_xp grant)
    \<and> unat (applied_xp grant) + unat (discarded_at_core_cap grant) = unat requested
    \<and> unat (level (grant_after grant)) = unat (level state) + unat (levels_gained grant)
    \<and> progression_version (grant_after grant) = progression_version state + (if applied_xp grant = 0 then 0 else 1)"
proof -
  let ?xp = "min (saturating_add (total_xp state) requested) (xp_cap curve)"
  let ?applied = "?xp - total_xp state"
  let ?after = "\<lparr>total_xp = ?xp, level = of_nat (level_at curve ?xp),
    progression_version = progression_version state + (if ?applied = 0 then 0 else 1)\<rparr>"
  from state have total: "total_xp state \<le> xp_cap curve" and lev: "level state = of_nat (level_at curve (total_xp state))"
    by (auto simp: progression_ok_def)
  note xp = grant_total [OF total, of requested]
  have applied: "unat ?xp = unat (total_xp state) + unat ?applied"
    by (rule unat_add_diff [OF xp(2), symmetric])
  have "unat ?xp \<le> unat (total_xp state) + unat requested"
    unfolding xp(1) capped_xp_def by (rule min.cobounded2)
  with applied have "?applied \<le> requested"
    unfolding word_le_nat_alt by linarith
  note discarded = unat_add_diff [OF this]
  have cap: "?xp \<le> xp_cap curve" by simp
  note levels = level_for_core_xp_eq [OF assms(1) cap] level_for_core_xp_eq(2) [OF assms(1) total]
  have "unat (of_nat (level_at curve ?xp) :: u16)
      = unat (level state) + unat (of_nat (level_at curve ?xp) - level state)"
    unfolding lev by (rule levels_gained_exact [OF level_at_mono [OF xp(2)] levels(2)])
  moreover have "apply_core_xp curve state requested = Inr \<lparr>grant_before = state, grant_after = ?after,
      requested_xp = requested, applied_xp = ?applied, discarded_at_core_cap = requested - ?applied,
      levels_gained = of_nat (level_at curve ?xp) - level state\<rparr>"
    and "progression_ok curve ?after"
  proof -
    have "progression_version state + 1 \<noteq> 0"
      using assms(3) by (simp add: eq_neg_iff_add_eq_0)
    then show after: "progression_ok curve ?after"
      using state cap by (simp add: progression_ok_def)
    have "validate_progression ?after curve = Inr ()" "validate_progression state curve = Inr ()"
      using after state validate_progression_iff [OF assms(1)] by blast+
    with levels(1) assms(3) show "apply_core_xp curve state requested = Inr \<lparr>grant_before = state, grant_after = ?after,
      requested_xp = requested, applied_xp = ?applied, discarded_at_core_cap = requested - ?applied,
      levels_gained = of_nat (level_at curve ?xp) - level state\<rparr>"
      by (cases "?applied = 0") (simp_all add: apply_core_xp_def Let_def checked_add_one)
  qed
  ultimately show ?thesis
    using xp(1) applied discarded by simp
qed

text \<open>
  A run of XP grants is worth exactly their sum: on a valid curve and state, with enough versions left,
  every run succeeds with a valid state whose XP is the starting XP plus the sum of the grants,
  capped once at the Core cap, whose level is the number of thresholds reached, and whose version
  has advanced by at most one per grant. The result does not depend on the order or the splitting
  of the grants.
\<close>

lemma grants_collapse:
  assumes "curve_ok curve" and "validate_progression state curve = Inr ()"
    and "unat (progression_version state) + length grants < 2 ^ 64"
  shows "\<exists>final. apply_grants curve state grants = Inr final \<and> validate_progression final curve = Inr ()
    \<and> unat (total_xp final) = min (unat (xp_cap curve)) (unat (total_xp state) + sum_list (map unat grants))
    \<and> unat (level final) = level_at curve (total_xp final)
    \<and> unat (progression_version final) \<le> unat (progression_version state) + length grants"
  using assms(2,3)
proof (induction grants arbitrary: state)
  case Nil
  then have state: "progression_ok curve state"
    using validate_progression_iff [OF assms(1)] by blast
  then have "unat (level state) = level_at curve (total_xp state)"
    using level_for_core_xp_eq(2) [OF assms(1), of "total_xp state"] by (simp add: progression_ok_def)
  with Nil state show ?case
    by (simp add: progression_ok_def word_le_nat_alt min_def)
next
  case (Cons xp grants)
  from Cons.prems have state: "progression_ok curve state"
    using validate_progression_iff [OF assms(1)] by blast
  have "unat (- 1 :: u64) = 2 ^ 64 - 1"
    by (simp add: unat_max_word)
  with Cons.prems(2) have "progression_version state \<noteq> - 1"
    by auto
  from apply_core_xp_ok [OF assms(1) state this, of xp] obtain grant where
    grant: "apply_core_xp curve state xp = Inr grant" "progression_ok curve (grant_after grant)"
      "unat (total_xp (grant_after grant)) = capped_xp curve (unat (total_xp state) + unat xp)"
    and version: "progression_version (grant_after grant) = progression_version state + (if applied_xp grant = 0 then 0 else 1)"
    by blast
  have "unat (progression_version (grant_after grant)) \<le> Suc (unat (progression_version state))"
    unfolding version by (auto simp: unat_word_ariths intro: order_trans [OF mod_less_eq_dividend])
  with Cons.prems(2) have bound: "unat (progression_version (grant_after grant)) + length grants
      \<le> unat (progression_version state) + length (xp # grants)"
    by simp
  with Cons.prems(2) Cons.IH [of "grant_after grant"] grant(2) validate_progression_iff [OF assms(1)]
  obtain final where final: "apply_grants curve (grant_after grant) grants = Inr final"
      "validate_progression final curve = Inr ()"
      "unat (total_xp final) = min (unat (xp_cap curve)) (unat (total_xp (grant_after grant)) + sum_list (map unat grants))"
      "unat (level final) = level_at curve (total_xp final)"
      "unat (progression_version final) \<le> unat (progression_version (grant_after grant)) + length grants"
    by auto
  then have "unat (total_xp final) = min (unat (xp_cap curve)) (unat (total_xp state) + sum_list (map unat (xp # grants)))"
    unfolding grant(3) by (simp add: capped_xp_def)
  with final grant(1) bound show ?case
    by (auto intro: order_trans)
qed

section \<open>XP eligibility\<close>

lemma square_bound: "sint (d :: i32) * sint d \<le> 2 ^ 62" "0 \<le> sint d * sint d"
proof -
  have "\<bar>sint d\<bar> \<le> 2 ^ 31"
    using sint_lt [of d] sint_ge [of d] by auto
  then have "\<bar>sint d\<bar> * \<bar>sint d\<bar> \<le> 2 ^ 31 * 2 ^ 31"
    by (intro mult_mono) auto
  then show "sint d * sint d \<le> 2 ^ 62"
    by simp
qed simp

lemma square_bound_strict:
  assumes "- (2 ^ 31) < sint (d :: i32)"
  shows "sint d * sint d < 2 ^ 62"
proof -
  have "\<bar>sint d\<bar> \<le> 2 ^ 31 - 1"
    using sint_lt [of d] assms by auto
  then have "\<bar>sint d\<bar> * \<bar>sint d\<bar> \<le> (2 ^ 31 - 1) * (2 ^ 31 - 1)"
    by (intro mult_mono) auto
  then show ?thesis by simp
qed

lemma sint_square: "sint (scast (d :: i32) * scast d :: u64) = sint d * sint d"
  using square_bound [of d] by (simp add: sint_word_ariths sint_scast_widen signed_take_bit_small)

lemma sint_squared_distance:
  assumes "- (2 ^ 31) < sint dx \<or> - (2 ^ 31) < sint (dy :: i32)"
  shows "sint (scast (dx :: i32) * scast dx + scast dy * scast dy :: u64) = sint dx * sint dx + sint dy * sint dy"
proof -
  have "sint dx * sint dx + sint dy * sint dy < 2 ^ 63"
    using assms square_bound(1) [of dx] square_bound(1) [of dy] square_bound_strict [of dx] square_bound_strict [of dy]
    by auto
  then show ?thesis
    using square_bound(2) [of dx] square_bound(2) [of dy]
    by (subst sint_word_ariths(1)) (simp add: sint_square signed_take_bit_small)
qed

text \<open>At the corner of both offsets the sum wraps to a negative number, which passes the range test.\<close>

lemma corner_wraps:
  assumes "sint (dx :: i32) = - (2 ^ 31)" "sint (dy :: i32) = - (2 ^ 31)"
  shows "sint (scast dx * scast dx + scast dy * scast dy :: u64) = - (2 ^ 63)"
proof -
  have "dx = - (2 ^ 31)" "dy = - (2 ^ 31)"
    using assms by (auto intro!: signed_word_eqI)
  then show ?thesis by simp
qed

text \<open>
  C40. Normal XP eligibility is the exact rule: with a legal contribution window, a participant is
  eligible exactly when alive at the death, within 16 tiles by the exact Euclidean distance, and
  contributing, provided one of the two offsets is above the least \<open>i32\<close> value. When both are the
  least value, the squared distance overflows \<open>i64\<close>, wraps, and the participant counts as in range.
\<close>

theorem normal_xp_exact:
  assumes "contribution_window_ticks e \<le> NORMAL_XP_CONTRIBUTION_WINDOW_TICKS"
  shows "\<exists>r. evaluate_normal_xp_eligibility e = Inr r
    \<and> unat (contribution_centi_units r) = 100 * unat (actual_health_damage_to_enemy e)
    \<and> (eligible r \<longleftrightarrow> living_at_enemy_death e
        \<and> ((sint (delta_x_milli_tiles e))\<^sup>2 + (sint (delta_y_milli_tiles e))\<^sup>2 \<le> 16000\<^sup>2
           \<or> sint (delta_x_milli_tiles e) = - (2 ^ 31) \<and> sint (delta_y_milli_tiles e) = - (2 ^ 31))
        \<and> (actual_health_damage_to_enemy e \<noteq> 0 \<or> effective_support_to_qualifying_player e))"
proof -
  let ?x = "delta_x_milli_tiles e" and ?y = "delta_y_milli_tiles e"
  have radius: "sint (scast NORMAL_XP_RADIUS_MILLI_TILES * scast NORMAL_XP_RADIUS_MILLI_TILES :: u64) = 16000\<^sup>2"
    unfolding sint_square by (simp add: NORMAL_XP_RADIUS_MILLI_TILES_def power2_eq_square)
  have range: "sint (scast ?x * scast ?x + scast ?y * scast ?y :: u64) \<le> 16000\<^sup>2
      \<longleftrightarrow> (sint ?x)\<^sup>2 + (sint ?y)\<^sup>2 \<le> 16000\<^sup>2 \<or> sint ?x = - (2 ^ 31) \<and> sint ?y = - (2 ^ 31)"
  proof (cases "sint ?x = - (2 ^ 31) \<and> sint ?y = - (2 ^ 31)")
    case True
    then show ?thesis
      using corner_wraps [of ?x ?y] by simp
  next
    case False
    then have "- (2 ^ 31) < sint ?x \<or> - (2 ^ 31) < sint ?y"
      using sint_ge [of ?x] sint_ge [of ?y] by auto
    from sint_squared_distance [OF this] False show ?thesis
      unfolding power2_eq_square by metis
  qed
  have "unat (ucast d * 100 :: u128) = 100 * unat d" for d :: u64
    using unat_bound [of d] by (simp add: unat_word_ariths unat_ucast_widen)
  moreover have "1 \<le> d \<longleftrightarrow> d \<noteq> 0" for d :: u64
    by (metis word_gt_0 word_less_1 not_le)
  ultimately show ?thesis
    using assms range by (simp add: evaluate_normal_xp_eligibility_def Let_def radius not_less)
qed

section \<open>Concrete grants\<close>

definition sample_curve :: level_curve where
  "sample_curve = \<lparr>cumulative_xp = [0, 100, 250, 450, 700, 1000, 1350, 1750, 2200, 2700]\<rparr>"

lemma sample_curve_ok: "curve_ok sample_curve"
  by (simp add: curve_ok_def validate_curve_def sample_curve_def CORE_LEVEL_COUNT_def)

lemma new_progression_ok: "validate_progression new_progression sample_curve = Inr ()"
  unfolding validate_progression_iff [OF sample_curve_ok]
  by (simp add: progression_ok_def new_progression_def level_at_def sample_curve_def xp_cap_def CORE_LEVEL_COUNT_def)

theorem normal_xp_exact_witness:
  "\<exists>r. evaluate_normal_xp_eligibility \<lparr>living_at_enemy_death = True, delta_x_milli_tiles = 9600,
     delta_y_milli_tiles = - 12800, contribution_window_ticks = 30, actual_health_damage_to_enemy = 5,
     effective_support_to_qualifying_player = False\<rparr> = Inr r \<and> eligible r"
  using normal_xp_exact [of "\<lparr>living_at_enemy_death = True, delta_x_milli_tiles = 9600,
     delta_y_milli_tiles = - 12800, contribution_window_ticks = 30, actual_health_damage_to_enemy = 5,
     effective_support_to_qualifying_player = False\<rparr>"]
  by (simp add: NORMAL_XP_CONTRIBUTION_WINDOW_TICKS_def TICK_RATE_HZ_def power2_eq_square) blast

end
