(* ===== verification/Veil_Bargain.thy ===== *)
theory Veil_Bargain
  imports Byte_Encoding
begin

text \<open>
  Veil Bargains: the loadout of active bargains and its resolved modifiers
  (\<open>sim_core/src/bargain.rs\<close>), and the planning of an offer from scored candidates
  (\<open>sim_core/src/bargain_offer.rs\<close>). The hash of the offer score (\<open>blake3\<close>) is a parameter from the
  bytes fed to the hasher to the digest.
\<close>

section \<open>Definitions and loadouts\<close>

definition BARGAIN_BASIS_POINTS_PER_ONE :: u32 where
  "BARGAIN_BASIS_POINTS_PER_ONE = 10000"

definition MAXIMUM_OUTGOING_DAMAGE_BASIS_POINTS :: u32 where
  "MAXIMUM_OUTGOING_DAMAGE_BASIS_POINTS = 15000"

definition MINIMUM_MAXIMUM_HEALTH_BASIS_POINTS :: u32 where
  "MINIMUM_MAXIMUM_HEALTH_BASIS_POINTS = 7000"

definition MAX_ACTIVE_BARGAINS :: nat where
  "MAX_ACTIVE_BARGAINS = 3"

datatype core_bargain_kind = KindCinderHunger | KindBellDebt | KindLanternAsh

record cinder_hunger_definition =
  outgoing_direct_damage_multiplier_basis_points :: u32
  maximum_health_multiplier_basis_points :: u32

record bell_debt_definition =
  accepted_primary_emissions_per_repeat :: u8
  repeat_delay_ticks :: u32
  repeat_damage_multiplier_basis_points :: u32
  primary_attack_rate_multiplier_basis_points :: u32
  counts_legal_misses :: bool
  generated_repeats_advance_counter :: bool
  snapshots_aim_and_resolved_behavior :: bool
  uses_live_origin_at_repeat :: bool
  repeat_is_recursive :: bool
  repeat_spends_cooldown_or_resource :: bool
  counter_persists_reconnect_and_room_change :: bool
  counter_resets_on_acquisition_purge_death_retirement_or_safe_transfer :: bool
  cancel_pending_repeat_when_dead_transferred_or_primary_illegal :: bool

record lantern_ash_definition =
  potion_healing_multiplier_basis_points :: u32
  active_belt_slot_count :: u8
  active_belt_index :: u8
  inactive_slot_remains_stored_visible_locked :: bool

datatype core_bargain_definition =
    CinderHunger cinder_hunger_definition
  | BellDebt bell_debt_definition
  | LanternAsh lantern_ash_definition

datatype core_bargain_error =
    TooManyActiveBargains
  | DuplicateBargain
  | InvalidCinderHunger
  | InvalidBellDebt
  | InvalidLanternAsh
  | InvalidMaximumHealthMultiplier
  | InvalidPrimaryInterval
  | InvalidOutgoingDirectDamageMultiplier
  | ArithmeticOverflow

fun bargain_kind :: "core_bargain_definition \<Rightarrow> core_bargain_kind" where
  "bargain_kind (CinderHunger d) = KindCinderHunger"
| "bargain_kind (BellDebt d) = KindBellDebt"
| "bargain_kind (LanternAsh d) = KindLanternAsh"

fun validate_bargain :: "core_bargain_definition \<Rightarrow> core_bargain_error + unit" where
  "validate_bargain (CinderHunger d) =
     (if \<not> (BARGAIN_BASIS_POINTS_PER_ONE \<le> outgoing_direct_damage_multiplier_basis_points d
            \<and> outgoing_direct_damage_multiplier_basis_points d \<le> MAXIMUM_OUTGOING_DAMAGE_BASIS_POINTS)
         \<or> \<not> (MINIMUM_MAXIMUM_HEALTH_BASIS_POINTS \<le> maximum_health_multiplier_basis_points d
            \<and> maximum_health_multiplier_basis_points d \<le> BARGAIN_BASIS_POINTS_PER_ONE)
      then Inl InvalidCinderHunger else Inr ())"
| "validate_bargain (BellDebt d) =
     (if accepted_primary_emissions_per_repeat d = 0 \<or> repeat_delay_ticks d = 0
         \<or> \<not> (1 \<le> repeat_damage_multiplier_basis_points d
            \<and> repeat_damage_multiplier_basis_points d < BARGAIN_BASIS_POINTS_PER_ONE)
         \<or> \<not> (1 \<le> primary_attack_rate_multiplier_basis_points d
            \<and> primary_attack_rate_multiplier_basis_points d \<le> BARGAIN_BASIS_POINTS_PER_ONE)
         \<or> \<not> counts_legal_misses d
         \<or> generated_repeats_advance_counter d
         \<or> \<not> snapshots_aim_and_resolved_behavior d
         \<or> \<not> uses_live_origin_at_repeat d
         \<or> repeat_is_recursive d
         \<or> repeat_spends_cooldown_or_resource d
         \<or> \<not> counter_persists_reconnect_and_room_change d
         \<or> \<not> counter_resets_on_acquisition_purge_death_retirement_or_safe_transfer d
         \<or> \<not> cancel_pending_repeat_when_dead_transferred_or_primary_illegal d
      then Inl InvalidBellDebt else Inr ())"
| "validate_bargain (LanternAsh d) =
     (if potion_healing_multiplier_basis_points d < BARGAIN_BASIS_POINTS_PER_ONE
         \<or> active_belt_slot_count d \<noteq> 1 \<or> active_belt_index d \<noteq> 0
         \<or> \<not> inactive_slot_remains_stored_visible_locked d
      then Inl InvalidLanternAsh else Inr ())"

record core_bargain_loadout =
  loadout_definitions :: "core_bargain_definition list"

definition check_bargain ::
  "core_bargain_definition \<Rightarrow> core_bargain_kind set \<Rightarrow> core_bargain_error + core_bargain_kind set" where
  "check_bargain d kinds =
     and_then (validate_bargain d) (\<lambda>_.
       if bargain_kind d \<in> kinds then Inl DuplicateBargain else Inr (insert (bargain_kind d) kinds))"

definition new_loadout :: "core_bargain_definition list \<Rightarrow> core_bargain_error + core_bargain_loadout" where
  "new_loadout definitions =
     (if length definitions > MAX_ACTIVE_BARGAINS then Inl TooManyActiveBargains
      else and_then (try_fold check_bargain definitions {}) (\<lambda>_. Inr \<lparr>loadout_definitions = definitions\<rparr>))"

record resolved_core_bargain_modifiers =
  ordinary_attack_rate_basis_points :: u32
  outgoing_direct_damage_basis_points :: u32
  maximum_health_basis_points :: u32
  potion_healing_basis_points :: u32
  active_belt_slots :: u8

definition base_modifiers :: resolved_core_bargain_modifiers where
  "base_modifiers =
     \<lparr>ordinary_attack_rate_basis_points = BARGAIN_BASIS_POINTS_PER_ONE,
      outgoing_direct_damage_basis_points = BARGAIN_BASIS_POINTS_PER_ONE,
      maximum_health_basis_points = BARGAIN_BASIS_POINTS_PER_ONE,
      potion_healing_basis_points = BARGAIN_BASIS_POINTS_PER_ONE,
      active_belt_slots = 2\<rparr>"

fun apply_bargain ::
  "core_bargain_definition \<Rightarrow> resolved_core_bargain_modifiers \<Rightarrow> resolved_core_bargain_modifiers" where
  "apply_bargain (CinderHunger d) r =
     r\<lparr>outgoing_direct_damage_basis_points := outgoing_direct_damage_multiplier_basis_points d,
       maximum_health_basis_points := maximum_health_multiplier_basis_points d\<rparr>"
| "apply_bargain (BellDebt d) r =
     r\<lparr>ordinary_attack_rate_basis_points := primary_attack_rate_multiplier_basis_points d\<rparr>"
| "apply_bargain (LanternAsh d) r =
     r\<lparr>potion_healing_basis_points := potion_healing_multiplier_basis_points d,
       active_belt_slots := active_belt_slot_count d\<rparr>"

definition resolve_core_bargain_modifiers :: "core_bargain_loadout \<Rightarrow> resolved_core_bargain_modifiers" where
  "resolve_core_bargain_modifiers loadout = fold apply_bargain (loadout_definitions loadout) base_modifiers"

section \<open>Fixed-point composition\<close>

text \<open>The shared rounding of the composition functions: half up, in units of \<open>divisor\<close>.\<close>

definition rounded_quotient :: "u64 \<Rightarrow> u64 \<Rightarrow> u32 \<Rightarrow> u32 \<Rightarrow> core_bargain_error + u32" where
  "rounded_quotient a b half divisor =
     and_then (ok_or (checked_mul a b) ArithmeticOverflow) (\<lambda>product.
     and_then (ok_or (checked_add product (ucast half)) ArithmeticOverflow) (\<lambda>raised.
       ok_or (try_from_word (raised div ucast divisor)) ArithmeticOverflow))"

definition compose_maximum_health_multiplier :: "u32 \<Rightarrow> u32 \<Rightarrow> core_bargain_error + u32" where
  "compose_maximum_health_multiplier oath bargain =
     (if oath = 0 \<or> bargain = 0 then Inl InvalidMaximumHealthMultiplier
      else and_then (rounded_quotient (ucast oath) (ucast bargain) (BARGAIN_BASIS_POINTS_PER_ONE div 2) BARGAIN_BASIS_POINTS_PER_ONE)
             (\<lambda>v. Inr (max v MINIMUM_MAXIMUM_HEALTH_BASIS_POINTS)))"

definition compose_outgoing_direct_damage_multiplier :: "u32 \<Rightarrow> u32 \<Rightarrow> core_bargain_error + u32" where
  "compose_outgoing_direct_damage_multiplier class_multiplier bargain =
     (if class_multiplier = 0 \<or> bargain = 0 then Inl InvalidOutgoingDirectDamageMultiplier
      else and_then (rounded_quotient (ucast class_multiplier) (ucast bargain) (BARGAIN_BASIS_POINTS_PER_ONE div 2)
                       BARGAIN_BASIS_POINTS_PER_ONE)
             (\<lambda>v. Inr (min v MAXIMUM_OUTGOING_DAMAGE_BASIS_POINTS)))"

definition resolve_primary_interval_micros :: "u32 \<Rightarrow> u32 \<Rightarrow> core_bargain_error + u32" where
  "resolve_primary_interval_micros base_interval_micros attack_rate =
     (if base_interval_micros = 0 \<or> attack_rate = 0 then Inl InvalidPrimaryInterval
      else rounded_quotient (ucast base_interval_micros) (ucast BARGAIN_BASIS_POINTS_PER_ONE) (attack_rate div 2) attack_rate)"

section \<open>Offers\<close>

definition MAX_BARGAIN_OFFER_CANDIDATES :: nat where
  "MAX_BARGAIN_OFFER_CANDIDATES = 3"

definition BARGAIN_CONTENT_ID_MAX_BYTES :: nat where
  "BARGAIN_CONTENT_ID_MAX_BYTES = 96"

definition OFFER_SCORE_DOMAIN :: bytes where
  "OFFER_SCORE_DOMAIN = as_bytes ''bargain-offer-v1'' @ [0]"

record scored_bargain_candidate =
  bargain_id :: string
  score :: bytes

datatype bargain_offer_error =
    ZeroSourceRewardEventId
  | ZeroCharacterId
  | InvalidContentVersion
  | InvalidCandidateId
  | DuplicateCandidateId
  | DuplicateActiveBargain
  | InvalidLifeState

definition validate_field :: "string \<Rightarrow> bargain_offer_error \<Rightarrow> bargain_offer_error + unit" where
  "validate_field val e =
     (if val = [] \<or> length val > BARGAIN_CONTENT_ID_MAX_BYTES then Inl e else Inr ())"

definition offer_score_material ::
  "bytes \<Rightarrow> bytes \<Rightarrow> string \<Rightarrow> string \<Rightarrow> bargain_offer_error + bytes" where
  "offer_score_material source_reward_event_id character_id content_version candidate_id =
     and_then (ok_or (try_from_usize (length content_version)) InvalidContentVersion) (\<lambda>version_length :: u32.
     and_then (ok_or (try_from_usize (length candidate_id)) InvalidCandidateId) (\<lambda>candidate_length :: u32.
       Inr (OFFER_SCORE_DOMAIN @ source_reward_event_id @ character_id
            @ to_le_bytes version_length @ as_bytes content_version
            @ to_le_bytes candidate_length @ as_bytes candidate_id)))"

definition bargain_offer_score ::
  "(bytes \<Rightarrow> bytes) \<Rightarrow> bytes \<Rightarrow> bytes \<Rightarrow> string \<Rightarrow> string \<Rightarrow> bargain_offer_error + bytes" where
  "bargain_offer_score hash source_reward_event_id character_id content_version candidate_id =
     and_then (offer_score_material source_reward_event_id character_id content_version candidate_id)
       (\<lambda>material. Inr (hash material))"

definition score_candidate ::
  "(string \<Rightarrow> bargain_offer_error + bytes) \<Rightarrow> string \<Rightarrow> string set \<times> scored_bargain_candidate list
     \<Rightarrow> bargain_offer_error + string set \<times> scored_bargain_candidate list" where
  "score_candidate score_of candidate_id state =
     (case state of (seen, candidates) \<Rightarrow>
      and_then (validate_field candidate_id InvalidCandidateId) (\<lambda>_.
      if candidate_id \<in> seen then Inl DuplicateCandidateId
      else and_then (score_of candidate_id) (\<lambda>s.
             Inr (insert candidate_id seen, candidates @ [\<lparr>bargain_id = candidate_id, score = s\<rparr>]))))"

definition candidate_key :: "scored_bargain_candidate \<Rightarrow> bytes \<times> bytes" where
  "candidate_key c = (score c, as_bytes (bargain_id c))"

definition plan_bargain_offer ::
  "(bytes \<Rightarrow> bytes) \<Rightarrow> bytes \<Rightarrow> bytes \<Rightarrow> string \<Rightarrow> string list
     \<Rightarrow> bargain_offer_error + scored_bargain_candidate list" where
  "plan_bargain_offer hash source_reward_event_id character_id content_version candidate_ids =
     (if source_reward_event_id = replicate 16 0 then Inl ZeroSourceRewardEventId
      else if character_id = replicate 16 0 then Inl ZeroCharacterId
      else and_then (validate_field content_version InvalidContentVersion) (\<lambda>_.
           and_then (try_fold (score_candidate (bargain_offer_score hash source_reward_event_id character_id
                       content_version)) candidate_ids ({}, [])) (\<lambda>(_, candidates).
             Inr (take MAX_BARGAIN_OFFER_CANDIDATES (sort_key candidate_key candidates)))))"

definition check_active_bargain ::
  "string \<Rightarrow> string set \<Rightarrow> bargain_offer_error + string set" where
  "check_active_bargain b seen =
     and_then (validate_field b InvalidCandidateId) (\<lambda>_.
       if b \<in> seen then Inl DuplicateActiveBargain else Inr (insert b seen))"

definition validate_bargain_life_state :: "u8 \<Rightarrow> string list \<Rightarrow> bargain_offer_error + unit" where
  "validate_bargain_life_state earned_bargain_slots active_bargain_ids =
     (if unat earned_bargain_slots > MAX_ACTIVE_BARGAINS \<or> length active_bargain_ids > unat earned_bargain_slots
      then Inl InvalidLifeState
      else and_then (try_fold check_active_bargain active_bargain_ids {}) (\<lambda>_. Inr ()))"

section \<open>Offer properties\<close>

lemma offer_score_eq:
  assumes "length content < 2 ^ 32" "length candidate < 2 ^ 32"
  shows "bargain_offer_score hash ev ch content candidate = Inr (hash (OFFER_SCORE_DOMAIN @ ev @ ch
      @ framed (as_bytes content) @ framed (as_bytes candidate)))"
  using assms by (simp add: bargain_offer_score_def offer_score_material_def try_from_usize_def framed_def)

definition offer_candidate :: "(bytes \<Rightarrow> bytes) \<Rightarrow> bytes \<Rightarrow> bytes \<Rightarrow> string \<Rightarrow> string \<Rightarrow> scored_bargain_candidate" where
  "offer_candidate hash ev ch content candidate = \<lparr>bargain_id = candidate,
     score = hash (OFFER_SCORE_DOMAIN @ ev @ ch @ framed (as_bytes content) @ framed (as_bytes candidate))\<rparr>"

lemma validate_field_Inr:
  "validate_field v e = Inr u \<longleftrightarrow> v \<noteq> [] \<and> length v \<le> 96"
  by (auto simp: validate_field_def BARGAIN_CONTENT_ID_MAX_BYTES_def)

lemma score_candidate_Inr:
  assumes "length content \<le> 96"
  shows "score_candidate (bargain_offer_score hash ev ch content) c (seen, cs) = Inr state
    \<longleftrightarrow> c \<noteq> [] \<and> length c \<le> 96 \<and> c \<notin> seen \<and> state = (insert c seen, cs @ [offer_candidate hash ev ch content c])"
proof -
  have "bargain_offer_score hash ev ch content c = Inr (score (offer_candidate hash ev ch content c))" if "length c \<le> 96"
    using assms that by (simp add: offer_score_eq offer_candidate_def)
  then show ?thesis
    by (auto simp: score_candidate_def validate_field_Inr offer_candidate_def)
qed

lemma score_candidates_Inr:
  assumes "length content \<le> 96"
  shows "try_fold (score_candidate (bargain_offer_score hash ev ch content)) ids (seen, cs) = Inr state
    \<longleftrightarrow> list_all (\<lambda>c. c \<noteq> [] \<and> length c \<le> 96 \<and> c \<notin> seen) ids \<and> distinct ids
      \<and> state = (seen \<union> set ids, cs @ map (offer_candidate hash ev ch content) ids)"
proof (induction ids arbitrary: seen cs)
  case (Cons c ids)
  show ?case
    by (auto simp: score_candidate_Inr [OF assms] Cons.IH list_all_iff)
qed auto

lemma plan_bargain_offer_Inr:
  "plan_bargain_offer hash ev ch content ids = Inr offer \<longleftrightarrow>
     ev \<noteq> replicate 16 0 \<and> ch \<noteq> replicate 16 0 \<and> content \<noteq> [] \<and> length content \<le> 96
     \<and> (\<forall>c \<in> set ids. c \<noteq> [] \<and> length c \<le> 96) \<and> distinct ids
     \<and> offer = take 3 (sort_key candidate_key (map (offer_candidate hash ev ch content) ids))"
  by (auto simp: plan_bargain_offer_def validate_field_Inr score_candidates_Inr list_all_iff
      MAX_BARGAIN_OFFER_CANDIDATES_def)

lemma candidate_key_inject: "candidate_key a = candidate_key b \<longleftrightarrow> a = (b :: scored_bargain_candidate)"
  by (cases a; cases b) (auto simp: candidate_key_def)

lemma sort_key_mset_cong:
  assumes "mset xs = mset ys" "inj f"
  shows "sort_key f xs = sort_key f ys"
proof (rule properties_for_sort_key)
  show "mset (sort_key f ys) = mset xs" by (simp add: assms(1))
next
  fix k
  have "f y = f k \<longleftrightarrow> y = k" for y
    using assms(2) by (simp add: inj_eq)
  then have "filter (\<lambda>y. f k = f y) zs = replicate (count (mset zs) k) k" for zs
    by (induction zs) (auto simp: eq_commute)
  then show "filter (\<lambda>y. f k = f y) (sort_key f ys) = filter (\<lambda>y. f k = f y) xs"
    using assms(1) by simp
qed simp

text \<open>
  C38. An offer depends only on the set of legal candidates, not on their order: any reordering of the
  candidate list gives the same offer. The offer has the three best candidates (all of them when
  there are fewer), each from the list, in ascending order of score and identifier, and no
  candidate left out ranks before an offered one.
\<close>

theorem bargain_offer_canonical:
  assumes "plan_bargain_offer hash event_id character_id content ids = Inr offer" and "mset ids' = mset ids"
  shows "plan_bargain_offer hash event_id character_id content ids' = Inr offer
    \<and> length offer = min 3 (length ids)
    \<and> sorted_wrt (\<lambda>a b. candidate_key a < candidate_key b) offer
    \<and> (\<forall>c \<in> set offer. bargain_id c \<in> set ids \<and> bargain_offer_score hash event_id character_id content (bargain_id c) = Inr (score c))
    \<and> (\<forall>c \<in> set ids. \<forall>s. bargain_offer_score hash event_id character_id content c = Inr s
         \<longrightarrow> \<lparr>bargain_id = c, score = s\<rparr> \<in> set offer
           \<or> (\<forall>q \<in> set offer. candidate_key q < candidate_key \<lparr>bargain_id = c, score = s\<rparr>))"
proof -
  let ?candidate = "offer_candidate hash event_id character_id content"
  let ?ranked = "sort_key candidate_key (map ?candidate ids)"
  from assms(1) have ids: "\<forall>c \<in> set ids. c \<noteq> [] \<and> length c \<le> 96" "distinct ids" "length content \<le> 96"
    and offer: "offer = take 3 ?ranked"
    unfolding plan_bargain_offer_Inr by blast+
  have inj: "inj candidate_key"
    by (simp add: inj_def candidate_key_inject)
  have same: "set ids' = set ids" "distinct ids' \<longleftrightarrow> distinct ids"
    using assms(2) by (metis set_mset_mset, metis mset_eq_imp_distinct_iff)
  have "sort_key candidate_key (map ?candidate ids') = ?ranked"
    using assms(2) inj by (intro sort_key_mset_cong) simp_all
  with assms(1) same have reordered: "plan_bargain_offer hash event_id character_id content ids' = Inr offer"
    unfolding plan_bargain_offer_Inr by simp
  have "distinct (map ?candidate ids)"
    using ids(2) by (simp add: distinct_map inj_on_def offer_candidate_def)
  then have "sorted_wrt (<) (map candidate_key ?ranked)"
    using inj by (simp add: strict_sorted_iff distinct_map inj_on_subset [OF inj])
  then have ranked: "sorted_wrt (\<lambda>a b. candidate_key a < candidate_key b) (take 3 ?ranked @ drop 3 ?ranked)"
    by (simp add: sorted_wrt_map)
  then have ascending: "sorted_wrt (\<lambda>a b. candidate_key a < candidate_key b) offer"
    and before: "q \<in> set offer \<Longrightarrow> d \<in> set (drop 3 ?ranked) \<Longrightarrow> candidate_key q < candidate_key d" for q d
    unfolding offer sorted_wrt_append by blast+
  have score: "bargain_offer_score hash event_id character_id content c = Inr (score (?candidate c))" if "c \<in> set ids" for c
  proof -
    from ids(1) that have "length c \<le> 96" by blast
    with ids(3) show ?thesis
      by (simp add: offer_score_eq offer_candidate_def)
  qed
  have listed: "\<exists>b \<in> set ids. c = ?candidate b" if "c \<in> set offer" for c
    using that unfolding offer by (auto dest!: in_set_takeD)
  have "\<lparr>bargain_id = c, score = s\<rparr> \<in> set offer
      \<or> (\<forall>q \<in> set offer. candidate_key q < candidate_key \<lparr>bargain_id = c, score = s\<rparr>)"
    if "c \<in> set ids" "bargain_offer_score hash event_id character_id content c = Inr s" for c s
  proof -
    from score [OF that(1)] that(2) have c: "\<lparr>bargain_id = c, score = s\<rparr> = ?candidate c"
      by (simp add: offer_candidate_def)
    have "set ?ranked = set (take 3 ?ranked) \<union> set (drop 3 ?ranked)"
      by (metis append_take_drop_id set_append)
    moreover have "?candidate c \<in> set ?ranked"
      using that(1) by simp
    ultimately have "\<lparr>bargain_id = c, score = s\<rparr> \<in> set offer \<union> set (drop 3 ?ranked)"
      unfolding c offer by blast
    then show ?thesis
      using before by blast
  qed
  with reordered ascending listed score show ?thesis
    by (fastforce simp: offer offer_candidate_def)
qed

section \<open>Modifier properties\<close>

lemma check_bargains_Inr:
  "try_fold check_bargain ds kinds = Inr kinds' \<Longrightarrow> (\<forall>d \<in> set ds. validate_bargain d = Inr () \<and> bargain_kind d \<notin> kinds)
     \<and> distinct (map bargain_kind ds)"
proof (induction ds arbitrary: kinds)
  case (Cons d ds)
  then obtain k where "check_bargain d kinds = Inr k" and rest: "try_fold check_bargain ds k = Inr kinds'"
    by auto
  with Cons.IH [OF rest] show ?case
    by (auto simp: check_bargain_def split: if_splits)
qed simp

lemma apply_bargain_commute:
  "bargain_kind a \<noteq> bargain_kind b \<Longrightarrow> apply_bargain a (apply_bargain b r) = apply_bargain b (apply_bargain a r)"
  by (cases a; cases b) simp_all

lemma fold_apply_bargain_perm:
  assumes "mset ds = mset es" "distinct (map bargain_kind ds)"
  shows "fold apply_bargain ds r = fold apply_bargain es r"
proof -
  have "fold apply_bargain ds = fold apply_bargain es"
  proof (rule fold_multiset_equiv [OF _ assms(1)])
    fix a b assume "a \<in> set ds" "b \<in> set ds"
    with assms(2) have "a = b \<or> bargain_kind a \<noteq> bargain_kind b"
      by (auto simp: distinct_map inj_on_def)
    then show "apply_bargain a \<circ> apply_bargain b = apply_bargain b \<circ> apply_bargain a"
      by (auto simp: fun_eq_iff apply_bargain_commute)
  qed
  then show ?thesis by simp
qed

definition modifiers_ok :: "resolved_core_bargain_modifiers \<Rightarrow> bool" where
  "modifiers_ok r \<longleftrightarrow>
     1 \<le> unat (ordinary_attack_rate_basis_points r) \<and> unat (ordinary_attack_rate_basis_points r) \<le> 10000
     \<and> 10000 \<le> unat (outgoing_direct_damage_basis_points r) \<and> unat (outgoing_direct_damage_basis_points r) \<le> 15000
     \<and> 7000 \<le> unat (maximum_health_basis_points r) \<and> unat (maximum_health_basis_points r) \<le> 10000
     \<and> 10000 \<le> unat (potion_healing_basis_points r) \<and> active_belt_slots r \<in> {1, 2}"

lemma apply_bargain_ok:
  assumes "validate_bargain d = Inr ()" "modifiers_ok r"
  shows "modifiers_ok (apply_bargain d r)"
  using assms
  by (cases d) (auto simp: modifiers_ok_def word_le_nat_alt word_less_nat_alt BARGAIN_BASIS_POINTS_PER_ONE_def
      MAXIMUM_OUTGOING_DAMAGE_BASIS_POINTS_def MINIMUM_MAXIMUM_HEALTH_BASIS_POINTS_def split: if_splits)

lemma fold_apply_bargain_ok:
  "\<forall>d \<in> set ds. validate_bargain d = Inr () \<Longrightarrow> modifiers_ok r \<Longrightarrow> modifiers_ok (fold apply_bargain ds r)"
  by (induction ds arbitrary: r) (auto intro: apply_bargain_ok)

lemma rounded_quotient_eq:
  assumes "c \<noteq> 0"
  shows "rounded_quotient (ucast (a :: u32)) (ucast (b :: u32)) half c = Inr v
    \<longleftrightarrow> unat v = (unat a * unat b + unat half) div unat c"
proof -
  define n where "n = unat a * unat b"
  have "n \<le> (2 ^ 32 - 1) * (2 ^ 32 - 1)"
    unfolding n_def using unat_bound [of a] unat_bound [of b] by (intro mult_mono) auto
  then have bound: "n + unat half < 2 ^ 64"
    using unat_bound [of half] by simp
  then have prod: "checked_mul (ucast a :: u64) (ucast b) = Some (of_nat n)"
    by (simp add: checked_mul_def unat_ucast_widen Let_def flip: n_def)
  have raised: "checked_add (of_nat n) (ucast half :: u64) = Some (of_nat (n + unat half))"
    using bound by (simp add: checked_add_def unat_ucast_widen Let_def)
  have "unat (of_nat (n + unat half) div ucast c :: u64) = (n + unat half) div unat c"
    using bound by (simp add: unat_div unat_ucast_widen del: of_nat_add)
  then show ?thesis
    by (auto simp: rounded_quotient_def prod raised try_from_word_eq_Some simp del: of_nat_add simp flip: n_def)
qed

lemma compose_health_eq:
  assumes "oath \<noteq> 0" "bargain \<noteq> 0"
  shows "compose_maximum_health_multiplier oath bargain = Inr v
    \<longleftrightarrow> (unat oath * unat bargain + 5000) div 10000 < 2 ^ 32
      \<and> unat v = max ((unat oath * unat bargain + 5000) div 10000) 7000"
proof -
  have ten: "BARGAIN_BASIS_POINTS_PER_ONE \<noteq> 0" "unat BARGAIN_BASIS_POINTS_PER_ONE = 10000" "unat (BARGAIN_BASIS_POINTS_PER_ONE div 2) = 5000"
    by (simp_all add: BARGAIN_BASIS_POINTS_PER_ONE_def)
  have max_unat: "unat (max a b) = max (unat a) (unat (b :: u32))" for a b
    by (simp add: max_def word_le_nat_alt)
  have "(\<exists>w :: u32. unat w = n \<and> v = max w MINIMUM_MAXIMUM_HEALTH_BASIS_POINTS)
      \<longleftrightarrow> n < 2 ^ 32 \<and> unat v = max n 7000" for n
  proof
    assume "n < 2 ^ 32 \<and> unat v = max n 7000"
    then show "\<exists>w :: u32. unat w = n \<and> v = max w MINIMUM_MAXIMUM_HEALTH_BASIS_POINTS"
      by (intro exI [of _ "of_nat n"]) (simp add: word_unat_eq_iff max_unat MINIMUM_MAXIMUM_HEALTH_BASIS_POINTS_def)
  next
    assume "\<exists>w :: u32. unat w = n \<and> v = max w MINIMUM_MAXIMUM_HEALTH_BASIS_POINTS"
    then obtain w :: u32 where "unat w = n" "v = max w MINIMUM_MAXIMUM_HEALTH_BASIS_POINTS" by blast
    then show "n < 2 ^ 32 \<and> unat v = max n 7000"
      using unat_bound [of w] by (simp add: max_unat MINIMUM_MAXIMUM_HEALTH_BASIS_POINTS_def)
  qed
  then show ?thesis
    using assms by (simp add: compose_maximum_health_multiplier_def rounded_quotient_eq [OF ten(1)] ten eq_commute [of v])
qed

text \<open>
  The modifiers of a loadout do not depend on the order in which its bargains are listed, and they
  stay within the authored caps: attack rate at most 100 percent and never zero, direct damage
  between 100 and 150 percent, maximum health between 70 and 100 percent, potion healing at least
  100 percent, one or two belt slots. Composing the health multiplier with an oath multiplier
  rounds the exact product half up and never goes below 70 percent.
\<close>

lemma loadout_modifiers_canonical:
  assumes "new_loadout definitions = Inr loadout" and "mset definitions' = mset definitions"
  shows "modifiers_ok (resolve_core_bargain_modifiers loadout)
    \<and> (\<forall>loadout'. new_loadout definitions' = Inr loadout'
         \<longrightarrow> resolve_core_bargain_modifiers loadout' = resolve_core_bargain_modifiers loadout)
    \<and> (\<forall>oath v. oath \<noteq> 0 \<and> compose_maximum_health_multiplier oath
           (maximum_health_basis_points (resolve_core_bargain_modifiers loadout)) = Inr v
         \<longrightarrow> unat v = max 7000 ((unat oath * unat (maximum_health_basis_points
               (resolve_core_bargain_modifiers loadout)) + 5000) div 10000))"
proof -
  from assms(1) obtain kinds where loadout: "loadout_definitions loadout = definitions"
    and check: "try_fold check_bargain definitions {} = Inr kinds"
    by (auto simp: new_loadout_def split: if_splits)
  note valid = check_bargains_Inr [OF check]
  have "modifiers_ok base_modifiers"
    by (simp add: modifiers_ok_def base_modifiers_def BARGAIN_BASIS_POINTS_PER_ONE_def)
  then have ok: "modifiers_ok (resolve_core_bargain_modifiers loadout)"
    using valid by (simp add: resolve_core_bargain_modifiers_def loadout fold_apply_bargain_ok)
  then have "maximum_health_basis_points (resolve_core_bargain_modifiers loadout) \<noteq> 0"
    by (auto simp: modifiers_ok_def)
  moreover have "resolve_core_bargain_modifiers loadout' = resolve_core_bargain_modifiers loadout"
    if "new_loadout definitions' = Inr loadout'" for loadout'
  proof -
    from that have "loadout_definitions loadout' = definitions'"
      by (auto simp: new_loadout_def split: if_splits)
    then show ?thesis
      using fold_apply_bargain_perm [of definitions definitions'] valid assms(2)
      by (simp add: resolve_core_bargain_modifiers_def loadout)
  qed
  ultimately show ?thesis
    using ok compose_health_eq unfolding max.commute [of "7000 :: nat"] by blast
qed

section \<open>Concrete offers and loadouts\<close>

definition sample_hash :: "bytes \<Rightarrow> bytes" where
  "sample_hash m = rev m"

definition sample_loadout :: "core_bargain_definition list" where
  "sample_loadout =
     [CinderHunger \<lparr>outgoing_direct_damage_multiplier_basis_points = 12000,
        maximum_health_multiplier_basis_points = 8500\<rparr>,
      LanternAsh \<lparr>potion_healing_multiplier_basis_points = 15000, active_belt_slot_count = 1,
        active_belt_index = 0, inactive_slot_remains_stored_visible_locked = True\<rparr>]"

lemma sample_loadout_valid: "new_loadout sample_loadout = Inr \<lparr>loadout_definitions = sample_loadout\<rparr>"
  by (simp add: new_loadout_def sample_loadout_def check_bargain_def MAX_ACTIVE_BARGAINS_def
      BARGAIN_BASIS_POINTS_PER_ONE_def MAXIMUM_OUTGOING_DAMAGE_BASIS_POINTS_def MINIMUM_MAXIMUM_HEALTH_BASIS_POINTS_def)

theorem bargain_offer_canonical_witness:
  "\<exists>offer. plan_bargain_offer sample_hash (replicate 16 1) (replicate 16 2) ''v1''
      [''veil.a'', ''veil.b'', ''veil.c'', ''veil.d''] = Inr offer
    \<and> plan_bargain_offer sample_hash (replicate 16 1) (replicate 16 2) ''v1''
      [''veil.c'', ''veil.d'', ''veil.b'', ''veil.a''] = Inr offer \<and> length offer = 3"
proof -
  have "\<exists>offer. plan_bargain_offer sample_hash (replicate 16 1) (replicate 16 2) ''v1''
      [''veil.a'', ''veil.b'', ''veil.c'', ''veil.d''] = Inr offer"
    unfolding plan_bargain_offer_Inr by simp
  then obtain offer where offer: "plan_bargain_offer sample_hash (replicate 16 1) (replicate 16 2) ''v1''
      [''veil.a'', ''veil.b'', ''veil.c'', ''veil.d''] = Inr offer" ..
  have "mset [''veil.c'', ''veil.d'', ''veil.b'', ''veil.a''] = mset [''veil.a'', ''veil.b'', ''veil.c'', ''veil.d'']"
    by simp
  from bargain_offer_canonical [OF offer this] offer show ?thesis
    by auto
qed

end
