(* ===== verification/Reliable_Inbox.thy ===== *)
theory Reliable_Inbox
  imports Ordered_Map
begin

text \<open>
  The reliable event inbox (\<open>protocol/src/reliable_inbox.rs\<close>): frames arrive on independent streams in
  any order, and the inbox publishes a contiguous prefix of their sequence numbers, buffering a
  bounded gap. The event a frame carries is a type parameter and its validation a parameter
  \<open>event_validate\<close>: the inbox only passes events on and compares them.
\<close>

section \<open>Data\<close>

definition RELIABLE_EVENT_REORDER_CAPACITY :: nat where
  "RELIABLE_EVENT_REORDER_CAPACITY = 64"

definition RELIABLE_EVENT_REORDER_WINDOW :: u32 where
  "RELIABLE_EVENT_REORDER_WINDOW = 64"

record 'e reliable_event_frame =
  frame_sequence :: u32
  server_tick :: u64
  event :: 'e

datatype 'm frame_validation_error = ZeroSequence | EventInvalid 'm

definition validate_frame ::
  "('e \<Rightarrow> 'm + unit) \<Rightarrow> 'e reliable_event_frame \<Rightarrow> 'm frame_validation_error + unit" where
  "validate_frame event_validate frame =
     (if frame_sequence frame = 0 then Inl ZeroSequence
      else case event_validate (event frame) of Inl e \<Rightarrow> Inl (EventInvalid e) | Inr u \<Rightarrow> Inr u)"

record 'e reliable_event_inbox =
  last_delivered_sequence :: u32
  pending :: "(u32, 'e reliable_event_frame) btree_map"

datatype reliable_event_inbox_error =
    InvalidFrame
  | StaleSequence u32 u32
  | ConflictingSequence u32
  | GapTooLarge u32 u32
  | Saturated
  | SequenceExhausted

definition resume_after :: "u32 \<Rightarrow> 'e reliable_event_inbox" where
  "resume_after sequence = \<lparr>last_delivered_sequence = sequence, pending = []\<rparr>"

definition new_inbox :: "'e reliable_event_inbox" where
  "new_inbox = resume_after 0"

definition next_expected_sequence :: "'e reliable_event_inbox \<Rightarrow> u32 option" where
  "next_expected_sequence inbox = checked_add (last_delivered_sequence inbox) 1"

definition pending_count :: "'e reliable_event_inbox \<Rightarrow> nat" where
  "pending_count inbox = length (pending inbox)"

definition has_gap :: "'e reliable_event_inbox \<Rightarrow> bool" where
  "has_gap inbox \<longleftrightarrow> pending inbox \<noteq> []"

section \<open>Delivery\<close>

definition deliver ::
  "'e reliable_event_frame \<Rightarrow> 'e reliable_event_inbox \<times> 'e reliable_event_frame list
     \<Rightarrow> 'e reliable_event_inbox \<times> 'e reliable_event_frame list" where
  "deliver frame work =
     ((fst work)\<lparr>last_delivered_sequence := frame_sequence frame\<rparr>, snd work @ [frame])"

function drain ::
  "'e reliable_event_inbox \<times> 'e reliable_event_frame list
     \<Rightarrow> 'e reliable_event_inbox \<times> 'e reliable_event_frame list" where
  "drain (inbox, ready) =
     (case next_expected_sequence inbox of
        None \<Rightarrow> (inbox, ready)
      | Some expected \<Rightarrow>
          (case btree_get (pending inbox) expected of
             None \<Rightarrow> (inbox, ready)
           | Some frame \<Rightarrow>
               drain (deliver frame (inbox\<lparr>pending := btree_remove expected (pending inbox)\<rparr>, ready))))"
  by pat_completeness auto

termination drain
  by (relation "measure (\<lambda>(inbox, ready). length (pending inbox))")
    (auto simp: deliver_def intro: btree_remove_shrinks)

declare drain.simps [simp del]

definition push ::
  "('e \<Rightarrow> 'm + unit) \<Rightarrow> 'e reliable_event_frame \<Rightarrow> 'e reliable_event_inbox
     \<Rightarrow> (reliable_event_inbox_error + 'e reliable_event_frame list) \<times> 'e reliable_event_inbox" where
  "push event_validate frame inbox =
     (case validate_frame event_validate frame of
        Inl _ \<Rightarrow> (Inl InvalidFrame, inbox)
      | Inr _ \<Rightarrow>
     case checked_add (last_delivered_sequence inbox) 1 of
        None \<Rightarrow> (Inl SequenceExhausted, inbox)
      | Some expected \<Rightarrow>
     if frame_sequence frame < expected then (Inl (StaleSequence expected (frame_sequence frame)), inbox)
     else if frame_sequence frame > expected
     then if frame_sequence frame - expected > RELIABLE_EVENT_REORDER_WINDOW
          then (Inl (GapTooLarge expected (frame_sequence frame)), inbox)
          else (case btree_get (pending inbox) (frame_sequence frame) of
                  Some existing \<Rightarrow>
                    if existing = frame then (Inr [], inbox)
                    else (Inl (ConflictingSequence (frame_sequence frame)), inbox)
                | None \<Rightarrow>
                    if length (pending inbox) = RELIABLE_EVENT_REORDER_CAPACITY then (Inl Saturated, inbox)
                    else (Inr [], inbox\<lparr>pending := btree_insert (frame_sequence frame) frame (pending inbox)\<rparr>))
     else (case drain (deliver frame (inbox, [])) of (inbox', ready) \<Rightarrow> (Inr ready, inbox')))"

section \<open>The invariant of the inbox\<close>

abbreviation seq :: "'e reliable_event_frame \<Rightarrow> nat" where
  "seq frame \<equiv> unat (frame_sequence frame)"

abbreviation delivered_up_to :: "'e reliable_event_inbox \<Rightarrow> nat" where
  "delivered_up_to inbox \<equiv> unat (last_delivered_sequence inbox)"

definition pending_frames :: "'e reliable_event_inbox \<Rightarrow> 'e reliable_event_frame set" where
  "pending_frames inbox = ran (btree_get (pending inbox))"

text \<open>\<open>low\<close> and \<open>high\<close> bound the buffered sequence numbers.\<close>

definition buffered :: "nat \<Rightarrow> nat \<Rightarrow> 'e reliable_event_inbox \<Rightarrow> bool" where
  "buffered low high inbox \<longleftrightarrow> btree_ok (pending inbox)
     \<and> (\<forall>k frame. btree_get (pending inbox) k = Some frame \<longrightarrow> frame_sequence frame = k \<and> low < unat k \<and> unat k \<le> high)"

definition inbox_inv :: "'e reliable_event_inbox \<Rightarrow> bool" where
  "inbox_inv inbox \<longleftrightarrow> buffered (Suc (delivered_up_to inbox)) (delivered_up_to inbox + 65) inbox"

lemma bufferedD:
  "buffered low high inbox \<Longrightarrow> frame \<in> pending_frames inbox
     \<Longrightarrow> low < seq frame \<and> seq frame \<le> high \<and> btree_get (pending inbox) (frame_sequence frame) = Some frame"
  by (auto simp: buffered_def pending_frames_def ran_def)

lemma buffered_same_sequence:
  "buffered low high inbox \<Longrightarrow> f \<in> pending_frames inbox \<Longrightarrow> g \<in> pending_frames inbox \<Longrightarrow> seq f = seq g \<Longrightarrow> f = g"
  by (metis bufferedD option.inject word_unat_eq_iff)

lemma inbox_inv_resume: "inbox_inv (resume_after s)"
  by (simp add: inbox_inv_def buffered_def resume_after_def btree_ok_def btree_get_def)

lemma next_expected_Some:
  "next_expected_sequence inbox = Some n \<longleftrightarrow> unat n = Suc (delivered_up_to inbox)"
  by (simp add: next_expected_sequence_def checked_add_eq_Some)

text \<open>The room of the buffer: its sequence numbers are distinct and lie in a window of 64.\<close>

lemma buffered_capacity:
  assumes "buffered (Suc n) (n + 65) inbox"
  shows "length (pending inbox) = card (seq ` pending_frames inbox)" and "seq ` pending_frames inbox \<subseteq> {n + 2..n + 65}"
proof -
  from assms have ok: "btree_ok (pending inbox)"
    by (simp add: buffered_def)
  have "dom (btree_get (pending inbox)) = frame_sequence ` pending_frames inbox"
    using assms by (force simp: buffered_def pending_frames_def ran_def dom_def)
  then have "length (pending inbox) = card (frame_sequence ` pending_frames inbox)"
    using btree_values_card [OF ok] by (simp add: btree_values_def)
  also have "\<dots> = card (seq ` pending_frames inbox)"
    by (subst image_image [of unat frame_sequence, symmetric]) (rule card_image [symmetric], simp add: inj_on_def word_unat_eq_iff)
  finally show "length (pending inbox) = card (seq ` pending_frames inbox)" .
  show "seq ` pending_frames inbox \<subseteq> {n + 2..n + 65}"
    using bufferedD [OF assms] by fastforce
qed

text \<open>
  Draining publishes the buffered frames that continue the delivered prefix, in order, and leaves
  no frame at the next expected number.
\<close>

lemma drain_contiguous:
  assumes "drain (inbox, ready) = (inbox', ready')" and "buffered (delivered_up_to inbox) high inbox"
    and "high \<le> delivered_up_to inbox + 65"
  shows "\<exists>new. ready' = ready @ new
    \<and> map seq new = [Suc (delivered_up_to inbox)..<Suc (delivered_up_to inbox')]
    \<and> delivered_up_to inbox \<le> delivered_up_to inbox' \<and> inbox_inv inbox'
    \<and> pending_frames inbox = set new \<union> pending_frames inbox'"
  using assms
proof (induction "(inbox, ready)" arbitrary: inbox ready rule: drain.induct)
  case (1 inbox ready)
  let ?n = "delivered_up_to inbox"
  show ?case
  proof (cases "\<exists>n frame. next_expected_sequence inbox = Some n \<and> btree_get (pending inbox) n = Some frame")
    case False
    then have "drain (inbox, ready) = (inbox, ready)"
      by (auto simp: drain.simps [of inbox ready] split: option.splits)
    moreover have "Suc ?n < unat k" if "btree_get (pending inbox) k = Some frame" for k frame
      using False that 1(3) unfolding next_expected_Some buffered_def by (metis Suc_lessI)
    ultimately show ?thesis
      using 1(2-4) by (fastforce simp: inbox_inv_def buffered_def)
  next
    case True
    then obtain n frame where n: "next_expected_sequence inbox = Some n" "btree_get (pending inbox) n = Some frame"
      by blast
    let ?rest = "inbox\<lparr>pending := btree_remove n (pending inbox), last_delivered_sequence := frame_sequence frame\<rparr>"
    have frame: "frame_sequence frame = n" "unat n = Suc ?n" and ok: "btree_ok (pending inbox)"
      using 1(3) n by (auto simp: buffered_def next_expected_Some)
    have deliver: "deliver frame (inbox\<lparr>pending := btree_remove n (pending inbox)\<rparr>, ready) = (?rest, ready @ [frame])"
      by (simp add: deliver_def)
    have low: "?n < unat k" "unat k \<le> high" "frame_sequence f = k" if "btree_get (pending inbox) k = Some f" for k f
      using 1(3) that by (auto simp: buffered_def)
    have "Suc ?n < unat k" if "btree_get (pending inbox) k = Some f" "k \<noteq> n" for k f
      using low(1) [OF that(1)] that(2) frame(2) by (metis Suc_lessI word_unat_eq_iff)
    then have "buffered (delivered_up_to ?rest) high ?rest"
      using low ok frame by (auto simp: buffered_def btree_get_remove btree_remove_ok)
    moreover have "high \<le> delivered_up_to ?rest + 65"
      using 1(4) frame by simp
    moreover have "drain (?rest, ready @ [frame]) = (inbox', ready')"
      using 1(2) n deliver by (simp add: drain.simps [of inbox ready])
    ultimately obtain new where new: "ready' = (ready @ [frame]) @ new"
      "map seq new = [Suc (delivered_up_to ?rest)..<Suc (delivered_up_to inbox')]"
      "delivered_up_to ?rest \<le> delivered_up_to inbox'" "inbox_inv inbox'"
      "pending_frames ?rest = set new \<union> pending_frames inbox'"
      using 1(1) [OF n deliver] by blast
    have "pending_frames inbox = insert frame (pending_frames ?rest)"
      using btree_rm.ran_remove [OF ok n(2)] by (simp add: pending_frames_def)
    moreover have "map seq (frame # new) = [Suc ?n..<Suc (delivered_up_to inbox')]"
      using new(2,3) frame by (simp add: upt_conv_Cons)
    ultimately show ?thesis
      using new frame by (intro exI [of _ "frame # new"]) auto
  qed
qed

section \<open>One arrival\<close>

definition advances ::
  "'e reliable_event_inbox \<Rightarrow> 'e reliable_event_frame list \<Rightarrow> 'e reliable_event_inbox \<Rightarrow> bool" where
  "advances inbox new inbox' \<longleftrightarrow> map seq new = [Suc (delivered_up_to inbox)..<Suc (delivered_up_to inbox')]
     \<and> delivered_up_to inbox \<le> delivered_up_to inbox' \<and> inbox_inv inbox'"

lemma advances_deliver:
  assumes inv: "inbox_inv inbox" and f: "seq f = Suc (delivered_up_to inbox)"
    and d: "drain (deliver f (inbox, [])) = (inbox', new)"
  shows "advances inbox new inbox' \<and> set new \<union> pending_frames inbox' = insert f (pending_frames inbox)"
proof -
  let ?start = "inbox\<lparr>last_delivered_sequence := frame_sequence f\<rparr>"
  have "buffered (delivered_up_to ?start) (delivered_up_to inbox + 65) ?start"
    using inv f by (simp add: inbox_inv_def buffered_def)
  moreover have "drain (?start, [f]) = (inbox', new)"
    using d by (simp add: deliver_def)
  ultimately obtain more where more: "new = [f] @ more"
    "map seq more = [Suc (delivered_up_to ?start)..<Suc (delivered_up_to inbox')]"
    "delivered_up_to ?start \<le> delivered_up_to inbox'" "inbox_inv inbox'"
    "pending_frames ?start = set more \<union> pending_frames inbox'"
    using drain_contiguous [of ?start "[f]" inbox' new "delivered_up_to inbox + 65"] f by auto
  then have "map seq new = [Suc (delivered_up_to inbox)..<Suc (delivered_up_to inbox')]"
    using f by (simp add: upt_conv_Cons)
  moreover have "pending_frames ?start = pending_frames inbox"
    by (simp add: pending_frames_def)
  ultimately show ?thesis
    using more f by (auto simp: advances_def)
qed

lemma advances_buffer:
  assumes inv: "inbox_inv inbox" and f: "Suc (delivered_up_to inbox) < seq f" "seq f \<le> delivered_up_to inbox + 65"
    and new: "btree_get (pending inbox) (frame_sequence f) = None"
  shows "advances inbox [] (inbox\<lparr>pending := btree_insert (frame_sequence f) f (pending inbox)\<rparr>)"
    and "pending_frames (inbox\<lparr>pending := btree_insert (frame_sequence f) f (pending inbox)\<rparr>)
      = insert f (pending_frames inbox)"
proof -
  have ok: "btree_ok (pending inbox)"
    using inv by (simp add: inbox_inv_def buffered_def)
  show "advances inbox [] (inbox\<lparr>pending := btree_insert (frame_sequence f) f (pending inbox)\<rparr>)"
    using inv f by (auto simp: advances_def inbox_inv_def buffered_def btree_get_insert btree_ok_insert)
  show "pending_frames (inbox\<lparr>pending := btree_insert (frame_sequence f) f (pending inbox)\<rparr>)
      = insert f (pending_frames inbox)"
    using ok new by (simp add: pending_frames_def btree_get_insert)
qed

text \<open>A buffer that takes a new sequence number of the window is not full.\<close>

lemma buffer_has_room:
  assumes inv: "inbox_inv inbox" and f: "Suc (delivered_up_to inbox) < seq f" "seq f \<le> delivered_up_to inbox + 65"
    and new: "btree_get (pending inbox) (frame_sequence f) = None"
  shows "length (pending inbox) < 64"
proof -
  let ?n = "delivered_up_to inbox"
  note capacity = buffered_capacity [OF inv [unfolded inbox_inv_def]]
  have "seq f \<notin> seq ` pending_frames inbox"
  proof
    assume "seq f \<in> seq ` pending_frames inbox"
    then obtain g where g: "g \<in> pending_frames inbox" "seq f = seq g" ..
    then have "frame_sequence f = frame_sequence g"
      by (simp add: word_unat_eq_iff)
    with new bufferedD [OF inv [unfolded inbox_inv_def] g(1)] show False by simp
  qed
  moreover have "seq f \<in> {?n + 2..?n + 65}"
    using f by simp
  ultimately have "seq ` pending_frames inbox \<subset> {?n + 2..?n + 65}"
    using capacity(2) by blast
  then have "card (seq ` pending_frames inbox) < card {?n + 2..?n + 65}"
    by (intro psubset_card_mono) simp_all
  then show ?thesis
    using capacity(1) by simp
qed

lemma gap_exact:
  assumes "unat expected = Suc n" "expected < s"
  shows "s - expected > RELIABLE_EVENT_REORDER_WINDOW \<longleftrightarrow> n + 65 < unat (s :: u32)"
  using assms by (auto simp: RELIABLE_EVENT_REORDER_WINDOW_def word_less_nat_alt unat_sub word_le_nat_alt)

text \<open>
  Every arrival either is rejected, never for lack of room, and changes nothing, or is taken: then
  what is published continues the prefix and the frame is published or buffered.
\<close>

lemma push_cases:
  assumes inv: "inbox_inv inbox" and p: "push ev f inbox = (r, inbox')"
  shows "(\<exists>e. r = Inl e \<and> e \<noteq> Saturated \<and> inbox' = inbox)
    \<or> (\<exists>new. r = Inr new \<and> advances inbox new inbox' \<and> delivered_up_to inbox < seq f
         \<and> set new \<union> pending_frames inbox' = insert f (pending_frames inbox))"
proof (cases "checked_add (last_delivered_sequence inbox) 1")
  case None
  with p show ?thesis by (auto simp: push_def split: sum.splits)
next
  case (Some expected)
  then have expected: "unat expected = Suc (delivered_up_to inbox)"
    by (simp add: checked_add_eq_Some)
  consider (rejected) "\<exists>e. r = Inl e \<and> e \<noteq> Saturated" "inbox' = inbox"
    | (same) "r = Inr []" "inbox' = inbox" "expected < frame_sequence f" "btree_get (pending inbox) (frame_sequence f) = Some f"
    | (full) "r = Inl Saturated" "expected < frame_sequence f" "\<not> frame_sequence f - expected > RELIABLE_EVENT_REORDER_WINDOW"
        "btree_get (pending inbox) (frame_sequence f) = None" "length (pending inbox) = 64"
    | (buffer) "r = Inr []" "inbox' = inbox\<lparr>pending := btree_insert (frame_sequence f) f (pending inbox)\<rparr>"
        "expected < frame_sequence f" "\<not> frame_sequence f - expected > RELIABLE_EVENT_REORDER_WINDOW"
        "btree_get (pending inbox) (frame_sequence f) = None"
    | (publish) new where "r = Inr new" "frame_sequence f = expected" "drain (deliver f (inbox, [])) = (inbox', new)"
    using p Some by (auto simp: push_def RELIABLE_EVENT_REORDER_CAPACITY_def split: sum.splits if_splits option.splits prod.splits)
  then show ?thesis
  proof cases
    case same
    then have "f \<in> pending_frames inbox" "delivered_up_to inbox < seq f"
      using expected by (auto simp: pending_frames_def ranI word_less_nat_alt)
    with same inv show ?thesis by (auto simp: advances_def)
  next
    case full
    then have "Suc (delivered_up_to inbox) < seq f" "seq f \<le> delivered_up_to inbox + 65"
      using gap_exact [OF expected] expected by (auto simp: word_less_nat_alt)
    with buffer_has_room [OF inv _ _ full(4)] full(5) show ?thesis by simp
  next
    case buffer
    then have "Suc (delivered_up_to inbox) < seq f" "seq f \<le> delivered_up_to inbox + 65"
      using gap_exact [OF expected] expected by (auto simp: word_less_nat_alt)
    with advances_buffer [OF inv _ _ buffer(5)] buffer(1,2) show ?thesis by simp
  next
    case publish
    with advances_deliver [OF inv _ publish(3)] expected show ?thesis by simp
  qed blast
qed

lemma push_accepts:
  assumes inv: "inbox_inv inbox" and valid: "validate_frame ev f = Inr u"
    and window: "delivered_up_to inbox < seq f" "seq f \<le> delivered_up_to inbox + 65"
    and unique: "\<And>g. g \<in> pending_frames inbox \<Longrightarrow> seq g = seq f \<Longrightarrow> g = f"
  shows "\<exists>new. fst (push ev f inbox) = Inr new"
proof -
  have "2 ^ 32 > Suc (delivered_up_to inbox)"
    using window(1) unat_bound [of "frame_sequence f"] by simp
  then obtain expected where expected: "checked_add (last_delivered_sequence inbox) 1 = Some expected"
    "unat expected = Suc (delivered_up_to inbox)"
    using checked_add_eq_None [of "last_delivered_sequence inbox" 1]
    by (cases "checked_add (last_delivered_sequence inbox) 1") (auto simp: checked_add_eq_Some)
  show ?thesis
  proof (cases "frame_sequence f = expected")
    case True
    with valid expected(1) show ?thesis
      by (auto simp: push_def split: prod.splits)
  next
    case False
    with window(1) expected(2) have late: "expected < frame_sequence f" "Suc (delivered_up_to inbox) < seq f"
      by (auto simp: word_less_nat_alt word_unat_eq_iff)
    have near: "\<not> frame_sequence f - expected > RELIABLE_EVENT_REORDER_WINDOW"
      using gap_exact [OF expected(2) late(1)] window(2) by simp
    show ?thesis
    proof (cases "btree_get (pending inbox) (frame_sequence f)")
      case None
      with buffer_has_room [OF inv late(2) window(2) None] late near valid expected(1) show ?thesis
        by (auto simp: push_def RELIABLE_EVENT_REORDER_CAPACITY_def)
    next
      case (Some g)
      with inv have "g \<in> pending_frames inbox" "seq g = seq f"
        by (auto simp: pending_frames_def ranI inbox_inv_def buffered_def)
      with unique have "g = f" by blast
      with Some late near valid expected(1) show ?thesis
        by (auto simp: push_def)
    qed
  qed
qed

section \<open>Runs\<close>

fun run_inbox ::
  "('e \<Rightarrow> 'm + unit) \<Rightarrow> 'e reliable_event_frame list \<Rightarrow> 'e reliable_event_inbox
     \<Rightarrow> (reliable_event_inbox_error + 'e reliable_event_frame list) list \<times> 'e reliable_event_inbox" where
  "run_inbox ev [] inbox = ([], inbox)"
| "run_inbox ev (f # fs) inbox =
     (let (r, inbox') = push ev f inbox; (rs, final) = run_inbox ev fs inbox' in (r # rs, final))"

text \<open>What a run has published, and which of its frames were accepted.\<close>

fun published :: "('e1 + 'f list) list \<Rightarrow> 'f list" where
  "published [] = []"
| "published (Inl e # rs) = published rs"
| "published (Inr new # rs) = new @ published rs"

fun accepted :: "'f list \<Rightarrow> ('e1 + 'g) list \<Rightarrow> 'f set" where
  "accepted (f # fs) (Inl e # rs) = accepted fs rs"
| "accepted (f # fs) (Inr x # rs) = insert f (accepted fs rs)"
| "accepted _ _ = {}"

lemma run_inbox_invariant:
  assumes "run_inbox ev fs inbox = (rs, final)" and "inbox_inv inbox"
  shows "advances inbox (published rs) final \<and> Inl Saturated \<notin> set rs
    \<and> set (published rs) \<union> pending_frames final = accepted fs rs \<union> pending_frames inbox
    \<and> (\<forall>f \<in> accepted fs rs. delivered_up_to inbox < seq f) \<and> accepted fs rs \<subseteq> set fs"
  using assms
proof (induction fs arbitrary: inbox rs)
  case Nil
  then show ?case by (auto simp: advances_def)
next
  case (Cons f fs)
  then obtain r mid rest where run: "push ev f inbox = (r, mid)" "run_inbox ev fs mid = (rest, final)" "rs = r # rest"
    by (auto split: prod.splits)
  from push_cases [OF Cons.prems(2) run(1)] show ?case
  proof
    assume "\<exists>e. r = Inl e \<and> e \<noteq> Saturated \<and> mid = inbox"
    with Cons.IH [OF run(2)] Cons.prems(2) run(3) show ?thesis by auto
  next
    assume "\<exists>new. r = Inr new \<and> advances inbox new mid \<and> delivered_up_to inbox < seq f
      \<and> set new \<union> pending_frames mid = insert f (pending_frames inbox)"
    then obtain new where new: "r = Inr new" "advances inbox new mid" "delivered_up_to inbox < seq f"
      "set new \<union> pending_frames mid = insert f (pending_frames inbox)"
      by blast
    then have "inbox_inv mid" and le: "delivered_up_to inbox \<le> delivered_up_to mid"
      by (simp_all add: advances_def)
    note IH = Cons.IH [OF run(2) this(1)]
    have "map seq (new @ published rest) = [Suc (delivered_up_to inbox)..<Suc (delivered_up_to final)]"
    proof -
      have "map seq (new @ published rest)
          = [Suc (delivered_up_to inbox)..<Suc (delivered_up_to mid)] @ [Suc (delivered_up_to mid)..<Suc (delivered_up_to final)]"
        using new(2) IH by (simp add: advances_def)
      moreover obtain d where "Suc (delivered_up_to final) = Suc (delivered_up_to mid) + d"
        using IH by (auto simp: advances_def le_iff_add)
      ultimately show ?thesis
        using le upt_add_eq_append [of "Suc (delivered_up_to inbox)" "Suc (delivered_up_to mid)" d] by simp
    qed
    moreover have "\<forall>g \<in> accepted (f # fs) rs. delivered_up_to inbox < seq g"
      using IH le new(1,3) run(3) by fastforce
    moreover have "set (published rs) \<union> pending_frames final = accepted (f # fs) rs \<union> pending_frames inbox"
      using IH new(1,4) run(3) by auto
    ultimately show ?thesis
      using IH le new(1) run(3) by (auto simp: advances_def)
  qed
qed

lemma inbox_delivers_prefix:
  assumes "run_inbox ev frames (resume_after s) = (results, final)"
  shows "map seq (published results) = [Suc (unat s)..<Suc (delivered_up_to final)]"
    and "set (published results) \<union> pending_frames final = accepted frames results"
    and "\<forall>f \<in> pending_frames final. Suc (delivered_up_to final) < seq f"
    and "accepted frames results \<subseteq> set frames" "Inl Saturated \<notin> set results" "unat s \<le> delivered_up_to final"
proof -
  note run = run_inbox_invariant [OF assms inbox_inv_resume]
  have empty: "pending_frames (resume_after s) = {}" "delivered_up_to (resume_after s) = unat s"
    by (simp_all add: pending_frames_def resume_after_def btree_get_map_of)
  from run have "inbox_inv final"
    by (simp add: advances_def)
  then show "\<forall>f \<in> pending_frames final. Suc (delivered_up_to final) < seq f"
    using bufferedD by (fastforce simp: inbox_inv_def)
  show "map seq (published results) = [Suc (unat s)..<Suc (delivered_up_to final)]"
    "set (published results) \<union> pending_frames final = accepted frames results"
    "accepted frames results \<subseteq> set frames" "Inl Saturated \<notin> set results" "unat s \<le> delivered_up_to final"
    using run unfolding empty advances_def by blast+
qed

text \<open>
  C33. Delivery is exactly once and in order, whatever the arrival order: from a session resumed after
  sequence number s, a run of arrivals publishes frames numbered s+1, s+2, and so on without gap
  or repetition, each one a frame that arrived and was accepted; the published prefix is the longest
  possible, that is, the accepted frames are exactly the published ones and the buffered ones, and no
  accepted frame has the next number; and the buffer never overflows, so the saturation error is
  unreachable.
\<close>

theorem inbox_delivers_longest_prefix:
  assumes "run_inbox event_validate frames (resume_after s) = (results, final)"
  shows "map seq (published results) = [Suc (unat s)..<Suc (delivered_up_to final)]
    \<and> accepted frames results \<subseteq> set frames
    \<and> set (published results) \<union> pending_frames final = accepted frames results
    \<and> (\<forall>f \<in> accepted frames results. f \<in> set (published results) \<or> Suc (delivered_up_to final) < seq f)
    \<and> Inl Saturated \<notin> set results"
  using inbox_delivers_prefix [OF assms] by blast

lemma run_window_accepts:
  assumes "run_inbox ev fs inbox = (rs, final)" and "inbox_inv inbox" and "s \<le> delivered_up_to inbox"
    and "\<forall>f \<in> set fs. validate_frame ev f = Inr () \<and> delivered_up_to inbox < seq f \<and> seq f \<le> s + 65"
    and "distinct (map seq fs)" and "seq ` pending_frames inbox \<inter> seq ` set fs = {}"
  shows "list_all (\<lambda>r. \<not> isl r) rs \<and> accepted fs rs = set fs"
  using assms
proof (induction fs arbitrary: inbox rs)
  case (Cons f fs)
  then obtain r mid rest where run: "push ev f inbox = (r, mid)" "run_inbox ev fs mid = (rest, final)" "rs = r # rest"
    by (auto split: prod.splits)
  have fresh: "seq g \<noteq> seq f" if "g \<in> pending_frames inbox" for g
    using Cons.prems(6) that by (metis disjoint_iff image_eqI list.set_intros(1))
  from Cons.prems obtain new where "r = Inr new"
    using push_accepts [of inbox ev f "()"] fresh run(1) by auto
  with push_cases [OF Cons.prems(2) run(1)] have new: "r = Inr new" "advances inbox new mid"
    "set new \<union> pending_frames mid = insert f (pending_frames inbox)"
    by auto
  have "delivered_up_to mid < seq g \<and> seq g \<notin> seq ` pending_frames mid" if "g \<in> set fs" for g
  proof -
    have "seq g \<noteq> seq f" "seq g \<notin> seq ` pending_frames inbox"
      using Cons.prems(5,6) that by (auto simp: image_iff disjoint_iff)
    then have "seq g \<notin> seq ` (set new \<union> pending_frames mid)"
      unfolding new(3) by simp
    moreover have "seq ` set new = {Suc (delivered_up_to inbox)..<Suc (delivered_up_to mid)}"
      using new(2) unfolding advances_def by (metis list.set_map set_upt)
    moreover have "delivered_up_to inbox < seq g"
      using Cons.prems(4) that by simp
    ultimately show ?thesis
      unfolding image_Un by simp
  qed
  note later = this
  have "list_all (\<lambda>r. \<not> isl r) rest \<and> accepted fs rest = set fs"
  proof (rule Cons.IH [OF run(2)])
    show "inbox_inv mid" "s \<le> delivered_up_to mid" "distinct (map seq fs)"
      using Cons.prems(3,5) new(2) unfolding advances_def by simp_all
    show "\<forall>f \<in> set fs. validate_frame ev f = Inr () \<and> delivered_up_to mid < seq f \<and> seq f \<le> s + 65"
      using Cons.prems(4) later by simp
    show "seq ` pending_frames mid \<inter> seq ` set fs = {}"
    proof (rule equals0I)
      fix n
      assume n: "n \<in> seq ` pending_frames mid \<inter> seq ` set fs"
      from IntD2 [OF n] obtain g where g: "n = seq g" "g \<in> set fs"
        by (rule imageE)
      with IntD1 [OF n] have "seq g \<in> seq ` pending_frames mid"
        by (simp only:)
      with later [OF g(2)] show False
        by (elim conjE) (rule notE)
    qed
  qed
  with run(3) new(1) show ?case by simp
qed simp

lemma seq_inj: "inj_on seq A \<Longrightarrow> set xs \<subseteq> A \<Longrightarrow> set ys \<subseteq> A \<Longrightarrow> map seq xs = map seq ys \<Longrightarrow> xs = ys"
  by (rule map_inj_on [of seq]) (auto intro: inj_on_subset)

text \<open>
  C34. A window of frames arrives completely in any order: if the valid frames numbered s+1 up to s+n,
  with n at most 65, arrive in any permutation at a session resumed after s, then every arrival is
  accepted and the frames are published exactly in order, with nothing left in the buffer.
\<close>

theorem inbox_window_in_any_order:
  assumes "map seq frames = [Suc (unat s)..<Suc (unat s + n)]" and "n \<le> 65"
    and "\<forall>f \<in> set frames. validate_frame event_validate f = Inr ()" and "mset arrivals = mset frames"
  shows "\<exists>results final. run_inbox event_validate arrivals (resume_after s) = (results, final)
    \<and> list_all (\<lambda>r. \<not> isl r) results \<and> published results = frames \<and> pending_frames final = {}"
proof -
  obtain results final where run: "run_inbox event_validate arrivals (resume_after s) = (results, final)"
    by fastforce
  have same: "set arrivals = set frames" and "distinct (map seq arrivals)"
    using assms(1,4) by (metis set_mset_mset, metis distinct_upt mset_eq_imp_distinct_iff mset_map)
  have seqs: "seq ` set frames = {Suc (unat s)..<Suc (unat s + n)}"
    using assms(1) by (metis list.set_map set_upt)
  have bounds: "unat s < seq f \<and> seq f \<le> unat s + n" if "f \<in> set frames" for f
    using seqs that by (metis Suc_le_eq atLeastLessThan_iff image_eqI less_Suc_eq_le)
  have empty: "pending_frames (resume_after s) = {}" "delivered_up_to (resume_after s) = unat s"
    by (simp_all add: pending_frames_def resume_after_def btree_get_map_of)
  have "\<forall>f \<in> set arrivals. validate_frame event_validate f = Inr () \<and> delivered_up_to (resume_after s) < seq f
      \<and> seq f \<le> unat s + 65"
  proof
    fix f
    assume "f \<in> set arrivals"
    then have "f \<in> set frames" by (simp only: same)
    with bounds [of f] assms(2,3) show "validate_frame event_validate f = Inr ()
        \<and> delivered_up_to (resume_after s) < seq f \<and> seq f \<le> unat s + 65"
      unfolding empty(2) by simp
  qed
  moreover have "seq ` pending_frames (resume_after s) \<inter> seq ` set arrivals = {}"
    by (simp only: empty image_empty Int_empty_left)
  ultimately have accepted: "list_all (\<lambda>r. \<not> isl r) results" "accepted arrivals results = set frames"
    using run_window_accepts [OF run inbox_inv_resume _ _ \<open>distinct (map seq arrivals)\<close>, of "unat s"]
    unfolding empty(2) same by blast+
  let ?d = "delivered_up_to final"
  from inbox_delivers_prefix [OF run] accepted(2) have prefix: "map seq (published results) = [Suc (unat s)..<Suc ?d]"
    "set (published results) \<union> pending_frames final = set frames"
    "\<forall>f \<in> pending_frames final. Suc ?d < seq f" "unat s \<le> ?d"
    by auto
  have "?d = unat s + n"
  proof (rule antisym)
    show "?d \<le> unat s + n"
    proof (rule ccontr)
      assume "\<not> ?d \<le> unat s + n"
      then have "?d \<in> seq ` set (published results)"
        using prefix(1) by (metis Suc_leI atLeastLessThan_iff le_add1 less_Suc_eq_le list.set_map not_le order_le_less_trans set_upt lessI)
      then obtain f where "f \<in> set (published results)" "seq f = ?d"
        by (metis imageE)
      moreover from this(1) prefix(2) have "f \<in> set frames"
        by blast
      ultimately show False
        using bounds [of f] \<open>\<not> ?d \<le> unat s + n\<close> by simp
    qed
    show "unat s + n \<le> ?d"
    proof (rule ccontr)
      assume less: "\<not> unat s + n \<le> ?d"
      then have "Suc ?d \<in> seq ` set frames"
        using prefix(4) seqs by simp
      then obtain f where f: "f \<in> set frames" "seq f = Suc ?d" by auto
      moreover have "f \<notin> pending_frames final"
        using prefix(3) f(2) by auto
      ultimately have "Suc ?d \<in> set (map seq (published results))"
        using prefix(2) by (metis UnE image_eqI list.set_map)
      then show False
        unfolding prefix(1) by simp
    qed
  qed
  moreover have "inj_on seq (set frames)"
    using assms(1) by (metis distinct_map distinct_upt)
  ultimately have "published results = frames"
    using prefix(1,2) assms(1) by (intro seq_inj [of "set frames"]) auto
  moreover have "pending_frames final = {}"
  proof (rule ccontr)
    assume "pending_frames final \<noteq> {}"
    then obtain f where "f \<in> pending_frames final" by blast
    with prefix(2,3) bounds [of f] \<open>?d = unat s + n\<close> show False by fastforce
  qed
  ultimately show ?thesis
    using run accepted(1) by blast
qed

definition example_frame :: "u32 \<Rightarrow> nat reliable_event_frame" where
  "example_frame n = \<lparr>frame_sequence = n, server_tick = 10, event = unat n * 2\<rparr>"

lemma example_run:
  "run_inbox (\<lambda>_. Inr () :: unit + unit) (List.map example_frame [3, 1, 3, 2, 70, 5]) (resume_after 0) =
     ([Inr [], Inr [example_frame 1], Inr [], Inr [example_frame 2, example_frame 3],
       Inl (GapTooLarge 4 70), Inr []],
      \<lparr>last_delivered_sequence = 3, pending = [(5, example_frame 5)]\<rparr>)"
  by (simp add: push_def validate_frame_def resume_after_def example_frame_def checked_add_def
      RELIABLE_EVENT_REORDER_WINDOW_def RELIABLE_EVENT_REORDER_CAPACITY_def next_expected_sequence_def
      btree_get_def btree_remove_def deliver_def drain.simps)

theorem inbox_delivers_longest_prefix_witness:
  "List.map seq [example_frame 1, example_frame 2, example_frame 3] = [Suc 0..<4]"
  using conjunct1 [OF inbox_delivers_longest_prefix [OF example_run]]
  by (simp add: published.simps example_frame_def)

theorem inbox_window_in_any_order_witness:
  "\<exists>results final. run_inbox (\<lambda>_. Inr () :: unit + unit) (List.map example_frame [3, 1, 2]) (resume_after 0) = (results, final)
     \<and> list_all (\<lambda>r. \<not> isl r) results \<and> published results = List.map example_frame [1, 2, 3] \<and> pending_frames final = {}"
  by (rule inbox_window_in_any_order [where n = 3])
    (simp_all add: example_frame_def upt_rec validate_frame_def)

end
