(* ===== verification/Caldus_Health.thy ===== *)
theory Caldus_Health
  imports Direct_Hit_Damage Boss_Lock
begin

text \<open>
  The health of the boss Sir Caldus (\<open>sim_core/src/core_caldus_health.rs\<close>) and the provenance check
  of friendly damage it shares with the other actors (\<open>sim_core/src/friendly_intent.rs\<close>). The
  health simulation takes the participant lock that the boss lock commits and resolves every
  damage intent through the direct-hit pipeline. Of the combat step (\<open>combat.rs\<close>) the record holds the fields this
  code reads; its presentation events (shots, expirations, transitions, inputs) would extend it. An
  \<open>f32\<close> is its IEEE 754 bit pattern: positions are carried along and tested for finiteness, never
  computed with.
\<close>

section \<open>Positions\<close>

type_synonym f32 = "32 word"

record simulation_vector =
  vec_x :: f32
  vec_y :: f32

definition f32_is_finite :: "f32 \<Rightarrow> bool" where
  "f32_is_finite f \<longleftrightarrow> take_bit 8 (drop_bit 23 f) \<noteq> 255"

text \<open>\<open>f <= 0.0\<close> for a finite \<open>f\<close>: either zero, or the sign bit.\<close>

definition f32_not_positive :: "f32 \<Rightarrow> bool" where
  "f32_not_positive f \<longleftrightarrow> f = 0 \<or> bit f 31"

definition vector_is_finite :: "simulation_vector \<Rightarrow> bool" where
  "vector_is_finite v \<longleftrightarrow> f32_is_finite (vec_x v) \<and> f32_is_finite (vec_y v)"

record enemy_hurtbox =
  hurt_id :: entity_id
  hurt_center :: simulation_vector
  hurt_radius_tiles :: f32

datatype hurtbox_error = NonFiniteCenter entity_id | InvalidRadius entity_id

definition new_enemy_hurtbox :: "entity_id \<Rightarrow> simulation_vector \<Rightarrow> f32 \<Rightarrow> hurtbox_error + enemy_hurtbox" where
  "new_enemy_hurtbox entity center radius_tiles =
     (if \<not> vector_is_finite center then Inl (NonFiniteCenter entity)
      else if \<not> f32_is_finite radius_tiles \<or> f32_not_positive radius_tiles then Inl (InvalidRadius entity)
      else Inr \<lparr>hurt_id = entity, hurt_center = center, hurt_radius_tiles = radius_tiles\<rparr>)"

section \<open>Combat facts\<close>

datatype friendly_projectile_source = PrimaryShot | BellDebtShot | GraveMarkShot

datatype raw_damage_intent_source = Primary | BellDebtRepeat | GraveMark | NailTrap

datatype shell_side = North | South | West | East

datatype solid_collider_id = Shell shell_side | Pillar u32

datatype collision_target = Solid solid_collider_id | Enemy entity_id

record projectile_collision =
  col_tick :: tick
  col_projectile_id :: entity_id
  col_source :: friendly_projectile_source
  col_target :: collision_target
  col_final_position :: simulation_vector
  col_distance_travelled_tiles :: f32
  col_contact_ordinal :: u32
  col_empowered_by_slipstep :: bool
  col_focused_by_stillness :: bool
  col_projectile_continues :: bool

record raw_damage_intent =
  int_tick :: tick
  int_projectile_id :: entity_id
  int_source :: raw_damage_intent_source
  int_target :: entity_id
  int_base_raw_damage :: u32
  int_multiplier_basis_points :: u32
  int_resolved_raw_damage :: u32
  int_contact_ordinal :: u32

record nail_trap_trigger =
  trap_id :: entity_id
  trap_target_id :: entity_id
  trap_tick :: tick
  trap_position :: simulation_vector
  trap_raw_damage :: u32
  trap_snapshot_weapon_raw_damage :: u32
  trap_frostbind_ticks :: u32

datatype nail_trap_removal_reason = Overflow | Triggered | Expired

record nail_trap_removal =
  removal_trap_id :: entity_id
  removal_tick :: tick
  removal_reason :: nail_trap_removal_reason

record nail_trap_step =
  traps_spawned :: "entity_id list"
  traps_armed :: "entity_id list"
  trap_triggers :: "nail_trap_trigger list"
  trap_removals :: "nail_trap_removal list"

record combat_step =
  cs_tick :: tick
  cs_collisions :: "projectile_collision list"
  cs_raw_damage_intents :: "raw_damage_intent list"
  cs_attacker_multiplier_basis_points :: u32
  cs_nail_traps :: nail_trap_step

section \<open>Provenance of damage intents\<close>

datatype friendly_intent_error = InvalidProvenance | UnstableOrder

definition trap_matches :: "raw_damage_intent \<Rightarrow> entity_id \<Rightarrow> nail_trap_trigger \<Rightarrow> bool" where
  "trap_matches intent target trigger \<longleftrightarrow>
     trap_tick trigger = int_tick intent \<and> trap_id trigger = int_projectile_id intent
     \<and> trap_target_id trigger = target
     \<and> trap_snapshot_weapon_raw_damage trigger = int_base_raw_damage intent
     \<and> trap_raw_damage trigger = int_resolved_raw_damage intent"

definition collision_matches ::
  "raw_damage_intent \<Rightarrow> entity_id \<Rightarrow> friendly_projectile_source \<Rightarrow> projectile_collision \<Rightarrow> bool" where
  "collision_matches intent target source collision \<longleftrightarrow>
     col_tick collision = int_tick intent \<and> col_projectile_id collision = int_projectile_id intent
     \<and> col_source collision = source \<and> col_contact_ordinal collision = int_contact_ordinal intent
     \<and> col_target collision = Enemy target"

definition provenance_count :: "combat_step \<Rightarrow> entity_id \<Rightarrow> raw_damage_intent \<Rightarrow> nat" where
  "provenance_count combat target intent =
     (let collisions = (\<lambda>source. length (filter (collision_matches intent target source) (cs_collisions combat)))
      in case int_source intent of
        NailTrap \<Rightarrow> length (filter (trap_matches intent target) (trap_triggers (cs_nail_traps combat)))
      | Primary \<Rightarrow> collisions PrimaryShot
      | BellDebtRepeat \<Rightarrow> collisions BellDebtShot
      | GraveMark \<Rightarrow> collisions GraveMarkShot)"

type_synonym intent_key = "entity_id \<times> u32"

definition intent_key :: "raw_damage_intent \<Rightarrow> intent_key" where
  "intent_key intent = (int_projectile_id intent, int_contact_ordinal intent)"

definition validate_friendly_intent ::
  "combat_step \<Rightarrow> entity_id \<Rightarrow> raw_damage_intent \<Rightarrow> intent_key option \<times> intent_key set
     \<Rightarrow> friendly_intent_error + intent_key option \<times> intent_key set" where
  "validate_friendly_intent combat target intent state =
     (case state of (previous, seen) \<Rightarrow>
       if int_tick intent \<noteq> cs_tick combat \<or> int_target intent \<noteq> target then Inl InvalidProvenance
       else let key = intent_key intent in
         if is_some_and previous (\<lambda>prior. key < prior) \<or> key \<in> seen then Inl UnstableOrder
         else if provenance_count combat target intent \<noteq> 1 then Inl InvalidProvenance
         else Inr (Some key, insert key seen))"

definition validate_friendly_intents :: "combat_step \<Rightarrow> entity_id \<Rightarrow> friendly_intent_error + unit" where
  "validate_friendly_intents combat target =
     and_then (try_fold (validate_friendly_intent combat target) (cs_raw_damage_intents combat) (None, {}))
       (\<lambda>_. Inr ())"

section \<open>The health simulation\<close>

definition CALDUS_ARMOR :: u32 where
  "CALDUS_ARMOR = 10"

text \<open>0.62 rounded to single precision.\<close>

definition CALDUS_HURTBOX_RADIUS_TILES :: f32 where
  "CALDUS_HURTBOX_RADIUS_TILES = 0x3F1EB852"

definition CALDUS_BREAK_DAMAGE_BASIS_POINTS :: u32 where
  "CALDUS_BREAK_DAMAGE_BASIS_POINTS = 12500"

datatype core_caldus_phase = Phase1 | Phase2 | Phase3

datatype core_caldus_state =
    Active core_caldus_phase u64 u64 u64
  | Break core_caldus_phase tick
  | CaldusDefeated

record core_caldus_friendly_input =
  fi_participant :: core_boss_participant
  fi_combat :: combat_step

record core_caldus_damage_event =
  cde_tick :: tick
  cde_participant :: core_boss_participant
  cde_projectile_id :: entity_id
  cde_contact_ordinal :: u32
  cde_source :: raw_damage_intent_source
  cde_base_raw_damage :: u32
  cde_authored_multiplier_basis_points :: u32
  cde_break_multiplier_basis_points :: u32
  cde_resolved_raw_damage :: u32
  cde_damage :: damage_event

record core_caldus_defeat =
  def_tick :: tick
  def_entity_id :: entity_id
  def_participant :: core_boss_participant
  def_lethal_projectile_id :: entity_id
  def_lethal_contact_ordinal :: u32

record core_caldus_health_step =
  hs_step_tick :: tick
  hs_damage :: "core_caldus_damage_event list"
  hs_defeat :: "core_caldus_defeat option"

record core_caldus_health_simulation =
  ch_lock :: core_boss_participant_lock
  ch_entity_id :: entity_id
  ch_current_health :: u32
  ch_tick :: tick
  ch_defeated :: bool
  ch_contribution_damage :: "(entity_id, u64) btree_map"

datatype core_caldus_health_error =
    InvalidParticipantLock
  | BossMatchesParticipant
  | ParticipantOutsideLock
  | UnstableParticipantOrder
  | CombatTickMismatch
  | InvalidFriendlyIntent
  | InvalidFriendlyIntentOrder
  | DamageAfterDefeat
  | HealthArithmeticOverflow
  | Damage damage_error
  | Hurtbox hurtbox_error

definition new_health_at_tick ::
  "core_boss_participant_lock \<Rightarrow> entity_id \<Rightarrow> tick
     \<Rightarrow> core_caldus_health_error + core_caldus_health_simulation" where
  "new_health_at_tick lock entity_id start_tick =
     (if lock_participants lock = [] \<or> lock_maximum_health lock = 0 then Inl InvalidParticipantLock
      else if list_ex (\<lambda>p. part_entity_id p = entity_id) (lock_participants lock)
      then Inl BossMatchesParticipant
      else Inr \<lparr>ch_lock = lock, ch_entity_id = entity_id, ch_current_health = lock_maximum_health lock,
             ch_tick = start_tick, ch_defeated = False,
             ch_contribution_damage =
               fold (\<lambda>p. btree_insert (part_entity_id p) 0) (lock_participants lock) []\<rparr>)"

definition new_health ::
  "core_boss_participant_lock \<Rightarrow> entity_id \<Rightarrow> core_caldus_health_error + core_caldus_health_simulation" where
  "new_health lock entity_id = new_health_at_tick lock entity_id 0"

definition contribution_damage ::
  "core_caldus_health_simulation \<Rightarrow> core_boss_participant \<Rightarrow> u64 option" where
  "contribution_damage sim participant = btree_get (ch_contribution_damage sim) (part_entity_id participant)"

definition hurtbox ::
  "core_caldus_health_simulation \<Rightarrow> simulation_vector \<Rightarrow> core_caldus_health_error + enemy_hurtbox option" where
  "hurtbox sim centre =
     (if ch_defeated sim then Inr None
      else map_err Hurtbox (and_then (new_enemy_hurtbox (ch_entity_id sim) centre CALDUS_HURTBOX_RADIUS_TILES)
             (\<lambda>h. Inr (Some h))))"

definition intent_error :: "friendly_intent_error \<Rightarrow> core_caldus_health_error" where
  "intent_error e = (case e of InvalidProvenance \<Rightarrow> InvalidFriendlyIntent
     | UnstableOrder \<Rightarrow> InvalidFriendlyIntentOrder)"

definition validate_input ::
  "core_boss_participant_lock \<Rightarrow> entity_id \<Rightarrow> tick \<Rightarrow> core_caldus_friendly_input
     \<Rightarrow> (u8 \<times> entity_id) option \<times> entity_id set
     \<Rightarrow> core_caldus_health_error + (u8 \<times> entity_id) option \<times> entity_id set" where
  "validate_input lock boss t input state =
     (case state of (previous, seen) \<Rightarrow>
       if fi_participant input \<notin> set (lock_participants lock) then Inl ParticipantOutsideLock
       else let key = participant_key (fi_participant input);
                entity = part_entity_id (fi_participant input) in
         if is_some_and previous (\<lambda>prior. key \<le> prior) \<or> entity \<in> seen then Inl UnstableParticipantOrder
         else if cs_tick (fi_combat input) \<noteq> t then Inl CombatTickMismatch
         else and_then (map_err intent_error (validate_friendly_intents (fi_combat input) boss))
           (\<lambda>_. Inr (Some key, insert entity seen)))"

definition validate_inputs ::
  "core_boss_participant_lock \<Rightarrow> entity_id \<Rightarrow> tick \<Rightarrow> core_caldus_friendly_input list
     \<Rightarrow> core_caldus_health_error + unit" where
  "validate_inputs lock boss t inputs =
     and_then (try_fold (validate_input lock boss t) inputs (None, {})) (\<lambda>_. Inr ())"

definition multiply_half_up :: "u32 \<Rightarrow> u32 \<Rightarrow> core_caldus_health_error + u32" where
  "multiply_half_up v basis_points =
     and_then (ok_or (Option.bind (checked_mul (ucast v :: u64) (ucast basis_points))
         (\<lambda>x. checked_add x 5000)) HealthArithmeticOverflow)
       (\<lambda>scaled. ok_or (try_from_word (scaled div 10000)) HealthArithmeticOverflow)"

type_synonym damage_work =
  "core_caldus_health_simulation \<times> core_caldus_damage_event list \<times> core_caldus_defeat option"

definition hit_parameters ::
  "core_caldus_health_simulation \<Rightarrow> core_caldus_friendly_input \<Rightarrow> raw_damage_intent \<Rightarrow> u32
     \<Rightarrow> direct_hit_parameters" where
  "hit_parameters sim input intent raw =
     \<lparr>hit_source = int_projectile_id intent, hit_target = ch_entity_id sim, collision_confirmed = True,
      target_is_immune = False, raw_damage = raw, hit_damage_type = Physical,
      attacker_multiplier_basis_points = cs_attacker_multiplier_basis_points (fi_combat input),
      target_resistance_basis_points = 0, direct_damage_reductions_basis_points = [],
      hit_armor = CALDUS_ARMOR, current_barrier = 0, health_damage_cap_basis_points = None,
      current_health = ch_current_health sim, max_health = lock_maximum_health (ch_lock sim)\<rparr>"

definition apply_intent ::
  "u32 \<Rightarrow> core_caldus_friendly_input \<Rightarrow> raw_damage_intent \<Rightarrow> damage_work
     \<Rightarrow> core_caldus_health_error + damage_work" where
  "apply_intent break_multiplier input intent work =
     (case work of (sim, damage, defeat) \<Rightarrow>
     and_then (multiply_half_up (int_resolved_raw_damage intent) break_multiplier) (\<lambda>raw.
     and_then (map_err Damage (new_direct_hit_request (hit_parameters sim input intent raw))) (\<lambda>request.
     and_then (map_err Damage (resolve_direct_hit request)) (\<lambda>resolved.
     and_then (ok_or (btree_get (ch_contribution_damage sim) (part_entity_id (fi_participant input)))
                ParticipantOutsideLock) (\<lambda>contribution.
     and_then (ok_or (checked_add contribution (ucast (health_damage_applied resolved)))
                HealthArithmeticOverflow) (\<lambda>contribution'.
     let sim' = sim\<lparr>ch_current_health := health_after resolved,
                    ch_contribution_damage := btree_insert (part_entity_id (fi_participant input))
                      contribution' (ch_contribution_damage sim)\<rparr>;
         event = \<lparr>cde_tick = ch_tick sim, cde_participant = fi_participant input,
                  cde_projectile_id = int_projectile_id intent,
                  cde_contact_ordinal = int_contact_ordinal intent, cde_source = int_source intent,
                  cde_base_raw_damage = int_base_raw_damage intent,
                  cde_authored_multiplier_basis_points = int_multiplier_basis_points intent,
                  cde_break_multiplier_basis_points = break_multiplier,
                  cde_resolved_raw_damage = raw, cde_damage = resolved\<rparr>
     in Inr (if lethal resolved
             then (sim'\<lparr>ch_defeated := True\<rparr>, damage @ [event],
                   Some \<lparr>def_tick = ch_tick sim, def_entity_id = ch_entity_id sim,
                         def_participant = fi_participant input,
                         def_lethal_projectile_id = int_projectile_id intent,
                         def_lethal_contact_ordinal = int_contact_ordinal intent\<rparr>)
             else (sim', damage @ [event], defeat))))))))"

text \<open>The \<open>break\<close> leaves the loop over the intents of one input; the loop over the inputs goes on.\<close>

fun apply_intents ::
  "u32 \<Rightarrow> core_caldus_friendly_input \<Rightarrow> raw_damage_intent list \<Rightarrow> damage_work
     \<Rightarrow> core_caldus_health_error + damage_work" where
  "apply_intents break_multiplier input [] work = Inr work"
| "apply_intents break_multiplier input (intent # intents) work =
     (if ch_current_health (fst work) = 0 then Inr work
      else and_then (apply_intent break_multiplier input intent work)
             (apply_intents break_multiplier input intents))"

definition apply_friendly_damage_inner ::
  "core_caldus_health_simulation \<Rightarrow> core_caldus_state \<Rightarrow> core_caldus_friendly_input list
     \<Rightarrow> core_caldus_health_error + core_caldus_health_step \<times> core_caldus_health_simulation" where
  "apply_friendly_damage_inner sim state inputs =
     and_then (validate_inputs (ch_lock sim) (ch_entity_id sim) (ch_tick sim) inputs) (\<lambda>_.
     if ch_defeated sim \<and> list_ex (\<lambda>input. cs_raw_damage_intents (fi_combat input) \<noteq> []) inputs
     then Inl DamageAfterDefeat
     else let break_multiplier = (case state of Break entering ends_at \<Rightarrow> CALDUS_BREAK_DAMAGE_BASIS_POINTS
                                  | _ \<Rightarrow> 10000) in
       and_then (try_fold (\<lambda>input. apply_intents break_multiplier input (cs_raw_damage_intents (fi_combat input)))
           inputs (sim, [], None)) (\<lambda>(sim', damage, defeat).
       and_then (ok_or (checked_add (ch_tick sim') 1) HealthArithmeticOverflow) (\<lambda>next_tick.
         Inr (\<lparr>hs_step_tick = ch_tick sim', hs_damage = damage, hs_defeat = defeat\<rparr>,
              sim'\<lparr>ch_tick := next_tick\<rparr>))))"

definition apply_friendly_damage ::
  "core_caldus_state \<Rightarrow> core_caldus_friendly_input list \<Rightarrow> core_caldus_health_simulation
     \<Rightarrow> (core_caldus_health_error + core_caldus_health_step) \<times> core_caldus_health_simulation" where
  "apply_friendly_damage state inputs sim =
     (case apply_friendly_damage_inner sim state inputs of
        Inl e \<Rightarrow> (Inl e, sim)
      | Inr (step, sim') \<Rightarrow> (Inr step, sim'))"

section \<open>The invariant of the health simulation\<close>

abbreviation contributed :: "core_caldus_health_simulation \<Rightarrow> nat" where
  "contributed sim \<equiv> sum_list (map unat (btree_values (ch_contribution_damage sim)))"

definition contribution_of :: "core_caldus_health_simulation \<Rightarrow> entity_id \<Rightarrow> nat option" where
  "contribution_of sim k = map_option unat (btree_get (ch_contribution_damage sim) k)"

definition caldus_inv :: "core_caldus_health_simulation \<Rightarrow> bool" where
  "caldus_inv sim \<longleftrightarrow>
     btree_ok (ch_contribution_damage sim)
     \<and> dom (btree_get (ch_contribution_damage sim)) = part_entity_id ` set (lock_participants (ch_lock sim))
     \<and> ch_entity_id sim \<notin> part_entity_id ` set (lock_participants (ch_lock sim))
     \<and> unat (ch_current_health sim) + contributed sim = unat (lock_maximum_health (ch_lock sim))
     \<and> lock_maximum_health (ch_lock sim) \<noteq> 0
     \<and> (ch_defeated sim \<longleftrightarrow> ch_current_health sim = 0)"

lemma zero_contributions:
  "btree_ok (fold (\<lambda>p. btree_insert (key p) (0 :: u64)) ps m)
     \<and> dom (btree_get (fold (\<lambda>p. btree_insert (key p) 0) ps m)) = dom (btree_get m) \<union> key ` set ps
     \<and> (\<forall>v \<in> ran (btree_get (fold (\<lambda>p. btree_insert (key p) 0) ps m)). v = 0)"
  if "btree_ok m" "\<forall>v \<in> ran (btree_get m). v = 0"
  using that
proof (induction ps arbitrary: m)
  case (Cons p ps)
  have "\<forall>v \<in> ran (btree_get (btree_insert (key p) 0 m)). v = 0"
    using Cons.prems by (auto simp: btree_get_insert ran_def)
  moreover have "dom (btree_get (btree_insert (key p) 0 m)) = insert (key p) (dom (btree_get m))"
    unfolding btree_get_insert [OF Cons.prems(1)] by (rule dom_fun_upd [THEN trans]) simp
  ultimately show ?case
    using Cons.IH [OF btree_ok_insert [OF Cons.prems(1)]] by simp
qed simp

lemma caldus_inv_new:
  assumes "new_health_at_tick lock e t = Inr sim"
  shows "caldus_inv sim" and "ch_tick sim = t" and "ch_lock sim = lock" and "ch_entity_id sim = e"
proof -
  define m where "m = fold (\<lambda>p. btree_insert (part_entity_id p) (0 :: u64)) (lock_participants lock) []"
  have empty: "btree_ok ([] :: (entity_id, u64) btree_map)" "btree_get ([] :: (entity_id, u64) btree_map) = Map.empty"
    by (simp_all add: btree_ok_def btree_get_map_of)
  have m: "btree_ok m" "dom (btree_get m) = part_entity_id ` set (lock_participants lock)"
    "\<forall>v \<in> ran (btree_get m). v = 0"
    using zero_contributions [of "[]" part_entity_id "lock_participants lock"] empty by (auto simp: m_def)
  have zero: "sum_list (map unat (btree_values m)) = 0"
    using m(1,3) by (auto simp: btree_values_ran sum_list_eq_0_iff)
  have sim: "sim = \<lparr>ch_lock = lock, ch_entity_id = e, ch_current_health = lock_maximum_health lock,
      ch_tick = t, ch_defeated = False, ch_contribution_damage = m\<rparr>"
    and lock: "lock_maximum_health lock \<noteq> 0" "e \<notin> part_entity_id ` set (lock_participants lock)"
    using assms by (auto simp: new_health_at_tick_def m_def list_ex_iff split: if_splits)
  show "caldus_inv sim"
    unfolding caldus_inv_def sim using m(1,2) zero lock by simp
  show "ch_tick sim = t" "ch_lock sim = lock" "ch_entity_id sim = e"
    unfolding sim by simp_all
qed

lemma contribution_le:
  "caldus_inv sim \<Longrightarrow> btree_get (ch_contribution_damage sim) k = Some v
     \<Longrightarrow> unat v \<le> unat (lock_maximum_health (ch_lock sim))"
proof -
  assume inv: "caldus_inv sim" and "btree_get (ch_contribution_damage sim) k = Some v"
  then have "unat v \<in> set (map unat (btree_values (ch_contribution_damage sim)))"
    by (auto simp: caldus_inv_def btree_values_ran ran_def)
  from member_le_sum_list [OF this] inv show ?thesis
    by (simp add: caldus_inv_def)
qed

section \<open>What a sequence of damage events does\<close>

abbreviation dealt :: "core_caldus_damage_event \<Rightarrow> nat" where
  "dealt event \<equiv> unat (health_damage_applied (cde_damage event))"

definition dealt_by :: "entity_id \<Rightarrow> core_caldus_damage_event list \<Rightarrow> nat" where
  "dealt_by k events = sum_list (map dealt (filter (\<lambda>event. part_entity_id (cde_participant event) = k) events))"

lemma dealt_by_append [simp]: "dealt_by k (xs @ ys) = dealt_by k xs + dealt_by k ys"
  and dealt_by_Nil [simp]: "dealt_by k [] = 0"
  by (simp_all add: dealt_by_def)

definition defeat_by :: "core_caldus_health_simulation \<Rightarrow> core_caldus_damage_event \<Rightarrow> core_caldus_defeat" where
  "defeat_by sim event =
     \<lparr>def_tick = ch_tick sim, def_entity_id = ch_entity_id sim, def_participant = cde_participant event,
      def_lethal_projectile_id = cde_projectile_id event, def_lethal_contact_ordinal = cde_contact_ordinal event\<rparr>"

text \<open>
  \<open>hits sim new sim'\<close>: the events \<open>new\<close> lead from \<open>sim\<close> to \<open>sim'\<close>; the health falls and the
  contributions rise by exactly what the events dealt.
\<close>

definition hits ::
  "core_caldus_health_simulation \<Rightarrow> core_caldus_damage_event list \<Rightarrow> core_caldus_health_simulation \<Rightarrow> bool" where
  "hits sim new sim' \<longleftrightarrow>
     caldus_inv sim' \<and> ch_lock sim' = ch_lock sim \<and> ch_entity_id sim' = ch_entity_id sim \<and> ch_tick sim' = ch_tick sim
     \<and> unat (ch_current_health sim') + sum_list (map dealt new) = unat (ch_current_health sim)
     \<and> (\<forall>k. contribution_of sim' k = map_option (\<lambda>n. n + dealt_by k new) (contribution_of sim k))
     \<and> (ch_current_health sim = 0 \<longrightarrow> new = [])"

text \<open>The same for the loop state, with the defeat recorded at the finishing event.\<close>

definition work_hits :: "core_caldus_health_simulation \<Rightarrow> damage_work \<Rightarrow> bool" where
  "work_hits sim work \<longleftrightarrow>
     (case work of (sim', damage, defeat) \<Rightarrow>
       hits sim damage sim'
       \<and> defeat = (if damage \<noteq> [] \<and> ch_current_health sim' = 0 then Some (defeat_by sim (last damage)) else None))"

lemma hits_refl: "caldus_inv sim \<Longrightarrow> hits sim [] sim"
  by (simp add: hits_def option.map_ident)

lemma hits_trans:
  assumes "hits sim xs mid" and "hits mid ys sim'"
  shows "hits sim (xs @ ys) sim'"
  using assms unfolding hits_def by (auto simp: option.map_comp comp_def add.assoc unat_eq_zero)


type_synonym strike_tag = "core_boss_participant \<times> entity_id \<times> u32"

definition event_tag :: "core_caldus_damage_event \<Rightarrow> strike_tag" where
  "event_tag event = (cde_participant event, cde_projectile_id event, cde_contact_ordinal event)"

lemma apply_intent_hits:
  assumes ok: "apply_intent factor input intent (sim, damage, defeat) = Inr work"
    and inv: "caldus_inv sim" and alive: "ch_current_health sim \<noteq> 0"
  shows "\<exists>event sim'. hits sim [event] sim' 
    \<and> event_tag event = (fi_participant input, int_projectile_id intent, int_contact_ordinal intent)
    \<and> work = (sim', damage @ [event],
        if ch_current_health sim' = 0 then Some (defeat_by sim event) else defeat)"
proof -
  let ?k = "part_entity_id (fi_participant input)" and ?m = "ch_contribution_damage sim"
  from ok obtain raw request resolved old new where raw: "multiply_half_up (int_resolved_raw_damage intent) factor = Inr raw"
    and request: "new_direct_hit_request (hit_parameters sim input intent raw) = Inr request"
    and resolved: "resolve_direct_hit request = Inr resolved"
    and old: "btree_get ?m ?k = Some old" and new: "checked_add old (ucast (health_damage_applied resolved)) = Some new"
    by (auto simp: apply_intent_def)
  define sim' where "sim' = sim\<lparr>ch_current_health := health_after resolved,
    ch_contribution_damage := btree_insert ?k new ?m, ch_defeated := health_after resolved = 0\<rparr>"
  define event where "event = \<lparr>cde_tick = ch_tick sim, cde_participant = fi_participant input,
    cde_projectile_id = int_projectile_id intent, cde_contact_ordinal = int_contact_ordinal intent,
    cde_source = int_source intent, cde_base_raw_damage = int_base_raw_damage intent,
    cde_authored_multiplier_basis_points = int_multiplier_basis_points intent,
    cde_break_multiplier_basis_points = factor, cde_resolved_raw_damage = raw, cde_damage = resolved\<rparr>"
  have "parameters request = hit_parameters sim input intent raw"
    using new_request_valid(1) [OF request] .
  then have health: "unat (health_after resolved) + unat (health_damage_applied resolved) = unat (ch_current_health sim)"
    using resolve_direct_hit_parts [OF resolved] by (simp add: hit_parameters_def)
  have lethal: "lethal resolved \<longleftrightarrow> health_after resolved = 0"
    using resolve_direct_hit_steps(18) [OF resolved] .
  have unew: "unat new = unat old + unat (health_damage_applied resolved)"
    using new by (simp add: checked_add_eq_Some)
  have "contributed sim' + unat old = contributed sim + unat new"
    using btree_sum_insert [of ?m ?k old unat new] inv old by (simp add: sim'_def caldus_inv_def)
  then have "caldus_inv sim'"
    using inv old health unew unfolding caldus_inv_def sim'_def
    by (auto simp: btree_ok_insert btree_get_insert)
  moreover have "contribution_of sim' k = map_option (\<lambda>n. n + dealt_by k [event]) (contribution_of sim k)" for k
    using inv old unew by (simp add: contribution_of_def sim'_def caldus_inv_def btree_get_insert
        dealt_by_def event_def option.map_ident)
  ultimately have "hits sim [event] sim'"
    using health alive by (simp add: hits_def sim'_def event_def)
  moreover have "\<not> ch_defeated sim"
    using inv alive by (simp add: caldus_inv_def)
  then have same: "sim\<lparr>ch_current_health := h, ch_contribution_damage := c, ch_defeated := False\<rparr>
      = sim\<lparr>ch_current_health := h, ch_contribution_damage := c\<rparr>" for h c
    by (cases sim) simp
  have "work = (sim', damage @ [event],
      if ch_current_health sim' = 0 then Some (defeat_by sim event) else defeat)"
    using ok raw request resolved old new
    by (simp add: apply_intent_def lethal sim'_def event_def defeat_by_def Let_def same split: if_splits)
  ultimately show ?thesis
    by (auto simp: event_def event_tag_def)
qed

section \<open>The loops over inputs and intents as one sequence\<close>

text \<open>
  The break out of the inner loop leaves nothing for the later inputs to do, so both loops together strike
  a prefix of the flattened sequence of intents.
\<close>

fun strike ::
  "u32 \<Rightarrow> (core_caldus_friendly_input \<times> raw_damage_intent) list \<Rightarrow> damage_work
     \<Rightarrow> core_caldus_health_error + damage_work" where
  "strike factor [] work = Inr work"
| "strike factor ((input, intent) # rest) work =
     (if ch_current_health (fst work) = 0 then Inr work
      else and_then (apply_intent factor input intent work) (strike factor rest))"

definition flattened ::
  "core_caldus_friendly_input list \<Rightarrow> (core_caldus_friendly_input \<times> raw_damage_intent) list" where
  "flattened inputs = concat (map (\<lambda>input. map (Pair input) (cs_raw_damage_intents (fi_combat input))) inputs)"

lemma strike_append: "strike factor (xs @ ys) work = and_then (strike factor xs work) (strike factor ys)"
proof (induction factor xs work rule: strike.induct)
  case (1 factor work)
  then show ?case by simp
next
  case (2 factor input intent rest work)
  have "strike factor ys work = Inr work" if "ch_current_health (fst work) = 0"
    using that by (cases ys) auto
  with 2 show ?case
    by (cases "apply_intent factor input intent work") auto
qed

lemma apply_intents_strike: "apply_intents factor input intents work = strike factor (map (Pair input) intents) work"
proof (induction intents arbitrary: work)
  case (Cons intent intents)
  then show ?case
    by (cases "apply_intent factor input intent work") auto
qed simp

lemma both_loops:
  "try_fold (\<lambda>input. apply_intents factor input (cs_raw_damage_intents (fi_combat input))) inputs work
     = strike factor (flattened inputs) work"
proof (induction inputs arbitrary: work)
  case (Cons input inputs)
  have "strike factor (flattened (input # inputs)) work
      = and_then (apply_intents factor input (cs_raw_damage_intents (fi_combat input)) work) (strike factor (flattened inputs))"
    by (simp add: flattened_def strike_append apply_intents_strike)
  then show ?case
    by (simp add: Cons.IH cong: and_then_cong)
qed (simp add: flattened_def)

definition submitted :: "core_caldus_friendly_input list \<Rightarrow> strike_tag list" where
  "submitted inputs = map (\<lambda>(input, intent).
     (fi_participant input, int_projectile_id intent, int_contact_ordinal intent)) (flattened inputs)"

lemma strike_hits:
  assumes "strike factor ps (sim, damage, defeat) = Inr work" and "work_hits sim0 (sim, damage, defeat)"
  shows "\<exists>sim' new defeat' k. work = (sim', damage @ new, defeat') \<and> work_hits sim0 work
    \<and> map event_tag new = take k (map (\<lambda>(input, intent).
        (fi_participant input, int_projectile_id intent, int_contact_ordinal intent)) ps)
    \<and> (ch_current_health sim' \<noteq> 0 \<longrightarrow> length ps \<le> k)"
  using assms
proof (induction ps arbitrary: sim damage defeat)
  case Nil
  then show ?case by auto
next
  case (Cons p ps)
  obtain input intent where p: "p = (input, intent)" by (cases p)
  show ?case
  proof (cases "ch_current_health sim = 0")
    case True
    with Cons.prems p show ?thesis
      by (intro exI [of _ sim] exI [of _ "[]"] exI [of _ defeat] exI [of _ 0]) auto
  next
    case False
    with Cons.prems(1) p obtain mid where mid: "apply_intent factor input intent (sim, damage, defeat) = Inr mid"
      "strike factor ps mid = Inr work" by auto
    have base: "hits sim0 damage sim" and none: "defeat = None"
      using Cons.prems(2) False by (auto simp: work_hits_def)
    then have "caldus_inv sim" "defeat_by sim = defeat_by sim0"
      by (auto simp: hits_def defeat_by_def fun_eq_iff)
    with apply_intent_hits [OF mid(1) _ False] obtain event sim' where
      step: "hits sim [event] sim'" "event_tag event = (fi_participant input, int_projectile_id intent, int_contact_ordinal intent)"
      "mid = (sim', damage @ [event], if ch_current_health sim' = 0 then Some (defeat_by sim0 event) else defeat)"
      by metis
    have "work_hits sim0 mid"
      using hits_trans [OF base step(1)] none by (simp add: work_hits_def step(3))
    from Cons.IH [OF mid(2) [unfolded step(3)] this [unfolded step(3)]] obtain sim2 new defeat' k where
      rest: "work = (sim2, (damage @ [event]) @ new, defeat')" "work_hits sim0 work"
      "map event_tag new = take k (map (\<lambda>(input, intent).
          (fi_participant input, int_projectile_id intent, int_contact_ordinal intent)) ps)"
      "ch_current_health sim2 \<noteq> 0 \<longrightarrow> length ps \<le> k" by blast
    then show ?thesis
      using step(2) p by (intro exI [of _ sim2] exI [of _ "event # new"] exI [of _ defeat'] exI [of _ "Suc k"]) simp
  qed
qed

section \<open>One step\<close>

lemma apply_friendly_damage_step:
  assumes "apply_friendly_damage state inputs sim = (Inr step, sim')" and inv: "caldus_inv sim"
  obtains mid k where "hits sim (hs_damage step) mid" and "sim' = mid\<lparr>ch_tick := ch_tick sim + 1\<rparr>"
    and "unat (ch_tick sim') = unat (ch_tick sim) + 1" and "hs_step_tick step = ch_tick sim"
    and "hs_defeat step = (if hs_damage step \<noteq> [] \<and> ch_current_health mid = 0
       then Some (defeat_by sim (last (hs_damage step))) else None)"
    and "map event_tag (hs_damage step) = take k (submitted inputs)"
    and "ch_current_health mid \<noteq> 0 \<longrightarrow> length (submitted inputs) \<le> k"
    and "validate_inputs (ch_lock sim) (ch_entity_id sim) (ch_tick sim) inputs = Inr ()"
proof -
  from assms(1) have inner: "apply_friendly_damage_inner sim state inputs = Inr (step, sim')"
    by (auto simp: apply_friendly_damage_def split: sum.splits prod.splits)
  then obtain factor mid damage defeat next_tick where
    valid: "validate_inputs (ch_lock sim) (ch_entity_id sim) (ch_tick sim) inputs = Inr ()"
    and run: "strike factor (flattened inputs) (sim, [], None) = Inr (mid, damage, defeat)"
    and tick: "checked_add (ch_tick mid) 1 = Some next_tick"
    and out: "step = \<lparr>hs_step_tick = ch_tick mid, hs_damage = damage, hs_defeat = defeat\<rparr>"
      "sim' = mid\<lparr>ch_tick := next_tick\<rparr>"
    by (auto simp: apply_friendly_damage_inner_def both_loops Let_def split: if_splits prod.splits)
  have "work_hits sim (sim, [], None)"
    using inv by (simp add: work_hits_def hits_refl)
  from strike_hits [OF run this] obtain k where
    w: "work_hits sim (mid, damage, defeat)" "map event_tag damage = take k (submitted inputs)"
    "ch_current_health mid \<noteq> 0 \<longrightarrow> length (submitted inputs) \<le> k"
    by (auto simp: submitted_def)
  have "ch_tick mid = ch_tick sim"
    using w(1) by (simp add: work_hits_def hits_def)
  moreover from this tick have "next_tick = ch_tick sim + 1"
    by (auto simp: checked_add_one split: if_splits)
  moreover from tick have "unat next_tick = unat (ch_tick mid) + 1"
    by (simp add: checked_add_eq_Some)
  ultimately show thesis
    using that [of mid k] w valid out by (simp add: work_hits_def)
qed

lemma step_inv:
  assumes "apply_friendly_damage state inputs sim = (r, sim')" and "caldus_inv sim"
  shows "caldus_inv sim'"
proof (cases r)
  case (Inl e)
  with assms show ?thesis
    by (auto simp: apply_friendly_damage_def split: sum.splits)
next
  case (Inr step)
  with apply_friendly_damage_step assms obtain mid where "hits sim (hs_damage step) mid" "sim' = mid\<lparr>ch_tick := ch_tick sim + 1\<rparr>"
    by metis
  then have "caldus_inv mid" "sim' = mid\<lparr>ch_tick := ch_tick sim + 1\<rparr>" by (simp_all add: hits_def)
  then show ?thesis by (simp add: caldus_inv_def)
qed

text \<open>
  One damage step is exact: the damage events are, in order, a prefix of the submitted intents (all of them
  while the boss survives); the health falls by exactly the damage they dealt and every
  participant's contribution rises by exactly the damage of its own events; the defeat names the last
  event and is reported exactly when this step takes the last health; the tick advances by one.
\<close>

lemma caldus_step_exact:
  assumes "apply_friendly_damage state inputs sim = (Inr step, sim')" and "caldus_inv sim"
  shows "(\<exists>k. map event_tag (hs_damage step) = take k (submitted inputs))
    \<and> (ch_current_health sim' \<noteq> 0 \<longrightarrow> map event_tag (hs_damage step) = submitted inputs)
    \<and> unat (ch_current_health sim') + sum_list (map dealt (hs_damage step)) = unat (ch_current_health sim)
    \<and> (\<forall>k. contribution_of sim' k = map_option (\<lambda>n. n + dealt_by k (hs_damage step)) (contribution_of sim k))
    \<and> hs_defeat step = (if hs_damage step \<noteq> [] \<and> ch_current_health sim' = 0
         then Some (defeat_by sim (last (hs_damage step))) else None)
    \<and> unat (ch_tick sim') = unat (ch_tick sim) + 1"
proof -
  obtain mid k where step: "hits sim (hs_damage step) mid" "sim' = mid\<lparr>ch_tick := ch_tick sim + 1\<rparr>"
    "unat (ch_tick sim') = unat (ch_tick sim) + 1"
    "hs_defeat step = (if hs_damage step \<noteq> [] \<and> ch_current_health mid = 0
       then Some (defeat_by sim (last (hs_damage step))) else None)"
    "map event_tag (hs_damage step) = take k (submitted inputs)"
    "ch_current_health mid \<noteq> 0 \<longrightarrow> length (submitted inputs) \<le> k"
    using apply_friendly_damage_step [OF assms] by metis
  moreover have "contribution_of sim' = contribution_of mid"
    by (simp add: fun_eq_iff step(2) contribution_of_def)
  ultimately show ?thesis
    by (auto simp: hits_def)
qed

section \<open>A whole fight\<close>

fun run_fight ::
  "(core_caldus_state \<times> core_caldus_friendly_input list) list \<Rightarrow> core_caldus_health_simulation
     \<Rightarrow> (core_caldus_health_error + core_caldus_health_step) list \<times> core_caldus_health_simulation" where
  "run_fight [] sim = ([], sim)"
| "run_fight ((state, inputs) # rest) sim =
     (let (r, sim') = apply_friendly_damage state inputs sim; (rs, final) = run_fight rest sim' in (r # rs, final))"

fun fight_events :: "(core_caldus_health_error + core_caldus_health_step) list \<Rightarrow> core_caldus_damage_event list" where
  "fight_events [] = []"
| "fight_events (Inl e # rs) = fight_events rs"
| "fight_events (Inr step # rs) = hs_damage step @ fight_events rs"

fun fight_defeats :: "(core_caldus_health_error + core_caldus_health_step) list \<Rightarrow> core_caldus_defeat list" where
  "fight_defeats [] = []"
| "fight_defeats (Inr step # rs) = (case hs_defeat step of None \<Rightarrow> [] | Some d \<Rightarrow> [d]) @ fight_defeats rs"
| "fight_defeats (Inl e # rs) = fight_defeats rs"

lemma run_fight_hits:
  assumes "run_fight calls sim = (rs, final)" and "caldus_inv sim"
  shows "caldus_inv final \<and> ch_lock final = ch_lock sim
    \<and> unat (ch_current_health final) + sum_list (map dealt (fight_events rs)) = unat (ch_current_health sim)
    \<and> (\<forall>k. contribution_of final k = map_option (\<lambda>n. n + dealt_by k (fight_events rs)) (contribution_of sim k))
    \<and> length (fight_defeats rs) = (if ch_current_health sim \<noteq> 0 \<and> ch_current_health final = 0 then 1 else 0)"
  using assms
proof (induction calls arbitrary: sim rs)
  case Nil
  then show ?case by (simp add: option.map_ident)
next
  case (Cons call calls)
  obtain state inputs where call: "call = (state, inputs)" by (cases call)
  with Cons.prems(1) obtain r mid rest where run: "apply_friendly_damage state inputs sim = (r, mid)"
    "run_fight calls mid = (rest, final)" "rs = r # rest" by (auto split: prod.splits)
  note IH = Cons.IH [OF run(2) step_inv [OF run(1) Cons.prems(2)]]
  show ?case
  proof (cases r)
    case (Inl e)
    with run(1) have "mid = sim"
      by (auto simp: apply_friendly_damage_def split: sum.splits)
    with IH Inl run(3) show ?thesis by simp
  next
    case (Inr step)
    obtain mid' where step: "hits sim (hs_damage step) mid'" "mid = mid'\<lparr>ch_tick := ch_tick sim + 1\<rparr>"
      "hs_defeat step = (if hs_damage step \<noteq> [] \<and> ch_current_health mid' = 0
         then Some (defeat_by sim (last (hs_damage step))) else None)"
      using apply_friendly_damage_step [OF run(1) [unfolded Inr] Cons.prems(2)] by metis
    have "contribution_of mid = contribution_of mid'"
      by (simp add: fun_eq_iff step(2) contribution_of_def)
    then have contributions: "\<forall>k. contribution_of final k
        = map_option (\<lambda>n. n + dealt_by k (fight_events rs)) (contribution_of sim k)"
      using IH step(1) Inr run(3) by (simp add: hits_def option.map_comp comp_def add.assoc)
    have health: "unat (ch_current_health mid) + sum_list (map dealt (hs_damage step)) = unat (ch_current_health sim)"
      using step(1,2) by (simp add: hits_def)
    have "hs_damage step = [] \<Longrightarrow> ch_current_health mid = ch_current_health sim"
      using health by (simp add: word_unat_eq_iff)
    moreover have "ch_current_health sim = 0 \<Longrightarrow> hs_damage step = []"
      using step(1) by (simp add: hits_def)
    moreover have "ch_current_health mid = 0 \<Longrightarrow> ch_current_health final = 0"
      using IH by (auto simp: unat_eq_zero)
    ultimately have "length (fight_defeats rs) = (if ch_current_health sim \<noteq> 0 \<and> ch_current_health final = 0 then 1 else 0)"
      using IH step(2,3) Inr run(3) by (auto split: if_splits)
    then show ?thesis
      using IH contributions health Inr run(3) step(1,2) by (simp add: hits_def)
  qed
qed

lemma fight_books:
  assumes "new_health_at_tick lock boss t = Inr sim" and "run_fight calls sim = (results, final)"
  shows "unat (ch_current_health final) + sum_list (map dealt (fight_events results)) = unat (lock_maximum_health lock)
    \<and> (\<forall>p \<in> set (lock_participants lock).
         contribution_of final (part_entity_id p) = Some (dealt_by (part_entity_id p) (fight_events results)))
    \<and> unat (ch_current_health final) + contributed final = unat (lock_maximum_health lock)
    \<and> length (fight_defeats results) = (if ch_current_health final = 0 then 1 else 0)
    \<and> (ch_defeated final \<longleftrightarrow> ch_current_health final = 0)"
proof -
  note new = caldus_inv_new [OF assms(1)]
  have health: "ch_current_health sim = lock_maximum_health lock" "lock_maximum_health lock \<noteq> 0"
    using assms(1) by (auto simp: new_health_at_tick_def split: if_splits)
  have "contributed sim = 0"
    using new(1,3) health by (simp add: caldus_inv_def)
  then have "contribution_of sim (part_entity_id p) = Some 0" if "p \<in> set (lock_participants lock)" for p
  proof -
    have "part_entity_id p \<in> dom (btree_get (ch_contribution_damage sim))"
      using new(1,3) that by (simp add: caldus_inv_def)
    then obtain v where v: "btree_get (ch_contribution_damage sim) (part_entity_id p) = Some v" by blast
    then have "unat v \<in> set (map unat (btree_values (ch_contribution_damage sim)))"
      using new(1) by (auto simp: caldus_inv_def btree_values_ran ran_def)
    with member_le_sum_list [OF this] \<open>contributed sim = 0\<close> have "unat v = 0" by linarith
    with v show ?thesis by (simp add: contribution_of_def)
  qed
  with run_fight_hits [OF assms(2) new(1)] health new(3) show ?thesis
    by (auto simp: caldus_inv_def)
qed

text \<open>
  C13. The books of a whole fight balance: over any sequence of damage submissions, accepted or refused,
  after a fresh start, the health lost is the total damage of the published events, every locked
  participant is credited with exactly the damage of its own events, the credits and the remaining
  health add up to the locked maximum, and the boss is defeated once, exactly when its health
  reaches zero.
\<close>

theorem caldus_fight_accounting:
  assumes "new_health_at_tick lock boss t = Inr sim" and "run_fight calls sim = (results, final)"
  shows "unat (ch_current_health final) + sum_list (map dealt (fight_events results)) = unat (lock_maximum_health lock)
    \<and> (\<forall>p \<in> set (lock_participants lock).
         contribution_of final (part_entity_id p) = Some (dealt_by (part_entity_id p) (fight_events results)))
    \<and> unat (ch_current_health final) + contributed final = unat (lock_maximum_health lock)
    \<and> length (fight_defeats results) = (if ch_current_health final = 0 then 1 else 0)
    \<and> (ch_defeated final \<longleftrightarrow> ch_current_health final = 0)"
  by (rule fight_books [OF assms])

section \<open>Which submissions are accepted\<close>

text \<open>The state of a loop that checks a strictly increasing key: the last key is the greatest one seen.\<close>

definition loop_keys :: "'k::linorder option \<times> 'k set \<Rightarrow> bool" where
  "loop_keys state \<longleftrightarrow> (case fst state of None \<Rightarrow> snd state = {} | Some p \<Rightarrow> p \<in> snd state \<and> (\<forall>k \<in> snd state. k \<le> p))"

definition intent_ok :: "combat_step \<Rightarrow> entity_id \<Rightarrow> raw_damage_intent \<Rightarrow> bool" where
  "intent_ok combat target intent \<longleftrightarrow>
     int_tick intent = cs_tick combat \<and> int_target intent = target \<and> provenance_count combat target intent = 1"

lemma intent_loop:
  assumes "loop_keys state"
  shows "(\<exists>state'. try_fold (validate_friendly_intent combat target) intents state = Inr state') \<longleftrightarrow>
    (\<forall>i \<in> set intents. intent_ok combat target i) \<and> sorted_wrt (<) (map intent_key intents)
    \<and> (\<forall>i \<in> set intents. case fst state of None \<Rightarrow> True | Some p \<Rightarrow> p < intent_key i)"
  using assms
proof (induction intents arbitrary: state)
  case (Cons i intents)
  obtain previous seen where state: "state = (previous, seen)" by (cases state)
  have fresh: "(\<not> is_some_and previous (\<lambda>prior. intent_key i < prior) \<and> intent_key i \<notin> seen) \<longleftrightarrow>
      (case previous of None \<Rightarrow> True | Some p \<Rightarrow> p < intent_key i)"
  proof (cases previous)
    case None
    with Cons.prems show ?thesis by (simp add: state loop_keys_def is_some_and_def)
  next
    case (Some p)
    with Cons.prems have "p \<in> seen" "\<forall>k \<in> seen. k \<le> p"
      by (simp_all add: state loop_keys_def)
    with Some show ?thesis
      by (cases "intent_key i" p rule: linorder_cases) (auto simp: is_some_and_def dest: leD order.asym)
  qed
  have step: "validate_friendly_intent combat target i (previous, seen) = Inr state' \<longleftrightarrow>
      intent_ok combat target i \<and> (case previous of None \<Rightarrow> True | Some p \<Rightarrow> p < intent_key i)
      \<and> state' = (Some (intent_key i), insert (intent_key i) seen)" for state'
    unfolding fresh [symmetric] by (auto simp: validate_friendly_intent_def intent_ok_def Let_def)
  show ?case
  proof (cases "intent_ok combat target i \<and> (case previous of None \<Rightarrow> True | Some p \<Rightarrow> p < intent_key i)")
    case True
    have "\<forall>k \<in> seen. k \<le> intent_key i"
    proof (cases previous)
      case None
      with Cons.prems show ?thesis by (simp add: state loop_keys_def)
    next
      case (Some p)
      with Cons.prems True have "\<forall>k \<in> seen. k \<le> p" "p < intent_key i"
        by (simp_all add: state loop_keys_def)
      then show ?thesis by (meson order.strict_implies_order order.trans)
    qed
    then have keys: "loop_keys (Some (intent_key i), insert (intent_key i) seen)"
      by (simp add: loop_keys_def)
    have "case previous of None \<Rightarrow> True | Some p \<Rightarrow> p < intent_key x" if "intent_key i < intent_key x" for x
      using True that by (cases previous) (simp, simp, meson order.strict_trans)
    with Cons.IH [OF keys] True show ?thesis
      by (auto simp: step state split: option.splits)
  next
    case False
    then have "\<not> (\<exists>state'. validate_friendly_intent combat target i (previous, seen) = Inr state')"
      unfolding step by blast
    with False show ?thesis
      by (auto simp: state)
  qed
qed simp

definition intents_ok :: "combat_step \<Rightarrow> entity_id \<Rightarrow> bool" where
  "intents_ok combat target \<longleftrightarrow>
     (\<forall>i \<in> set (cs_raw_damage_intents combat). intent_ok combat target i)
     \<and> sorted_wrt (<) (map intent_key (cs_raw_damage_intents combat))"

lemma validate_friendly_intents_iff: "validate_friendly_intents combat target = Inr () \<longleftrightarrow> intents_ok combat target"
  using intent_loop [of "(None, {})" combat target "cs_raw_damage_intents combat"]
  by (auto simp: validate_friendly_intents_def intents_ok_def loop_keys_def)

definition input_ok ::
  "core_boss_participant_lock \<Rightarrow> entity_id \<Rightarrow> tick \<Rightarrow> core_caldus_friendly_input \<Rightarrow> bool" where
  "input_ok lock boss t input \<longleftrightarrow>
     fi_participant input \<in> set (lock_participants lock) \<and> cs_tick (fi_combat input) = t
     \<and> intents_ok (fi_combat input) boss"

abbreviation input_key :: "core_caldus_friendly_input \<Rightarrow> u8 \<times> entity_id" where
  "input_key input \<equiv> participant_key (fi_participant input)"

abbreviation input_entity :: "core_caldus_friendly_input \<Rightarrow> entity_id" where
  "input_entity input \<equiv> part_entity_id (fi_participant input)"

lemma input_loop:
  "(\<exists>state'. try_fold (validate_input lock boss t) inputs (previous, seen) = Inr state') \<longleftrightarrow>
    (\<forall>i \<in> set inputs. input_ok lock boss t i) \<and> sorted_wrt (<) (map input_key inputs)
    \<and> (\<forall>i \<in> set inputs. case previous of None \<Rightarrow> True | Some p \<Rightarrow> p < input_key i)
    \<and> distinct (map input_entity inputs) \<and> input_entity ` set inputs \<inter> seen = {}"
proof (induction inputs arbitrary: previous seen)
  case (Cons i inputs)
  have step: "validate_input lock boss t i (previous, seen) = Inr state' \<longleftrightarrow>
      input_ok lock boss t i \<and> (case previous of None \<Rightarrow> True | Some p \<Rightarrow> p < input_key i)
      \<and> input_entity i \<notin> seen \<and> state' = (Some (input_key i), insert (input_entity i) seen)" for state'
    by (auto simp: validate_input_def input_ok_def Let_def is_some_and_def validate_friendly_intents_iff
        [symmetric] split: option.splits)
  show ?case
  proof (cases "input_ok lock boss t i \<and> (case previous of None \<Rightarrow> True | Some p \<Rightarrow> p < input_key i)
      \<and> input_entity i \<notin> seen")
    case True
    have "case previous of None \<Rightarrow> True | Some p \<Rightarrow> p < input_key x" if "input_key i < input_key x" for x
      using True that by (cases previous) (simp, simp, meson order.strict_trans)
    with True Cons.IH [of "Some (input_key i)" "insert (input_entity i) seen"] show ?thesis
      by (auto simp: step split: option.splits)
  next
    case False
    then have "\<not> (\<exists>state'. validate_input lock boss t i (previous, seen) = Inr state')"
      unfolding step by blast
    with False show ?thesis by auto
  qed
qed simp

text \<open>
  A submission passes validation exactly when its participants are in the lock, strictly ordered by slot
  and identifier and pairwise different, report the current tick, and carry intents that are strictly
  ordered by projectile and contact, aim at the boss in this tick, and are each backed by exactly
  one collision of the same kind or one trap trigger with the same damage.
\<close>

lemma validate_inputs_exact:
  "validate_inputs lock boss t inputs = Inr () \<longleftrightarrow>
     (\<forall>i \<in> set inputs. input_ok lock boss t i) \<and> sorted_wrt (<) (map input_key inputs)
     \<and> distinct (map input_entity inputs)"
  using input_loop [of lock boss t inputs None "{}"] by (auto simp: validate_inputs_def)

section \<open>Accepted submissions succeed\<close>

lemma multiply_half_up_eq:
  assumes "(unat v * unat bp + 5000) div 10000 < 2 ^ 32"
  shows "multiply_half_up v bp = Inr (of_nat ((unat v * unat bp + 5000) div 10000))"
proof -
  have small: "unat v * unat bp + 5000 < 2 ^ 64"
    using assms by (simp add: div_less_iff_less_mult)
  define p :: u64 where "p = of_nat (unat v * unat bp)"
  have p: "unat p = unat v * unat bp"
    unfolding p_def using small by (intro unat_of_nat_bounded) simp
  define q :: u64 where "q = of_nat (unat v * unat bp + 5000)"
  have q: "unat q = unat v * unat bp + 5000"
    unfolding q_def using small by (intro unat_of_nat_bounded) simp
  have "checked_mul (ucast v :: u64) (ucast bp) = Some p"
    using p by (simp add: checked_mul_eq_Some)
  moreover have "checked_add p 5000 = Some q"
    using p q by (simp add: checked_add_eq_Some)
  moreover have "try_from_word (q div 10000) = Some (of_nat ((unat v * unat bp + 5000) div 10000) :: u32)"
    using assms q by (simp add: try_from_word_eq_Some unat_div)
  ultimately show ?thesis
    by (simp add: multiply_half_up_def)
qed

text \<open>An intent in the range of the authored damage: far below every overflow of the pipeline.\<close>

definition ordinary_intent :: "entity_id \<Rightarrow> core_caldus_friendly_input \<Rightarrow> raw_damage_intent \<Rightarrow> bool" where
  "ordinary_intent boss input intent \<longleftrightarrow>
     int_projectile_id intent \<noteq> boss \<and> int_resolved_raw_damage intent \<noteq> 0
     \<and> unat (int_resolved_raw_damage intent) < 2 ^ 31
     \<and> cs_attacker_multiplier_basis_points (fi_combat input) \<noteq> 0
     \<and> 2 * unat (int_resolved_raw_damage intent) * unat (cs_attacker_multiplier_basis_points (fi_combat input)) < 2 ^ 44"

lemma scaled_raw_damage:
  assumes "v \<noteq> 0" and "unat v < 2 ^ 31" and "factor = 10000 \<or> factor = 12500"
  obtains raw where "multiply_half_up v factor = Inr raw" and "raw \<noteq> 0" and "unat raw \<le> 2 * unat v"
proof -
  have factor: "10000 \<le> unat factor" "unat factor \<le> 12500"
    using assms(3) by auto
  have "1 \<le> unat v"
    using assms(1) by (simp add: unat_eq_zero Suc_le_eq word_neq_0_conv [symmetric] flip: unat_gt_0)
  then have le: "unat v * unat factor + 5000 \<le> (2 * unat v) * 10000"
    using mult_le_mono2 [OF factor(2), of "unat v"] by linarith
  then have bound: "(unat v * unat factor + 5000) div 10000 \<le> 2 * unat v"
    by (metis div_le_mono div_mult_self_is_m zero_less_numeral)
  have "10000 \<le> unat v * unat factor"
    using mult_le_mono [OF \<open>1 \<le> unat v\<close> factor(1)] by simp
  then have "0 < (unat v * unat factor + 5000) div 10000"
    by (simp add: div_greater_zero_iff)
  moreover have small: "(unat v * unat factor + 5000) div 10000 < 2 ^ 32"
    using bound assms(2) by simp
  ultimately show thesis
    using multiply_half_up_eq [OF small] bound
    by (intro that [of "of_nat ((unat v * unat factor + 5000) div 10000)"])
      (simp_all add: unat_eq_zero [symmetric])
qed

lemma apply_intent_total:
  assumes inv: "caldus_inv sim" and alive: "ch_current_health sim \<noteq> 0"
    and member: "fi_participant input \<in> set (lock_participants (ch_lock sim))"
    and ordinary: "ordinary_intent (ch_entity_id sim) input intent"
    and factor: "factor = 10000 \<or> factor = 12500"
  shows "\<exists>work. apply_intent factor input intent (sim, damage, defeat) = Inr work"
proof -
  obtain raw where raw: "multiply_half_up (int_resolved_raw_damage intent) factor = Inr raw"
    "raw \<noteq> 0" "unat raw \<le> 2 * unat (int_resolved_raw_damage intent)"
    using scaled_raw_damage ordinary factor unfolding ordinary_intent_def by metis
  have "unat (ch_current_health sim) \<le> unat (lock_maximum_health (ch_lock sim))"
    using inv unfolding caldus_inv_def by linarith
  then have request: "new_direct_hit_request (hit_parameters sim input intent raw)
      = Inr (DirectHitRequest (hit_parameters sim input intent raw))"
    using raw(2) ordinary inv alive
    by (simp add: new_direct_hit_request_def hit_parameters_def ordinary_intent_def caldus_inv_def word_le_nat_alt not_less)
  have "unat raw * unat (cs_attacker_multiplier_basis_points (fi_combat input)) < 2 ^ 44"
    using mult_le_mono1 [OF raw(3)] ordinary unfolding ordinary_intent_def by (meson le_less_trans)
  then obtain resolved where resolved: "resolve_direct_hit (DirectHitRequest (hit_parameters sim input intent raw)) = Inr resolved"
    using resolve_direct_hit_succeeds [OF request] by (auto simp: hit_parameters_def)
  have "part_entity_id (fi_participant input) \<in> dom (btree_get (ch_contribution_damage sim))"
    using inv member by (simp add: caldus_inv_def)
  then obtain old where old: "btree_get (ch_contribution_damage sim) (part_entity_id (fi_participant input)) = Some old"
    by blast
  have "unat old + unat (health_damage_applied resolved) < 2 ^ 64"
    using contribution_le [OF inv old] unat_bound [of "lock_maximum_health (ch_lock sim)"]
      unat_bound [of "health_damage_applied resolved"] by simp
  then obtain new where "checked_add old (ucast (health_damage_applied resolved)) = Some new"
    using checked_add_eq_None [of old "ucast (health_damage_applied resolved)"]
    by (cases "checked_add old (ucast (health_damage_applied resolved))") auto
  with raw(1) request resolved old show ?thesis
    by (simp add: apply_intent_def Let_def)
qed

lemma strike_total:
  assumes "caldus_inv sim" and "factor = 10000 \<or> factor = 12500"
    and "\<forall>(input, intent) \<in> set ps. fi_participant input \<in> set (lock_participants (ch_lock sim))
      \<and> ordinary_intent (ch_entity_id sim) input intent"
  shows "\<exists>work. strike factor ps (sim, damage, defeat) = Inr work"
  using assms
proof (induction ps arbitrary: sim damage defeat)
  case (Cons p ps)
  obtain input intent where p: "p = (input, intent)" by (cases p)
  show ?case
  proof (cases "ch_current_health sim = 0")
    case False
    with Cons.prems p obtain mid where mid: "apply_intent factor input intent (sim, damage, defeat) = Inr mid"
      using apply_intent_total [of sim input intent factor damage defeat] by auto
    obtain event sim' where "hits sim [event] sim'" "fst mid = sim'"
      using apply_intent_hits [OF mid Cons.prems(1) False] by auto
    then have "\<exists>work. strike factor ps (sim', fst (snd mid), snd (snd mid)) = Inr work"
      using Cons.IH [of sim' "fst (snd mid)" "snd (snd mid)"] Cons.prems(2,3) by (auto simp: hits_def)
    with mid p False \<open>fst mid = sim'\<close> show ?thesis
      by (cases mid) auto
  qed (simp add: p)
qed simp

text \<open>
  A validated submission of ordinary damage always goes through: while the boss lives (or nothing is
  submitted) and the tick can advance, no arithmetic, lookup or pipeline error can occur.
\<close>

lemma caldus_step_total:
  assumes "caldus_inv sim" and "ch_tick sim \<noteq> - 1"
    and "validate_inputs (ch_lock sim) (ch_entity_id sim) (ch_tick sim) inputs = Inr ()"
    and "ch_defeated sim \<longrightarrow> flattened inputs = []"
    and "\<forall>(input, intent) \<in> set (flattened inputs). ordinary_intent (ch_entity_id sim) input intent"
  shows "\<exists>step sim'. apply_friendly_damage state inputs sim = (Inr step, sim')"
proof -
  define factor where "factor = (case state of Break entering ends_at \<Rightarrow> CALDUS_BREAK_DAMAGE_BASIS_POINTS | _ \<Rightarrow> 10000)"
  have factor: "factor = 10000 \<or> factor = 12500"
    by (cases state) (simp_all add: factor_def CALDUS_BREAK_DAMAGE_BASIS_POINTS_def)
  have "fi_participant input \<in> set (lock_participants (ch_lock sim))" if "(input, intent) \<in> set (flattened inputs)" for input intent
    using that assms(3) by (auto simp: flattened_def validate_inputs_exact input_ok_def)
  with strike_total [OF assms(1) factor, of "flattened inputs" "[]" None] assms(5)
  obtain work where work: "strike factor (flattened inputs) (sim, [], None) = Inr work"
    by blast
  obtain mid damage defeat where w: "work = (mid, damage, defeat)" by (cases work)
  have "work_hits sim work"
    using strike_hits [OF work] assms(1) by (auto simp: work_hits_def hits_refl)
  then have "checked_add (ch_tick mid) 1 = Some (ch_tick mid + 1)"
    using assms(2) by (simp add: w work_hits_def hits_def checked_add_one)
  moreover have "\<not> (ch_defeated sim \<and> list_ex (\<lambda>input. cs_raw_damage_intents (fi_combat input) \<noteq> []) inputs)"
    using assms(4) by (auto simp: flattened_def list_ex_iff)
  ultimately show ?thesis
    using work assms(3) unfolding apply_friendly_damage_def apply_friendly_damage_inner_def both_loops
    by (simp add: w factor_def [symmetric])
qed

text \<open>The hurtbox exists exactly while the boss lives; its radius is never refused.\<close>

lemma hurtbox_exact:
  "caldus_inv sim \<Longrightarrow> hurtbox sim centre =
     (if ch_current_health sim = 0 then Inr None
      else if vector_is_finite centre
      then Inr (Some \<lparr>hurt_id = ch_entity_id sim, hurt_center = centre,
                   hurt_radius_tiles = CALDUS_HURTBOX_RADIUS_TILES\<rparr>)
      else Inl (Hurtbox (NonFiniteCenter (ch_entity_id sim))))"
  by (simp add: hurtbox_def new_enemy_hurtbox_def caldus_inv_def f32_is_finite_def f32_not_positive_def
      CALDUS_HURTBOX_RADIUS_TILES_def)

section \<open>A concrete fight\<close>

definition sample_fighter :: core_boss_participant where
  "sample_fighter = \<lparr>part_entity_id = EntityId 9, part_party_slot = 2\<rparr>"

definition sample_roster :: core_boss_participant_lock where
  "sample_roster = \<lparr>lock_attempt_ordinal = 1, lock_participants = [sample_fighter], lock_maximum_health = 7200\<rparr>"

definition sample_intent :: raw_damage_intent where
  "sample_intent = \<lparr>int_tick = 7, int_projectile_id = EntityId 77, int_source = Primary, int_target = EntityId 50,
     int_base_raw_damage = 40, int_multiplier_basis_points = 10000, int_resolved_raw_damage = 40,
     int_contact_ordinal = 0\<rparr>"

definition sample_combat :: combat_step where
  "sample_combat = \<lparr>cs_tick = 7,
     cs_collisions = [\<lparr>col_tick = 7, col_projectile_id = EntityId 77, col_source = PrimaryShot,
       col_target = Enemy (EntityId 50), col_final_position = \<lparr>vec_x = 0x40A00000, vec_y = 0x40E00000\<rparr>,
       col_distance_travelled_tiles = 0x40000000, col_contact_ordinal = 0, col_empowered_by_slipstep = False,
       col_focused_by_stillness = False, col_projectile_continues = False\<rparr>],
     cs_raw_damage_intents = [sample_intent], cs_attacker_multiplier_basis_points = 10000,
     cs_nail_traps = \<lparr>traps_spawned = [], traps_armed = [], trap_triggers = [], trap_removals = []\<rparr>\<rparr>"

definition sample_submission :: core_caldus_friendly_input where
  "sample_submission = \<lparr>fi_participant = sample_fighter, fi_combat = sample_combat\<rparr>"

definition sample_boss :: core_caldus_health_simulation where
  "sample_boss = \<lparr>ch_lock = sample_roster, ch_entity_id = EntityId 50, ch_current_health = 7200, ch_tick = 7,
     ch_defeated = False, ch_contribution_damage = [(EntityId 9, 0)]\<rparr>"

lemma sample_boss_new: "new_health_at_tick sample_roster (EntityId 50) 7 = Inr sample_boss"
  by (simp add: new_health_at_tick_def sample_roster_def sample_boss_def sample_fighter_def)

lemma sample_submission_valid:
  "validate_inputs (ch_lock sample_boss) (ch_entity_id sample_boss) (ch_tick sample_boss) [sample_submission] = Inr ()"
  by (simp add: validate_inputs_def validate_input_def sample_submission_def sample_boss_def sample_roster_def
      is_some_and_def sample_combat_def validate_friendly_intents_def validate_friendly_intent_def
      sample_intent_def intent_key_def provenance_count_def collision_matches_def Let_def)

lemma sample_step:
  "\<exists>step sim'. apply_friendly_damage (Break Phase2 400) [sample_submission] sample_boss = (Inr step, sim')
     \<and> ch_current_health sim' = 7160"
  using sample_submission_valid
  by (simp add: apply_friendly_damage_def apply_friendly_damage_inner_def sample_submission_def sample_combat_def
      sample_intent_def sample_boss_def sample_roster_def sample_fighter_def apply_intent_def multiply_half_up_def
      CALDUS_BREAK_DAMAGE_BASIS_POINTS_def hit_parameters_def new_direct_hit_request_def resolve_direct_hit_def
      checked_mul_def clamp_resistance_def ORDINARY_RESISTANCE_CAP_BASIS_POINTS_def resistance_factor_def
      BASIS_POINTS_PER_ONE_def multiply_fixed_def ARMOR_MAX_REDUCTION_BASIS_POINTS_def checked_sub_def
      round_positive_damage_half_up_def checked_add_def try_from_word_def resolve_health_damage_cap_def
      CALDUS_ARMOR_def Let_def btree_get_def)

theorem caldus_fight_accounting_witness:
  "\<exists>results final. run_fight [(Break Phase2 400, [sample_submission]), (CaldusDefeated, [sample_submission])] sample_boss = (results, final)
     \<and> unat (ch_current_health final) + sum_list (map dealt (fight_events results)) = 7200
     \<and> contribution_of final (EntityId 9) = Some (dealt_by (EntityId 9) (fight_events results))"
proof -
  obtain results final where
    run: "run_fight [(Break Phase2 400, [sample_submission]), (CaldusDefeated, [sample_submission])] sample_boss = (results, final)"
    by (rule prod.exhaust)
  from caldus_fight_accounting [OF sample_boss_new run] run show ?thesis
    by (simp add: sample_roster_def sample_fighter_def)
qed

end
