(* ===== verification/Caldus_Patterns.thy ===== *)
theory Caldus_Patterns
  imports Caldus_Health
begin

text \<open>
  The phase and pattern scheduler of Sir Caldus (\<open>sim_core/src/core_caldus.rs\<close>): three phases entered at
  health thresholds through an invulnerability break, an attack loop per phase, scheduled shields,
  charges and bell rings. One \<open>advance\<close> per tick; a failing step leaves the simulation as it was
  because the source works on a clone. Operations that mutate the simulation and append events
  pass the pair of both. \<open>Panic\<close> stands for an index out of range and for \<open>unreachable!\<close>.
\<close>

section \<open>Data\<close>

definition CALDUS_PHASE_BREAK_TICKS :: u64 where
  "CALDUS_PHASE_BREAK_TICKS = 120"

definition CALDUS_SOFT_ENRAGE_TICKS :: u64 where
  "CALDUS_SOFT_ENRAGE_TICKS = 10800"

definition CALDUS_SHIELD_WARNING_TICKS :: u64 where
  "CALDUS_SHIELD_WARNING_TICKS = 20"

definition CALDUS_RING_WARNING_TICKS :: u64 where
  "CALDUS_RING_WARNING_TICKS = 24"

definition CALDUS_PHASE_ONE_LOOP_TICKS :: u64 where
  "CALDUS_PHASE_ONE_LOOP_TICKS = 234"

definition CALDUS_PHASE_TWO_LOOP_TICKS :: u64 where
  "CALDUS_PHASE_TWO_LOOP_TICKS = 450"

definition CALDUS_PHASE_THREE_LOOP_TICKS :: u64 where
  "CALDUS_PHASE_THREE_LOOP_TICKS = 240"

record core_caldus_target_input =
  tgt_participant :: core_boss_participant
  tgt_position_x_milli_tiles :: i32
  tgt_position_y_milli_tiles :: i32
  tgt_squared_distance_to_boss :: u64

record core_caldus_input =
  ci_tick :: tick
  ci_current_health :: u32
  ci_living_targets :: "core_caldus_target_input list"

datatype core_caldus_event =
    PhaseTimelineCancelled tick core_caldus_phase
  | HostilesCleared tick
  | BreakStarted tick core_caldus_phase tick u16
  | PhaseStarted tick core_caldus_phase
  | SoftEnrageStarted tick u64
  | LoopRestarted tick core_caldus_phase u64 bool bool
  | ShieldTelegraph tick u64 core_boss_participant i32 i32 tick
  | ShieldFired tick u64 core_boss_participant i32 i32
  | BellRingTelegraph tick u64 u8 tick
  | BellRingPreview tick u64 u8 u8 tick
  | BellRingFired tick u64 u8 bool
  | ChargeTelegraph tick u64 core_boss_participant i32 i32 tick
  | ChargeDirectionLocked tick u64 core_boss_participant i32 i32
  | ChargeMovementStarted tick u64
  | ChargeEnded tick u64
  | ChargeStopRingFired tick u64
  | BossDefeated tick

record scheduled_shield =
  sh_cast_id :: u64
  sh_target :: core_boss_participant
  sh_target_x_milli_tiles :: i32
  sh_target_y_milli_tiles :: i32
  sh_telegraph_at :: tick
  sh_fires_at :: tick

record scheduled_charge =
  sc_cast_id :: u64
  sc_target :: "core_caldus_target_input option"
  sc_direction_locks_at :: tick
  sc_movement_starts_at :: tick
  sc_ends_at :: tick

record previewed_ring =
  ring_cast_id :: u64
  ring_gap_start_index :: u8
  ring_fires_at :: tick

record core_caldus_simulation =
  cp_lock :: core_boss_participant_lock
  cp_tick :: tick
  cp_local_tick :: u64
  cp_current_health :: u32
  cp_state :: core_caldus_state
  cp_next_cast_id :: u64
  cp_ordinary_gap_start :: u8
  cp_shield_cursor :: nat
  cp_scheduled_shields :: "scheduled_shield list"
  cp_scheduled_charges :: "scheduled_charge list"
  cp_previewed_rings :: "previewed_ring list"
  cp_soft_enraged :: bool

datatype core_caldus_error =
    CaldusTickMismatch tick tick
  | InvalidCaldusLock
  | InvalidTargetSet
  | HealthIncreased
  | DefeatedBossAdvanced
  | CastIdOverflow
  | CaldusTickOverflow
  | CaldusArithmeticOverflow

datatype caldus_failure = Failed core_caldus_error | Panic

type_synonym pattern_work = "core_caldus_simulation \<times> core_caldus_event list"

type_synonym target_map = "(u8, core_caldus_target_input) btree_map"

section \<open>Helpers\<close>

definition validate_participant ::
  "core_boss_participant \<Rightarrow> u8 set \<times> entity_id set \<Rightarrow> core_caldus_error + u8 set \<times> entity_id set" where
  "validate_participant p state =
     (case state of (slots, entities) \<Rightarrow>
       if part_party_slot p \<ge> 8 \<or> part_party_slot p \<in> slots \<or> part_entity_id p \<in> entities
       then Inl InvalidCaldusLock
       else Inr (insert (part_party_slot p) slots, insert (part_entity_id p) entities))"

definition validate_lock :: "core_boss_participant_lock \<Rightarrow> core_caldus_error + unit" where
  "validate_lock lock =
     (if lock_participants lock = [] \<or> length (lock_participants lock) > 8 \<or> lock_attempt_ordinal lock = 0
      then Inl InvalidCaldusLock
      else and_then (try_fold validate_participant (lock_participants lock) ({}, {})) (\<lambda>_.
        if \<not> windows2_all (\<lambda>p q. participant_key p < participant_key q) (lock_participants lock)
        then Inl InvalidCaldusLock else Inr ()))"

definition validate_target ::
  "core_boss_participant_lock \<Rightarrow> core_caldus_target_input \<Rightarrow> target_map \<times> entity_id set
     \<Rightarrow> core_caldus_error + target_map \<times> entity_id set" where
  "validate_target lock target state =
     (case state of (by_slot, entities) \<Rightarrow>
       let p = tgt_participant target in
       if participant_key p \<notin> participant_key ` set (lock_participants lock)
          \<or> part_entity_id p \<in> entities \<or> btree_get by_slot (part_party_slot p) \<noteq> None
       then Inl InvalidTargetSet
       else Inr (btree_insert (part_party_slot p) target by_slot, insert (part_entity_id p) entities))"

definition validate_targets ::
  "core_boss_participant_lock \<Rightarrow> core_caldus_target_input list \<Rightarrow> core_caldus_error + target_map" where
  "validate_targets lock targets =
     and_then (try_fold (validate_target lock) targets ([], {})) (\<lambda>(by_slot, _). Inr by_slot)"

definition target_key :: "core_caldus_target_input \<Rightarrow> u64 \<times> u8 \<times> entity_id" where
  "target_key target = (tgt_squared_distance_to_boss target, part_party_slot (tgt_participant target),
     part_entity_id (tgt_participant target))"

text \<open>\<open>Iterator::min_by_key\<close>: the first of the least elements.\<close>

fun min_by_key :: "('a \<Rightarrow> 'k::linorder) \<Rightarrow> 'a list \<Rightarrow> 'a option" where
  "min_by_key f [] = None"
| "min_by_key f (x # xs) =
     (case min_by_key f xs of None \<Rightarrow> Some x | Some y \<Rightarrow> Some (if f y < f x then y else x))"

definition nearest_target :: "target_map \<Rightarrow> core_caldus_target_input option" where
  "nearest_target targets = min_by_key target_key (btree_values targets)"

definition threshold_reached :: "u32 \<Rightarrow> u32 \<Rightarrow> u32 \<Rightarrow> bool" where
  "threshold_reached health maximum percent \<longleftrightarrow>
     (ucast health :: u64) * 100 \<le> ucast maximum * ucast percent"

fun base_loop_length :: "core_caldus_phase \<Rightarrow> u64" where
  "base_loop_length Phase1 = CALDUS_PHASE_ONE_LOOP_TICKS"
| "base_loop_length Phase2 = CALDUS_PHASE_TWO_LOOP_TICKS"
| "base_loop_length Phase3 = CALDUS_PHASE_THREE_LOOP_TICKS"

definition resolved_loop_length :: "core_caldus_phase \<Rightarrow> u32 \<Rightarrow> u32 \<Rightarrow> bool \<Rightarrow> u64" where
  "resolved_loop_length phase health maximum soft_enraged =
     (let ordinary = (case phase of
          Phase1 \<Rightarrow> if soft_enraged then 230 else 234
        | Phase2 \<Rightarrow> if soft_enraged then 443 else 450
        | Phase3 \<Rightarrow> if soft_enraged then 234 else 240)
      in if phase = Phase3 \<and> threshold_reached health maximum 20 then 216 else ordinary)"

fun current_phase :: "core_caldus_state \<Rightarrow> core_caldus_phase option" where
  "current_phase (Active phase phase_tick loop_tick loop_length) = Some phase"
| "current_phase (Break entering ends_at) = Some entering"
| "current_phase CaldusDefeated = None"

definition pattern_add_ticks :: "tick \<Rightarrow> u64 \<Rightarrow> caldus_failure + tick" where
  "pattern_add_ticks t n = ok_or (checked_add t n) (Failed CaldusTickOverflow)"

definition new_pattern_at_tick ::
  "core_boss_participant_lock \<Rightarrow> tick \<Rightarrow> core_caldus_error + core_caldus_simulation" where
  "new_pattern_at_tick lock start_tick =
     and_then (validate_lock lock) (\<lambda>_. Inr
       \<lparr>cp_lock = lock, cp_tick = start_tick, cp_local_tick = 0, cp_current_health = lock_maximum_health lock,
        cp_state = Active Phase1 0 0 CALDUS_PHASE_ONE_LOOP_TICKS, cp_next_cast_id = 1,
        cp_ordinary_gap_start = 0, cp_shield_cursor = 0, cp_scheduled_shields = [],
        cp_scheduled_charges = [], cp_previewed_rings = [], cp_soft_enraged = False\<rparr>)"

section \<open>Scheduling\<close>

definition allocate_cast_id :: "core_caldus_simulation \<Rightarrow> caldus_failure + u64 \<times> core_caldus_simulation" where
  "allocate_cast_id sim =
     and_then (ok_or (checked_add (cp_next_cast_id sim) 1) (Failed CastIdOverflow)) (\<lambda>next.
       Inr (cp_next_cast_id sim, sim\<lparr>cp_next_cast_id := next\<rparr>))"

definition consume_gap :: "core_caldus_simulation \<Rightarrow> u8 \<times> core_caldus_simulation" where
  "consume_gap sim =
     (cp_ordinary_gap_start sim, sim\<lparr>cp_ordinary_gap_start := (cp_ordinary_gap_start sim + 5) mod 18\<rparr>)"

definition increment_global_tick :: "core_caldus_simulation \<Rightarrow> caldus_failure + core_caldus_simulation" where
  "increment_global_tick sim =
     and_then (pattern_add_ticks (cp_tick sim) 1) (\<lambda>t. Inr (sim\<lparr>cp_tick := t\<rparr>))"

definition cancel_timeline :: "core_caldus_phase option \<Rightarrow> pattern_work \<Rightarrow> pattern_work" where
  "cancel_timeline phase work =
     (case work of (sim, events) \<Rightarrow>
       let sim' = sim\<lparr>cp_scheduled_shields := [], cp_scheduled_charges := [], cp_previewed_rings := []\<rparr> in
       (sim', case phase of None \<Rightarrow> events
              | Some leaving \<Rightarrow> events @ [PhaseTimelineCancelled (cp_tick sim) leaving,
                                         HostilesCleared (cp_tick sim)]))"

definition start_phase :: "core_caldus_phase \<Rightarrow> pattern_work \<Rightarrow> pattern_work" where
  "start_phase phase work =
     (case work of (sim, events) \<Rightarrow>
       (sim\<lparr>cp_state := Active phase 0 0 (base_loop_length phase)\<rparr>, events @ [PhaseStarted (cp_tick sim) phase]))"

definition phase_to_enter :: "core_caldus_simulation \<Rightarrow> core_caldus_phase \<Rightarrow> core_caldus_phase option" where
  "phase_to_enter sim phase =
     (let reached = threshold_reached (cp_current_health sim) (lock_maximum_health (cp_lock sim)) in
      if phase = Phase1 \<and> reached 70 then Some Phase2
      else if phase = Phase2 \<and> reached 35 then Some Phase3
      else None)"

definition maybe_start_phase_break :: "pattern_work \<Rightarrow> caldus_failure + bool \<times> pattern_work" where
  "maybe_start_phase_break work =
     (case cp_state (fst work) of
        Active phase phase_tick loop_tick loop_length \<Rightarrow>
          (case phase_to_enter (fst work) phase of
             None \<Rightarrow> Inr (False, work)
           | Some entering \<Rightarrow>
               (case cancel_timeline (Some phase) work of (sim, events) \<Rightarrow>
                 and_then (pattern_add_ticks (cp_tick sim) CALDUS_PHASE_BREAK_TICKS) (\<lambda>ends_at.
                   Inr (True, sim\<lparr>cp_state := Break entering ends_at\<rparr>,
                        events @ [BreakStarted (cp_tick sim) entering ends_at 12500]))))
      | _ \<Rightarrow> Inr (False, work))"

fun scan_targets ::
  "core_caldus_simulation \<Rightarrow> target_map \<Rightarrow> nat \<Rightarrow> nat list \<Rightarrow> core_caldus_target_input list
     \<Rightarrow> core_caldus_target_input list" where
  "scan_targets sim targets target_count [] selected = selected"
| "scan_targets sim targets target_count (offset # offsets) selected =
     (let participants = lock_participants (cp_lock sim);
          participant = participants ! ((cp_shield_cursor sim + offset) mod length participants)
      in case btree_get targets (part_party_slot participant) of
           None \<Rightarrow> scan_targets sim targets target_count offsets selected
         | Some target \<Rightarrow>
             if length (selected @ [target]) = target_count then selected @ [target]
             else scan_targets sim targets target_count offsets (selected @ [target]))"

definition shield_target_count :: "nat \<Rightarrow> nat" where
  "shield_target_count locked_count = (if locked_count \<ge> 7 then 3 else if locked_count \<ge> 4 then 2 else 1)"

definition select_shield_targets ::
  "target_map \<Rightarrow> core_caldus_simulation \<Rightarrow> core_caldus_target_input list \<times> core_caldus_simulation" where
  "select_shield_targets targets sim =
     (let participants = lock_participants (cp_lock sim);
          target_count = shield_target_count (length participants) in
      if target_count = 1
      then (case nearest_target targets of None \<Rightarrow> [] | Some target \<Rightarrow> [target], sim)
      else let selected = scan_targets sim targets target_count [0..<length participants] [] in
        if selected = [] then (selected, sim)
        else case position (\<lambda>p. p = tgt_participant (last selected)) participants of
               None \<Rightarrow> (selected, sim)
             | Some index \<Rightarrow> (selected, sim\<lparr>cp_shield_cursor := (index + 1) mod length participants\<rparr>))"

definition push_shield ::
  "nat \<times> core_caldus_target_input \<Rightarrow> core_caldus_simulation \<Rightarrow> caldus_failure + core_caldus_simulation" where
  "push_shield entry sim =
     (case entry of (ordinal, target) \<Rightarrow>
     and_then (ok_or (try_from_usize ordinal) (Failed CaldusArithmeticOverflow)) (\<lambda>n.
     and_then (ok_or (checked_mul n 12) (Failed CaldusArithmeticOverflow)) (\<lambda>delay.
     and_then (pattern_add_ticks (cp_tick sim) delay) (\<lambda>telegraph_at.
     and_then (pattern_add_ticks telegraph_at CALDUS_SHIELD_WARNING_TICKS) (\<lambda>fires_at.
     and_then (allocate_cast_id sim) (\<lambda>(cast_id, sim').
       Inr (sim'\<lparr>cp_scheduled_shields := cp_scheduled_shields sim' @
         [\<lparr>sh_cast_id = cast_id, sh_target = tgt_participant target,
           sh_target_x_milli_tiles = tgt_position_x_milli_tiles target,
           sh_target_y_milli_tiles = tgt_position_y_milli_tiles target,
           sh_telegraph_at = telegraph_at, sh_fires_at = fires_at\<rparr>]\<rparr>)))))))"

definition schedule_shield ::
  "target_map \<Rightarrow> core_caldus_simulation \<Rightarrow> caldus_failure + core_caldus_simulation" where
  "schedule_shield targets sim =
     (if targets = [] then Inr sim
      else case select_shield_targets targets sim of (selected, sim') \<Rightarrow>
        try_fold push_shield (zip [0..<length selected] selected) sim')"

definition schedule_ordinary_ring :: "pattern_work \<Rightarrow> caldus_failure + pattern_work" where
  "schedule_ordinary_ring work =
     (case work of (sim, events) \<Rightarrow>
     and_then (allocate_cast_id sim) (\<lambda>(cast_id, sim).
     let (gap_start_index, sim) = consume_gap sim in
     and_then (pattern_add_ticks (cp_tick sim) CALDUS_RING_WARNING_TICKS) (\<lambda>fires_at.
       Inr (sim\<lparr>cp_previewed_rings := cp_previewed_rings sim @
              [\<lparr>ring_cast_id = cast_id, ring_gap_start_index = gap_start_index, ring_fires_at = fires_at\<rparr>]\<rparr>,
            events @ [BellRingTelegraph (cp_tick sim) cast_id gap_start_index fires_at]))))"

definition push_preview :: "nat \<times> u64 \<Rightarrow> pattern_work \<Rightarrow> caldus_failure + pattern_work" where
  "push_preview entry work =
     (case entry of (ordinal, fire_offset) \<Rightarrow> case work of (sim, events) \<Rightarrow>
     and_then (allocate_cast_id sim) (\<lambda>(cast_id, sim).
     let (gap_start_index, sim) = consume_gap sim in
     and_then (pattern_add_ticks (cp_tick sim) fire_offset) (\<lambda>fires_at.
     let sim = sim\<lparr>cp_previewed_rings := cp_previewed_rings sim @
           [\<lparr>ring_cast_id = cast_id, ring_gap_start_index = gap_start_index, ring_fires_at = fires_at\<rparr>]\<rparr> in
     if ordinal = 0
     then and_then (pattern_add_ticks (cp_tick sim) 18) (\<lambda>ends_at.
            Inr (sim, events @ [BellRingPreview (cp_tick sim) cast_id 0 gap_start_index ends_at]))
     else Inr (sim, events))))"

definition schedule_previewed_rings :: "pattern_work \<Rightarrow> caldus_failure + pattern_work" where
  "schedule_previewed_rings work =
     try_fold push_preview [(0, 66), (1, 90), (2, 114)] ((fst work)\<lparr>cp_previewed_rings := []\<rparr>, snd work)"

definition schedule_charge :: "target_map \<Rightarrow> pattern_work \<Rightarrow> caldus_failure + pattern_work" where
  "schedule_charge targets work =
     (case nearest_target targets of
        None \<Rightarrow> Inr work
      | Some target \<Rightarrow>
          (case work of (sim, events) \<Rightarrow>
          and_then (allocate_cast_id sim) (\<lambda>(cast_id, sim).
          and_then (pattern_add_ticks (cp_tick sim) 30) (\<lambda>movement_starts_at.
          and_then (pattern_add_ticks (cp_tick sim) 21) (\<lambda>direction_locks_at.
          and_then (pattern_add_ticks (cp_tick sim) 47) (\<lambda>ends_at.
            Inr (sim\<lparr>cp_scheduled_charges := cp_scheduled_charges sim @
                   [\<lparr>sc_cast_id = cast_id, sc_target = Some target, sc_direction_locks_at = direction_locks_at,
                     sc_movement_starts_at = movement_starts_at, sc_ends_at = ends_at\<rparr>]\<rparr>,
                 events @ [ChargeTelegraph (cp_tick sim) cast_id (tgt_participant target)
                   (tgt_position_x_milli_tiles target) (tgt_position_y_milli_tiles target)
                   movement_starts_at])))))))"

definition shield_start :: "bool \<Rightarrow> target_map \<Rightarrow> pattern_work \<Rightarrow> caldus_failure + pattern_work" where
  "shield_start due targets work =
     (if due then and_then (schedule_shield targets (fst work)) (\<lambda>sim. Inr (sim, snd work)) else Inr work)"

definition preview_later_ring :: "u64 \<Rightarrow> pattern_work \<Rightarrow> caldus_failure + pattern_work" where
  "preview_later_ring loop_tick work =
     (case work of (sim, events) \<Rightarrow>
     and_then (ok_or (try_from_word (loop_tick div 18) :: u8 option) (Failed CaldusArithmeticOverflow)) (\<lambda>ordinal.
     and_then (ok_or (get (cp_previewed_rings sim) (unat ordinal)) Panic) (\<lambda>preview.
     and_then (pattern_add_ticks (cp_tick sim) 18) (\<lambda>ends_at.
       Inr (sim, events @ [BellRingPreview (cp_tick sim) (ring_cast_id preview) ordinal
         (ring_gap_start_index preview) ends_at])))))"

definition schedule_pattern_starts ::
  "core_caldus_phase \<Rightarrow> u64 \<Rightarrow> target_map \<Rightarrow> pattern_work \<Rightarrow> caldus_failure + pattern_work" where
  "schedule_pattern_starts phase loop_tick targets work =
     (case phase of
        Phase1 \<Rightarrow>
          and_then (shield_start (loop_tick \<in> set [0, 54, 108]) targets work) (\<lambda>work.
            if loop_tick = 180 then schedule_ordinary_ring work else Inr work)
      | Phase2 \<Rightarrow>
          and_then (if loop_tick \<in> set [0, 225] then schedule_charge targets work else Inr work)
            (shield_start (loop_tick \<in> set [90, 156, 315, 381]) targets)
      | Phase3 \<Rightarrow>
          and_then (if loop_tick = 0 then schedule_previewed_rings work else Inr work) (\<lambda>work.
          and_then (if loop_tick = 18 \<or> loop_tick = 36 then preview_later_ring loop_tick work else Inr work)
            (shield_start (loop_tick = 180) targets)))"

section \<open>Emission and the active clock\<close>

definition shield_events :: "tick \<Rightarrow> scheduled_shield \<Rightarrow> core_caldus_event list" where
  "shield_events t s =
     (if sh_telegraph_at s = t
      then [ShieldTelegraph t (sh_cast_id s) (sh_target s) (sh_target_x_milli_tiles s)
              (sh_target_y_milli_tiles s) (sh_fires_at s)] else [])
     @ (if sh_fires_at s = t
        then [ShieldFired t (sh_cast_id s) (sh_target s) (sh_target_x_milli_tiles s)
                (sh_target_y_milli_tiles s)] else [])"

definition locked_charge :: "tick \<Rightarrow> target_map \<Rightarrow> scheduled_charge \<Rightarrow> scheduled_charge" where
  "locked_charge t targets c =
     (if sc_direction_locks_at c = t then c\<lparr>sc_target := nearest_target targets\<rparr> else c)"

definition charge_events :: "tick \<Rightarrow> target_map \<Rightarrow> scheduled_charge \<Rightarrow> core_caldus_event list" where
  "charge_events t targets c =
     (let c' = locked_charge t targets c in
      (if sc_direction_locks_at c = t
       then case sc_target c' of None \<Rightarrow> []
            | Some target \<Rightarrow> [ChargeDirectionLocked t (sc_cast_id c) (tgt_participant target)
                (tgt_position_x_milli_tiles target) (tgt_position_y_milli_tiles target)] else [])
      @ (if sc_movement_starts_at c = t \<and> sc_target c' \<noteq> None then [ChargeMovementStarted t (sc_cast_id c)] else [])
      @ (if sc_ends_at c = t \<and> sc_target c' \<noteq> None
         then [ChargeEnded t (sc_cast_id c), ChargeStopRingFired t (sc_cast_id c)] else []))"

definition ring_events :: "tick \<Rightarrow> core_caldus_state \<Rightarrow> previewed_ring \<Rightarrow> core_caldus_event list" where
  "ring_events t state r =
     (if ring_fires_at r = t
      then [BellRingFired t (ring_cast_id r) (ring_gap_start_index r)
              (case state of Active phase _ _ _ \<Rightarrow> phase = Phase3 | _ \<Rightarrow> False)] else [])"

definition emit_due_scheduled :: "target_map \<Rightarrow> pattern_work \<Rightarrow> pattern_work" where
  "emit_due_scheduled targets work =
     (case work of (sim, events) \<Rightarrow>
       let t = cp_tick sim in
       (sim\<lparr>cp_scheduled_shields := filter (\<lambda>s. sh_fires_at s > t) (cp_scheduled_shields sim),
            cp_scheduled_charges := filter (\<lambda>c. sc_target c \<noteq> None \<and> sc_ends_at c > t)
              (map (locked_charge t targets) (cp_scheduled_charges sim)),
            cp_previewed_rings := filter (\<lambda>r. ring_fires_at r > t) (cp_previewed_rings sim)\<rparr>,
        events @ concat (map (shield_events t) (cp_scheduled_shields sim))
          @ concat (map (charge_events t targets) (cp_scheduled_charges sim))
          @ concat (map (ring_events t (cp_state sim)) (cp_previewed_rings sim))))"

definition advance_active_clock :: "pattern_work \<Rightarrow> caldus_failure + pattern_work" where
  "advance_active_clock work =
     (case work of (sim, events) \<Rightarrow>
     case cp_state sim of
       Active phase phase_tick loop_tick loop_length \<Rightarrow>
         let overflow = Failed CaldusArithmeticOverflow in
         and_then (ok_or (checked_add phase_tick 1) overflow) (\<lambda>phase_tick.
         and_then (ok_or (checked_add loop_tick 1) overflow) (\<lambda>loop_tick.
         and_then (ok_or (checked_add (cp_local_tick sim) 1) overflow) (\<lambda>local_tick.
         let health = cp_current_health sim; maximum = lock_maximum_health (cp_lock sim) in
         if loop_tick \<ge> loop_length
         then let loop_length = resolved_loop_length phase health maximum (cp_soft_enraged sim) in
           and_then (pattern_add_ticks (cp_tick sim) 1) (\<lambda>restart.
             Inr (sim\<lparr>cp_local_tick := local_tick, cp_state := Active phase phase_tick 0 loop_length\<rparr>,
                  events @ [LoopRestarted restart phase loop_length
                    (phase = Phase3 \<and> threshold_reached health maximum 20) (cp_soft_enraged sim)]))
         else Inr (sim\<lparr>cp_local_tick := local_tick, cp_state := Active phase phase_tick loop_tick loop_length\<rparr>,
                   events))))
     | _ \<Rightarrow> Inr (sim, events))"

section \<open>One step\<close>

definition with_tick :: "pattern_work \<Rightarrow> caldus_failure + pattern_work" where
  "with_tick work = and_then (increment_global_tick (fst work)) (\<lambda>sim. Inr (sim, snd work))"

definition start_soft_enrage :: "pattern_work \<Rightarrow> pattern_work" where
  "start_soft_enrage work =
     (case work of (sim, events) \<Rightarrow>
       if \<not> cp_soft_enraged sim \<and> cp_local_tick sim \<ge> CALDUS_SOFT_ENRAGE_TICKS
       then (sim\<lparr>cp_soft_enraged := True\<rparr>, events @ [SoftEnrageStarted (cp_tick sim) (cp_local_tick sim)])
       else (sim, events))"

definition advance_active :: "target_map \<Rightarrow> pattern_work \<Rightarrow> caldus_failure + pattern_work" where
  "advance_active targets work =
     and_then (maybe_start_phase_break work) (\<lambda>(broke, work).
     if broke then with_tick work
     else let work = start_soft_enrage work in
       case cp_state (fst work) of
         Active phase phase_tick loop_tick loop_length \<Rightarrow>
           and_then (schedule_pattern_starts phase loop_tick targets work) (\<lambda>work.
           and_then (advance_active_clock (emit_due_scheduled targets work)) with_tick)
       | _ \<Rightarrow> Inl Panic)"

definition advance_inner ::
  "core_caldus_input \<Rightarrow> core_caldus_simulation \<Rightarrow> caldus_failure + pattern_work" where
  "advance_inner input sim =
     (if ci_tick input \<noteq> cp_tick sim then Inl (Failed (CaldusTickMismatch (cp_tick sim) (ci_tick input)))
      else if ci_current_health input > cp_current_health sim then Inl (Failed HealthIncreased)
      else and_then (map_err Failed (validate_targets (cp_lock sim) (ci_living_targets input))) (\<lambda>targets.
      let sim = sim\<lparr>cp_current_health := ci_current_health input\<rparr> in
      if cp_state sim = CaldusDefeated then Inl (Failed DefeatedBossAdvanced)
      else if cp_current_health sim = 0
      then (case cancel_timeline (current_phase (cp_state sim)) (sim, []) of (sim, events) \<Rightarrow>
             with_tick (sim\<lparr>cp_state := CaldusDefeated\<rparr>, events @ [BossDefeated (cp_tick sim)]))
      else case cp_state sim of
             Break entering ends_at \<Rightarrow>
               if cp_tick sim < ends_at then with_tick (sim, [])
               else advance_active targets (start_phase entering (sim, []))
           | _ \<Rightarrow> advance_active targets (sim, [])))"

definition advance ::
  "core_caldus_input \<Rightarrow> core_caldus_simulation
     \<Rightarrow> (caldus_failure + core_caldus_event list) \<times> core_caldus_simulation" where
  "advance input sim =
     (case advance_inner input sim of
        Inl e \<Rightarrow> (Inl e, sim)
      | Inr (sim', events) \<Rightarrow> (Inr events, sim'))"

end
