(* ===== verification/Caldus_Pattern_Properties.thy ===== *)
theory Caldus_Pattern_Properties
  imports Caldus_Patterns
begin

text \<open>
  Properties of the boss scheduler of \<open>Caldus_Patterns\<close>: an \<open>outcome\<close> calculus that carries a postcondition
  through the scheduling operations and confines their errors to exhausted counters; the invariant of
  the schedule and of the phase clock; the exact phase machine, totality and freedom from panics of
  a step, and the round-robin choice of shield targets.
\<close>

section \<open>Invariants of the schedule\<close>

definition cast_ids :: "core_caldus_simulation \<Rightarrow> u64 list" where
  "cast_ids sim = map sh_cast_id (cp_scheduled_shields sim) @ map sc_cast_id (cp_scheduled_charges sim)
     @ map ring_cast_id (cp_previewed_rings sim)"

definition due_times :: "core_caldus_simulation \<Rightarrow> tick set" where
  "due_times sim = sh_fires_at ` set (cp_scheduled_shields sim) \<union> sc_ends_at ` set (cp_scheduled_charges sim)
     \<union> ring_fires_at ` set (cp_previewed_rings sim)"

abbreviation party_size :: "core_caldus_simulation \<Rightarrow> nat" where
  "party_size sim \<equiv> length (lock_participants (cp_lock sim))"

definition schedule_inv :: "core_caldus_simulation \<Rightarrow> bool" where
  "schedule_inv sim \<longleftrightarrow>
     cp_ordinary_gap_start sim < 18 \<and> cp_shield_cursor sim < party_size sim
     \<and> distinct (cast_ids sim) \<and> (\<forall>i \<in> set (cast_ids sim). i < cp_next_cast_id sim)
     \<and> (\<forall>d \<in> due_times sim. cp_tick sim \<le> d)"

text \<open>
  \<open>scheduling sim0 n sim\<close>: \<open>sim\<close> comes from \<open>sim0\<close> by scheduling work under at most \<open>n\<close> new cast
  identifiers; nothing but the schedule, the identifiers, the gap and the cursor has changed.
\<close>

definition scheduling :: "core_caldus_simulation \<Rightarrow> nat \<Rightarrow> core_caldus_simulation \<Rightarrow> bool" where
  "scheduling sim0 n sim \<longleftrightarrow> schedule_inv sim
     \<and> cp_lock sim = cp_lock sim0 \<and> cp_tick sim = cp_tick sim0 \<and> cp_local_tick sim = cp_local_tick sim0
     \<and> cp_current_health sim = cp_current_health sim0 \<and> cp_state sim = cp_state sim0
     \<and> cp_soft_enraged sim = cp_soft_enraged sim0
     \<and> unat (cp_next_cast_id sim0) \<le> unat (cp_next_cast_id sim)
     \<and> unat (cp_next_cast_id sim) \<le> unat (cp_next_cast_id sim0) + n"

text \<open>The counters are within reach of overflow: the only cause of an internal error.\<close>

definition exhausted :: "core_caldus_simulation \<Rightarrow> bool" where
  "exhausted sim \<longleftrightarrow> 2 ^ 64 \<le> unat (cp_tick sim) + 200 \<or> 2 ^ 64 \<le> unat (cp_next_cast_id sim) + 8"

definition outcome :: "core_caldus_simulation \<Rightarrow> ('a \<Rightarrow> bool) \<Rightarrow> caldus_failure + 'a \<Rightarrow> bool" where
  "outcome sim0 P r \<longleftrightarrow>
     (case r of Inr x \<Rightarrow> P x
      | Inl f \<Rightarrow> exhausted sim0 \<and> f \<noteq> Panic)"

lemma outcome_Inr [simp]: "outcome sim0 P (Inr x) = P x"
  by (simp add: outcome_def)

lemma outcome_bind:
  "outcome sim0 P r \<Longrightarrow> (\<And>x. P x \<Longrightarrow> outcome sim0 Q (k x)) \<Longrightarrow> outcome sim0 Q (and_then r k)"
  by (cases r) (auto simp: outcome_def)

lemma outcome_mono: "outcome sim0 P r \<Longrightarrow> (\<And>x. P x \<Longrightarrow> Q x) \<Longrightarrow> outcome sim0 Q r"
  by (cases r) (auto simp: outcome_def)

lemma outcome_add_ticks:
  assumes "unat t + unat n \<le> unat (cp_tick sim0) + 200"
  shows "outcome sim0 (\<lambda>t'. unat t' = unat t + unat n) (pattern_add_ticks t n)"
  using assms by (auto simp: outcome_def pattern_add_ticks_def ok_or_def exhausted_def checked_add_eq_None
      checked_add_eq_Some split: option.split)

lemma outcome_allocate:
  assumes "scheduling sim0 n sim" and "n < 8"
  shows "outcome sim0 (\<lambda>(i, sim'). i = cp_next_cast_id sim
    \<and> (\<exists>next. sim' = sim\<lparr>cp_next_cast_id := next\<rparr> \<and> unat next = unat i + 1)) (allocate_cast_id sim)"
proof (cases "checked_add (cp_next_cast_id sim) 1")
  case None
  with assms have "exhausted sim0"
    by (simp add: scheduling_def exhausted_def checked_add_eq_None)
  with None show ?thesis
    by (simp add: allocate_cast_id_def outcome_def)
next
  case (Some next_id)
  then have "unat next_id = unat (cp_next_cast_id sim) + 1"
    by (simp add: checked_add_eq_Some)
  with Some show ?thesis
    by (auto simp: allocate_cast_id_def)
qed

lemma fresh_id:
  "\<forall>i \<in> A. i < next \<Longrightarrow> unat next' = unat next + 1 \<Longrightarrow> next \<notin> A \<and> (\<forall>i \<in> insert next A. i < next')"
  for "next" :: u64
  by (auto simp: word_less_nat_alt)

lemma scheduling_new_shield:
  assumes "scheduling sim0 n sim" and "unat i' = unat (cp_next_cast_id sim) + 1"
    and "sh_cast_id shield = cp_next_cast_id sim" and "cp_tick sim \<le> sh_fires_at shield"
  shows "scheduling sim0 (Suc n) (sim\<lparr>cp_next_cast_id := i', cp_scheduled_shields := cp_scheduled_shields sim @ [shield]\<rparr>)"
  using assms fresh_id [of "set (cast_ids sim)" "cp_next_cast_id sim" i']
  by (auto simp: scheduling_def schedule_inv_def cast_ids_def due_times_def)

lemma scheduling_new_charge:
  assumes "scheduling sim0 n sim" and "unat i' = unat (cp_next_cast_id sim) + 1"
    and "sc_cast_id charge = cp_next_cast_id sim" and "cp_tick sim \<le> sc_ends_at charge"
  shows "scheduling sim0 (Suc n) (sim\<lparr>cp_next_cast_id := i', cp_scheduled_charges := cp_scheduled_charges sim @ [charge]\<rparr>)"
  using assms fresh_id [of "set (cast_ids sim)" "cp_next_cast_id sim" i']
  by (auto simp: scheduling_def schedule_inv_def cast_ids_def due_times_def)

lemma gap_step: "(g + 5) mod 18 < (18 :: u8)"
  by (simp add: word_less_nat_alt unat_mod)

lemma scheduling_new_ring:
  assumes "scheduling sim0 n sim" and "unat i' = unat (cp_next_cast_id sim) + 1"
    and "ring_cast_id ring = cp_next_cast_id sim" and "cp_tick sim \<le> ring_fires_at ring"
  shows "scheduling sim0 (Suc n) (sim\<lparr>cp_next_cast_id := i', cp_ordinary_gap_start := (g + 5) mod 18,
    cp_previewed_rings := cp_previewed_rings sim @ [ring]\<rparr>)"
  using assms fresh_id [of "set (cast_ids sim)" "cp_next_cast_id sim" i'] gap_step [of g]
  by (auto simp: scheduling_def schedule_inv_def cast_ids_def due_times_def)

section \<open>The scheduling operations\<close>

lemma scheduling_weaken: "scheduling sim0 n sim \<Longrightarrow> n \<le> m \<Longrightarrow> scheduling sim0 m sim"
  by (auto simp: scheduling_def)

lemma outcome_push_shield:
  assumes sched: "scheduling sim0 n sim" and "n < 8" and "ordinal \<le> 3"
  shows "outcome sim0 (\<lambda>sim'. scheduling sim0 (Suc n) sim' \<and> cp_previewed_rings sim' = cp_previewed_rings sim)
    (push_shield (ordinal, target) sim)"
proof -
  have t: "cp_tick sim = cp_tick sim0"
    using sched by (simp add: scheduling_def)
  define k :: u64 where "k = of_nat ordinal"
  have k: "unat k = ordinal" "try_from_usize ordinal = Some k"
    using assms(3) by (simp_all add: k_def try_from_usize_def)
  define d :: u64 where "d = of_nat (ordinal * 12)"
  have d: "unat d = ordinal * 12" "checked_mul k 12 = Some d"
    using assms(3) k unfolding checked_mul_eq_Some d_def by (simp_all del: of_nat_mult)
  show ?thesis
    unfolding push_shield_def prod.case k(2) ok_or_Some and_then.simps d(2)
    by (intro outcome_bind [OF outcome_add_ticks] outcome_bind [OF outcome_allocate [OF sched assms(2)]])
      (use assms(3) t d(1) in \<open>auto simp: CALDUS_SHIELD_WARNING_TICKS_def word_le_nat_alt
        intro!: scheduling_new_shield [OF sched]\<close>)
qed

lemma outcome_push_shields:
  assumes "scheduling sim0 n sim" and "n + length entries \<le> 8" and "\<forall>e \<in> set entries. fst e \<le> 3"
  shows "outcome sim0 (\<lambda>sim'. scheduling sim0 (n + length entries) sim' \<and> cp_previewed_rings sim' = cp_previewed_rings sim)
    (try_fold push_shield entries sim)"
  using assms
proof (induction entries arbitrary: n sim)
  case (Cons e entries)
  obtain ordinal target where e: "e = (ordinal, target)" by (cases e)
  have "outcome sim0 (\<lambda>sim'. scheduling sim0 (Suc n) sim' \<and> cp_previewed_rings sim' = cp_previewed_rings sim)
      (push_shield e sim)"
    unfolding e using Cons.prems e by (intro outcome_push_shield) auto
  then show ?case
    unfolding try_fold.simps
  proof (rule outcome_bind)
    fix mid
    assume "scheduling sim0 (Suc n) mid \<and> cp_previewed_rings mid = cp_previewed_rings sim"
    with Cons.IH [of "Suc n" mid] Cons.prems show "outcome sim0
      (\<lambda>sim'. scheduling sim0 (n + length (e # entries)) sim' \<and> cp_previewed_rings sim' = cp_previewed_rings sim)
      (try_fold push_shield entries mid)" by simp
  qed
qed simp

lemma outcome_ordinary_ring:
  assumes sched: "scheduling sim0 n sim" and "n < 8"
  shows "outcome sim0 (\<lambda>(sim', events'). scheduling sim0 (Suc n) sim') (schedule_ordinary_ring (sim, events))"
proof -
  have t: "cp_tick sim = cp_tick sim0"
    using sched by (simp add: scheduling_def)
  show ?thesis
    unfolding schedule_ordinary_ring_def prod.case
    by (intro outcome_bind [OF outcome_allocate [OF assms]])
      (use t in \<open>auto simp: consume_gap_def CALDUS_RING_WARNING_TICKS_def word_le_nat_alt
        intro!: outcome_bind [OF outcome_add_ticks] scheduling_new_ring [OF sched]\<close>)
qed

lemma outcome_charge:
  assumes sched: "scheduling sim0 n sim" and "n < 8"
  shows "outcome sim0 (\<lambda>(sim', events'). scheduling sim0 (Suc n) sim' \<and> cp_previewed_rings sim' = cp_previewed_rings sim)
    (schedule_charge targets (sim, events))"
proof (cases "nearest_target targets")
  case None
  have "scheduling sim0 (Suc n) sim"
    using sched by (auto simp: scheduling_def)
  with None show ?thesis by (simp add: schedule_charge_def)
next
  case (Some target)
  have t: "cp_tick sim = cp_tick sim0"
    using sched by (simp add: scheduling_def)
  show ?thesis
    unfolding schedule_charge_def prod.case Some option.case
    by (intro outcome_bind [OF outcome_allocate [OF assms]])
      (use t in \<open>auto simp: word_le_nat_alt intro!: outcome_bind [OF outcome_add_ticks] scheduling_new_charge [OF sched]\<close>)
qed

lemma outcome_push_preview:
  assumes sched: "scheduling sim0 n sim" and "n < 8" and "unat offset \<le> 114"
  shows "outcome sim0 (\<lambda>(sim', events'). scheduling sim0 (Suc n) sim'
      \<and> (\<exists>ring. cp_previewed_rings sim' = cp_previewed_rings sim @ [ring]
            \<and> unat (ring_fires_at ring) = unat (cp_tick sim0) + unat offset))
    (push_preview (ordinal, offset) (sim, events))"
proof -
  have t: "cp_tick sim = cp_tick sim0"
    using sched by (simp add: scheduling_def)
  show ?thesis
    unfolding push_preview_def prod.case
    by (intro outcome_bind [OF outcome_allocate [OF assms(1,2)]])
      (use t assms(3) in \<open>auto simp: consume_gap_def word_le_nat_alt Let_def
        intro!: outcome_bind [OF outcome_add_ticks] scheduling_new_ring [OF sched]\<close>)
qed

text \<open>The three rings previewed at the start of a phase-three loop.\<close>

lemma outcome_push_previews:
  assumes "scheduling sim0 n (fst work)" and "n + length entries \<le> 8"
    and "\<forall>e \<in> set entries. 66 \<le> unat (snd e) \<and> unat (snd e) \<le> 114"
    and "\<forall>r \<in> set (cp_previewed_rings (fst work)). unat (cp_tick sim0) + 66 \<le> unat (ring_fires_at r)"
  shows "outcome sim0 (\<lambda>work'. scheduling sim0 (n + length entries) (fst work')
      \<and> length (cp_previewed_rings (fst work')) = length (cp_previewed_rings (fst work)) + length entries
      \<and> (\<forall>r \<in> set (cp_previewed_rings (fst work')). unat (cp_tick sim0) + 66 \<le> unat (ring_fires_at r)))
    (try_fold push_preview entries work)"
  using assms
proof (induction entries arbitrary: n work)
  case (Cons e entries)
  obtain ordinal offset where e: "e = (ordinal, offset)" by (cases e)
  obtain sim events where work: "work = (sim, events)" by (cases work)
  have "scheduling sim0 n sim" "n < 8" "unat offset \<le> 114" "66 \<le> unat offset"
    using Cons.prems e work by auto
  from outcome_push_preview [OF this(1-3), of ordinal events] show ?case
    unfolding try_fold.simps e work
  proof (rule outcome_bind)
    fix mid :: pattern_work
    assume mid: "case mid of (sim', events') \<Rightarrow> scheduling sim0 (Suc n) sim'
      \<and> (\<exists>ring. cp_previewed_rings sim' = cp_previewed_rings sim @ [ring]
            \<and> unat (ring_fires_at ring) = unat (cp_tick sim0) + unat offset)"
    then obtain ring where ring: "scheduling sim0 (Suc n) (fst mid)"
      "cp_previewed_rings (fst mid) = cp_previewed_rings sim @ [ring]"
      "unat (ring_fires_at ring) = unat (cp_tick sim0) + unat offset" by (cases mid) auto
    from Cons.IH [of "Suc n" mid] Cons.prems ring \<open>66 \<le> unat offset\<close>
    show "outcome sim0 (\<lambda>work'. scheduling sim0 (n + length ((ordinal, offset) # entries)) (fst work')
      \<and> length (cp_previewed_rings (fst work'))
          = length (cp_previewed_rings (fst (sim, events))) + length ((ordinal, offset) # entries)
      \<and> (\<forall>r \<in> set (cp_previewed_rings (fst work')). unat (cp_tick sim0) + 66 \<le> unat (ring_fires_at r)))
      (try_fold push_preview entries mid)"
      by (simp add: work)
  qed
qed simp

lemma outcome_previewed_rings:
  assumes "scheduling sim0 0 sim"
  shows "outcome sim0 (\<lambda>work'. scheduling sim0 3 (fst work') \<and> length (cp_previewed_rings (fst work')) = 3
      \<and> (\<forall>r \<in> set (cp_previewed_rings (fst work')). unat (cp_tick sim0) + 66 \<le> unat (ring_fires_at r)))
    (schedule_previewed_rings (sim, events))"
proof -
  have "scheduling sim0 0 (sim\<lparr>cp_previewed_rings := []\<rparr>)"
    using assms by (auto simp: scheduling_def schedule_inv_def cast_ids_def due_times_def)
  then show ?thesis
    using outcome_push_previews [of sim0 0 "(sim\<lparr>cp_previewed_rings := []\<rparr>, events)" "[(0, 66), (1, 90), (2, 114)]"]
    unfolding schedule_previewed_rings_def by (simp add: numeral_3_eq_3)
qed

lemma length_scan_targets:
  "length selected < target_count \<Longrightarrow> length (scan_targets sim targets target_count offsets selected) \<le> target_count"
  by (induction sim targets target_count offsets selected rule: scan_targets.induct)
    (auto simp: Let_def split: option.splits)

lemma select_shield_targets_shape:
  assumes "select_shield_targets targets sim = (selected, sim')"
  shows "length selected \<le> 3 \<and> (sim' = sim \<or> (\<exists>index. sim' = sim\<lparr>cp_shield_cursor := (index + 1) mod party_size sim\<rparr>))"
proof -
  let ?k = "shield_target_count (party_size sim)" and ?offsets = "[0..<party_size sim]"
  have "0 < ?k" "?k \<le> 3"
    by (simp_all add: shield_target_count_def)
  then have "length (scan_targets sim targets ?k ?offsets []) \<le> 3"
    using length_scan_targets [of "[]" ?k sim targets ?offsets] by simp
  with assms show ?thesis
    unfolding select_shield_targets_def Let_def by (auto split: if_splits option.splits)
qed

lemma select_shield_targets_keeps:
  assumes sched: "scheduling sim0 n sim" and select: "select_shield_targets targets sim = (selected, sim')"
  shows "scheduling sim0 n sim' \<and> length selected \<le> 3 \<and> cp_previewed_rings sim' = cp_previewed_rings sim"
proof -
  have "(index + 1) mod party_size sim < party_size sim" for index
    using sched by (intro mod_less_divisor) (auto simp: scheduling_def schedule_inv_def)
  then have "scheduling sim0 n (sim\<lparr>cp_shield_cursor := (index + 1) mod party_size sim\<rparr>)" for index
    using sched by (auto simp: scheduling_def schedule_inv_def cast_ids_def due_times_def)
  with select_shield_targets_shape [OF select] sched show ?thesis
    by auto
qed

lemma outcome_shield_start:
  assumes "scheduling sim0 n sim" and "n \<le> 3"
  shows "outcome sim0 (\<lambda>(sim', events'). scheduling sim0 (n + 3) sim' \<and> cp_previewed_rings sim' = cp_previewed_rings sim)
    (shield_start due targets (sim, events))"
proof (cases "due \<and> targets \<noteq> []")
  case True
  obtain selected sim1 where select: "select_shield_targets targets sim = (selected, sim1)"
    by fastforce
  note keeps = select_shield_targets_keeps [OF assms(1) select]
  have "\<forall>e \<in> set (zip [0..<length selected] selected). fst e \<le> 3"
    using keeps by (auto dest!: set_zip_leftD)
  with outcome_push_shields [of sim0 n sim1 "zip [0..<length selected] selected"] keeps assms(2)
  have "outcome sim0 (\<lambda>sim'. scheduling sim0 (n + length selected) sim' \<and> cp_previewed_rings sim' = cp_previewed_rings sim1)
      (schedule_shield targets sim)"
    using True by (simp add: schedule_shield_def select)
  moreover have "shield_start due targets (sim, events)
      = and_then (schedule_shield targets sim) (\<lambda>sim'. Inr (sim', events))"
    using True by (simp add: shield_start_def)
  moreover have "scheduling sim0 (n + 3) sim'" if "scheduling sim0 (n + length selected) sim'" for sim'
    using scheduling_weaken [OF that, of "n + 3"] keeps by simp
  ultimately show ?thesis
    using keeps by (auto elim: outcome_bind)
next
  case False
  with assms show ?thesis
    by (auto simp: shield_start_def schedule_shield_def scheduling_def)
qed

section \<open>The invariant of the simulation\<close>

definition rings_last :: "nat \<Rightarrow> core_caldus_simulation \<Rightarrow> bool" where
  "rings_last loop_tick sim \<longleftrightarrow> length (cp_previewed_rings sim) = 3
     \<and> (\<forall>r \<in> set (cp_previewed_rings sim). unat (cp_tick sim) + 66 \<le> unat (ring_fires_at r) + loop_tick)"

definition timeline_empty :: "core_caldus_simulation \<Rightarrow> bool" where
  "timeline_empty sim \<longleftrightarrow>
     cp_scheduled_shields sim = [] \<and> cp_scheduled_charges sim = [] \<and> cp_previewed_rings sim = []"

definition phase_inv :: "core_caldus_simulation \<Rightarrow> bool" where
  "phase_inv sim \<longleftrightarrow>
     (case cp_state sim of
        Active phase phase_tick loop_tick loop_length \<Rightarrow>
          loop_tick < loop_length \<and> unat loop_length \<le> 450 \<and> loop_tick \<le> phase_tick
          \<and> unat phase_tick \<le> unat (cp_local_tick sim)
          \<and> (phase = Phase3 \<and> 0 < unat loop_tick \<and> unat loop_tick \<le> 66 \<longrightarrow> rings_last (unat loop_tick) sim)
      | Break entering ends_at \<Rightarrow>
          entering \<noteq> Phase1 \<and> timeline_empty sim \<and> unat ends_at \<le> unat (cp_tick sim) + 120
      | CaldusDefeated \<Rightarrow> timeline_empty sim \<and> cp_current_health sim = 0)"

definition pattern_inv :: "core_caldus_simulation \<Rightarrow> bool" where
  "pattern_inv sim \<longleftrightarrow> schedule_inv sim \<and> phase_inv sim \<and> unat (cp_local_tick sim) \<le> unat (cp_tick sim)
     \<and> (cp_soft_enraged sim \<longrightarrow> CALDUS_SOFT_ENRAGE_TICKS \<le> cp_local_tick sim)"

lemma outcome_preview_later_ring:
  assumes "length (cp_previewed_rings sim) = 3" and "loop_tick = 18 \<or> loop_tick = 36"
    and "cp_tick sim = cp_tick sim0"
  shows "outcome sim0 (\<lambda>(sim', events'). sim' = sim) (preview_later_ring loop_tick (sim, events))"
proof -
  define ordinal where "ordinal = (if loop_tick = 18 then 1 else 2 :: u8)"
  have "(try_from_word (loop_tick div 18) :: u8 option) = Some ordinal"
    using assms(2) by (auto simp: try_from_word_def ordinal_def)
  moreover have "get (cp_previewed_rings sim) (unat ordinal) = Some (cp_previewed_rings sim ! unat ordinal)"
    using assms(1) by (simp add: ordinal_def get_def)
  ultimately show ?thesis
    unfolding preview_later_ring_def prod.case
    by (simp only: ok_or_Some and_then.simps, intro outcome_bind [OF outcome_add_ticks]) (use assms(3) in auto)
qed

lemma outcome_pattern_starts:
  assumes sched: "scheduling sim0 0 sim"
    and rings: "phase = Phase3 \<and> 0 < unat loop_tick \<and> unat loop_tick \<le> 66 \<longrightarrow> rings_last (unat loop_tick) sim"
  shows "outcome sim0 (\<lambda>(sim', events'). scheduling sim0 6 sim'
      \<and> (phase = Phase3 \<and> unat loop_tick \<le> 66 \<longrightarrow> rings_last (unat loop_tick) sim'))
    (schedule_pattern_starts phase loop_tick targets (sim, events))"
proof (cases phase)
  case Phase1
  let ?Q = "\<lambda>(sim', events'). scheduling sim0 6 sim'"
  have ring: "outcome sim0 ?Q (if loop_tick = 180 then schedule_ordinary_ring work else Inr work)"
    if "scheduling sim0 3 (fst work)" for work
    using outcome_ordinary_ring [of sim0 3 "fst work" "snd work"] that
    by (auto elim!: outcome_mono scheduling_weaken)
  have shields: "outcome sim0 (\<lambda>work. scheduling sim0 3 (fst work)) (shield_start due targets (sim, events))" for due
    using outcome_shield_start [OF sched] by (rule outcome_mono) auto
  show ?thesis
    unfolding schedule_pattern_starts_def Phase1 core_caldus_phase.case
    by (simp, rule outcome_bind [OF shields], rule ring)
next
  case Phase2
  have charge: "outcome sim0 (\<lambda>work. scheduling sim0 1 (fst work))
      (if loop_tick \<in> set [0, 225] then schedule_charge targets (sim, events) else Inr (sim, events))"
    using outcome_charge [OF sched, of targets events] scheduling_weaken [OF sched, of 1]
    by (auto elim!: outcome_mono)
  have "outcome sim0 (\<lambda>(sim', events'). scheduling sim0 6 sim') (shield_start due targets work)"
    if "scheduling sim0 1 (fst work)" for due work
    using outcome_shield_start [of sim0 1 "fst work" due targets "snd work"] that
    by (auto elim!: outcome_mono scheduling_weaken)
  with charge show ?thesis
    unfolding schedule_pattern_starts_def Phase2 core_caldus_phase.case
    by (auto intro: outcome_bind)
next
  case Phase3
  let ?P = "\<lambda>work. scheduling sim0 3 (fst work) \<and> (unat loop_tick \<le> 66 \<longrightarrow> rings_last (unat loop_tick) (fst work))"
  have tick: "cp_tick sim' = cp_tick sim0" if "scheduling sim0 n sim'" for n sim'
    using that by (simp add: scheduling_def)
  have preview: "outcome sim0 ?P (if loop_tick = 0 then schedule_previewed_rings (sim, events) else Inr (sim, events))"
  proof (cases "loop_tick = 0")
    case True
    have "outcome sim0 ?P (schedule_previewed_rings (sim, events))"
      using outcome_previewed_rings [OF sched] by (rule outcome_mono) (auto simp: True rings_last_def tick)
    with True show ?thesis by simp
  next
    case False
    then have "0 < unat loop_tick"
      by (simp add: unat_gt_0)
    with rings Phase3 False show ?thesis
      using scheduling_weaken [OF sched] by simp
  qed
  have later: "outcome sim0 ?P (if loop_tick = 18 \<or> loop_tick = 36 then preview_later_ring loop_tick work else Inr work)"
    if "?P work" for work
  proof (cases "loop_tick = 18 \<or> loop_tick = 36")
    case True
    then have "length (cp_previewed_rings (fst work)) = 3"
      using that by (auto simp: rings_last_def)
    from outcome_preview_later_ring [OF this True, of sim0 "snd work"] that True tick show ?thesis
      by (auto elim!: outcome_mono)
  qed (use that in simp)
  have "outcome sim0 (\<lambda>(sim', events'). scheduling sim0 6 sim' \<and> (unat loop_tick \<le> 66 \<longrightarrow> rings_last (unat loop_tick) sim'))
      (shield_start due targets work)" if "?P work" for due work
    using outcome_shield_start [of sim0 3 "fst work" due targets "snd work"] that
    by (auto elim!: outcome_mono simp: rings_last_def scheduling_def)
  with preview later show ?thesis
    unfolding schedule_pattern_starts_def Phase3 core_caldus_phase.case
    by (auto intro!: outcome_bind [where P = ?P])
qed

section \<open>Emission, clock and tick\<close>

lemma locked_charge_simps [simp]:
  "sc_cast_id (locked_charge t targets c) = sc_cast_id c"
  "sc_ends_at (locked_charge t targets c) = sc_ends_at c"
  by (simp_all add: locked_charge_def)

definition emitted :: "target_map \<Rightarrow> core_caldus_simulation \<Rightarrow> core_caldus_simulation" where
  "emitted targets sim = fst (emit_due_scheduled targets (sim, []))"

lemma emit_fst: "emit_due_scheduled targets (sim, events) = (emitted targets sim, snd (emit_due_scheduled targets (sim, events)))"
  by (simp add: emit_due_scheduled_def emitted_def Let_def)

lemma emitted_simps [simp]:
  "cp_lock (emitted targets sim) = cp_lock sim" "cp_tick (emitted targets sim) = cp_tick sim"
  "cp_local_tick (emitted targets sim) = cp_local_tick sim"
  "cp_current_health (emitted targets sim) = cp_current_health sim"
  "cp_state (emitted targets sim) = cp_state sim" "cp_next_cast_id (emitted targets sim) = cp_next_cast_id sim"
  "cp_ordinary_gap_start (emitted targets sim) = cp_ordinary_gap_start sim"
  "cp_shield_cursor (emitted targets sim) = cp_shield_cursor sim"
  "cp_soft_enraged (emitted targets sim) = cp_soft_enraged sim"
  "cp_previewed_rings (emitted targets sim) = filter (\<lambda>r. ring_fires_at r > cp_tick sim) (cp_previewed_rings sim)"
  by (simp_all add: emitted_def emit_due_scheduled_def Let_def)

lemma emitted_schedule:
  assumes "schedule_inv sim"
  shows "distinct (cast_ids (emitted targets sim))" and "set (cast_ids (emitted targets sim)) \<subseteq> set (cast_ids sim)"
    and "\<forall>d \<in> due_times (emitted targets sim). cp_tick sim < d"
proof -
  let ?s = "filter (\<lambda>s. sh_fires_at s > cp_tick sim) (cp_scheduled_shields sim)"
  let ?c = "filter (\<lambda>c. sc_target (locked_charge (cp_tick sim) targets c) \<noteq> None \<and> sc_ends_at c > cp_tick sim)
    (cp_scheduled_charges sim)"
  have ids: "cast_ids (emitted targets sim) = map sh_cast_id ?s @ map sc_cast_id ?c
      @ map ring_cast_id (filter (\<lambda>r. ring_fires_at r > cp_tick sim) (cp_previewed_rings sim))"
    by (simp add: cast_ids_def emitted_def emit_due_scheduled_def Let_def filter_map comp_def)
  show "set (cast_ids (emitted targets sim)) \<subseteq> set (cast_ids sim)"
    unfolding ids by (auto simp: cast_ids_def)
  have distinct: "distinct (map sh_cast_id (cp_scheduled_shields sim) @ map sc_cast_id (cp_scheduled_charges sim)
      @ map ring_cast_id (cp_previewed_rings sim))"
    using assms by (simp add: schedule_inv_def cast_ids_def)
  show "distinct (cast_ids (emitted targets sim))"
    unfolding ids distinct_append
    by (intro conjI distinct_map_filter) (use distinct in \<open>auto simp del: distinct_map\<close>)
  show "\<forall>d \<in> due_times (emitted targets sim). cp_tick sim < d"
    by (auto simp: due_times_def emitted_def emit_due_scheduled_def Let_def)
qed

definition next_active ::
  "core_caldus_simulation \<Rightarrow> core_caldus_phase \<Rightarrow> u64 \<Rightarrow> u64 \<Rightarrow> u64 \<Rightarrow> core_caldus_state" where
  "next_active sim phase phase_tick loop_tick loop_length =
     (if loop_length \<le> loop_tick + 1
      then Active phase (phase_tick + 1) 0
        (resolved_loop_length phase (cp_current_health sim) (lock_maximum_health (cp_lock sim)) (cp_soft_enraged sim))
      else Active phase (phase_tick + 1) (loop_tick + 1) loop_length)"

lemma checked_add_one_eq: "checked_add v 1 = Some w \<longleftrightarrow> v \<noteq> - 1 \<and> w = (v + 1 :: u64)"
  by (auto simp: checked_add_one)

lemma outcome_checked_add:
  fixes v :: u64
  assumes "unat v \<le> unat (cp_tick sim0)"
  shows "outcome sim0 (\<lambda>w. w = v + 1 \<and> unat w = unat v + 1) (ok_or (checked_add v 1) (Failed e))"
proof (cases "checked_add v 1")
  case None
  with assms have "exhausted sim0"
    by (simp add: checked_add_eq_None exhausted_def)
  with None show ?thesis by (simp add: outcome_def)
next
  case (Some w)
  then have "unat w = unat v + 1"
    by (simp add: checked_add_eq_Some)
  moreover from Some have "w = v + 1"
    unfolding checked_add_one_eq by simp
  ultimately have "w = v + 1" "unat w = unat v + 1" by blast+
  with Some show ?thesis by simp
qed

lemma outcome_clock:
  assumes state: "cp_state sim = Active phase phase_tick loop_tick loop_length"
    and order: "loop_tick < loop_length" "loop_tick \<le> phase_tick" "unat phase_tick \<le> unat (cp_local_tick sim)"
      "unat (cp_local_tick sim) \<le> unat (cp_tick sim)" and tick: "cp_tick sim = cp_tick sim0"
  shows "outcome sim0 (\<lambda>(sim', events'). sim' = sim\<lparr>cp_local_tick := cp_local_tick sim + 1,
        cp_state := next_active sim phase phase_tick loop_tick loop_length\<rparr>
      \<and> unat (cp_local_tick sim + 1) = unat (cp_local_tick sim) + 1 \<and> unat (phase_tick + 1) = unat phase_tick + 1
      \<and> unat (loop_tick + 1) = unat loop_tick + 1)
    (advance_active_clock (sim, events))"
proof -
  have bounds: "unat phase_tick \<le> unat (cp_tick sim0)" "unat loop_tick \<le> unat (cp_tick sim0)"
    "unat (cp_local_tick sim) \<le> unat (cp_tick sim0)"
    using order tick by (simp_all add: word_le_nat_alt)
  show ?thesis
    unfolding advance_active_clock_def prod.case state core_caldus_state.case Let_def
    by (intro outcome_bind [OF outcome_checked_add [OF bounds(1)]] outcome_bind [OF outcome_checked_add [OF bounds(2)]]
        outcome_bind [OF outcome_checked_add [OF bounds(3)]])
      (use tick in \<open>auto simp: next_active_def intro!: outcome_bind [OF outcome_add_ticks]\<close>)
qed

lemma resolved_loop_length_bounds:
  "0 < resolved_loop_length phase health maximum soft"
  "unat (resolved_loop_length phase health maximum soft) \<le> 450"
  by (cases phase; simp add: resolved_loop_length_def)+

text \<open>\<open>ticked sim0 sim\<close>: \<open>sim\<close> is the result of a step from \<open>sim0\<close>.\<close>

definition ticked :: "core_caldus_simulation \<Rightarrow> core_caldus_simulation \<Rightarrow> bool" where
  "ticked sim0 sim \<longleftrightarrow> pattern_inv sim \<and> cp_lock sim = cp_lock sim0
     \<and> cp_current_health sim = cp_current_health sim0 \<and> unat (cp_tick sim) = unat (cp_tick sim0) + 1
     \<and> unat (cp_next_cast_id sim0) \<le> unat (cp_next_cast_id sim)"

lemma outcome_with_tick:
  assumes "cp_tick (fst work) = cp_tick sim0"
  shows "outcome sim0 (\<lambda>(sim', events'). \<exists>t. unat t = unat (cp_tick sim0) + 1 \<and> sim' = (fst work)\<lparr>cp_tick := t\<rparr>
    \<and> events' = snd work) (with_tick work)"
  unfolding with_tick_def increment_global_tick_def
  by (intro outcome_bind [where P = "\<lambda>sim'. \<exists>t. unat t = unat (cp_tick sim0) + 1 \<and> sim' = (fst work)\<lparr>cp_tick := t\<rparr>"]
      outcome_bind [OF outcome_add_ticks]) (use assms in auto)

lemma ticked_result:
  assumes sched: "scheduling sim0 6 sim" and inv: "pattern_inv sim0"
    and state: "cp_state sim0 = Active phase phase_tick loop_tick loop_length"
    and rings: "phase = Phase3 \<and> unat loop_tick \<le> 66 \<longrightarrow> rings_last (unat loop_tick) sim"
    and plus: "unat (cp_local_tick sim0 + 1) = unat (cp_local_tick sim0) + 1"
      "unat (phase_tick + 1) = unat phase_tick + 1" "unat (loop_tick + 1) = unat loop_tick + 1"
    and t: "unat t = unat (cp_tick sim0) + 1"
    and result: "sim' = (emitted targets sim)\<lparr>cp_local_tick := cp_local_tick sim0 + 1,
      cp_state := next_active sim0 phase phase_tick loop_tick loop_length, cp_tick := t\<rparr>"
  shows "ticked sim0 sim'"
proof -
  have frame: "cp_lock sim = cp_lock sim0" "cp_tick sim = cp_tick sim0" "cp_current_health sim = cp_current_health sim0"
    "cp_soft_enraged sim = cp_soft_enraged sim0" "unat (cp_next_cast_id sim0) \<le> unat (cp_next_cast_id sim)"
    and schedule: "schedule_inv sim"
    using sched by (simp_all add: scheduling_def)
  have clock: "loop_tick < loop_length" "loop_tick \<le> phase_tick" "unat phase_tick \<le> unat (cp_local_tick sim0)"
    "unat (cp_local_tick sim0) \<le> unat (cp_tick sim0)" "unat loop_length \<le> 450"
    "cp_soft_enraged sim0 \<longrightarrow> CALDUS_SOFT_ENRAGE_TICKS \<le> cp_local_tick sim0"
    using inv state by (simp_all add: pattern_inv_def phase_inv_def)
  have ids: "cast_ids sim' = cast_ids (emitted targets sim)" "due_times sim' = due_times (emitted targets sim)"
    by (simp_all add: result cast_ids_def due_times_def)
  have "t \<le> d" if "d \<in> due_times sim'" for d
    using emitted_schedule(3) [OF schedule, of targets] that t frame(2)
    unfolding ids by (auto simp: word_le_nat_alt word_less_nat_alt)
  moreover have "distinct (cast_ids sim')" "\<forall>i \<in> set (cast_ids sim'). i < cp_next_cast_id sim"
    using emitted_schedule(1,2) [OF schedule, of targets] schedule unfolding ids by (auto simp: schedule_inv_def)
  ultimately have schedule': "schedule_inv sim'"
    using schedule unfolding schedule_inv_def by (simp add: result)
  have rings': "rings_last (unat (loop_tick + 1)) sim'" if "phase = Phase3" "unat (loop_tick + 1) \<le> 66"
  proof -
    have last: "rings_last (unat loop_tick) sim"
      using rings that plus(3) by simp
    have "ring_fires_at r > cp_tick sim" if "r \<in> set (cp_previewed_rings sim)" for r
      using last that \<open>unat (loop_tick + 1) \<le> 66\<close> plus(3) frame(2)
      by (fastforce simp: rings_last_def word_less_nat_alt)
    then have "cp_previewed_rings sim' = cp_previewed_rings sim"
      by (simp add: result)
    with last t frame(2) plus(3) show ?thesis
      by (simp add: rings_last_def result add.commute)
  qed
  have "phase_inv sim'"
  proof (cases "loop_length \<le> loop_tick + 1")
    case True
    with clock plus resolved_loop_length_bounds show ?thesis
      by (simp add: phase_inv_def result next_active_def word_neq_0_conv)
  next
    case False
    have "loop_tick + 1 \<le> phase_tick + 1"
      using clock(2) plus(2,3) by (simp add: word_le_nat_alt)
    moreover have "cp_state sim' = Active phase (phase_tick + 1) (loop_tick + 1) loop_length"
      "cp_local_tick sim' = cp_local_tick sim0 + 1"
      using False by (simp_all add: result next_active_def)
    ultimately show ?thesis
      using False clock plus rings' by (simp add: phase_inv_def not_le)
  qed
  moreover have "cp_soft_enraged sim0 \<longrightarrow> CALDUS_SOFT_ENRAGE_TICKS \<le> cp_local_tick sim0 + 1"
    using clock(6) plus(1) by (auto simp: word_le_nat_alt)
  ultimately show ?thesis
    using schedule' clock(4) plus(1) t frame
    by (simp add: ticked_def pattern_inv_def result)
qed

lemma outcome_active_end:
  assumes sched: "scheduling sim0 6 sim" and inv: "pattern_inv sim0"
    and state: "cp_state sim0 = Active phase phase_tick loop_tick loop_length"
    and rings: "phase = Phase3 \<and> unat loop_tick \<le> 66 \<longrightarrow> rings_last (unat loop_tick) sim"
  shows "outcome sim0 (\<lambda>(sim', events'). ticked sim0 sim'
      \<and> cp_state sim' = next_active sim0 phase phase_tick loop_tick loop_length \<and> cp_soft_enraged sim' = cp_soft_enraged sim0)
    (and_then (advance_active_clock (emit_due_scheduled targets (sim, events))) with_tick)"
proof -
  let ?e = "emitted targets sim"
  have frame: "cp_lock sim = cp_lock sim0" "cp_tick sim = cp_tick sim0" "cp_local_tick sim = cp_local_tick sim0"
    "cp_current_health sim = cp_current_health sim0" "cp_state sim = cp_state sim0"
    "cp_soft_enraged sim = cp_soft_enraged sim0" "unat (cp_next_cast_id sim0) \<le> unat (cp_next_cast_id sim)"
    and schedule: "schedule_inv sim"
    using sched by (simp_all add: scheduling_def)
  have clock: "loop_tick < loop_length" "loop_tick \<le> phase_tick" "unat phase_tick \<le> unat (cp_local_tick sim0)"
    "unat (cp_local_tick sim0) \<le> unat (cp_tick sim0)" "unat loop_length \<le> 450"
    using inv state by (simp_all add: pattern_inv_def phase_inv_def)
  have "cp_state ?e = Active phase phase_tick loop_tick loop_length"
    using frame(5) state by simp
  note state_e = this
  obtain ev where emit: "emit_due_scheduled targets (sim, events) = (?e, ev)"
    using emit_fst by blast
  show ?thesis
    unfolding emit
  proof (rule outcome_bind [OF outcome_clock [OF state_e]])
    show "loop_tick < loop_length" "loop_tick \<le> phase_tick" "unat phase_tick \<le> unat (cp_local_tick ?e)"
      "unat (cp_local_tick ?e) \<le> unat (cp_tick ?e)" "cp_tick ?e = cp_tick sim0"
      using clock frame by simp_all
  next
    fix work :: pattern_work
    assume "case work of (sim', events') \<Rightarrow> sim' = ?e\<lparr>cp_local_tick := cp_local_tick ?e + 1,
        cp_state := next_active ?e phase phase_tick loop_tick loop_length\<rparr>
      \<and> unat (cp_local_tick ?e + 1) = unat (cp_local_tick ?e) + 1 \<and> unat (phase_tick + 1) = unat phase_tick + 1
      \<and> unat (loop_tick + 1) = unat loop_tick + 1"
    then have work: "fst work = ?e\<lparr>cp_local_tick := cp_local_tick sim0 + 1,
        cp_state := next_active sim0 phase phase_tick loop_tick loop_length\<rparr>"
      and plus: "unat (cp_local_tick sim0 + 1) = unat (cp_local_tick sim0) + 1"
        "unat (phase_tick + 1) = unat phase_tick + 1" "unat (loop_tick + 1) = unat loop_tick + 1"
      using frame by (auto simp: next_active_def)
    show "outcome sim0 (\<lambda>(sim', events'). ticked sim0 sim'
      \<and> cp_state sim' = next_active sim0 phase phase_tick loop_tick loop_length \<and> cp_soft_enraged sim' = cp_soft_enraged sim0)
      (with_tick work)"
    proof (rule outcome_mono [OF outcome_with_tick], use work frame in simp)
      fix result :: pattern_work
      assume "case result of (sim', events') \<Rightarrow> \<exists>t. unat t = unat (cp_tick sim0) + 1
        \<and> sim' = (fst work)\<lparr>cp_tick := t\<rparr> \<and> events' = snd work"
      then obtain t where t: "unat t = unat (cp_tick sim0) + 1" "fst result = (fst work)\<lparr>cp_tick := t\<rparr>"
        by (cases result) auto
      have "ticked sim0 (fst result)"
        using t work by (intro ticked_result [OF sched inv state rings plus t(1), where targets = targets]) simp
      then show "case result of (sim', events') \<Rightarrow> ticked sim0 sim'
        \<and> cp_state sim' = next_active sim0 phase phase_tick loop_tick loop_length \<and> cp_soft_enraged sim' = cp_soft_enraged sim0"
        using t(2) work frame by (cases result) auto
    qed
  qed
qed

section \<open>The phases\<close>

text \<open>The health thresholds over the naturals: 70 percent opens phase two, 35 percent phase three.\<close>

fun next_phase :: "nat \<Rightarrow> nat \<Rightarrow> core_caldus_phase \<Rightarrow> core_caldus_phase option" where
  "next_phase health maximum Phase1 = (if 100 * health \<le> 70 * maximum then Some Phase2 else None)"
| "next_phase health maximum Phase2 = (if 100 * health \<le> 35 * maximum then Some Phase3 else None)"
| "next_phase health maximum Phase3 = None"

lemma threshold_reached_iff:
  assumes "unat percent \<le> 100"
  shows "threshold_reached health maximum percent \<longleftrightarrow> 100 * unat health \<le> unat percent * unat maximum"
proof -
  have "unat maximum * unat percent \<le> unat maximum * 100"
    by (rule mult_le_mono2 [OF assms])
  moreover have "unat maximum * 100 < 2 ^ 64" "unat health * 100 < 2 ^ 64"
    using unat_bound [of maximum] unat_bound [of health] by simp_all
  ultimately have "unat maximum * unat percent < 2 ^ 64" "unat health * 100 < 2 ^ 64"
    by (blast intro: le_less_trans)+
  then have "unat ((ucast health :: u64) * 100) = unat health * 100"
    "unat ((ucast maximum :: u64) * ucast percent) = unat maximum * unat percent"
    by (simp_all add: unat_word_ariths)
  then show ?thesis
    by (simp add: threshold_reached_def word_le_nat_alt mult.commute)
qed

lemma phase_to_enter_eq:
  "phase_to_enter sim phase = next_phase (unat (cp_current_health sim)) (unat (lock_maximum_health (cp_lock sim))) phase"
  by (cases phase) (simp_all add: phase_to_enter_def threshold_reached_iff Let_def)

lemma next_phase_not_first: "next_phase h m phase \<noteq> Some Phase1"
  by (cases phase) auto

definition enraged :: "core_caldus_simulation \<Rightarrow> core_caldus_simulation" where
  "enraged sim = sim\<lparr>cp_soft_enraged := cp_soft_enraged sim \<or> CALDUS_SOFT_ENRAGE_TICKS \<le> cp_local_tick sim\<rparr>"

definition active_after ::
  "core_caldus_simulation \<Rightarrow> core_caldus_phase \<Rightarrow> u64 \<Rightarrow> u64 \<Rightarrow> u64 \<Rightarrow> core_caldus_state" where
  "active_after sim phase phase_tick loop_tick loop_length =
     (case next_phase (unat (cp_current_health sim)) (unat (lock_maximum_health (cp_lock sim))) phase of
        Some entering \<Rightarrow> Break entering (cp_tick sim + 120)
      | None \<Rightarrow> next_active (enraged sim) phase phase_tick loop_tick loop_length)"

lemma ticked_break:
  assumes inv: "pattern_inv sim" and entering: "entering \<noteq> Phase1" and ends: "unat ends_at = unat (cp_tick sim) + 120"
    and t: "unat t = unat (cp_tick sim) + 1"
  shows "ticked sim (sim\<lparr>cp_scheduled_shields := [], cp_scheduled_charges := [], cp_previewed_rings := [],
    cp_state := Break entering ends_at, cp_tick := t\<rparr>)"
  using assms by (auto simp: ticked_def pattern_inv_def schedule_inv_def phase_inv_def cast_ids_def due_times_def
      timeline_empty_def)

lemma enraged_keeps:
  assumes "pattern_inv sim"
  shows "pattern_inv (enraged sim)" "scheduling (enraged sim) 0 (enraged sim)"
    "exhausted (enraged sim) = exhausted sim" "ticked (enraged sim) sim' = ticked sim sim'"
    "cp_state (enraged sim) = cp_state sim"
  using assms
  by (auto simp: pattern_inv_def enraged_def schedule_inv_def cast_ids_def due_times_def scheduling_def exhausted_def
      ticked_def phase_inv_def timeline_empty_def rings_last_def split: core_caldus_state.splits)

lemma start_soft_enrage_fst: "\<exists>ev. start_soft_enrage (sim, events) = (enraged sim, ev)"
  by (cases sim) (simp add: start_soft_enrage_def enraged_def)

lemma outcome_advance_active:
  assumes inv: "pattern_inv sim" and state: "cp_state sim = Active phase phase_tick loop_tick loop_length"
  shows "outcome sim (\<lambda>(sim', events'). ticked sim sim' \<and> cp_state sim' = active_after sim phase phase_tick loop_tick loop_length)
    (advance_active targets (sim, events))"
proof (cases "next_phase (unat (cp_current_health sim)) (unat (lock_maximum_health (cp_lock sim))) phase")
  case (Some entering)
  let ?cleared = "sim\<lparr>cp_scheduled_shields := [], cp_scheduled_charges := [], cp_previewed_rings := []\<rparr>"
  have entering: "entering \<noteq> Phase1"
    using Some next_phase_not_first by metis
  have "outcome sim (\<lambda>(broke, work). broke \<and> (\<exists>ends_at. unat ends_at = unat (cp_tick sim) + 120 \<and> ends_at = cp_tick sim + 120
      \<and> fst work = ?cleared\<lparr>cp_state := Break entering ends_at\<rparr>)) (maybe_start_phase_break (sim, events))"
  proof -
    have "unat (cp_tick sim + 120) = unat (cp_tick sim) + 120" if "unat x = unat (cp_tick sim) + 120" for x :: u64
      using that unat_bound [of x] by (simp add: unat_word_ariths)
    then show ?thesis
      unfolding maybe_start_phase_break_def fst_conv state core_caldus_state.case phase_to_enter_eq Some option.case
        cancel_timeline_def Let_def prod.case
      by (intro outcome_bind [OF outcome_add_ticks]) (auto simp: CALDUS_PHASE_BREAK_TICKS_def word_unat_eq_iff)
  qed
  then show ?thesis
    unfolding advance_active_def
  proof (rule outcome_bind)
    fix r :: "bool \<times> pattern_work"
    assume "case r of (broke, work) \<Rightarrow> broke \<and> (\<exists>ends_at. unat ends_at = unat (cp_tick sim) + 120 \<and> ends_at = cp_tick sim + 120
      \<and> fst work = ?cleared\<lparr>cp_state := Break entering ends_at\<rparr>)"
    then obtain work ends_at where r: "r = (True, work)" "unat ends_at = unat (cp_tick sim) + 120"
      "ends_at = cp_tick sim + 120" "fst work = ?cleared\<lparr>cp_state := Break entering ends_at\<rparr>"
      by (cases r) auto
    have "outcome sim (\<lambda>(sim', events'). ticked sim sim' \<and> cp_state sim' = active_after sim phase phase_tick loop_tick loop_length)
        (with_tick work)"
    proof (rule outcome_mono [OF outcome_with_tick], use r(4) in simp)
      fix result :: pattern_work
      assume "case result of (sim', events') \<Rightarrow> \<exists>t. unat t = unat (cp_tick sim) + 1
        \<and> sim' = (fst work)\<lparr>cp_tick := t\<rparr> \<and> events' = snd work"
      then obtain t where "unat t = unat (cp_tick sim) + 1" "fst result = (fst work)\<lparr>cp_tick := t\<rparr>"
        by (cases result) auto
      with ticked_break [OF inv entering r(2)] r(3,4) Some show "case result of (sim', events') \<Rightarrow> ticked sim sim'
        \<and> cp_state sim' = active_after sim phase phase_tick loop_tick loop_length"
        by (cases result) (simp add: active_after_def)
    qed
    with r(1) show "outcome sim (\<lambda>(sim', events'). ticked sim sim' \<and> cp_state sim' = active_after sim phase phase_tick loop_tick loop_length)
        (case r of (broke, work) \<Rightarrow> if broke then with_tick work
          else let work = start_soft_enrage work in
            case cp_state (fst work) of
              Active phase phase_tick loop_tick loop_length \<Rightarrow>
                and_then (schedule_pattern_starts phase loop_tick targets work) (\<lambda>work.
                and_then (advance_active_clock (emit_due_scheduled targets work)) with_tick)
            | _ \<Rightarrow> Inl Panic)" by simp
  qed
next
  case None
  note keeps = enraged_keeps [OF inv]
  obtain ev where soft: "start_soft_enrage (sim, events) = (enraged sim, ev)"
    using start_soft_enrage_fst by blast
  have state': "cp_state (enraged sim) = Active phase phase_tick loop_tick loop_length"
    by (simp add: keeps(5) state)
  have rings: "phase = Phase3 \<and> 0 < unat loop_tick \<and> unat loop_tick \<le> 66 \<longrightarrow> rings_last (unat loop_tick) (enraged sim)"
    using keeps(1) state' by (simp add: pattern_inv_def phase_inv_def)
  have "outcome (enraged sim) (\<lambda>(sim', events'). ticked (enraged sim) sim'
      \<and> cp_state sim' = next_active (enraged sim) phase phase_tick loop_tick loop_length)
    (and_then (schedule_pattern_starts phase loop_tick targets (enraged sim, ev)) (\<lambda>work.
       and_then (advance_active_clock (emit_due_scheduled targets work)) with_tick))"
  proof (rule outcome_bind [OF outcome_pattern_starts [OF keeps(2) rings]])
    fix work :: pattern_work
    assume "case work of (sim', events') \<Rightarrow> scheduling (enraged sim) 6 sim'
      \<and> (phase = Phase3 \<and> unat loop_tick \<le> 66 \<longrightarrow> rings_last (unat loop_tick) sim')"
    then show "outcome (enraged sim) (\<lambda>(sim', events'). ticked (enraged sim) sim'
        \<and> cp_state sim' = next_active (enraged sim) phase phase_tick loop_tick loop_length)
      (and_then (advance_active_clock (emit_due_scheduled targets work)) with_tick)"
      using outcome_active_end [OF _ keeps(1) state', of "fst work" targets "snd work"]
      by (cases work) (auto elim!: outcome_mono)
  qed
  moreover have "outcome (enraged sim) P r = outcome sim P r" for P and r :: "caldus_failure + pattern_work"
    by (simp add: outcome_def keeps(3) cong: sum.case_cong)
  ultimately show ?thesis
    using None state'
    by (simp add: advance_active_def maybe_start_phase_break_def state phase_to_enter_eq soft Let_def active_after_def
        keeps(4))
qed

section \<open>The whole step\<close>

definition acceptable :: "core_caldus_input \<Rightarrow> core_caldus_simulation \<Rightarrow> bool" where
  "acceptable input sim \<longleftrightarrow> ci_tick input = cp_tick sim \<and> ci_current_health input \<le> cp_current_health sim
     \<and> (\<exists>targets. validate_targets (cp_lock sim) (ci_living_targets input) = Inr targets)
     \<and> cp_state sim \<noteq> CaldusDefeated"

definition state_after :: "core_caldus_simulation \<Rightarrow> u32 \<Rightarrow> core_caldus_state" where
  "state_after sim health =
     (let sim = sim\<lparr>cp_current_health := health\<rparr> in
      if health = 0 then CaldusDefeated
      else case cp_state sim of
             Break entering ends_at \<Rightarrow>
               if cp_tick sim < ends_at then Break entering ends_at
               else active_after sim entering 0 0 (base_loop_length entering)
           | Active phase phase_tick loop_tick loop_length \<Rightarrow> active_after sim phase phase_tick loop_tick loop_length
           | CaldusDefeated \<Rightarrow> CaldusDefeated)"

lemma outcome_exhausted_cong:
  "exhausted sim1 = exhausted sim \<Longrightarrow> outcome sim1 P r = outcome sim P r"
  by (simp add: outcome_def cong: sum.case_cong)

lemma pattern_inv_health:
  "pattern_inv sim \<Longrightarrow> cp_state sim \<noteq> CaldusDefeated \<Longrightarrow> pattern_inv (sim\<lparr>cp_current_health := h\<rparr>)"
  by (auto simp: pattern_inv_def schedule_inv_def cast_ids_def due_times_def phase_inv_def timeline_empty_def
      rings_last_def split: core_caldus_state.splits)

lemma pattern_inv_start_phase:
  "pattern_inv sim \<Longrightarrow> cp_state sim = Break entering ends_at
     \<Longrightarrow> pattern_inv (sim\<lparr>cp_state := Active entering 0 0 (base_loop_length entering)\<rparr>)"
  by (cases entering) (auto simp: pattern_inv_def schedule_inv_def cast_ids_def due_times_def phase_inv_def
      CALDUS_PHASE_ONE_LOOP_TICKS_def CALDUS_PHASE_TWO_LOOP_TICKS_def CALDUS_PHASE_THREE_LOOP_TICKS_def)

lemma outcome_ticked_only:
  assumes "cp_tick sim1 = cp_tick sim" and "\<And>t. unat t = unat (cp_tick sim) + 1 \<Longrightarrow> P (sim1\<lparr>cp_tick := t\<rparr>)"
  shows "outcome sim (\<lambda>(sim', events'). P sim') (with_tick (sim1, events))"
  using outcome_with_tick [of "(sim1, events)" sim] assms by (auto elim!: outcome_mono)

lemma active_after_state [simp]:
  "active_after (sim\<lparr>cp_state := s\<rparr>) = active_after sim"
  by (simp add: fun_eq_iff active_after_def next_active_def enraged_def split: option.split)

lemma ticked_state: "ticked (sim\<lparr>cp_state := s\<rparr>) sim' = ticked sim sim'"
  by (simp add: ticked_def)

lemma outcome_advance_inner:
  assumes inv: "pattern_inv sim" and ok: "acceptable input sim"
  shows "outcome sim (\<lambda>(sim', events'). ticked (sim\<lparr>cp_current_health := ci_current_health input\<rparr>) sim'
      \<and> cp_state sim' = state_after sim (ci_current_health input)) (advance_inner input sim)"
proof -
  let ?h = "ci_current_health input"
  let ?sim = "sim\<lparr>cp_current_health := ?h\<rparr>"
  let ?P = "\<lambda>sim'. ticked ?sim sim' \<and> cp_state sim' = state_after sim ?h"
  have inv': "pattern_inv ?sim"
    using inv ok by (intro pattern_inv_health) (auto simp: acceptable_def)
  have ex: "exhausted ?sim = exhausted sim" "exhausted (?sim\<lparr>cp_state := s\<rparr>) = exhausted sim" for s
    by (simp_all add: exhausted_def)
  obtain targets where targets: "validate_targets (cp_lock sim) (ci_living_targets input) = Inr targets"
    using ok by (auto simp: acceptable_def)
  have start: "advance_inner input sim =
      (if ?h = 0
       then (case cancel_timeline (current_phase (cp_state sim)) (?sim, []) of (sim, events) \<Rightarrow>
              with_tick (sim\<lparr>cp_state := CaldusDefeated\<rparr>, events @ [BossDefeated (cp_tick sim)]))
       else case cp_state sim of
              Break entering ends_at \<Rightarrow>
                if cp_tick sim < ends_at then with_tick (?sim, [])
                else advance_active targets (start_phase entering (?sim, []))
            | _ \<Rightarrow> advance_active targets (?sim, []))"
    using ok targets
    by (simp add: advance_inner_def acceptable_def Let_def leD cong: core_caldus_state.case_cong)
  show ?thesis
  proof (cases "?h = 0")
    case True
    let ?final = "?sim\<lparr>cp_scheduled_shields := [], cp_scheduled_charges := [], cp_previewed_rings := [], cp_state := CaldusDefeated\<rparr>"
    have "?P (?final\<lparr>cp_tick := t\<rparr>)" if "unat t = unat (cp_tick sim) + 1" for t
      using inv' that True by (auto simp: ticked_def pattern_inv_def schedule_inv_def cast_ids_def due_times_def
          phase_inv_def timeline_empty_def state_after_def)
    then have "outcome sim (\<lambda>(sim', events'). ?P sim') (with_tick (?final, ev))" for ev
      by (intro outcome_ticked_only) simp_all
    then show ?thesis
      unfolding start by (simp add: True cancel_timeline_def Let_def)
  next
    case False
    show ?thesis
    proof (cases "cp_state sim")
      case (Active phase phase_tick loop_tick loop_length)
      with outcome_advance_active [OF inv', of phase phase_tick loop_tick loop_length targets "[]"] False
      show ?thesis
        unfolding start outcome_exhausted_cong [OF ex(1)] by (simp add: state_after_def Let_def)
    next
      case (Break entering ends_at)
      show ?thesis
      proof (cases "cp_tick sim < ends_at")
        case True
        have "?P (?sim\<lparr>cp_tick := t\<rparr>)" if "unat t = unat (cp_tick sim) + 1" for t
          using inv' that True False Break by (auto simp: ticked_def pattern_inv_def schedule_inv_def cast_ids_def
              due_times_def phase_inv_def timeline_empty_def state_after_def Let_def)
        then have "outcome sim (\<lambda>(sim', events'). ?P sim') (with_tick (?sim, []))"
          by (intro outcome_ticked_only) simp_all
        with Break True False show ?thesis
          unfolding start by simp
      next
        case waited: False
        have "pattern_inv (?sim\<lparr>cp_state := Active entering 0 0 (base_loop_length entering)\<rparr>)"
          using pattern_inv_start_phase [OF inv'] Break by simp
        from outcome_advance_active [OF this, of entering 0 0 "base_loop_length entering" targets
            "[PhaseStarted (cp_tick sim) entering]"] Break False waited
        show ?thesis
          unfolding start outcome_exhausted_cong [OF ex(2)] ticked_state active_after_state
          by (simp add: start_phase_def state_after_def Let_def)
      qed
    next
      case CaldusDefeated
      with ok show ?thesis by (simp add: acceptable_def)
    qed
  qed
qed

lemma advance_rejects:
  assumes "\<not> acceptable input sim"
  shows "\<exists>e. advance_inner input sim = Inl (Failed e)"
proof (cases "validate_targets (cp_lock sim) (ci_living_targets input)")
  case (Inl e)
  then show ?thesis by (auto simp: advance_inner_def)
next
  case (Inr targets)
  with assms show ?thesis by (auto simp: advance_inner_def acceptable_def Let_def)
qed

section \<open>Accepted target sets\<close>

abbreviation target_slot :: "core_caldus_target_input \<Rightarrow> u8" where
  "target_slot t \<equiv> part_party_slot (tgt_participant t)"

abbreviation target_entity :: "core_caldus_target_input \<Rightarrow> entity_id" where
  "target_entity t \<equiv> part_entity_id (tgt_participant t)"

definition targets_ok :: "core_boss_participant_lock \<Rightarrow> core_caldus_target_input list \<Rightarrow> bool" where
  "targets_ok lock targets \<longleftrightarrow>
     (\<forall>t \<in> set targets. tgt_participant t \<in> set (lock_participants lock))
     \<and> distinct (map target_entity targets) \<and> distinct (map target_slot targets)"

lemma participant_key_inject: "participant_key p = participant_key q \<longleftrightarrow> p = q"
  by (auto simp: participant_key_def core_boss_participant.equality)

lemma target_loop:
  assumes "btree_ok m"
  shows "(\<exists>state'. try_fold (validate_target lock) targets (m, entities) = Inr state') \<longleftrightarrow>
    targets_ok lock targets \<and> target_entity ` set targets \<inter> entities = {}
    \<and> target_slot ` set targets \<inter> dom (btree_get m) = {}"
  using assms
proof (induction targets arbitrary: m entities)
  case (Cons t targets)
  have member: "participant_key p \<in> participant_key ` A \<longleftrightarrow> p \<in> A" for p A
    by (auto simp: participant_key_inject)
  have step: "validate_target lock t (m, entities) = Inr state' \<longleftrightarrow>
      tgt_participant t \<in> set (lock_participants lock) \<and> target_entity t \<notin> entities \<and> target_slot t \<notin> dom (btree_get m)
      \<and> state' = (btree_insert (target_slot t) t m, insert (target_entity t) entities)" for state'
    by (auto simp: validate_target_def Let_def member)
  show ?case
  proof (cases "tgt_participant t \<in> set (lock_participants lock) \<and> target_entity t \<notin> entities
      \<and> target_slot t \<notin> dom (btree_get m)")
    case True
    have "dom (btree_get (btree_insert (target_slot t) t m)) = insert (target_slot t) (dom (btree_get m))"
      by (simp add: btree_get_insert [OF Cons.prems])
    with Cons.IH [OF btree_ok_insert [OF Cons.prems]] True show ?thesis
      by (auto simp: step targets_ok_def)
  next
    case False
    then have "\<not> (\<exists>state'. validate_target lock t (m, entities) = Inr state')"
      unfolding step by blast
    with False show ?thesis
      by (auto simp: targets_ok_def)
  qed
qed (simp add: targets_ok_def)

lemma validate_targets_exact:
  "(\<exists>m. validate_targets lock targets = Inr m) \<longleftrightarrow> targets_ok lock targets"
  using target_loop [of "[]" lock targets "{}"]
  by (auto simp: validate_targets_def btree_ok_def btree_get_map_of)

section \<open>Reachable simulations\<close>

definition pattern_initial :: "core_caldus_simulation \<Rightarrow> bool" where
  "pattern_initial sim \<longleftrightarrow> (\<exists>lock t. new_pattern_at_tick lock t = Inr sim)"

definition pattern_step :: "core_caldus_simulation \<Rightarrow> core_caldus_input \<Rightarrow> core_caldus_simulation \<Rightarrow> bool" where
  "pattern_step sim input sim' \<longleftrightarrow> (\<exists>r. advance input sim = (r, sim'))"

fun phase_rank :: "core_caldus_state \<Rightarrow> nat" where
  "phase_rank (Active Phase1 _ _ _) = 0"
| "phase_rank (Break Phase1 _) = 0"
| "phase_rank (Break Phase2 _) = 1"
| "phase_rank (Active Phase2 _ _ _) = 2"
| "phase_rank (Break Phase3 _) = 3"
| "phase_rank (Active Phase3 _ _ _) = 4"
| "phase_rank CaldusDefeated = 5"

lemma pattern_inv_new: "new_pattern_at_tick lock t = Inr sim \<Longrightarrow> pattern_inv sim"
  by (auto simp: new_pattern_at_tick_def validate_lock_def pattern_inv_def schedule_inv_def phase_inv_def cast_ids_def
      due_times_def CALDUS_PHASE_ONE_LOOP_TICKS_def split: if_splits)

lemma advance_Inr:
  assumes "advance input sim = (Inr events, sim')" and "pattern_inv sim"
  shows "acceptable input sim" and "ticked (sim\<lparr>cp_current_health := ci_current_health input\<rparr>) sim'"
    and "cp_state sim' = state_after sim (ci_current_health input)"
proof -
  have inner: "advance_inner input sim = Inr (sim', events)"
    using assms(1) by (auto simp: advance_def split: sum.splits)
  then show ok: "acceptable input sim"
    using advance_rejects by fastforce
  from outcome_advance_inner [OF assms(2) ok] inner
  show "ticked (sim\<lparr>cp_current_health := ci_current_health input\<rparr>) sim'"
    "cp_state sim' = state_after sim (ci_current_health input)" by simp_all
qed

lemma advance_Inl: "advance input sim = (Inl f, sim') \<Longrightarrow> sim' = sim"
  by (auto simp: advance_def split: sum.splits)

lemma active_after_rank:
  "phase_rank (Active phase p l n) \<le> phase_rank (active_after sim phase p' l' n')"
  by (cases phase) (auto simp: active_after_def next_active_def)

lemma state_after_rank: "phase_rank (cp_state sim) \<le> phase_rank (state_after sim health)"
proof (cases "cp_state sim")
  case (Active phase phase_tick loop_tick loop_length)
  then show ?thesis
    using active_after_rank [of phase phase_tick loop_tick loop_length "sim\<lparr>cp_current_health := health\<rparr>"]
    by (cases phase) (auto simp: state_after_def Let_def)
next
  case (Break entering ends_at)
  have "phase_rank (Break entering ends_at) \<le> phase_rank (Active entering 0 0 0)"
    by (cases entering) auto
  with Break active_after_rank [of entering 0 0 0 "sim\<lparr>cp_current_health := health\<rparr>" 0 0 "base_loop_length entering"]
  show ?thesis
    by (cases entering) (auto simp: state_after_def Let_def)
qed (simp add: state_after_def Let_def)

lemma pattern_step_keeps:
  assumes "pattern_inv sim" and "pattern_step sim input sim'"
  shows "pattern_inv sim' \<and> phase_rank (cp_state sim) \<le> phase_rank (cp_state sim')"
proof -
  obtain r where step: "advance input sim = (r, sim')"
    using assms(2) by (auto simp: pattern_step_def)
  show ?thesis
  proof (cases r)
    case (Inl f)
    with advance_Inl step assms(1) show ?thesis by blast
  next
    case (Inr events)
    with advance_Inr [OF _ assms(1)] step state_after_rank show ?thesis
      by (simp add: ticked_def)
  qed
qed

interpretation caldus: monotone_system pattern_initial pattern_step pattern_inv "\<lambda>sim. phase_rank (cp_state sim)"
  by unfold_locales (auto simp: pattern_initial_def dest: pattern_inv_new pattern_step_keeps)

text \<open>
  C16. In every reachable state of the boss scheduler the scheduled casts carry pairwise different identifiers
  below the next one and are due in the present or the future, the ring gap index is one of 18, the
  loop clock stays inside its loop, a break starts with an empty timeline and lasts at most 120
  more ticks; and the boss never returns to an earlier phase.
\<close>

theorem caldus_pattern_reachable_ok:
  assumes "reachable pattern_initial pattern_step sim"
  shows "distinct (cast_ids sim) \<and> (\<forall>i \<in> set (cast_ids sim). i < cp_next_cast_id sim)
    \<and> (\<forall>d \<in> due_times sim. cp_tick sim \<le> d) \<and> cp_ordinary_gap_start sim < 18
    \<and> (\<forall>phase p l n. cp_state sim = Active phase p l n \<longrightarrow> l < n \<and> unat n \<le> 450)
    \<and> (\<forall>e ends. cp_state sim = Break e ends \<longrightarrow>
         e \<noteq> Phase1 \<and> cast_ids sim = [] \<and> unat ends \<le> unat (cp_tick sim) + 120)
    \<and> (\<forall>ts input sim'. trace pattern_step sim ts \<and> (input, sim') \<in> set ts \<longrightarrow>
         phase_rank (cp_state sim) \<le> phase_rank (cp_state sim'))"
proof -
  have inv: "pattern_inv sim"
    by (rule caldus.reachable_inv [OF assms])
  have "phase_rank (cp_state sim) \<le> phase_rank (cp_state sim')"
    if "trace pattern_step sim ts" "(input, sim') \<in> set ts" for ts input sim'
    using caldus.trace_progress [OF inv that] .
  with inv show ?thesis
    by (auto simp: pattern_inv_def schedule_inv_def phase_inv_def timeline_empty_def cast_ids_def)
qed

text \<open>
  C14. A step never panics, and while the tick and cast counters have head room it succeeds exactly on the
  acceptable inputs: the expected tick, a health that has not grown, targets that are different
  participants of the lock, and a boss that is not defeated. In particular the preview of the
  second and third ring never indexes past the scheduled rings. A refused step changes nothing.
\<close>

theorem caldus_advance_total:
  assumes "reachable pattern_initial pattern_step sim"
  shows "fst (advance input sim) \<noteq> Inl Panic
    \<and> (\<forall>f sim'. advance input sim = (Inl f, sim') \<longrightarrow> sim' = sim)
    \<and> (unat (cp_tick sim) + 200 < 2 ^ 64 \<and> unat (cp_next_cast_id sim) + 8 < 2 ^ 64 \<longrightarrow>
        ((\<exists>events sim'. advance input sim = (Inr events, sim')) \<longleftrightarrow>
          ci_tick input = cp_tick sim \<and> ci_current_health input \<le> cp_current_health sim
          \<and> targets_ok (cp_lock sim) (ci_living_targets input) \<and> cp_state sim \<noteq> CaldusDefeated))"
proof (cases "acceptable input sim")
  case True
  from outcome_advance_inner [OF caldus.reachable_inv [OF assms] True] True show ?thesis
    unfolding acceptable_def validate_targets_exact
    by (auto simp: advance_def outcome_def exhausted_def split: sum.splits)
next
  case False
  then obtain e where "advance_inner input sim = Inl (Failed e)"
    using advance_rejects by blast
  with False show ?thesis
    by (auto simp: advance_def acceptable_def validate_targets_exact)
qed

text \<open>
  C15. The phase machine is exact. A successful step leads to defeat exactly at zero health; a running break
  stays until its tick; otherwise the boss leaves phase one at 70 percent and phase two at 35
  percent of its maximum health for a break of 120 ticks into the next phase, and else advances the
  clock of its attack loop, restarting it at the loop length that its health and the soft enrage
  give it.
\<close>

theorem caldus_phase_exact:
  assumes "reachable pattern_initial pattern_step sim" and "advance input sim = (Inr events, sim')"
  shows "cp_state sim' = state_after sim (ci_current_health input)
    \<and> unat (cp_tick sim') = unat (cp_tick sim) + 1
    \<and> cp_current_health sim' = ci_current_health input \<and> cp_lock sim' = cp_lock sim"
  using advance_Inr [OF assms(2) caldus.reachable_inv [OF assms(1)]] by (simp add: ticked_def)

section \<open>Shield volleys\<close>

lemma scan_targets_eq:
  "length selected < k \<Longrightarrow> scan_targets sim targets k offsets selected = selected @ take (k - length selected)
     (List.map_filter (\<lambda>offset. btree_get targets (part_party_slot (lock_participants (cp_lock sim)
        ! ((cp_shield_cursor sim + offset) mod party_size sim)))) offsets)"
proof (induction sim targets k offsets selected rule: scan_targets.induct)
  case (2 sim targets k offset offsets selected)
  show ?case
  proof (cases "btree_get targets (part_party_slot (lock_participants (cp_lock sim)
      ! ((cp_shield_cursor sim + offset) mod party_size sim)))")
    case None
    with 2(1)[OF refl refl None] 2(3) show ?thesis
      by (simp add: Let_def List.map_filter_simps)
  next
    case (Some t)
    show ?thesis
    proof (cases "length (selected @ [t]) = k")
      case True
      then have "k - length selected = Suc 0" by simp
      with True Some show ?thesis
        by (simp add: Let_def List.map_filter_simps)
    next
      case False
      with 2(3) have "k - length selected = Suc (k - length (selected @ [t]))" by simp
      with 2(2)[OF refl refl Some False] 2(3) False Some show ?thesis
        by (simp add: Let_def List.map_filter_simps)
    qed
  qed
qed (simp add: List.map_filter_simps)

lemma rotate_offsets: "map (\<lambda>offset. xs ! ((c + offset) mod length xs)) [0..<length xs] = rotate c xs"
  by (rule nth_equalityI) (simp_all add: nth_rotate)

lemma map_filter_comp: "List.map_filter (\<lambda>x. f (g x)) xs = List.map_filter f (map g xs)"
  by (induction xs) (simp_all add: List.map_filter_simps split: option.split)

lemma map_filter_total:
  "(\<And>x. x \<in> set xs \<Longrightarrow> \<exists>y. f x = Some y \<and> g y = x) \<Longrightarrow> map g (List.map_filter f xs) = xs"
proof (induction xs)
  case (Cons x xs)
  from Cons.prems [of x] obtain y where "f x = Some y" "g y = x" by auto
  with Cons show ?case by (simp add: List.map_filter_simps)
qed (simp add: List.map_filter_simps)

lemma position_distinct:
  "distinct xs \<Longrightarrow> i < length xs \<Longrightarrow> position (\<lambda>x. x = xs ! i) xs = Some i"
  unfolding position_eq_Some using nth_eq_iff_index_eq by fastforce

lemma shield_selection:
  assumes "select_shield_targets targets sim = (selected, sim')" and "4 \<le> party_size sim"
  shows "selected = take (shield_target_count (party_size sim))
    (List.map_filter (\<lambda>p. btree_get targets (part_party_slot p)) (rotate (cp_shield_cursor sim) (lock_participants (cp_lock sim))))"
proof -
  let ?k = "shield_target_count (party_size sim)"
  have "?k \<noteq> 1" "0 < ?k"
    using assms(2) by (simp_all add: shield_target_count_def)
  then have "selected = scan_targets sim targets ?k [0..<party_size sim] []"
    using assms(1) unfolding select_shield_targets_def Let_def by (auto split: if_splits option.splits)
  with scan_targets_eq [of "[]" ?k sim targets "[0..<party_size sim]"] \<open>0 < ?k\<close> show ?thesis
    by (simp add: map_filter_comp [of "\<lambda>p. btree_get targets (part_party_slot p)"
          "\<lambda>offset. lock_participants (cp_lock sim) ! ((cp_shield_cursor sim + offset) mod party_size sim)"]
        rotate_offsets)
qed

text \<open>
  Shield volleys against four or more locked participants go round the party: the volley aims at the first
  two (three from seven participants) living targets in party order from the cursor on, cyclically;
  and while the whole party lives the cursor then stands behind the last one aimed at, so that
  consecutive volleys go round the party evenly.
\<close>

lemma shield_volleys_round_robin:
  assumes "select_shield_targets targets sim = (selected, sim')" and "4 \<le> party_size sim"
  shows "selected = take (shield_target_count (party_size sim)) (List.map_filter
      (\<lambda>p. btree_get targets (part_party_slot p)) (rotate (cp_shield_cursor sim) (lock_participants (cp_lock sim))))
    \<and> (distinct (lock_participants (cp_lock sim))
        \<and> (\<forall>p \<in> set (lock_participants (cp_lock sim)). \<exists>t. btree_get targets (part_party_slot p) = Some t \<and> tgt_participant t = p) \<longrightarrow>
          map tgt_participant selected
            = take (shield_target_count (party_size sim)) (rotate (cp_shield_cursor sim) (lock_participants (cp_lock sim)))
          \<and> cp_shield_cursor sim' = (cp_shield_cursor sim + shield_target_count (party_size sim)) mod party_size sim)"
proof (intro conjI impI, rule shield_selection [OF assms])
  let ?ps = "lock_participants (cp_lock sim)" and ?k = "shield_target_count (party_size sim)" and ?c = "cp_shield_cursor sim"
  assume all: "distinct ?ps \<and> (\<forall>p \<in> set ?ps. \<exists>t. btree_get targets (part_party_slot p) = Some t \<and> tgt_participant t = p)"
  have k: "1 < ?k" "?k \<le> party_size sim"
    using assms(2) by (simp_all add: shield_target_count_def)
  have "map tgt_participant (List.map_filter (\<lambda>p. btree_get targets (part_party_slot p)) (rotate ?c ?ps)) = rotate ?c ?ps"
    using all by (intro map_filter_total) auto
  then show map: "map tgt_participant selected = take ?k (rotate ?c ?ps)"
    by (simp add: shield_selection [OF assms] take_map [symmetric])
  then have length: "length selected = ?k"
    using k(2) by (metis length_map length_rotate length_take min_absorb2)
  then have "selected \<noteq> []"
    using k(1) by auto
  then have "tgt_participant (last selected) = map tgt_participant selected ! (?k - 1)"
    using length k(1) by (simp add: last_conv_nth)
  also have "\<dots> = ?ps ! ((?c + (?k - 1)) mod party_size sim)"
    unfolding map using k by (simp add: nth_rotate)
  finally have last: "tgt_participant (last selected) = ?ps ! ((?c + (?k - 1)) mod party_size sim)" .
  have "(?c + (?k - 1)) mod party_size sim < party_size sim"
    using assms(2) by (intro mod_less_divisor) linarith
  with position_distinct all have "position (\<lambda>p. p = tgt_participant (last selected)) ?ps = Some ((?c + (?k - 1)) mod party_size sim)"
    unfolding last by blast
  then have "cp_shield_cursor sim' = ((?c + (?k - 1)) mod party_size sim + 1) mod party_size sim"
    using assms(1) \<open>selected \<noteq> []\<close> k(1) unfolding select_shield_targets_def Let_def by (auto split: if_splits option.splits)
  then show "cp_shield_cursor sim' = (?c + ?k) mod party_size sim"
    using k(1) by (simp add: mod_Suc_eq)
qed

section \<open>Concrete steps\<close>

definition sample_pattern :: core_caldus_simulation where
  "sample_pattern = \<lparr>cp_lock = sample_roster, cp_tick = 7, cp_local_tick = 0, cp_current_health = 7200,
     cp_state = Active Phase1 0 0 234, cp_next_cast_id = 1, cp_ordinary_gap_start = 0, cp_shield_cursor = 0,
     cp_scheduled_shields = [], cp_scheduled_charges = [], cp_previewed_rings = [], cp_soft_enraged = False\<rparr>"

definition sample_target :: core_caldus_target_input where
  "sample_target = \<lparr>tgt_participant = sample_fighter, tgt_position_x_milli_tiles = 4000,
     tgt_position_y_milli_tiles = 5000, tgt_squared_distance_to_boss = 9\<rparr>"

definition sample_advance :: core_caldus_input where
  "sample_advance = \<lparr>ci_tick = 7, ci_current_health = 5000, ci_living_targets = [sample_target]\<rparr>"

lemma sample_pattern_reachable: "reachable pattern_initial pattern_step sample_pattern"
proof (rule reachable_initial)
  have "new_pattern_at_tick sample_roster 7 = Inr sample_pattern"
    by (simp add: new_pattern_at_tick_def validate_lock_def sample_roster_def validate_participant_def
        sample_fighter_def sample_pattern_def CALDUS_PHASE_ONE_LOOP_TICKS_def)
  then show "pattern_initial sample_pattern"
    by (auto simp: pattern_initial_def)
qed

lemma sample_targets_ok: "targets_ok sample_roster [sample_target]"
  by (simp add: targets_ok_def sample_roster_def sample_target_def)

lemma sample_advance_succeeds: "\<exists>events sim'. advance sample_advance sample_pattern = (Inr events, sim')"
proof -
  have "acceptable sample_advance sample_pattern"
    unfolding acceptable_def validate_targets_exact
    using sample_targets_ok by (simp add: sample_advance_def sample_pattern_def)
  from outcome_advance_inner [OF caldus.reachable_inv [OF sample_pattern_reachable] this] show ?thesis
    by (auto simp: outcome_def advance_def exhausted_def sample_pattern_def split: sum.splits)
qed

theorem caldus_pattern_reachable_ok_witness: "cp_ordinary_gap_start sample_pattern < 18 \<and> distinct (cast_ids sample_pattern)"
  using caldus_pattern_reachable_ok [OF sample_pattern_reachable] by blast

theorem caldus_advance_total_witness: "\<exists>events sim'. advance sample_advance sample_pattern = (Inr events, sim')"
  using caldus_advance_total [OF sample_pattern_reachable, of sample_advance] sample_targets_ok
  by (simp add: sample_advance_def sample_pattern_def)

theorem caldus_phase_exact_witness:
  "\<exists>events sim'. advance sample_advance sample_pattern = (Inr events, sim') \<and> cp_state sim' = Break Phase2 127"
proof -
  obtain events sim' where step: "advance sample_advance sample_pattern = (Inr events, sim')"
    using sample_advance_succeeds by blast
  from caldus_phase_exact [OF sample_pattern_reachable step] step show ?thesis
    by (simp add: state_after_def active_after_def sample_pattern_def sample_advance_def sample_roster_def Let_def)
qed

definition sample_party :: "core_boss_participant list" where
  "sample_party = map (\<lambda>i. \<lparr>part_entity_id = EntityId (of_nat i + 1), part_party_slot = of_nat i\<rparr>) [0..<4]"

definition sample_volley :: core_caldus_simulation where
  "sample_volley = sample_pattern\<lparr>cp_lock := sample_roster\<lparr>lock_participants := sample_party\<rparr>, cp_shield_cursor := 3\<rparr>"

definition sample_party_targets :: target_map where
  "sample_party_targets = map (\<lambda>p. (part_party_slot p, sample_target\<lparr>tgt_participant := p\<rparr>)) sample_party"

end
