(* ===== verification/Dungeon_Room.thy ===== *)
theory Dungeon_Room
  imports Byte_Encoding
begin

text \<open>
  Authored dungeon rooms (\<open>sim_core/src/dungeon_room.rs\<close>): validation and quarter-turn rotation of a
  room template, the flood fill that proves its doors and utility anchors connected, the placement of
  rooms in a fixed layout, and the digest of a layout. Coordinates are milli-tiles; an \<open>i32\<close> or \<open>i64\<close> is
  its two's complement word, and unchecked \<open>+\<close>, \<open>-\<close> and \<open>*\<close> wrap as in the release profile. The hash
  (\<open>blake3\<close>) is a parameter from the bytes fed to the hasher to the hexadecimal digest.
\<close>

section \<open>Doors, volumes and anchors\<close>

datatype dungeon_door_side = North | East | South | West

fun side_index :: "dungeon_door_side \<Rightarrow> u8" where
  "side_index North = 0"
| "side_index East = 1"
| "side_index South = 2"
| "side_index West = 3"

definition rotated_clockwise :: "dungeon_door_side \<Rightarrow> u8 \<Rightarrow> dungeon_door_side" where
  "rotated_clockwise side quarter_turns =
     (let turned = (side_index side + quarter_turns mod 4) mod 4 in
      if turned = 0 then North else if turned = 1 then East else if turned = 2 then South else West)"

definition opposite :: "dungeon_door_side \<Rightarrow> dungeon_door_side" where
  "opposite side = rotated_clockwise side 2"

fun outward_unit :: "dungeon_door_side \<Rightarrow> i32 \<times> i32" where
  "outward_unit North = (0, - 1)"
| "outward_unit East = (1, 0)"
| "outward_unit South = (0, 1)"
| "outward_unit West = (- 1, 0)"

record dungeon_door_definition =
  dd_id :: string
  dd_side :: dungeon_door_side
  dd_offset_milli_tiles :: u32
  dd_width_milli_tiles :: u32

datatype dungeon_room_volume_kind = Solid | DeepWater | WalkableBoundary | PatternLane | ObjectiveArea

datatype dungeon_room_volume_geometry =
    Rectangle i32 i32 u32 u32
  | Circle i32 i32 u32
  | Polyline u32 "(i32 \<times> i32) list"

record dungeon_room_volume =
  rv_id :: string
  rv_kind :: dungeon_room_volume_kind
  rv_geometry :: dungeon_room_volume_geometry

datatype dungeon_anchor_kind =
    SafeEntry | Exit | Fodder | Pressure | Disruptor | AnchorEnemy | Miniboss | Stage | Add | Shrine
  | Stabilization | Chest | Boss | ChargeEndpoint | Group

record dungeon_room_anchor =
  ra_id :: string
  ra_kind :: dungeon_anchor_kind
  ra_x_milli_tiles :: i32
  ra_y_milli_tiles :: i32
  ra_bound_content_id :: "string option"

record dungeon_room_definition =
  dr_id :: string
  dr_width_milli_tiles :: u32
  dr_height_milli_tiles :: u32
  dr_doors :: "dungeon_door_definition list"
  dr_volumes :: "dungeon_room_volume list"
  dr_anchors :: "dungeon_room_anchor list"
  dr_safe_noncombat :: bool

datatype dungeon_room_error =
    InvalidRoomIdentityOrSize
  | DuplicateId string
  | InvalidDoor string
  | InvalidVolume string
  | InvalidAnchor string
  | InvalidRotation
  | UnknownDoor string string
  | InvalidLayout
  | InvalidCorridor
  | CoordinateOverflow
  | InvalidNavigationParameters
  | MissingNavigationTarget
  | UnwalkableNavigationPoint i32 i32
  | DisconnectedNavigation

record rotated_dungeon_door =
  rd_id :: string
  rd_side :: dungeon_door_side
  rd_x_milli_tiles :: i32
  rd_y_milli_tiles :: i32
  rd_width_milli_tiles :: u32

record rotated_dungeon_room =
  rr_room_id :: string
  rr_rotation_degrees :: u16
  rr_width_milli_tiles :: u32
  rr_height_milli_tiles :: u32
  rr_doors :: "rotated_dungeon_door list"
  rr_volumes :: "dungeon_room_volume list"
  rr_anchors :: "dungeon_room_anchor list"
  rr_safe_noncombat :: bool

section \<open>Rotation\<close>

definition I32_MAX :: i32 where
  "I32_MAX = 2147483647"

text \<open>\<open>i32::try_from(value).unwrap_or(i32::MAX)\<close> of a \<open>u32\<close>, and \<open>i32::abs_diff\<close>.\<close>

definition i32_or_max :: "u32 \<Rightarrow> i32" where
  "i32_or_max v = (if v \<le> I32_MAX then v else I32_MAX)"

definition abs_diff :: "i32 \<Rightarrow> i32 \<Rightarrow> u32" where
  "abs_diff a b = (if a <s b then b - a else a - b)"

definition smin :: "i32 \<Rightarrow> i32 \<Rightarrow> i32" where
  "smin a b = (if b <s a then b else a)"

definition rotation_quarter_turns :: "u16 \<Rightarrow> dungeon_room_error + u8" where
  "rotation_quarter_turns rotation_degrees =
     (if rotation_degrees = 0 then Inr 0
      else if rotation_degrees = 90 then Inr 1
      else if rotation_degrees = 180 then Inr 2
      else if rotation_degrees = 270 then Inr 3
      else Inl InvalidRotation)"

definition rotated_dimensions :: "u32 \<Rightarrow> u32 \<Rightarrow> u8 \<Rightarrow> u32 \<times> u32" where
  "rotated_dimensions width height quarter_turns =
     (if quarter_turns mod 2 = 0 then (width, height) else (height, width))"

definition door_point :: "dungeon_door_definition \<Rightarrow> u32 \<Rightarrow> u32 \<Rightarrow> i32 \<times> i32" where
  "door_point door width height =
     (let off = i32_or_max (dd_offset_milli_tiles door) in
      case dd_side door of
        North \<Rightarrow> (off, 0)
      | East \<Rightarrow> (i32_or_max width, off)
      | South \<Rightarrow> (off, i32_or_max height)
      | West \<Rightarrow> (0, off))"

definition rotate_point :: "i32 \<Rightarrow> i32 \<Rightarrow> u32 \<Rightarrow> u32 \<Rightarrow> u8 \<Rightarrow> i32 \<times> i32" where
  "rotate_point x y width height quarter_turns =
     (let w = i32_or_max width; h = i32_or_max height in
      if quarter_turns = 0 then (x, y)
      else if quarter_turns = 1 then (h - y, x)
      else if quarter_turns = 2 then (w - x, h - y)
      else (y, w - x))"

fun rotate_geometry ::
  "dungeon_room_volume_geometry \<Rightarrow> u32 \<Rightarrow> u32 \<Rightarrow> u8 \<Rightarrow> dungeon_room_volume_geometry" where
  "rotate_geometry (Rectangle x y rectangle_width rectangle_height) width height quarter_turns =
     (let c0 = rotate_point x y width height quarter_turns;
          c1 = rotate_point (x + i32_or_max rectangle_width) (y + i32_or_max rectangle_height)
                 width height quarter_turns
      in Rectangle (smin (fst c0) (fst c1)) (smin (snd c0) (snd c1))
           (abs_diff (fst c0) (fst c1)) (abs_diff (snd c0) (snd c1)))"
| "rotate_geometry (Circle x y radius) width height quarter_turns =
     (let (x', y') = rotate_point x y width height quarter_turns in Circle x' y' radius)"
| "rotate_geometry (Polyline line_width points) width height quarter_turns =
     Polyline line_width (map (\<lambda>(x, y). rotate_point x y width height quarter_turns) points)"

definition rotated_door :: "dungeon_room_definition \<Rightarrow> u8 \<Rightarrow> dungeon_door_definition \<Rightarrow> rotated_dungeon_door" where
  "rotated_door room quarter_turns door =
     (let (x, y) = door_point door (dr_width_milli_tiles room) (dr_height_milli_tiles room);
          (x', y') = rotate_point x y (dr_width_milli_tiles room) (dr_height_milli_tiles room) quarter_turns
      in \<lparr>rd_id = dd_id door, rd_side = rotated_clockwise (dd_side door) quarter_turns,
           rd_x_milli_tiles = x', rd_y_milli_tiles = y', rd_width_milli_tiles = dd_width_milli_tiles door\<rparr>)"

definition rotated_volume :: "dungeon_room_definition \<Rightarrow> u8 \<Rightarrow> dungeon_room_volume \<Rightarrow> dungeon_room_volume" where
  "rotated_volume room quarter_turns volume =
     volume\<lparr>rv_geometry := rotate_geometry (rv_geometry volume)
       (dr_width_milli_tiles room) (dr_height_milli_tiles room) quarter_turns\<rparr>"

definition rotated_anchor :: "dungeon_room_definition \<Rightarrow> u8 \<Rightarrow> dungeon_room_anchor \<Rightarrow> dungeon_room_anchor" where
  "rotated_anchor room quarter_turns anchor =
     (let (x, y) = rotate_point (ra_x_milli_tiles anchor) (ra_y_milli_tiles anchor)
        (dr_width_milli_tiles room) (dr_height_milli_tiles room) quarter_turns
      in anchor\<lparr>ra_x_milli_tiles := x, ra_y_milli_tiles := y\<rparr>)"

definition rotated :: "dungeon_room_definition \<Rightarrow> u16 \<Rightarrow> dungeon_room_error + rotated_dungeon_room" where
  "rotated room rotation_degrees =
     and_then (rotation_quarter_turns rotation_degrees) (\<lambda>quarter_turns.
       let (width, height) =
         rotated_dimensions (dr_width_milli_tiles room) (dr_height_milli_tiles room) quarter_turns
       in Inr
         \<lparr>rr_room_id = dr_id room, rr_rotation_degrees = rotation_degrees,
          rr_width_milli_tiles = width, rr_height_milli_tiles = height,
          rr_doors = map (rotated_door room quarter_turns) (dr_doors room),
          rr_volumes = map (rotated_volume room quarter_turns) (dr_volumes room),
          rr_anchors = map (rotated_anchor room quarter_turns) (dr_anchors room),
          rr_safe_noncombat = dr_safe_noncombat room\<rparr>)"

section \<open>Validation\<close>

definition point_in_bounds :: "i32 \<Rightarrow> i32 \<Rightarrow> u32 \<Rightarrow> u32 \<Rightarrow> bool" where
  "point_in_bounds x y width height \<longleftrightarrow>
     0 \<le>s x \<and> 0 \<le>s y \<and> (scast x :: i64) \<le>s ucast width \<and> (scast y :: i64) \<le>s ucast height"

fun geometry_in_bounds :: "dungeon_room_volume_geometry \<Rightarrow> u32 \<Rightarrow> u32 \<Rightarrow> bool" where
  "geometry_in_bounds (Rectangle x y rectangle_width rectangle_height) width height \<longleftrightarrow>
     0 < rectangle_width \<and> 0 < rectangle_height \<and> 0 \<le>s x \<and> 0 \<le>s y
     \<and> (scast x + ucast rectangle_width :: i64) \<le>s ucast width
     \<and> (scast y + ucast rectangle_height :: i64) \<le>s ucast height"
| "geometry_in_bounds (Circle x y radius) width height \<longleftrightarrow> 0 < radius \<and> point_in_bounds x y width height"
| "geometry_in_bounds (Polyline line_width points) width height \<longleftrightarrow>
     0 < line_width \<and> 2 \<le> length points \<and> list_all (\<lambda>(x, y). point_in_bounds x y width height) points"

text \<open>A \<open>BTreeSet\<close> of the values has their number of elements when no value repeats.\<close>

definition unique :: "string list \<Rightarrow> string \<Rightarrow> dungeon_room_error + unit" where
  "unique values domain =
     (if length (remdups values) \<noteq> length values then Inl (DuplicateId domain) else Inr ())"

definition validate_door :: "dungeon_room_definition \<Rightarrow> dungeon_door_definition \<Rightarrow> unit \<Rightarrow> dungeon_room_error + unit" where
  "validate_door room door u =
     (let edge = (case dd_side door of
          North \<Rightarrow> dr_width_milli_tiles room | South \<Rightarrow> dr_width_milli_tiles room
        | East \<Rightarrow> dr_height_milli_tiles room | West \<Rightarrow> dr_height_milli_tiles room)
      in if dd_id door = [] \<or> dd_width_milli_tiles door = 0 \<or> dd_offset_milli_tiles door > edge
         then Inl (InvalidDoor (dd_id door)) else Inr ())"

definition validate_anchor :: "dungeon_room_definition \<Rightarrow> dungeon_room_anchor \<Rightarrow> unit \<Rightarrow> dungeon_room_error + unit" where
  "validate_anchor room anchor u =
     (if ra_id anchor = []
         \<or> \<not> point_in_bounds (ra_x_milli_tiles anchor) (ra_y_milli_tiles anchor)
              (dr_width_milli_tiles room) (dr_height_milli_tiles room)
      then Inl (InvalidAnchor (ra_id anchor)) else Inr ())"

definition validate_volume :: "dungeon_room_definition \<Rightarrow> dungeon_room_volume \<Rightarrow> unit \<Rightarrow> dungeon_room_error + unit" where
  "validate_volume room volume u =
     (if rv_id volume = []
         \<or> \<not> geometry_in_bounds (rv_geometry volume) (dr_width_milli_tiles room) (dr_height_milli_tiles room)
      then Inl (InvalidVolume (rv_id volume)) else Inr ())"

definition validated_room :: "dungeon_room_definition \<Rightarrow> dungeon_room_error + dungeon_room_definition" where
  "validated_room room =
     (if dr_id room = [] \<or> dr_width_milli_tiles room = 0 \<or> dr_height_milli_tiles room = 0
         \<or> dr_width_milli_tiles room > I32_MAX \<or> dr_height_milli_tiles room > I32_MAX
      then Inl InvalidRoomIdentityOrSize
      else and_then (unique (map dd_id (dr_doors room)) ''door'') (\<lambda>_.
           and_then (unique (map rv_id (dr_volumes room)) ''volume'') (\<lambda>_.
           and_then (unique (map ra_id (dr_anchors room)) ''anchor'') (\<lambda>_.
           and_then (try_fold (validate_door room) (dr_doors room) ()) (\<lambda>_.
           and_then (try_fold (validate_anchor room) (dr_anchors room) ()) (\<lambda>_.
           and_then (try_fold (validate_volume room) (dr_volumes room) ()) (\<lambda>_.
             Inr room)))))))"

section \<open>Navigation\<close>

record dungeon_room_navigation_evidence =
  ne_visited_grid_points :: nat
  ne_required_target_count :: nat

text \<open>The test of one volume at a point, in \<open>i64\<close>; True lets the loop go on to the next volume.\<close>

definition volume_allows :: "i64 \<Rightarrow> i64 \<Rightarrow> i64 \<Rightarrow> dungeon_room_volume \<Rightarrow> bool" where
  "volume_allows x y radius volume =
     (case rv_geometry volume of
        Rectangle rect_x rect_y width height \<Rightarrow>
          if rv_kind volume = Solid \<or> rv_kind volume = DeepWater then
            let expanded_left = scast rect_x - radius; expanded_top = scast rect_y - radius;
                expanded_right = scast rect_x + ucast width + radius;
                expanded_bottom = scast rect_y + ucast height + radius
            in \<not> (expanded_left <s x \<and> x <s expanded_right \<and> expanded_top <s y \<and> y <s expanded_bottom)
          else True
      | Circle center_x center_y boundary_radius \<Rightarrow>
          if rv_kind volume = WalkableBoundary then
            let usable_radius = ucast boundary_radius - radius;
                dx = x - scast center_x; dy = y - scast center_y
            in \<not> (usable_radius \<le>s 0
                  \<or> saturating_smul usable_radius usable_radius <s saturating_smul dx dx + saturating_smul dy dy)
          else True
      | Polyline _ _ \<Rightarrow> True)"

definition navigation_point_is_walkable :: "dungeon_room_definition \<Rightarrow> i32 \<times> i32 \<Rightarrow> u32 \<Rightarrow> bool" where
  "navigation_point_is_walkable room point actor_radius_milli_tiles =
     (let radius = ucast actor_radius_milli_tiles :: i64; x = scast (fst point); y = scast (snd point) in
      if x <s radius \<or> y <s radius
         \<or> ucast (dr_width_milli_tiles room) - radius <s x
         \<or> ucast (dr_height_milli_tiles room) - radius <s y
      then False
      else list_all (volume_allows x y radius) (dr_volumes room))"

text \<open>
  One direction of the flood: the neighbour is visited and queued unless its coordinates overflow, it
  was seen before, or the actor cannot stand there.
\<close>

definition flood_visit ::
  "dungeon_room_definition \<Rightarrow> u32 \<Rightarrow> i32 \<times> i32 \<Rightarrow> i32 \<times> i32
     \<Rightarrow> (i32 \<times> i32) set \<times> (i32 \<times> i32) list \<Rightarrow> (i32 \<times> i32) set \<times> (i32 \<times> i32) list" where
  "flood_visit room actor_radius_milli_tiles point direction state =
     (let (x, y) = point; (dx, dy) = direction; (visited, pending) = state in
      case (checked_sadd x dx, checked_sadd y dy) of
        (Some next_x, Some next_y) \<Rightarrow>
          if (next_x, next_y) \<notin> visited
             \<and> navigation_point_is_walkable room (next_x, next_y) actor_radius_milli_tiles
          then (insert (next_x, next_y) visited, pending @ [(next_x, next_y)])
          else (visited, pending)
      | _ \<Rightarrow> (visited, pending))"

definition flood_directions :: "i32 \<Rightarrow> (i32 \<times> i32) list" where
  "flood_directions step = [(0, - step), (step, 0), (0, step), (- step, 0)]"

definition flood_measure :: "(i32 \<times> i32) set \<times> (i32 \<times> i32) list \<Rightarrow> nat" where
  "flood_measure state = 2 * card (- fst state) + length (snd state)"

lemma flood_visit_measure:
  "flood_measure (flood_visit room radius point direction state) \<le> flood_measure state"
proof (cases "flood_visit room radius point direction state = state")
  case False
  then obtain q where q: "q \<notin> fst state"
    "flood_visit room radius point direction state = (insert q (fst state), snd state @ [q])"
    by (auto simp: flood_visit_def split: prod.splits option.splits if_splits)
  then have "card (- insert q (fst state)) < card (- fst state)"
    by (intro psubset_card_mono) (auto intro: finite_subset [OF subset_UNIV])
  with q show ?thesis
    by (simp add: flood_measure_def)
qed simp

lemma flood_fold_measure:
  "flood_measure (fold (flood_visit room radius point) directions state) \<le> flood_measure state"
proof (induction directions arbitrary: state)
  case (Cons d ds)
  show ?case
    using order_trans [OF Cons.IH flood_visit_measure] by (simp only: fold_Cons o_apply)
qed simp

function flood_loop ::
  "dungeon_room_definition \<Rightarrow> u32 \<Rightarrow> i32 \<Rightarrow> (i32 \<times> i32) set \<Rightarrow> (i32 \<times> i32) list \<Rightarrow> (i32 \<times> i32) set" where
  "flood_loop room radius step visited [] = visited"
| "flood_loop room radius step visited (point # pending) =
     (let (visited', pending') =
        fold (flood_visit room radius point) (flood_directions step) (visited, pending)
      in flood_loop room radius step visited' pending')"
  by pat_completeness auto

termination flood_loop
proof (relation "measure (\<lambda>(room, radius, step, visited, pending). flood_measure (visited, pending))", goal_cases)
  case (2 room radius step visited point pending state visited' pending')
  then have "flood_measure (visited', pending') \<le> flood_measure (visited, pending)"
    using flood_fold_measure [of room radius point "flood_directions step" "(visited, pending)"] by simp
  then show ?case
    by (simp add: flood_measure_def)
qed simp

definition navigation_flood ::
  "dungeon_room_definition \<Rightarrow> i32 \<times> i32 \<Rightarrow> u32 \<Rightarrow> i32 \<Rightarrow> (i32 \<times> i32) set" where
  "navigation_flood room start actor_radius_milli_tiles step =
     flood_loop room actor_radius_milli_tiles step {start} [start]"

text \<open>The walkable point behind a door: up to 16 steps inwards from the door on the room's edge.\<close>

definition door_target ::
  "dungeon_room_definition \<Rightarrow> u32 \<Rightarrow> i32 \<Rightarrow> dungeon_door_definition \<Rightarrow> dungeon_room_error + i32 \<times> i32" where
  "door_target room actor_radius_milli_tiles inset door =
     (let (x, y) = door_point door (dr_width_milli_tiles room) (dr_height_milli_tiles room);
          (outward_x, outward_y) = outward_unit (dd_side door)
      in ok_or
        (find (\<lambda>point. navigation_point_is_walkable room point actor_radius_milli_tiles)
          (map (\<lambda>n. (x - outward_x * inset * of_nat n, y - outward_y * inset * of_nat n)) [1..<17]))
        (InvalidDoor (dd_id door)))"

definition prove_targets ::
  "dungeon_room_definition \<Rightarrow> u32 \<Rightarrow> i32 \<Rightarrow> (i32 \<times> i32) list
     \<Rightarrow> dungeon_room_error + dungeon_room_navigation_evidence" where
  "prove_targets room actor_radius_milli_tiles inset targets =
     (case targets of
        [] \<Rightarrow> Inl MissingNavigationTarget
      | first # _ \<Rightarrow>
          (case find (\<lambda>point. \<not> navigation_point_is_walkable room point actor_radius_milli_tiles) targets of
             Some (x, y) \<Rightarrow> Inl (UnwalkableNavigationPoint x y)
           | None \<Rightarrow>
               let visited = navigation_flood room first actor_radius_milli_tiles inset in
               if list_ex (\<lambda>target. target \<notin> visited) targets then Inl DisconnectedNavigation
               else Inr \<lparr>ne_visited_grid_points = card visited,
                         ne_required_target_count = length targets\<rparr>))"

definition prove_navigation ::
  "dungeon_room_definition \<Rightarrow> dungeon_anchor_kind list \<Rightarrow> u32 \<Rightarrow> u32
     \<Rightarrow> dungeon_room_error + dungeon_room_navigation_evidence" where
  "prove_navigation room required_anchor_kinds actor_radius_milli_tiles grid_step_milli_tiles =
     (if actor_radius_milli_tiles = 0 \<or> grid_step_milli_tiles = 0 \<or> grid_step_milli_tiles > I32_MAX
      then Inl InvalidNavigationParameters
      else
        and_then (try_map (door_target room actor_radius_milli_tiles grid_step_milli_tiles) (dr_doors room))
          (\<lambda>door_points.
        prove_targets room actor_radius_milli_tiles grid_step_milli_tiles
          (door_points @
           map (\<lambda>anchor. (ra_x_milli_tiles anchor, ra_y_milli_tiles anchor))
             (filter (\<lambda>anchor. ra_kind anchor \<in> set required_anchor_kinds) (dr_anchors room)))))"

section \<open>Fixed layouts\<close>

definition door :: "rotated_dungeon_room \<Rightarrow> string \<Rightarrow> rotated_dungeon_door option" where
  "door room i = find (\<lambda>d. rd_id d = i) (rr_doors room)"

record placed_dungeon_room =
  pr_node_id :: string
  pr_room :: rotated_dungeon_room
  pr_origin_x_milli_tiles :: i32
  pr_origin_y_milli_tiles :: i32
  pr_counts_toward_room_total :: bool

record world_dungeon_door =
  wd_side :: dungeon_door_side
  wd_x_milli_tiles :: i32
  wd_y_milli_tiles :: i32
  wd_width_milli_tiles :: u32

definition world_door :: "placed_dungeon_room \<Rightarrow> string \<Rightarrow> dungeon_room_error + world_dungeon_door" where
  "world_door placed i =
     and_then (ok_or (door (pr_room placed) i) (UnknownDoor (pr_node_id placed) i)) (\<lambda>d.
     and_then (ok_or (checked_sadd (pr_origin_x_milli_tiles placed) (rd_x_milli_tiles d)) CoordinateOverflow) (\<lambda>x.
     and_then (ok_or (checked_sadd (pr_origin_y_milli_tiles placed) (rd_y_milli_tiles d)) CoordinateOverflow) (\<lambda>y.
       Inr \<lparr>wd_side = rd_side d, wd_x_milli_tiles = x, wd_y_milli_tiles = y,
            wd_width_milli_tiles = rd_width_milli_tiles d\<rparr>)))"

record dungeon_corridor =
  co_from_node_id :: string
  co_to_node_id :: string
  co_start_x_milli_tiles :: i32
  co_start_y_milli_tiles :: i32
  co_end_x_milli_tiles :: i32
  co_end_y_milli_tiles :: i32
  co_width_milli_tiles :: u32
  co_length_milli_tiles :: u32

record fixed_dungeon_layout_definition =
  fl_id :: string
  fl_rooms :: "placed_dungeon_room list"
  fl_corridors :: "dungeon_corridor list"
  fl_disabled_branch_node_ids :: "string list"

text \<open>\<open>i64::unsigned_abs\<close>.\<close>

definition unsigned_abs :: "i64 \<Rightarrow> u64" where
  "unsigned_abs a = (if a <s 0 then - a else a)"

definition validate_corridor :: "string list \<Rightarrow> dungeon_corridor \<Rightarrow> unit \<Rightarrow> dungeon_room_error + unit" where
  "validate_corridor node_ids corridor u =
     (if co_from_node_id corridor \<notin> set node_ids \<or> co_to_node_id corridor \<notin> set node_ids
         \<or> co_width_milli_tiles corridor = 0 \<or> co_length_milli_tiles corridor = 0
      then Inl InvalidCorridor
      else let dx = scast (co_end_x_milli_tiles corridor) - scast (co_start_x_milli_tiles corridor);
               dy = scast (co_end_y_milli_tiles corridor) - scast (co_start_y_milli_tiles corridor)
           in if dx \<noteq> 0 \<and> dy \<noteq> 0
                 \<or> saturating_add (unsigned_abs dx) (unsigned_abs dy) \<noteq> ucast (co_length_milli_tiles corridor)
              then Inl InvalidCorridor else Inr ())"

definition validated_layout ::
  "fixed_dungeon_layout_definition \<Rightarrow> dungeon_room_error + fixed_dungeon_layout_definition" where
  "validated_layout layout =
     (if fl_id layout = [] \<or> fl_rooms layout = [] then Inl InvalidLayout
      else and_then (unique (map pr_node_id (fl_rooms layout)) ''placed room'') (\<lambda>_.
           and_then (unique (fl_disabled_branch_node_ids layout) ''disabled branch'') (\<lambda>_.
           let node_ids = map pr_node_id (fl_rooms layout) in
           and_then (try_fold (validate_corridor node_ids) (fl_corridors layout) ()) (\<lambda>_.
             Inr layout))))"

section \<open>The layout digest\<close>

definition update_text :: "string \<Rightarrow> bytes" where
  "update_text value = to_le_bytes (of_nat (length value) :: u64) @ as_bytes value"

definition room_material :: "placed_dungeon_room \<Rightarrow> bytes" where
  "room_material placed =
     update_text (pr_node_id placed)
     @ update_text (rr_room_id (pr_room placed))
     @ to_le_bytes (rr_rotation_degrees (pr_room placed))
     @ to_le_bytes (pr_origin_x_milli_tiles placed)
     @ to_le_bytes (pr_origin_y_milli_tiles placed)
     @ [if pr_counts_toward_room_total placed then 1 else 0]"

definition corridor_material :: "dungeon_corridor \<Rightarrow> bytes" where
  "corridor_material corridor =
     update_text (co_from_node_id corridor)
     @ update_text (co_to_node_id corridor)
     @ to_le_bytes (co_start_x_milli_tiles corridor)
     @ to_le_bytes (co_start_y_milli_tiles corridor)
     @ to_le_bytes (co_end_x_milli_tiles corridor)
     @ to_le_bytes (co_end_y_milli_tiles corridor)
     @ to_le_bytes (co_width_milli_tiles corridor)
     @ to_le_bytes (co_length_milli_tiles corridor)"

definition layout_material :: "fixed_dungeon_layout_definition \<Rightarrow> bytes" where
  "layout_material layout =
     update_text (fl_id layout)
     @ concat (map room_material (fl_rooms layout))
     @ concat (map corridor_material (fl_corridors layout))
     @ concat (map update_text (fl_disabled_branch_node_ids layout))"

definition deterministic_digest :: "(bytes \<Rightarrow> string) \<Rightarrow> fixed_dungeon_layout_definition \<Rightarrow> string" where
  "deterministic_digest hash layout = hash (layout_material layout)"

end
