(* ===== verification/Dungeon_Room_Properties.thy ===== *)
theory Dungeon_Room_Properties
  imports Dungeon_Room
begin

text \<open>
  Properties of dungeon rooms: the flood fill computes exactly the points an actor can reach in grid
  steps, so the navigation proof of a room is sound and complete; the walkability test is the intended
  geometry on validated rooms; rotation keeps a validated room well formed and its walkable points;
  and what the digest of a layout determines.
\<close>

text \<open>A small room with a door, a pillar, a ring and an anchor, as the input of the examples below.\<close>

definition sample_room :: dungeon_room_definition where
  "sample_room =
     \<lparr>dr_id = ''room'', dr_width_milli_tiles = 6, dr_height_milli_tiles = 4,
      dr_doors = [\<lparr>dd_id = ''west'', dd_side = West, dd_offset_milli_tiles = 2, dd_width_milli_tiles = 2\<rparr>],
      dr_volumes = [\<lparr>rv_id = ''pillar'', rv_kind = Solid, rv_geometry = Rectangle 3 0 1 1\<rparr>,
        \<lparr>rv_id = ''ring'', rv_kind = WalkableBoundary, rv_geometry = Circle 3 2 5\<rparr>],
      dr_anchors = [\<lparr>ra_id = ''entry'', ra_kind = SafeEntry, ra_x_milli_tiles = 5, ra_y_milli_tiles = 3,
        ra_bound_content_id = None\<rparr>],
      dr_safe_noncombat = True\<rparr>"

lemma sample_room_validated: "validated_room sample_room = Inr sample_room"
  by code_simp

lemma sample_room_proved:
  "prove_navigation sample_room [SafeEntry] 1 1 = Inr \<lparr>ne_visited_grid_points = 13, ne_required_target_count = 2\<rparr>"
  by code_simp

section \<open>The flood fill\<close>

text \<open>One grid step of an actor, labelled with its direction.\<close>

definition grid_step ::
  "dungeon_room_definition \<Rightarrow> u32 \<Rightarrow> i32 \<Rightarrow> i32 \<times> i32 \<Rightarrow> i32 \<times> i32 \<Rightarrow> i32 \<times> i32 \<Rightarrow> bool" where
  "grid_step room radius step p d q \<longleftrightarrow>
     d \<in> set (flood_directions step)
     \<and> sint (fst q) = sint (fst p) + sint (fst d) \<and> sint (snd q) = sint (snd p) + sint (snd d)
     \<and> navigation_point_is_walkable room q radius"

definition grid_reachable ::
  "dungeon_room_definition \<Rightarrow> u32 \<Rightarrow> i32 \<Rightarrow> i32 \<times> i32 \<Rightarrow> i32 \<times> i32 \<Rightarrow> bool" where
  "grid_reachable room radius step start = reachable (\<lambda>p. p = start) (grid_step room radius step)"

interpretation flood: transition_system "\<lambda>p. p = start" "grid_step room radius step"
  "\<lambda>p. p = start \<or> navigation_point_is_walkable room p radius" for room radius step start
  by unfold_locales (auto simp: grid_step_def)

lemma flood_visit_eq:
  assumes "d \<in> set (flood_directions step)" and "flood_visit room radius p d (visited, pending) = (visited', pending')"
  shows "visited' = visited \<union> {q. grid_step room radius step p d q}"
    and "set pending' = set pending \<union> (visited' - visited)"
proof -
  have hop: "grid_step room radius step p d q \<longleftrightarrow>
      checked_sadd (fst p) (fst d) = Some (fst q) \<and> checked_sadd (snd p) (snd d) = Some (snd q)
      \<and> navigation_point_is_walkable room q radius" for q
    using assms(1) by (simp add: grid_step_def checked_sadd_eq_Some)
  show "visited' = visited \<union> {q. grid_step room radius step p d q}"
    using assms(2) unfolding hop by (auto simp: flood_visit_def split: prod.splits option.splits if_splits)
  show "set pending' = set pending \<union> (visited' - visited)"
    using assms(2) by (auto simp: flood_visit_def split: prod.splits option.splits if_splits)
qed

lemma flood_fold_eq:
  assumes "set directions \<subseteq> set (flood_directions step)"
    and "fold (flood_visit room radius p) directions (visited, pending) = (visited', pending')"
  shows "visited' = visited \<union> {q. \<exists>d \<in> set directions. grid_step room radius step p d q}
    \<and> set pending' = set pending \<union> (visited' - visited)"
  using assms
proof (induction directions arbitrary: visited pending)
  case (Cons d ds)
  obtain v q where step: "flood_visit room radius p d (visited, pending) = (v, q)"
    by (cases "flood_visit room radius p d (visited, pending)")
  from Cons.prems(1) have "d \<in> set (flood_directions step)" "set ds \<subseteq> set (flood_directions step)"
    by auto
  with Cons.prems(2) Cons.IH [of v q] flood_visit_eq [OF _ step] show ?case
    by (auto simp: step)
qed simp

text \<open>
  The loop invariant: what is pending was visited, and every step from a visited point that is no longer
  pending leads to a visited point.
\<close>

definition flood_inv ::
  "dungeon_room_definition \<Rightarrow> u32 \<Rightarrow> i32 \<Rightarrow> (i32 \<times> i32) set \<Rightarrow> (i32 \<times> i32) list \<Rightarrow> bool" where
  "flood_inv room radius step visited pending \<longleftrightarrow>
     set pending \<subseteq> visited
     \<and> (\<forall>p d q. p \<in> visited - set pending \<longrightarrow> grid_step room radius step p d q \<longrightarrow> q \<in> visited)"

lemma flood_inv_step:
  assumes "flood_inv room radius step visited (p # pending)"
    and "fold (flood_visit room radius p) (flood_directions step) (visited, pending) = (visited', pending')"
  shows "flood_inv room radius step visited' pending'" and "visited \<subseteq> visited'"
proof -
  note eqs = flood_fold_eq [OF subset_refl assms(2)]
  then have p: "grid_step room radius step p d q \<Longrightarrow> q \<in> visited'" for d q
    by (auto simp: grid_step_def)
  from eqs show "visited \<subseteq> visited'"
    by auto
  show "flood_inv room radius step visited' pending'"
    unfolding flood_inv_def
  proof (intro conjI allI impI)
    show "set pending' \<subseteq> visited'"
      using eqs assms(1) by (auto simp: flood_inv_def)
  next
    fix x d q assume "x \<in> visited' - set pending'" "grid_step room radius step x d q"
    moreover have "x \<noteq> p \<Longrightarrow> x \<in> visited - set (p # pending)"
      using eqs calculation by auto
    ultimately show "q \<in> visited'"
      using assms(1) p \<open>visited \<subseteq> visited'\<close> unfolding flood_inv_def by blast
  qed
qed

lemma flood_loop_closed:
  assumes "flood_inv room radius step visited pending"
  shows "visited \<subseteq> flood_loop room radius step visited pending
    \<and> flood_inv room radius step (flood_loop room radius step visited pending) []"
  using assms
proof (induction room radius step visited pending rule: flood_loop.induct)
  case (2 room radius step visited p pending)
  obtain v q where vq: "fold (flood_visit room radius p) (flood_directions step) (visited, pending) = (v, q)"
    by (cases "fold (flood_visit room radius p) (flood_directions step) (visited, pending)")
  have "v \<subseteq> flood_loop room radius step v q \<and> flood_inv room radius step (flood_loop room radius step v q) []"
    by (rule 2(1) [OF vq [symmetric] refl flood_inv_step(1) [OF 2(2) vq]])
  with flood_inv_step(2) [OF 2(2) vq] vq show ?case
    by (simp add: subset_trans)
qed simp

lemma flood_loop_sound:
  assumes "visited \<subseteq> R" "set pending \<subseteq> R"
    and "\<And>p d q. p \<in> R \<Longrightarrow> grid_step room radius step p d q \<Longrightarrow> q \<in> R"
  shows "flood_loop room radius step visited pending \<subseteq> R"
  using assms
proof (induction room radius step visited pending rule: flood_loop.induct)
  case (2 room radius step visited p pending)
  obtain v q where vq: "fold (flood_visit room radius p) (flood_directions step) (visited, pending) = (v, q)"
    by (cases "fold (flood_visit room radius p) (flood_directions step) (visited, pending)")
  have "p \<in> R" "set pending \<subseteq> R"
    using "2.prems"(2) by auto
  then have "v \<subseteq> R" "set q \<subseteq> R"
    using flood_fold_eq [OF subset_refl vq] "2.prems"(1) "2.prems"(3) [of p] by blast+
  from 2(1) [OF vq [symmetric] refl this "2.prems"(3)] vq show ?case
    by simp
qed simp

lemma navigation_flood_iff:
  "q \<in> navigation_flood room start radius step \<longleftrightarrow> grid_reachable room radius step start q"
proof
  let ?F = "navigation_flood room start radius step"
  have "flood_inv room radius step {start} [start]"
    by (simp add: flood_inv_def)
  from flood_loop_closed [OF this]
  have closed: "start \<in> ?F" "\<And>p d q. p \<in> ?F \<Longrightarrow> grid_step room radius step p d q \<Longrightarrow> q \<in> ?F"
    by (auto simp: navigation_flood_def flood_inv_def)
  have "?F \<subseteq> {q. grid_reachable room radius step start q}"
    unfolding navigation_flood_def
    by (rule flood_loop_sound) (auto simp: grid_reachable_def intro: reachable.intros)
  then show "q \<in> ?F \<Longrightarrow> grid_reachable room radius step start q"
    by auto
  show "grid_reachable room radius step start q \<Longrightarrow> q \<in> ?F"
    unfolding grid_reachable_def by (induction rule: reachable.induct) (use closed in auto)
qed

lemma navigation_flood_eq:
  "navigation_flood room start radius step = {q. grid_reachable room radius step start q}"
  by (simp add: set_eq_iff navigation_flood_iff)

text \<open>
  C29. The flood terminates with exactly the points an actor of the given radius can reach: the start
  and every point that a sequence of axis-parallel steps of the grid size leads to, each step
  landing on a walkable point inside the coordinate range. It is the least set of points that holds the start and
  is closed under such steps, and every point of it but the start is walkable.
\<close>

theorem flood_exact:
  "navigation_flood room start radius step = {q. grid_reachable room radius step start q}
   \<and> navigation_flood room start radius step =
       \<Inter> {S. start \<in> S \<and> (\<forall>p \<in> S. \<forall>d. Collect (grid_step room radius step p d) \<subseteq> S)}
   \<and> navigation_flood room start radius step \<subseteq> insert start {q. navigation_point_is_walkable room q radius}"
proof (intro conjI)
  let ?F = "navigation_flood room start radius step"
  show "?F = {q. grid_reachable room radius step start q}"
    by (rule navigation_flood_eq)
  have "q \<in> S" if "start \<in> S" "\<forall>p \<in> S. \<forall>d. Collect (grid_step room radius step p d) \<subseteq> S" "q \<in> ?F" for q S
    using that(3) unfolding navigation_flood_eq grid_reachable_def mem_Collect_eq
    by (induction rule: reachable.induct) (use that(1,2) in blast)+
  then have "?F \<subseteq> \<Inter> {S. start \<in> S \<and> (\<forall>p \<in> S. \<forall>d. Collect (grid_step room radius step p d) \<subseteq> S)}"
    by blast
  moreover have "start \<in> ?F" "\<forall>p \<in> ?F. \<forall>d. Collect (grid_step room radius step p d) \<subseteq> ?F"
    unfolding navigation_flood_eq grid_reachable_def by (auto intro: reachable.intros)
  ultimately show "?F = \<Inter> {S. start \<in> S \<and> (\<forall>p \<in> S. \<forall>d. Collect (grid_step room radius step p d) \<subseteq> S)}"
    by blast
  show "?F \<subseteq> insert start {q. navigation_point_is_walkable room q radius}"
    using flood.reachable_inv [of start room radius step] unfolding navigation_flood_eq grid_reachable_def by auto
qed

theorem flood_exact_witness:
  "(5, 3) \<in> navigation_flood sample_room (1, 2) 1 1 \<and> grid_reachable sample_room 1 1 (1, 2) (5, 3)"
proof -
  have "(5, 3) \<in> navigation_flood sample_room (1, 2) 1 1"
    by code_simp
  then show ?thesis
    using flood_exact [of sample_room "(1, 2)" 1 1] by blast
qed

section \<open>The navigation proof\<close>

lemma I32_MAX_le:
  assumes "grid \<le> I32_MAX"
  shows "sint grid = uint grid" "uint grid < 2 ^ 31"
proof -
  show "uint grid < 2 ^ 31"
    using assms by (simp add: I32_MAX_def word_le_def)
  moreover have "- (2 ^ 31) \<le> uint grid"
    by (rule order_trans [OF _ unsigned_greater_eq]) simp
  ultimately show "sint grid = uint grid"
    unfolding sint_uint by (intro signed_take_bit_int_eq_self) simp_all
qed

lemma sint_uminus_grid:
  assumes "grid \<le> I32_MAX"
  shows "sint (- grid) = - sint grid"
proof -
  have "- (2 ^ 31) \<le> - sint grid \<and> - sint grid < 2 ^ 31"
    using I32_MAX_le [OF assms] unsigned_greater_eq [of grid, where ?'a = int] by linarith
  then show ?thesis
    by (simp add: sint_word_ariths signed_take_bit_int_eq_self)
qed

text \<open>A step that starts on a walkable point can be taken back.\<close>

lemma grid_step_back:
  assumes "grid \<le> I32_MAX" and "grid_step room radius grid p d q" and "navigation_point_is_walkable room p radius"
  shows "grid_step room radius grid q (- fst d, - snd d) p"
proof -
  have "(- fst d, - snd d) \<in> set (flood_directions grid)"
    using assms(2) by (auto simp: grid_step_def flood_directions_def)
  moreover have "sint (- fst d) = - sint (fst d)" "sint (- snd d) = - sint (snd d)"
    using assms(2) sint_uminus_grid [OF assms(1)] by (auto simp: grid_step_def flood_directions_def)
  ultimately show ?thesis
    using assms(2,3) by (simp add: grid_step_def)
qed

lemma grid_reachable_trans:
  "grid_reachable room radius grid q r \<Longrightarrow> grid_reachable room radius grid p q \<Longrightarrow> grid_reachable room radius grid p r"
  unfolding grid_reachable_def by (induction rule: reachable.induct) (auto intro: reachable_step)

lemma grid_reachable_refl: "grid_reachable room radius grid p p"
  by (simp add: grid_reachable_def reachable_initial)

lemma grid_reachable_back:
  assumes "grid \<le> I32_MAX" and "navigation_point_is_walkable room p radius" and "grid_reachable room radius grid p q"
  shows "grid_reachable room radius grid q p"
  using assms(3) unfolding grid_reachable_def
proof (induction rule: reachable.induct)
  case (reachable_step q d r)
  from reachable_step.hyps(1) assms(2) have "navigation_point_is_walkable room q radius"
    using flood.reachable_inv by (metis (full_types))
  from reachable_initial [of "\<lambda>p. p = r" r] grid_step_back [OF assms(1) reachable_step.hyps(2) this]
  have "grid_reachable room radius grid r q"
    unfolding grid_reachable_def by (auto intro: reachable.reachable_step)
  with reachable_step.IH show ?case
    unfolding grid_reachable_def [symmetric] by (rule grid_reachable_trans)
qed (simp add: reachable_initial)

definition utility_points :: "dungeon_room_definition \<Rightarrow> dungeon_anchor_kind list \<Rightarrow> (i32 \<times> i32) list" where
  "utility_points room kinds =
     map (\<lambda>anchor. (ra_x_milli_tiles anchor, ra_y_milli_tiles anchor))
       (filter (\<lambda>anchor. ra_kind anchor \<in> set kinds) (dr_anchors room))"

lemma prove_targets_accepts:
  "prove_targets room radius grid targets = Inr evidence \<longleftrightarrow>
     targets \<noteq> [] \<and> (\<forall>p \<in> set targets. navigation_point_is_walkable room p radius)
     \<and> (\<forall>q \<in> set targets. grid_reachable room radius grid (hd targets) q)
     \<and> ne_visited_grid_points evidence = card {q. grid_reachable room radius grid (hd targets) q}
     \<and> ne_required_target_count evidence = length targets"
proof (cases targets)
  case (Cons first rest)
  show ?thesis
  proof (cases "find (\<lambda>point. \<not> navigation_point_is_walkable room point radius) targets")
    case None
    then have "\<forall>p \<in> set targets. navigation_point_is_walkable room p radius"
      by (auto simp: find_None_iff)
    with None Cons show ?thesis
      by (cases evidence) (auto simp: prove_targets_def navigation_flood_eq Let_def list_ex_iff)
  next
    case (Some p)
    then have "\<not> (\<forall>p \<in> set targets. navigation_point_is_walkable room p radius)"
      by (auto simp: find_Some_iff)
    with Some Cons show ?thesis
      by (cases p) (auto simp: prove_targets_def)
  qed
qed (simp add: prove_targets_def)

lemma prove_targets_disconnected:
  "prove_targets room radius grid targets = Inl DisconnectedNavigation \<longleftrightarrow>
     targets \<noteq> [] \<and> (\<forall>p \<in> set targets. navigation_point_is_walkable room p radius)
     \<and> (\<exists>q \<in> set targets. \<not> grid_reachable room radius grid (hd targets) q)"
proof (cases targets)
  case (Cons first rest)
  show ?thesis
  proof (cases "find (\<lambda>point. \<not> navigation_point_is_walkable room point radius) targets")
    case None
    then have "\<forall>p \<in> set targets. navigation_point_is_walkable room p radius"
      by (auto simp: find_None_iff)
    with None Cons show ?thesis
      by (auto simp: prove_targets_def navigation_flood_eq Let_def list_ex_iff)
  next
    case (Some p)
    then have "\<not> (\<forall>p \<in> set targets. navigation_point_is_walkable room p radius)"
      by (auto simp: find_Some_iff)
    with Some Cons show ?thesis
      by (cases p) (auto simp: prove_targets_def)
  qed
qed (simp add: prove_targets_def)

lemma connected_from_head:
  assumes "grid \<le> I32_MAX" and "targets \<noteq> []" and "\<forall>p \<in> set targets. navigation_point_is_walkable room p radius"
  shows "(\<forall>q \<in> set targets. grid_reachable room radius grid (hd targets) q) \<longleftrightarrow>
    (\<forall>p \<in> set targets. \<forall>q \<in> set targets. grid_reachable room radius grid p q)"
proof
  assume head: "\<forall>q \<in> set targets. grid_reachable room radius grid (hd targets) q"
  show "\<forall>p \<in> set targets. \<forall>q \<in> set targets. grid_reachable room radius grid p q"
  proof (intro ballI)
    fix p q assume "p \<in> set targets" "q \<in> set targets"
    moreover have "navigation_point_is_walkable room (hd targets) radius"
      using assms(2,3) by simp
    ultimately show "grid_reachable room radius grid p q"
      using head grid_reachable_back [OF assms(1)] grid_reachable_trans by blast
  qed
qed (use assms(2) in simp)

lemma prove_targets_connected:
  assumes "grid \<le> I32_MAX"
  shows "prove_targets room radius grid targets = Inr evidence \<longleftrightarrow>
    targets \<noteq> [] \<and> (\<forall>p \<in> set targets. navigation_point_is_walkable room p radius)
    \<and> (\<forall>p \<in> set targets. \<forall>q \<in> set targets. grid_reachable room radius grid p q)
    \<and> ne_visited_grid_points evidence = card {q. grid_reachable room radius grid (hd targets) q}
    \<and> ne_required_target_count evidence = length targets"
  using connected_from_head [OF assms] unfolding prove_targets_accepts by blast

lemma prove_navigation_accepts:
  "prove_navigation room kinds radius grid = Inr evidence \<longleftrightarrow>
     radius \<noteq> 0 \<and> grid \<noteq> 0 \<and> grid \<le> I32_MAX
     \<and> (\<exists>door_points targets.
          list_all2 (\<lambda>d p. door_target room radius grid d = Inr p) (dr_doors room) door_points
          \<and> targets = door_points @ utility_points room kinds \<and> targets \<noteq> []
          \<and> (\<forall>p \<in> set targets. navigation_point_is_walkable room p radius)
          \<and> (\<forall>p \<in> set targets. \<forall>q \<in> set targets. grid_reachable room radius grid p q)
          \<and> ne_visited_grid_points evidence = card {q. grid_reachable room radius grid (hd targets) q}
          \<and> ne_required_target_count evidence = length targets)"
proof (cases "radius = 0 \<or> grid = 0 \<or> grid > I32_MAX")
  case False
  then have grid: "grid \<le> I32_MAX" and params: "radius \<noteq> 0 \<and> grid \<noteq> 0 \<and> grid \<le> I32_MAX"
    by auto
  then have "prove_navigation room kinds radius grid = Inr evidence \<longleftrightarrow>
    (\<exists>door_points. list_all2 (\<lambda>d p. door_target room radius grid d = Inr p) (dr_doors room) door_points
       \<and> prove_targets room radius grid (door_points @ utility_points room kinds) = Inr evidence)"
    by (auto simp: prove_navigation_def try_map_eq_Inr utility_points_def)
  then show ?thesis
    unfolding prove_targets_connected [OF grid] by (simp add: params)
qed (auto simp: prove_navigation_def)

lemma try_fold_unit: "try_fold f xs u = Inr u' \<longleftrightarrow> (\<forall>x \<in> set xs. f x () = Inr ())"
  by (induction xs) auto

lemma uint_nonneg: "0 \<le> uint w"
  by (rule unsigned_greater_eq)

lemma sint_word_i64_add:
  assumes "\<bar>sint (a :: i64)\<bar> \<le> 2 ^ 62 - 1" "\<bar>sint b\<bar> \<le> 2 ^ 62 - 1"
  shows "sint (a + b) = sint a + sint b" "sint (a - b) = sint a - sint b"
  using assms by (auto intro!: sint_add_exact sint_diff_exact simp: abs_le_iff)

lemma i32_range: "- (2 ^ 31) \<le> sint (x :: i32)" "sint x < 2 ^ 31"
  using sint_ge [of x] sint_lt [of x] by auto

lemma u32_range: "0 \<le> uint (x :: u32)" "uint x < 2 ^ 32"
  using unsigned_less [of x, where ?'a = int] unsigned_greater_eq [of x, where ?'a = int] by auto

lemma point_in_bounds_iff:
  "point_in_bounds x y width height \<longleftrightarrow> 0 \<le> sint x \<and> sint x \<le> uint width \<and> 0 \<le> sint y \<and> sint y \<le> uint height"
  by (auto simp: point_in_bounds_def word_sle_eq)

lemma geometry_rectangle_iff:
  "geometry_in_bounds (Rectangle x y w h) width height \<longleftrightarrow>
     0 < uint w \<and> 0 < uint h \<and> 0 \<le> sint x \<and> sint x + uint w \<le> uint width \<and> 0 \<le> sint y \<and> sint y + uint h \<le> uint height"
proof -
  have "sint (scast x + ucast w :: i64) = sint x + uint w" "sint (scast y + ucast h :: i64) = sint y + uint h"
    using i32_range [of x] i32_range [of y] u32_range [of w] u32_range [of h] by (subst sint_word_i64_add; simp)+
  then show ?thesis
    by (auto simp: word_sle_eq word_less_def)
qed

section \<open>Walkability as geometry\<close>

text \<open>
  The intended test of a volume for an actor of radius r at (x, y), in unbounded integers: outside the
  solid rectangle grown by r, or inside the boundary circle shrunk by r.
\<close>

definition volume_clear :: "int \<Rightarrow> int \<Rightarrow> int \<Rightarrow> dungeon_room_volume \<Rightarrow> bool" where
  "volume_clear x y r volume =
     (case rv_geometry volume of
        Rectangle rx ry w h \<Rightarrow>
          rv_kind volume \<in> {Solid, DeepWater} \<longrightarrow>
            \<not> (sint rx - r < x \<and> x < sint rx + uint w + r \<and> sint ry - r < y \<and> y < sint ry + uint h + r)
      | Circle cx cy radius \<Rightarrow>
          rv_kind volume = WalkableBoundary \<longrightarrow>
            r < uint radius \<and> (x - sint cx)\<^sup>2 + (y - sint cy)\<^sup>2 \<le> (uint radius - r)\<^sup>2
      | Polyline _ _ \<Rightarrow> True)"

lemma distance_square_bound:
  assumes "0 \<le> a" "a < 2 ^ 31" "0 \<le> b" "(b :: int) < 2 ^ 31"
  shows "(a - b) * (a - b) \<le> (2 ^ 31 - 1) * (2 ^ 31 - 1)" "- (2 ^ 63) \<le> (a - b) * (a - b)"
proof -
  have "\<bar>a - b\<bar> \<le> 2 ^ 31 - 1"
    using assms by (simp add: abs_le_iff)
  then have "\<bar>a - b\<bar> * \<bar>a - b\<bar> \<le> (2 ^ 31 - 1) * (2 ^ 31 - 1)"
    by (intro mult_mono) auto
  then show "(a - b) * (a - b) \<le> (2 ^ 31 - 1) * (2 ^ 31 - 1)"
    by simp
  show "- (2 ^ 63) \<le> (a - b) * (a - b)"
    by (rule order_trans [OF _ zero_le_square]) simp
qed

lemma circle_test:
  assumes "0 \<le> sint x" "0 \<le> sint y" "0 \<le> sint cx" "0 \<le> sint cy"
  shows "(saturating_smul u u <s saturating_smul (scast (x :: i32) - scast (cx :: i32)) (scast x - scast cx)
      + saturating_smul (scast (y :: i32) - scast (cy :: i32)) (scast y - scast cy :: i64)) \<longleftrightarrow>
    sint u * sint u < (sint x - sint cx)\<^sup>2 + (sint y - sint cy)\<^sup>2"
proof -
  let ?dx = "scast x - scast cx :: i64" and ?dy = "scast y - scast cy :: i64"
  have d: "sint ?dx = sint x - sint cx" "sint ?dy = sint y - sint cy"
    using i32_range [of x] i32_range [of cx] i32_range [of y] i32_range [of cy] assms
    by (subst sint_word_i64_add; simp add: abs_le_iff)+
  note sqx = distance_square_bound [OF assms(1) i32_range(2) assms(3) i32_range(2)]
    and sqy = distance_square_bound [OF assms(2) i32_range(2) assms(4) i32_range(2)]
  have sat: "sint (saturating_smul ?dx ?dx) = (sint x - sint cx)\<^sup>2" "sint (saturating_smul ?dy ?dy) = (sint y - sint cy)\<^sup>2"
    using sqx sqy unfolding sint_saturating_smul d power2_eq_square by (simp_all add: min_def max_def)
  have "sint (saturating_smul ?dx ?dx + saturating_smul ?dy ?dy) = (sint x - sint cx)\<^sup>2 + (sint y - sint cy)\<^sup>2"
    using sqx sqy by (subst sint_add_exact) (simp_all only: sat power2_eq_square, insert zero_le_square [of "sint x - sint cx"] zero_le_square [of "sint y - sint cy"], simp_all del: zero_le_square)
  moreover have "sint (saturating_smul u u) = min (2 ^ 63 - 1) (sint u * sint u)"
    unfolding sint_saturating_smul by (simp add: max_def) (use zero_le_square [of "sint u"] in linarith)
  moreover have "(sint x - sint cx)\<^sup>2 + (sint y - sint cy)\<^sup>2 < 2 ^ 63 - 1"
    using sqx(1) sqy(1) unfolding power2_eq_square by simp
  ultimately show ?thesis
    by (auto simp: word_sless_alt)
qed

text \<open>What validation establishes, in unbounded integers.\<close>

definition in_room :: "dungeon_room_definition \<Rightarrow> int \<times> int \<Rightarrow> bool" where
  "in_room room p \<longleftrightarrow> 0 \<le> fst p \<and> fst p \<le> uint (dr_width_milli_tiles room)
     \<and> 0 \<le> snd p \<and> snd p \<le> uint (dr_height_milli_tiles room)"

definition geometry_ok :: "dungeon_room_definition \<Rightarrow> dungeon_room_volume_geometry \<Rightarrow> bool" where
  "geometry_ok room g = (case g of
      Rectangle x y w h \<Rightarrow> 0 < uint w \<and> 0 < uint h \<and> in_room room (sint x, sint y)
        \<and> in_room room (sint x + uint w, sint y + uint h)
    | Circle x y radius \<Rightarrow> 0 < radius \<and> in_room room (sint x, sint y)
    | Polyline w points \<Rightarrow> 0 < w \<and> 2 \<le> length points \<and> (\<forall>p \<in> set points. in_room room (sint (fst p), sint (snd p))))"

definition door_ok :: "dungeon_room_definition \<Rightarrow> dungeon_door_definition \<Rightarrow> bool" where
  "door_ok room d \<longleftrightarrow> dd_id d \<noteq> [] \<and> dd_width_milli_tiles d \<noteq> 0
     \<and> dd_offset_milli_tiles d \<le> (if dd_side d \<in> {North, South} then dr_width_milli_tiles room else dr_height_milli_tiles room)"

definition room_ok :: "dungeon_room_definition \<Rightarrow> bool" where
  "room_ok room \<longleftrightarrow>
     dr_id room \<noteq> []
     \<and> dr_width_milli_tiles room \<noteq> 0 \<and> dr_width_milli_tiles room \<le> I32_MAX
     \<and> dr_height_milli_tiles room \<noteq> 0 \<and> dr_height_milli_tiles room \<le> I32_MAX
     \<and> distinct (map dd_id (dr_doors room)) \<and> distinct (map rv_id (dr_volumes room))
     \<and> distinct (map ra_id (dr_anchors room))
     \<and> (\<forall>d \<in> set (dr_doors room). door_ok room d)
     \<and> (\<forall>a \<in> set (dr_anchors room). ra_id a \<noteq> []
          \<and> in_room room (sint (ra_x_milli_tiles a), sint (ra_y_milli_tiles a)))
     \<and> (\<forall>v \<in> set (dr_volumes room). rv_id v \<noteq> [] \<and> geometry_ok room (rv_geometry v))"

lemma point_in_room:
  "point_in_bounds x y (dr_width_milli_tiles room) (dr_height_milli_tiles room) \<longleftrightarrow> in_room room (sint x, sint y)"
  by (auto simp: point_in_bounds_iff in_room_def)

lemma geometry_in_room:
  "geometry_in_bounds g (dr_width_milli_tiles room) (dr_height_milli_tiles room) \<longleftrightarrow> geometry_ok room g"
proof (cases g)
  case (Rectangle x y w h)
  then show ?thesis
    by (auto simp: geometry_rectangle_iff geometry_ok_def in_room_def simp del: geometry_in_bounds.simps)
qed (auto simp: geometry_ok_def point_in_room list_all_iff)

lemma unique_eq [simp]: "unique xs domain = Inr u \<longleftrightarrow> distinct xs"
  by (auto simp: unique_def length_remdups_card_conv distinct_card dest: card_distinct)

lemma validate_element_iff:
  "validate_door room d u = Inr () \<longleftrightarrow> door_ok room d"
  "validate_anchor room a u = Inr () \<longleftrightarrow>
     ra_id a \<noteq> [] \<and> in_room room (sint (ra_x_milli_tiles a), sint (ra_y_milli_tiles a))"
  "validate_volume room v u = Inr () \<longleftrightarrow> rv_id v \<noteq> [] \<and> geometry_ok room (rv_geometry v)"
    apply (cases "dd_side d"; auto simp: validate_door_def door_ok_def Let_def)
   apply (simp add: validate_anchor_def point_in_room)
  apply (simp add: validate_volume_def geometry_in_room)
  done

lemma validated_room_iff: "validated_room room = Inr room' \<longleftrightarrow> room' = room \<and> room_ok room"
proof (cases "dr_id room = [] \<or> dr_width_milli_tiles room = 0 \<or> dr_height_milli_tiles room = 0
      \<or> dr_width_milli_tiles room > I32_MAX \<or> dr_height_milli_tiles room > I32_MAX")
  case False
  then have size: "dr_id room \<noteq> [] \<and> dr_width_milli_tiles room \<noteq> 0 \<and> dr_width_milli_tiles room \<le> I32_MAX
     \<and> dr_height_milli_tiles room \<noteq> 0 \<and> dr_height_milli_tiles room \<le> I32_MAX"
    by auto
  show ?thesis
    unfolding validated_room_def room_ok_def if_not_P [OF False]
    by (simp only: size and_then_eq_Inr unique_eq try_fold_unit validate_element_iff) (use size in auto)
qed (auto simp: validated_room_def room_ok_def)

lemma sint_extent: "sint (scast (x :: i32) + ucast (w :: u32) + ucast (r :: u32) :: i64) = sint x + uint w + uint r"
proof -
  have "sint (scast x + ucast w :: i64) = sint x + uint w"
    using i32_range [of x] u32_range [of w] by (simp add: sint_word_i64_add abs_le_iff)
  moreover have "- (2 ^ 62 - 1) \<le> sint x + uint w"
    by (rule order_trans [OF _ add_mono [OF i32_range(1) u32_range(1)]]) simp
  then have "\<bar>sint x + uint w\<bar> \<le> 2 ^ 62 - 1" "\<bar>uint r\<bar> \<le> 2 ^ 62 - 1"
    using i32_range(2) [of x] u32_range(2) [of w] u32_range(2) [of r] by (simp_all add: abs_le_iff)
  ultimately show ?thesis
    by (simp add: sint_word_i64_add)
qed

lemma volume_allows_exact:
  assumes "geometry_ok room (rv_geometry v)" and "0 \<le> sint x" "0 \<le> sint (y :: i32)"
  shows "volume_allows (scast (x :: i32)) (scast y) (ucast (r :: u32)) v \<longleftrightarrow> volume_clear (sint x) (sint y) (uint r) v"
proof (cases "rv_geometry v")
  case (Rectangle rx ry w h)
  have bounds: "sint (scast rx - ucast r :: i64) = sint rx - uint r" "sint (scast ry - ucast r :: i64) = sint ry - uint r"
    "sint (scast rx + ucast w + ucast r :: i64) = sint rx + uint w + uint r"
    "sint (scast ry + ucast h + ucast r :: i64) = sint ry + uint h + uint r"
    using i32_range [of rx] i32_range [of ry] u32_range [of r]
    by (simp_all add: sint_word_i64_add abs_le_iff sint_extent)
  with Rectangle show ?thesis
    by (auto simp: volume_allows_def volume_clear_def Let_def word_sless_alt)
next
  case (Circle cx cy radius)
  have u: "sint (ucast radius - ucast r :: i64) = uint radius - uint r"
    using u32_range [of r] u32_range [of radius] by (simp add: sint_word_i64_add abs_le_iff)
  have "0 \<le> sint cx" "0 \<le> sint cy"
    using assms(1) Circle by (auto simp: geometry_ok_def in_room_def)
  with assms(2,3) Circle u circle_test [of x y cx cy "ucast radius - ucast r"] show ?thesis
    by (auto simp: volume_allows_def volume_clear_def Let_def word_sle_eq power2_eq_square)
qed (simp add: volume_allows_def volume_clear_def)

definition clear_at :: "dungeon_room_definition \<Rightarrow> int \<Rightarrow> int \<times> int \<Rightarrow> bool" where
  "clear_at room r p \<longleftrightarrow>
     r \<le> fst p \<and> fst p \<le> uint (dr_width_milli_tiles room) - r
     \<and> r \<le> snd p \<and> snd p \<le> uint (dr_height_milli_tiles room) - r
     \<and> (\<forall>v \<in> set (dr_volumes room). volume_clear (fst p) (snd p) r v)"

lemma walkable_iff:
  assumes "room_ok room"
  shows "navigation_point_is_walkable room (x, y) radius \<longleftrightarrow> clear_at room (uint radius) (sint x, sint y)"
proof -
  let ?W = "dr_width_milli_tiles room" and ?H = "dr_height_milli_tiles room"
  have "sint (ucast ?W - ucast radius :: i64) = uint ?W - uint radius" "sint (ucast ?H - ucast radius :: i64) = uint ?H - uint radius"
    using u32_range [of radius] u32_range [of ?W] u32_range [of ?H] by (simp_all add: sint_word_i64_add abs_le_iff)
  then have edges: "(scast x :: i64) <s ucast radius \<or> (scast y :: i64) <s ucast radius
      \<or> ucast ?W - ucast radius <s (scast x :: i64) \<or> ucast ?H - ucast radius <s (scast y :: i64) \<longleftrightarrow>
      \<not> (uint radius \<le> sint x \<and> sint x \<le> uint ?W - uint radius \<and> uint radius \<le> sint y \<and> sint y \<le> uint ?H - uint radius)"
    by (auto simp: word_sless_alt)
  have "volume_allows (scast x) (scast y) (ucast radius) v \<longleftrightarrow> volume_clear (sint x) (sint y) (uint radius) v"
    if "uint radius \<le> sint x" "uint radius \<le> sint y" "v \<in> set (dr_volumes room)" for v
  proof (rule volume_allows_exact)
    show "geometry_ok room (rv_geometry v)"
      using assms that(3) by (simp add: room_ok_def)
  qed (use that u32_range(1) [of radius] in linarith)+
  then show ?thesis
    unfolding navigation_point_is_walkable_def Let_def fst_conv snd_conv edges clear_at_def
    by (auto simp: list_all_iff)
qed

text \<open>
  On a validated room the walkability test of the code, done in saturating 64-bit arithmetic, is the
  intended geometry in unbounded integers: an actor of radius r can stand at a point exactly when the
  point keeps distance r from the edges of the room, lies outside every solid or deep-water rectangle grown by r, and inside every
  walkable circle shrunk by r. No overflow or saturation changes the answer, for any point and radius.
\<close>

lemma walkable_exact:
  assumes "validated_room room = Inr room'"
  shows "navigation_point_is_walkable room' (x, y) radius \<longleftrightarrow>
    uint radius \<le> sint x \<and> sint x \<le> uint (dr_width_milli_tiles room) - uint radius
    \<and> uint radius \<le> sint y \<and> sint y \<le> uint (dr_height_milli_tiles room) - uint radius
    \<and> (\<forall>v \<in> set (dr_volumes room). volume_clear (sint x) (sint y) (uint radius) v)"
  using assms walkable_iff [of room x y radius] by (simp add: validated_room_iff clear_at_def)

lemma door_target_not_disconnected [simp]: "door_target room radius grid d \<noteq> Inl DisconnectedNavigation"
  by (auto simp: door_target_def case_prod_unfold Let_def)

lemma try_map_not_Inl: "(\<And>x. f x \<noteq> Inl e) \<Longrightarrow> try_map f xs \<noteq> Inl e"
  by (induction xs) auto

lemma prove_navigation_disconnected:
  "prove_navigation room kinds radius grid = Inl DisconnectedNavigation \<longleftrightarrow>
     radius \<noteq> 0 \<and> grid \<noteq> 0 \<and> grid \<le> I32_MAX
     \<and> (\<exists>door_points targets.
          list_all2 (\<lambda>d p. door_target room radius grid d = Inr p) (dr_doors room) door_points
          \<and> targets = door_points @ utility_points room kinds
          \<and> (\<forall>p \<in> set targets. navigation_point_is_walkable room p radius)
          \<and> (\<exists>p \<in> set targets. \<exists>q \<in> set targets. \<not> grid_reachable room radius grid p q))"
proof (cases "radius = 0 \<or> grid = 0 \<or> grid > I32_MAX")
  case False
  then have grid: "grid \<le> I32_MAX" and params: "radius \<noteq> 0 \<and> grid \<noteq> 0 \<and> grid \<le> I32_MAX"
    by auto
  have "prove_targets room radius grid targets = Inl DisconnectedNavigation \<longleftrightarrow>
      (\<forall>p \<in> set targets. navigation_point_is_walkable room p radius)
      \<and> (\<exists>p \<in> set targets. \<exists>q \<in> set targets. \<not> grid_reachable room radius grid p q)" for targets
    using connected_from_head [OF grid, of targets room radius] unfolding prove_targets_disconnected
    by (cases "targets = []") auto
  moreover have "prove_navigation room kinds radius grid = Inl DisconnectedNavigation \<longleftrightarrow>
    (\<exists>door_points. list_all2 (\<lambda>d p. door_target room radius grid d = Inr p) (dr_doors room) door_points
       \<and> prove_targets room radius grid (door_points @ utility_points room kinds) = Inl DisconnectedNavigation)"
    using params try_map_not_Inl [of "door_target room radius grid" DisconnectedNavigation]
    by (auto simp: prove_navigation_def try_map_eq_Inr utility_points_def)
  ultimately show ?thesis
    by (simp add: params)
qed (auto simp: prove_navigation_def)

text \<open>
  C28. The navigation proof of a room is sound and complete: it accepts exactly when the parameters are
  legal, every door has a walkable point behind it, there is at least one target (a point behind a
  door, or an anchor of a required kind), all targets are walkable for the actor, and any two of them are connected in
  both directions by grid steps of the actor. The evidence counts the targets and the grid points
  reachable from the first one. The disconnection error means what it says: all targets are walkable, but one of
  them cannot be reached from another.
\<close>

theorem prove_navigation_exact:
  "(prove_navigation room kinds radius grid = Inr evidence \<longleftrightarrow>
     radius \<noteq> 0 \<and> grid \<noteq> 0 \<and> grid \<le> I32_MAX
     \<and> (\<exists>door_points targets.
          list_all2 (\<lambda>d p. door_target room radius grid d = Inr p) (dr_doors room) door_points
          \<and> targets = door_points @ utility_points room kinds \<and> targets \<noteq> []
          \<and> (\<forall>p \<in> set targets. navigation_point_is_walkable room p radius)
          \<and> (\<forall>p \<in> set targets. \<forall>q \<in> set targets. grid_reachable room radius grid p q)
          \<and> ne_visited_grid_points evidence = card {q. grid_reachable room radius grid (hd targets) q}
          \<and> ne_required_target_count evidence = length targets))
   \<and> (prove_navigation room kinds radius grid = Inl DisconnectedNavigation \<longleftrightarrow>
     radius \<noteq> 0 \<and> grid \<noteq> 0 \<and> grid \<le> I32_MAX
     \<and> (\<exists>door_points targets.
          list_all2 (\<lambda>d p. door_target room radius grid d = Inr p) (dr_doors room) door_points
          \<and> targets = door_points @ utility_points room kinds
          \<and> (\<forall>p \<in> set targets. navigation_point_is_walkable room p radius)
          \<and> (\<exists>p \<in> set targets. \<exists>q \<in> set targets. \<not> grid_reachable room radius grid p q)))"
  using prove_navigation_accepts prove_navigation_disconnected by (rule conjI)

theorem prove_navigation_exact_witness:
  "prove_navigation sample_room [SafeEntry] 1 1 = Inr \<lparr>ne_visited_grid_points = 13, ne_required_target_count = 2\<rparr>
   \<and> grid_reachable sample_room 1 1 (1, 2) (5, 3) \<and> grid_reachable sample_room 1 1 (5, 3) (1, 2)"
proof -
  obtain door_points where doors: "list_all2 (\<lambda>d p. door_target sample_room 1 1 d = Inr p) (dr_doors sample_room) door_points"
    and all: "\<forall>p \<in> set (door_points @ utility_points sample_room [SafeEntry]).
      \<forall>q \<in> set (door_points @ utility_points sample_room [SafeEntry]). grid_reachable sample_room 1 1 p q"
    using prove_navigation_exact [of sample_room "[SafeEntry]" 1 1
      "\<lparr>ne_visited_grid_points = 13, ne_required_target_count = 2\<rparr>"] sample_room_proved by blast
  have "map (door_target sample_room 1 1) (dr_doors sample_room) = [Inr (1, 2)]"
    by code_simp
  with doors have "(1, 2) \<in> set door_points"
    by (cases "dr_doors sample_room"; cases door_points) auto
  moreover have "(5, 3) \<in> set (utility_points sample_room [SafeEntry])"
    by code_simp
  ultimately show ?thesis
    using all sample_room_proved by auto
qed

end
