(* ===== verification/Dungeon_Rotation.thy ===== *)
theory Dungeon_Rotation
  imports Dungeon_Room_Properties
begin

text \<open>
  Rotation of dungeon rooms: in unbounded integers a legal rotation is the quarter turn of the plane
  (\<open>turned\<close>). A rotated room is again well formed, its doors lie on the sides they claim, and an actor
  can reach the turned points exactly as it could reach the original ones.
\<close>

section \<open>Quarter turns\<close>


definition turned :: "u8 \<Rightarrow> dungeon_room_definition \<Rightarrow> int \<times> int \<Rightarrow> int \<times> int" where
  "turned q room p =
     (let w = uint (dr_width_milli_tiles room); h = uint (dr_height_milli_tiles room); (x, y) = p in
      if q = 0 then (x, y) else if q = 1 then (h - y, x) else if q = 2 then (w - x, h - y) else (y, w - x))"

abbreviation sints :: "i32 \<times> i32 \<Rightarrow> int \<times> int" where
  "sints \<equiv> map_prod sint sint"

definition turn :: "dungeon_room_definition \<Rightarrow> u8 \<Rightarrow> i32 \<times> i32 \<Rightarrow> i32 \<times> i32" where
  "turn room q p = rotate_point (fst p) (snd p) (dr_width_milli_tiles room) (dr_height_milli_tiles room) q"

lemma uint_i32_or_max: "v \<le> I32_MAX \<Longrightarrow> i32_or_max v = v"
  by (simp add: i32_or_max_def)

lemma room_sizes:
  assumes "room_ok room"
  shows "sint (dr_width_milli_tiles room) = uint (dr_width_milli_tiles room)" "uint (dr_width_milli_tiles room) < 2 ^ 31"
    "sint (dr_height_milli_tiles room) = uint (dr_height_milli_tiles room)" "uint (dr_height_milli_tiles room) < 2 ^ 31"
  using assms I32_MAX_le by (auto simp: room_ok_def)

lemma sints_turn:
  assumes "room_ok room" and "in_room room (sints p)"
  shows "sints (turn room q p) = turned q room (sints p)"
proof -
  have "sint (dr_height_milli_tiles room - snd p) = uint (dr_height_milli_tiles room) - sint (snd p)"
    "sint (dr_width_milli_tiles room - fst p) = uint (dr_width_milli_tiles room) - sint (fst p)"
    using assms(2) room_sizes [OF assms(1)] i32_range [of "fst p"] i32_range [of "snd p"]
    by (subst sint_diff_exact; simp add: in_room_def)+
  moreover have "i32_or_max (dr_width_milli_tiles room) = dr_width_milli_tiles room"
    "i32_or_max (dr_height_milli_tiles room) = dr_height_milli_tiles room"
    using assms(1) by (simp_all add: room_ok_def uint_i32_or_max)
  ultimately show ?thesis
    by (cases p) (simp add: turn_def rotate_point_def turned_def Let_def)
qed

lemma sint_smin: "sint (smin a b) = min (sint a) (sint b)"
  by (simp add: smin_def word_sless_alt min_def)

lemma uint_abs_diff: "uint (abs_diff a b) = \<bar>sint a - sint b\<bar>"
proof -
  have diff: "uint (c - d) = sint c - sint d" if "sint d \<le> sint c" for c d :: i32
  proof -
    have "c - d = word_of_int (sint c - sint d)"
      by simp
    moreover have "sint c - sint d < 2 ^ 32"
      using i32_range [of c] i32_range [of d] by simp
    ultimately show ?thesis
      using that by (simp add: unsigned_of_int take_bit_int_eq_self del: of_int_diff)
  qed
  then show ?thesis
    using diff [of a b] diff [of b a] by (auto simp: abs_diff_def word_sless_alt abs_if)
qed

text \<open>The room as it lies after the rotation, without its doors, which only exist as points then.\<close>

definition room_of_rotated :: "rotated_dungeon_room \<Rightarrow> dungeon_room_definition" where
  "room_of_rotated rr =
     \<lparr>dr_id = rr_room_id rr, dr_width_milli_tiles = rr_width_milli_tiles rr,
      dr_height_milli_tiles = rr_height_milli_tiles rr, dr_doors = [], dr_volumes = rr_volumes rr,
      dr_anchors = rr_anchors rr, dr_safe_noncombat = rr_safe_noncombat rr\<rparr>"

lemma quarter_turns_cases:
  "rotation_quarter_turns d = Inr q \<Longrightarrow> q \<in> {0, 1, 2, 3}"
  by (auto simp: rotation_quarter_turns_def split: if_splits)

lemma rotated_total: "rotation_quarter_turns d = Inr q \<Longrightarrow> \<exists>rr. rotated room d = Inr rr"
  by (simp add: rotated_def case_prod_unfold Let_def)

lemma rotated_parts:
  assumes "rotated room d = Inr rr" and "rotation_quarter_turns d = Inr q"
  shows "dr_width_milli_tiles (room_of_rotated rr) = (if q \<in> {0, 2} then dr_width_milli_tiles room else dr_height_milli_tiles room)"
    and "dr_height_milli_tiles (room_of_rotated rr) = (if q \<in> {0, 2} then dr_height_milli_tiles room else dr_width_milli_tiles room)"
    and "dr_volumes (room_of_rotated rr) = map (rotated_volume room q) (dr_volumes room)"
    and "dr_anchors (room_of_rotated rr) = map (rotated_anchor room q) (dr_anchors room)"
    and "dr_id (room_of_rotated rr) = dr_id room" and "rr_doors rr = map (rotated_door room q) (dr_doors room)"
    and "dr_doors (room_of_rotated rr) = []"
  using assms quarter_turns_cases [OF assms(2)]
  by (auto simp: rotated_def room_of_rotated_def rotated_dimensions_def split: if_splits)

lemma in_room_turned:
  assumes "rotated room d = Inr rr" and "rotation_quarter_turns d = Inr q"
  shows "in_room (room_of_rotated rr) (turned q room p) \<longleftrightarrow> in_room room p"
  using quarter_turns_cases [OF assms(2)]
  by (cases p) (auto simp: in_room_def rotated_parts [OF assms] turned_def)

definition rotated_geometry :: "dungeon_room_definition \<Rightarrow> u8 \<Rightarrow> dungeon_room_volume_geometry \<Rightarrow> dungeon_room_volume_geometry" where
  "rotated_geometry room q g = rotate_geometry g (dr_width_milli_tiles room) (dr_height_milli_tiles room) q"

lemma far_corner:
  assumes "0 \<le> sint x" "w \<le> I32_MAX" "sint x + uint w < 2 ^ 31"
  shows "sint (x + w) = sint x + uint w"
proof -
  have "- (2 ^ 31) \<le> sint x + uint w"
    by (rule order_trans [OF _ add_nonneg_nonneg [OF assms(1) u32_range(1)]]) simp
  then show ?thesis
    using assms(3) I32_MAX_le(1) [OF assms(2)] by (subst sint_add_exact) simp_all
qed

lemma rotated_rectangle:
  assumes "room_ok room" and "geometry_ok room (Rectangle x y w h)"
  obtains x' y' w' h' where "rotated_geometry room q (Rectangle x y w h) = Rectangle x' y' w' h'"
    and "sint x' = min (fst (turned q room (sint x, sint y))) (fst (turned q room (sint x + uint w, sint y + uint h)))"
    and "sint y' = min (snd (turned q room (sint x, sint y))) (snd (turned q room (sint x + uint w, sint y + uint h)))"
    and "uint w' = \<bar>fst (turned q room (sint x, sint y)) - fst (turned q room (sint x + uint w, sint y + uint h))\<bar>"
    and "uint h' = \<bar>snd (turned q room (sint x, sint y)) - snd (turned q room (sint x + uint w, sint y + uint h))\<bar>"
proof -
  have ok: "in_room room (sints (x, y))" "in_room room (sint x + uint w, sint y + uint h)" "0 \<le> sint x" "0 \<le> sint y"
    using assms(2) by (auto simp: geometry_ok_def in_room_def)
  then have less: "uint w < 2 ^ 31" "uint h < 2 ^ 31" "sint x + uint w < 2 ^ 31" "sint y + uint h < 2 ^ 31"
    using room_sizes [OF assms(1)] by (auto simp: in_room_def)
  then have le: "w \<le> I32_MAX" "h \<le> I32_MAX"
    by (auto simp: I32_MAX_def word_le_def)
  have far: "sint (x + w) = sint x + uint w" "sint (y + h) = sint y + uint h"
    by (rule far_corner; fact)+
  have "rotated_geometry room q (Rectangle x y w h) =
      Rectangle (smin (fst (turn room q (x, y))) (fst (turn room q (x + w, y + h))))
        (smin (snd (turn room q (x, y))) (snd (turn room q (x + w, y + h))))
        (abs_diff (fst (turn room q (x, y))) (fst (turn room q (x + w, y + h))))
        (abs_diff (snd (turn room q (x, y))) (snd (turn room q (x + w, y + h))))"
    by (simp add: rotated_geometry_def turn_def uint_i32_or_max le Let_def)
  moreover have "sints (turn room q (x, y)) = turned q room (sint x, sint y)"
    "sints (turn room q (x + w, y + h)) = turned q room (sint x + uint w, sint y + uint h)"
    using sints_turn [OF assms(1), of "(x, y)"] sints_turn [OF assms(1), of "(x + w, y + h)"] ok(1,2) by (simp_all add: far)
  then have "sint (fst (turn room q (x, y))) = fst (turned q room (sint x, sint y))"
    "sint (snd (turn room q (x, y))) = snd (turned q room (sint x, sint y))"
    "sint (fst (turn room q (x + w, y + h))) = fst (turned q room (sint x + uint w, sint y + uint h))"
    "sint (snd (turn room q (x + w, y + h))) = snd (turned q room (sint x + uint w, sint y + uint h))"
    by (metis fst_map_prod snd_map_prod)+
  ultimately show ?thesis
    by (intro that [OF \<open>rotated_geometry _ _ _ = _\<close>]) (simp_all only: sint_smin uint_abs_diff)
qed

lemma rotated_circle:
  assumes "room_ok room" and "geometry_ok room (Circle x y radius)"
  obtains x' y' where "rotated_geometry room q (Circle x y radius) = Circle x' y' radius"
    and "(sint x', sint y') = turned q room (sint x, sint y)"
proof -
  have "sints (turn room q (x, y)) = turned q room (sint x, sint y)"
    using sints_turn [OF assms(1), of "(x, y)"] assms(2) by (simp add: geometry_ok_def)
  then show ?thesis
    by (intro that [of "fst (turn room q (x, y))" "snd (turn room q (x, y))"])
      (simp_all add: rotated_geometry_def turn_def map_prod_def split: prod.splits)
qed

text \<open>Rotation keeps a volume inside the room and keeps the points it leaves clear.\<close>

lemma rotated_volume_geometry: "rotated_volume room q v = v\<lparr>rv_geometry := rotated_geometry room q (rv_geometry v)\<rparr>"
  by (simp add: rotated_volume_def rotated_geometry_def)

lemma turned_distance:
  assumes "turned q room (a, b) = (x, y)" and "turned q room (c, d) = (x', y')"
  shows "(x - x')\<^sup>2 + (y - y')\<^sup>2 = (a - c)\<^sup>2 + (b - d)\<^sup>2"
proof -
  have "(k - m - (k - n))\<^sup>2 = (m - n)\<^sup>2" for k m n :: int
    using power2_commute [of m n] by simp
  with assms show ?thesis
    by (auto simp: turned_def Let_def split: if_splits)
qed

lemma turned_box:
  assumes "0 < w" "0 < h" and "q \<in> {0, 1, 2, 3}"
    and "turned q room (x, y) = (a, b)" "turned q room (x + w, y + h) = (c, d)" "turned q room (px, py) = (s, t)"
  shows "min a c - r < s \<and> s < min a c + \<bar>a - c\<bar> + r \<and> min b d - r < t \<and> t < min b d + \<bar>b - d\<bar> + r \<longleftrightarrow>
    x - r < px \<and> px < x + w + r \<and> y - r < py \<and> py < y + h + r"
  using assms by (elim insertE emptyE) (auto simp: turned_def Let_def min_def abs_if)

lemma box_inside:
  fixes a b c d :: int
  assumes "in_room room (a, b)" "in_room room (c, d)"
  shows "in_room room (min a c, min b d)" "in_room room (min a c + \<bar>a - c\<bar>, min b d + \<bar>b - d\<bar>)"
  using assms by (auto simp: in_room_def min_def abs_if)

text \<open>A rotated rectangle is the box between its two turned corners.\<close>

lemma rotated_rectangle_box:
  assumes "room_ok room" and "geometry_ok room (Rectangle x y w h)"
  obtains x' y' w' h' a b c d where "rotated_geometry room q (Rectangle x y w h) = Rectangle x' y' w' h'"
    and "turned q room (sint x, sint y) = (a, b)" "turned q room (sint x + uint w, sint y + uint h) = (c, d)"
    and "sint x' = min a c" "sint y' = min b d" "uint w' = \<bar>a - c\<bar>" "uint h' = \<bar>b - d\<bar>"
proof -
  obtain x' y' w' h' where "rotated_geometry room q (Rectangle x y w h) = Rectangle x' y' w' h'"
    and "sint x' = min (fst (turned q room (sint x, sint y))) (fst (turned q room (sint x + uint w, sint y + uint h)))"
    "sint y' = min (snd (turned q room (sint x, sint y))) (snd (turned q room (sint x + uint w, sint y + uint h)))"
    "uint w' = \<bar>fst (turned q room (sint x, sint y)) - fst (turned q room (sint x + uint w, sint y + uint h))\<bar>"
    "uint h' = \<bar>snd (turned q room (sint x, sint y)) - snd (turned q room (sint x + uint w, sint y + uint h))\<bar>"
    using rotated_rectangle [OF assms] by metis
  then show ?thesis
    by (rule that [OF _ prod.collapse [symmetric] prod.collapse [symmetric]])
qed

lemma volume_clear_turned:
  assumes "room_ok room" and "q \<in> {0, 1, 2, 3}" and "geometry_ok room (rv_geometry v)"
  shows "volume_clear (fst (turned q room p)) (snd (turned q room p)) r (rotated_volume room q v) \<longleftrightarrow>
    volume_clear (fst p) (snd p) r v"
proof (cases "rv_geometry v")
  case (Rectangle rx ry w h)
  then have ok: "geometry_ok room (Rectangle rx ry w h)"
    using assms(3) by simp
  then have pos: "0 < uint w" "0 < uint h"
    by (auto simp: geometry_ok_def)
  obtain x' y' w' h' a b c d where box: "rotated_geometry room q (Rectangle rx ry w h) = Rectangle x' y' w' h'"
    "turned q room (sint rx, sint ry) = (a, b)" "turned q room (sint rx + uint w, sint ry + uint h) = (c, d)"
    "sint x' = min a c" "sint y' = min b d" "uint w' = \<bar>a - c\<bar>" "uint h' = \<bar>b - d\<bar>"
    using rotated_rectangle_box [OF assms(1) ok] by metis
  obtain px py s t where p: "p = (px, py)" "turned q room (px, py) = (s, t)"
    by (metis surj_pair)
  have kind: "rv_kind (rotated_volume room q v) = rv_kind v" "rv_geometry (rotated_volume room q v) = Rectangle x' y' w' h'"
    using Rectangle box(1) by (simp_all add: rotated_volume_geometry)
  show ?thesis
    unfolding volume_clear_def kind p fst_conv snd_conv Rectangle dungeon_room_volume_geometry.case box(4-7)
      turned_box [OF pos assms(2) box(2,3) p(2)] ..
next
  case (Circle cx cy radius)
  then obtain x' y' where g: "rotated_geometry room q (Circle cx cy radius) = Circle x' y' radius"
    and c: "turned q room (sint cx, sint cy) = (sint x', sint y')"
    using rotated_circle assms(1,3) by metis
  from turned_distance [of q room "fst p" "snd p" "fst (turned q room p)" "snd (turned q room p)", OF _ c] g Circle
  show ?thesis
    by (simp add: volume_clear_def rotated_volume_geometry)
qed (simp add: volume_clear_def rotated_volume_geometry rotated_geometry_def)

lemma geometry_ok_turned:
  assumes "rotated room d = Inr rr" and "rotation_quarter_turns d = Inr q"
    and "room_ok room" and "geometry_ok room g"
  shows "geometry_ok (room_of_rotated rr) (rotated_geometry room q g)"
proof (cases g)
  case (Rectangle x y w h)
  then have ok: "geometry_ok room (Rectangle x y w h)"
    using assms(4) by simp
  obtain x' y' w' h' a b c d where box: "rotated_geometry room q (Rectangle x y w h) = Rectangle x' y' w' h'"
    "turned q room (sint x, sint y) = (a, b)" "turned q room (sint x + uint w, sint y + uint h) = (c, d)"
    "sint x' = min a c" "sint y' = min b d" "uint w' = \<bar>a - c\<bar>" "uint h' = \<bar>b - d\<bar>"
    using rotated_rectangle_box [OF assms(3) ok] by metis
  have "in_room (room_of_rotated rr) (a, b)" "in_room (room_of_rotated rr) (c, d)"
    unfolding box(2,3) [symmetric] in_room_turned [OF assms(1,2)] using ok by (auto simp: geometry_ok_def)
  note inside = box_inside [OF this]
  have "0 < uint w" "0 < uint h"
    using ok by (auto simp: geometry_ok_def)
  then have "a \<noteq> c" "b \<noteq> d"
    using box(2,3) by (auto simp: turned_def Let_def split: if_splits)
  then show ?thesis
    unfolding Rectangle geometry_ok_def box(1) dungeon_room_volume_geometry.case box(4-7) using inside by simp
next
  case (Circle x y radius)
  then obtain x' y' where "rotated_geometry room q g = Circle x' y' radius"
    and "(sint x', sint y') = turned q room (sint x, sint y)"
    using rotated_circle assms(3,4) by metis
  with Circle assms(4) show ?thesis
    by (simp add: geometry_ok_def in_room_turned [OF assms(1,2)])
next
  case (Polyline w points)
  have "in_room (room_of_rotated rr) (sints (turn room q p))" if "p \<in> set points" for p
    using assms(4) Polyline that sints_turn [OF assms(3), of p]
    by (simp add: geometry_ok_def in_room_turned [OF assms(1,2)] map_prod_def case_prod_unfold)
  with Polyline assms(4) show ?thesis
    by (auto simp: geometry_ok_def rotated_geometry_def turn_def map_prod_def case_prod_unfold)
qed

lemma rotated_fields [simp]:
  "rd_id (rotated_door room q dd) = dd_id dd"
  "rd_side (rotated_door room q dd) = rotated_clockwise (dd_side dd) q"
  "rd_x_milli_tiles (rotated_door room q dd) = fst (turn room q (door_point dd (dr_width_milli_tiles room) (dr_height_milli_tiles room)))"
  "rd_y_milli_tiles (rotated_door room q dd) = snd (turn room q (door_point dd (dr_width_milli_tiles room) (dr_height_milli_tiles room)))"
  "rd_width_milli_tiles (rotated_door room q dd) = dd_width_milli_tiles dd"
  "ra_id (rotated_anchor room q a) = ra_id a" "ra_kind (rotated_anchor room q a) = ra_kind a"
  "ra_x_milli_tiles (rotated_anchor room q a) = fst (turn room q (ra_x_milli_tiles a, ra_y_milli_tiles a))"
  "ra_y_milli_tiles (rotated_anchor room q a) = snd (turn room q (ra_x_milli_tiles a, ra_y_milli_tiles a))"
  "rv_id (rotated_volume room q v) = rv_id v"
  by (simp_all add: rotated_door_def rotated_anchor_def rotated_volume_def turn_def case_prod_unfold Let_def)

text \<open>Where the door of each side lies.\<close>

definition on_edge :: "dungeon_room_definition \<Rightarrow> dungeon_door_side \<Rightarrow> int \<times> int \<Rightarrow> bool" where
  "on_edge room side p \<longleftrightarrow> in_room room p \<and>
     (case side of North \<Rightarrow> snd p = 0 | South \<Rightarrow> snd p = uint (dr_height_milli_tiles room)
      | West \<Rightarrow> fst p = 0 | East \<Rightarrow> fst p = uint (dr_width_milli_tiles room))"

lemma door_point_on_edge:
  assumes "room_ok room" and "door_ok room d"
  shows "on_edge room (dd_side d) (sints (door_point d (dr_width_milli_tiles room) (dr_height_milli_tiles room)))"
proof -
  let ?W = "dr_width_milli_tiles room" and ?H = "dr_height_milli_tiles room"
  have sizes: "i32_or_max ?W = ?W" "i32_or_max ?H = ?H" "sint ?W = uint ?W" "sint ?H = uint ?H"
    using assms(1) room_sizes [OF assms(1)] by (simp_all add: room_ok_def uint_i32_or_max)
  have "dd_offset_milli_tiles d \<le> (if dd_side d \<in> {North, South} then ?W else ?H)" "?W \<le> I32_MAX" "?H \<le> I32_MAX"
    using assms by (simp_all add: door_ok_def room_ok_def)
  then have "dd_offset_milli_tiles d \<le> I32_MAX" "uint (dd_offset_milli_tiles d) \<le> (if dd_side d \<in> {North, South} then uint ?W else uint ?H)"
    by (auto simp: word_le_def split: if_splits)
  then have "i32_or_max (dd_offset_milli_tiles d) = dd_offset_milli_tiles d" "sint (dd_offset_milli_tiles d) = uint (dd_offset_milli_tiles d)"
    "uint (dd_offset_milli_tiles d) \<le> (if dd_side d \<in> {North, South} then uint ?W else uint ?H)"
    by (simp_all add: uint_i32_or_max I32_MAX_le)
  then show ?thesis
    using sizes by (cases "dd_side d") (simp_all add: door_point_def on_edge_def in_room_def)
qed

lemma on_edge_turned:
  assumes "rotated room d = Inr rr" and "rotation_quarter_turns d = Inr q" and "on_edge room side p"
  shows "on_edge (room_of_rotated rr) (rotated_clockwise side q) (turned q room p)"
  using assms(3) quarter_turns_cases [OF assms(2)]
  unfolding on_edge_def in_room_turned [OF assms(1,2)] rotated_parts(1,2) [OF assms(1,2)]
  by (cases p; cases side) (auto simp: turned_def rotated_clockwise_def)

lemma rotated_room_ok:
  assumes "rotated room d = Inr rr" and "rotation_quarter_turns d = Inr q" and ok: "room_ok room"
  shows "room_ok (room_of_rotated rr)"
  unfolding room_ok_def
proof (intro conjI ballI)
  show "distinct (map rv_id (dr_volumes (room_of_rotated rr)))" "distinct (map ra_id (dr_anchors (room_of_rotated rr)))"
    using ok by (simp_all add: rotated_parts [OF assms(1,2)] room_ok_def comp_def)
next
  fix v assume "v \<in> set (dr_volumes (room_of_rotated rr))"
  then obtain u where "u \<in> set (dr_volumes room)" "v = rotated_volume room q u"
    by (auto simp: rotated_parts [OF assms(1,2)])
  with ok geometry_ok_turned [OF assms(1,2) ok] show "rv_id v \<noteq> []" "geometry_ok (room_of_rotated rr) (rv_geometry v)"
    by (auto simp: room_ok_def rotated_volume_geometry)
next
  fix a assume "a \<in> set (dr_anchors (room_of_rotated rr))"
  then obtain b where b: "b \<in> set (dr_anchors room)" "a = rotated_anchor room q b"
    by (auto simp: rotated_parts [OF assms(1,2)])
  then have "in_room room (sints (ra_x_milli_tiles b, ra_y_milli_tiles b))" "ra_id b \<noteq> []"
    using ok by (auto simp: room_ok_def)
  with b sints_turn [OF ok, of "(ra_x_milli_tiles b, ra_y_milli_tiles b)" q]
  show "ra_id a \<noteq> []" "in_room (room_of_rotated rr) (sint (ra_x_milli_tiles a), sint (ra_y_milli_tiles a))"
    by (auto simp: map_prod_def case_prod_unfold in_room_turned [OF assms(1,2)])
qed (use ok in \<open>auto simp: rotated_parts [OF assms(1,2)] room_ok_def\<close>)

text \<open>
  C30. Every legal rotation of a validated room is again a well-formed room: with its new width and height
  it passes validation (identifiers, anchors and volumes inside the bounds, no coordinate wraps), and
  every door lies on the edge of the side that the rotation gives it.
\<close>

theorem rotated_room_well_formed:
  assumes "validated_room room = Inr room" and "rotated room d = Inr rr"
  shows "validated_room (room_of_rotated rr) = Inr (room_of_rotated rr)
    \<and> list_all2 (\<lambda>dd rd. rd_id rd = dd_id dd
          \<and> (\<exists>q. rotation_quarter_turns d = Inr q \<and> rd_side rd = rotated_clockwise (dd_side dd) q)
          \<and> on_edge (room_of_rotated rr) (rd_side rd) (sint (rd_x_milli_tiles rd), sint (rd_y_milli_tiles rd)))
        (dr_doors room) (rr_doors rr)"
proof -
  obtain q where q: "rotation_quarter_turns d = Inr q"
    using assms(2) by (auto simp: rotated_def)
  have ok: "room_ok room"
    using assms(1) by (simp add: validated_room_iff)
  note parts = rotated_parts [OF assms(2) q]
  have "room_ok (room_of_rotated rr)"
    by (rule rotated_room_ok [OF assms(2) q ok])
  moreover have "on_edge (room_of_rotated rr) (rd_side (rotated_door room q dd))
      (sint (rd_x_milli_tiles (rotated_door room q dd)), sint (rd_y_milli_tiles (rotated_door room q dd)))"
    if "dd \<in> set (dr_doors room)" for dd
  proof -
    let ?p = "door_point dd (dr_width_milli_tiles room) (dr_height_milli_tiles room)"
    have edge: "on_edge room (dd_side dd) (sints ?p)"
      using that ok by (intro door_point_on_edge) (auto simp: room_ok_def)
    then have "sints (turn room q ?p) = turned q room (sints ?p)"
      by (intro sints_turn ok) (simp add: on_edge_def)
    with on_edge_turned [OF assms(2) q edge] show ?thesis
      by (simp add: case_prod_unfold map_prod_def)
  qed
  ultimately show ?thesis
    by (simp add: validated_room_iff parts list_all2_map2 list_all2_same q)
qed

theorem rotated_room_well_formed_witness:
  "\<exists>rr. rotated sample_room 90 = Inr rr \<and> validated_room (room_of_rotated rr) = Inr (room_of_rotated rr)
     \<and> map (\<lambda>rd. (rd_side rd, rd_x_milli_tiles rd, rd_y_milli_tiles rd)) (rr_doors rr) = [(North, 2, 0)]"
proof -
  have legal: "rotation_quarter_turns 90 = Inr 1"
    by (simp add: rotation_quarter_turns_def)
  then obtain rr where rr: "rotated sample_room 90 = Inr rr"
    using rotated_total by blast
  have "map (\<lambda>rd. (rd_side rd, rd_x_milli_tiles rd, rd_y_milli_tiles rd)) (map (rotated_door sample_room 1) (dr_doors sample_room))
      = [(North, 2, 0)]"
    by code_simp
  with rr rotated_room_well_formed [OF sample_room_validated rr] show ?thesis
    by (simp add: rotated_parts(6) [OF rr legal])
qed

text \<open>Rotation keeps what an actor can reach.\<close>

lemma clear_at_turned:
  assumes "rotated room d = Inr rr" and "rotation_quarter_turns d = Inr q" and "room_ok room"
  shows "clear_at (room_of_rotated rr) r (turned q room p) \<longleftrightarrow> clear_at room r p"
proof -
  have "volume_clear (fst (turned q room p)) (snd (turned q room p)) r (rotated_volume room q v) \<longleftrightarrow>
      volume_clear (fst p) (snd p) r v" if "v \<in> set (dr_volumes room)" for v
    using that assms(3) by (intro volume_clear_turned quarter_turns_cases [OF assms(2)]) (simp_all add: room_ok_def)
  moreover have "r \<le> fst (turned q room p) \<and> fst (turned q room p) \<le> uint (dr_width_milli_tiles (room_of_rotated rr)) - r
      \<and> r \<le> snd (turned q room p) \<and> snd (turned q room p) \<le> uint (dr_height_milli_tiles (room_of_rotated rr)) - r \<longleftrightarrow>
    r \<le> fst p \<and> fst p \<le> uint (dr_width_milli_tiles room) - r \<and> r \<le> snd p \<and> snd p \<le> uint (dr_height_milli_tiles room) - r"
    using quarter_turns_cases [OF assms(2)] by (cases p) (auto simp: rotated_parts [OF assms(1,2)] turned_def)
  ultimately show ?thesis
    unfolding clear_at_def rotated_parts(3) [OF assms(1,2)] by auto
qed

lemma walkable_in_room:
  assumes "room_ok room" and "navigation_point_is_walkable room p radius"
  shows "in_room room (sints p)" "clear_at room (uint radius) (sints p)"
proof -
  show "clear_at room (uint radius) (sints p)"
    using assms walkable_iff [of room "fst p" "snd p" radius] by (simp add: validated_room_iff map_prod_def case_prod_unfold)
  then show "in_room room (sints p)"
    unfolding clear_at_def in_room_def by (elim conjE, intro conjI) (use u32_range(1) [of radius] in linarith)+
qed

lemma walkable_turned:
  assumes "rotated room d = Inr rr" and "rotation_quarter_turns d = Inr q" and "validated_room room = Inr room"
    and "in_room room (sints p)"
  shows "navigation_point_is_walkable (room_of_rotated rr) (turn room q p) radius \<longleftrightarrow> navigation_point_is_walkable room p radius"
proof -
  have ok: "room_ok room"
    using assms(3) by (simp add: validated_room_iff)
  show ?thesis
    using walkable_iff [OF rotated_room_ok [OF assms(1,2) ok], of "fst (turn room q p)" "snd (turn room q p)" radius]
      walkable_iff [OF ok, of "fst p" "snd p" radius] sints_turn [OF ok assms(4), of q]
      clear_at_turned [OF assms(1,2) ok, of "uint radius" "sints p"]
    by (simp add: map_prod_def case_prod_unfold)
qed

lemma grid_step_turned:
  assumes "rotated room d = Inr rr" and "rotation_quarter_turns d = Inr q" and "validated_room room = Inr room"
    and "grid \<le> I32_MAX" and "in_room room (sints p)" and "grid_step room radius grid p e s"
  shows "\<exists>e'. grid_step (room_of_rotated rr) radius grid (turn room q p) e' (turn room q s)"
proof -
  have ok: "room_ok room"
    using assms(3) by (simp add: validated_room_iff)
  have walk: "navigation_point_is_walkable room s radius" and hop: "e \<in> set (flood_directions grid)"
    "sint (fst s) = sint (fst p) + sint (fst e)" "sint (snd s) = sint (snd p) + sint (snd e)"
    using assms(6) by (simp_all add: grid_step_def)
  note s = walkable_in_room(1) [OF ok walk]
  let ?e = "if q = 0 then e else if q = 1 then (- snd e, fst e) else if q = 2 then (- fst e, - snd e) else (snd e, - fst e)"
  have "sint (- fst e) = - sint (fst e)" "sint (- snd e) = - sint (snd e)"
    using hop(1) sint_uminus_grid [OF assms(4)] by (auto simp: flood_directions_def)
  moreover have "?e \<in> set (flood_directions grid)"
    using hop(1) by (auto simp: flood_directions_def)
  moreover have "sint (fst (turn room q s)) = fst (turned q room (sints s))" "sint (snd (turn room q s)) = snd (turned q room (sints s))"
    "sint (fst (turn room q p)) = fst (turned q room (sints p))" "sint (snd (turn room q p)) = snd (turned q room (sints p))"
    using sints_turn [OF ok s, of q] sints_turn [OF ok assms(5), of q] by (metis fst_map_prod snd_map_prod)+
  ultimately have "grid_step (room_of_rotated rr) radius grid (turn room q p) ?e (turn room q s)"
    using hop walkable_turned [OF assms(1-3) s, of radius] walk
    by (simp add: grid_step_def turned_def case_prod_unfold)
  then show ?thesis ..
qed

lemma grid_reachable_turned:
  assumes "rotated room d = Inr rr" and "rotation_quarter_turns d = Inr q" and "validated_room room = Inr room"
    and "grid \<le> I32_MAX" and "navigation_point_is_walkable room p radius" and "grid_reachable room radius grid p s"
  shows "grid_reachable (room_of_rotated rr) radius grid (turn room q p) (turn room q s)"
  using assms(6) unfolding grid_reachable_def
proof (induction rule: reachable.induct)
  case (reachable_step s e t)
  have "navigation_point_is_walkable room s radius"
    using reachable_step.hyps(1) assms(5) flood.reachable_inv by (metis (full_types))
  then have "in_room room (sints s)"
    using assms(3) by (intro walkable_in_room) (simp_all add: validated_room_iff)
  with grid_step_turned [OF assms(1-4) _ reachable_step.hyps(2)] reachable_step.IH show ?case
    by (meson reachable.reachable_step)
qed (simp add: reachable_initial)

lemma utility_points_turned:
  assumes "rotated room d = Inr rr" and "rotation_quarter_turns d = Inr q"
  shows "utility_points (room_of_rotated rr) kinds = map (turn room q) (utility_points room kinds)"
  by (simp add: utility_points_def rotated_parts [OF assms] filter_map comp_def)

text \<open>
  C27. The navigation proof survives rotation. The content compiler proves each room template once,
  unrotated, and the layout then places rotated copies: when the proof accepts a validated template, then
  in every legal rotation of it the rotated door points and the required anchors of the rotated room
  (which are the rotated anchors) are still walkable for the actor and still connected to each other by grid steps.
\<close>

theorem navigation_proof_survives_rotation:
  assumes "validated_room room = Inr room" and "prove_navigation room kinds radius grid = Inr evidence"
    and "rotated room d = Inr rr"
  shows "\<exists>q door_points targets. rotation_quarter_turns d = Inr q
    \<and> list_all2 (\<lambda>d p. door_target room radius grid d = Inr p) (dr_doors room) door_points
    \<and> targets = map (turn room q) door_points @ utility_points (room_of_rotated rr) kinds \<and> targets \<noteq> []
    \<and> (\<forall>p \<in> set targets. navigation_point_is_walkable (room_of_rotated rr) p radius)
    \<and> (\<forall>p \<in> set targets. \<forall>s \<in> set targets. grid_reachable (room_of_rotated rr) radius grid p s)"
proof -
  obtain q where q: "rotation_quarter_turns d = Inr q"
    using assms(3) by (auto simp: rotated_def)
  obtain door_points where nav: "grid \<le> I32_MAX"
    "list_all2 (\<lambda>d p. door_target room radius grid d = Inr p) (dr_doors room) door_points"
    "door_points @ utility_points room kinds \<noteq> []"
    and walk: "\<And>p. p \<in> set (door_points @ utility_points room kinds) \<Longrightarrow> navigation_point_is_walkable room p radius"
    and connected: "\<And>p s. p \<in> set (door_points @ utility_points room kinds) \<Longrightarrow>
      s \<in> set (door_points @ utility_points room kinds) \<Longrightarrow> grid_reachable room radius grid p s"
    using assms(2) unfolding prove_navigation_accepts by blast
  have targets: "map (turn room q) door_points @ utility_points (room_of_rotated rr) kinds =
      map (turn room q) (door_points @ utility_points room kinds)"
    by (simp add: utility_points_turned [OF assms(3) q])
  have "in_room room (sints p)" if "p \<in> set (door_points @ utility_points room kinds)" for p
    using walkable_in_room(1) [OF _ walk [OF that]] assms(1) by (simp add: validated_room_iff)
  then have "navigation_point_is_walkable (room_of_rotated rr) (turn room q p) radius"
    if "p \<in> set (door_points @ utility_points room kinds)" for p
    using that walkable_turned [OF assms(3) q assms(1)] walk by blast
  moreover have "grid_reachable (room_of_rotated rr) radius grid (turn room q p) (turn room q s)"
    if "p \<in> set (door_points @ utility_points room kinds)" "s \<in> set (door_points @ utility_points room kinds)" for p s
    using that grid_reachable_turned [OF assms(3) q assms(1) nav(1)] walk connected by blast
  ultimately show ?thesis
    using q nav(2,3) by (intro exI [of _ q] exI [of _ door_points] exI conjI refl) (auto simp: targets)
qed

theorem navigation_proof_survives_rotation_witness:
  "\<exists>rr. rotated sample_room 270 = Inr rr \<and> utility_points (room_of_rotated rr) [SafeEntry] = [(3, 1)]
     \<and> navigation_point_is_walkable (room_of_rotated rr) (3, 1) 1"
proof -
  have legal: "rotation_quarter_turns 270 = Inr 3"
    by (simp add: rotation_quarter_turns_def)
  then obtain rr where rr: "rotated sample_room 270 = Inr rr"
    using rotated_total by blast
  have "map (turn sample_room 3) (utility_points sample_room [SafeEntry]) = [(3, 1)]"
    by code_simp
  then have points: "utility_points (room_of_rotated rr) [SafeEntry] = [(3, 1)]"
    by (simp add: utility_points_turned [OF rr legal])
  with navigation_proof_survives_rotation [OF sample_room_validated sample_room_proved rr] rr show ?thesis
    by auto
qed

end
