(* ===== verification/Dungeon_Layout.thy ===== *)
theory Dungeon_Layout
  imports Dungeon_Rotation
begin

text \<open>
  Fixed dungeon layouts: what validation of a layout establishes for its corridors, where the doors of
  placed rooms lie in the world, and what the digest of a layout determines. The hashed material
  frames every string by its length but not the three lists of a layout, so it determines the layout up to the split
  between the lists.
\<close>

section \<open>The hashed material\<close>

definition fits_u64 :: "string \<Rightarrow> bool" where
  "fits_u64 value \<longleftrightarrow> length value < 2 ^ 64"

definition read_text :: "bytes \<Rightarrow> (string \<times> bytes) option" where
  "read_text bs =
     (case (from_le_bytes bs :: (u64 \<times> bytes) option) of
        None \<Rightarrow> None
      | Some (n, rest) \<Rightarrow> Some (map (\<lambda>b. char_of (unat b)) (take (unat n) rest), drop (unat n) rest))"

lemma char_of_unat_of_char: "char_of (unat (of_char c :: u8)) = c"
proof -
  have "of_char c < (256 :: nat)"
    by (metis mod_less_divisor of_char_mod_256 zero_less_numeral)
  then have "unat (of_char c :: u8) = of_char c"
    by (subst of_nat_of_char [symmetric]) simp
  then show ?thesis
    by simp
qed

lemma as_bytes_inverse [simp]: "map (\<lambda>b. char_of (unat b)) (as_bytes s) = s"
  by (simp add: as_bytes_def comp_def char_of_unat_of_char)

interpretation hashed_text: item_code fits_u64 update_text read_text
proof
  fix x rest assume "fits_u64 x"
  then have "unat (of_nat (length x) :: u64) = length x"
    by (simp add: fits_u64_def)
  then show "read_text (update_text x @ rest) = Some (x, rest)"
    by (simp add: update_text_def read_text_def from_to_le_bytes)
next
  fix x show "update_text x \<noteq> []"
    by (auto simp: update_text_def simp flip: length_0_conv)
qed

text \<open>Of a placed room the digest reads this key; the geometry behind the template identifier is not hashed.\<close>

type_synonym room_key = "string \<times> string \<times> u16 \<times> i32 \<times> i32 \<times> bool"

definition room_key :: "placed_dungeon_room \<Rightarrow> room_key" where
  "room_key placed =
     (pr_node_id placed, rr_room_id (pr_room placed), rr_rotation_degrees (pr_room placed),
      pr_origin_x_milli_tiles placed, pr_origin_y_milli_tiles placed, pr_counts_toward_room_total placed)"

definition room_fits :: "placed_dungeon_room \<Rightarrow> bool" where
  "room_fits placed \<longleftrightarrow> fits_u64 (pr_node_id placed) \<and> fits_u64 (rr_room_id (pr_room placed))"

definition corridor_fits :: "dungeon_corridor \<Rightarrow> bool" where
  "corridor_fits corridor \<longleftrightarrow> fits_u64 (co_from_node_id corridor) \<and> fits_u64 (co_to_node_id corridor)"

definition layout_fits :: "fixed_dungeon_layout_definition \<Rightarrow> bool" where
  "layout_fits layout \<longleftrightarrow> fits_u64 (fl_id layout) \<and> list_all room_fits (fl_rooms layout)
     \<and> list_all corridor_fits (fl_corridors layout) \<and> list_all fits_u64 (fl_disabled_branch_node_ids layout)"

lemma text_append_eq:
  "fits_u64 x \<Longrightarrow> fits_u64 y \<Longrightarrow> update_text x @ r = update_text y @ s \<longleftrightarrow> x = y \<and> r = s"
  using hashed_text.encode_append_inject by blast

lemma le_append_eq:
  "to_le_bytes (v :: u16) @ r = to_le_bytes w @ s \<longleftrightarrow> v = w \<and> r = s"
  "to_le_bytes (a :: u32) @ r = to_le_bytes b @ s \<longleftrightarrow> a = b \<and> r = s"
  using le16.encode_append_inject [OF TrueI TrueI] le32.encode_append_inject [OF TrueI TrueI] by blast+

lemma room_material_eq:
  "room_fits a \<Longrightarrow> room_fits b \<Longrightarrow> room_material a @ r = room_material b @ s \<longleftrightarrow> room_key a = room_key b \<and> r = s"
  unfolding room_material_def append_assoc room_fits_def room_key_def
  by (simp add: text_append_eq le_append_eq)

lemma corridor_material_eq:
  "corridor_fits a \<Longrightarrow> corridor_fits b \<Longrightarrow> corridor_material a @ r = corridor_material b @ s \<longleftrightarrow> a = b \<and> r = s"
  unfolding corridor_material_def append_assoc corridor_fits_def
  by (auto simp: text_append_eq le_append_eq intro: dungeon_corridor.equality)

text \<open>A list of parts of known length can be read off the front of the material.\<close>

lemma concat_append_eq:
  assumes "\<And>x y r s. fits x \<Longrightarrow> fits y \<Longrightarrow> f x @ r = f y @ s \<longleftrightarrow> key x = key y \<and> r = s"
    and "length xs = length ys" and "list_all fits xs" "list_all fits ys"
  shows "concat (map f xs) @ r = concat (map f ys) @ s \<longleftrightarrow> map key xs = map key ys \<and> r = s"
  using assms(2-) by (induction xs ys rule: list_induct2) (auto simp: assms(1))

text \<open>
  What the digest of a layout binds: two layouts with as many rooms and as many corridors as each other
  are fed to the hash as the same bytes exactly when they agree on the identifier, on every room's node,
  template, rotation, origin and count flag, on all corridors and on the disabled branches. (Strings are shorter than
  \<open>2 ^ 64\<close> bytes, as every Rust string is.)
\<close>

lemma layout_digest_binds:
  assumes "layout_fits a" and "layout_fits b"
    and "length (fl_rooms a) = length (fl_rooms b)" and "length (fl_corridors a) = length (fl_corridors b)"
  shows "layout_material a = layout_material b \<longleftrightarrow>
    fl_id a = fl_id b \<and> map room_key (fl_rooms a) = map room_key (fl_rooms b)
    \<and> fl_corridors a = fl_corridors b \<and> fl_disabled_branch_node_ids a = fl_disabled_branch_node_ids b"
proof -
  have rooms: "concat (map room_material (fl_rooms a)) @ r = concat (map room_material (fl_rooms b)) @ s \<longleftrightarrow>
      map room_key (fl_rooms a) = map room_key (fl_rooms b) \<and> r = s" for r s
    using assms by (intro concat_append_eq [where fits = room_fits] room_material_eq) (auto simp: layout_fits_def)
  have corridors: "concat (map corridor_material (fl_corridors a)) @ r = concat (map corridor_material (fl_corridors b)) @ s \<longleftrightarrow>
      map id (fl_corridors a) = map id (fl_corridors b) \<and> r = s" for r s
    using assms
    by (intro concat_append_eq [where fits = corridor_fits]) (auto simp: layout_fits_def corridor_material_eq)
  have "concat (map update_text (fl_disabled_branch_node_ids a)) = concat (map update_text (fl_disabled_branch_node_ids b)) \<longleftrightarrow>
      fl_disabled_branch_node_ids a = fl_disabled_branch_node_ids b"
    using assms hashed_text.encode_list_inject by (auto simp: layout_fits_def)
  then show ?thesis
    using assms(1,2) by (simp add: layout_material_def text_append_eq rooms corridors layout_fits_def)
qed

section \<open>Two layouts with one digest\<close>

definition empty_template :: "string \<Rightarrow> u16 \<Rightarrow> rotated_dungeon_room" where
  "empty_template i degrees =
     \<lparr>rr_room_id = i, rr_rotation_degrees = degrees, rr_width_milli_tiles = 1000, rr_height_milli_tiles = 1000,
      rr_doors = [], rr_volumes = [], rr_anchors = [], rr_safe_noncombat = False\<rparr>"

definition placed_at_origin :: "string \<Rightarrow> string \<Rightarrow> u16 \<Rightarrow> placed_dungeon_room" where
  "placed_at_origin node i degrees =
     \<lparr>pr_node_id = node, pr_room = empty_template i degrees, pr_origin_x_milli_tiles = 0,
      pr_origin_y_milli_tiles = 0, pr_counts_toward_room_total = True\<rparr>"

definition two_room_layout :: fixed_dungeon_layout_definition where
  "two_room_layout =
     \<lparr>fl_id = ''layout'', fl_rooms = [placed_at_origin ''B0'' ''hall'' 0, placed_at_origin ''B1'' ''nave'' 90],
      fl_corridors = [], fl_disabled_branch_node_ids = [replicate 79 CHR ''x'']\<rparr>"

definition one_room_layout :: fixed_dungeon_layout_definition where
  "one_room_layout =
     \<lparr>fl_id = ''layout'', fl_rooms = [placed_at_origin ''B0'' ''hall'' 0], fl_corridors = [],
      fl_disabled_branch_node_ids =
        [''B1'', ''nave'', [CHR 0x00, CHR 0x00, CHR 0x01, CHR 0x4F] @ replicate 7 CHR 0x00 @ replicate 79 CHR ''x'']\<rparr>"

text \<open>
  C31. The digest does not separate the three lists of a layout: there are two validated layouts, one with two
  rooms and one with a single room, that have the same digest under every hash function. The second room of the first layout
  reads as three disabled branch names of the second.
\<close>

theorem layout_digest_ambiguous:
  "validated_layout two_room_layout = Inr two_room_layout \<and> validated_layout one_room_layout = Inr one_room_layout
   \<and> length (fl_rooms two_room_layout) = 2 \<and> length (fl_rooms one_room_layout) = 1
   \<and> (\<forall>hash. deterministic_digest hash two_room_layout = deterministic_digest hash one_room_layout)"
proof -
  have "layout_material two_room_layout = layout_material one_room_layout"
    by code_simp
  moreover have "validated_layout two_room_layout = Inr two_room_layout" "validated_layout one_room_layout = Inr one_room_layout"
    by (simp_all add: validated_layout_def two_room_layout_def one_room_layout_def placed_at_origin_def unique_def)
  ultimately show ?thesis
    by (simp add: deterministic_digest_def two_room_layout_def one_room_layout_def)
qed

section \<open>Corridors and world doors\<close>

lemma sint_i32_diff: "sint (scast (a :: i32) - scast (b :: i32) :: i64) = sint a - sint b"
  using i32_range [of a] i32_range [of b] by (simp add: sint_word_i64_add abs_le_iff)

lemma uint_unsigned_abs:
  assumes "\<bar>sint k\<bar> < 2 ^ 62"
  shows "uint (unsigned_abs k) = \<bar>sint k\<bar>"
proof -
  have pos: "uint m = sint m" if "0 \<le> sint m" "sint m < 2 ^ 62" for m :: i64
  proof -
    have "uint (word_of_int (sint m) :: i64) = take_bit 64 (sint m)"
      by (simp only: unsigned_of_int len_num1 len_bit0) simp
    also have "\<dots> = sint m"
      using that by (intro take_bit_int_eq_self) simp_all
    finally show ?thesis
      by simp
  qed
  have "sint (- k) = - sint k"
    using assms by (simp add: sint_word_ariths signed_take_bit_int_eq_self abs_less_iff)
  then show ?thesis
    using assms pos [of k] pos [of "- k"] by (auto simp: unsigned_abs_def word_sless_alt)
qed

text \<open>A corridor runs along one axis, and its length is the distance of its ends.\<close>

definition corridor_ok :: "string set \<Rightarrow> dungeon_corridor \<Rightarrow> bool" where
  "corridor_ok nodes c \<longleftrightarrow>
     co_from_node_id c \<in> nodes \<and> co_to_node_id c \<in> nodes \<and> 0 < uint (co_width_milli_tiles c) \<and> 0 < uint (co_length_milli_tiles c)
     \<and> (sint (co_start_x_milli_tiles c) = sint (co_end_x_milli_tiles c)
           \<and> \<bar>sint (co_end_y_milli_tiles c) - sint (co_start_y_milli_tiles c)\<bar> = uint (co_length_milli_tiles c)
        \<or> sint (co_start_y_milli_tiles c) = sint (co_end_y_milli_tiles c)
           \<and> \<bar>sint (co_end_x_milli_tiles c) - sint (co_start_x_milli_tiles c)\<bar> = uint (co_length_milli_tiles c))"

lemma manhattan_test:
  fixes x0 x1 y0 y1 :: i32 and n :: u32
  defines "dx \<equiv> scast x1 - scast x0 :: i64" and "dy \<equiv> scast y1 - scast y0 :: i64"
  shows "dx = 0 \<longleftrightarrow> sint x0 = sint x1" "dy = 0 \<longleftrightarrow> sint y0 = sint y1"
    and "saturating_add (unsigned_abs dx) (unsigned_abs dy) = ucast n \<longleftrightarrow>
      \<bar>sint x1 - sint x0\<bar> + \<bar>sint y1 - sint y0\<bar> = uint n"
proof -
  have d: "sint dx = sint x1 - sint x0" "sint dy = sint y1 - sint y0"
    by (simp_all add: dx_def dy_def sint_i32_diff)
  have zero: "k = 0 \<longleftrightarrow> sint k = 0" for k :: i64
    by (metis signed_0 signed_word_eqI)
  show "dx = 0 \<longleftrightarrow> sint x0 = sint x1" "dy = 0 \<longleftrightarrow> sint y0 = sint y1"
    unfolding zero d by auto
  have bound: "\<bar>sint x1 - sint x0\<bar> < 2 ^ 32" "\<bar>sint y1 - sint y0\<bar> < 2 ^ 32"
    using i32_range [of x0] i32_range [of x1] i32_range [of y0] i32_range [of y1] by (auto simp: abs_less_iff)
  then have "uint (unsigned_abs dx) = \<bar>sint x1 - sint x0\<bar>" "uint (unsigned_abs dy) = \<bar>sint y1 - sint y0\<bar>"
    using uint_unsigned_abs [of dx] uint_unsigned_abs [of dy] by (simp_all add: d)
  moreover have "uint (saturating_add a b) = min (2 ^ 64 - 1) (uint a + uint b)" for a b :: u64
  proof -
    have "int (unat (saturating_add a b)) = min (2 ^ 64 - 1) (int (unat a) + int (unat b))"
      by (simp only: unat_saturating_add) (simp add: of_nat_min)
    then show ?thesis by simp
  qed
  ultimately have "uint (saturating_add (unsigned_abs dx) (unsigned_abs dy)) = \<bar>sint x1 - sint x0\<bar> + \<bar>sint y1 - sint y0\<bar>"
    using bound by simp
  moreover have "uint (ucast n :: u64) = uint n"
    using u32_range [of n] by (simp add: unsigned_ucast_eq take_bit_int_eq_self)
  moreover have "saturating_add (unsigned_abs dx) (unsigned_abs dy) = ucast n \<longleftrightarrow>
      uint (saturating_add (unsigned_abs dx) (unsigned_abs dy)) = uint (ucast n :: u64)"
    by (metis unsigned_word_eqI)
  ultimately show "saturating_add (unsigned_abs dx) (unsigned_abs dy) = ucast n \<longleftrightarrow>
      \<bar>sint x1 - sint x0\<bar> + \<bar>sint y1 - sint y0\<bar> = uint n"
    by (simp only:)
qed

lemma validate_corridor_iff: "validate_corridor nodes c u = Inr () \<longleftrightarrow> corridor_ok (set nodes) c"
proof -
  have pos: "n \<noteq> 0 \<longleftrightarrow> 0 < uint n" for n :: u32
    using u32_range(1) [of n] unsigned_0 unsigned_word_eqI by (metis order_less_le)
  show ?thesis
    unfolding validate_corridor_def corridor_ok_def Let_def manhattan_test
    by (auto simp: pos)
qed

text \<open>
  Validation of a fixed layout accepts exactly the intended layouts and returns them unchanged: a
  named layout with at least one room, distinct nodes and distinct disabled branches, whose corridors
  join placed nodes, have a width, run along one axis and are as long as the distance of their ends, computed
  without overflow for all end points.
\<close>

lemma validated_layout_exact:
  "validated_layout layout = Inr layout' \<longleftrightarrow>
     layout' = layout \<and> fl_id layout \<noteq> [] \<and> fl_rooms layout \<noteq> []
     \<and> distinct (map pr_node_id (fl_rooms layout)) \<and> distinct (fl_disabled_branch_node_ids layout)
     \<and> (\<forall>c \<in> set (fl_corridors layout). corridor_ok (pr_node_id ` set (fl_rooms layout)) c)"
  by (cases "fl_id layout = [] \<or> fl_rooms layout = []")
    (auto simp: validated_layout_def Let_def try_fold_unit validate_corridor_iff)

lemma find_mapped_key:
  "distinct (map key xs) \<Longrightarrow> x \<in> set xs \<Longrightarrow> (\<And>y. key' (f y) = key y) \<Longrightarrow> find (\<lambda>y. key' y = key x) (map f xs) = Some (f x)"
  by (induction xs) auto

lemma checked_sadd_cases:
  fixes a b :: i32
  shows "if - (2 ^ 31) \<le> sint a + sint b \<and> sint a + sint b < 2 ^ 31
    then \<exists>c. checked_sadd a b = Some c \<and> sint c = sint a + sint b else checked_sadd a b = None"
  using sint_of_int_exact [of "sint a + sint b", where 'a = 32]
  by (auto simp: checked_sadd_def Let_def simp del: of_int_add)

lemma world_door_found:
  fixes placed :: placed_dungeon_room
  defines "wx x \<equiv> sint (pr_origin_x_milli_tiles placed) + x" and "wy y \<equiv> sint (pr_origin_y_milli_tiles placed) + y"
  assumes "door (pr_room placed) i = Some e" and "x = sint (rd_x_milli_tiles e)" and "y = sint (rd_y_milli_tiles e)"
  shows "if - (2 ^ 31) \<le> wx x \<and> wx x < 2 ^ 31 \<and> - (2 ^ 31) \<le> wy y \<and> wy y < 2 ^ 31
    then \<exists>w. world_door placed i = Inr w \<and> wd_side w = rd_side e
      \<and> wd_width_milli_tiles w = rd_width_milli_tiles e \<and> sint (wd_x_milli_tiles w) = wx x \<and> sint (wd_y_milli_tiles w) = wy y
    else world_door placed i = Inl CoordinateOverflow"
proof -
  note cx = checked_sadd_cases [of "pr_origin_x_milli_tiles placed" "rd_x_milli_tiles e"]
    and cy = checked_sadd_cases [of "pr_origin_y_milli_tiles placed" "rd_y_milli_tiles e"]
  show ?thesis
  proof (cases "- (2 ^ 31) \<le> wx x \<and> wx x < 2 ^ 31 \<and> - (2 ^ 31) \<le> wy y \<and> wy y < 2 ^ 31")
    case True
    then obtain a b where "checked_sadd (pr_origin_x_milli_tiles placed) (rd_x_milli_tiles e) = Some a" "sint a = wx x"
      "checked_sadd (pr_origin_y_milli_tiles placed) (rd_y_milli_tiles e) = Some b" "sint b = wy y"
      using cx cy unfolding assms by (auto split: if_splits)
    then show ?thesis
      using True assms(3) by (simp add: world_door_def)
  next
    case False
    then have "checked_sadd (pr_origin_x_milli_tiles placed) (rd_x_milli_tiles e) = None
      \<or> checked_sadd (pr_origin_y_milli_tiles placed) (rd_y_milli_tiles e) = None"
      using cx cy unfolding assms by (auto split: if_splits)
    then show ?thesis
      using False assms(3)
      by (cases "checked_sadd (pr_origin_x_milli_tiles placed) (rd_x_milli_tiles e)") (auto simp: world_door_def)
  qed
qed

text \<open>
  The door of a placed room in the world: for a placed rotation of a validated template with distinct door names, asking
  for a template door by its name yields its rotated side and width at the sum of the room's origin
  and the door's point on the edge of the rotated room, or the overflow error exactly when a coordinate
  of that sum leaves the 32-bit range; every other name is an unknown door.
\<close>

lemma world_door_exact:
  assumes "validated_room room = Inr room" and "rotated room d = Inr (pr_room placed)"
    and "rotation_quarter_turns d = Inr q"
  shows "(\<forall>t \<in> set (dr_doors room).
       let (x, y) = turned q room (sints (door_point t (dr_width_milli_tiles room) (dr_height_milli_tiles room)));
           wx = sint (pr_origin_x_milli_tiles placed) + x; wy = sint (pr_origin_y_milli_tiles placed) + y
       in if - (2 ^ 31) \<le> wx \<and> wx < 2 ^ 31 \<and> - (2 ^ 31) \<le> wy \<and> wy < 2 ^ 31
          then \<exists>w. world_door placed (dd_id t) = Inr w \<and> wd_side w = rotated_clockwise (dd_side t) q
            \<and> wd_width_milli_tiles w = dd_width_milli_tiles t \<and> sint (wd_x_milli_tiles w) = wx \<and> sint (wd_y_milli_tiles w) = wy
          else world_door placed (dd_id t) = Inl CoordinateOverflow)
    \<and> (\<forall>i. i \<notin> dd_id ` set (dr_doors room) \<longrightarrow> world_door placed i = Inl (UnknownDoor (pr_node_id placed) i))"
proof (intro conjI ballI allI impI)
  fix t assume t: "t \<in> set (dr_doors room)"
  have ok: "room_ok room"
    using assms(1) by (simp add: validated_room_iff)
  have doors: "rr_doors (pr_room placed) = map (rotated_door room q) (dr_doors room)"
    by (rule rotated_parts(6) [OF assms(2,3)])
  have found: "door (pr_room placed) (dd_id t) = Some (rotated_door room q t)"
    using t ok unfolding door_def doors room_ok_def by (intro find_mapped_key) simp_all
  let ?p = "door_point t (dr_width_milli_tiles room) (dr_height_milli_tiles room)"
  have "sints (turn room q ?p) = turned q room (sints ?p)"
    using t ok door_point_on_edge [OF ok, of t] by (intro sints_turn ok) (auto simp: room_ok_def on_edge_def)
  then have "turned q room (sints ?p) = (sint (fst (turn room q ?p)), sint (snd (turn room q ?p)))"
    by (simp add: map_prod_def case_prod_unfold)
  then show "let (x, y) = turned q room (sints ?p);
           wx = sint (pr_origin_x_milli_tiles placed) + x; wy = sint (pr_origin_y_milli_tiles placed) + y
       in if - (2 ^ 31) \<le> wx \<and> wx < 2 ^ 31 \<and> - (2 ^ 31) \<le> wy \<and> wy < 2 ^ 31
          then \<exists>w. world_door placed (dd_id t) = Inr w \<and> wd_side w = rotated_clockwise (dd_side t) q
            \<and> wd_width_milli_tiles w = dd_width_milli_tiles t \<and> sint (wd_x_milli_tiles w) = wx \<and> sint (wd_y_milli_tiles w) = wy
          else world_door placed (dd_id t) = Inl CoordinateOverflow"
    using world_door_found [OF found refl refl] by (simp only: Let_def prod.case rotated_fields)
next
  fix i assume "i \<notin> dd_id ` set (dr_doors room)"
  then have "door (pr_room placed) i = None"
    by (auto simp: door_def rotated_parts(6) [OF assms(2,3)] find_None_iff)
  then show "world_door placed i = Inl (UnknownDoor (pr_node_id placed) i)"
    by (simp add: world_door_def)
qed

end
