(* ===== verification/Terminal_Coordinator.thy ===== *)
theory Terminal_Coordinator
  imports Arbiter_Properties Byte_Encoding
begin

text \<open>
  The coordinator of one character's terminal producers (\<open>server_app/src/core_terminal_coordinator.rs\<close>):
  five server systems evaluate every danger tick, each with a candidate or an explicit absence, and
  only the complete barrier of all five seals the tick through the arbiter of \<open>Terminal_Arbiter\<close>. The authenticated account is that of
  \<open>server_app/src/identity.rs\<close>. Every mutating operation returns its result with the coordinator it
  leaves, because a refused operation of the source keeps what was already assigned; the outer
  option is None for a panic of the arbiter. The hash of the snapshot (\<open>blake3\<close> keyed with a
  context) is a parameter from the context and the bytes fed to the hasher.
\<close>

unbundle bit_operations_syntax

section \<open>Producers and evaluations\<close>

definition ALL_PRODUCERS_MASK :: u8 where
  "ALL_PRODUCERS_MASK = 31"

datatype core_terminal_producer =
    LethalHealth
  | ProducerSuccessfulExtraction
  | ProducerEmergencyRecall
  | ProducerDisconnectRecovery
  | VerifiedFaultRestoration

definition ALL_PRODUCERS :: "core_terminal_producer list" where
  "ALL_PRODUCERS = [LethalHealth, ProducerSuccessfulExtraction, ProducerEmergencyRecall,
     ProducerDisconnectRecovery, VerifiedFaultRestoration]"

fun terminal_kind_of :: "core_terminal_producer \<Rightarrow> terminal_kind" where
  "terminal_kind_of LethalHealth = LethalDeath"
| "terminal_kind_of ProducerSuccessfulExtraction = SuccessfulExtraction"
| "terminal_kind_of ProducerEmergencyRecall = EmergencyRecall"
| "terminal_kind_of ProducerDisconnectRecovery = DisconnectRecovery"
| "terminal_kind_of VerifiedFaultRestoration = VerifiedServerFaultRestoration"

fun producer_mask :: "core_terminal_producer \<Rightarrow> u8" where
  "producer_mask LethalHealth = push_bit 0 1"
| "producer_mask ProducerSuccessfulExtraction = push_bit 1 1"
| "producer_mask ProducerEmergencyRecall = push_bit 2 1"
| "producer_mask ProducerDisconnectRecovery = push_bit 3 1"
| "producer_mask VerifiedFaultRestoration = push_bit 4 1"

record core_terminal_evaluation =
  ev_producer :: core_terminal_producer
  ev_binding :: terminal_binding
  ev_observed_tick :: u64
  ev_expected_state_version :: u64
  ev_candidate :: "terminal_candidate option"

definition evaluation_absent ::
  "core_terminal_producer \<Rightarrow> terminal_binding \<Rightarrow> u64 \<Rightarrow> u64 \<Rightarrow> core_terminal_evaluation" where
  "evaluation_absent producer binding observed_tick expected_state_version =
     \<lparr>ev_producer = producer, ev_binding = binding, ev_observed_tick = observed_tick,
      ev_expected_state_version = expected_state_version, ev_candidate = None\<rparr>"

definition evaluation_candidate ::
  "core_terminal_producer \<Rightarrow> terminal_binding \<Rightarrow> u64 \<Rightarrow> u64 \<Rightarrow> terminal_candidate \<Rightarrow> core_terminal_evaluation" where
  "evaluation_candidate producer binding observed_tick expected_state_version candidate =
     \<lparr>ev_producer = producer, ev_binding = binding, ev_observed_tick = observed_tick,
      ev_expected_state_version = expected_state_version, ev_candidate = Some candidate\<rparr>"

section \<open>The snapshot of an evaluation\<close>

text \<open>\<open>u64::to_be_bytes\<close>, and a part preceded by its length.\<close>

definition to_be_bytes :: "u64 \<Rightarrow> bytes" where
  "to_be_bytes w = rev (to_le_bytes w)"

definition hash_snapshot_part :: "bytes \<Rightarrow> bytes" where
  "hash_snapshot_part part = to_be_bytes (of_nat (length part)) @ part"

definition binding_parts :: "terminal_binding \<Rightarrow> bytes list" where
  "binding_parts b = [bind_account b, bind_character b, bind_lineage b, bind_restore_point b]"

definition candidate_parts :: "terminal_candidate option \<Rightarrow> bytes list" where
  "candidate_parts candidate =
     (case candidate of
        None \<Rightarrow> [[0]]
      | Some c \<Rightarrow>
          [1] # binding_parts (cand_binding c)
          @ [cand_terminal_id c, cand_mutation_id c, cand_payload_hash c, cand_server_plan_hash c,
             to_be_bytes (cand_expected_state_version c), to_be_bytes (cand_observed_tick c),
             [stable_code (cand_kind c)]])"

definition snapshot_parts :: "core_terminal_evaluation \<Rightarrow> bytes list" where
  "snapshot_parts ev =
     [stable_code (terminal_kind_of (ev_producer ev))] # binding_parts (ev_binding ev)
     @ [to_be_bytes (ev_observed_tick ev), to_be_bytes (ev_expected_state_version ev)]
     @ candidate_parts (ev_candidate ev)"

definition snapshot_material :: "core_terminal_evaluation \<Rightarrow> bytes" where
  "snapshot_material ev = concat (map hash_snapshot_part (snapshot_parts ev))"

definition snapshot_hash :: "(string \<Rightarrow> bytes \<Rightarrow> bytes) \<Rightarrow> core_terminal_evaluation \<Rightarrow> bytes" where
  "snapshot_hash derive_key ev =
     derive_key ''gravebound.core-terminal-evaluation-snapshot.v1'' (snapshot_material ev)"

section \<open>The barrier\<close>

record producer_barrier =
  pb_observed_tick :: u64
  pb_expected_state_version :: u64
  pb_evaluated_mask :: u8
  pb_candidate_count :: u8

definition new_barrier :: "u64 \<Rightarrow> u64 \<Rightarrow> producer_barrier" where
  "new_barrier observed_tick expected_state_version =
     \<lparr>pb_observed_tick = observed_tick, pb_expected_state_version = expected_state_version,
      pb_evaluated_mask = 0, pb_candidate_count = 0\<rparr>"

definition is_complete :: "producer_barrier \<Rightarrow> bool" where
  "is_complete barrier \<longleftrightarrow> pb_evaluated_mask barrier = ALL_PRODUCERS_MASK"

text \<open>\<open>u8::count_ones\<close>.\<close>

definition count_ones :: "u8 \<Rightarrow> nat" where
  "count_ones w = length (filter (bit w) [0..<8])"

definition evaluated_count :: "producer_barrier \<Rightarrow> u8" where
  "evaluated_count barrier = of_nat (count_ones (pb_evaluated_mask barrier))"

definition missing_mask :: "producer_barrier \<Rightarrow> u8" where
  "missing_mask barrier = ALL_PRODUCERS_MASK AND NOT (pb_evaluated_mask barrier)"

record core_terminal_barrier_progress =
  bp_observed_tick :: u64
  bp_expected_state_version :: u64
  bp_evaluated_count :: u8
  bp_candidate_count :: u8
  bp_complete :: bool

record core_terminal_evaluation_accepted =
  ea_producer :: core_terminal_producer
  ea_observed_tick :: u64
  ea_evaluated_count :: u8
  ea_candidate_count :: u8
  ea_barrier_complete :: bool

datatype core_terminal_tick_seal = NoTerminal u64 u64 | SealPrepared prepared_terminal

datatype core_non_terminal_admission =
    CoreAllowed
  | BlockedByProducerBarrier u64
  | CoreBlockedByUnresolvedTerminal
  | CoreBlockedByCommittedTerminal

datatype core_terminal_coordinator_error =
    UnsupportedAuthenticatedNamespace
  | AuthenticatedBindingMismatch
  | InvalidObservedTick
  | InvalidStateVersion
  | EvaluationBindingMismatch
  | ProducerKindMismatch core_terminal_producer terminal_kind
  | CandidateBindingMismatch
  | CandidateTickMismatch u64 u64
  | CandidateVersionMismatch u64 u64
  | DuplicateProducer core_terminal_producer u64
  | TickDrift u64 u64
  | VersionDrift u64 u64
  | NonSequentialTick u64 u64
  | IncompleteProducerBarrier u64 u8
  | TerminalClosed
  | ArbiterRejected submit_rejection
  | PrepareFailed prepare_error
  | CommitFailed commit_error
  | InvalidStoredReceipt terminal_validation_error

section \<open>The coordinator\<close>

datatype authenticated_namespace = WipeableTest | Production

record authenticated_account =
  aa_account_id :: bytes
  aa_namespace :: authenticated_namespace

record core_terminal_coordinator =
  tc_authenticated_account :: authenticated_account
  tc_arbiter :: terminal_arbiter
  tc_barrier :: "producer_barrier option"
  tc_last_sealed_tick :: "u64 option"

definition validate_authenticated_binding ::
  "authenticated_account \<Rightarrow> terminal_binding \<Rightarrow> core_terminal_coordinator_error + unit" where
  "validate_authenticated_binding account binding =
     (if aa_namespace account \<noteq> WipeableTest then Inl UnsupportedAuthenticatedNamespace
      else if aa_account_id account \<noteq> bind_account binding then Inl AuthenticatedBindingMismatch
      else Inr ())"

definition new_coordinator ::
  "authenticated_account \<Rightarrow> terminal_binding \<Rightarrow> core_terminal_coordinator_error + core_terminal_coordinator" where
  "new_coordinator account binding =
     and_then (validate_authenticated_binding account binding) (\<lambda>_.
       Inr \<lparr>tc_authenticated_account = account, tc_arbiter = new_arbiter binding,
            tc_barrier = None, tc_last_sealed_tick = None\<rparr>)"

definition coordinator_from_stored_receipt ::
  "authenticated_account \<Rightarrow> stored_terminal_receipt
     \<Rightarrow> core_terminal_coordinator_error + core_terminal_coordinator" where
  "coordinator_from_stored_receipt account receipt =
     and_then (map_err InvalidStoredReceipt (validate_receipt receipt)) (\<lambda>_.
     and_then (validate_authenticated_binding account (rc_binding receipt)) (\<lambda>_.
     and_then (map_err InvalidStoredReceipt (from_stored_receipt receipt)) (\<lambda>arbiter.
       Inr \<lparr>tc_authenticated_account = account, tc_arbiter = arbiter,
            tc_barrier = None, tc_last_sealed_tick = Some (rc_observed_tick receipt)\<rparr>)))"

definition coordinator_admission :: "core_terminal_coordinator \<Rightarrow> core_non_terminal_admission" where
  "coordinator_admission co =
     (case non_terminal_admission_of (tc_arbiter co) of
        BlockedByUnresolvedTerminal \<Rightarrow> CoreBlockedByUnresolvedTerminal
      | BlockedByCommittedTerminal \<Rightarrow> CoreBlockedByCommittedTerminal
      | Allowed \<Rightarrow>
          (case tc_barrier co of
             Some barrier \<Rightarrow> BlockedByProducerBarrier (pb_observed_tick barrier)
           | None \<Rightarrow> CoreAllowed))"

definition barrier_progress :: "core_terminal_coordinator \<Rightarrow> core_terminal_barrier_progress option" where
  "barrier_progress co =
     map_option (\<lambda>barrier.
       \<lparr>bp_observed_tick = pb_observed_tick barrier,
        bp_expected_state_version = pb_expected_state_version barrier,
        bp_evaluated_count = evaluated_count barrier, bp_candidate_count = pb_candidate_count barrier,
        bp_complete = is_complete barrier\<rparr>) (tc_barrier co)"

definition terminal_closed :: "core_terminal_coordinator \<Rightarrow> bool" where
  "terminal_closed co \<longleftrightarrow>
     prepared_terminal_of (tc_arbiter co) \<noteq> None \<or> committed_receipt (tc_arbiter co) \<noteq> None"

definition validate_barrier_identity ::
  "core_terminal_coordinator \<Rightarrow> core_terminal_evaluation \<Rightarrow> core_terminal_coordinator_error + unit" where
  "validate_barrier_identity co ev =
     (case tc_barrier co of
        Some barrier \<Rightarrow>
          if pb_evaluated_mask barrier AND producer_mask (ev_producer ev) \<noteq> 0
          then Inl (DuplicateProducer (ev_producer ev) (pb_observed_tick barrier))
          else if ev_observed_tick ev \<noteq> pb_observed_tick barrier
          then Inl (TickDrift (pb_observed_tick barrier) (ev_observed_tick ev))
          else if ev_expected_state_version ev \<noteq> pb_expected_state_version barrier
          then Inl (VersionDrift (pb_expected_state_version barrier) (ev_expected_state_version ev))
          else Inr ()
      | None \<Rightarrow>
          (case tc_last_sealed_tick co of
             Some last_tick \<Rightarrow>
               and_then (ok_or (checked_add last_tick 1) InvalidObservedTick) (\<lambda>expected.
                 if ev_observed_tick ev \<noteq> expected
                 then Inl (NonSequentialTick expected (ev_observed_tick ev)) else Inr ())
           | None \<Rightarrow> Inr ()))"

definition validate_evaluation_candidate ::
  "core_terminal_evaluation \<Rightarrow> terminal_candidate \<Rightarrow> core_terminal_coordinator_error + unit" where
  "validate_evaluation_candidate ev c =
     (if cand_kind c \<noteq> terminal_kind_of (ev_producer ev)
      then Inl (ProducerKindMismatch (ev_producer ev) (cand_kind c))
      else if cand_binding c \<noteq> ev_binding ev then Inl CandidateBindingMismatch
      else if cand_observed_tick c \<noteq> ev_observed_tick ev
      then Inl (CandidateTickMismatch (ev_observed_tick ev) (cand_observed_tick c))
      else if cand_expected_state_version c \<noteq> ev_expected_state_version ev
      then Inl (CandidateVersionMismatch (ev_expected_state_version ev) (cand_expected_state_version c))
      else Inr ())"

definition validate_evaluation ::
  "core_terminal_coordinator \<Rightarrow> core_terminal_evaluation \<Rightarrow> core_terminal_coordinator_error + unit" where
  "validate_evaluation co ev =
     (if terminal_closed co then Inl TerminalClosed
      else if ev_observed_tick ev = 0 then Inl InvalidObservedTick
      else if ev_expected_state_version ev = 0 \<or> ev_expected_state_version ev = - 1
      then Inl InvalidStateVersion
      else if ev_binding ev \<noteq> arb_binding (tc_arbiter co) then Inl EvaluationBindingMismatch
      else and_then (validate_barrier_identity co ev) (\<lambda>_.
             case ev_candidate ev of Some c \<Rightarrow> validate_evaluation_candidate ev c | None \<Rightarrow> Inr ()))"

text \<open>The part of \<open>evaluate\<close> after the candidate was taken in: the producer is marked.\<close>

definition mark_evaluated ::
  "core_terminal_coordinator \<Rightarrow> core_terminal_evaluation
     \<Rightarrow> core_terminal_evaluation_accepted \<times> core_terminal_coordinator" where
  "mark_evaluated co ev =
     (let opened = (case tc_barrier co of
            Some b \<Rightarrow> b
          | None \<Rightarrow> new_barrier (ev_observed_tick ev) (ev_expected_state_version ev));
          barrier = opened
            \<lparr>pb_evaluated_mask := pb_evaluated_mask opened OR producer_mask (ev_producer ev),
             pb_candidate_count := pb_candidate_count opened + (if ev_candidate ev \<noteq> None then 1 else 0)\<rparr>
      in (\<lparr>ea_producer = ev_producer ev, ea_observed_tick = ev_observed_tick ev,
           ea_evaluated_count = evaluated_count barrier, ea_candidate_count = pb_candidate_count barrier,
           ea_barrier_complete = is_complete barrier\<rparr>,
          co\<lparr>tc_barrier := Some barrier\<rparr>))"

definition evaluate ::
  "core_terminal_coordinator \<Rightarrow> core_terminal_evaluation
     \<Rightarrow> ((core_terminal_coordinator_error + core_terminal_evaluation_accepted) \<times> core_terminal_coordinator) option" where
  "evaluate co ev =
     (case validate_evaluation co ev of
        Inl e \<Rightarrow> Some (Inl e, co)
      | Inr _ \<Rightarrow>
          (case ev_candidate ev of
             None \<Rightarrow> (let (accepted, co') = mark_evaluated co ev in Some (Inr accepted, co'))
           | Some c \<Rightarrow>
               (case submit (tc_arbiter co) c of
                  None \<Rightarrow> None
                | Some (result, arbiter) \<Rightarrow>
                    let co1 = co\<lparr>tc_arbiter := arbiter\<rparr> in
                    (case result of
                       Accepted _ _ _ \<Rightarrow>
                         (let (accepted, co') = mark_evaluated co1 ev in Some (Inr accepted, co'))
                     | Rejected rejection \<Rightarrow> Some (Inl (ArbiterRejected rejection), co1)
                     | _ \<Rightarrow> Some (Inl TerminalClosed, co1)))))"

definition seal_authoritative_tick ::
  "core_terminal_coordinator \<Rightarrow> u64 \<Rightarrow> u64
     \<Rightarrow> ((core_terminal_coordinator_error + core_terminal_tick_seal) \<times> core_terminal_coordinator) option" where
  "seal_authoritative_tick co observed_tick expected_state_version =
     (if terminal_closed co then Some (Inl TerminalClosed, co)
      else case tc_barrier co of
        None \<Rightarrow> Some (Inl (IncompleteProducerBarrier observed_tick ALL_PRODUCERS_MASK), co)
      | Some barrier \<Rightarrow>
          if observed_tick \<noteq> pb_observed_tick barrier
          then Some (Inl (TickDrift (pb_observed_tick barrier) observed_tick), co)
          else if expected_state_version \<noteq> pb_expected_state_version barrier
          then Some (Inl (VersionDrift (pb_expected_state_version barrier) expected_state_version), co)
          else if \<not> is_complete barrier
          then Some (Inl (IncompleteProducerBarrier observed_tick (missing_mask barrier)), co)
          else if pb_candidate_count barrier = 0
          then Some (Inr (NoTerminal observed_tick expected_state_version),
                     co\<lparr>tc_barrier := None, tc_last_sealed_tick := Some observed_tick\<rparr>)
          else case prepare (tc_arbiter co) observed_tick of
                 None \<Rightarrow> None
               | Some (Inl e, arbiter) \<Rightarrow> Some (Inl (PrepareFailed e), co\<lparr>tc_arbiter := arbiter\<rparr>)
               | Some (Inr prepared, arbiter) \<Rightarrow>
                   Some (Inr (SealPrepared prepared),
                         co\<lparr>tc_arbiter := arbiter, tc_barrier := None,
                            tc_last_sealed_tick := Some observed_tick\<rparr>))"

definition coordinator_record_commit ::
  "core_terminal_coordinator \<Rightarrow> stored_terminal_receipt
     \<Rightarrow> (core_terminal_coordinator_error + commit_result) \<times> core_terminal_coordinator" where
  "coordinator_record_commit co receipt =
     (let (result, arbiter) = record_commit (tc_arbiter co) receipt in
      (map_err CommitFailed result, co\<lparr>tc_arbiter := arbiter\<rparr>))"

end
