(* ===== verification/Coordinator_Properties.thy ===== *)
theory Coordinator_Properties
  imports Terminal_Coordinator
begin

text \<open>
  What the coordinator of the terminal producers keeps true: its reachable states keep the barrier and
  the arbiter in step, so that refused calls change nothing and the internal errors of sealing cannot
  occur.
\<close>

section \<open>The producer mask\<close>

definition evaluated :: "u8 \<Rightarrow> core_terminal_producer set" where
  "evaluated m = {p. m AND producer_mask p \<noteq> 0}"

fun producer_bit :: "core_terminal_producer \<Rightarrow> nat" where
  "producer_bit LethalHealth = 0"
| "producer_bit ProducerSuccessfulExtraction = 1"
| "producer_bit ProducerEmergencyRecall = 2"
| "producer_bit ProducerDisconnectRecovery = 3"
| "producer_bit VerifiedFaultRestoration = 4"

lemma producer_mask_bit: "producer_mask p = push_bit (producer_bit p) 1"
  by (cases p) simp_all

lemma mask_bit_test: "m AND push_bit n 1 \<noteq> (0 :: u8) \<longleftrightarrow> bit m n"
proof -
  have "m AND push_bit n 1 = (0 :: u8) \<longleftrightarrow> \<not> bit m n"
    by (metis and_exp_eq_0_iff_not_bit push_bit_of_1)
  then show ?thesis by simp
qed

lemma evaluated_iff [simp]: "p \<in> evaluated m \<longleftrightarrow> bit m (producer_bit p)"
  by (simp add: evaluated_def producer_mask_bit mask_bit_test del: push_bit_of_1)

lemma producer_bit_inject [simp]: "producer_bit p = producer_bit q \<longleftrightarrow> p = q"
  by (cases p; cases q) simp_all

lemma producer_bit_less: "producer_bit p < 5"
  by (cases p) simp_all

lemma producer_bit_onto: "n < 5 \<Longrightarrow> \<exists>p. producer_bit p = n"
proof -
  assume "n < 5"
  then have "n = 0 \<or> n = 1 \<or> n = 2 \<or> n = 3 \<or> n = 4" by linarith
  then show ?thesis
    by (metis producer_bit.simps)
qed

lemma bit_producer_mask: "bit (producer_mask p) n \<longleftrightarrow> n = producer_bit p"
  using producer_bit_less [of p] by (auto simp: producer_mask_bit bit_exp_iff)

lemma evaluated_or [simp]: "evaluated (m OR producer_mask p) = insert p (evaluated m)"
  by (auto simp: bit_or_iff bit_producer_mask)

lemma evaluated_zero [simp]: "evaluated 0 = {}"
  by (auto simp: set_eq_iff)

text \<open>A mask of the five producers only.\<close>

definition mask_ok :: "u8 \<Rightarrow> bool" where
  "mask_ok m \<longleftrightarrow> (\<forall>n. bit m n \<longrightarrow> n < 5)"

lemma mask_ok_zero [simp]: "mask_ok 0"
  by (simp add: mask_ok_def)

lemma mask_ok_or [simp]: "mask_ok m \<Longrightarrow> mask_ok (m OR producer_mask p)"
  using producer_bit_less [of p] by (auto simp: mask_ok_def bit_or_iff bit_producer_mask)

lemma bit_all_producers: "bit ALL_PRODUCERS_MASK n \<longleftrightarrow> n < 5"
proof -
  have eq: "ALL_PRODUCERS_MASK = mask 5"
    by (simp add: ALL_PRODUCERS_MASK_def mask_eq_exp_minus_1)
  show ?thesis
    unfolding eq bit_mask_iff by auto
qed

lemma complete_iff:
  assumes "mask_ok (pb_evaluated_mask barrier)"
  shows "is_complete barrier \<longleftrightarrow> evaluated (pb_evaluated_mask barrier) = UNIV"
proof -
  have "is_complete barrier \<longleftrightarrow> (\<forall>n. bit (pb_evaluated_mask barrier) n \<longleftrightarrow> n < 5)"
    by (metis is_complete_def bit_all_producers bit_eqI)
  also have "\<dots> \<longleftrightarrow> (\<forall>p. bit (pb_evaluated_mask barrier) (producer_bit p))"
    using assms producer_bit_less producer_bit_onto by (metis mask_ok_def)
  finally show ?thesis
    by (auto simp: set_eq_iff)
qed

lemma UNIV_producers: "(UNIV :: core_terminal_producer set) = set ALL_PRODUCERS"
proof -
  have "p \<in> set ALL_PRODUCERS" for p
    by (cases p) (simp_all add: ALL_PRODUCERS_def)
  then show ?thesis by auto
qed

lemma card_producers: "card (UNIV :: core_terminal_producer set) = 5"
  unfolding UNIV_producers by (simp add: ALL_PRODUCERS_def)

lemma terminal_kind_inject [simp]: "terminal_kind_of p = terminal_kind_of q \<longleftrightarrow> p = q"
  by (cases p; cases q) simp_all

lemma finite_producers [simp]: "finite (S :: core_terminal_producer set)"
  by (rule finite_subset [OF subset_UNIV]) (simp add: UNIV_producers)

section \<open>The invariant\<close>

definition pending_candidates :: "core_terminal_coordinator \<Rightarrow> terminal_candidate list" where
  "pending_candidates co = (case arb_state (tc_arbiter co) of Pending t cs \<Rightarrow> cs | _ \<Rightarrow> [])"

definition barrier_ok :: "core_terminal_coordinator \<Rightarrow> producer_barrier \<Rightarrow> bool" where
  "barrier_ok co b \<longleftrightarrow>
     (arb_state (tc_arbiter co) = Open \<or> (\<exists>cs. arb_state (tc_arbiter co) = Pending (pb_observed_tick b) cs))
     \<and> mask_ok (pb_evaluated_mask b)
     \<and> unat (pb_candidate_count b) = length (pending_candidates co)
     \<and> distinct (map cand_kind (pending_candidates co))
     \<and> cand_kind ` set (pending_candidates co) \<subseteq> terminal_kind_of ` evaluated (pb_evaluated_mask b)
     \<and> (\<forall>c \<in> set (pending_candidates co). cand_expected_state_version c = pb_expected_state_version b)
     \<and> (\<forall>l. tc_last_sealed_tick co = Some l \<longrightarrow> unat (pb_observed_tick b) = unat l + 1)"

definition coordinator_inv :: "core_terminal_coordinator \<Rightarrow> bool" where
  "coordinator_inv co \<longleftrightarrow>
     arbiter_inv (tc_arbiter co)
     \<and> (case tc_barrier co of
          None \<Rightarrow> \<forall>t cs. arb_state (tc_arbiter co) \<noteq> Pending t cs
        | Some b \<Rightarrow> barrier_ok co b)"

lemma pending_bound:
  assumes "barrier_ok co b"
  shows "length (pending_candidates co) \<le> 5"
proof -
  have "length (pending_candidates co) = card (cand_kind ` set (pending_candidates co))"
    using assms distinct_card [of "map cand_kind (pending_candidates co)"] by (simp add: barrier_ok_def)
  also have "\<dots> \<le> card (terminal_kind_of ` evaluated (pb_evaluated_mask b))"
    using assms by (intro card_mono) (simp_all add: barrier_ok_def)
  also have "\<dots> \<le> card (evaluated (pb_evaluated_mask b))"
    by (rule card_image_le) simp
  also have "\<dots> \<le> card (UNIV :: core_terminal_producer set)"
    by (rule card_mono) simp_all
  finally show ?thesis
    by (simp add: card_producers)
qed

lemma terminal_closed_iff:
  "terminal_closed co \<longleftrightarrow> (\<exists>p. arb_state (tc_arbiter co) = Prepared p) \<or> (\<exists>r. arb_state (tc_arbiter co) = Committed r)"
  by (auto simp: terminal_closed_def prepared_terminal_of_def committed_receipt_def split: arbiter_state.splits)

text \<open>A submission that is not accepted leaves the arbiter as it was.\<close>

lemma submit_refused:
  assumes "submit a c = Some (r, a')" and "\<forall>t n l. r \<noteq> Accepted t n l"
  shows "a' = a"
proof (cases "arb_state a")
  case (Pending tick cs)
  show ?thesis
  proof (cases "validate_candidate c = Inr () \<and> cand_binding c = arb_binding a")
    case True
    with assms(1) Pending obtain cs' where cs': "submit_pending tick cs c = Some (r, cs')" "a' = a\<lparr>arb_state := Pending tick cs'\<rparr>"
      by (auto simp: submit_def)
    from cs'(1) have "cs' = cs"
      by (cases rule: submit_pending_cases) (use assms(2) in auto)
    with cs'(2) Pending show ?thesis by simp
  qed (use assms Pending in \<open>auto simp: submit_def split: sum.splits if_splits\<close>)
qed (use assms in \<open>auto simp: submit_def split: sum.splits if_splits\<close>)

text \<open>An accepted candidate is appended to the pending ones, as long as the queue has room.\<close>

lemma submit_accepted:
  assumes "submit (tc_arbiter co) c = Some (Accepted t n l, a')" and "length (pending_candidates co) < MAX_TERMINAL_CANDIDATES_PER_TICK"
    and "\<not> terminal_closed co"
  shows "arb_state a' = Pending (cand_observed_tick c) (pending_candidates co @ [c])" "arb_binding a' = arb_binding (tc_arbiter co)"
    "validate_candidate c = Inr ()" "cand_binding c = arb_binding (tc_arbiter co)"
proof -
  show "validate_candidate c = Inr ()" "cand_binding c = arb_binding (tc_arbiter co)"
    using assms(1) by (auto simp: submit_def split: sum.splits if_splits)
  show "arb_binding a' = arb_binding (tc_arbiter co)"
    by (rule step_binding [OF step_submit [OF assms(1)]])
  show "arb_state a' = Pending (cand_observed_tick c) (pending_candidates co @ [c])"
  proof (cases "arb_state (tc_arbiter co)")
    case (Pending tick cs)
    with assms(1) obtain cs' where cs': "submit_pending tick cs c = Some (Accepted t n l, cs')" "arb_state a' = Pending tick cs'"
      by (auto simp: submit_def split: sum.splits if_splits)
    from cs'(1) show ?thesis
      by (cases rule: submit_pending_cases) (use assms(2) Pending cs'(2) in \<open>auto simp: pending_candidates_def\<close>)
  next
    case Open
    with assms(1) show ?thesis
      by (auto simp: submit_def pending_candidates_def split: sum.splits if_splits)
  qed (use assms(3) in \<open>auto simp: terminal_closed_iff\<close>)
qed

section \<open>Evaluations\<close>

definition evaluated_of :: "core_terminal_coordinator \<Rightarrow> core_terminal_producer set" where
  "evaluated_of co = (case tc_barrier co of None \<Rightarrow> {} | Some b \<Rightarrow> evaluated (pb_evaluated_mask b))"

definition candidates_of :: "core_terminal_evaluation \<Rightarrow> terminal_candidate list" where
  "candidates_of ev = (case ev_candidate ev of None \<Rightarrow> [] | Some c \<Rightarrow> [c])"

text \<open>What validation of an evaluation establishes.\<close>

lemma validate_evaluation_Inr:
  "validate_evaluation co ev = Inr u \<longleftrightarrow>
     \<not> terminal_closed co \<and> ev_observed_tick ev \<noteq> 0 \<and> ev_expected_state_version ev \<notin> {0, - 1}
     \<and> ev_binding ev = arb_binding (tc_arbiter co)
     \<and> (case tc_barrier co of
          Some b \<Rightarrow> ev_producer ev \<notin> evaluated (pb_evaluated_mask b) \<and> ev_observed_tick ev = pb_observed_tick b
            \<and> ev_expected_state_version ev = pb_expected_state_version b
        | None \<Rightarrow> (\<forall>l. tc_last_sealed_tick co = Some l \<longrightarrow> unat (ev_observed_tick ev) = unat l + 1))
     \<and> (\<forall>c. ev_candidate ev = Some c \<longrightarrow> cand_kind c = terminal_kind_of (ev_producer ev)
          \<and> cand_binding c = ev_binding ev \<and> cand_observed_tick c = ev_observed_tick ev
          \<and> cand_expected_state_version c = ev_expected_state_version ev)"
proof -
  have barrier: "validate_barrier_identity co ev = Inr u \<longleftrightarrow>
      (case tc_barrier co of
          Some b \<Rightarrow> ev_producer ev \<notin> evaluated (pb_evaluated_mask b) \<and> ev_observed_tick ev = pb_observed_tick b
            \<and> ev_expected_state_version ev = pb_expected_state_version b
        | None \<Rightarrow> (\<forall>l. tc_last_sealed_tick co = Some l \<longrightarrow> unat (ev_observed_tick ev) = unat l + 1))" for u
  proof (cases "tc_barrier co")
    case None
    then show ?thesis
      by (cases "tc_last_sealed_tick co")
        (auto simp: validate_barrier_identity_def checked_add_eq_Some word_unat_eq_iff)
  next
    case (Some b)
    then show ?thesis
      unfolding validate_barrier_identity_def evaluated_def by auto
  qed
  have "validate_evaluation_candidate ev c = Inr u \<longleftrightarrow> cand_kind c = terminal_kind_of (ev_producer ev)
      \<and> cand_binding c = ev_binding ev \<and> cand_observed_tick c = ev_observed_tick ev
      \<and> cand_expected_state_version c = ev_expected_state_version ev" for c u
    by (auto simp: validate_evaluation_candidate_def)
  then show ?thesis
    by (auto simp: validate_evaluation_def barrier split: option.splits)
qed

lemma evaluate_refused:
  assumes "evaluate co ev = Some (Inl e, co')"
  shows "co' = co"
proof (cases "\<exists>c r a. validate_evaluation co ev = Inr () \<and> ev_candidate ev = Some c \<and> submit (tc_arbiter co) c = Some (r, a)")
  case True
  then obtain c r a where s: "validate_evaluation co ev = Inr ()" "ev_candidate ev = Some c" "submit (tc_arbiter co) c = Some (r, a)"
    by blast
  with assms have "\<forall>t n l. r \<noteq> Accepted t n l" "co' = co\<lparr>tc_arbiter := a\<rparr>"
    by (auto simp: evaluate_def Let_def mark_evaluated_def split: submit_result.splits)
  with submit_refused [OF s(3)] show ?thesis by simp
qed (use assms in \<open>auto simp: evaluate_def Let_def mark_evaluated_def split: sum.splits option.splits submit_result.splits\<close>)

lemma evaluate_total:
  assumes "coordinator_inv co"
  shows "\<exists>r. evaluate co ev = Some r"
proof -
  have "submit (tc_arbiter co) c \<noteq> None" for c
    using assms submit_total [of "tc_arbiter co" c] by (auto simp: coordinator_inv_def)
  then show ?thesis
    by (cases "validate_evaluation co ev"; cases "ev_candidate ev")
      (auto simp: evaluate_def Let_def mark_evaluated_def split: option.split submit_result.split)
qed

definition opened_barrier :: "core_terminal_coordinator \<Rightarrow> core_terminal_evaluation \<Rightarrow> producer_barrier" where
  "opened_barrier co ev = (case tc_barrier co of
      Some b \<Rightarrow> b | None \<Rightarrow> new_barrier (ev_observed_tick ev) (ev_expected_state_version ev))"

lemma opened_barrier_ok:
  assumes "coordinator_inv co" and "validate_evaluation co ev = Inr ()"
  shows "barrier_ok co (opened_barrier co ev)" "pb_observed_tick (opened_barrier co ev) = ev_observed_tick ev"
    "pb_expected_state_version (opened_barrier co ev) = ev_expected_state_version ev"
    "evaluated (pb_evaluated_mask (opened_barrier co ev)) = evaluated_of co" "ev_producer ev \<notin> evaluated_of co"
proof -
  note valid = assms(2) [unfolded validate_evaluation_Inr]
  have all: "barrier_ok co (opened_barrier co ev) \<and> pb_observed_tick (opened_barrier co ev) = ev_observed_tick ev
    \<and> pb_expected_state_version (opened_barrier co ev) = ev_expected_state_version ev
    \<and> evaluated (pb_evaluated_mask (opened_barrier co ev)) = evaluated_of co \<and> ev_producer ev \<notin> evaluated_of co"
  proof (cases "tc_barrier co")
    case None
    then have "arb_state (tc_arbiter co) = Open"
      using assms(1) valid by (cases "arb_state (tc_arbiter co)") (auto simp: coordinator_inv_def terminal_closed_iff)
    with None valid show ?thesis
      by (simp add: opened_barrier_def new_barrier_def barrier_ok_def pending_candidates_def evaluated_of_def)
  next
    case (Some b)
    with assms(1) valid show ?thesis
      by (simp add: opened_barrier_def coordinator_inv_def evaluated_of_def)
  qed
  then show "barrier_ok co (opened_barrier co ev)" "pb_observed_tick (opened_barrier co ev) = ev_observed_tick ev"
    "pb_expected_state_version (opened_barrier co ev) = ev_expected_state_version ev"
    "evaluated (pb_evaluated_mask (opened_barrier co ev)) = evaluated_of co" "ev_producer ev \<notin> evaluated_of co"
    by blast+
qed

text \<open>Marking the producer after its candidates were appended.\<close>

lemma mark_evaluated_ok:
  assumes inv: "coordinator_inv co" and valid: "validate_evaluation co ev = Inr ()"
    and mid: "arbiter_inv a" "pending_candidates (co\<lparr>tc_arbiter := a\<rparr>) = pending_candidates co @ candidates_of ev"
      "arb_state a = Open \<or> (\<exists>cs. arb_state a = Pending (ev_observed_tick ev) cs)" "arb_binding a = arb_binding (tc_arbiter co)"
    and mark: "mark_evaluated (co\<lparr>tc_arbiter := a\<rparr>) ev = (r, co')"
  shows "coordinator_inv co'" and "evaluated_of co' = insert (ev_producer ev) (evaluated_of co)"
    and "pending_candidates co' = pending_candidates co @ candidates_of ev"
    and "\<exists>b. tc_barrier co' = Some b \<and> pb_observed_tick b = ev_observed_tick ev
      \<and> pb_expected_state_version b = ev_expected_state_version ev"
    and "tc_last_sealed_tick co' = tc_last_sealed_tick co" "arb_binding (tc_arbiter co') = arb_binding (tc_arbiter co)"
    and "\<not> terminal_closed co'"
proof -
  let ?b = "opened_barrier co ev"
  note opened = opened_barrier_ok [OF inv valid]
  let ?b' = "?b\<lparr>pb_evaluated_mask := pb_evaluated_mask ?b OR producer_mask (ev_producer ev),
    pb_candidate_count := pb_candidate_count ?b + (if ev_candidate ev \<noteq> None then 1 else 0)\<rparr>"
  have co': "co' = co\<lparr>tc_arbiter := a, tc_barrier := Some ?b'\<rparr>"
    using mark by (simp add: mark_evaluated_def opened_barrier_def Let_def)
  have pending: "pending_candidates co' = pending_candidates co @ candidates_of ev"
    using mid(2) by (simp add: co' pending_candidates_def)
  have "unat (pb_candidate_count ?b + (if ev_candidate ev \<noteq> None then 1 else 0)) =
      unat (pb_candidate_count ?b) + length (candidates_of ev)"
    using pending_bound [OF opened(1)] opened(1)
    by (auto simp: candidates_of_def barrier_ok_def unat_word_ariths split: option.split)
  moreover have "cand_kind c \<notin> cand_kind ` set (pending_candidates co)" "cand_kind c = terminal_kind_of (ev_producer ev)"
    "cand_expected_state_version c = ev_expected_state_version ev" if "ev_candidate ev = Some c" for c
  proof -
    show kind: "cand_kind c = terminal_kind_of (ev_producer ev)" "cand_expected_state_version c = ev_expected_state_version ev"
      using valid that by (simp_all add: validate_evaluation_Inr)
    show "cand_kind c \<notin> cand_kind ` set (pending_candidates co)"
    proof
      assume "cand_kind c \<in> cand_kind ` set (pending_candidates co)"
      with opened(1) obtain p where "p \<in> evaluated (pb_evaluated_mask ?b)" "cand_kind c = terminal_kind_of p"
        unfolding barrier_ok_def by blast
      with kind opened(4,5) show False
        by (metis terminal_kind_inject)
    qed
  qed
  ultimately have "barrier_ok co' ?b'"
    using opened(1-3) mid(3) unfolding barrier_ok_def pending
    by (auto simp: co' candidates_of_def split: option.splits)
  then show "coordinator_inv co'"
    using mid(1) by (simp add: co' coordinator_inv_def)
  show "pending_candidates co' = pending_candidates co @ candidates_of ev"
    by (rule pending)
  show "evaluated_of co' = insert (ev_producer ev) (evaluated_of co)"
    using opened(4) by (simp add: co' evaluated_of_def [of "co\<lparr>tc_arbiter := a, tc_barrier := Some _\<rparr>"])
qed (use mid(3,4) mark opened_barrier_ok(2,3) [OF inv valid] in
  \<open>auto simp: mark_evaluated_def opened_barrier_def Let_def terminal_closed_iff\<close>)

text \<open>The coordinator after an accepted evaluation.\<close>

lemma evaluate_accepted:
  assumes inv: "coordinator_inv co" and step: "evaluate co ev = Some (Inr a, co')"
  shows "coordinator_inv co'" "validate_evaluation co ev = Inr ()"
    and "evaluated_of co' = insert (ev_producer ev) (evaluated_of co)" "ev_producer ev \<notin> evaluated_of co"
    and "pending_candidates co' = pending_candidates co @ candidates_of ev"
    and "\<exists>b. tc_barrier co' = Some b \<and> pb_observed_tick b = ev_observed_tick ev
      \<and> pb_expected_state_version b = ev_expected_state_version ev"
    and "tc_last_sealed_tick co' = tc_last_sealed_tick co" "arb_binding (tc_arbiter co') = arb_binding (tc_arbiter co)"
    and "\<not> terminal_closed co'"
proof -
  show valid: "validate_evaluation co ev = Inr ()"
    using step by (auto simp: evaluate_def split: sum.splits)
  show "ev_producer ev \<notin> evaluated_of co"
    by (rule opened_barrier_ok(5) [OF inv valid])
  have open_co: "\<not> terminal_closed co"
    using valid by (simp add: validate_evaluation_Inr)
  have "\<exists>arb. arbiter_inv arb \<and> pending_candidates (co\<lparr>tc_arbiter := arb\<rparr>) = pending_candidates co @ candidates_of ev
    \<and> (arb_state arb = Open \<or> (\<exists>cs. arb_state arb = Pending (ev_observed_tick ev) cs))
    \<and> arb_binding arb = arb_binding (tc_arbiter co) \<and> mark_evaluated (co\<lparr>tc_arbiter := arb\<rparr>) ev = (a, co')"
  proof (cases "ev_candidate ev")
    case None
    with step valid have "mark_evaluated co ev = (a, co')"
      by (auto simp: evaluate_def split: prod.splits)
    with None opened_barrier_ok(1,2) [OF inv valid] inv show ?thesis
      by (intro exI [of _ "tc_arbiter co"]) (auto simp: candidates_of_def coordinator_inv_def barrier_ok_def)
  next
    case (Some c)
    with step valid obtain t n l arb where s: "submit (tc_arbiter co) c = Some (Accepted t n l, arb)"
      and mark: "mark_evaluated (co\<lparr>tc_arbiter := arb\<rparr>) ev = (a, co')"
      by (auto simp: evaluate_def Let_def split: prod.splits option.splits submit_result.splits)
    have "length (pending_candidates co) < MAX_TERMINAL_CANDIDATES_PER_TICK"
      using pending_bound [OF opened_barrier_ok(1) [OF inv valid]] by (simp add: MAX_TERMINAL_CANDIDATES_PER_TICK_def)
    note acc = submit_accepted [OF s this open_co]
    have "cand_observed_tick c = ev_observed_tick ev"
      using valid Some by (simp add: validate_evaluation_Inr)
    with acc Some mark submit_inv [OF s] inv show ?thesis
      by (intro exI [of _ arb]) (simp add: pending_candidates_def [of "co\<lparr>tc_arbiter := arb\<rparr>"] candidates_of_def coordinator_inv_def)
  qed
  then obtain arb where "arbiter_inv arb" "pending_candidates (co\<lparr>tc_arbiter := arb\<rparr>) = pending_candidates co @ candidates_of ev"
    "arb_state arb = Open \<or> (\<exists>cs. arb_state arb = Pending (ev_observed_tick ev) cs)"
    "arb_binding arb = arb_binding (tc_arbiter co)" "mark_evaluated (co\<lparr>tc_arbiter := arb\<rparr>) ev = (a, co')"
    by blast
  note ok = mark_evaluated_ok [OF inv valid this]
  show "coordinator_inv co'" "evaluated_of co' = insert (ev_producer ev) (evaluated_of co)"
    "pending_candidates co' = pending_candidates co @ candidates_of ev"
    "\<exists>b. tc_barrier co' = Some b \<and> pb_observed_tick b = ev_observed_tick ev
      \<and> pb_expected_state_version b = ev_expected_state_version ev"
    "tc_last_sealed_tick co' = tc_last_sealed_tick co" "arb_binding (tc_arbiter co') = arb_binding (tc_arbiter co)"
    "\<not> terminal_closed co'"
    by (rule ok)+
qed

section \<open>Sealing a tick\<close>

lemma seal_accepted:
  assumes inv: "coordinator_inv co" and step: "seal_authoritative_tick co t v = Some (Inr s, co')"
  obtains b where "tc_barrier co = Some b" "pb_observed_tick b = t" "pb_expected_state_version b = v"
    "evaluated_of co = UNIV" "\<not> terminal_closed co" "tc_barrier co' = None" "tc_last_sealed_tick co' = Some t"
    "arbiter_inv (tc_arbiter co')" "arb_binding (tc_arbiter co') = arb_binding (tc_arbiter co)"
    "case s of NoTerminal t' v' \<Rightarrow> t' = t \<and> v' = v \<and> pending_candidates co = [] \<and> tc_arbiter co' = tc_arbiter co
        \<and> arb_state (tc_arbiter co) = Open
      | SealPrepared p \<Rightarrow> min_by canonical_cmp (pending_candidates co) = Some (prep_winner p)
        \<and> prep_candidate_count p = length (pending_candidates co) \<and> prep_sealed_through_tick p = t
        \<and> arb_state (tc_arbiter co') = Prepared p"
proof -
  from step obtain b where b: "tc_barrier co = Some b" "pb_observed_tick b = t" "pb_expected_state_version b = v" "is_complete b"
    and closed: "\<not> terminal_closed co"
    by (auto simp: seal_authoritative_tick_def split: if_splits option.splits)
  then have ok: "barrier_ok co b" and a: "arbiter_inv (tc_arbiter co)"
    using inv by (simp_all add: coordinator_inv_def)
  have all: "evaluated_of co = UNIV"
    using b ok complete_iff [of b] by (simp add: evaluated_of_def barrier_ok_def)
  show thesis
  proof (cases "pb_candidate_count b = 0")
    case True
    with ok have "pending_candidates co = []"
      by (simp add: barrier_ok_def)
    moreover from this ok a have "arb_state (tc_arbiter co) = Open"
      by (auto simp: barrier_ok_def pending_candidates_def arbiter_inv_def candidates_ok_def)
    ultimately show thesis
      using step b closed all a True by (intro that [OF b(1-3)]) (auto simp: seal_authoritative_tick_def)
  next
    case False
    with step b closed obtain p arb where prep: "prepare (tc_arbiter co) t = Some (Inr p, arb)" "s = SealPrepared p"
      "co' = co\<lparr>tc_arbiter := arb, tc_barrier := None, tc_last_sealed_tick := Some t\<rparr>"
      by (auto simp: seal_authoritative_tick_def split: option.splits sum.splits)
    have "pending_candidates co \<noteq> []"
      using ok False by (auto simp: barrier_ok_def unat_eq_zero)
    then obtain tick where pend: "arb_state (tc_arbiter co) = Pending tick (pending_candidates co)"
      by (auto simp: pending_candidates_def split: arbiter_state.splits)
    note p = prepare_pending [OF pend prep(1)]
    show thesis
      using p prep closed all prepare_inv [OF prep(1) a] step_binding [OF step_prepare [OF prep(1)]]
      by (intro that [OF b(1-3)]) auto
  qed
qed

lemma seal_refused:
  assumes inv: "coordinator_inv co" and step: "seal_authoritative_tick co t v = Some (Inl e, co')"
  shows "co' = co" "\<forall>x. e \<noteq> PrepareFailed x"
proof -
  have "co' = co \<and> (\<forall>x. e \<noteq> PrepareFailed x)"
  proof (cases "\<exists>b. tc_barrier co = Some b \<and> pb_observed_tick b = t \<and> pb_candidate_count b \<noteq> 0 \<and> \<not> terminal_closed co")
    case True
    then obtain b where b: "tc_barrier co = Some b" "pb_observed_tick b = t" "pb_candidate_count b \<noteq> 0" "\<not> terminal_closed co"
      by blast
    then have ok: "barrier_ok co b"
      using inv by (simp add: coordinator_inv_def)
    with b(3) have "pending_candidates co \<noteq> []"
      by (auto simp: barrier_ok_def unat_eq_zero)
    with ok b(2) obtain cs where "arb_state (tc_arbiter co) = Pending t cs"
      by (auto simp: barrier_ok_def pending_candidates_def)
    then have "\<nexists>x arb. prepare (tc_arbiter co) t = Some (Inl x, arb)"
      by (auto simp: prepare_def Let_def split: option.splits)
    with step b show ?thesis
      by (auto simp: seal_authoritative_tick_def split: if_splits option.splits sum.splits)
  qed (use step in \<open>auto simp: seal_authoritative_tick_def split: if_splits option.splits sum.splits\<close>)
  then show "co' = co" "\<forall>x. e \<noteq> PrepareFailed x" by blast+
qed

lemma seal_total:
  assumes "coordinator_inv co"
  shows "\<exists>r. seal_authoritative_tick co t v = Some r"
  using prepare_total [of "tc_arbiter co" t] assms
  by (auto simp: seal_authoritative_tick_def coordinator_inv_def split: option.split sum.split)

lemma coordinator_commit:
  assumes "coordinator_record_commit co rc = (r, co')" and "coordinator_inv co"
  shows "coordinator_inv co'" "phase (arb_state (tc_arbiter co)) \<le> phase (arb_state (tc_arbiter co'))"
    "(\<exists>e. r = Inl e) \<Longrightarrow> co' = co"
proof -
  obtain res arb where rec: "record_commit (tc_arbiter co) rc = (res, arb)"
    by (cases "record_commit (tc_arbiter co) rc")
  with assms(1) have co': "co' = co\<lparr>tc_arbiter := arb\<rparr>" "r = map_err CommitFailed res"
    by (simp_all add: coordinator_record_commit_def)
  have a: "arbiter_inv (tc_arbiter co)"
    using assms(2) by (simp add: coordinator_inv_def)
  show "phase (arb_state (tc_arbiter co)) \<le> phase (arb_state (tc_arbiter co'))"
    using arbiter_step_phase [OF step_commit [OF rec]] by (simp add: co')
  have refused: "arb = tc_arbiter co" if "res = Inl e" for e
    using rec that by (auto simp: record_commit_def split: sum.splits arbiter_state.splits if_splits)
  then show "(\<exists>e. r = Inl e) \<Longrightarrow> co' = co"
    by (auto simp: co' map_err_def split: sum.splits)
  have "arb = tc_arbiter co \<or> arb_state (tc_arbiter co) \<in> range Prepared"
    using rec by (auto simp: record_commit_def split: sum.splits arbiter_state.splits if_splits)
  then show "coordinator_inv co'"
  proof
    assume closed: "arb_state (tc_arbiter co) \<in> range Prepared"
    then have "tc_barrier co = None"
      using assms(2) by (auto simp: coordinator_inv_def barrier_ok_def split: option.splits)
    moreover have "arb_state arb \<noteq> Pending t cs" for t cs
      using rec closed by (auto simp: record_commit_def split: sum.splits if_splits)
    ultimately show ?thesis
      using record_commit_inv [OF rec a] by (simp add: co' coordinator_inv_def)
  qed (use assms(2) in \<open>simp add: co'\<close>)
qed

text \<open>At most five candidates are pending, so the queue of 32 always has room.\<close>

lemma submit_has_room:
  assumes "submit a c = Some (Rejected (CandidateCapacityExhausted n), a')"
  shows "\<exists>t cs. arb_state a = Pending t cs \<and> length cs = MAX_TERMINAL_CANDIDATES_PER_TICK"
  using assms
  by (auto simp: submit_def submit_pending_def submit_prepared_def submit_committed_def Let_def
      split: sum.splits if_splits arbiter_state.splits option.splits list.splits)

lemma evaluate_has_room:
  assumes "coordinator_inv co"
  shows "evaluate co ev \<noteq> Some (Inl (ArbiterRejected (CandidateCapacityExhausted n)), co')"
proof
  assume step: "evaluate co ev = Some (Inl (ArbiterRejected (CandidateCapacityExhausted n)), co')"
  have not_validation: "validate_evaluation co ev \<noteq> Inl (ArbiterRejected x)" for x
    by (auto simp: validate_evaluation_def validate_barrier_identity_def validate_evaluation_candidate_def
        split: option.splits if_splits)
  from step not_validation obtain c a where valid: "validate_evaluation co ev = Inr ()"
    and "submit (tc_arbiter co) c = Some (Rejected (CandidateCapacityExhausted n), a)"
    by (auto simp: evaluate_def Let_def mark_evaluated_def split: sum.splits option.splits submit_result.splits)
  from submit_has_room [OF this(2)] have "length (pending_candidates co) = MAX_TERMINAL_CANDIDATES_PER_TICK"
    by (auto simp: pending_candidates_def)
  with pending_bound [OF opened_barrier_ok(1) [OF assms valid]] show False
    by (simp add: MAX_TERMINAL_CANDIDATES_PER_TICK_def)
qed

section \<open>Reachable coordinators\<close>

datatype coordinator_call =
    CallEvaluate core_terminal_evaluation
  | CallSeal u64 u64
  | CallCommit stored_terminal_receipt

text \<open>
  The calls of the server: the evaluations, the seal, and the commit of the durable receipt (which the
  executors record on the arbiter directly).
\<close>

inductive coordinator_step :: "core_terminal_coordinator \<Rightarrow> coordinator_call \<Rightarrow> core_terminal_coordinator \<Rightarrow> bool" where
  step_evaluate: "evaluate co ev = Some (r, co') \<Longrightarrow> coordinator_step co (CallEvaluate ev) co'"
| step_seal: "seal_authoritative_tick co t v = Some (r, co') \<Longrightarrow> coordinator_step co (CallSeal t v) co'"
| step_record: "coordinator_record_commit co rc = (r, co') \<Longrightarrow> coordinator_step co (CallCommit rc) co'"

inductive_cases coordinator_stepE: "coordinator_step co call co'"

definition coordinator_initial :: "core_terminal_coordinator \<Rightarrow> bool" where
  "coordinator_initial co \<longleftrightarrow>
     (\<exists>account binding. new_coordinator account binding = Inr co)
     \<or> (\<exists>account receipt. coordinator_from_stored_receipt account receipt = Inr co)"

lemma coordinator_initial_inv: "coordinator_initial co \<Longrightarrow> coordinator_inv co"
  by (auto simp: coordinator_initial_def new_coordinator_def coordinator_from_stored_receipt_def from_stored_receipt_def
      coordinator_inv_def new_arbiter_def arbiter_inv_def)

lemma phase_pending: "barrier_ok co b \<Longrightarrow> phase (arb_state (tc_arbiter co)) \<le> 1"
  by (auto simp: barrier_ok_def)

lemma coordinator_step_ok:
  assumes "coordinator_step co call co'" and inv: "coordinator_inv co"
  shows "coordinator_inv co' \<and> phase (arb_state (tc_arbiter co)) \<le> phase (arb_state (tc_arbiter co'))"
  using assms(1)
proof (cases rule: coordinator_step.cases)
  case (step_evaluate ev r)
  show ?thesis
  proof (cases r)
    case (Inl e)
    with step_evaluate inv show ?thesis
      using evaluate_refused by blast
  next
    case (Inr a)
    note acc = evaluate_accepted [OF inv step_evaluate(2) [unfolded Inr]]
    have "phase (arb_state (tc_arbiter co)) \<le> phase (arb_state (tc_arbiter co'))"
    proof (cases "arb_state (tc_arbiter co)")
      case (Pending t cs)
      then have "pending_candidates co' \<noteq> []"
        using acc(5) inv by (auto simp: pending_candidates_def coordinator_inv_def arbiter_inv_def candidates_ok_def)
      then show ?thesis
        using Pending by (auto simp: pending_candidates_def split: arbiter_state.splits)
    qed (use acc(2) in \<open>auto simp: validate_evaluation_Inr terminal_closed_iff\<close>)
    with acc(1) show ?thesis by blast
  qed
next
  case (step_seal t v r)
  show ?thesis
  proof (cases r)
    case (Inl e)
    with step_seal inv show ?thesis
      using seal_refused(1) by blast
  next
    case (Inr s)
    obtain b where "tc_barrier co = Some b" "tc_barrier co' = None" "arbiter_inv (tc_arbiter co')"
      "case s of NoTerminal t' v' \<Rightarrow> t' = t \<and> v' = v \<and> pending_candidates co = [] \<and> tc_arbiter co' = tc_arbiter co
          \<and> arb_state (tc_arbiter co) = Open
        | SealPrepared p \<Rightarrow> min_by canonical_cmp (pending_candidates co) = Some (prep_winner p)
          \<and> prep_candidate_count p = length (pending_candidates co) \<and> prep_sealed_through_tick p = t
          \<and> arb_state (tc_arbiter co') = Prepared p"
      by (rule seal_accepted [OF inv step_seal(2) [unfolded Inr]])
    moreover from this inv have "phase (arb_state (tc_arbiter co)) \<le> 1"
      by (intro phase_pending [of co b]) (simp add: coordinator_inv_def)
    ultimately show ?thesis
      by (cases s) (auto simp: coordinator_inv_def)
  qed
next
  case (step_record rc r)
  then show ?thesis
    using coordinator_commit [OF step_record(2) inv] by blast
qed

interpretation coordinator: monotone_system coordinator_initial coordinator_step coordinator_inv
  "\<lambda>co. phase (arb_state (tc_arbiter co))"
  by unfold_locales (use coordinator_initial_inv coordinator_step_ok in blast)+

text \<open>
  C9. In every reachable state of the terminal coordinator: the calls cannot panic; a refused evaluation or
  seal changes nothing, so rejected evaluations never advance the barrier; the arbiter never refuses to
  prepare a complete barrier and never runs out of room; a producer is accepted at most once per barrier; ordinary
  mutations of the character are allowed only while no barrier is open and no terminal is unresolved; and the sealed
  ticks follow each other without a gap.
\<close>

theorem coordinator_reachable_ok:
  assumes "reachable coordinator_initial coordinator_step co"
  shows "(\<exists>r co'. evaluate co ev = Some (r, co') \<and> ((\<exists>e. r = Inl e) \<longrightarrow> co' = co)
      \<and> (\<forall>n. r \<noteq> Inl (ArbiterRejected (CandidateCapacityExhausted n)))
      \<and> (\<forall>a. r = Inr a \<longrightarrow> ev_producer ev \<notin> evaluated_of co \<and> ev_producer ev \<in> evaluated_of co'))
    \<and> (\<exists>r co'. seal_authoritative_tick co t v = Some (r, co') \<and> ((\<exists>e. r = Inl e) \<longrightarrow> co' = co)
      \<and> (\<forall>e. r \<noteq> Inl (PrepareFailed e))
      \<and> (\<forall>s. r = Inr s \<longrightarrow> evaluated_of co = UNIV \<and> tc_last_sealed_tick co' = Some t
            \<and> (\<forall>l. tc_last_sealed_tick co = Some l \<longrightarrow> unat t = unat l + 1)))
    \<and> (coordinator_admission co = CoreAllowed \<longleftrightarrow> tc_barrier co = None \<and> arb_state (tc_arbiter co) = Open)"
proof (intro conjI)
  have inv: "coordinator_inv co"
    by (rule coordinator.reachable_inv [OF assms])
  obtain r co' where ev: "evaluate co ev = Some (r, co')"
    using evaluate_total [OF inv] by (metis surj_pair)
  show "\<exists>r co'. evaluate co ev = Some (r, co') \<and> ((\<exists>e. r = Inl e) \<longrightarrow> co' = co)
      \<and> (\<forall>n. r \<noteq> Inl (ArbiterRejected (CandidateCapacityExhausted n)))
      \<and> (\<forall>a. r = Inr a \<longrightarrow> ev_producer ev \<notin> evaluated_of co \<and> ev_producer ev \<in> evaluated_of co')"
  proof (intro exI [of _ r] exI [of _ co'] conjI allI impI ev)
    show "co' = co" if "\<exists>e. r = Inl e"
      using that ev evaluate_refused by blast
    show "r \<noteq> Inl (ArbiterRejected (CandidateCapacityExhausted n))" for n
      using ev evaluate_has_room [OF inv, of ev n co'] by auto
    show "ev_producer ev \<notin> evaluated_of co" "ev_producer ev \<in> evaluated_of co'" if "r = Inr a" for a
      using evaluate_accepted(3,4) [OF inv ev [unfolded that]] by simp_all
  qed
  obtain r' co'' where seal: "seal_authoritative_tick co t v = Some (r', co'')"
    using seal_total [OF inv] by (metis surj_pair)
  have sealed: "evaluated_of co = UNIV \<and> tc_last_sealed_tick co'' = Some t
      \<and> (\<forall>l. tc_last_sealed_tick co = Some l \<longrightarrow> unat t = unat l + 1)" if accepted: "r' = Inr s" for s
  proof -
    obtain b where "tc_barrier co = Some b" "pb_observed_tick b = t" "evaluated_of co = UNIV" "tc_last_sealed_tick co'' = Some t"
      by (rule seal_accepted [OF inv seal [unfolded accepted]])
    with inv show ?thesis
      by (auto simp: coordinator_inv_def barrier_ok_def)
  qed
  show "\<exists>r co'. seal_authoritative_tick co t v = Some (r, co') \<and> ((\<exists>e. r = Inl e) \<longrightarrow> co' = co)
      \<and> (\<forall>e. r \<noteq> Inl (PrepareFailed e))
      \<and> (\<forall>s. r = Inr s \<longrightarrow> evaluated_of co = UNIV \<and> tc_last_sealed_tick co' = Some t
            \<and> (\<forall>l. tc_last_sealed_tick co = Some l \<longrightarrow> unat t = unat l + 1))"
  proof (intro exI [of _ r'] exI [of _ co''] conjI seal)
    show "(\<exists>e. r' = Inl e) \<longrightarrow> co'' = co" "\<forall>e. r' \<noteq> Inl (PrepareFailed e)"
      using seal_refused [OF inv] seal by blast+
  qed (use sealed in blast)
  show "coordinator_admission co = CoreAllowed \<longleftrightarrow> tc_barrier co = None \<and> arb_state (tc_arbiter co) = Open"
    by (auto simp: coordinator_admission_def non_terminal_admission_of_def split: arbiter_state.splits option.splits)
qed

section \<open>A concrete coordinator\<close>

definition sample_account :: authenticated_account where
  "sample_account = \<lparr>aa_account_id = [1], aa_namespace = WipeableTest\<rparr>"

definition sample_coordinator :: core_terminal_coordinator where
  "sample_coordinator =
     \<lparr>tc_authenticated_account = sample_account, tc_arbiter = new_arbiter sample_binding, tc_barrier = None,
      tc_last_sealed_tick = None\<rparr>"

definition sample_evaluations :: "core_terminal_evaluation list" where
  "sample_evaluations =
     [evaluation_candidate ProducerSuccessfulExtraction sample_binding 40 5 sample_extract,
      evaluation_absent VerifiedFaultRestoration sample_binding 40 5,
      evaluation_candidate LethalHealth sample_binding 40 5 sample_death,
      evaluation_absent ProducerEmergencyRecall sample_binding 40 5,
      evaluation_absent ProducerDisconnectRecovery sample_binding 40 5]"

lemma sample_reachable: "reachable coordinator_initial coordinator_step sample_coordinator"
proof -
  have "new_coordinator sample_account sample_binding = Inr sample_coordinator"
    by (simp add: new_coordinator_def validate_authenticated_binding_def sample_coordinator_def sample_account_def sample_binding_def)
  then show ?thesis
    by (intro reachable_initial) (auto simp: coordinator_initial_def)
qed

theorem coordinator_reachable_ok_witness:
  "\<exists>r co'. evaluate sample_coordinator (sample_evaluations ! 0) = Some (r, co')
    \<and> (\<forall>n. r \<noteq> Inl (ArbiterRejected (CandidateCapacityExhausted n)))"
  using coordinator_reachable_ok [OF sample_reachable, of "sample_evaluations ! 0"] by blast


end
