(* ===== verification/Coordinator_Ticks.thy ===== *)
theory Coordinator_Ticks
  imports Coordinator_Properties
begin

text \<open>
  Whole ticks of the terminal coordinator: a sealed tick decides for the first producer in precedence
  order that reported a candidate, whatever the order of the reports; five proper evaluations in any
  order complete a tick; and the snapshot of an evaluation determines it.
\<close>

section \<open>The decision of a tick\<close>

fun run_evaluations ::
  "core_terminal_coordinator \<Rightarrow> core_terminal_evaluation list
     \<Rightarrow> ((core_terminal_coordinator_error + core_terminal_evaluation_accepted) list \<times> core_terminal_coordinator) option" where
  "run_evaluations co [] = Some ([], co)"
| "run_evaluations co (ev # evs) =
     (case evaluate co ev of
        None \<Rightarrow> None
      | Some (r, co') \<Rightarrow> map_option (\<lambda>(rs, co''). (r # rs, co'')) (run_evaluations co' evs))"

lemma run_evaluations_accepted:
  assumes "run_evaluations co evs = Some (rs, co')" and "\<forall>r \<in> set rs. \<exists>a. r = Inr a" and "coordinator_inv co"
  shows "coordinator_inv co' \<and> evaluated_of co' = evaluated_of co \<union> ev_producer ` set evs
    \<and> distinct (map ev_producer evs) \<and> evaluated_of co \<inter> ev_producer ` set evs = {}
    \<and> pending_candidates co' = pending_candidates co @ concat (map candidates_of evs)
    \<and> (\<forall>b. tc_barrier co' = Some b \<longrightarrow> (\<forall>ev \<in> set evs. ev_observed_tick ev = pb_observed_tick b
          \<and> ev_expected_state_version ev = pb_expected_state_version b)
        \<and> (\<forall>b0. tc_barrier co = Some b0 \<longrightarrow> pb_observed_tick b = pb_observed_tick b0
          \<and> pb_expected_state_version b = pb_expected_state_version b0))
    \<and> (\<forall>ev \<in> set evs. \<forall>c. ev_candidate ev = Some c \<longrightarrow> cand_kind c = terminal_kind_of (ev_producer ev))"
  using assms
proof (induction evs arbitrary: co rs)
  case (Cons ev evs)
  then obtain r co1 rs' where step: "evaluate co ev = Some (r, co1)" "run_evaluations co1 evs = Some (rs', co')" "rs = r # rs'"
    by (auto split: option.splits)
  with Cons.prems(2) obtain a where "r = Inr a"
    by auto
  note acc = evaluate_accepted [OF Cons.prems(3) step(1) [unfolded this]]
  have "\<forall>r \<in> set rs'. \<exists>a. r = Inr a"
    using Cons.prems(2) step(3) by simp
  note ih = Cons.IH [OF step(2) this acc(1)]
  obtain b1 where b1: "tc_barrier co1 = Some b1" "pb_observed_tick b1 = ev_observed_tick ev"
    "pb_expected_state_version b1 = ev_expected_state_version ev"
    using acc(6) by blast
  have valid: "\<forall>b0. tc_barrier co = Some b0 \<longrightarrow> ev_observed_tick ev = pb_observed_tick b0
      \<and> ev_expected_state_version ev = pb_expected_state_version b0"
    "\<forall>c. ev_candidate ev = Some c \<longrightarrow> cand_kind c = terminal_kind_of (ev_producer ev)"
    using acc(2) by (auto simp: validate_evaluation_Inr)
  show ?case
  proof (intro conjI allI impI)
    show "coordinator_inv co'"
      using ih by blast
    show "evaluated_of co' = evaluated_of co \<union> ev_producer ` set (ev # evs)"
      "distinct (map ev_producer (ev # evs))" "evaluated_of co \<inter> ev_producer ` set (ev # evs) = {}"
      using ih acc(3,4) by auto
    show "pending_candidates co' = pending_candidates co @ concat (map candidates_of (ev # evs))"
      using ih acc(5) by simp
    show "\<forall>ev \<in> set (ev # evs). \<forall>c. ev_candidate ev = Some c \<longrightarrow> cand_kind c = terminal_kind_of (ev_producer ev)"
      using ih valid(2) by simp
    fix b assume "tc_barrier co' = Some b"
    with ih b1 have b: "\<forall>ev \<in> set evs. ev_observed_tick ev = pb_observed_tick b \<and> ev_expected_state_version ev = pb_expected_state_version b"
      "pb_observed_tick b = ev_observed_tick ev" "pb_expected_state_version b = ev_expected_state_version ev"
      by auto
    then show "\<forall>ev \<in> set (ev # evs). ev_observed_tick ev = pb_observed_tick b \<and> ev_expected_state_version ev = pb_expected_state_version b"
      by simp
    show "pb_observed_tick b = pb_observed_tick b0" "pb_expected_state_version b = pb_expected_state_version b0"
      if "tc_barrier co = Some b0" for b0
      using b(2,3) valid(1) that by simp_all
  qed
qed auto

text \<open>The precedence of the producers is the precedence of their terminal kinds.\<close>

lemma priority_producer: "priority (terminal_kind_of p) \<le> priority (terminal_kind_of q) \<longleftrightarrow> producer_bit p \<le> producer_bit q"
  by (cases p; cases q) (simp_all add: word_le_nat_alt)

text \<open>
  C7. A tick is decided by precedence, not by the order of the calls: when, from a reachable coordinator
  without an open barrier, a sequence of accepted evaluations is followed by a successful seal, then
  every producer evaluated exactly once, all for the sealed tick and version, and the seal reports no
  terminal exactly when no producer had a candidate; otherwise it prepares the candidate of the first
  producer that had one, in the order lethal health, extraction, recall, disconnect recovery, fault restoration.
  In particular a lethal candidate always wins.
\<close>

theorem tick_decided_by_precedence:
  assumes "reachable coordinator_initial coordinator_step co" and "tc_barrier co = None"
    and "run_evaluations co evs = Some (rs, co1)" and "\<forall>r \<in> set rs. \<exists>a. r = Inr a"
    and "seal_authoritative_tick co1 t v = Some (Inr s, co2)"
  shows "distinct (map ev_producer evs) \<and> ev_producer ` set evs = UNIV
    \<and> (\<forall>ev \<in> set evs. ev_observed_tick ev = t \<and> ev_expected_state_version ev = v)
    \<and> (case s of
         NoTerminal t' v' \<Rightarrow> t' = t \<and> v' = v \<and> (\<forall>ev \<in> set evs. ev_candidate ev = None)
       | SealPrepared p \<Rightarrow> prep_sealed_through_tick p = t \<and> prepared_terminal_of (tc_arbiter co2) = Some p
           \<and> (\<exists>ev \<in> set evs. ev_candidate ev = Some (prep_winner p)
                \<and> (\<forall>ev' \<in> set evs. ev_candidate ev' \<noteq> None \<longrightarrow> producer_bit (ev_producer ev) \<le> producer_bit (ev_producer ev'))))"
proof -
  have inv: "coordinator_inv co"
    by (rule coordinator.reachable_inv [OF assms(1)])
  have none: "evaluated_of co = {}" "pending_candidates co = []"
    using assms(2) inv by (auto simp: evaluated_of_def pending_candidates_def coordinator_inv_def split: arbiter_state.splits)
  note run = run_evaluations_accepted [OF assms(3,4) inv]
  from run have inv1: "coordinator_inv co1" and pending: "pending_candidates co1 = concat (map candidates_of evs)"
    by (simp_all add: none)
  obtain b where b: "tc_barrier co1 = Some b" "pb_observed_tick b = t" "pb_expected_state_version b = v" "evaluated_of co1 = UNIV"
    and s: "case s of NoTerminal t' v' \<Rightarrow> t' = t \<and> v' = v \<and> pending_candidates co1 = [] \<and> tc_arbiter co2 = tc_arbiter co1
        \<and> arb_state (tc_arbiter co1) = Open
      | SealPrepared p \<Rightarrow> min_by canonical_cmp (pending_candidates co1) = Some (prep_winner p)
        \<and> prep_candidate_count p = length (pending_candidates co1) \<and> prep_sealed_through_tick p = t
        \<and> arb_state (tc_arbiter co2) = Prepared p"
    by (rule seal_accepted [OF inv1 assms(5)])
  have in_pending: "c \<in> set (pending_candidates co1) \<longleftrightarrow> (\<exists>ev \<in> set evs. ev_candidate ev = Some c)" for c
    by (force simp: pending candidates_of_def split: option.splits)
  have "case s of
         NoTerminal t' v' \<Rightarrow> t' = t \<and> v' = v \<and> (\<forall>ev \<in> set evs. ev_candidate ev = None)
       | SealPrepared p \<Rightarrow> prep_sealed_through_tick p = t \<and> prepared_terminal_of (tc_arbiter co2) = Some p
           \<and> (\<exists>ev \<in> set evs. ev_candidate ev = Some (prep_winner p)
                \<and> (\<forall>ev' \<in> set evs. ev_candidate ev' \<noteq> None \<longrightarrow> producer_bit (ev_producer ev) \<le> producer_bit (ev_producer ev')))"
  proof (cases s)
    case (NoTerminal t' v')
    with s have "t' = t" "v' = v" "pending_candidates co1 = []"
      by simp_all
    moreover from this(3) have "\<forall>ev \<in> set evs. ev_candidate ev = None"
      using in_pending by (metis empty_iff list.set(1) option.exhaust)
    ultimately show ?thesis
      by (simp add: NoTerminal)
  next
    case (SealPrepared p)
    with s have w: "min_by canonical_cmp (pending_candidates co1) = Some (prep_winner p)"
      by simp
    note least = canonical.min_by_Some [OF w]
    obtain ev where ev: "ev \<in> set evs" "ev_candidate ev = Some (prep_winner p)"
      using least in_pending by blast
    have "producer_bit (ev_producer ev) \<le> producer_bit (ev_producer ev')" if "ev' \<in> set evs" "ev_candidate ev' = Some c" for ev' c
    proof -
      have "canonical_key (prep_winner p) \<le> canonical_key c"
        using least in_pending that by blast
      then have "priority (cand_kind (prep_winner p)) \<le> priority (cand_kind c)"
        by (auto simp: canonical_key_def less_eq_prod_def less_imp_le)
      then show ?thesis
        using run that ev by (simp add: priority_producer)
    qed
    with SealPrepared s ev show ?thesis
      by (auto simp: prepared_terminal_of_def)
  qed
  then show ?thesis
    using run b none by auto
qed

section \<open>A complete tick\<close>

text \<open>A fresh candidate of the pending tick and version is taken in while there is room.\<close>

lemma submit_fresh:
  assumes "arbiter_inv a" and "validate_candidate c = Inr ()" "cand_binding c = arb_binding a"
    and "\<forall>t cs. arb_state a = Pending t cs \<longrightarrow> cand_observed_tick c = t \<and> length cs < MAX_TERMINAL_CANDIDATES_PER_TICK
      \<and> (\<forall>e \<in> set cs. cand_expected_state_version e = cand_expected_state_version c)
      \<and> cand_mutation_id c \<notin> cand_mutation_id ` set cs \<and> cand_terminal_id c \<notin> cand_terminal_id ` set cs"
    and "arb_state a = Open \<or> (\<exists>t cs. arb_state a = Pending t cs)"
  shows "\<exists>t n l a'. submit a c = Some (Accepted t n l, a')"
proof (cases "arb_state a")
  case (Pending t cs)
  with assms(4) have c: "cand_observed_tick c = t" "length cs < MAX_TERMINAL_CANDIDATES_PER_TICK"
    "\<forall>e \<in> set cs. cand_expected_state_version e = cand_expected_state_version c"
    "cand_mutation_id c \<notin> cand_mutation_id ` set cs" "cand_terminal_id c \<notin> cand_terminal_id ` set cs"
    by blast+
  obtain e es where cs: "cs = e # es"
    using assms(1) Pending by (cases cs) (auto simp: arbiter_inv_def candidates_ok_def)
  have "find (\<lambda>e. cand_mutation_id e = cand_mutation_id c) cs = None"
    using c(4) by (auto simp: find_None_iff intro: rev_image_eqI [OF _ sym])
  moreover have "\<not> list_ex (\<lambda>e. cand_terminal_id e = cand_terminal_id c) cs"
    using c(5) by (auto simp: list_ex_iff intro: rev_image_eqI [OF _ sym])
  moreover obtain l where "min_by canonical_cmp (cs @ [c]) = Some l"
    by (metis append_is_Nil_conv canonical.min_by_None list.distinct(1) option.exhaust)
  ultimately have "submit_pending t cs c = Some (Accepted t (length (cs @ [c])) l, cs @ [c])"
    using c(1-3) by (simp add: submit_pending_def cs Let_def split: if_splits)
  then show ?thesis
    using assms(2,3) Pending by (simp add: submit_def)
qed (use assms in \<open>auto simp: submit_def\<close>)


definition evaluation_ok :: "terminal_binding \<Rightarrow> u64 \<Rightarrow> u64 \<Rightarrow> core_terminal_evaluation \<Rightarrow> bool" where
  "evaluation_ok binding t v ev \<longleftrightarrow>
     ev_binding ev = binding \<and> ev_observed_tick ev = t \<and> ev_expected_state_version ev = v
     \<and> (\<forall>c. ev_candidate ev = Some c \<longrightarrow> cand_kind c = terminal_kind_of (ev_producer ev) \<and> cand_binding c = binding
          \<and> cand_observed_tick c = t \<and> cand_expected_state_version c = v \<and> validate_candidate c = Inr ())"

definition tick_ready :: "core_terminal_coordinator \<Rightarrow> u64 \<Rightarrow> u64 \<Rightarrow> bool" where
  "tick_ready co t v \<longleftrightarrow>
     \<not> terminal_closed co \<and> t \<noteq> 0 \<and> v \<notin> {0, - 1}
     \<and> (case tc_barrier co of
          Some b \<Rightarrow> pb_observed_tick b = t \<and> pb_expected_state_version b = v
        | None \<Rightarrow> \<forall>l. tc_last_sealed_tick co = Some l \<longrightarrow> unat t = unat l + 1)"

definition fresh_ids :: "terminal_candidate list \<Rightarrow> bool" where
  "fresh_ids cs \<longleftrightarrow> distinct (map cand_mutation_id cs) \<and> distinct (map cand_terminal_id cs)"

lemma evaluate_succeeds:
  assumes inv: "coordinator_inv co" and ready: "tick_ready co t v" and ev: "evaluation_ok (arb_binding (tc_arbiter co)) t v ev"
    and new: "ev_producer ev \<notin> evaluated_of co" "fresh_ids (pending_candidates co @ candidates_of ev)"
  shows "\<exists>a co'. evaluate co ev = Some (Inr a, co')"
proof -
  have valid: "validate_evaluation co ev = Inr ()"
    unfolding validate_evaluation_Inr using ready ev new(1)
    by (auto simp: tick_ready_def evaluation_ok_def evaluated_of_def split: option.splits)
  show ?thesis
  proof (cases "ev_candidate ev")
    case (Some c)
    let ?b = "opened_barrier co ev"
    note opened = opened_barrier_ok [OF inv valid]
    have same: "\<forall>t' cs. arb_state (tc_arbiter co) = Pending t' cs \<longrightarrow> cand_observed_tick c = t'
        \<and> length cs < MAX_TERMINAL_CANDIDATES_PER_TICK
        \<and> (\<forall>e \<in> set cs. cand_expected_state_version e = cand_expected_state_version c)
        \<and> cand_mutation_id c \<notin> cand_mutation_id ` set cs \<and> cand_terminal_id c \<notin> cand_terminal_id ` set cs"
    proof (intro allI impI)
      fix t' cs assume pend: "arb_state (tc_arbiter co) = Pending t' cs"
      then have cs: "pending_candidates co = cs"
        by (simp add: pending_candidates_def)
      with pend opened(1-3) ev Some have "cand_observed_tick c = t'"
        "\<forall>e \<in> set cs. cand_expected_state_version e = cand_expected_state_version c"
        by (auto simp: barrier_ok_def evaluation_ok_def)
      moreover have "length cs < MAX_TERMINAL_CANDIDATES_PER_TICK"
        using pending_bound [OF opened(1)] by (simp add: cs MAX_TERMINAL_CANDIDATES_PER_TICK_def)
      moreover have "cand_mutation_id c \<notin> cand_mutation_id ` set cs" "cand_terminal_id c \<notin> cand_terminal_id ` set cs"
        using new(2) by (simp_all add: fresh_ids_def cs candidates_of_def Some)
      ultimately show "cand_observed_tick c = t' \<and> length cs < MAX_TERMINAL_CANDIDATES_PER_TICK
        \<and> (\<forall>e \<in> set cs. cand_expected_state_version e = cand_expected_state_version c)
        \<and> cand_mutation_id c \<notin> cand_mutation_id ` set cs \<and> cand_terminal_id c \<notin> cand_terminal_id ` set cs"
        by blast
    qed
    have "arb_state (tc_arbiter co) = Open \<or> (\<exists>t cs. arb_state (tc_arbiter co) = Pending t cs)"
      using opened(1) by (auto simp: barrier_ok_def)
    moreover have "validate_candidate c = Inr ()" "cand_binding c = arb_binding (tc_arbiter co)"
      using ev Some by (simp_all add: evaluation_ok_def)
    moreover have "arbiter_inv (tc_arbiter co)"
      using inv by (simp add: coordinator_inv_def)
    ultimately obtain t n l a' where "submit (tc_arbiter co) c = Some (Accepted t n l, a')"
      using submit_fresh [OF _ _ _ same] by blast
    with valid Some show ?thesis
      by (simp add: evaluate_def Let_def mark_evaluated_def)
  qed (simp add: evaluate_def valid mark_evaluated_def Let_def)
qed

lemma run_evaluations_succeeds:
  assumes "coordinator_inv co" "tick_ready co t v" "\<forall>ev \<in> set evs. evaluation_ok (arb_binding (tc_arbiter co)) t v ev"
    and "distinct (map ev_producer evs)" "evaluated_of co \<inter> ev_producer ` set evs = {}"
    and "fresh_ids (pending_candidates co @ concat (map candidates_of evs))"
  shows "\<exists>rs co'. run_evaluations co evs = Some (rs, co') \<and> (\<forall>r \<in> set rs. \<exists>a. r = Inr a) \<and> tick_ready co' t v"
  using assms
proof (induction evs arbitrary: co)
  case (Cons ev evs)
  have "ev_producer ev \<notin> evaluated_of co" "fresh_ids (pending_candidates co @ candidates_of ev)"
    using Cons.prems(5,6) by (auto simp: fresh_ids_def)
  then obtain a co1 where step: "evaluate co ev = Some (Inr a, co1)"
    using evaluate_succeeds [OF Cons.prems(1,2)] Cons.prems(3) by fastforce
  note acc = evaluate_accepted [OF Cons.prems(1) step]
  have ev: "ev_observed_tick ev = t" "ev_expected_state_version ev = v"
    using Cons.prems(3) by (simp_all add: evaluation_ok_def)
  have "tick_ready co1 t v"
    using acc(6,9) Cons.prems(2) by (auto simp: tick_ready_def ev)
  moreover have "evaluated_of co1 \<inter> ev_producer ` set evs = {}"
    using Cons.prems(4,5) by (auto simp: acc(3) rev_image_eqI)
  ultimately obtain rs co' where "run_evaluations co1 evs = Some (rs, co')" "\<forall>r \<in> set rs. \<exists>a. r = Inr a" "tick_ready co' t v"
    using Cons.IH [OF acc(1)] Cons.prems(3,4,6) acc(5,8) by auto
  with step show ?case
    by auto
qed auto


lemma seal_succeeds:
  assumes inv: "coordinator_inv co" and "tc_barrier co = Some b" "pb_observed_tick b = t" "pb_expected_state_version b = v"
    and "is_complete b"
  shows "\<exists>s co'. seal_authoritative_tick co t v = Some (Inr s, co')"
proof -
  have "barrier_ok co b"
    using assms by (simp add: coordinator_inv_def)
  then have "\<not> terminal_closed co"
    by (auto simp: barrier_ok_def terminal_closed_iff)
  moreover obtain r co' where seal: "seal_authoritative_tick co t v = Some (r, co')"
    using seal_total [OF inv] by (metis surj_pair)
  moreover have "\<forall>x. r \<noteq> Inl (PrepareFailed x)"
    using seal_refused(2) [OF inv] seal by blast
  ultimately have "r \<noteq> Inl e" for e
    using assms(2-5) by (auto simp: seal_authoritative_tick_def split: if_splits option.splits sum.splits)
  with seal show ?thesis
    by (cases r) auto
qed

text \<open>
  C8. A tick can always be completed: from a reachable coordinator that admits ordinary mutations, five evaluations
  for the next tick, one of each producer with valid candidates of fresh identifiers, are all accepted in
  whatever order they arrive, and the seal of the tick then succeeds. Afterwards the coordinator admits
  ordinary mutations again exactly when no producer had a candidate.
\<close>

theorem complete_tick_succeeds:
  assumes "reachable coordinator_initial coordinator_step co" and "coordinator_admission co = CoreAllowed"
    and "t \<noteq> 0" "v \<notin> {0, - 1}" and "\<forall>l. tc_last_sealed_tick co = Some l \<longrightarrow> unat t = unat l + 1"
    and "\<forall>ev \<in> set evs. evaluation_ok (arb_binding (tc_arbiter co)) t v ev"
    and "distinct (map ev_producer evs)" "ev_producer ` set evs = UNIV" "fresh_ids (concat (map candidates_of evs))"
  shows "\<exists>rs co1 s co2. run_evaluations co evs = Some (rs, co1) \<and> (\<forall>r \<in> set rs. \<exists>a. r = Inr a)
    \<and> seal_authoritative_tick co1 t v = Some (Inr s, co2)
    \<and> (coordinator_admission co2 = CoreAllowed \<longleftrightarrow> (\<forall>ev \<in> set evs. ev_candidate ev = None))"
proof -
  have inv: "coordinator_inv co"
    by (rule coordinator.reachable_inv [OF assms(1)])
  have idle: "tc_barrier co = None" "arb_state (tc_arbiter co) = Open"
    using assms(2) by (auto simp: coordinator_admission_def non_terminal_admission_of_def split: arbiter_state.splits option.splits)
  then have none: "evaluated_of co = {}" "pending_candidates co = []"
    by (simp_all add: evaluated_of_def pending_candidates_def)
  have "tick_ready co t v"
    using assms(3-5) idle by (auto simp: tick_ready_def terminal_closed_iff)
  then obtain rs co1 where run: "run_evaluations co evs = Some (rs, co1)" "\<forall>r \<in> set rs. \<exists>a. r = Inr a" "tick_ready co1 t v"
    using run_evaluations_succeeds [OF inv _ assms(6,7)] assms(9) by (auto simp: none)
  note ran = run_evaluations_accepted [OF run(1,2) inv]
  from ran assms(8) have inv1: "coordinator_inv co1" and all: "evaluated_of co1 = UNIV"
    and pending: "pending_candidates co1 = concat (map candidates_of evs)"
    by (simp_all add: none)
  obtain b where b: "tc_barrier co1 = Some b"
    using all by (cases "tc_barrier co1") (auto simp: evaluated_of_def)
  have same: "pb_observed_tick b = t" "pb_expected_state_version b = v"
    using run(3) b by (simp_all add: tick_ready_def)
  have "is_complete b"
    using complete_iff [of b] all b inv1 by (simp add: evaluated_of_def coordinator_inv_def barrier_ok_def)
  from seal_succeeds [OF inv1 b same this] obtain s co2 where seal: "seal_authoritative_tick co1 t v = Some (Inr s, co2)"
    by blast
  have empty: "pending_candidates co1 = [] \<longleftrightarrow> (\<forall>ev \<in> set evs. ev_candidate ev = None)"
    by (auto simp: pending candidates_of_def split: option.splits)
  have "coordinator_admission co2 = CoreAllowed \<longleftrightarrow> pending_candidates co1 = []"
  proof (rule seal_accepted [OF inv1 seal])
    assume "tc_barrier co2 = None" "case s of NoTerminal t' v' \<Rightarrow> t' = t \<and> v' = v \<and> pending_candidates co1 = []
        \<and> tc_arbiter co2 = tc_arbiter co1 \<and> arb_state (tc_arbiter co1) = Open
      | SealPrepared p \<Rightarrow> min_by canonical_cmp (pending_candidates co1) = Some (prep_winner p)
        \<and> prep_candidate_count p = length (pending_candidates co1) \<and> prep_sealed_through_tick p = t
        \<and> arb_state (tc_arbiter co2) = Prepared p"
    then show ?thesis
      by (cases s) (auto simp: coordinator_admission_def non_terminal_admission_of_def)
  qed
  with run seal empty show ?thesis
    by blast
qed

section \<open>The snapshot\<close>

lemma to_be_bytes_inject [simp]: "to_be_bytes v = to_be_bytes w \<longleftrightarrow> v = w"
  by (simp add: to_be_bytes_def)

lemma length_to_be_bytes [simp]: "length (to_be_bytes w) = 8"
  by (simp add: to_be_bytes_def)

definition snapshot_part_of :: "bytes \<Rightarrow> (bytes \<times> bytes) option" where
  "snapshot_part_of bs =
     (case (from_le_bytes (rev (take 8 bs)) :: (u64 \<times> bytes) option) of
        None \<Rightarrow> None
      | Some (n, _) \<Rightarrow> Some (take (unat n) (drop 8 bs), drop (unat n) (drop 8 bs)))"

definition fits_part :: "bytes \<Rightarrow> bool" where
  "fits_part part \<longleftrightarrow> length part < 2 ^ 64"

interpretation snapshot_part: item_code fits_part hash_snapshot_part snapshot_part_of
proof
  fix x rest assume "fits_part x"
  then have "unat (of_nat (length x) :: u64) = length x"
    by (simp add: fits_part_def)
  moreover have "from_le_bytes (rev (to_be_bytes n)) = Some (n, [])" for n
    using from_to_le_bytes [of n "[]"] by (simp add: to_be_bytes_def)
  ultimately show "snapshot_part_of (hash_snapshot_part x @ rest) = Some (x, rest)"
    by (simp add: hash_snapshot_part_def snapshot_part_of_def)
next
  fix x show "hash_snapshot_part x \<noteq> []"
    by (auto simp: hash_snapshot_part_def simp flip: length_0_conv)
qed

definition snapshot_fits :: "core_terminal_evaluation \<Rightarrow> bool" where
  "snapshot_fits ev \<longleftrightarrow> list_all fits_part (snapshot_parts ev)"

lemma stable_code_inject [simp]: "stable_code k = stable_code l \<longleftrightarrow> k = l"
  by (metis option.inject stable_code_round_trip)

lemma binding_parts_inject: "binding_parts a = binding_parts b \<longleftrightarrow> a = b"
  by (auto simp: binding_parts_def intro: terminal_binding.equality)

lemma candidate_parts_inject: "candidate_parts c = candidate_parts d \<longleftrightarrow> c = d"
proof
  assume "candidate_parts c = candidate_parts d"
  then show "c = d"
    by (auto simp: candidate_parts_def binding_parts_def split: option.splits
        intro!: terminal_candidate.equality terminal_binding.equality)
qed simp

text \<open>
  C32. The snapshot binds the evaluation: two evaluations feed the hash the same bytes only when they are equal, producer,
  binding, tick, version and every field of the candidate or its absence, since every
  part is preceded by its length. (Every part is shorter than \<open>2 ^ 64\<close> bytes.)
\<close>

theorem snapshot_binds:
  assumes "snapshot_fits a" and "snapshot_fits b"
  shows "snapshot_material a = snapshot_material b \<longleftrightarrow> a = b"
proof
  assume "snapshot_material a = snapshot_material b"
  then have "snapshot_parts a = snapshot_parts b"
    using assms unfolding snapshot_material_def snapshot_fits_def by (intro snapshot_part.encode_list_inject)
  then have "binding_parts (ev_binding a) = binding_parts (ev_binding b)"
    "candidate_parts (ev_candidate a) = candidate_parts (ev_candidate b)"
    "ev_producer a = ev_producer b" "ev_observed_tick a = ev_observed_tick b"
    "ev_expected_state_version a = ev_expected_state_version b"
    by (auto simp: snapshot_parts_def binding_parts_def)
  then show "a = b"
    by (intro core_terminal_evaluation.equality) (simp_all add: binding_parts_inject candidate_parts_inject)
qed simp

section \<open>A concrete tick\<close>

lemma sample_evaluation_ok:
  "list_all (evaluation_ok sample_binding 40 5) sample_evaluations"
  by (simp add: sample_evaluations_def evaluation_ok_def evaluation_absent_def evaluation_candidate_def sample_defs)

lemma sample_fresh: "fresh_ids (concat (map candidates_of sample_evaluations))"
  by (simp add: sample_evaluations_def fresh_ids_def candidates_of_def evaluation_absent_def evaluation_candidate_def sample_defs)

lemma sample_producers:
  "distinct (map ev_producer sample_evaluations)" "ev_producer ` set sample_evaluations = UNIV"
  by (auto simp: sample_evaluations_def evaluation_absent_def evaluation_candidate_def UNIV_producers ALL_PRODUCERS_def)

theorem complete_tick_succeeds_witness:
  "\<exists>rs co1 s co2. run_evaluations sample_coordinator sample_evaluations = Some (rs, co1)
    \<and> seal_authoritative_tick co1 40 5 = Some (Inr s, co2) \<and> coordinator_admission co2 \<noteq> CoreAllowed"
proof -
  have "coordinator_admission sample_coordinator = CoreAllowed" "tc_last_sealed_tick sample_coordinator = None"
    "arb_binding (tc_arbiter sample_coordinator) = sample_binding"
    by (simp_all add: coordinator_admission_def non_terminal_admission_of_def sample_coordinator_def new_arbiter_def)
  moreover have "evaluation_candidate LethalHealth sample_binding 40 5 sample_death \<in> set sample_evaluations"
    by (simp add: sample_evaluations_def)
  ultimately show ?thesis
    using complete_tick_succeeds [OF sample_reachable, of 40 5 sample_evaluations]
      sample_evaluation_ok sample_fresh sample_producers
    by (fastforce simp: list_all_iff evaluation_candidate_def)
qed

theorem snapshot_binds_witness:
  "snapshot_material (sample_evaluations ! 1) \<noteq> snapshot_material (sample_evaluations ! 3)"
  using snapshot_binds [of "sample_evaluations ! 1" "sample_evaluations ! 3"]
  by (simp add: sample_evaluations_def evaluation_absent_def snapshot_fits_def snapshot_parts_def fits_part_def
      binding_parts_def candidate_parts_def sample_binding_def)

lemma sample_tick:
  "case run_evaluations sample_coordinator sample_evaluations of
     None \<Rightarrow> False
   | Some (rs, co1) \<Rightarrow> list_all (case_sum (\<lambda>_. False) (\<lambda>_. True)) rs
       \<and> (case seal_authoritative_tick co1 40 5 of
            Some (Inr (SealPrepared p), _) \<Rightarrow> prep_winner p = sample_death | _ \<Rightarrow> False)"
  by code_simp

theorem tick_decided_by_precedence_witness:
  "\<exists>co1 p co2. seal_authoritative_tick co1 40 5 = Some (Inr (SealPrepared p), co2)
    \<and> prep_winner p = sample_death \<and> prepared_terminal_of (tc_arbiter co2) = Some p"
proof -
  obtain rs co1 where run: "run_evaluations sample_coordinator sample_evaluations = Some (rs, co1)"
    using sample_tick by (cases "run_evaluations sample_coordinator sample_evaluations") auto
  then obtain p co2 where sealed: "list_all (case_sum (\<lambda>_. False) (\<lambda>_. True)) rs"
    "seal_authoritative_tick co1 40 5 = Some (Inr (SealPrepared p), co2)" "prep_winner p = sample_death"
    using sample_tick
    by (cases "seal_authoritative_tick co1 40 5") (auto split: sum.splits core_terminal_tick_seal.splits)
  then have "\<forall>r \<in> set rs. \<exists>a. r = Inr a"
    by (auto simp: list_all_iff split: sum.splits)
  moreover have "tc_barrier sample_coordinator = None"
    by (simp add: sample_coordinator_def)
  ultimately show ?thesis
    using tick_decided_by_precedence [OF sample_reachable _ run _ sealed(2)] sealed(2,3) by auto
qed

end
