(* ===== verification/Red_Tonic.thy ===== *)
theory Red_Tonic
  imports Simulation_Clock Veil_Bargain
begin

text \<open>
  Consumables of a run (\<open>sim_core/src/consumable.rs\<close>): the definition of the Red Tonic, the health of the
  player, the two-slot belt, and the simulation that schedules a tonic's healing over twelve ticks
  behind a shared cooldown. A \<open>step\<close> works on a clone and leaves the old state on failure. \<open>Panicked\<close> stands
  for the panics of the code: a division by zero and the \<open>expect\<close> calls of the merge.
\<close>

section \<open>The definition of the tonic\<close>

definition RED_TONIC_CONTENT_ID :: string where
  "RED_TONIC_CONTENT_ID = ''consumable.red_tonic''"

definition RED_TONIC_STACK_CAP :: u8 where
  "RED_TONIC_STACK_CAP = 6"

definition RED_TONIC_RESTORE_BASIS_POINTS :: u32 where
  "RED_TONIC_RESTORE_BASIS_POINTS = 3000"

definition RED_TONIC_RESTORE_TICKS :: u32 where
  "RED_TONIC_RESTORE_TICKS = 12"

definition RED_TONIC_SHARED_COOLDOWN_TICKS :: u32 where
  "RED_TONIC_SHARED_COOLDOWN_TICKS = 60"

definition UNDERTAKER_KNOT_RESTORE_BASIS_POINTS :: u32 where
  "UNDERTAKER_KNOT_RESTORE_BASIS_POINTS = 3500"

definition UNDERTAKER_KNOT_SHARED_COOLDOWN_TICKS :: u32 where
  "UNDERTAKER_KNOT_SHARED_COOLDOWN_TICKS = 75"

definition TONIC_BASIS_POINTS_PER_ONE :: u32 where
  "TONIC_BASIS_POINTS_PER_ONE = 10000"

definition BELT_SLOT_COUNT :: nat where
  "BELT_SLOT_COUNT = 2"

record red_tonic_definition_parameters =
  rt_content_id :: string
  rt_belt_stack_cap :: u8
  rt_restore_max_health_basis_points :: u32
  rt_restore_duration_ticks :: u32
  rt_shared_cooldown_ticks :: u32
  rt_damage_interrupts_restore :: bool
  rt_consumed_on_use :: bool

record red_tonic_definition =
  rt_parameters :: red_tonic_definition_parameters

datatype red_tonic_definition_error =
    UnexpectedContentId string
  | UnexpectedStackCap u8
  | UnexpectedRestoreBasisPoints u32
  | UnexpectedRestoreDuration u32
  | UnexpectedSharedCooldown u32
  | DamageMustNotInterrupt
  | MustConsumeOnUse

definition validate_common :: "red_tonic_definition_parameters \<Rightarrow> red_tonic_definition_error + unit" where
  "validate_common p =
     (if rt_content_id p \<noteq> RED_TONIC_CONTENT_ID then Inl (UnexpectedContentId (rt_content_id p))
      else if rt_belt_stack_cap p \<noteq> RED_TONIC_STACK_CAP then Inl (UnexpectedStackCap (rt_belt_stack_cap p))
      else if rt_restore_duration_ticks p \<noteq> RED_TONIC_RESTORE_TICKS
      then Inl (UnexpectedRestoreDuration (rt_restore_duration_ticks p))
      else if rt_damage_interrupts_restore p then Inl DamageMustNotInterrupt
      else if \<not> rt_consumed_on_use p then Inl MustConsumeOnUse
      else Inr ())"

definition new_red_tonic ::
  "red_tonic_definition_parameters \<Rightarrow> red_tonic_definition_error + red_tonic_definition" where
  "new_red_tonic p =
     and_then (validate_common p) (\<lambda>_.
       if rt_restore_max_health_basis_points p \<noteq> RED_TONIC_RESTORE_BASIS_POINTS
       then Inl (UnexpectedRestoreBasisPoints (rt_restore_max_health_basis_points p))
       else if rt_shared_cooldown_ticks p \<noteq> RED_TONIC_SHARED_COOLDOWN_TICKS
       then Inl (UnexpectedSharedCooldown (rt_shared_cooldown_ticks p))
       else Inr \<lparr>rt_parameters = p\<rparr>)"

definition with_undertaker_knot :: "red_tonic_definition_error + red_tonic_definition" where
  "with_undertaker_knot =
     (let p = \<lparr>rt_content_id = RED_TONIC_CONTENT_ID, rt_belt_stack_cap = RED_TONIC_STACK_CAP,
               rt_restore_max_health_basis_points = UNDERTAKER_KNOT_RESTORE_BASIS_POINTS,
               rt_restore_duration_ticks = RED_TONIC_RESTORE_TICKS,
               rt_shared_cooldown_ticks = UNDERTAKER_KNOT_SHARED_COOLDOWN_TICKS,
               rt_damage_interrupts_restore = False, rt_consumed_on_use = True\<rparr>
      in and_then (validate_common p) (\<lambda>_. Inr \<lparr>rt_parameters = p\<rparr>))"

definition red_tonic_first_playable :: red_tonic_definition where
  "red_tonic_first_playable =
     \<lparr>rt_parameters =
        \<lparr>rt_content_id = RED_TONIC_CONTENT_ID, rt_belt_stack_cap = RED_TONIC_STACK_CAP,
         rt_restore_max_health_basis_points = RED_TONIC_RESTORE_BASIS_POINTS,
         rt_restore_duration_ticks = RED_TONIC_RESTORE_TICKS,
         rt_shared_cooldown_ticks = RED_TONIC_SHARED_COOLDOWN_TICKS,
         rt_damage_interrupts_restore = False, rt_consumed_on_use = True\<rparr>\<rparr>"

abbreviation restore_basis_points :: "red_tonic_definition \<Rightarrow> u32" where
  "restore_basis_points d \<equiv> rt_restore_max_health_basis_points (rt_parameters d)"

abbreviation restore_duration :: "red_tonic_definition \<Rightarrow> u32" where
  "restore_duration d \<equiv> rt_restore_duration_ticks (rt_parameters d)"

abbreviation shared_cooldown :: "red_tonic_definition \<Rightarrow> u32" where
  "shared_cooldown d \<equiv> rt_shared_cooldown_ticks (rt_parameters d)"

section \<open>Errors and events\<close>

datatype belt_error =
    ZeroSizedStack nat
  | StackExceedsCap nat u8

datatype tonic_use_rejection =
    EmptyQSlot
  | InactiveBeltSlot nat
  | InvalidBeltSlot nat
  | SharedCooldown u32
  | FullHealth
  | NoEffectiveHealing

datatype consumable_error =
    ConsumableTickExhausted
  | StaleUseSequence u32 u32
  | Belt belt_error
  | InvariantUseRejection tonic_use_rejection
  | InvalidBeltPolicy
  | HealingArithmeticOverflow
  | HealingScheduleRegressed

datatype consumable_failure = Refused consumable_error | Panicked

datatype consumable_event =
    UseAccepted tick u32 nat u8 u32 u32 u32
  | UseRejected tick u32 tonic_use_rejection
  | HealingTick tick u32 u32 u32 u32 u32 u32 u32
  | RestoreCompleted tick u32 u32
  | SharedCooldownReady tick

definition scheduled_restore :: "red_tonic_definition \<Rightarrow> u32 \<Rightarrow> u32 \<Rightarrow> consumable_failure + u32" where
  "scheduled_restore d maximum_health potion_healing_multiplier =
     and_then (ok_or (Option.bind (checked_mul (ucast maximum_health :: u64) (ucast (restore_basis_points d)))
                        (\<lambda>value. checked_mul value (ucast potion_healing_multiplier)))
                 (Refused HealingArithmeticOverflow)) (\<lambda>numerator.
     and_then (ok_or (checked_mul (ucast TONIC_BASIS_POINTS_PER_ONE :: u64) (ucast TONIC_BASIS_POINTS_PER_ONE))
                 (Refused HealingArithmeticOverflow)) (\<lambda>denominator.
     and_then (ok_or (checked_add numerator (denominator div 2)) (Refused HealingArithmeticOverflow)) (\<lambda>sum.
       ok_or (try_from_word (sum div denominator)) (Refused HealingArithmeticOverflow))))"

definition cumulative_half_up :: "u32 \<Rightarrow> u32 \<Rightarrow> u32 \<Rightarrow> consumable_failure + u32" where
  "cumulative_half_up scheduled elapsed duration =
     and_then (ok_or (Option.bind (checked_mul (ucast scheduled :: u64) (ucast elapsed))
                        (\<lambda>product. checked_add product (ucast (duration div 2))))
                 (Refused HealingArithmeticOverflow)) (\<lambda>numerator.
       if duration = 0 then Inl Panicked
       else ok_or (try_from_word (numerator div ucast duration)) (Refused HealingArithmeticOverflow))"

section \<open>Vitals\<close>

record player_vitals =
  pv_current_health :: u32
  pv_maximum_health :: u32

datatype vitals_error = ZeroMaximumHealth | CurrentExceedsMaximum u32 u32

definition new_vitals :: "u32 \<Rightarrow> u32 \<Rightarrow> vitals_error + player_vitals" where
  "new_vitals current maximum =
     (if maximum = 0 then Inl ZeroMaximumHealth
      else if current > maximum then Inl (CurrentExceedsMaximum current maximum)
      else Inr \<lparr>pv_current_health = current, pv_maximum_health = maximum\<rparr>)"

definition is_full :: "player_vitals \<Rightarrow> bool" where
  "is_full v \<longleftrightarrow> pv_current_health v = pv_maximum_health v"

definition vitals_apply_damage :: "u32 \<Rightarrow> player_vitals \<Rightarrow> u32 \<times> player_vitals" where
  "vitals_apply_damage requested v =
     (let applied = min requested (pv_current_health v) in
      (applied, v\<lparr>pv_current_health := pv_current_health v - applied\<rparr>))"

definition vitals_apply_healing :: "u32 \<Rightarrow> player_vitals \<Rightarrow> u32 \<times> player_vitals" where
  "vitals_apply_healing requested v =
     (let missing = pv_maximum_health v - pv_current_health v;
          applied = min requested missing in
      (applied, v\<lparr>pv_current_health := pv_current_health v + applied\<rparr>))"

section \<open>The belt\<close>

datatype belt_slot = BeltEmpty | RedTonic u8

fun tonic_count :: "belt_slot \<Rightarrow> u8" where
  "tonic_count BeltEmpty = 0"
| "tonic_count (RedTonic n) = n"

text \<open>An array of two slots.\<close>

record tonic_belt =
  tb_slots :: "belt_slot list"

definition belt_first_playable :: tonic_belt where
  "belt_first_playable = \<lparr>tb_slots = [RedTonic 2, BeltEmpty]\<rparr>"

definition validate_slot :: "nat \<times> belt_slot \<Rightarrow> unit \<Rightarrow> belt_error + unit" where
  "validate_slot entry _ =
     (case snd entry of
        RedTonic n \<Rightarrow>
          if n = 0 then Inl (ZeroSizedStack (fst entry))
          else if n > RED_TONIC_STACK_CAP then Inl (StackExceedsCap (fst entry) n) else Inr ()
      | BeltEmpty \<Rightarrow> Inr ())"

definition validate_belt :: "tonic_belt \<Rightarrow> belt_error + unit" where
  "validate_belt belt = try_fold validate_slot (List.enumerate 0 (tb_slots belt)) ()"

definition belt_from_slots :: "belt_slot list \<Rightarrow> belt_error + tonic_belt" where
  "belt_from_slots slots =
     (let belt = \<lparr>tb_slots = slots\<rparr> in and_then (validate_belt belt) (\<lambda>_. Inr belt))"

record tonic_merge_result =
  mr_requested :: u32
  mr_slot_one_added :: u8
  mr_slot_two_added :: u8
  mr_remainder :: u32

text \<open>The merges return what they added, the slot and what remains; None is the \<open>expect\<close> panic.\<close>

definition merge_existing_tonic :: "belt_slot \<Rightarrow> u32 \<Rightarrow> (u8 \<times> belt_slot \<times> u32) option" where
  "merge_existing_tonic slot remaining =
     (case slot of
        BeltEmpty \<Rightarrow> Some (0, slot, remaining)
      | RedTonic n \<Rightarrow>
          let capacity = (if n \<le> RED_TONIC_STACK_CAP then RED_TONIC_STACK_CAP - n else 0) in
          map_option (\<lambda>added. (added, RedTonic (n + added), remaining - ucast added))
            (try_from_word (min remaining (ucast capacity)) :: u8 option))"

definition merge_slot_one :: "belt_slot \<Rightarrow> u32 \<Rightarrow> (u8 \<times> belt_slot \<times> u32) option" where
  "merge_slot_one slot remaining =
     (case slot of
        BeltEmpty \<Rightarrow>
          map_option (\<lambda>added. if added > 0 then (added, RedTonic added, remaining - ucast added)
                              else (added, slot, remaining))
            (try_from_word (min remaining (ucast RED_TONIC_STACK_CAP)) :: u8 option)
      | RedTonic _ \<Rightarrow> merge_existing_tonic slot remaining)"

definition merge_red_tonics :: "u32 \<Rightarrow> tonic_belt \<Rightarrow> (tonic_merge_result \<times> tonic_belt) option" where
  "merge_red_tonics quantity belt =
     Option.bind (merge_slot_one (tb_slots belt ! 0) quantity) (\<lambda>(one, slot_one, remaining1).
       map_option (\<lambda>(two, slot_two, remaining2).
           (\<lparr>mr_requested = quantity, mr_slot_one_added = one, mr_slot_two_added = two, mr_remainder = remaining2\<rparr>,
            belt\<lparr>tb_slots := (tb_slots belt)[0 := slot_one, 1 := slot_two]\<rparr>))
         (merge_existing_tonic (tb_slots belt ! 1) remaining1))"

definition consume_slot :: "nat \<Rightarrow> tonic_belt \<Rightarrow> tonic_use_rejection + tonic_belt" where
  "consume_slot index belt =
     and_then (ok_or (get (tb_slots belt) index) (InvalidBeltSlot index)) (\<lambda>slot.
       case slot of
         BeltEmpty \<Rightarrow> Inl EmptyQSlot
       | RedTonic n \<Rightarrow>
           if n = 0 then Inl EmptyQSlot
           else if n = 1 then Inr (belt\<lparr>tb_slots := (tb_slots belt)[index := BeltEmpty]\<rparr>)
           else Inr (belt\<lparr>tb_slots := (tb_slots belt)[index := RedTonic (n - 1)]\<rparr>))"

record tonic_belt_policy =
  bp_active_slots :: "bool list"
  bp_potion_healing_multiplier :: u32

definition policy_normal :: tonic_belt_policy where
  "policy_normal = \<lparr>bp_active_slots = [True, True], bp_potion_healing_multiplier = TONIC_BASIS_POINTS_PER_ONE\<rparr>"

definition policy_lantern_ash :: "lantern_ash_definition \<Rightarrow> consumable_failure + tonic_belt_policy" where
  "policy_lantern_ash d =
     (if active_belt_slot_count d \<noteq> 1 \<or> active_belt_index d \<noteq> 0
         \<or> \<not> inactive_slot_remains_stored_visible_locked d
         \<or> potion_healing_multiplier_basis_points d < TONIC_BASIS_POINTS_PER_ONE
      then Inl (Refused InvalidBeltPolicy)
      else Inr \<lparr>bp_active_slots = [True, False],
                bp_potion_healing_multiplier = potion_healing_multiplier_basis_points d\<rparr>)"

definition with_potion_output_multiplier :: "u32 \<Rightarrow> tonic_belt_policy \<Rightarrow> consumable_failure + tonic_belt_policy" where
  "with_potion_output_multiplier equipment_multiplier policy =
     (if equipment_multiplier < TONIC_BASIS_POINTS_PER_ONE then Inl (Refused InvalidBeltPolicy)
      else let equipment_bonus = equipment_multiplier - TONIC_BASIS_POINTS_PER_ONE in
        and_then (ok_or (checked_add (bp_potion_healing_multiplier policy) equipment_bonus)
                    (Refused HealingArithmeticOverflow)) (\<lambda>multiplier.
          Inr (policy\<lparr>bp_potion_healing_multiplier := multiplier\<rparr>)))"

definition is_active :: "tonic_belt_policy \<Rightarrow> nat \<Rightarrow> bool" where
  "is_active policy index \<longleftrightarrow> index < BELT_SLOT_COUNT \<and> bp_active_slots policy ! index"

section \<open>The simulation\<close>

record consumable_action =
  use_q_press_sequence :: u32
  use_second_slot_press_sequence :: u32

record active_restore =
  ar_source_press_sequence :: u32
  ar_elapsed_ticks :: u32
  ar_scheduled_total :: u32
  ar_scheduled_so_far :: u32

record red_tonic_simulation =
  ts_definition :: red_tonic_definition
  ts_vitals :: player_vitals
  ts_belt :: tonic_belt
  ts_tick :: tick
  ts_last_use_q :: u32
  ts_last_use_second :: u32
  ts_belt_policy :: tonic_belt_policy
  ts_shared_cooldown_remaining :: u32
  ts_active_restore :: "active_restore option"
  ts_cumulative_damage_taken :: u64
  ts_accepted_tonic_uses :: u32

definition with_policy ::
  "red_tonic_definition \<Rightarrow> player_vitals \<Rightarrow> tonic_belt \<Rightarrow> tonic_belt_policy
     \<Rightarrow> consumable_failure + red_tonic_simulation" where
  "with_policy d vitals belt policy =
     and_then (map_err (\<lambda>e. Refused (Belt e)) (validate_belt belt)) (\<lambda>_.
       Inr \<lparr>ts_definition = d, ts_vitals = vitals, ts_belt = belt, ts_tick = 0, ts_last_use_q = 0,
            ts_last_use_second = 0, ts_belt_policy = policy, ts_shared_cooldown_remaining = 0,
            ts_active_restore = None, ts_cumulative_damage_taken = 0, ts_accepted_tonic_uses = 0\<rparr>)"

definition new_tonic_simulation ::
  "red_tonic_definition \<Rightarrow> player_vitals \<Rightarrow> tonic_belt \<Rightarrow> consumable_failure + red_tonic_simulation" where
  "new_tonic_simulation d vitals belt = with_policy d vitals belt policy_normal"

definition tonic_simulation_first_playable :: "player_vitals \<Rightarrow> consumable_failure + red_tonic_simulation" where
  "tonic_simulation_first_playable vitals =
     new_tonic_simulation red_tonic_first_playable vitals belt_first_playable"

definition restart_first_playable ::
  "player_vitals \<Rightarrow> red_tonic_simulation \<Rightarrow> (consumable_failure + unit) \<times> red_tonic_simulation" where
  "restart_first_playable vitals sim =
     (case tonic_simulation_first_playable vitals of
        Inl e \<Rightarrow> (Inl e, sim) | Inr fresh \<Rightarrow> (Inr (), fresh))"

definition active_restore_remaining_ticks :: "red_tonic_simulation \<Rightarrow> u32" where
  "active_restore_remaining_ticks sim =
     (case ts_active_restore sim of
        Some restore \<Rightarrow>
          if ar_elapsed_ticks restore \<le> restore_duration (ts_definition sim)
          then restore_duration (ts_definition sim) - ar_elapsed_ticks restore else 0
      | None \<Rightarrow> 0)"

record damage_applied_event =
  da_tick :: tick
  da_requested :: u32
  da_applied :: u32
  da_health_before :: u32
  da_health_after :: u32
  da_restore_continues :: bool

definition simulation_apply_damage ::
  "u32 \<Rightarrow> red_tonic_simulation \<Rightarrow> damage_applied_event \<times> red_tonic_simulation" where
  "simulation_apply_damage requested sim =
     (let before = pv_current_health (ts_vitals sim);
          (applied, vitals) = vitals_apply_damage requested (ts_vitals sim) in
      (\<lparr>da_tick = ts_tick sim, da_requested = requested, da_applied = applied, da_health_before = before,
        da_health_after = pv_current_health vitals, da_restore_continues = (ts_active_restore sim \<noteq> None)\<rparr>,
       sim\<lparr>ts_vitals := vitals,
           ts_cumulative_damage_taken := saturating_add (ts_cumulative_damage_taken sim) (ucast applied)\<rparr>))"

text \<open>The operations below pass the simulation and the events of the step.\<close>

type_synonym tonic_work = "red_tonic_simulation \<times> consumable_event list"

definition use_rejection :: "nat \<Rightarrow> red_tonic_simulation \<Rightarrow> tonic_use_rejection option" where
  "use_rejection index sim =
     (if \<not> is_active (ts_belt_policy sim) index then Some (InactiveBeltSlot index)
      else if tonic_count (tb_slots (ts_belt sim) ! index) = 0 then Some EmptyQSlot
      else if ts_shared_cooldown_remaining sim > 0 then Some (SharedCooldown (ts_shared_cooldown_remaining sim))
      else if is_full (ts_vitals sim) then Some FullHealth
      else None)"

definition attempt_use :: "nat \<Rightarrow> u32 \<Rightarrow> tonic_work \<Rightarrow> consumable_failure + tonic_work" where
  "attempt_use index press = (\<lambda>(sim, events).
     case use_rejection index sim of
       Some reason \<Rightarrow> Inr (sim, events @ [UseRejected (ts_tick sim) press reason])
     | None \<Rightarrow>
         and_then (scheduled_restore (ts_definition sim) (pv_maximum_health (ts_vitals sim))
                     (bp_potion_healing_multiplier (ts_belt_policy sim))) (\<lambda>scheduled_total.
           if scheduled_total = 0
           then Inr (sim, events @ [UseRejected (ts_tick sim) press NoEffectiveHealing])
           else and_then (map_err (\<lambda>e. Refused (InvariantUseRejection e)) (consume_slot index (ts_belt sim))) (\<lambda>belt.
             Inr (sim\<lparr>ts_belt := belt, ts_shared_cooldown_remaining := shared_cooldown (ts_definition sim),
                      ts_active_restore := Some \<lparr>ar_source_press_sequence = press, ar_elapsed_ticks = 0,
                        ar_scheduled_total = scheduled_total, ar_scheduled_so_far = 0\<rparr>,
                      ts_accepted_tonic_uses := saturating_add (ts_accepted_tonic_uses sim) 1\<rparr>,
                  events @ [UseAccepted (ts_tick sim) press index (tonic_count (tb_slots belt ! index))
                              scheduled_total (restore_duration (ts_definition sim))
                              (shared_cooldown (ts_definition sim))]))))"

definition advance_restore :: "tonic_work \<Rightarrow> consumable_failure + tonic_work" where
  "advance_restore = (\<lambda>(sim, events).
     case ts_active_restore sim of
       None \<Rightarrow> Inr (sim, events)
     | Some restore \<Rightarrow>
         and_then (ok_or (checked_add (ar_elapsed_ticks restore) 1) (Refused HealingArithmeticOverflow)) (\<lambda>elapsed.
         and_then (cumulative_half_up (ar_scheduled_total restore) elapsed (restore_duration (ts_definition sim)))
           (\<lambda>cumulative.
         and_then (ok_or (checked_sub cumulative (ar_scheduled_so_far restore)) (Refused HealingScheduleRegressed))
           (\<lambda>requested.
           let before = pv_current_health (ts_vitals sim);
               (applied, vitals) = vitals_apply_healing requested (ts_vitals sim);
               restore' = restore\<lparr>ar_elapsed_ticks := elapsed, ar_scheduled_so_far := cumulative\<rparr>;
               completed = (elapsed = restore_duration (ts_definition sim));
               healing = HealingTick (ts_tick sim) (ar_source_press_sequence restore) elapsed requested applied
                 cumulative before (pv_current_health vitals)
           in if completed
              then Inr (sim\<lparr>ts_vitals := vitals, ts_active_restore := None\<rparr>,
                        events @ [healing, RestoreCompleted (ts_tick sim) (ar_source_press_sequence restore)
                                             (ar_scheduled_total restore)])
              else Inr (sim\<lparr>ts_vitals := vitals, ts_active_restore := Some restore'\<rparr>, events @ [healing])))))"

definition tick_cooldown :: "tonic_work \<Rightarrow> tonic_work" where
  "tick_cooldown = (\<lambda>(sim, events).
     if ts_shared_cooldown_remaining sim > 0
     then let remaining = ts_shared_cooldown_remaining sim - 1 in
          (sim\<lparr>ts_shared_cooldown_remaining := remaining\<rparr>,
           if remaining = 0 then events @ [SharedCooldownReady (ts_tick sim)] else events)
     else (sim, events))"

definition tonic_step_inner :: "consumable_action \<Rightarrow> red_tonic_simulation \<Rightarrow> consumable_failure + tonic_work" where
  "tonic_step_inner action sim =
     (if use_q_press_sequence action < ts_last_use_q sim
      then Inl (Refused (StaleUseSequence (use_q_press_sequence action) (ts_last_use_q sim)))
      else if use_second_slot_press_sequence action < ts_last_use_second sim
      then Inl (Refused (StaleUseSequence (use_second_slot_press_sequence action) (ts_last_use_second sim)))
      else and_then (map_err (\<lambda>e. Refused (Belt e)) (validate_belt (ts_belt sim))) (\<lambda>_.
           and_then (ok_or (checked_next (ts_tick sim)) (Refused ConsumableTickExhausted)) (\<lambda>tick.
           and_then (advance_restore (tick_cooldown (sim\<lparr>ts_tick := tick\<rparr>, []))) (\<lambda>(sim1, events1).
           and_then (if use_q_press_sequence action > ts_last_use_q sim1
                     then attempt_use 0 (use_q_press_sequence action)
                            (sim1\<lparr>ts_last_use_q := use_q_press_sequence action\<rparr>, events1)
                     else Inr (sim1, events1)) (\<lambda>(sim2, events2).
             if use_second_slot_press_sequence action > ts_last_use_second sim2
             then attempt_use 1 (use_second_slot_press_sequence action)
                    (sim2\<lparr>ts_last_use_second := use_second_slot_press_sequence action\<rparr>, events2)
             else Inr (sim2, events2))))))"

record consumable_step =
  cs_tick :: tick
  cs_events :: "consumable_event list"

definition tonic_step ::
  "consumable_action \<Rightarrow> red_tonic_simulation \<Rightarrow> (consumable_failure + consumable_step) \<times> red_tonic_simulation" where
  "tonic_step action sim =
     (case tonic_step_inner action sim of
        Inl e \<Rightarrow> (Inl e, sim)
      | Inr (sim', events) \<Rightarrow> (Inr \<lparr>cs_tick = ts_tick sim', cs_events = events\<rparr>, sim'))"

end
