(* ===== verification/Red_Tonic_Properties.thy ===== *)
theory Red_Tonic_Properties
  imports Red_Tonic
begin

text \<open>
  What the consumable simulation guarantees: its step fails only where it must; over any run the health, the
  belt and the scheduled healing balance; and the shared cooldown limits the uses, so that no restore
  is cut short.
\<close>

section \<open>Arithmetic\<close>

text \<open>The healing of one tonic, rounded half up, as an unbounded number.\<close>

definition tonic_total :: "red_tonic_definition \<Rightarrow> u32 \<Rightarrow> u32 \<Rightarrow> nat" where
  "tonic_total d maximum_health multiplier =
     (unat maximum_health * unat (restore_basis_points d) * unat multiplier + 50000000) div 100000000"

lemma scheduled_restore_exact:
  "scheduled_restore d m k =
     (if tonic_total d m k < 2 ^ 32 then Inr (of_nat (tonic_total d m k)) else Inl (Refused HealingArithmeticOverflow))"
proof -
  let ?p = "unat m * unat (restore_basis_points d)"
  have "?p < 2 ^ 32 * 2 ^ 32"
    using unat_bound [of m] unat_bound [of "restore_basis_points d"] by (intro mult_strict_mono') simp_all
  then obtain one where one: "checked_mul (ucast m :: u64) (ucast (restore_basis_points d)) = Some one" "unat one = ?p"
    using checked_mul_ex [of "ucast m" "ucast (restore_basis_points d) :: u64"] by (auto simp: unat_ucast_widen)
  have den: "checked_mul (ucast TONIC_BASIS_POINTS_PER_ONE :: u64) (ucast TONIC_BASIS_POINTS_PER_ONE) = Some 100000000"
    by (simp add: checked_mul_eq_Some TONIC_BASIS_POINTS_PER_ONE_def)
  show ?thesis
  proof (cases "?p * unat k + 50000000 < 2 ^ 64")
    case True
    then obtain two where two: "checked_mul one (ucast k) = Some two" "unat two = ?p * unat k"
      using one(2) checked_mul_ex [of one "ucast k"] by (auto simp: unat_ucast_widen)
    obtain three where three: "checked_add two 50000000 = Some three" "unat three = ?p * unat k + 50000000"
      using True two(2) checked_add_ex [of two 50000000] by (auto simp: unat_ucast_widen)
    have quotient: "unat (three div 100000000) = tonic_total d m k"
      using three(2) by (simp add: unat_div tonic_total_def)
    then show ?thesis
      by (auto simp: scheduled_restore_def one den two three try_from_word_def unat_of_nat_bounded unsigned_ucast_eq
          take_bit_nat_eq_self word_unat_eq_iff)
  next
    case False
    then have "\<not> tonic_total d m k < 2 ^ 32"
      by (simp add: tonic_total_def)
    moreover have "scheduled_restore d m k = Inl (Refused HealingArithmeticOverflow)"
    proof (cases "checked_mul one (ucast k)")
      case (Some two)
      then have "unat two = ?p * unat k"
        by (simp add: checked_mul_eq_Some one(2) unat_ucast_widen)
      then have "checked_add two 50000000 = None"
        using False by (simp add: checked_add_eq_None)
      then show ?thesis
        by (simp add: scheduled_restore_def one den Some ok_or_def)
    qed (simp add: scheduled_restore_def one ok_or_def)
    ultimately show ?thesis by simp
  qed
qed

text \<open>The schedule of a restore: after \<open>k\<close> of \<open>n\<close> ticks the rounded share.\<close>

lemma cumulative_half_up_exact:
  assumes "unat elapsed \<le> 12"
  shows "cumulative_half_up t elapsed 12 = Inr (of_nat ((unat t * unat elapsed + 6) div 12))"
proof -
  have "unat t * unat elapsed \<le> unat t * 12"
    using assms by simp
  moreover have "unat t * 12 + 6 < 2 ^ 64"
    using unat_bound [of t] by simp
  ultimately have bound: "unat t * unat elapsed + 6 < 2 ^ 64"
    by linarith
  then obtain product where product: "checked_mul (ucast t :: u64) (ucast elapsed) = Some product"
    "unat product = unat t * unat elapsed"
    using checked_mul_ex [of "ucast t" "ucast elapsed :: u64"] by (auto simp: unat_ucast_widen)
  obtain s where s: "checked_add product 6 = Some s" "unat s = unat t * unat elapsed + 6"
    using bound product(2) checked_add_ex [of product 6] by (auto simp: unat_ucast_widen)
  have six: "ucast ((12 :: u32) div 2) = (6 :: u64)" "ucast (12 :: u32) = (12 :: u64)"
    by simp_all
  have "unat (s div 12) = (unat t * unat elapsed + 6) div 12"
    by (simp add: unat_div s(2))
  moreover have "unat t < 4294967296"
    using unat_bound [of t] by simp
  with \<open>unat t * unat elapsed \<le> unat t * 12\<close> have "unat t * unat elapsed + 6 < 4294967296 * 12"
    by linarith
  then have "(unat t * unat elapsed + 6) div 12 < 2 ^ 32"
    using less_mult_imp_div_less by fastforce
  ultimately show ?thesis
    unfolding cumulative_half_up_def product(1) six
    by (simp add: s(1) try_from_word_def unat_of_nat_bounded unsigned_ucast_eq take_bit_nat_eq_self word_unat_eq_iff)
qed

section \<open>The invariant\<close>

definition slot_ok :: "belt_slot \<Rightarrow> bool" where
  "slot_ok slot \<longleftrightarrow> (\<forall>n. slot = RedTonic n \<longrightarrow> 0 < n \<and> n \<le> RED_TONIC_STACK_CAP)"

lemma validate_belt_Inr: "validate_belt belt = Inr u \<longleftrightarrow> list_all slot_ok (tb_slots belt)"
proof -
  have "try_fold validate_slot (List.enumerate i slots) v = Inr u \<longleftrightarrow> list_all slot_ok slots" for i slots v
    by (induction slots arbitrary: i v) (auto simp: validate_slot_def slot_ok_def word_gt_0 not_less split: belt_slot.splits)
  then show ?thesis
    by (simp add: validate_belt_def)
qed

definition definition_ok :: "red_tonic_definition \<Rightarrow> bool" where
  "definition_ok d \<longleftrightarrow> restore_duration d = 12
     \<and> (shared_cooldown d = 60 \<and> restore_basis_points d = 3000 \<or> shared_cooldown d = 75 \<and> restore_basis_points d = 3500)"

lemma definitions_ok:
  "new_red_tonic p = Inr d \<Longrightarrow> definition_ok d" "with_undertaker_knot = Inr d \<Longrightarrow> definition_ok d"
  "definition_ok red_tonic_first_playable"
  by (auto simp: new_red_tonic_def with_undertaker_knot_def red_tonic_first_playable_def validate_common_def definition_ok_def
      RED_TONIC_RESTORE_TICKS_def RED_TONIC_SHARED_COOLDOWN_TICKS_def RED_TONIC_RESTORE_BASIS_POINTS_def
      UNDERTAKER_KNOT_SHARED_COOLDOWN_TICKS_def UNDERTAKER_KNOT_RESTORE_BASIS_POINTS_def split: if_splits)

definition tonic_static :: "red_tonic_simulation \<Rightarrow> bool" where
  "tonic_static sim \<longleftrightarrow>
     definition_ok (ts_definition sim)
     \<and> pv_current_health (ts_vitals sim) \<le> pv_maximum_health (ts_vitals sim)
     \<and> length (tb_slots (ts_belt sim)) = 2 \<and> list_all slot_ok (tb_slots (ts_belt sim))
     \<and> unat (ts_shared_cooldown_remaining sim) \<le> unat (shared_cooldown (ts_definition sim))"

text \<open>The share of \<open>t\<close> that is scheduled after \<open>k\<close> of twelve ticks.\<close>

definition share :: "nat \<Rightarrow> nat \<Rightarrow> nat" where
  "share t k = (t * k + 6) div 12"

lemma share_0 [simp]: "share t 0 = 0" and share_12 [simp]: "share t 12 = t"
  by (simp_all add: share_def)

lemma share_mono: "j \<le> k \<Longrightarrow> share t j \<le> share t k"
  by (simp add: share_def div_le_mono)

lemma share_le: "k \<le> 12 \<Longrightarrow> share t k \<le> t"
  using share_mono [of k 12 t] by simp

text \<open>
  The running restore is tied to the cooldown that its use started: \<open>lag\<close> is 1 between the two
  halves of a step.
\<close>

definition restore_ok :: "nat \<Rightarrow> red_tonic_simulation \<Rightarrow> bool" where
  "restore_ok lag sim \<longleftrightarrow>
     (\<forall>r. ts_active_restore sim = Some r \<longrightarrow>
        unat (ar_elapsed_ticks r) < 12
        \<and> unat (ts_shared_cooldown_remaining sim) + unat (ar_elapsed_ticks r) + lag = unat (shared_cooldown (ts_definition sim))
        \<and> unat (ar_scheduled_so_far r) = share (unat (ar_scheduled_total r)) (unat (ar_elapsed_ticks r)))"

definition tonic_inv :: "red_tonic_simulation \<Rightarrow> bool" where
  "tonic_inv sim \<longleftrightarrow> tonic_static sim \<and> restore_ok 0 sim"

section \<open>The ledger\<close>

definition healed :: "consumable_event list \<Rightarrow> nat" where
  "healed events = sum_list (map (\<lambda>e. case e of HealingTick _ _ _ _ applied _ _ _ \<Rightarrow> unat applied | _ \<Rightarrow> 0) events)"

definition requested :: "consumable_event list \<Rightarrow> nat" where
  "requested events = sum_list (map (\<lambda>e. case e of HealingTick _ _ _ asked _ _ _ _ \<Rightarrow> unat asked | _ \<Rightarrow> 0) events)"

definition scheduled :: "consumable_event list \<Rightarrow> nat" where
  "scheduled events = sum_list (map (\<lambda>e. case e of UseAccepted _ _ _ _ healing _ _ \<Rightarrow> unat healing | _ \<Rightarrow> 0) events)"

definition uses :: "consumable_event list \<Rightarrow> nat" where
  "uses events = sum_list (map (\<lambda>e. case e of UseAccepted _ _ _ _ _ _ _ \<Rightarrow> 1 | _ \<Rightarrow> 0) events)"

lemma event_sums [simp]:
  "healed [] = 0" "requested [] = 0" "scheduled [] = 0" "uses [] = 0"
  "healed (es @ fs) = healed es + healed fs" "requested (es @ fs) = requested es + requested fs"
  "scheduled (es @ fs) = scheduled es + scheduled fs" "uses (es @ fs) = uses es + uses fs"
  "healed (e # es) = (case e of HealingTick _ _ _ _ applied _ _ _ \<Rightarrow> unat applied | _ \<Rightarrow> 0) + healed es"
  "requested (e # es) = (case e of HealingTick _ _ _ asked _ _ _ _ \<Rightarrow> unat asked | _ \<Rightarrow> 0) + requested es"
  "scheduled (e # es) = (case e of UseAccepted _ _ _ _ healing _ _ \<Rightarrow> unat healing | _ \<Rightarrow> 0) + scheduled es"
  "uses (e # es) = (case e of UseAccepted _ _ _ _ _ _ _ \<Rightarrow> 1 | _ \<Rightarrow> 0) + uses es"
  by (simp_all add: healed_def requested_def scheduled_def uses_def)

definition tonics :: "red_tonic_simulation \<Rightarrow> nat" where
  "tonics sim = sum_list (map (unat \<circ> tonic_count) (tb_slots (ts_belt sim)))"

definition outstanding :: "red_tonic_simulation \<Rightarrow> nat" where
  "outstanding sim = (case ts_active_restore sim of None \<Rightarrow> 0
     | Some r \<Rightarrow> unat (ar_scheduled_total r) - unat (ar_scheduled_so_far r))"

text \<open>What no operation of a step changes once the events are counted in.\<close>

definition balanced :: "tonic_work \<Rightarrow> tonic_work \<Rightarrow> bool" where
  "balanced w w' \<longleftrightarrow>
     (case (w, w') of ((sim, events), (sim', events')) \<Rightarrow>
        ts_definition sim' = ts_definition sim \<and> ts_belt_policy sim' = ts_belt_policy sim
        \<and> pv_maximum_health (ts_vitals sim') = pv_maximum_health (ts_vitals sim)
        \<and> unat (pv_current_health (ts_vitals sim')) + healed events = unat (pv_current_health (ts_vitals sim)) + healed events'
        \<and> tonics sim' + uses events' = tonics sim + uses events
        \<and> outstanding sim' + requested events' + scheduled events = outstanding sim + requested events + scheduled events')"

lemma balanced_refl [simp]: "balanced w w"
  by (cases w) (simp add: balanced_def)

lemma balanced_trans: "balanced u v \<Longrightarrow> balanced v w \<Longrightarrow> balanced u w"
  by (cases u; cases v; cases w) (auto simp: balanced_def)

section \<open>The operations of a step\<close>

lemma tick_cooldown_ok:
  assumes "tonic_inv sim"
  obtains sim' events' where "tick_cooldown (sim, events) = (sim', events')" "tonic_static sim'" "restore_ok 1 sim'"
    "balanced (sim, events) (sim', events')" "uses events' = uses events"
    "unat (ts_shared_cooldown_remaining sim') = unat (ts_shared_cooldown_remaining sim) - 1"
    "ts_last_use_q sim' = ts_last_use_q sim" "ts_last_use_second sim' = ts_last_use_second sim"
proof (cases "ts_shared_cooldown_remaining sim = 0")
  case True
  have "ts_active_restore sim = None"
  proof (rule ccontr)
    assume "ts_active_restore sim \<noteq> None"
    then obtain r where "ts_active_restore sim = Some r"
      by blast
    with assms True show False
      by (auto simp: tonic_inv_def restore_ok_def tonic_static_def definition_ok_def)
  qed
  with True assms show thesis
    by (intro that [of sim events]) (auto simp: tick_cooldown_def tonic_inv_def restore_ok_def)
next
  case False
  then have dec: "unat (ts_shared_cooldown_remaining sim - 1) = unat (ts_shared_cooldown_remaining sim) - 1"
    "0 < unat (ts_shared_cooldown_remaining sim)"
    by (simp_all add: unat_minus_one unat_gt_0)
  let ?sim = "sim\<lparr>ts_shared_cooldown_remaining := ts_shared_cooldown_remaining sim - 1\<rparr>"
  have "tick_cooldown (sim, events) = (?sim,
      if ts_shared_cooldown_remaining sim - 1 = 0 then events @ [SharedCooldownReady (ts_tick sim)] else events)"
    using False by (simp add: tick_cooldown_def Let_def word_gt_0)
  then show thesis
    by (rule that) (use assms dec in \<open>auto simp: tonic_inv_def tonic_static_def restore_ok_def balanced_def tonics_def outstanding_def\<close>)
qed

lemma vitals_healing:
  assumes "pv_current_health v \<le> pv_maximum_health v" and "vitals_apply_healing r v = (applied, v')"
  shows "unat (pv_current_health v') = unat (pv_current_health v) + unat applied"
    "pv_maximum_health v' = pv_maximum_health v" "pv_current_health v' \<le> pv_maximum_health v'"
    "unat applied = min (unat r) (unat (pv_maximum_health v) - unat (pv_current_health v))"
proof -
  from assms(2) have v': "v' = v\<lparr>pv_current_health := pv_current_health v + applied\<rparr>"
    "applied = min r (pv_maximum_health v - pv_current_health v)"
    by (auto simp: vitals_apply_healing_def Let_def)
  show applied: "unat applied = min (unat r) (unat (pv_maximum_health v) - unat (pv_current_health v))"
    using assms(1) by (simp add: v'(2) unat_min unat_sub)
  then have "unat (pv_current_health v) + unat applied < 2 ^ 32"
    using assms(1) unat_bound [of "pv_maximum_health v"] by (simp add: word_le_nat_alt)
  then show current: "unat (pv_current_health v') = unat (pv_current_health v) + unat applied"
    by (simp add: v'(1) unat_word_ariths)
  show "pv_maximum_health v' = pv_maximum_health v"
    by (simp add: v'(1))
  then show "pv_current_health v' \<le> pv_maximum_health v'"
    using applied current assms(1) by (simp add: word_le_nat_alt)
qed

lemma advance_restore_ok:
  assumes "tonic_static sim" and "restore_ok 1 sim"
  obtains sim' events' where "advance_restore (sim, events) = Inr (sim', events')" "tonic_inv sim'"
    "balanced (sim, events) (sim', events')" "uses events' = uses events"
    "ts_shared_cooldown_remaining sim' = ts_shared_cooldown_remaining sim"
    "ts_last_use_q sim' = ts_last_use_q sim" "ts_last_use_second sim' = ts_last_use_second sim"
proof (cases "ts_active_restore sim")
  case None
  with assms show thesis
    by (intro that [of sim events]) (auto simp: advance_restore_def tonic_inv_def restore_ok_def)
next
  case (Some r)
  let ?t = "unat (ar_scheduled_total r)" and ?k = "unat (ar_elapsed_ticks r)"
  have r: "?k < 12" "unat (ts_shared_cooldown_remaining sim) + ?k + 1 = unat (shared_cooldown (ts_definition sim))"
    "unat (ar_scheduled_so_far r) = share ?t ?k"
    using assms(2) Some by (simp_all add: restore_ok_def)
  have duration: "restore_duration (ts_definition sim) = 12"
    using assms(1) by (simp add: tonic_static_def definition_ok_def)
  obtain elapsed where elapsed: "checked_add (ar_elapsed_ticks r) 1 = Some elapsed" "unat elapsed = ?k + 1"
    using checked_add_ex [of "ar_elapsed_ticks r" 1] r(1) by auto
  define cumulative :: u32 where "cumulative = of_nat (share ?t (?k + 1))"
  have "share ?t (?k + 1) \<le> ?t"
    using r(1) by (intro share_le) simp
  then have cumulative: "unat cumulative = share ?t (?k + 1)"
    using unat_bound [of "ar_scheduled_total r"] by (simp add: cumulative_def unat_of_nat_bounded)
  have half_up: "cumulative_half_up (ar_scheduled_total r) elapsed 12 = Inr cumulative"
    using cumulative_half_up_exact [of elapsed "ar_scheduled_total r"] r(1)
    by (simp add: elapsed(2) cumulative_def share_def)
  have "share ?t ?k \<le> share ?t (?k + 1)"
    by (rule share_mono) simp
  then have asked: "checked_sub cumulative (ar_scheduled_so_far r) = Some (cumulative - ar_scheduled_so_far r)"
    "unat (cumulative - ar_scheduled_so_far r) = share ?t (?k + 1) - share ?t ?k"
    by (simp_all add: checked_sub_def word_le_nat_alt cumulative r(3) unat_sub)
  obtain applied vitals where heal: "vitals_apply_healing (cumulative - ar_scheduled_so_far r) (ts_vitals sim) = (applied, vitals)"
    by fastforce
  have "pv_current_health (ts_vitals sim) \<le> pv_maximum_health (ts_vitals sim)"
    using assms(1) by (simp add: tonic_static_def)
  note v = vitals_healing [OF this heal]
  have last: "elapsed = 12 \<longleftrightarrow> ?k + 1 = 12"
    using elapsed(2) by (auto simp: word_unat_eq_iff)
  let ?r = "r\<lparr>ar_elapsed_ticks := elapsed, ar_scheduled_so_far := cumulative\<rparr>"
  let ?sim = "sim\<lparr>ts_vitals := vitals, ts_active_restore := if elapsed = 12 then None else Some ?r\<rparr>"
  define healing where "healing = HealingTick (ts_tick sim) (ar_source_press_sequence r) elapsed
      (cumulative - ar_scheduled_so_far r) applied cumulative (pv_current_health (ts_vitals sim)) (pv_current_health vitals)"
  define events' where "events' = events @ (if elapsed = 12 then [healing, RestoreCompleted (ts_tick sim)
      (ar_source_press_sequence r) (ar_scheduled_total r)] else [healing])"
  have "advance_restore (sim, events) = Inr (?sim, events')"
    by (simp add: advance_restore_def Some duration elapsed(1) half_up asked(1) heal Let_def healing_def events'_def
        del: checked_add_one)
  then show thesis
  proof (rule that)
    show "tonic_inv ?sim"
      using assms(1) r last v(2,3) elapsed(2)
      by (auto simp: tonic_inv_def tonic_static_def restore_ok_def cumulative)
    have "?t - share ?t (?k + 1) + (share ?t (?k + 1) - share ?t ?k) = ?t - share ?t ?k"
      using \<open>share ?t (?k + 1) \<le> ?t\<close> \<open>share ?t ?k \<le> share ?t (?k + 1)\<close> by simp
    moreover have "?t - share ?t (?k + 1) = 0" if "elapsed = 12"
      using last that by simp
    ultimately show "balanced (sim, events) (?sim, events')"
      using v(1,2) by (auto simp: balanced_def events'_def healing_def tonics_def outstanding_def Some asked(2) r(3) cumulative)
    show "uses events' = uses events"
      by (simp add: events'_def healing_def)
  qed simp_all
qed

lemma two_slots:
  assumes "length xs = 2"
  obtains a b where "xs = [a, b]"
proof (rule that)
  show "xs = [xs ! 0, xs ! 1]"
    using assms by (intro nth_equalityI) (auto simp: less_2_cases_iff)
qed

lemma consume_slot_ok:
  assumes "length (tb_slots belt) = 2" "list_all slot_ok (tb_slots belt)" "index < 2"
    and "tonic_count (tb_slots belt ! index) \<noteq> 0"
  obtains belt' where "consume_slot index belt = Inr belt'" "length (tb_slots belt') = 2" "list_all slot_ok (tb_slots belt')"
    "sum_list (map (unat \<circ> tonic_count) (tb_slots belt')) + 1 = sum_list (map (unat \<circ> tonic_count) (tb_slots belt))"
proof -
  obtain a b where slots: "tb_slots belt = [a, b]"
    using two_slots [OF assms(1)] .
  obtain n where n: "tb_slots belt ! index = RedTonic n" "n \<noteq> 0"
    using assms(4) by (cases "tb_slots belt ! index") auto
  define slot where "slot = (if n = 1 then BeltEmpty else RedTonic (n - 1))"
  have consume: "consume_slot index belt = Inr (belt\<lparr>tb_slots := (tb_slots belt)[index := slot]\<rparr>)"
    using assms(1,3) n by (simp add: consume_slot_def slot_def get_def)
  have less: "unat (tonic_count slot) + 1 = unat n"
    using n(2) unat_minus_one [of n] unat_gt_0 [of n] by (auto simp: slot_def unat_eq_zero)
  have "slot_ok (RedTonic n)"
    using assms(1-3) n(1) by (metis list_all_length)
  then have "slot_ok slot"
    using less n(2) by (auto simp: slot_ok_def slot_def word_less_nat_alt word_le_nat_alt word_unat_eq_iff)
  from consume show thesis
    by (rule that)
      (use assms(2,3) n slots less \<open>slot_ok slot\<close> in \<open>auto simp: less_2_cases_iff\<close>)
qed

lemma attempt_use_ok:
  assumes inv: "tonic_inv sim" and "index < 2"
    and total: "tonic_total (ts_definition sim) (pv_maximum_health (ts_vitals sim)) (bp_potion_healing_multiplier (ts_belt_policy sim)) < 2 ^ 32"
  obtains sim' events' where "attempt_use index press (sim, events) = Inr (sim', events')" "tonic_inv sim'"
    "balanced (sim, events) (sim', events')"
    "unat (ts_shared_cooldown_remaining sim') + unat (shared_cooldown (ts_definition sim)) * uses events
      = unat (ts_shared_cooldown_remaining sim) + unat (shared_cooldown (ts_definition sim)) * uses events'"
    "ts_last_use_q sim' = ts_last_use_q sim" "ts_last_use_second sim' = ts_last_use_second sim"
proof -
  let ?total = "tonic_total (ts_definition sim) (pv_maximum_health (ts_vitals sim)) (bp_potion_healing_multiplier (ts_belt_policy sim))"
  let ?w = "of_nat ?total :: u32"
  note restore = scheduled_restore_exact [of "ts_definition sim" "pv_maximum_health (ts_vitals sim)"
      "bp_potion_healing_multiplier (ts_belt_policy sim)"]
  note result = that
  have rejected: thesis if "attempt_use index press (sim, events) = Inr (sim, events @ [UseRejected (ts_tick sim) press reason])" for reason
    using that by (rule result) (use inv in \<open>simp_all add: balanced_def\<close>)
  show thesis
  proof (cases "use_rejection index sim")
    case (Some reason)
    then show thesis
      by (intro rejected [of reason]) (simp add: attempt_use_def)
  next
    case None
    then have idle: "ts_shared_cooldown_remaining sim = 0" "tonic_count (tb_slots (ts_belt sim) ! index) \<noteq> 0"
      by (auto simp: use_rejection_def word_gt_0 split: if_splits)
    have none: "ts_active_restore sim = None"
    proof (rule ccontr)
      assume "ts_active_restore sim \<noteq> None"
      then obtain r where "ts_active_restore sim = Some r"
        by blast
      with inv idle(1) show False
        by (auto simp: tonic_inv_def restore_ok_def tonic_static_def definition_ok_def)
    qed
    show thesis
    proof (cases "?w = 0")
      case True
      then show thesis
        using None restore total by (intro rejected [of NoEffectiveHealing]) (simp add: attempt_use_def)
    next
      case False
      obtain belt' where belt': "consume_slot index (ts_belt sim) = Inr belt'" "length (tb_slots belt') = 2"
        "list_all slot_ok (tb_slots belt')"
        "sum_list (map (unat \<circ> tonic_count) (tb_slots belt')) + 1 = sum_list (map (unat \<circ> tonic_count) (tb_slots (ts_belt sim)))"
        using inv assms(2) idle(2) consume_slot_ok [of "ts_belt sim" index] by (auto simp: tonic_inv_def tonic_static_def)
      let ?sim = "sim\<lparr>ts_belt := belt', ts_shared_cooldown_remaining := shared_cooldown (ts_definition sim),
        ts_active_restore := Some \<lparr>ar_source_press_sequence = press, ar_elapsed_ticks = 0,
          ar_scheduled_total = ?w, ar_scheduled_so_far = 0\<rparr>,
        ts_accepted_tonic_uses := saturating_add (ts_accepted_tonic_uses sim) 1\<rparr>"
      let ?event = "UseAccepted (ts_tick sim) press index (tonic_count (tb_slots belt' ! index))
        ?w (restore_duration (ts_definition sim)) (shared_cooldown (ts_definition sim))"
      have "attempt_use index press (sim, events) = Inr (?sim, events @ [?event])"
        using None restore total False by (simp add: attempt_use_def belt'(1))
      then show thesis
      proof (rule result)
        show "tonic_inv ?sim"
          using inv belt'(2,3) by (auto simp: tonic_inv_def tonic_static_def restore_ok_def)
        show "balanced (sim, events) (?sim, events @ [?event])"
          using belt'(4) by (simp add: balanced_def tonics_def outstanding_def none)
      qed (simp_all add: idle(1))
    qed
  qed
qed

lemma attempt_use_overflow:
  assumes "attempt_use index press (sim, events) = Inl e"
    and "tonic_inv sim" "index < 2"
  shows "e = Refused HealingArithmeticOverflow"
    "2 ^ 32 \<le> tonic_total (ts_definition sim) (pv_maximum_health (ts_vitals sim)) (bp_potion_healing_multiplier (ts_belt_policy sim))"
proof -
  let ?total = "tonic_total (ts_definition sim) (pv_maximum_health (ts_vitals sim)) (bp_potion_healing_multiplier (ts_belt_policy sim))"
  show "2 ^ 32 \<le> ?total"
  proof (rule ccontr)
    assume "\<not> 2 ^ 32 \<le> ?total"
    then have "?total < 2 ^ 32"
      by simp
    then obtain sim' events' where "attempt_use index press (sim, events) = Inr (sim', events')"
      by (rule attempt_use_ok [OF assms(2,3)])
    with assms(1) show False by simp
  qed
  then show "e = Refused HealingArithmeticOverflow"
    using assms(1) scheduled_restore_exact [of "ts_definition sim" "pv_maximum_health (ts_vitals sim)"
      "bp_potion_healing_multiplier (ts_belt_policy sim)"]
    by (auto simp: attempt_use_def split: option.splits)
qed

abbreviation healing_of :: "red_tonic_simulation \<Rightarrow> nat" where
  "healing_of sim \<equiv> tonic_total (ts_definition sim) (pv_maximum_health (ts_vitals sim))
     (bp_potion_healing_multiplier (ts_belt_policy sim))"

text \<open>The use cooldowns bought by the uses of the events are what the cooldown has grown by.\<close>

definition cooled :: "nat \<Rightarrow> tonic_work \<Rightarrow> tonic_work \<Rightarrow> bool" where
  "cooled elapsed w w' \<longleftrightarrow>
     (case (w, w') of ((sim, events), (sim', events')) \<Rightarrow>
        unat (shared_cooldown (ts_definition sim)) * uses events' + unat (ts_shared_cooldown_remaining sim)
          \<le> unat (shared_cooldown (ts_definition sim)) * uses events + unat (ts_shared_cooldown_remaining sim') + elapsed)"

lemma attempt_use_post:
  assumes "attempt_use index press (sim, events) = Inr (sim', events')" and inv: "tonic_inv sim" and "index < 2"
  shows "tonic_inv sim'" "balanced (sim, events) (sim', events')" "cooled 0 (sim, events) (sim', events')"
    "ts_last_use_q sim' = ts_last_use_q sim" "ts_last_use_second sim' = ts_last_use_second sim"
proof -
  have "tonic_inv sim' \<and> balanced (sim, events) (sim', events') \<and> cooled 0 (sim, events) (sim', events')
    \<and> ts_last_use_q sim' = ts_last_use_q sim \<and> ts_last_use_second sim' = ts_last_use_second sim"
  proof (cases "healing_of sim < 2 ^ 32")
    case True
    obtain sim'' events'' where "attempt_use index press (sim, events) = Inr (sim'', events'')" "tonic_inv sim''"
      "balanced (sim, events) (sim'', events'')"
      "unat (ts_shared_cooldown_remaining sim'') + unat (shared_cooldown (ts_definition sim)) * uses events
        = unat (ts_shared_cooldown_remaining sim) + unat (shared_cooldown (ts_definition sim)) * uses events''"
      "ts_last_use_q sim'' = ts_last_use_q sim" "ts_last_use_second sim'' = ts_last_use_second sim"
      by (rule attempt_use_ok [OF inv assms(3) True])
    with assms(1) show ?thesis
      by (simp add: cooled_def)
  next
    case False
    with assms(1) obtain reason where "use_rejection index sim = Some reason"
      by (auto simp: attempt_use_def scheduled_restore_exact split: option.splits)
    with assms(1) inv show ?thesis
      by (auto simp: attempt_use_def balanced_def cooled_def)
  qed
  then show "tonic_inv sim'" "balanced (sim, events) (sim', events')" "cooled 0 (sim, events) (sim', events')"
    "ts_last_use_q sim' = ts_last_use_q sim" "ts_last_use_second sim' = ts_last_use_second sim"
    by blast+
qed

lemma cooled_trans: "cooled j u v \<Longrightarrow> cooled k v w \<Longrightarrow> balanced u v \<Longrightarrow> cooled (j + k) u w"
  by (cases u; cases v; cases w) (auto simp: cooled_def balanced_def)

text \<open>The two halves of a step: the clock with the cooldown and the restore, and the presses.\<close>

lemma step_clock:
  assumes "tonic_inv sim"
  obtains sim' events' where "advance_restore (tick_cooldown (sim\<lparr>ts_tick := t\<rparr>, [])) = Inr (sim', events')"
    "tonic_inv sim'" "balanced (sim, []) (sim', events')" "cooled 1 (sim, []) (sim', events')"
    "ts_last_use_q sim' = ts_last_use_q sim" "ts_last_use_second sim' = ts_last_use_second sim"
proof -
  let ?sim = "sim\<lparr>ts_tick := t\<rparr>"
  have start: "tonic_inv ?sim" "balanced (sim, []) (?sim, [])"
    using assms by (simp_all add: tonic_inv_def tonic_static_def restore_ok_def balanced_def tonics_def outstanding_def)
  obtain s1 e1 where one: "tick_cooldown (?sim, []) = (s1, e1)" "tonic_static s1" "restore_ok 1 s1"
    "balanced (?sim, []) (s1, e1)" "uses e1 = uses []"
    "unat (ts_shared_cooldown_remaining s1) = unat (ts_shared_cooldown_remaining ?sim) - 1"
    "ts_last_use_q s1 = ts_last_use_q ?sim" "ts_last_use_second s1 = ts_last_use_second ?sim"
    by (rule tick_cooldown_ok [OF start(1)])
  obtain s2 e2 where two: "advance_restore (s1, e1) = Inr (s2, e2)" "tonic_inv s2" "balanced (s1, e1) (s2, e2)"
    "uses e2 = uses e1" "ts_shared_cooldown_remaining s2 = ts_shared_cooldown_remaining s1"
    "ts_last_use_q s2 = ts_last_use_q s1" "ts_last_use_second s2 = ts_last_use_second s1"
    by (rule advance_restore_ok [OF one(2,3)])
  show thesis
  proof (rule that)
    show "advance_restore (tick_cooldown (sim\<lparr>ts_tick := t\<rparr>, [])) = Inr (s2, e2)"
      by (simp add: one(1) two(1))
    show "balanced (sim, []) (s2, e2)"
      using start(2) one(4) two(3) balanced_trans by blast
    show "cooled 1 (sim, []) (s2, e2)"
      using one(5,6) two(4,5) by (simp add: cooled_def)
  qed (use one two in simp_all)
qed

definition press :: "nat \<Rightarrow> u32 \<Rightarrow> bool \<Rightarrow> tonic_work \<Rightarrow> consumable_failure + tonic_work" where
  "press index sequence fresh w = (if fresh then attempt_use index sequence w else Inr w)"

lemma press_post:
  assumes "press index sequence fresh (sim, events) = Inr (sim', events')" and inv: "tonic_inv sim" and "index < 2"
  shows "tonic_inv sim' \<and> balanced (sim, events) (sim', events') \<and> cooled 0 (sim, events) (sim', events')
    \<and> ts_last_use_q sim' = ts_last_use_q sim \<and> ts_last_use_second sim' = ts_last_use_second sim"
  using assms attempt_use_post [of index sequence sim events sim' events']
  by (cases fresh) (auto simp: press_def cooled_def)

lemma press_error:
  assumes "press index sequence fresh (sim, events) = Inl e" and inv: "tonic_inv sim" and "index < 2"
  shows "e = Refused HealingArithmeticOverflow" "2 ^ 32 \<le> healing_of sim"
  using assms attempt_use_overflow [of index sequence sim events e] by (auto simp: press_def split: if_splits)

lemma set_last_use [simp]:
  "tonic_inv (sim\<lparr>ts_last_use_q := q\<rparr>) = tonic_inv sim" "tonic_inv (sim\<lparr>ts_last_use_second := q\<rparr>) = tonic_inv sim"
  "balanced w (sim\<lparr>ts_last_use_q := q\<rparr>, es) = balanced w (sim, es)"
  "balanced w (sim\<lparr>ts_last_use_second := q\<rparr>, es) = balanced w (sim, es)"
  "cooled k w (sim\<lparr>ts_last_use_q := q\<rparr>, es) = cooled k w (sim, es)"
  "cooled k w (sim\<lparr>ts_last_use_second := q\<rparr>, es) = cooled k w (sim, es)"
  by (cases w; simp add: tonic_inv_def tonic_static_def restore_ok_def balanced_def cooled_def tonics_def outstanding_def)+

definition fresh_action :: "consumable_action \<Rightarrow> red_tonic_simulation \<Rightarrow> bool" where
  "fresh_action action sim \<longleftrightarrow>
     ts_last_use_q sim \<le> use_q_press_sequence action \<and> ts_last_use_second sim \<le> use_second_slot_press_sequence action"

lemma same_last_use:
  "ts_last_use_q sim \<le> q \<Longrightarrow> \<not> ts_last_use_q sim < q \<Longrightarrow> sim\<lparr>ts_last_use_q := q\<rparr> = sim"
  "ts_last_use_second sim \<le> q \<Longrightarrow> \<not> ts_last_use_second sim < q \<Longrightarrow> sim\<lparr>ts_last_use_second := q\<rparr> = sim"
  by simp_all

lemma tonic_step_presses:
  assumes "tonic_inv sim" "fresh_action action sim" "checked_next (ts_tick sim) = Some t"
    and "advance_restore (tick_cooldown (sim\<lparr>ts_tick := t\<rparr>, [])) = Inr (s1, e1)"
    and "ts_last_use_q s1 = ts_last_use_q sim" "ts_last_use_second s1 = ts_last_use_second sim"
  shows "tonic_step_inner action sim =
    and_then (press 0 (use_q_press_sequence action) (ts_last_use_q sim < use_q_press_sequence action)
               (s1\<lparr>ts_last_use_q := use_q_press_sequence action\<rparr>, e1)) (\<lambda>(s2, e2).
      press 1 (use_second_slot_press_sequence action) (ts_last_use_second sim < use_second_slot_press_sequence action)
        (s2\<lparr>ts_last_use_second := use_second_slot_press_sequence action\<rparr>, e2))"
proof -
  let ?q = "use_q_press_sequence action" and ?q2 = "use_second_slot_press_sequence action"
  have valid: "validate_belt (ts_belt sim) = Inr ()"
    using assms(1) by (simp add: validate_belt_Inr tonic_inv_def tonic_static_def)
  have fresh: "\<not> ?q < ts_last_use_q sim" "\<not> ?q2 < ts_last_use_second sim"
    using assms(2) by (auto simp: fresh_action_def not_less)
  obtain s' e' where "advance_restore (tick_cooldown (sim\<lparr>ts_tick := t\<rparr>, [])) = Inr (s', e')" "tonic_inv s'"
    by (rule step_clock [OF assms(1)])
  with assms(4) have inv: "tonic_inv s1"
    by simp
  have "tonic_step_inner action sim =
      and_then (press 0 ?q (ts_last_use_q sim < ?q) (s1\<lparr>ts_last_use_q := ?q\<rparr>, e1)) (\<lambda>(s2, e2).
        if ts_last_use_second s2 < ?q2 then attempt_use 1 ?q2 (s2\<lparr>ts_last_use_second := ?q2\<rparr>, e2) else Inr (s2, e2))"
  proof (cases "ts_last_use_q sim < ?q")
    case True
    with fresh assms(3-5) show ?thesis
      by (simp add: tonic_step_inner_def press_def valid)
  next
    case False
    then have same: "s1\<lparr>ts_last_use_q := ?q\<rparr> = s1"
      using assms(2,5) by (intro same_last_use(1)) (simp_all add: fresh_action_def)
    show ?thesis
      unfolding same using False fresh assms(3-5) by (simp add: tonic_step_inner_def press_def valid)
  qed
  also have "\<dots> = and_then (press 0 ?q (ts_last_use_q sim < ?q) (s1\<lparr>ts_last_use_q := ?q\<rparr>, e1)) (\<lambda>(s2, e2).
        press 1 ?q2 (ts_last_use_second sim < ?q2) (s2\<lparr>ts_last_use_second := ?q2\<rparr>, e2))"
  proof (rule and_then_cong [OF refl], clarify)
    fix s2 e2
    assume "press 0 ?q (ts_last_use_q sim < ?q) (s1\<lparr>ts_last_use_q := ?q\<rparr>, e1) = Inr (s2, e2)"
    then have "ts_last_use_second s2 = ts_last_use_second sim"
      using press_post [of 0 ?q _ "s1\<lparr>ts_last_use_q := ?q\<rparr>" e1 s2 e2] inv assms(6) by simp
    then show "(if ts_last_use_second s2 < ?q2 then attempt_use 1 ?q2 (s2\<lparr>ts_last_use_second := ?q2\<rparr>, e2) else Inr (s2, e2))
        = press 1 ?q2 (ts_last_use_second sim < ?q2) (s2\<lparr>ts_last_use_second := ?q2\<rparr>, e2)"
      using same_last_use(2) [of s2 ?q2, symmetric] assms(2) by (auto simp: press_def fresh_action_def)
  qed
  finally show ?thesis .
qed

text \<open>A step that is not stale and has a next tick runs the clock and the two presses.\<close>

lemma tonic_step_unfold:
  assumes "tonic_inv sim" "fresh_action action sim" "ts_tick sim \<noteq> - 1"
  obtains s1 e1 where "tonic_inv s1" "balanced (sim, []) (s1, e1)" "cooled 1 (sim, []) (s1, e1)"
    "ts_last_use_q s1 = ts_last_use_q sim" "ts_last_use_second s1 = ts_last_use_second sim"
    "tonic_step_inner action sim =
      and_then (press 0 (use_q_press_sequence action) (ts_last_use_q sim < use_q_press_sequence action)
                 (s1\<lparr>ts_last_use_q := use_q_press_sequence action\<rparr>, e1)) (\<lambda>(s2, e2).
        press 1 (use_second_slot_press_sequence action) (ts_last_use_second sim < use_second_slot_press_sequence action)
          (s2\<lparr>ts_last_use_second := use_second_slot_press_sequence action\<rparr>, e2))"
proof -
  have t: "checked_next (ts_tick sim) = Some (ts_tick sim + 1)"
    using assms(3) by (simp add: checked_next_def checked_add_one)
  obtain s1 e1 where clock: "advance_restore (tick_cooldown (sim\<lparr>ts_tick := ts_tick sim + 1\<rparr>, [])) = Inr (s1, e1)"
    "tonic_inv s1" "balanced (sim, []) (s1, e1)" "cooled 1 (sim, []) (s1, e1)"
    "ts_last_use_q s1 = ts_last_use_q sim" "ts_last_use_second s1 = ts_last_use_second sim"
    by (rule step_clock [OF assms(1)])
  from clock(2-6) tonic_step_presses [OF assms(1,2) t clock(1,5,6)] show thesis
    by (rule that)
qed

lemma tonic_step_post:
  assumes "tonic_step_inner action sim = Inr (sim', events)" and inv: "tonic_inv sim"
  shows "tonic_inv sim'" "balanced (sim, []) (sim', events)" "cooled 1 (sim, []) (sim', events)"
    "ts_last_use_q sim' = use_q_press_sequence action" "ts_last_use_second sim' = use_second_slot_press_sequence action"
proof -
  let ?q = "use_q_press_sequence action" and ?q2 = "use_second_slot_press_sequence action"
  have "fresh_action action sim" "ts_tick sim \<noteq> - 1"
    using assms(1) by (auto simp: tonic_step_inner_def fresh_action_def checked_next_def checked_add_one not_less
        split: if_splits)
  then obtain s1 e1 where one: "tonic_inv s1" "balanced (sim, []) (s1, e1)" "cooled 1 (sim, []) (s1, e1)"
    "tonic_step_inner action sim =
      and_then (press 0 ?q (ts_last_use_q sim < ?q) (s1\<lparr>ts_last_use_q := ?q\<rparr>, e1)) (\<lambda>(s2, e2).
        press 1 ?q2 (ts_last_use_second sim < ?q2) (s2\<lparr>ts_last_use_second := ?q2\<rparr>, e2))"
    by (rule tonic_step_unfold [OF inv])
  from assms(1) obtain s2 e2 where two: "press 0 ?q (ts_last_use_q sim < ?q) (s1\<lparr>ts_last_use_q := ?q\<rparr>, e1) = Inr (s2, e2)"
    "press 1 ?q2 (ts_last_use_second sim < ?q2) (s2\<lparr>ts_last_use_second := ?q2\<rparr>, e2) = Inr (sim', events)"
    by (auto simp: one(4))
  have p: "tonic_inv s2" "balanced (s1, e1) (s2, e2)" "cooled 0 (s1, e1) (s2, e2)" "ts_last_use_q s2 = ?q"
    using press_post [OF two(1)] one(1) balanced_trans [of "(s1, e1)" "(s1\<lparr>ts_last_use_q := ?q\<rparr>, e1)"]
      cooled_trans [of 0 "(s1, e1)" "(s1\<lparr>ts_last_use_q := ?q\<rparr>, e1)" 0]
    by (auto simp: cooled_def balanced_def tonics_def outstanding_def)
  have p': "tonic_inv sim'" "balanced (s2, e2) (sim', events)" "cooled 0 (s2, e2) (sim', events)"
    "ts_last_use_q sim' = ts_last_use_q s2" "ts_last_use_second sim' = ?q2"
    using press_post [OF two(2)] p(1) by (auto simp: cooled_def balanced_def tonics_def outstanding_def)
  show "tonic_inv sim'" "ts_last_use_q sim' = ?q" "ts_last_use_second sim' = ?q2"
    using p p' by simp_all
  show "balanced (sim, []) (sim', events)"
    using one(2) p(2) p'(2) balanced_trans by blast
  have "cooled (1 + 0 + 0) (sim, []) (sim', events)"
    using one(2,3) p(2,3) p'(3) by (meson balanced_trans cooled_trans)
  then show "cooled 1 (sim, []) (sim', events)"
    by simp
qed

lemma tonic_step_error:
  assumes "tonic_step_inner action sim = Inl e" and inv: "tonic_inv sim"
  shows "\<not> fresh_action action sim \<and> (\<exists>q l. e = Refused (StaleUseSequence q l))
    \<or> ts_tick sim = - 1 \<and> e = Refused ConsumableTickExhausted
    \<or> 2 ^ 32 \<le> healing_of sim \<and> e = Refused HealingArithmeticOverflow"
proof (cases "fresh_action action sim \<and> ts_tick sim \<noteq> - 1")
  case True
  let ?q = "use_q_press_sequence action" and ?q2 = "use_second_slot_press_sequence action"
  obtain s1 e1 where one: "tonic_inv s1" "balanced (sim, []) (s1, e1)"
    "tonic_step_inner action sim =
      and_then (press 0 ?q (ts_last_use_q sim < ?q) (s1\<lparr>ts_last_use_q := ?q\<rparr>, e1)) (\<lambda>(s2, e2).
        press 1 ?q2 (ts_last_use_second sim < ?q2) (s2\<lparr>ts_last_use_second := ?q2\<rparr>, e2))"
    using True by (blast intro: tonic_step_unfold [OF inv])
  have same: "healing_of s1 = healing_of sim"
    using one(2) by (simp add: balanced_def)
  show ?thesis
  proof (cases "press 0 ?q (ts_last_use_q sim < ?q) (s1\<lparr>ts_last_use_q := ?q\<rparr>, e1)")
    case (Inl e')
    with assms(1) show ?thesis
      using press_error [OF Inl] one(1) same by (simp add: one(3))
  next
    case (Inr w)
    obtain s2 e2 where w: "w = (s2, e2)"
      by (cases w)
    have "tonic_inv s2" "healing_of s2 = healing_of s1"
      using press_post [OF Inr [unfolded w]] one(1) by (auto simp: balanced_def)
    moreover have "press 1 ?q2 (ts_last_use_second sim < ?q2) (s2\<lparr>ts_last_use_second := ?q2\<rparr>, e2) = Inl e"
      using assms(1) by (simp add: one(3) Inr w)
    ultimately show ?thesis
      using press_error [of 1 ?q2 _ "s2\<lparr>ts_last_use_second := ?q2\<rparr>" e2 e] same by simp
  qed
next
  case False
  moreover have "validate_belt (ts_belt sim) = Inr ()"
    using inv by (simp add: validate_belt_Inr tonic_inv_def tonic_static_def)
  ultimately show ?thesis
    using assms(1)
    by (auto simp: tonic_step_inner_def fresh_action_def checked_next_def checked_add_one not_less not_le ok_or_def split: if_splits)
qed

section \<open>Damage and reachable states\<close>

lemma simulation_damage_ok:
  assumes "simulation_apply_damage n sim = (event, sim')" and "tonic_inv sim"
  shows "tonic_inv sim'" "unat (pv_current_health (ts_vitals sim')) + unat (da_applied event) = unat (pv_current_health (ts_vitals sim))"
    "tonics sim' = tonics sim" "outstanding sim' = outstanding sim" "ts_definition sim' = ts_definition sim"
    "ts_shared_cooldown_remaining sim' = ts_shared_cooldown_remaining sim"
    "ts_belt_policy sim' = ts_belt_policy sim" "pv_maximum_health (ts_vitals sim') = pv_maximum_health (ts_vitals sim)"
proof -
  let ?v = "ts_vitals sim"
  let ?applied = "min n (pv_current_health ?v)"
  from assms(1) have s: "event = \<lparr>da_tick = ts_tick sim, da_requested = n, da_applied = ?applied,
      da_health_before = pv_current_health ?v, da_health_after = pv_current_health ?v - ?applied,
      da_restore_continues = (ts_active_restore sim \<noteq> None)\<rparr>"
    "sim' = sim\<lparr>ts_vitals := ?v\<lparr>pv_current_health := pv_current_health ?v - ?applied\<rparr>,
      ts_cumulative_damage_taken := saturating_add (ts_cumulative_damage_taken sim) (ucast ?applied)\<rparr>"
    by (simp_all add: simulation_apply_damage_def vitals_apply_damage_def Let_def)
  have sub: "unat (pv_current_health ?v - ?applied) + unat ?applied = unat (pv_current_health ?v)"
    by (simp add: unat_diff_min unat_min)
  then have "pv_current_health ?v - ?applied \<le> pv_current_health ?v"
    by (simp add: word_le_nat_alt)
  with assms(2) show "tonic_inv sim'"
    by (auto simp: s(2) tonic_inv_def tonic_static_def restore_ok_def)
  show "unat (pv_current_health (ts_vitals sim')) + unat (da_applied event) = unat (pv_current_health (ts_vitals sim))"
    using sub by (simp add: s)
qed (use assms(1) in \<open>auto simp: simulation_apply_damage_def vitals_apply_damage_def Let_def tonics_def outstanding_def\<close>)

definition tonic_initial :: "red_tonic_simulation \<Rightarrow> bool" where
  "tonic_initial sim \<longleftrightarrow>
     (\<exists>d c m v slots belt policy. (d = red_tonic_first_playable \<or> with_undertaker_knot = Inr d \<or> (\<exists>p. new_red_tonic p = Inr d))
        \<and> new_vitals c m = Inr v \<and> length slots = BELT_SLOT_COUNT \<and> belt_from_slots slots = Inr belt
        \<and> with_policy d v belt policy = Inr sim)"

datatype tonic_call = TonicStep consumable_action | TonicDamage u32 | TonicRestart player_vitals

inductive tonic_transition :: "red_tonic_simulation \<Rightarrow> tonic_call \<Rightarrow> red_tonic_simulation \<Rightarrow> bool" where
  transition_step: "tonic_step action sim = (r, sim') \<Longrightarrow> tonic_transition sim (TonicStep action) sim'"
| transition_damage: "simulation_apply_damage n sim = (event, sim') \<Longrightarrow> tonic_transition sim (TonicDamage n) sim'"
| transition_restart: "new_vitals c m = Inr v \<Longrightarrow> restart_first_playable v sim = (r, sim')
    \<Longrightarrow> tonic_transition sim (TonicRestart v) sim'"

lemma new_vitals_Inr: "new_vitals c m = Inr v \<Longrightarrow> pv_current_health v \<le> pv_maximum_health v"
  by (auto simp: new_vitals_def split: if_splits)

lemma fresh_simulation_inv:
  assumes "with_policy d v belt policy = Inr sim" "definition_ok d" "pv_current_health v \<le> pv_maximum_health v"
    "length (tb_slots belt) = 2"
  shows "tonic_inv sim"
  using assms
  by (auto simp: with_policy_def validate_belt_Inr tonic_inv_def tonic_static_def restore_ok_def)

lemma tonic_initial_inv: "tonic_initial sim \<Longrightarrow> tonic_inv sim"
  by (auto simp: tonic_initial_def belt_from_slots_def Let_def BELT_SLOT_COUNT_def
      intro!: fresh_simulation_inv dest: new_vitals_Inr intro: definitions_ok)

lemma tonic_transition_inv:
  assumes "tonic_inv sim" and "tonic_transition sim call sim'"
  shows "tonic_inv sim'"
  using assms(2)
proof (cases rule: tonic_transition.cases)
  case (transition_step action r)
  then show ?thesis
    using assms(1) tonic_step_post(1) by (auto simp: tonic_step_def split: sum.splits)
next
  case (transition_damage n event)
  then show ?thesis
    using assms(1) simulation_damage_ok(1) by blast
next
  case (transition_restart c m v r)
  then show ?thesis
    using assms(1) new_vitals_Inr [OF transition_restart(2)]
    by (auto simp: restart_first_playable_def tonic_simulation_first_playable_def new_tonic_simulation_def
        belt_first_playable_def intro: fresh_simulation_inv definitions_ok(3) split: sum.splits)
qed

interpretation tonic: transition_system tonic_initial tonic_transition tonic_inv
  by unfold_locales (use tonic_initial_inv tonic_transition_inv in blast)+

text \<open>
  C19. The failures of a consumable tick: in every reachable state a step cannot panic, and it fails
  only because a press sequence went backwards, because the tick counter is exhausted, or because the
  maximum health and the policy make one tonic heal \<open>2 ^ 32\<close> or more; then it changes nothing. The errors for a
  broken belt, for a use that passed the checks, and for a regressing schedule are unreachable.
\<close>

theorem tonic_step_failures:
  assumes "reachable tonic_initial tonic_transition sim" and "tonic_step action sim = (Inl e, sim')"
  shows "sim' = sim \<and>
    (\<not> fresh_action action sim \<and> (\<exists>q l. e = Refused (StaleUseSequence q l))
     \<or> ts_tick sim = - 1 \<and> e = Refused ConsumableTickExhausted
     \<or> 2 ^ 32 \<le> healing_of sim \<and> e = Refused HealingArithmeticOverflow)"
proof -
  have "tonic_step_inner action sim = Inl e" "sim' = sim"
    using assms(2) by (auto simp: tonic_step_def split: sum.splits)
  with tonic_step_error [OF this(1) tonic.reachable_inv [OF assms(1)]] show ?thesis
    by blast
qed

section \<open>The accounts of a run\<close>

fun run_tonic :: "tonic_call list \<Rightarrow> red_tonic_simulation \<Rightarrow> nat \<times> consumable_event list \<times> red_tonic_simulation" where
  "run_tonic [] sim = (0, [], sim)"
| "run_tonic (TonicStep action # calls) sim =
     (case tonic_step action sim of
        (Inl e, sim1) \<Rightarrow> run_tonic calls sim1
      | (Inr result, sim1) \<Rightarrow> (let (lost, events, sim') = run_tonic calls sim1 in (lost, cs_events result @ events, sim')))"
| "run_tonic (TonicDamage n # calls) sim =
     (let (event, sim1) = simulation_apply_damage n sim; (lost, events, sim') = run_tonic calls sim1 in
      (unat (da_applied event) + lost, events, sim'))"
| "run_tonic (TonicRestart v # calls) sim = run_tonic calls (snd (restart_first_playable v sim))"

definition is_step :: "tonic_call \<Rightarrow> bool" where
  "is_step call \<longleftrightarrow> (\<exists>action. call = TonicStep action)"

lemma is_step_simps [simp]: "is_step (TonicStep a)" "\<not> is_step (TonicDamage n)"
  by (simp_all add: is_step_def)

lemma run_tonic_accounts:
  assumes "tonic_inv sim" and "run_tonic calls sim = (lost, events, sim')" and "\<forall>v. TonicRestart v \<notin> set calls"
  shows "tonic_inv sim' \<and> ts_definition sim' = ts_definition sim
    \<and> unat (pv_current_health (ts_vitals sim')) + lost = unat (pv_current_health (ts_vitals sim)) + healed events
    \<and> tonics sim' + uses events = tonics sim
    \<and> outstanding sim' + requested events = outstanding sim + scheduled events
    \<and> unat (shared_cooldown (ts_definition sim)) * uses events + unat (ts_shared_cooldown_remaining sim)
        \<le> unat (ts_shared_cooldown_remaining sim') + length (filter is_step calls)"
  using assms
proof (induction calls arbitrary: sim lost events)
  case (Cons call calls)
  have rest: "\<forall>v. TonicRestart v \<notin> set calls"
    using Cons.prems(3) by auto
  show ?case
  proof (cases call)
    case (TonicStep action)
    show ?thesis
    proof (cases "tonic_step_inner action sim")
      case (Inl e)
      with TonicStep Cons.prems have "run_tonic calls sim = (lost, events, sim')"
        by (simp add: tonic_step_def)
      from Cons.IH [OF Cons.prems(1) this rest] TonicStep show ?thesis
        by simp
    next
      case (Inr w)
      obtain sim1 es1 where w: "w = (sim1, es1)"
        by (cases w)
      note post = tonic_step_post [OF Inr [unfolded w] Cons.prems(1)]
      from Inr w TonicStep Cons.prems(2) obtain es2 where run: "run_tonic calls sim1 = (lost, es2, sim')" "events = es1 @ es2"
        by (auto simp: tonic_step_def split: prod.splits)
      have "unat (shared_cooldown (ts_definition sim)) * uses es1 + unat (ts_shared_cooldown_remaining sim)
          \<le> unat (ts_shared_cooldown_remaining sim1) + 1"
        using post(3) by (simp add: cooled_def)
      with post(2) Cons.IH [OF post(1) run(1) rest] TonicStep show ?thesis
        by (auto simp: balanced_def run(2) distrib_left)
    qed
  next
    case (TonicDamage n)
    obtain event sim1 where damage: "simulation_apply_damage n sim = (event, sim1)"
      by fastforce
    with TonicDamage Cons.prems(2) obtain lost1 where run: "run_tonic calls sim1 = (lost1, events, sim')"
      "lost = unat (da_applied event) + lost1"
      by (auto split: prod.splits)
    note ok = simulation_damage_ok [OF damage Cons.prems(1)]
    from ok Cons.IH [OF ok(1) run(1) rest] TonicDamage show ?thesis
      by (simp add: run(2))
  next
    case (TonicRestart v)
    with Cons.prems(3) show ?thesis
      by auto
  qed
qed simp

text \<open>
  C18. The books of a run: over any sequence of damage calls and ticks from a reachable state, the health
  lost to damage and won from tonics accounts for the change of health, every accepted use takes
  exactly one tonic from the belt, and the healing asked for by the restore ticks is exactly the healing scheduled by
  the accepted uses, less what the restore still running has left. Health never exceeds its maximum.
\<close>

theorem tonic_run_accounts:
  assumes "reachable tonic_initial tonic_transition sim" and "run_tonic calls sim = (lost, events, sim')"
    and "\<forall>v. TonicRestart v \<notin> set calls"
  shows "unat (pv_current_health (ts_vitals sim')) + lost = unat (pv_current_health (ts_vitals sim)) + healed events
    \<and> tonics sim' + uses events = tonics sim
    \<and> outstanding sim' + requested events = outstanding sim + scheduled events
    \<and> pv_current_health (ts_vitals sim') \<le> pv_maximum_health (ts_vitals sim')"
  using run_tonic_accounts [OF tonic.reachable_inv [OF assms(1)] assms(2,3)]
  by (auto simp: tonic_inv_def tonic_static_def)

text \<open>
  C20. Tonics are rate limited: however the two belt keys are pressed, \<open>n\<close> ticks contain at most one more
  accepted use than full cooldowns fit into them; and a use is only accepted when no restore is running, so no scheduled healing is cut short.
\<close>

theorem tonic_uses_rate_limited:
  assumes "reachable tonic_initial tonic_transition sim" and "run_tonic calls sim = (lost, events, sim')"
    and "\<forall>v. TonicRestart v \<notin> set calls"
  shows "uses events \<le> 1 + length (filter is_step calls) div unat (shared_cooldown (ts_definition sim))
    \<and> (ts_active_restore sim \<noteq> None \<longrightarrow> ts_shared_cooldown_remaining sim \<noteq> 0)"
proof
  have inv: "tonic_inv sim"
    by (rule tonic.reachable_inv [OF assms(1)])
  let ?S = "unat (shared_cooldown (ts_definition sim))"
  have positive: "12 < ?S"
    using inv by (auto simp: tonic_inv_def tonic_static_def definition_ok_def)
  note run = run_tonic_accounts [OF inv assms(2,3)]
  then have "unat (ts_shared_cooldown_remaining sim') \<le> ?S"
    unfolding tonic_inv_def tonic_static_def by metis
  with run have "?S * uses events \<le> ?S + length (filter is_step calls)"
    by linarith
  then have "uses events \<le> (?S + length (filter is_step calls)) div ?S"
    using positive by (simp add: less_eq_div_iff_mult_less_eq mult.commute)
  then show "uses events \<le> 1 + length (filter is_step calls) div ?S"
    using positive div_add_self1 [of ?S "length (filter is_step calls)"] by simp
  show "ts_active_restore sim \<noteq> None \<longrightarrow> ts_shared_cooldown_remaining sim \<noteq> 0"
    using inv positive by (auto simp: tonic_inv_def restore_ok_def)
qed

section \<open>Merging tonics into the belt\<close>

lemma merge_existing_exact:
  assumes "slot_ok slot"
  shows "\<exists>added slot' remaining'. merge_existing_tonic slot remaining = Some (added, slot', remaining')
    \<and> slot_ok slot' \<and> unat added + unat remaining' = unat remaining
    \<and> unat (tonic_count slot') = unat (tonic_count slot) + unat added
    \<and> (slot = BeltEmpty \<longrightarrow> added = 0) \<and> (slot \<noteq> BeltEmpty \<longrightarrow> remaining' = 0 \<or> tonic_count slot' = RED_TONIC_STACK_CAP)"
proof (cases slot)
  case (RedTonic n)
  with assms have n: "0 < n" "n \<le> 6"
    by (simp_all add: slot_ok_def RED_TONIC_STACK_CAP_def)
  then have cap: "unat (6 - n) = 6 - unat n" "unat n \<le> 6"
    by (simp_all add: unat_sub word_le_nat_alt)
  define a where "a = min remaining (ucast (6 - n))"
  have a: "unat a = min (unat remaining) (6 - unat n)"
    by (simp add: a_def unat_min unat_ucast_widen cap)
  obtain added :: u8 where added: "try_from_word a = Some added" "unat added = unat a"
    using a by (cases "try_from_word a :: u8 option") (auto simp: try_from_word_eq_None try_from_word_eq_Some)
  have sum: "unat (n + added) = unat n + unat added" "unat (remaining - ucast added) = unat remaining - unat added"
    using a cap added(2) by (simp_all add: unat_word_ariths unat_sub word_le_nat_alt unat_ucast_widen)
  have merge: "merge_existing_tonic slot remaining = Some (added, RedTonic (n + added), remaining - ucast added)"
    using n added(1) by (simp add: RedTonic merge_existing_tonic_def RED_TONIC_STACK_CAP_def a_def)
  have "slot_ok (RedTonic (n + added))"
    using sum(1) a cap n(1) added(2) by (auto simp: slot_ok_def RED_TONIC_STACK_CAP_def word_le_nat_alt word_less_nat_alt)
  moreover have "remaining - ucast added = 0 \<or> n + added = 6"
    using sum a cap added(2) by (auto simp: word_unat_eq_iff min_def split: if_splits)
  moreover have "unat added + unat (remaining - ucast added) = unat remaining"
    using sum(2) a added(2) by simp
  ultimately show ?thesis
    using merge sum(1) RedTonic by (auto simp: RED_TONIC_STACK_CAP_def)
qed (use assms in \<open>simp add: merge_existing_tonic_def\<close>)

lemma merge_slot_one_exact:
  assumes "slot_ok slot"
  shows "\<exists>added slot' remaining'. merge_slot_one slot remaining = Some (added, slot', remaining')
    \<and> slot_ok slot' \<and> unat added + unat remaining' = unat remaining
    \<and> unat (tonic_count slot') = unat (tonic_count slot) + unat added
    \<and> (remaining' = 0 \<or> tonic_count slot' = RED_TONIC_STACK_CAP)"
proof (cases slot)
  case BeltEmpty
  define a where "a = min remaining (ucast RED_TONIC_STACK_CAP)"
  have a: "unat a = min (unat remaining) 6"
    by (simp add: a_def unat_min RED_TONIC_STACK_CAP_def)
  obtain added :: u8 where added: "try_from_word a = Some added" "unat added = unat a"
    using a by (cases "try_from_word a :: u8 option") (auto simp: try_from_word_eq_None try_from_word_eq_Some)
  have rest: "unat (remaining - ucast added) = unat remaining - unat added"
    using a added(2) by (simp add: unat_sub word_le_nat_alt unat_ucast_widen)
  have merge: "merge_slot_one slot remaining =
      Some (added, if added > 0 then RedTonic added else BeltEmpty, remaining - ucast added)"
    using added(1) by (auto simp: BeltEmpty merge_slot_one_def a_def word_gt_0)
  have "slot_ok (if added > 0 then RedTonic added else BeltEmpty)"
    using a added(2) by (auto simp: slot_ok_def RED_TONIC_STACK_CAP_def word_le_nat_alt)
  moreover have "remaining - ucast added = 0 \<or> added = 6"
    using a added(2) rest by (auto simp: word_unat_eq_iff min_def split: if_splits)
  moreover have "unat added + unat (remaining - ucast added) = unat remaining"
    using rest a added(2) by simp
  ultimately show ?thesis
    using merge by (auto simp: RED_TONIC_STACK_CAP_def BeltEmpty word_gt_0)
next
  case (RedTonic n)
  then show ?thesis
    using merge_existing_exact [OF assms, of remaining] by (auto simp: merge_slot_one_def)
qed

text \<open>
  Merging tonics into a valid belt loses none: what is added to the two slots and what remains add up to the quantity,
  the belt stays valid, and something remains only when the first slot is full and the second is full
  or empty. The \<open>expect\<close> calls cannot fail.
\<close>

lemma merge_red_tonics_exact:
  assumes "length (tb_slots belt) = BELT_SLOT_COUNT" and "validate_belt belt = Inr ()"
  obtains result belt' where "merge_red_tonics quantity belt = Some (result, belt')"
    "validate_belt belt' = Inr ()" "length (tb_slots belt') = BELT_SLOT_COUNT"
    "unat (mr_slot_one_added result) + unat (mr_slot_two_added result) + unat (mr_remainder result) = unat quantity"
    "sum_list (map (unat \<circ> tonic_count) (tb_slots belt'))
      = sum_list (map (unat \<circ> tonic_count) (tb_slots belt)) + unat (mr_slot_one_added result) + unat (mr_slot_two_added result)"
    "mr_remainder result \<noteq> 0 \<Longrightarrow> tonic_count (tb_slots belt' ! 0) = RED_TONIC_STACK_CAP
      \<and> (tb_slots belt' ! 1 = BeltEmpty \<or> tonic_count (tb_slots belt' ! 1) = RED_TONIC_STACK_CAP)"
proof -
  obtain a b where slots: "tb_slots belt = [a, b]"
    using two_slots [of "tb_slots belt"] assms(1) by (auto simp: BELT_SLOT_COUNT_def)
  have ok: "slot_ok a" "slot_ok b"
    using assms(2) by (simp_all add: validate_belt_Inr slots)
  obtain one a' r1 where one: "merge_slot_one a quantity = Some (one, a', r1)" "slot_ok a'"
    "unat one + unat r1 = unat quantity" "unat (tonic_count a') = unat (tonic_count a) + unat one"
    "r1 = 0 \<or> tonic_count a' = RED_TONIC_STACK_CAP"
    using merge_slot_one_exact [OF ok(1), of quantity] by blast
  obtain two b' r2 where two: "merge_existing_tonic b r1 = Some (two, b', r2)" "slot_ok b'" "unat two + unat r2 = unat r1"
    "unat (tonic_count b') = unat (tonic_count b) + unat two" "b = BeltEmpty \<longrightarrow> two = 0"
    "b \<noteq> BeltEmpty \<longrightarrow> r2 = 0 \<or> tonic_count b' = RED_TONIC_STACK_CAP"
    using merge_existing_exact [OF ok(2), of r1] by blast
  have "b' = BeltEmpty" if "b = BeltEmpty"
    using that two(1) by (simp add: merge_existing_tonic_def)
  moreover have "r1 \<noteq> 0" if "r2 \<noteq> 0"
    using that two(3) by (auto simp: unat_eq_zero)
  moreover have "merge_red_tonics quantity belt = Some
      (\<lparr>mr_requested = quantity, mr_slot_one_added = one, mr_slot_two_added = two, mr_remainder = r2\<rparr>,
       belt\<lparr>tb_slots := [a', b']\<rparr>)"
    by (simp add: merge_red_tonics_def slots one(1) two(1))
  ultimately show thesis
    using one two by (intro that) (auto simp: validate_belt_Inr BELT_SLOT_COUNT_def slots)
qed

section \<open>A concrete run\<close>

definition sample_tonic :: red_tonic_simulation where
  "sample_tonic =
     \<lparr>ts_definition = red_tonic_first_playable, ts_vitals = \<lparr>pv_current_health = 50, pv_maximum_health = 100\<rparr>,
      ts_belt = belt_first_playable, ts_tick = 0, ts_last_use_q = 0, ts_last_use_second = 0, ts_belt_policy = policy_normal,
      ts_shared_cooldown_remaining = 0, ts_active_restore = None, ts_cumulative_damage_taken = 0, ts_accepted_tonic_uses = 0\<rparr>"

abbreviation press_q :: "u32 \<Rightarrow> consumable_action" where
  "press_q n \<equiv> \<lparr>use_q_press_sequence = n, use_second_slot_press_sequence = 0\<rparr>"

lemma sample_tonic_reachable: "reachable tonic_initial tonic_transition sample_tonic"
proof -
  have "new_vitals 50 100 = Inr \<lparr>pv_current_health = 50, pv_maximum_health = 100\<rparr>"
    by (simp add: new_vitals_def)
  moreover have "belt_from_slots [RedTonic 2, BeltEmpty] = Inr belt_first_playable"
    by (simp add: belt_from_slots_def belt_first_playable_def validate_belt_def validate_slot_def RED_TONIC_STACK_CAP_def)
  moreover have "with_policy red_tonic_first_playable \<lparr>pv_current_health = 50, pv_maximum_health = 100\<rparr> belt_first_playable
      policy_normal = Inr sample_tonic"
    by (simp add: with_policy_def belt_first_playable_def validate_belt_def validate_slot_def RED_TONIC_STACK_CAP_def sample_tonic_def)
  ultimately have "tonic_initial sample_tonic"
    unfolding tonic_initial_def BELT_SLOT_COUNT_def by (metis length_Cons list.size(3) numeral_2_eq_2)
  then show ?thesis
    by (rule reachable_initial)
qed

lemmas tonic_sample_defs = sample_tonic_def validate_belt_def validate_slot_def belt_first_playable_def RED_TONIC_STACK_CAP_def
  checked_next_def checked_add_one tick_cooldown_def advance_restore_def attempt_use_def use_rejection_def is_active_def
  BELT_SLOT_COUNT_def policy_normal_def is_full_def scheduled_restore_exact tonic_total_def RED_TONIC_RESTORE_BASIS_POINTS_def TONIC_BASIS_POINTS_PER_ONE_def
  consume_slot_def get_def red_tonic_first_playable_def RED_TONIC_SHARED_COOLDOWN_TICKS_def RED_TONIC_RESTORE_TICKS_def
  saturating_add_def

definition sample_used :: red_tonic_simulation where
  "sample_used = snd (tonic_step (press_q 3) sample_tonic)"

lemma sample_used_eq:
  "sample_used =
     sample_tonic\<lparr>ts_belt := \<lparr>tb_slots = [RedTonic 1, BeltEmpty]\<rparr>, ts_tick := 1, ts_last_use_q := 3,
       ts_shared_cooldown_remaining := 60,
       ts_active_restore := Some \<lparr>ar_source_press_sequence = 3, ar_elapsed_ticks = 0, ar_scheduled_total = 30, ar_scheduled_so_far = 0\<rparr>,
       ts_accepted_tonic_uses := 1\<rparr>"
  by (simp add: sample_used_def tonic_step_def tonic_step_inner_def tonic_sample_defs)

lemma sample_used_reachable: "reachable tonic_initial tonic_transition sample_used"
  using sample_tonic_reachable
  by (rule reachable_step) (auto simp: sample_used_def intro: transition_step surjective_pairing)

theorem tonic_step_failures_witness: "snd (tonic_step (press_q 2) sample_used) = sample_used"
proof -
  have "\<exists>e. fst (tonic_step (press_q 2) sample_used) = Inl e"
    by (simp add: sample_used_eq tonic_step_def tonic_step_inner_def)
  then obtain e where "tonic_step (press_q 2) sample_used = (Inl e, snd (tonic_step (press_q 2) sample_used))"
    by (metis surjective_pairing)
  from tonic_step_failures [OF sample_used_reachable this] show ?thesis
    by blast
qed

definition sample_calls :: "tonic_call list" where
  "sample_calls = [TonicDamage 20, TonicStep (press_q 3), TonicStep (press_q 4)]"

lemma sample_run:
  "fst (run_tonic sample_calls sample_used) = 20 \<and> healed (fst (snd (run_tonic sample_calls sample_used))) = 5"
  by (simp add: sample_calls_def sample_used_eq tonic_step_def tonic_step_inner_def tonic_sample_defs simulation_apply_damage_def
      vitals_apply_damage_def vitals_apply_healing_def cumulative_half_up_exact checked_sub_def Let_def)

lemma sample_run_split:
  "run_tonic sample_calls sample_used
     = (fst (run_tonic sample_calls sample_used), fst (snd (run_tonic sample_calls sample_used)),
        snd (snd (run_tonic sample_calls sample_used)))"
  by simp

lemma sample_no_restart: "\<forall>v. TonicRestart v \<notin> set sample_calls"
  by (simp add: sample_calls_def)

theorem tonic_run_accounts_witness:
  "unat (pv_current_health (ts_vitals (snd (snd (run_tonic sample_calls sample_used))))) = 35"
proof -
  have "pv_current_health (ts_vitals sample_used) = 50"
    by (simp add: sample_used_eq sample_tonic_def)
  with tonic_run_accounts [OF sample_used_reachable sample_run_split sample_no_restart] sample_run show ?thesis
    by simp
qed

theorem tonic_uses_rate_limited_witness: "uses (fst (snd (run_tonic sample_calls sample_used))) \<le> 1"
proof -
  have "shared_cooldown (ts_definition sample_used) = 60"
    by (simp add: sample_used_eq tonic_sample_defs)
  with tonic_uses_rate_limited [OF sample_used_reachable sample_run_split sample_no_restart] show ?thesis
    by (simp add: sample_calls_def)
qed

end
