(* ===== verification/Caldus_Victory.thy ===== *)
theory Caldus_Victory
  imports Boss_Lock_Properties Core_Progression Byte_Encoding
begin

text \<open>
  The victory over Sir Caldus (\<open>sim_core/src/core_caldus_victory.rs\<close>): the stable identities of the encounter, of the exit
  and of every participant's reward and extraction, derived from the committed participant lock of
  \<open>Boss_Lock\<close>, and the personal eligibility, which diagnoses the decision of \<open>Core_Progression\<close>. The hash (\<open>blake3\<close>)
  is a parameter from the bytes fed to the hasher to the digest.
\<close>

section \<open>Identities\<close>

definition CALDUS_BOSS_XP :: u32 where
  "CALDUS_BOSS_XP = 450"

definition CALDUS_FIRST_CLEAR_XP :: u32 where
  "CALDUS_FIRST_CLEAR_XP = 225"

definition CALDUS_MAX_OBJECTIVE_CREDITS :: u8 where
  "CALDUS_MAX_OBJECTIVE_CREDITS = 2"

definition CALDUS_REWARD_ID :: string where
  "CALDUS_REWARD_ID = ''reward.boss_caldus''"

definition CALDUS_EXIT_ID :: string where
  "CALDUS_EXIT_ID = ''portal.exit.dungeon.bell_sepulcher''"

definition ID_BYTES :: nat where
  "ID_BYTES = 16"

definition ENCOUNTER_DOMAIN :: bytes where
  "ENCOUNTER_DOMAIN = as_bytes ''gravebound.caldus.encounter.v1''"

definition REWARD_DOMAIN :: bytes where
  "REWARD_DOMAIN = as_bytes ''gravebound.caldus.personal-reward.v1''"

definition EXIT_DOMAIN :: bytes where
  "EXIT_DOMAIN = as_bytes ''gravebound.caldus.exit-instance.v1''"

definition EXTRACTION_REQUEST_DOMAIN :: bytes where
  "EXTRACTION_REQUEST_DOMAIN = as_bytes ''gravebound.caldus.extraction-request.v1''"

definition EXTRACTION_RECEIPT_DOMAIN :: bytes where
  "EXTRACTION_RECEIPT_DOMAIN = as_bytes ''gravebound.caldus.extraction-receipt.v1''"

datatype core_caldus_stable_id = CaldusStableId (stable_bytes: bytes)

datatype core_caldus_victory_error =
    ZeroLineageId
  | InvalidParticipantLock
  | InvalidParticipantOrder
  | InvalidActiveDuration
  | IncompleteEligibilityEvidence
  | UnstableEligibilityOrder
  | PresenceExceedsDuration
  | TooManyObjectiveCredits
  | CaldusInvalidEligibilityEvidence
  | EligibilityContractDrift
  | FieldTooLong
  | DerivedZeroId
  | VictoryArithmeticOverflow

record core_caldus_personal_reward_identity =
  pri_participant :: core_boss_participant
  pri_request_id :: core_caldus_stable_id

record core_caldus_personal_extraction_identity =
  pei_participant :: core_boss_participant
  pei_request_id :: core_caldus_stable_id
  pei_receipt_id :: core_caldus_stable_id

record core_caldus_victory_identities =
  vi_encounter_id :: core_caldus_stable_id
  vi_exit_instance_id :: core_caldus_stable_id
  vi_personal_rewards :: "core_caldus_personal_reward_identity list"
  vi_personal_extractions :: "core_caldus_personal_extraction_identity list"

definition update_field :: "bytes \<Rightarrow> bytes \<Rightarrow> core_caldus_victory_error + bytes" where
  "update_field field hasher =
     and_then (ok_or (try_from_usize (length field) :: u32 option) FieldTooLong) (\<lambda>n.
       Inr (hasher @ to_le_bytes n @ field))"

definition derive_id ::
  "(bytes \<Rightarrow> bytes) \<Rightarrow> bytes \<Rightarrow> bytes list \<Rightarrow> core_caldus_victory_error + core_caldus_stable_id" where
  "derive_id hash domain parts =
     and_then (update_field domain []) (\<lambda>hasher.
     and_then (try_fold update_field parts hasher) (\<lambda>hasher.
       let id = take ID_BYTES (hash hasher) in
       if id = replicate ID_BYTES 0 then Inl DerivedZeroId else Inr (CaldusStableId id)))"

definition validate_participant_order ::
  "core_boss_participant list \<Rightarrow> core_caldus_victory_error + unit" where
  "validate_participant_order participants =
     (if \<not> windows2_all (\<lambda>a b. participant_key a < participant_key b) participants
         \<or> \<not> distinct (map part_entity_id participants)
      then Inl InvalidParticipantOrder else Inr ())"

definition validate_identity_input ::
  "bytes \<Rightarrow> core_boss_participant_lock \<Rightarrow> core_caldus_victory_error + unit" where
  "validate_identity_input lineage lock =
     (if lineage = replicate ID_BYTES 0 then Inl ZeroLineageId
      else if lock_attempt_ordinal lock = 0 \<or> lock_participants lock = [] \<or> lock_maximum_health lock = 0
      then Inl InvalidParticipantLock
      else validate_participant_order (lock_participants lock))"

text \<open>The fields of each identity, in the order of the code.\<close>

definition encounter_fields :: "bytes \<Rightarrow> bytes \<Rightarrow> bytes list" where
  "encounter_fields lineage attempt = [lineage, attempt, as_bytes ''boss.sir_caldus'']"

definition exit_fields :: "bytes \<Rightarrow> bytes \<Rightarrow> core_caldus_stable_id \<Rightarrow> bytes list" where
  "exit_fields lineage attempt encounter = [lineage, attempt, stable_bytes encounter, as_bytes CALDUS_EXIT_ID]"

definition reward_fields ::
  "bytes \<Rightarrow> bytes \<Rightarrow> core_caldus_stable_id \<Rightarrow> core_boss_participant \<Rightarrow> bytes list" where
  "reward_fields lineage attempt encounter p =
     [lineage, attempt, stable_bytes encounter, [part_party_slot p], to_le_bytes (entity_value (part_entity_id p)),
      as_bytes CALDUS_REWARD_ID]"

definition request_fields ::
  "bytes \<Rightarrow> bytes \<Rightarrow> core_caldus_stable_id \<Rightarrow> core_caldus_stable_id \<Rightarrow> core_boss_participant \<Rightarrow> bytes list" where
  "request_fields lineage attempt encounter exit p =
     [lineage, attempt, stable_bytes encounter, stable_bytes exit, [part_party_slot p],
      to_le_bytes (entity_value (part_entity_id p)), as_bytes CALDUS_EXIT_ID]"

definition receipt_fields ::
  "bytes \<Rightarrow> bytes \<Rightarrow> core_caldus_stable_id \<Rightarrow> core_caldus_stable_id \<Rightarrow> core_caldus_stable_id
     \<Rightarrow> core_boss_participant \<Rightarrow> bytes list" where
  "receipt_fields lineage attempt encounter exit request p =
     [lineage, attempt, stable_bytes encounter, stable_bytes exit, stable_bytes request, [part_party_slot p],
      to_le_bytes (entity_value (part_entity_id p))]"

definition derive_reward ::
  "(bytes \<Rightarrow> bytes) \<Rightarrow> bytes \<Rightarrow> bytes \<Rightarrow> core_caldus_stable_id \<Rightarrow> core_boss_participant
     \<Rightarrow> core_caldus_victory_error + core_caldus_personal_reward_identity" where
  "derive_reward hash lineage attempt encounter p =
     and_then (derive_id hash REWARD_DOMAIN (reward_fields lineage attempt encounter p)) (\<lambda>request.
       Inr \<lparr>pri_participant = p, pri_request_id = request\<rparr>)"

definition derive_extraction ::
  "(bytes \<Rightarrow> bytes) \<Rightarrow> bytes \<Rightarrow> bytes \<Rightarrow> core_caldus_stable_id \<Rightarrow> core_caldus_stable_id \<Rightarrow> core_boss_participant
     \<Rightarrow> core_caldus_victory_error + core_caldus_personal_extraction_identity" where
  "derive_extraction hash lineage attempt encounter exit p =
     and_then (derive_id hash EXTRACTION_REQUEST_DOMAIN (request_fields lineage attempt encounter exit p)) (\<lambda>request.
     and_then (derive_id hash EXTRACTION_RECEIPT_DOMAIN (receipt_fields lineage attempt encounter exit request p)) (\<lambda>receipt.
       Inr \<lparr>pei_participant = p, pei_request_id = request, pei_receipt_id = receipt\<rparr>))"

definition derive_identities ::
  "(bytes \<Rightarrow> bytes) \<Rightarrow> bytes \<Rightarrow> core_boss_participant_lock
     \<Rightarrow> core_caldus_victory_error + core_caldus_victory_identities" where
  "derive_identities hash lineage lock =
     and_then (validate_identity_input lineage lock) (\<lambda>_.
     let attempt = to_le_bytes (lock_attempt_ordinal lock) in
     and_then (derive_id hash ENCOUNTER_DOMAIN (encounter_fields lineage attempt)) (\<lambda>encounter.
     and_then (derive_id hash EXIT_DOMAIN (exit_fields lineage attempt encounter)) (\<lambda>exit.
     and_then (try_map (derive_reward hash lineage attempt encounter) (lock_participants lock)) (\<lambda>rewards.
     and_then (try_map (derive_extraction hash lineage attempt encounter exit) (lock_participants lock)) (\<lambda>extractions.
       Inr \<lparr>vi_encounter_id = encounter, vi_exit_instance_id = exit, vi_personal_rewards = rewards,
            vi_personal_extractions = extractions\<rparr>)))))"

definition reward_for ::
  "core_caldus_victory_identities \<Rightarrow> core_boss_participant \<Rightarrow> core_caldus_stable_id option" where
  "reward_for ids p = map_option pri_request_id (find (\<lambda>r. pri_participant r = p) (vi_personal_rewards ids))"

definition extraction_for ::
  "core_caldus_victory_identities \<Rightarrow> core_boss_participant \<Rightarrow> core_caldus_personal_extraction_identity option" where
  "extraction_for ids p = find (\<lambda>i. pei_participant i = p) (vi_personal_extractions ids)"

section \<open>Eligibility\<close>

datatype core_caldus_defeat_presence = AliveAndPresent | NotAliveOrAbsent
datatype core_caldus_recall_state = Stayed | RecalledBeforeDefeat
datatype core_caldus_session_state = SessionValid | SessionInvalid
datatype core_caldus_anti_cheat_state = AntiCheatValid | AntiCheatInvalid

record core_caldus_eligibility_evidence =
  ce_participant :: core_boss_participant
  ce_presence_ticks :: u32
  ce_direct_damage :: u64
  ce_effective_healing_to_others :: u64
  ce_damage_prevented_on_others :: u64
  ce_objective_credits :: u8
  ce_longest_inactivity_ticks :: u32
  ce_defeat_presence :: core_caldus_defeat_presence
  ce_recall_state :: core_caldus_recall_state
  ce_session_state :: core_caldus_session_state
  ce_anti_cheat_state :: core_caldus_anti_cheat_state

datatype core_caldus_ineligibility_reason =
    ReasonPresence
  | ReasonContribution
  | ReasonInactivity
  | ReasonNotAliveAndPresent
  | ReasonRecalled
  | ReasonInvalidSession
  | ReasonInvalidAntiCheat

record core_caldus_eligibility_decision =
  cd_participant :: core_boss_participant
  cd_contribution_centi_units :: u128
  cd_eligible :: bool
  cd_reasons :: "core_caldus_ineligibility_reason list"

fun validate_evidence ::
  "u32 \<Rightarrow> (core_caldus_eligibility_evidence \<times> core_boss_participant) list \<Rightarrow> core_caldus_victory_error + unit" where
  "validate_evidence active_duration [] = Inr ()"
| "validate_evidence active_duration ((entry, participant) # rest) =
     (if ce_participant entry \<noteq> participant then Inl UnstableEligibilityOrder
      else if ce_presence_ticks entry > active_duration then Inl PresenceExceedsDuration
      else if ce_objective_credits entry > CALDUS_MAX_OBJECTIVE_CREDITS then Inl TooManyObjectiveCredits
      else validate_evidence active_duration rest)"

definition validate_eligibility_input ::
  "core_boss_participant_lock \<Rightarrow> u32 \<Rightarrow> core_caldus_eligibility_evidence list \<Rightarrow> core_caldus_victory_error + unit" where
  "validate_eligibility_input lock active_duration evidence =
     (if active_duration = 0 \<or> lock_maximum_health lock = 0 then Inl InvalidActiveDuration
      else and_then (validate_participant_order (lock_participants lock)) (\<lambda>_.
        if length evidence \<noteq> length (lock_participants lock) then Inl IncompleteEligibilityEvidence
        else validate_evidence active_duration (zip evidence (lock_participants lock))))"

definition shared_evidence ::
  "core_boss_participant_lock \<Rightarrow> u32 \<Rightarrow> core_caldus_eligibility_evidence \<Rightarrow> encounter_xp_evidence" where
  "shared_evidence lock active_duration entry =
     \<lparr>active_ticks = ucast active_duration, present_ticks = ucast (ce_presence_ticks entry),
      longest_inactivity_ticks = ucast (ce_longest_inactivity_ticks entry),
      encounter_contribution_reference_health = ucast (lock_maximum_health lock),
      direct_damage = ce_direct_damage entry, effective_healing_to_others = ce_effective_healing_to_others entry,
      damage_prevented_on_others = ce_damage_prevented_on_others entry,
      qualifying_objective_credits = ce_objective_credits entry,
      life_state = (case ce_defeat_presence entry of
         AliveAndPresent \<Rightarrow> Core_Progression.Living | NotAliveOrAbsent \<Rightarrow> Core_Progression.Dead),
      recall_state = (case ce_recall_state entry of
         Stayed \<Rightarrow> Eligible | RecalledBeforeDefeat \<Rightarrow> EmergencyRecallCompleted),
      trust_state = (if ce_session_state entry = SessionValid \<and> ce_anti_cheat_state entry = AntiCheatValid then Valid
         else if ce_session_state entry = SessionInvalid then InvalidSession else AntiCheatRejected)\<rparr>"

definition decide_eligibility ::
  "core_boss_participant_lock \<Rightarrow> u32 \<Rightarrow> core_caldus_eligibility_evidence
     \<Rightarrow> core_caldus_victory_error + core_caldus_eligibility_decision" where
  "decide_eligibility lock active_duration entry =
     and_then (map_err (\<lambda>_. CaldusInvalidEligibilityEvidence)
        (evaluate_encounter_xp_eligibility (shared_evidence lock active_duration entry))) (\<lambda>shared.
     let contribution = contribution_centi_units shared;
         presence = (if (ucast active_duration :: u64) \<ge> SOC_SHORT_ENCOUNTER_TICKS
                        \<and> (ucast (ce_presence_ticks entry) :: u64) * 2 < ucast active_duration
                     then [ReasonPresence] else []) in
     and_then (ok_or (checked_mul contribution 2) VictoryArithmeticOverflow) (\<lambda>doubled.
     let reasons = presence
           @ (if doubled < ucast (lock_maximum_health lock) then [ReasonContribution] else [])
           @ (if (ucast (ce_longest_inactivity_ticks entry) :: u64) > SOC_INACTIVITY_LIMIT_TICKS
              then [ReasonInactivity] else [])
           @ (if ce_defeat_presence entry \<noteq> AliveAndPresent then [ReasonNotAliveAndPresent] else [])
           @ (if ce_recall_state entry = RecalledBeforeDefeat then [ReasonRecalled] else [])
           @ (if ce_session_state entry \<noteq> SessionValid then [ReasonInvalidSession] else [])
           @ (if ce_anti_cheat_state entry \<noteq> AntiCheatValid then [ReasonInvalidAntiCheat] else []) in
     if eligible shared \<noteq> (reasons = []) then Inl EligibilityContractDrift
     else Inr \<lparr>cd_participant = ce_participant entry, cd_contribution_centi_units = contribution,
               cd_eligible = (reasons = []), cd_reasons = reasons\<rparr>))"

definition evaluate_caldus_eligibility ::
  "core_boss_participant_lock \<Rightarrow> u32 \<Rightarrow> core_caldus_eligibility_evidence list
     \<Rightarrow> core_caldus_victory_error + core_caldus_eligibility_decision list" where
  "evaluate_caldus_eligibility lock active_duration evidence =
     and_then (validate_eligibility_input lock active_duration evidence) (\<lambda>_.
       try_map (decide_eligibility lock active_duration) evidence)"

end
