(* ===== verification/Caldus_Victory_Properties.thy ===== *)
theory Caldus_Victory_Properties
  imports Caldus_Victory
begin

text \<open>
  What a victory over Sir Caldus guarantees: the eligibility agrees with the design rule and with the shared decision,
  an identity binds its kind, participant, attempt and instance, and a committed lock yields all identities.
\<close>

section \<open>Eligibility\<close>

text \<open>The rule of the design in unbounded arithmetic: contribution in hundredths, and the reasons against a participant.\<close>

definition caldus_contribution :: "core_boss_participant_lock \<Rightarrow> core_caldus_eligibility_evidence \<Rightarrow> nat" where
  "caldus_contribution lock e =
     100 * unat (ce_direct_damage e) + 80 * unat (ce_effective_healing_to_others e)
     + 60 * unat (ce_damage_prevented_on_others e) + 2 * unat (ce_objective_credits e) * unat (lock_maximum_health lock)"

definition caldus_reasons ::
  "core_boss_participant_lock \<Rightarrow> u32 \<Rightarrow> core_caldus_eligibility_evidence \<Rightarrow> core_caldus_ineligibility_reason list" where
  "caldus_reasons lock duration e = map snd (filter fst
     [(600 \<le> unat duration \<and> 2 * unat (ce_presence_ticks e) < unat duration, ReasonPresence),
      (2 * caldus_contribution lock e < unat (lock_maximum_health lock), ReasonContribution),
      (600 < unat (ce_longest_inactivity_ticks e), ReasonInactivity),
      (ce_defeat_presence e = NotAliveOrAbsent, ReasonNotAliveAndPresent),
      (ce_recall_state e = RecalledBeforeDefeat, ReasonRecalled),
      (ce_session_state e = SessionInvalid, ReasonInvalidSession),
      (ce_anti_cheat_state e = AntiCheatInvalid, ReasonInvalidAntiCheat)])"

definition caldus_decision ::
  "core_boss_participant_lock \<Rightarrow> u32 \<Rightarrow> core_caldus_eligibility_evidence \<Rightarrow> core_caldus_eligibility_decision" where
  "caldus_decision lock duration e =
     \<lparr>cd_participant = ce_participant e, cd_contribution_centi_units = of_nat (caldus_contribution lock e),
      cd_eligible = (caldus_reasons lock duration e = []), cd_reasons = caldus_reasons lock duration e\<rparr>"

lemma caldus_contribution_bound:
  assumes "unat (ce_objective_credits e) \<le> 2"
  shows "caldus_contribution lock e < 2 ^ 120"
proof -
  have "unat (ce_direct_damage e) < 18446744073709551616" "unat (ce_effective_healing_to_others e) < 18446744073709551616"
    "unat (ce_damage_prevented_on_others e) < 18446744073709551616" "unat (lock_maximum_health lock) < 4294967296"
    using unat_bound [of "ce_direct_damage e"] unat_bound [of "ce_effective_healing_to_others e"]
      unat_bound [of "ce_damage_prevented_on_others e"] unat_bound [of "lock_maximum_health lock"] by simp_all
  moreover have "unat (ce_objective_credits e) * unat (lock_maximum_health lock) \<le> 2 * unat (lock_maximum_health lock)"
    using assms by (rule mult_le_mono1)
  ultimately have "caldus_contribution lock e < 240 * 18446744073709551616 + 4 * 4294967296"
    unfolding caldus_contribution_def mult.assoc by linarith
  then show ?thesis
    by simp
qed

lemma shared_contribution:
  assumes "unat (ce_objective_credits e) \<le> 2"
  shows "ucast (direct_damage (shared_evidence lock d e)) * 100 + ucast (effective_healing_to_others (shared_evidence lock d e)) * 80
      + ucast (damage_prevented_on_others (shared_evidence lock d e)) * 60
      + ucast (qualifying_objective_credits (shared_evidence lock d e)) * 2
        * ucast (encounter_contribution_reference_health (shared_evidence lock d e))
    = (of_nat (caldus_contribution lock e) :: u128)"
proof -
  have "(ucast w :: u128) = of_nat (unat w)" for w :: "'a::len word"
    by simp
  moreover have "(ucast (ucast h :: u64) :: u128) = ucast (h :: u32)" for h
    by (rule word_unat_eq_iff [THEN iffD2]) (simp add: unat_ucast_widen)
  ultimately show ?thesis
    by (simp add: shared_evidence_def caldus_contribution_def mult_ac)
qed


lemma validate_evidence_Inr:
  "validate_evidence d pairs = Inr u \<longleftrightarrow> (\<forall>(e, p) \<in> set pairs. ce_participant e = p \<and> ce_presence_ticks e \<le> d
     \<and> ce_objective_credits e \<le> CALDUS_MAX_OBJECTIVE_CREDITS)"
  by (induction d pairs rule: validate_evidence.induct) (auto simp: not_less)

lemma validate_eligibility_Inr:
  assumes "validate_eligibility_input lock d evidence = Inr u" and "e \<in> set evidence"
  shows "d \<noteq> 0" "lock_maximum_health lock \<noteq> 0" "ce_presence_ticks e \<le> d" "unat (ce_objective_credits e) \<le> 2"
proof -
  show "d \<noteq> 0" "lock_maximum_health lock \<noteq> 0"
    using assms(1) by (auto simp: validate_eligibility_input_def split: if_splits)
  have "length evidence = length (lock_participants lock)"
    "validate_evidence d (zip evidence (lock_participants lock)) = Inr u"
    using assms(1) by (auto simp: validate_eligibility_input_def split: if_splits)
  moreover obtain i where "i < length evidence" "e = evidence ! i"
    using assms(2) by (auto simp: in_set_conv_nth)
  ultimately have "(e, lock_participants lock ! i) \<in> set (zip evidence (lock_participants lock))"
    by (auto simp: in_set_zip)
  with \<open>validate_evidence d _ = Inr u\<close> show "ce_presence_ticks e \<le> d" "unat (ce_objective_credits e) \<le> 2"
    by (auto simp: validate_evidence_Inr CALDUS_MAX_OBJECTIVE_CREDITS_def word_le_nat_alt)
qed

lemma decide_eligibility_exact:
  assumes "d \<noteq> 0" "lock_maximum_health lock \<noteq> 0" "ce_presence_ticks e \<le> d" "unat (ce_objective_credits e) \<le> 2"
  shows "decide_eligibility lock d e = Inr (caldus_decision lock d e)"
proof -
  let ?s = "shared_evidence lock d e"
  let ?c = "of_nat (caldus_contribution lock e) :: u128"
  have c: "unat ?c = caldus_contribution lock e"
    by (rule unat_of_nat_bounded) (rule order.strict_trans [OF caldus_contribution_bound [OF assms(4)]], simp)
  obtain doubled where doubled: "checked_mul ?c 2 = Some doubled" "unat doubled = 2 * caldus_contribution lock e"
    using caldus_contribution_bound [OF assms(4), of lock] c
    by (cases "checked_mul ?c 2") (auto simp: checked_mul_eq_None checked_mul_eq_Some)
  have double: "?c * 2 = doubled"
    using doubled(2) c caldus_contribution_bound [OF assms(4), of lock]
    by (intro word_unat_eq_iff [THEN iffD2]) (simp add: unat_word_ariths)
  have zero: "active_ticks ?s \<noteq> 0" "encounter_contribution_reference_health ?s \<noteq> 0"
    using assms(1,2) by (auto simp: shared_evidence_def word_unat_eq_iff unat_ucast_widen)
  have bounds: "\<not> present_ticks ?s > active_ticks ?s" "\<not> qualifying_objective_credits ?s > 2"
    using assms(3,4) by (simp_all add: shared_evidence_def word_less_nat_alt word_le_nat_alt unat_ucast_widen not_less)
  have presence: "(active_ticks ?s < SOC_SHORT_ENCOUNTER_TICKS \<or> (ucast (present_ticks ?s) * 2 :: u128) \<ge> ucast (active_ticks ?s))
      \<longleftrightarrow> \<not> (600 \<le> unat d \<and> 2 * unat (ce_presence_ticks e) < unat d)"
    "(ucast d :: u64) \<ge> SOC_SHORT_ENCOUNTER_TICKS \<and> (ucast (ce_presence_ticks e) :: u64) * 2 < ucast d
      \<longleftrightarrow> 600 \<le> unat d \<and> 2 * unat (ce_presence_ticks e) < unat d"
  proof -
    have "unat (ce_presence_ticks e) < 4294967296"
      using unat_bound [of "ce_presence_ticks e"] by simp
    then have "unat ((ucast (ucast (ce_presence_ticks e) :: u64) :: u128) * 2) = 2 * unat (ce_presence_ticks e)"
      "unat ((ucast (ce_presence_ticks e) :: u64) * 2) = 2 * unat (ce_presence_ticks e)"
      by (simp_all add: unat_word_ariths unat_ucast_widen)
    then show "(active_ticks ?s < SOC_SHORT_ENCOUNTER_TICKS \<or> (ucast (present_ticks ?s) * 2 :: u128) \<ge> ucast (active_ticks ?s))
        \<longleftrightarrow> \<not> (600 \<le> unat d \<and> 2 * unat (ce_presence_ticks e) < unat d)"
      "(ucast d :: u64) \<ge> SOC_SHORT_ENCOUNTER_TICKS \<and> (ucast (ce_presence_ticks e) :: u64) * 2 < ucast d
        \<longleftrightarrow> 600 \<le> unat d \<and> 2 * unat (ce_presence_ticks e) < unat d"
      by (auto simp: shared_evidence_def SOC_SHORT_ENCOUNTER_TICKS_def word_less_nat_alt word_le_nat_alt unat_ucast_widen)
  qed
  have inactive: "longest_inactivity_ticks ?s \<le> SOC_INACTIVITY_LIMIT_TICKS \<longleftrightarrow> \<not> 600 < unat (ce_longest_inactivity_ticks e)"
    "(ucast (ce_longest_inactivity_ticks e) :: u64) > SOC_INACTIVITY_LIMIT_TICKS \<longleftrightarrow> 600 < unat (ce_longest_inactivity_ticks e)"
    by (auto simp: shared_evidence_def SOC_INACTIVITY_LIMIT_TICKS_def word_less_nat_alt word_le_nat_alt unat_ucast_widen)
  have contributed: "doubled \<ge> ucast (encounter_contribution_reference_health ?s)
      \<longleftrightarrow> \<not> 2 * caldus_contribution lock e < unat (lock_maximum_health lock)"
    "doubled < ucast (lock_maximum_health lock) \<longleftrightarrow> 2 * caldus_contribution lock e < unat (lock_maximum_health lock)"
    by (auto simp: shared_evidence_def word_less_nat_alt word_le_nat_alt unat_ucast_widen doubled(2))
  have shared: "evaluate_encounter_xp_eligibility ?s = Inr \<lparr>eligible = (caldus_reasons lock d e = []), contribution_centi_units = ?c\<rparr>"
    unfolding evaluate_encounter_xp_eligibility_def Let_def shared_contribution [OF assms(4)] double presence(1) inactive(1) contributed(1)
    using zero bounds
    by (cases "ce_session_state e"; cases "ce_anti_cheat_state e") (auto simp: caldus_reasons_def shared_evidence_def split: core_caldus_defeat_presence.splits core_caldus_recall_state.splits)
  show ?thesis
    unfolding decide_eligibility_def shared map_err_simps and_then.simps Let_def xp_eligibility.simps doubled(1) ok_or_Some
      presence(2) inactive(2) contributed(2)
    by (cases "ce_session_state e"; cases "ce_anti_cheat_state e"; cases "ce_defeat_presence e")
      (auto simp: caldus_decision_def caldus_reasons_def)
qed

text \<open>
  C22. The personal eligibility is exact: the evaluation fails only when the evidence is rejected by the validation, and
  otherwise decides for every participant by the rule in unbounded arithmetic: half of the duration
  present unless the fight was short, at least half a percent of the boss health contributed, no inactivity
  beyond 600 ticks, alive, not recalled, session and anti-cheat valid. The reasons are complete, so the drift
  between them and the shared decision of \<open>progression.rs\<close>, the overflow and the shared rejection are unreachable.
\<close>

theorem caldus_eligibility_exact:
  "evaluate_caldus_eligibility lock duration evidence =
     and_then (validate_eligibility_input lock duration evidence) (\<lambda>_. Inr (map (caldus_decision lock duration) evidence))"
proof (cases "validate_eligibility_input lock duration evidence")
  case (Inr u)
  then have "decide_eligibility lock duration e = Inr (caldus_decision lock duration e)" if "e \<in> set evidence" for e
    using that by (intro decide_eligibility_exact) (auto dest: validate_eligibility_Inr)
  then show ?thesis
    by (simp add: evaluate_caldus_eligibility_def Inr try_map_all)
qed (simp add: evaluate_caldus_eligibility_def)

lemma first_clear_is_half: "CALDUS_FIRST_CLEAR_XP = first_clear_bonus CALDUS_BOSS_XP"
  by (simp add: CALDUS_FIRST_CLEAR_XP_def CALDUS_BOSS_XP_def first_clear_bonus_def div_ceil_def)

section \<open>Identities\<close>

definition id_of :: "(bytes \<Rightarrow> bytes) \<Rightarrow> bytes \<Rightarrow> bytes list \<Rightarrow> core_caldus_stable_id" where
  "id_of hash domain parts = CaldusStableId (take ID_BYTES (hash (frames (domain # parts))))"

lemma update_field_fits: "fits_u32 field \<Longrightarrow> update_field field hasher = Inr (hasher @ framed field)"
  by (simp add: update_field_def framed_def fits_u32_def try_from_usize_def)

lemma update_fields_fit:
  "list_all fits_u32 parts \<Longrightarrow> try_fold update_field parts hasher = Inr (hasher @ frames parts)"
  by (induction parts arbitrary: hasher) (simp_all add: update_field_fits)

lemma derive_id_fits:
  assumes "list_all fits_u32 (domain # parts)"
  shows "derive_id hash domain parts =
    (if id_of hash domain parts = CaldusStableId (replicate ID_BYTES 0) then Inl DerivedZeroId else Inr (id_of hash domain parts))"
  using assms by (simp add: derive_id_def update_field_fits update_fields_fit id_of_def Let_def)

datatype identity_kind =
    EncounterIdentity
  | ExitIdentity
  | RewardIdentity core_boss_participant
  | RequestIdentity core_boss_participant
  | ReceiptIdentity core_boss_participant

text \<open>The domain and the fields of an identity, given the identities it is derived from.\<close>

fun identity_parts ::
  "identity_kind \<Rightarrow> bytes \<Rightarrow> u32 \<Rightarrow> core_caldus_stable_id \<Rightarrow> core_caldus_stable_id \<Rightarrow> core_caldus_stable_id \<Rightarrow> bytes list" where
  "identity_parts EncounterIdentity lineage ordinal encounter exit request =
     ENCOUNTER_DOMAIN # encounter_fields lineage (to_le_bytes ordinal)"
| "identity_parts ExitIdentity lineage ordinal encounter exit request =
     EXIT_DOMAIN # exit_fields lineage (to_le_bytes ordinal) encounter"
| "identity_parts (RewardIdentity p) lineage ordinal encounter exit request =
     REWARD_DOMAIN # reward_fields lineage (to_le_bytes ordinal) encounter p"
| "identity_parts (RequestIdentity p) lineage ordinal encounter exit request =
     EXTRACTION_REQUEST_DOMAIN # request_fields lineage (to_le_bytes ordinal) encounter exit p"
| "identity_parts (ReceiptIdentity p) lineage ordinal encounter exit request =
     EXTRACTION_RECEIPT_DOMAIN # receipt_fields lineage (to_le_bytes ordinal) encounter exit request p"

lemma domains_distinct:
  "distinct [ENCOUNTER_DOMAIN, EXIT_DOMAIN, REWARD_DOMAIN, EXTRACTION_REQUEST_DOMAIN, EXTRACTION_RECEIPT_DOMAIN]"
  by (simp add: ENCOUNTER_DOMAIN_def EXIT_DOMAIN_def REWARD_DOMAIN_def EXTRACTION_REQUEST_DOMAIN_def
      EXTRACTION_RECEIPT_DOMAIN_def)

lemma identity_parts_inject:
  assumes "identity_parts k lineage ordinal encounter exit request = identity_parts k' lineage' ordinal' encounter' exit' request'"
  shows "k = k' \<and> lineage = lineage' \<and> ordinal = ordinal'"
  using assms domains_distinct
  by (cases k; cases k')
    (auto simp: encounter_fields_def exit_fields_def reward_fields_def request_fields_def receipt_fields_def
      intro!: core_boss_participant.equality entity_id.expand)

definition identity_id ::
  "(bytes \<Rightarrow> bytes) \<Rightarrow> identity_kind \<Rightarrow> bytes \<Rightarrow> u32 \<Rightarrow> core_caldus_stable_id \<Rightarrow> core_caldus_stable_id
     \<Rightarrow> core_caldus_stable_id \<Rightarrow> core_caldus_stable_id" where
  "identity_id hash k lineage ordinal encounter exit request =
     CaldusStableId (take ID_BYTES (hash (frames (identity_parts k lineage ordinal encounter exit request))))"

definition id_fits :: "core_caldus_stable_id \<Rightarrow> bool" where
  "id_fits i \<longleftrightarrow> length (stable_bytes i) \<le> ID_BYTES"

lemma identity_id_fits [simp]: "id_fits (identity_id hash k lineage ordinal encounter exit request)"
  by (simp add: id_fits_def identity_id_def)

lemma identity_parts_fit:
  assumes "length lineage = ID_BYTES" "id_fits encounter" "id_fits exit" "id_fits request"
  shows "list_all fits_u32 (identity_parts k lineage ordinal encounter exit request)"
  using assms
  by (cases k) (simp_all add: encounter_fields_def exit_fields_def reward_fields_def request_fields_def receipt_fields_def
      ENCOUNTER_DOMAIN_def EXIT_DOMAIN_def REWARD_DOMAIN_def EXTRACTION_REQUEST_DOMAIN_def EXTRACTION_RECEIPT_DOMAIN_def
      CALDUS_EXIT_ID_def CALDUS_REWARD_ID_def fits_u32_def id_fits_def ID_BYTES_def)

text \<open>
  What a victory identity binds: when the hash of two identities is fed the same bytes, they are the
  same kind of identity (encounter, exit, reward, extraction request or receipt), for the same participant (slot and
  entity), attempt and instance lineage. So identities of different participants, attempts, instances or purposes can
  only coincide when the hash collides. (Lineages and derived identities are 16 byte arrays.)
\<close>

lemma caldus_identity_binds:
  assumes "length lineage = ID_BYTES" and "length lineage' = ID_BYTES"
    and "id_fits encounter \<and> id_fits exit \<and> id_fits request" and "id_fits encounter' \<and> id_fits exit' \<and> id_fits request'"
    and "frames (identity_parts k lineage ordinal encounter exit request)
       = frames (identity_parts k' lineage' ordinal' encounter' exit' request')"
  shows "k = k' \<and> lineage = lineage' \<and> ordinal = ordinal'"
proof -
  have "identity_parts k lineage ordinal encounter exit request = identity_parts k' lineage' ordinal' encounter' exit' request'"
    by (rule frames_inject [THEN iffD1, OF _ _ assms(5)]) (use assms(1-4) in \<open>simp_all add: identity_parts_fit\<close>)
  then show ?thesis
    by (rule identity_parts_inject)
qed

lemma derive_identity:
  assumes "length lineage = ID_BYTES" "id_fits encounter" "id_fits exit" "id_fits request"
    and "identity_parts k lineage ordinal encounter exit request = domain # parts"
  shows "derive_id hash domain parts =
    (if identity_id hash k lineage ordinal encounter exit request = CaldusStableId (replicate ID_BYTES 0)
     then Inl DerivedZeroId else Inr (identity_id hash k lineage ordinal encounter exit request))"
proof -
  have "list_all fits_u32 (domain # parts)"
    using identity_parts_fit [OF assms(1-4), of k ordinal] unfolding assms(5) .
  from derive_id_fits [OF this, of hash] show ?thesis
    unfolding identity_id_def assms(5) id_of_def .
qed

definition reward_of ::
  "(bytes \<Rightarrow> bytes) \<Rightarrow> bytes \<Rightarrow> u32 \<Rightarrow> core_caldus_stable_id \<Rightarrow> core_boss_participant \<Rightarrow> core_caldus_personal_reward_identity" where
  "reward_of hash lineage ordinal encounter p =
     \<lparr>pri_participant = p, pri_request_id = identity_id hash (RewardIdentity p) lineage ordinal encounter encounter encounter\<rparr>"

definition extraction_of ::
  "(bytes \<Rightarrow> bytes) \<Rightarrow> bytes \<Rightarrow> u32 \<Rightarrow> core_caldus_stable_id \<Rightarrow> core_caldus_stable_id \<Rightarrow> core_boss_participant
     \<Rightarrow> core_caldus_personal_extraction_identity" where
  "extraction_of hash lineage ordinal encounter exit p =
     (let request = identity_id hash (RequestIdentity p) lineage ordinal encounter exit exit in
      \<lparr>pei_participant = p, pei_request_id = request,
       pei_receipt_id = identity_id hash (ReceiptIdentity p) lineage ordinal encounter exit request\<rparr>)"

abbreviation zero_id :: core_caldus_stable_id where
  "zero_id \<equiv> CaldusStableId (replicate ID_BYTES 0)"

lemma derive_reward_exact:
  assumes "length lineage = ID_BYTES" "id_fits encounter"
  shows "derive_reward hash lineage (to_le_bytes ordinal) encounter p =
    (if pri_request_id (reward_of hash lineage ordinal encounter p) = zero_id then Inl DerivedZeroId
     else Inr (reward_of hash lineage ordinal encounter p))"
  using derive_identity [OF assms assms(2) assms(2), of "RewardIdentity p" ordinal]
  by (simp add: derive_reward_def reward_of_def)

lemma derive_extraction_exact:
  assumes "length lineage = ID_BYTES" "id_fits encounter" "id_fits exit"
  shows "derive_extraction hash lineage (to_le_bytes ordinal) encounter exit p =
    (if pei_request_id (extraction_of hash lineage ordinal encounter exit p) = zero_id
        \<or> pei_receipt_id (extraction_of hash lineage ordinal encounter exit p) = zero_id then Inl DerivedZeroId
     else Inr (extraction_of hash lineage ordinal encounter exit p))"
  using derive_identity [OF assms assms(3), of "RequestIdentity p" ordinal]
    derive_identity [OF assms identity_id_fits, of "ReceiptIdentity p" ordinal]
  by (simp add: derive_extraction_def extraction_of_def Let_def)

text \<open>
  The identities of a victory as the truncated hashes of their parts, and the list of all of them. (The encounter depends on no
  other identity, the exit only on the encounter, so the remaining arguments do not matter.)
\<close>

definition victory_of ::
  "(bytes \<Rightarrow> bytes) \<Rightarrow> bytes \<Rightarrow> core_boss_participant_lock \<Rightarrow> core_caldus_victory_identities" where
  "victory_of hash lineage lock =
     (let ordinal = lock_attempt_ordinal lock;
          encounter = identity_id hash EncounterIdentity lineage ordinal zero_id zero_id zero_id;
          exit = identity_id hash ExitIdentity lineage ordinal encounter zero_id zero_id in
      \<lparr>vi_encounter_id = encounter, vi_exit_instance_id = exit,
       vi_personal_rewards = map (reward_of hash lineage ordinal encounter) (lock_participants lock),
       vi_personal_extractions = map (extraction_of hash lineage ordinal encounter exit) (lock_participants lock)\<rparr>)"

definition identities_in :: "core_caldus_victory_identities \<Rightarrow> core_caldus_stable_id list" where
  "identities_in ids =
     vi_encounter_id ids # vi_exit_instance_id ids # map pri_request_id (vi_personal_rewards ids)
       @ map pei_request_id (vi_personal_extractions ids) @ map pei_receipt_id (vi_personal_extractions ids)"

lemma derive_identities_exact:
  assumes "length lineage = ID_BYTES" "validate_identity_input lineage lock = Inr ()"
  shows "derive_identities hash lineage lock =
    (if zero_id \<in> set (identities_in (victory_of hash lineage lock)) then Inl DerivedZeroId
     else Inr (victory_of hash lineage lock))"
proof -
  let ?n = "lock_attempt_ordinal lock" and ?ps = "lock_participants lock"
  let ?ids = "victory_of hash lineage lock"
  define encounter where "encounter = vi_encounter_id ?ids"
  define exit where "exit = vi_exit_instance_id ?ids"
  have fits: "id_fits encounter" "id_fits exit" and zero: "id_fits zero_id"
    by (simp_all add: encounter_def exit_def victory_of_def Let_def) (simp add: id_fits_def)
  have ids: "identity_id hash EncounterIdentity lineage ?n zero_id zero_id zero_id = encounter"
    "identity_id hash ExitIdentity lineage ?n encounter zero_id zero_id = exit"
    by (simp_all add: encounter_def exit_def victory_of_def Let_def)
  have first: "derive_id hash ENCOUNTER_DOMAIN (encounter_fields lineage (to_le_bytes ?n))
      = (if encounter = zero_id then Inl DerivedZeroId else Inr encounter)"
    "derive_id hash EXIT_DOMAIN (exit_fields lineage (to_le_bytes ?n) encounter)
      = (if exit = zero_id then Inl DerivedZeroId else Inr exit)"
    using derive_identity [OF assms(1) zero zero zero, of EncounterIdentity ?n _ _ hash]
      derive_identity [OF assms(1) fits(1) zero zero, of ExitIdentity ?n _ _ hash]
    by (simp_all add: ids)
  note lists =
    try_map_if [of ?ps "derive_reward hash lineage (to_le_bytes ?n) encounter", OF derive_reward_exact [OF assms(1) fits(1)]]
    try_map_if [of ?ps "derive_extraction hash lineage (to_le_bytes ?n) encounter exit", OF derive_extraction_exact [OF assms(1) fits]]
  have ids_eq: "?ids = \<lparr>vi_encounter_id = encounter, vi_exit_instance_id = exit,
      vi_personal_rewards = map (reward_of hash lineage ?n encounter) ?ps,
      vi_personal_extractions = map (extraction_of hash lineage ?n encounter exit) ?ps\<rparr>"
    by (simp add: victory_of_def Let_def ids)
  have "zero_id \<in> set (identities_in ?ids) \<longleftrightarrow> encounter = zero_id \<or> exit = zero_id
      \<or> (\<exists>p \<in> set ?ps. pri_request_id (reward_of hash lineage ?n encounter p) = zero_id)
      \<or> (\<exists>p \<in> set ?ps. pei_request_id (extraction_of hash lineage ?n encounter exit p) = zero_id
            \<or> pei_receipt_id (extraction_of hash lineage ?n encounter exit p) = zero_id)"
    unfolding ids_eq by (simp add: identities_in_def image_iff) metis
  then show ?thesis
    unfolding derive_identities_def assms(2) Let_def first
    by (simp add: first lists flip: ids_eq)
qed

lemma committed_lock_ordered:
  assumes "lock_ok n lock"
  shows "validate_participant_order (lock_participants lock) = Inr ()"
proof -
  have "distinct (map part_entity_id (lock_participants lock))" "sorted (map participant_key (lock_participants lock))"
    using assms by (simp_all add: lock_ok_def)
  moreover from this(1) have "distinct (map participant_key (lock_participants lock))"
    by (auto simp: distinct_map inj_on_def participant_key_def)
  ultimately have "sorted_wrt (<) (map participant_key (lock_participants lock))"
    by (simp add: strict_sorted_iff)
  then show ?thesis
    using \<open>distinct (map part_entity_id _)\<close>
    by (simp add: validate_participant_order_def flip: windows2_all_less windows2_all_map)
qed

text \<open>
  C21. The identities of a victory over the boss: for a lock that the boss lock machine has committed, and a
  proper lineage, the derivation succeeds exactly when none of the derived identities consists of sixteen zero bytes. It
  then returns, for the encounter, the exit, and for every locked participant the reward, the extraction request and its
  receipt, the truncated hashes of their parts, and the look-ups find exactly the ones of the participant; otherwise it reports the zero identity.
\<close>

theorem victory_of_committed_lock:
  assumes "boss_inv sim" and "phase_lock (sim_phase sim) = Some lock" and "lock_attempt_ordinal lock \<noteq> 0"
    and "length lineage = ID_BYTES" and "lineage \<noteq> replicate ID_BYTES 0"
  shows "derive_identities hash lineage lock =
      (if CaldusStableId (replicate ID_BYTES 0) \<in> set (identities_in (victory_of hash lineage lock)) then Inl DerivedZeroId
       else Inr (victory_of hash lineage lock))
    \<and> (\<forall>p \<in> set (lock_participants lock).
         reward_for (victory_of hash lineage lock) p
           = Some (identity_id hash (RewardIdentity p) lineage (lock_attempt_ordinal lock)
                (vi_encounter_id (victory_of hash lineage lock)) zero_id zero_id)
         \<and> extraction_for (victory_of hash lineage lock) p
           = Some (extraction_of hash lineage (lock_attempt_ordinal lock) (vi_encounter_id (victory_of hash lineage lock))
                (vi_exit_instance_id (victory_of hash lineage lock)) p))"
proof (intro conjI ballI)
  have lock: "lock_ok (next_attempt_ordinal sim) lock"
    using assms(1,2) by (auto simp: boss_inv_def split: core_boss_lock_phase.splits)
  then have "lock_participants lock \<noteq> []" "lock_maximum_health lock \<noteq> 0"
    by (auto simp: lock_ok_def caldus_health_def unat_eq_zero [symmetric])
  then have "validate_identity_input lineage lock = Inr ()"
    using assms(3,5) committed_lock_ordered [OF lock] by (simp add: validate_identity_input_def)
  then show "derive_identities hash lineage lock =
      (if CaldusStableId (replicate ID_BYTES 0) \<in> set (identities_in (victory_of hash lineage lock)) then Inl DerivedZeroId
       else Inr (victory_of hash lineage lock))"
    by (rule derive_identities_exact [OF assms(4)])
  let ?n = "lock_attempt_ordinal lock" and ?ids = "victory_of hash lineage lock"
  fix p assume p: "p \<in> set (lock_participants lock)"
  show "reward_for ?ids p = Some (identity_id hash (RewardIdentity p) lineage ?n (vi_encounter_id ?ids) zero_id zero_id)"
    using find_mapped [OF p, of pri_participant "reward_of hash lineage ?n (vi_encounter_id ?ids)"]
    by (simp add: reward_for_def victory_of_def reward_of_def identity_id_def Let_def)
  show "extraction_for ?ids p = Some (extraction_of hash lineage ?n (vi_encounter_id ?ids) (vi_exit_instance_id ?ids) p)"
    using find_mapped [OF p, of pei_participant "extraction_of hash lineage ?n (vi_encounter_id ?ids) (vi_exit_instance_id ?ids)"]
    by (simp add: extraction_for_def victory_of_def extraction_of_def Let_def)
qed

section \<open>Concrete identities\<close>

definition sample_hash :: "bytes \<Rightarrow> bytes" where
  "sample_hash material = replicate 32 1"

lemma sample_identity_nonzero: "identity_id sample_hash k lineage ordinal encounter exit request \<noteq> zero_id"
  by (simp add: identity_id_def sample_hash_def ID_BYTES_def numeral_eq_Suc)

theorem victory_of_committed_lock_witness:
  "(\<exists>ids. derive_identities sample_hash (replicate 16 2) sample_lock = Inr ids
      \<and> reward_for ids (hd (lock_participants sample_lock)) \<noteq> None)
    \<and> derive_identities (\<lambda>_. replicate 32 0) (replicate 16 2) sample_lock = Inl DerivedZeroId"
proof -
  let ?ids = "victory_of sample_hash (replicate 16 2) sample_lock"
  have lock: "phase_lock (sim_phase sample_locked) = Some sample_lock" "lock_attempt_ordinal sample_lock \<noteq> 0"
    and p: "hd (lock_participants sample_lock) \<in> set (lock_participants sample_lock)"
    by (simp_all add: sample_locked_def sample_lock_def)
  have lineage: "length (replicate 16 2 :: bytes) = ID_BYTES" "(replicate 16 2 :: bytes) \<noteq> replicate ID_BYTES 0"
    by (simp_all add: ID_BYTES_def)
  note victory = victory_of_committed_lock [OF sample_inv(2) lock lineage]
  have "zero_id \<notin> set (identities_in ?ids)"
    using sample_identity_nonzero
    by (auto simp: identities_in_def victory_of_def reward_of_def extraction_of_def Let_def dest: sym)
  with victory [of sample_hash] p have "derive_identities sample_hash (replicate 16 2) sample_lock = Inr ?ids"
    "reward_for ?ids (hd (lock_participants sample_lock)) \<noteq> None"
    by simp_all
  moreover have "zero_id \<in> set (identities_in (victory_of (\<lambda>_. replicate 32 0) (replicate 16 2) sample_lock))"
    by (simp add: identities_in_def victory_of_def identity_id_def Let_def ID_BYTES_def)
  then have "derive_identities (\<lambda>_. replicate 32 0) (replicate 16 2) sample_lock = Inl DerivedZeroId"
    using victory [of "\<lambda>_. replicate 32 0"] by simp
  ultimately show ?thesis
    by blast
qed

end
