(* ===== verification/Bell_Laboratory.thy ===== *)
theory Bell_Laboratory
  imports Simulation_Clock
begin

text \<open>
  The director of the Bell Laboratory encounter (\<open>sim_core/src/encounter.rs\<close>): three waves with a reward after each,
  the boss, death and restart, driven by fixed ticks. The operations of a step pass the encounter and the
  events; a step works on a clone and leaves the old state on failure. \<open>Unreachable\<close> stands for
  the \<open>unreachable!\<close> of the code; the debug assertion of \<open>start_wave\<close> is absent from the release profile.
\<close>

section \<open>Stages and spawns\<close>

definition FIRST_PLAYABLE_DEFAULT_SEED :: u64 where
  "FIRST_PLAYABLE_DEFAULT_SEED = 0xB311A501"

definition FIRST_WAVE_DELAY_TICKS :: u64 where
  "FIRST_WAVE_DELAY_TICKS = 45"

definition SPAWN_TELEGRAPH_TICKS :: u64 where
  "SPAWN_TELEGRAPH_TICKS = 27"

definition REWARD_DELAY_TICKS :: u64 where
  "REWARD_DELAY_TICKS = 45"

definition BOSS_INTRODUCTION_TICKS :: u64 where
  "BOSS_INTRODUCTION_TICKS = 60"

definition DROWNED_PILGRIM_ID :: string where
  "DROWNED_PILGRIM_ID = ''enemy.drowned_pilgrim''"

definition BELL_REED_ID :: string where
  "BELL_REED_ID = ''enemy.bell_reed''"

definition CHAIN_SENTRY_ID :: string where
  "CHAIN_SENTRY_ID = ''enemy.chain_sentry''"

definition BELL_PROCTOR_ID :: string where
  "BELL_PROCTOR_ID = ''boss.prototype.bell_proctor''"

definition BOSS_REWARD_ID :: string where
  "BOSS_REWARD_ID = ''reward.prototype.boss''"

datatype encounter_stage = Wave1 | Wave2 | Wave3 | Boss

fun stage_budget :: "encounter_stage \<Rightarrow> u32" where
  "stage_budget Wave1 = 4"
| "stage_budget Wave2 = 10"
| "stage_budget Wave3 = 15"
| "stage_budget Boss = 0"

fun stage_reward_id :: "encounter_stage \<Rightarrow> string" where
  "stage_reward_id Wave1 = ''reward.prototype.wave_1''"
| "stage_reward_id Wave2 = ''reward.prototype.wave_2''"
| "stage_reward_id Wave3 = ''reward.prototype.wave_3''"
| "stage_reward_id Boss = BOSS_REWARD_ID"

datatype spawn_instance_id = SpawnInstanceId (spawn_run: u32) (spawn_ordinal: u16)

text \<open>The derived order compares the run, then the spawn ordinal.\<close>

instantiation spawn_instance_id :: linorder
begin

definition less_eq_spawn_instance_id :: "spawn_instance_id \<Rightarrow> spawn_instance_id \<Rightarrow> bool" where
  "less_eq_spawn_instance_id a b \<longleftrightarrow>
     spawn_run a < spawn_run b \<or> spawn_run a = spawn_run b \<and> spawn_ordinal a \<le> spawn_ordinal b"

definition less_spawn_instance_id :: "spawn_instance_id \<Rightarrow> spawn_instance_id \<Rightarrow> bool" where
  "less_spawn_instance_id a b \<longleftrightarrow>
     spawn_run a < spawn_run b \<or> spawn_run a = spawn_run b \<and> spawn_ordinal a < spawn_ordinal b"

instance
  by standard (auto simp: less_eq_spawn_instance_id_def less_spawn_instance_id_def intro: spawn_instance_id.expand)

end

datatype spawn_location = Anchor string | PointMilliTiles i32 i32

record encounter_spawn_spec =
  es_instance_id :: spawn_instance_id
  es_content_id :: string
  es_location :: spawn_location
  es_budget_cost :: u32

definition spawn :: "u32 \<Rightarrow> u16 \<Rightarrow> string \<Rightarrow> spawn_location \<Rightarrow> u32 \<Rightarrow> encounter_spawn_spec" where
  "spawn run ordinal content location cost =
     \<lparr>es_instance_id = SpawnInstanceId run ordinal, es_content_id = content, es_location = location,
      es_budget_cost = cost\<rparr>"

fun spawn_specs :: "encounter_stage \<Rightarrow> u32 \<Rightarrow> encounter_spawn_spec list" where
  "spawn_specs Wave1 run =
     [spawn run 1 DROWNED_PILGRIM_ID (Anchor ''N1'') 1, spawn run 2 DROWNED_PILGRIM_ID (Anchor ''N3'') 1,
      spawn run 3 DROWNED_PILGRIM_ID (Anchor ''S1'') 1, spawn run 4 DROWNED_PILGRIM_ID (Anchor ''S3'') 1]"
| "spawn_specs Wave2 run =
     [spawn run 5 BELL_REED_ID (Anchor ''N2'') 3, spawn run 6 BELL_REED_ID (Anchor ''S2'') 3,
      spawn run 7 DROWNED_PILGRIM_ID (Anchor ''W1'') 1, spawn run 8 DROWNED_PILGRIM_ID (Anchor ''W2'') 1,
      spawn run 9 DROWNED_PILGRIM_ID (Anchor ''E1'') 1, spawn run 10 DROWNED_PILGRIM_ID (Anchor ''E2'') 1]"
| "spawn_specs Wave3 run =
     [spawn run 11 CHAIN_SENTRY_ID (Anchor ''C'') 6, spawn run 12 BELL_REED_ID (PointMilliTiles 8000 6000) 3,
      spawn run 13 BELL_REED_ID (PointMilliTiles 8000 18000) 3, spawn run 14 DROWNED_PILGRIM_ID (Anchor ''E1'') 1,
      spawn run 15 DROWNED_PILGRIM_ID (Anchor ''E2'') 1, spawn run 16 DROWNED_PILGRIM_ID (Anchor ''N3'') 1]"
| "spawn_specs Boss run = [spawn run 17 BELL_PROCTOR_ID (PointMilliTiles 24000 12000) 0]"

section \<open>State, input and events\<close>

datatype encounter_state =
    AwaitingFirstActivity
  | FirstWaveDelay tick
  | SpawnTelegraph encounter_stage tick
  | ActiveStage encounter_stage u16
  | RewardDelay encounter_stage tick
  | RewardOpen encounter_stage
  | BossIntroduction tick
  | DeathFrozen
  | CompletionSummary
  | ClearedArena

datatype encounter_action =
    NoAction
  | CloseRewardPanel
  | Recall
  | CloseCompletionSummary
  | RunAgain
  | PlayerDied

record encounter_input =
  ei_player_moved :: bool
  ei_player_fired :: bool
  ei_defeated :: "spawn_instance_id list"
  ei_action :: encounter_action

datatype restart_reason = RestartDeath | RestartRunAgain

datatype recall_rejection = CombatLaboratoryUnavailable

fun recall_rejection_code :: "recall_rejection \<Rightarrow> string" where
  "recall_rejection_code CombatLaboratoryUnavailable = ''recall_unavailable_combat_laboratory''"

datatype encounter_event =
    FirstActivityObserved tick tick
  | SpawnTelegraphStarted tick encounter_stage tick "encounter_spawn_spec list"
  | BossIntroductionStarted tick tick encounter_spawn_spec
  | HostilesActivated tick encounter_stage "spawn_instance_id list"
  | HostileDefeatAccepted tick spawn_instance_id u16
  | HostileProjectilesCleared tick encounter_stage
  | RewardDelayStarted tick encounter_stage string tick
  | RewardPanelOpened tick encounter_stage string
  | RewardPanelClosed tick encounter_stage
  | RecallRejected tick recall_rejection
  | CompletionSummaryOpened tick string u64 u64
  | CompletionSummaryClosed tick
  | PlayerDeathAccepted tick u32 "spawn_instance_id list"
  | RunRestarted tick restart_reason u32 u64

datatype encounter_error =
    TickOverflow
  | RunOrdinalOverflow
  | DefeatIdsNotStrictlySorted
  | DefeatOutsideActiveCombat
  | UnknownActiveHostile
  | DeathCombinedWithDefeats
  | RewardPanelNotOpen
  | CompletionSummaryNotOpen
  | RunAgainUnavailable
  | DeathAlreadyAccepted
  | InvalidCompletedStage
  | MissingAuthoredSpawn
  | WaveBudgetOverflow
  | WaveBudgetMismatch encounter_stage u32 u32
  | HostileCountOverflow
  | ActiveHostileStateMismatch
  | HostilesOutsideActiveCombat
  | MissingFirstActivity

datatype encounter_failure = EncounterFailed encounter_error | Unreachable

text \<open>A \<open>BTreeSet\<close> is its elements in ascending order.\<close>

record bell_laboratory_encounter =
  bl_tick :: tick
  bl_state :: encounter_state
  bl_run_ordinal :: u32
  bl_seed :: u64
  bl_first_activity_tick :: "tick option"
  bl_best_clear_ticks :: "u64 option"
  bl_active_instances :: "spawn_instance_id list"

definition new_encounter :: "u64 \<Rightarrow> bell_laboratory_encounter" where
  "new_encounter seed =
     \<lparr>bl_tick = 0, bl_state = AwaitingFirstActivity, bl_run_ordinal = 1, bl_seed = seed,
      bl_first_activity_tick = None, bl_best_clear_ticks = None, bl_active_instances = []\<rparr>"

definition new_default_seed :: bell_laboratory_encounter where
  "new_default_seed = new_encounter FIRST_PLAYABLE_DEFAULT_SEED"

type_synonym encounter_work = "bell_laboratory_encounter \<times> encounter_event list"

section \<open>The operations of a step\<close>

definition validate_input :: "encounter_input \<Rightarrow> encounter_failure + unit" where
  "validate_input input =
     (if windows2_all (<) (ei_defeated input) then Inr ()
      else Inl (EncounterFailed DefeatIdsNotStrictlySorted))"

definition checked_tick_add :: "tick \<Rightarrow> u64 \<Rightarrow> encounter_failure + tick" where
  "checked_tick_add t duration = ok_or (checked_add t duration) (EncounterFailed TickOverflow)"

definition validate_spawn_budget :: "encounter_stage \<Rightarrow> encounter_spawn_spec list \<Rightarrow> encounter_failure + unit" where
  "validate_spawn_budget stage spawns =
     and_then (try_fold (\<lambda>s acc. ok_or (checked_add acc (es_budget_cost s)) (EncounterFailed WaveBudgetOverflow)) spawns 0)
       (\<lambda>actual. if actual \<noteq> stage_budget stage
                then Inl (EncounterFailed (WaveBudgetMismatch stage (stage_budget stage) actual)) else Inr ())"

definition start_wave :: "encounter_stage \<Rightarrow> encounter_work \<Rightarrow> encounter_failure + encounter_work" where
  "start_wave stage = (\<lambda>(enc, events).
     let spawns = spawn_specs stage (bl_run_ordinal enc) in
     and_then (validate_spawn_budget stage spawns) (\<lambda>_.
     and_then (checked_tick_add (bl_tick enc) SPAWN_TELEGRAPH_TICKS) (\<lambda>activates_at.
       Inr (enc\<lparr>bl_state := SpawnTelegraph stage activates_at\<rparr>,
            events @ [SpawnTelegraphStarted (bl_tick enc) stage activates_at spawns]))))"

definition start_boss_introduction :: "encounter_work \<Rightarrow> encounter_failure + encounter_work" where
  "start_boss_introduction = (\<lambda>(enc, events).
     case spawn_specs Boss (bl_run_ordinal enc) of
       [] \<Rightarrow> Inl (EncounterFailed MissingAuthoredSpawn)
     | boss # _ \<Rightarrow>
         and_then (checked_tick_add (bl_tick enc) BOSS_INTRODUCTION_TICKS) (\<lambda>activates_at.
           Inr (enc\<lparr>bl_state := BossIntroduction activates_at\<rparr>,
                events @ [BossIntroductionStarted (bl_tick enc) activates_at boss])))"

definition activate :: "encounter_stage \<Rightarrow> encounter_work \<Rightarrow> encounter_failure + encounter_work" where
  "activate stage = (\<lambda>(enc, events).
     let spawns = spawn_specs stage (bl_run_ordinal enc) in
     if spawns = [] then Inl (EncounterFailed MissingAuthoredSpawn)
     else let instances = remdups (sort (map es_instance_id spawns)) in
       and_then (ok_or (try_from_usize (length instances)) (EncounterFailed HostileCountOverflow)) (\<lambda>remaining.
         Inr (enc\<lparr>bl_active_instances := instances, bl_state := ActiveStage stage remaining\<rparr>,
              events @ [HostilesActivated (bl_tick enc) stage instances])))"

definition advance_deadline :: "encounter_work \<Rightarrow> encounter_failure + encounter_work" where
  "advance_deadline = (\<lambda>(enc, events).
     case bl_state enc of
       FirstWaveDelay starts_at \<Rightarrow>
         if bl_tick enc \<ge> starts_at then start_wave Wave1 (enc, events) else Inr (enc, events)
     | SpawnTelegraph stage activates_at \<Rightarrow>
         if bl_tick enc \<ge> activates_at then activate stage (enc, events) else Inr (enc, events)
     | RewardDelay completed opens_at \<Rightarrow>
         if bl_tick enc \<ge> opens_at
         then Inr (enc\<lparr>bl_state := RewardOpen completed\<rparr>,
                   events @ [RewardPanelOpened (bl_tick enc) completed (stage_reward_id completed)])
         else Inr (enc, events)
     | BossIntroduction activates_at \<Rightarrow>
         if bl_tick enc \<ge> activates_at then activate Boss (enc, events) else Inr (enc, events)
     | _ \<Rightarrow> Inr (enc, events))"

definition complete_run :: "encounter_work \<Rightarrow> encounter_failure + encounter_work" where
  "complete_run = (\<lambda>(enc, events).
     and_then (ok_or (bl_first_activity_tick enc) (EncounterFailed MissingFirstActivity)) (\<lambda>first_activity.
     and_then (ok_or (checked_sub (bl_tick enc) first_activity) (EncounterFailed TickOverflow)) (\<lambda>clear_ticks.
       let best = (case bl_best_clear_ticks enc of None \<Rightarrow> clear_ticks | Some best \<Rightarrow> min best clear_ticks) in
       Inr (enc\<lparr>bl_best_clear_ticks := Some best, bl_state := CompletionSummary\<rparr>,
            events @ [CompletionSummaryOpened (bl_tick enc) BOSS_REWARD_ID clear_ticks best]))))"

definition remove_defeated :: "spawn_instance_id \<Rightarrow> encounter_work \<Rightarrow> encounter_failure + encounter_work" where
  "remove_defeated instance_id = (\<lambda>(enc, events).
     let active = filter (\<lambda>i. i \<noteq> instance_id) (bl_active_instances enc) in
     and_then (ok_or (try_from_usize (length active)) (EncounterFailed HostileCountOverflow)) (\<lambda>remaining.
       Inr (enc\<lparr>bl_active_instances := active\<rparr>,
            events @ [HostileDefeatAccepted (bl_tick enc) instance_id remaining])))"

definition finish_stage :: "encounter_stage \<Rightarrow> encounter_work \<Rightarrow> encounter_failure + encounter_work" where
  "finish_stage stage = (\<lambda>(enc, events).
     if bl_active_instances enc = []
     then let events = events @ [HostileProjectilesCleared (bl_tick enc) stage] in
       if stage = Boss then complete_run (enc, events)
       else and_then (checked_tick_add (bl_tick enc) REWARD_DELAY_TICKS) (\<lambda>opens_at.
              Inr (enc\<lparr>bl_state := RewardDelay stage opens_at\<rparr>,
                   events @ [RewardDelayStarted (bl_tick enc) stage (stage_reward_id stage) opens_at]))
     else and_then (ok_or (try_from_usize (length (bl_active_instances enc))) (EncounterFailed HostileCountOverflow))
            (\<lambda>remaining. Inr (enc\<lparr>bl_state := ActiveStage stage remaining\<rparr>, events)))"

definition accept_defeats :: "spawn_instance_id list \<Rightarrow> encounter_work \<Rightarrow> encounter_failure + encounter_work" where
  "accept_defeats defeated = (\<lambda>(enc, events).
     if defeated = [] then Inr (enc, events)
     else case bl_state enc of
       ActiveStage stage _ \<Rightarrow>
         if list_ex (\<lambda>i. i \<notin> set (bl_active_instances enc)) defeated
         then Inl (EncounterFailed UnknownActiveHostile)
         else and_then (try_fold remove_defeated defeated (enc, events)) (finish_stage stage)
     | _ \<Rightarrow> Inl (EncounterFailed DefeatOutsideActiveCombat))"

definition restart_run :: "restart_reason \<Rightarrow> encounter_work \<Rightarrow> encounter_failure + encounter_work" where
  "restart_run reason = (\<lambda>(enc, events).
     and_then (ok_or (checked_add (bl_run_ordinal enc) 1) (EncounterFailed RunOrdinalOverflow)) (\<lambda>ordinal.
       Inr (enc\<lparr>bl_run_ordinal := ordinal, bl_seed := FIRST_PLAYABLE_DEFAULT_SEED, bl_first_activity_tick := None,
                bl_active_instances := [], bl_state := AwaitingFirstActivity\<rparr>,
            events @ [RunRestarted (bl_tick enc) reason ordinal FIRST_PLAYABLE_DEFAULT_SEED])))"

definition process_action :: "encounter_action \<Rightarrow> encounter_work \<Rightarrow> encounter_failure + encounter_work" where
  "process_action action = (\<lambda>(enc, events).
     case action of
       NoAction \<Rightarrow> Inr (enc, events)
     | Recall \<Rightarrow> Inr (enc, events @ [RecallRejected (bl_tick enc) CombatLaboratoryUnavailable])
     | CloseRewardPanel \<Rightarrow>
         (case bl_state enc of
            RewardOpen completed \<Rightarrow>
              let work = (enc, events @ [RewardPanelClosed (bl_tick enc) completed]) in
              (case completed of
                 Wave1 \<Rightarrow> start_wave Wave2 work
               | Wave2 \<Rightarrow> start_wave Wave3 work
               | Wave3 \<Rightarrow> start_boss_introduction work
               | Boss \<Rightarrow> Inl (EncounterFailed InvalidCompletedStage))
          | _ \<Rightarrow> Inl (EncounterFailed RewardPanelNotOpen))
     | CloseCompletionSummary \<Rightarrow>
         if bl_state enc \<noteq> CompletionSummary then Inl (EncounterFailed CompletionSummaryNotOpen)
         else Inr (enc\<lparr>bl_state := ClearedArena\<rparr>, events @ [CompletionSummaryClosed (bl_tick enc)])
     | RunAgain \<Rightarrow>
         if bl_state enc \<notin> {DeathFrozen, CompletionSummary, ClearedArena}
         then Inl (EncounterFailed RunAgainUnavailable)
         else restart_run RestartRunAgain (enc, events)
     | PlayerDied \<Rightarrow> Inl Unreachable)"

definition validate_invariants :: "bell_laboratory_encounter \<Rightarrow> encounter_failure + unit" where
  "validate_invariants enc =
     (case bl_state enc of
        ActiveStage _ remaining \<Rightarrow>
          if unat remaining \<noteq> length (bl_active_instances enc) \<or> bl_active_instances enc = []
          then Inl (EncounterFailed ActiveHostileStateMismatch) else Inr ()
      | _ \<Rightarrow>
          if bl_active_instances enc \<noteq> [] then Inl (EncounterFailed HostilesOutsideActiveCombat) else Inr ())"

definition observe_activity :: "bool \<Rightarrow> encounter_work \<Rightarrow> encounter_failure + encounter_work" where
  "observe_activity activity = (\<lambda>(enc, events).
     if bl_state enc = AwaitingFirstActivity \<and> activity
     then and_then (checked_tick_add (bl_tick enc) FIRST_WAVE_DELAY_TICKS) (\<lambda>starts_at.
            Inr (enc\<lparr>bl_first_activity_tick := Some (bl_tick enc), bl_state := FirstWaveDelay starts_at\<rparr>,
                 events @ [FirstActivityObserved (bl_tick enc) starts_at]))
     else Inr (enc, events))"

definition accept_death :: "spawn_instance_id list \<Rightarrow> encounter_work \<Rightarrow> encounter_failure + encounter_work" where
  "accept_death defeated = (\<lambda>(enc, events).
     if defeated \<noteq> [] then Inl (EncounterFailed DeathCombinedWithDefeats)
     else if bl_state enc = DeathFrozen then Inl (EncounterFailed DeathAlreadyAccepted)
     else Inr (enc\<lparr>bl_active_instances := [], bl_state := DeathFrozen\<rparr>,
               events @ [PlayerDeathAccepted (bl_tick enc) (bl_run_ordinal enc) (bl_active_instances enc)]))"

definition step_staged :: "encounter_input \<Rightarrow> bell_laboratory_encounter \<Rightarrow> encounter_failure + encounter_work" where
  "step_staged input enc =
     and_then (ok_or (checked_next (bl_tick enc)) (EncounterFailed TickOverflow)) (\<lambda>tick.
     and_then (advance_deadline (enc\<lparr>bl_tick := tick\<rparr>, [])) (\<lambda>work.
     if ei_action input = PlayerDied then accept_death (ei_defeated input) work
     else and_then (accept_defeats (ei_defeated input) work) (\<lambda>work.
          and_then (observe_activity (ei_player_moved input \<or> ei_player_fired input) work) (\<lambda>work.
          and_then (process_action (ei_action input) work) (\<lambda>(enc', events).
          and_then (validate_invariants enc') (\<lambda>_. Inr (enc', events)))))))"

record encounter_step =
  st_tick :: tick
  st_events :: "encounter_event list"

definition step_encounter ::
  "encounter_input \<Rightarrow> bell_laboratory_encounter \<Rightarrow> (encounter_failure + encounter_step) \<times> bell_laboratory_encounter" where
  "step_encounter input enc =
     (case and_then (validate_input input) (\<lambda>_. step_staged input enc) of
        Inl e \<Rightarrow> (Inl e, enc)
      | Inr (enc', events) \<Rightarrow> (Inr \<lparr>st_tick = bl_tick enc', st_events = events\<rparr>, enc'))"

end
