(* ===== verification/Bell_Laboratory_Properties.thy ===== *)
theory Bell_Laboratory_Properties
  imports Bell_Laboratory
begin

text \<open>
  What is proved of the Bell Laboratory director: an invariant of its reachable states and the errors it can
  report, that a run only moves forward, that a cleared run defeated each of its seventeen hostiles exactly
  once, and what its clear times and its record are. Hostiles are numbered from 1 to 17 in each run, in the order of the stages.
\<close>

section \<open>The hostiles of a run\<close>

fun hostiles_before :: "encounter_stage \<Rightarrow> nat" where
  "hostiles_before Wave1 = 0"
| "hostiles_before Wave2 = 4"
| "hostiles_before Wave3 = 10"
| "hostiles_before Boss = 16"

fun hostiles_through :: "encounter_stage \<Rightarrow> nat" where
  "hostiles_through Wave1 = 4"
| "hostiles_through Wave2 = 10"
| "hostiles_through Wave3 = 16"
| "hostiles_through Boss = 17"

definition run_hostiles :: "u32 \<Rightarrow> nat \<Rightarrow> spawn_instance_id set" where
  "run_hostiles run n = set (map (\<lambda>k. SpawnInstanceId run (of_nat k)) [1..<n + 1])"

definition stage_hostiles :: "encounter_stage \<Rightarrow> u32 \<Rightarrow> spawn_instance_id set" where
  "stage_hostiles stage run = set (map es_instance_id (spawn_specs stage run))"

lemma run_hostiles_0 [simp]: "run_hostiles run 0 = {}"
  by (auto simp: run_hostiles_def)

lemma run_hostiles_run: "i \<in> run_hostiles run n \<Longrightarrow> spawn_run i = run"
  by (auto simp: run_hostiles_def)

lemma spawn_specs_ids:
  "map es_instance_id (spawn_specs stage run) =
     map (\<lambda>k. SpawnInstanceId run (of_nat k)) [hostiles_before stage + 1..<hostiles_through stage + 1]"
  by (cases stage) (simp_all add: spawn_def upt_rec [of 1] del: One_nat_def)

lemma hostile_number_inj:
  assumes "a < 2 ^ 16" "b < 2 ^ 16"
  shows "SpawnInstanceId run (of_nat a) = SpawnInstanceId run (of_nat b) \<longleftrightarrow> a = b"
  using assms by (auto simp: word_of_nat_eq_iff take_bit_nat_eq_self)

lemma hostiles_order:
  "hostiles_before stage < hostiles_through stage" "hostiles_through stage < 2 ^ 16"
  by (cases stage; simp)+

lemma stage_hostiles_run:
  "run_hostiles run (hostiles_through stage) = run_hostiles run (hostiles_before stage) \<union> stage_hostiles stage run"
  "run_hostiles run (hostiles_before stage) \<inter> stage_hostiles stage run = {}"
proof -
  have "[1..<hostiles_through stage + 1] = [1..<hostiles_before stage + 1] @ [hostiles_before stage + 1..<hostiles_through stage + 1]"
    using upt_add_eq_append [of 1 "hostiles_before stage + 1" "hostiles_through stage - hostiles_before stage"]
      hostiles_order(1) [of stage] by simp
  then show "run_hostiles run (hostiles_through stage) = run_hostiles run (hostiles_before stage) \<union> stage_hostiles stage run"
    by (simp only: run_hostiles_def stage_hostiles_def spawn_specs_ids map_append set_append)
  show "run_hostiles run (hostiles_before stage) \<inter> stage_hostiles stage run = {}"
  proof (rule ccontr)
    assume "run_hostiles run (hostiles_before stage) \<inter> stage_hostiles stage run \<noteq> {}"
    then obtain a b where "a \<le> hostiles_before stage" "hostiles_before stage < b" "b \<le> hostiles_through stage"
      "SpawnInstanceId run (of_nat a) = SpawnInstanceId run (of_nat b)"
      unfolding run_hostiles_def stage_hostiles_def spawn_specs_ids set_map set_upt by fastforce
    moreover from this have "a = b"
      using hostiles_order [of stage] by (subst (asm) hostile_number_inj) auto
    ultimately show False by simp
  qed
qed

lemma spawn_specs_facts:
  "spawn_specs stage run \<noteq> []" "length (spawn_specs stage run) \<le> 6"
  by (cases stage; simp)+

lemma spawn_budget_exact: "stage \<noteq> Boss \<Longrightarrow> validate_spawn_budget stage (spawn_specs stage run) = Inr ()"
  by (cases stage) (simp_all add: validate_spawn_budget_def spawn_def checked_add_def)

section \<open>The invariant\<close>

text \<open>
  \<open>active_from stage\<close> is the least number of ticks between the first activity and the first tick at which hostiles of
  the stage are active; \<open>since first k t\<close> says that tick t is at least k ticks after the first activity.
\<close>

fun active_from :: "encounter_stage \<Rightarrow> nat" where
  "active_from Wave1 = 72"
| "active_from Wave2 = 144"
| "active_from Wave3 = 216"
| "active_from Boss = 321"

definition since :: "tick option \<Rightarrow> nat \<Rightarrow> tick \<Rightarrow> bool" where
  "since first k t \<longleftrightarrow> (\<exists>f. first = Some f \<and> unat f + k \<le> unat t)"

fun schedule_ok :: "encounter_state \<Rightarrow> tick option \<Rightarrow> tick \<Rightarrow> bool" where
  "schedule_ok (FirstWaveDelay t) first now = since first 45 t"
| "schedule_ok (SpawnTelegraph stage t) first now = (stage \<noteq> Boss \<and> since first (active_from stage) t)"
| "schedule_ok (ActiveStage stage _) first now = since first (active_from stage) now"
| "schedule_ok (RewardDelay stage t) first now = (stage \<noteq> Boss \<and> since first (active_from stage + 45) t)"
| "schedule_ok (RewardOpen stage) first now = (stage \<noteq> Boss \<and> since first (active_from stage + 45) now)"
| "schedule_ok (BossIntroduction t) first now = since first 321 t"
| "schedule_ok CompletionSummary first now = since first 321 now"
| "schedule_ok ClearedArena first now = since first 321 now"
| "schedule_ok _ first now = True"

fun active_ok :: "encounter_state \<Rightarrow> u32 \<Rightarrow> spawn_instance_id list \<Rightarrow> bool" where
  "active_ok (ActiveStage stage n) run active \<longleftrightarrow>
     active \<noteq> [] \<and> unat n = length active \<and> sorted_wrt (<) active \<and> set active \<subseteq> stage_hostiles stage run"
| "active_ok _ run active \<longleftrightarrow> active = []"

definition encounter_inv :: "bell_laboratory_encounter \<Rightarrow> bool" where
  "encounter_inv enc \<longleftrightarrow>
     schedule_ok (bl_state enc) (bl_first_activity_tick enc) (bl_tick enc)
     \<and> active_ok (bl_state enc) (bl_run_ordinal enc) (bl_active_instances enc)"

fun stage_rank :: "encounter_stage \<Rightarrow> nat" where
  "stage_rank Wave1 = 0"
| "stage_rank Wave2 = 4"
| "stage_rank Wave3 = 8"
| "stage_rank Boss = 12"

text \<open>The position of a state in the course of a run.\<close>

fun state_rank :: "encounter_state \<Rightarrow> nat" where
  "state_rank AwaitingFirstActivity = 0"
| "state_rank (FirstWaveDelay _) = 1"
| "state_rank (SpawnTelegraph stage _) = stage_rank stage + 2"
| "state_rank (ActiveStage stage _) = stage_rank stage + 3"
| "state_rank (RewardDelay stage _) = stage_rank stage + 4"
| "state_rank (RewardOpen stage) = stage_rank stage + 5"
| "state_rank (BossIntroduction _) = 14"
| "state_rank CompletionSummary = 16"
| "state_rank ClearedArena = 17"
| "state_rank DeathFrozen = 18"

text \<open>The hostiles of the run that have been defeated, as the state shows them (unless the run is frozen).\<close>

fun defeated_in :: "encounter_state \<Rightarrow> u32 \<Rightarrow> spawn_instance_id list \<Rightarrow> spawn_instance_id set" where
  "defeated_in (SpawnTelegraph stage _) run active = run_hostiles run (hostiles_before stage)"
| "defeated_in (ActiveStage stage _) run active = run_hostiles run (hostiles_through stage) - set active"
| "defeated_in (RewardDelay stage _) run active = run_hostiles run (hostiles_through stage)"
| "defeated_in (RewardOpen stage) run active = run_hostiles run (hostiles_through stage)"
| "defeated_in (BossIntroduction _) run active = run_hostiles run 16"
| "defeated_in CompletionSummary run active = run_hostiles run 17"
| "defeated_in ClearedArena run active = run_hostiles run 17"
| "defeated_in _ run active = {}"

definition defeated_by :: "bell_laboratory_encounter \<Rightarrow> spawn_instance_id set" where
  "defeated_by enc = defeated_in (bl_state enc) (bl_run_ordinal enc) (bl_active_instances enc)"

text \<open>The defeats and the clear times that a list of events reports, and the record after some clear times.\<close>

fun defeats :: "encounter_event list \<Rightarrow> spawn_instance_id list" where
  "defeats [] = []"
| "defeats (HostileDefeatAccepted _ i _ # es) = i # defeats es"
| "defeats (_ # es) = defeats es"

fun clears :: "encounter_event list \<Rightarrow> u64 list" where
  "clears [] = []"
| "clears (CompletionSummaryOpened _ _ ticks _ # es) = ticks # clears es"
| "clears (_ # es) = clears es"

fun best_of :: "u64 option \<Rightarrow> u64 list \<Rightarrow> u64 option" where
  "best_of best [] = best"
| "best_of best (c # cs) = best_of (Some (case best of None \<Rightarrow> c | Some b \<Rightarrow> min b c)) cs"

lemma defeats_append [simp]: "defeats (xs @ ys) = defeats xs @ defeats ys"
  by (induction xs rule: defeats.induct) simp_all

lemma clears_append [simp]: "clears (xs @ ys) = clears xs @ clears ys"
  by (induction xs rule: clears.induct) simp_all

lemma best_of_append [simp]: "best_of b (xs @ ys) = best_of (best_of b xs) ys"
  by (induction b xs rule: best_of.induct) simp_all

lemma since_later: "since first k t \<Longrightarrow> k' \<le> k + (unat t' - unat t) \<Longrightarrow> unat t \<le> unat t' \<Longrightarrow> since first k' t'"
  by (auto simp: since_def)

lemma since_due: "since first k t \<Longrightarrow> unat t \<le> unat now \<Longrightarrow> since first k now"
  by (auto simp: since_def)

lemma schedule_ok_later: "schedule_ok state first t \<Longrightarrow> unat t \<le> unat t' \<Longrightarrow> schedule_ok state first t'"
  by (cases state) (auto elim: since_later)

section \<open>What one operation adds\<close>

definition work_grows :: "encounter_work \<Rightarrow> encounter_work \<Rightarrow> bool" where
  "work_grows = (\<lambda>(enc, es) (enc', es').
     bl_tick enc' = bl_tick enc \<and> bl_run_ordinal enc' = bl_run_ordinal enc
     \<and> state_rank (bl_state enc) \<le> state_rank (bl_state enc')
     \<and> (\<exists>new. es' = es @ new \<and> distinct (defeats new) \<and> set (defeats new) \<inter> defeated_by enc = {}
          \<and> defeated_by enc' = defeated_by enc \<union> set (defeats new)
          \<and> bl_best_clear_ticks enc' = best_of (bl_best_clear_ticks enc) (clears new)
          \<and> (\<forall>c \<in> set (clears new). 321 \<le> unat c)))"

lemma work_growsI:
  assumes "bl_tick enc' = bl_tick enc" "bl_run_ordinal enc' = bl_run_ordinal enc"
    and "state_rank (bl_state enc) \<le> state_rank (bl_state enc')"
    and "es' = es @ new" "distinct (defeats new)" "set (defeats new) \<inter> defeated_by enc = {}"
    and "defeated_by enc' = defeated_by enc \<union> set (defeats new)"
    and "bl_best_clear_ticks enc' = best_of (bl_best_clear_ticks enc) (clears new)"
    and "\<And>c. c \<in> set (clears new) \<Longrightarrow> 321 \<le> unat c"
  shows "work_grows (enc, es) (enc', es')"
  using assms by (auto simp: work_grows_def)

lemma work_grows_refl [simp]: "work_grows work work"
  by (auto simp: work_grows_def)

lemma work_grows_trans:
  assumes "work_grows work work'" "work_grows work' work''"
  shows "work_grows work work''"
proof -
  obtain enc es enc' es' enc'' es'' where works: "work = (enc, es)" "work' = (enc', es')" "work'' = (enc'', es'')"
    by (metis surj_pair)
  with assms obtain new new' where new:
    "es' = es @ new" "distinct (defeats new)" "set (defeats new) \<inter> defeated_by enc = {}"
    "defeated_by enc' = defeated_by enc \<union> set (defeats new)"
    "bl_best_clear_ticks enc' = best_of (bl_best_clear_ticks enc) (clears new)" "\<forall>c \<in> set (clears new). 321 \<le> unat c"
    "es'' = es' @ new'" "distinct (defeats new')" "set (defeats new') \<inter> defeated_by enc' = {}"
    "defeated_by enc'' = defeated_by enc' \<union> set (defeats new')"
    "bl_best_clear_ticks enc'' = best_of (bl_best_clear_ticks enc') (clears new')" "\<forall>c \<in> set (clears new'). 321 \<le> unat c"
    by (auto simp: work_grows_def)
  from assms show ?thesis
    unfolding works by (intro work_growsI [where new = "new @ new'"]) (use new in \<open>auto simp: work_grows_def\<close>)
qed

lemma work_grows_run: "work_grows (enc, es) (enc', es') \<Longrightarrow> bl_tick enc' = bl_tick enc \<and> bl_run_ordinal enc' = bl_run_ordinal enc"
  by (auto simp: work_grows_def)

lemma checked_tick_add_Inr: "checked_tick_add t k = Inr t' \<longleftrightarrow> unat t' = unat t + unat k"
  by (auto simp: checked_tick_add_def checked_add_eq_Some)

lemma checked_tick_add_Inl:
  "checked_tick_add t k = Inl e \<longleftrightarrow> e = EncounterFailed TickOverflow \<and> 2 ^ 64 \<le> unat t + unat k"
  by (auto simp: checked_tick_add_def checked_add_eq_None)

lemmas durations = FIRST_WAVE_DELAY_TICKS_def SPAWN_TELEGRAPH_TICKS_def REWARD_DELAY_TICKS_def BOSS_INTRODUCTION_TICKS_def

lemma start_wave_exact:
  "stage \<noteq> Boss \<Longrightarrow> start_wave stage (enc, es) =
     and_then (checked_tick_add (bl_tick enc) SPAWN_TELEGRAPH_TICKS) (\<lambda>activates_at.
       Inr (enc\<lparr>bl_state := SpawnTelegraph stage activates_at\<rparr>,
            es @ [SpawnTelegraphStarted (bl_tick enc) stage activates_at (spawn_specs stage (bl_run_ordinal enc))]))"
  by (simp add: start_wave_def spawn_budget_exact)

lemma start_boss_introduction_exact:
  "start_boss_introduction (enc, es) =
     and_then (checked_tick_add (bl_tick enc) BOSS_INTRODUCTION_TICKS) (\<lambda>activates_at.
       Inr (enc\<lparr>bl_state := BossIntroduction activates_at\<rparr>,
            es @ [BossIntroductionStarted (bl_tick enc) activates_at (hd (spawn_specs Boss (bl_run_ordinal enc)))]))"
  by (simp add: start_boss_introduction_def)

lemma spawn_ids_sorted: "sorted_wrt (<) (map es_instance_id (spawn_specs stage run))"
  by (cases stage) (simp_all add: spawn_def less_spawn_instance_id_def)

lemma activate_exact:
  "activate stage (enc, es) =
     Inr (enc\<lparr>bl_active_instances := map es_instance_id (spawn_specs stage (bl_run_ordinal enc)),
              bl_state := ActiveStage stage (of_nat (length (spawn_specs stage (bl_run_ordinal enc))))\<rparr>,
          es @ [HostilesActivated (bl_tick enc) stage (map es_instance_id (spawn_specs stage (bl_run_ordinal enc)))])"
proof -
  have "remdups (sort (map es_instance_id (spawn_specs stage run))) = map es_instance_id (spawn_specs stage run)" for run
    using spawn_ids_sorted [of stage run] by (simp add: strict_sorted_iff sorted_sort_id)
  moreover have "try_from_usize (length (spawn_specs stage run)) = Some (of_nat (length (spawn_specs stage run)) :: u16)" for run
    using spawn_specs_facts(2) [of stage run] by (simp add: try_from_usize_def)
  ultimately show ?thesis
    by (simp add: activate_def Let_def spawn_specs_facts(1))
qed

text \<open>The activation of a stage whose predecessors are defeated.\<close>

lemma activate_ok:
  assumes "activate stage (enc, es) = Inr (enc', es')"
    and "since (bl_first_activity_tick enc) (active_from stage) (bl_tick enc)"
    and "defeated_by enc = run_hostiles (bl_run_ordinal enc) (hostiles_before stage)"
    and "state_rank (bl_state enc) \<le> stage_rank stage + 3"
  shows "encounter_inv enc' \<and> work_grows (enc, es) (enc', es')"
proof
  let ?run = "bl_run_ordinal enc"
  have "unat (of_nat (length (spawn_specs stage ?run)) :: u16) = length (spawn_specs stage ?run)"
    using spawn_specs_facts(2) [of stage ?run] by (intro unat_of_nat_bounded) simp
  with assms(1,2) show "encounter_inv enc'"
    using spawn_ids_sorted [of stage ?run]
    by (auto simp: activate_exact encounter_inv_def stage_hostiles_def spawn_specs_facts(1))
  have "run_hostiles ?run (hostiles_through stage) - stage_hostiles stage ?run = run_hostiles ?run (hostiles_before stage)"
    using stage_hostiles_run [of ?run stage] by blast
  with assms show "work_grows (enc, es) (enc', es')"
    by (intro work_growsI [where new = "[HostilesActivated (bl_tick enc) stage (map es_instance_id (spawn_specs stage ?run))]"])
      (auto simp: activate_exact defeated_by_def stage_hostiles_def)
qed

lemma start_wave_ok:
  assumes "start_wave stage (enc, es) = Inr (enc', es')" and "stage \<noteq> Boss" and "bl_active_instances enc = []"
    and "since (bl_first_activity_tick enc) (active_from stage - 27) (bl_tick enc)"
    and "defeated_by enc = run_hostiles (bl_run_ordinal enc) (hostiles_before stage)"
    and "state_rank (bl_state enc) \<le> stage_rank stage + 2"
  shows "encounter_inv enc' \<and> work_grows (enc, es) (enc', es')"
proof -
  obtain t where t: "unat t = unat (bl_tick enc) + 27" "enc' = enc\<lparr>bl_state := SpawnTelegraph stage t\<rparr>"
    "es' = es @ [SpawnTelegraphStarted (bl_tick enc) stage t (spawn_specs stage (bl_run_ordinal enc))]"
    using assms(1) by (auto simp: start_wave_exact [OF assms(2)] checked_tick_add_Inr durations)
  moreover have "since (bl_first_activity_tick enc) (active_from stage) t"
    using assms(4) t(1) by (auto elim!: since_later)
  ultimately show ?thesis
    using assms(2,3,5,6) by (auto simp: encounter_inv_def defeated_by_def intro!: work_growsI)
qed

lemma advance_deadline_ok:
  assumes "encounter_inv enc" and "advance_deadline (enc, es) = Inr (enc', es')"
  shows "encounter_inv enc' \<and> work_grows (enc, es) (enc', es')"
proof (cases "bl_state enc")
  case (FirstWaveDelay t)
  with assms start_wave_ok [of Wave1 enc es enc' es'] show ?thesis
    by (auto simp: advance_deadline_def encounter_inv_def defeated_by_def word_le_nat_alt dest: since_due split: if_splits)
next
  case (SpawnTelegraph stage t)
  with assms activate_ok [of stage enc es enc' es'] show ?thesis
    by (auto simp: advance_deadline_def encounter_inv_def defeated_by_def word_le_nat_alt dest: since_due split: if_splits)
next
  case (RewardDelay stage t)
  with assms show ?thesis
    by (auto simp: advance_deadline_def encounter_inv_def defeated_by_def word_le_nat_alt
        dest: since_due intro!: work_growsI split: if_splits)
next
  case (BossIntroduction t)
  with assms activate_ok [of Boss enc es enc' es'] show ?thesis
    by (auto simp: advance_deadline_def encounter_inv_def defeated_by_def word_le_nat_alt dest: since_due split: if_splits)
qed (use assms in \<open>auto simp: advance_deadline_def\<close>)

lemma observe_activity_ok:
  assumes "encounter_inv enc" and "observe_activity activity (enc, es) = Inr (enc', es')"
  shows "encounter_inv enc' \<and> work_grows (enc, es) (enc', es')"
  using assms
  by (auto simp: observe_activity_def checked_tick_add_Inr durations encounter_inv_def defeated_by_def since_def
      intro!: work_growsI split: if_splits)

lemma remove_defeated_all:
  assumes "length (bl_active_instances enc) < 2 ^ 16"
  shows "\<exists>new. try_fold remove_defeated ds (enc, es) =
      Inr (enc\<lparr>bl_active_instances := filter (\<lambda>i. i \<notin> set ds) (bl_active_instances enc)\<rparr>, es @ new)
    \<and> defeats new = ds \<and> clears new = []"
  using assms
proof (induction ds arbitrary: enc es)
  case Nil
  show ?case
    by (intro exI [of _ "[]"]) simp
next
  case (Cons d ds)
  let ?active = "filter (\<lambda>i. i \<noteq> d) (bl_active_instances enc)"
  let ?event = "HostileDefeatAccepted (bl_tick enc) d (of_nat (length ?active))"
  have short: "length ?active < 2 ^ 16"
    by (rule le_less_trans [OF length_filter_le Cons.prems])
  have "remove_defeated d (enc, es) = Inr (enc\<lparr>bl_active_instances := ?active\<rparr>, es @ [?event])"
    using short by (simp add: remove_defeated_def Let_def try_from_usize_def)
  moreover obtain new where "try_fold remove_defeated ds (enc\<lparr>bl_active_instances := ?active\<rparr>, es @ [?event]) =
      Inr (enc\<lparr>bl_active_instances := filter (\<lambda>i. i \<notin> set ds) ?active\<rparr>, (es @ [?event]) @ new)"
    "defeats new = ds" "clears new = []"
    using Cons.IH [of "enc\<lparr>bl_active_instances := ?active\<rparr>" "es @ [?event]"] short by auto
  moreover have "filter (\<lambda>i. i \<notin> set ds) ?active = filter (\<lambda>i. i \<notin> set (d # ds)) (bl_active_instances enc)"
    by (simp add: conj_commute)
  ultimately show ?case
    by (intro exI [of _ "?event # new"]) simp
qed

lemma stage_active_short:
  assumes "encounter_inv enc" "bl_state enc = ActiveStage stage n"
  shows "length (bl_active_instances enc) < 2 ^ 16"
proof -
  have "unat n = length (bl_active_instances enc)"
    using assms by (simp add: encounter_inv_def)
  with unat_bound [of n] show ?thesis by simp
qed

text \<open>Defeats of hostiles of the active stage, and what \<open>finish_stage\<close> makes of the remaining ones.\<close>

lemma stage_defeats:
  assumes inv: "encounter_inv enc" and state: "bl_state enc = ActiveStage stage n"
    and active: "active = filter (\<lambda>i. i \<notin> set ds) (bl_active_instances enc)"
    and ds: "set ds \<subseteq> set (bl_active_instances enc)"
  shows "since (bl_first_activity_tick enc) (active_from stage) (bl_tick enc)" "length active < 2 ^ 16"
    "set active \<subseteq> stage_hostiles stage (bl_run_ordinal enc)" "sorted_wrt (<) active"
    "run_hostiles (bl_run_ordinal enc) (hostiles_through stage) - set active = defeated_by enc \<union> set ds"
    "set ds \<inter> defeated_by enc = {}"
proof -
  have within: "set (bl_active_instances enc) \<subseteq> stage_hostiles stage (bl_run_ordinal enc)"
    and sorted: "sorted_wrt (<) (bl_active_instances enc)"
    using inv state by (auto simp: encounter_inv_def)
  have before: "defeated_by enc = run_hostiles (bl_run_ordinal enc) (hostiles_through stage) - set (bl_active_instances enc)"
    using state by (simp add: defeated_by_def)
  have "set (bl_active_instances enc) \<subseteq> run_hostiles (bl_run_ordinal enc) (hostiles_through stage)"
    using within stage_hostiles_run(1) by blast
  then show "run_hostiles (bl_run_ordinal enc) (hostiles_through stage) - set active = defeated_by enc \<union> set ds"
    using ds active before by auto
  show "set ds \<inter> defeated_by enc = {}"
    using ds before by blast
  show "length active < 2 ^ 16"
    unfolding active by (rule le_less_trans [OF length_filter_le stage_active_short [OF inv state]])
  show "set active \<subseteq> stage_hostiles stage (bl_run_ordinal enc)" "sorted_wrt (<) active"
    using within sorted by (auto simp: active sorted_wrt_filter)
  show "since (bl_first_activity_tick enc) (active_from stage) (bl_tick enc)"
    using inv state by (simp add: encounter_inv_def)
qed

lemma finish_stage_ok:
  assumes "finish_stage stage (enc\<lparr>bl_active_instances := active\<rparr>, es @ new) = Inr (enc', es')"
    and inv: "encounter_inv enc" and state: "bl_state enc = ActiveStage stage n"
    and active: "active = filter (\<lambda>i. i \<notin> set ds) (bl_active_instances enc)"
    and ds: "set ds \<subseteq> set (bl_active_instances enc)" "distinct ds"
    and new: "defeats new = ds" "clears new = []"
  shows "encounter_inv enc' \<and> work_grows (enc, es) (enc', es')"
proof -
  note stage = stage_defeats [OF inv state active ds(1)]
  have fresh: "set (defeats new) \<inter> defeated_by enc = {}" "distinct (defeats new)"
    using stage(6) ds(2) new(1) by simp_all
  consider (left) "active \<noteq> []" | (boss) "active = []" "stage = Boss" | (wave) "active = []" "stage \<noteq> Boss"
    by blast
  then show ?thesis
  proof cases
    case left
    with assms(1) stage(2) have result: "enc' = enc\<lparr>bl_active_instances := active, bl_state := ActiveStage stage (of_nat (length active))\<rparr>"
      "es' = es @ new" and len: "unat (of_nat (length active) :: u16) = length active"
      by (simp_all add: finish_stage_def try_from_usize_def)
    then have "encounter_inv enc'"
      using left stage(1,3,4) by (simp add: encounter_inv_def)
    moreover have "work_grows (enc, es) (enc', es')"
      using result stage(5) state fresh new
      by (intro work_growsI [where new = new]) (simp_all add: defeated_by_def)
    ultimately show ?thesis ..
  next
    case wave
    with assms(1) obtain t where t: "unat t = unat (bl_tick enc) + 45"
      "enc' = enc\<lparr>bl_active_instances := [], bl_state := RewardDelay stage t\<rparr>"
      "es' = es @ new @ [HostileProjectilesCleared (bl_tick enc) stage,
         RewardDelayStarted (bl_tick enc) stage (stage_reward_id stage) t]"
      by (auto simp: finish_stage_def checked_tick_add_Inr durations)
    have "encounter_inv enc'"
      using t wave stage(1) by (auto simp: encounter_inv_def elim: since_later)
    moreover have "work_grows (enc, es) (enc', es')"
      using t stage(5) state fresh new wave by (intro work_growsI) (auto simp: defeated_by_def)
    ultimately show ?thesis ..
  next
    case boss
    obtain first where first: "bl_first_activity_tick enc = Some first" "unat first + 321 \<le> unat (bl_tick enc)"
      using stage(1) boss by (auto simp: since_def)
    with assms(1) boss obtain clear where clear: "unat first + unat clear = unat (bl_tick enc)"
      "enc' = enc\<lparr>bl_active_instances := [], bl_best_clear_ticks := best_of (bl_best_clear_ticks enc) [clear],
         bl_state := CompletionSummary\<rparr>"
      "es' = es @ new @ [HostileProjectilesCleared (bl_tick enc) Boss, CompletionSummaryOpened (bl_tick enc) BOSS_REWARD_ID clear
         (case bl_best_clear_ticks enc of None \<Rightarrow> clear | Some best \<Rightarrow> min best clear)]"
      by (auto simp: finish_stage_def complete_run_def checked_sub_eq_Some Let_def)
    have "encounter_inv enc'"
      using clear boss stage(1) by (simp add: encounter_inv_def)
    moreover have "work_grows (enc, es) (enc', es')"
      using clear stage(5) state fresh new boss first by (intro work_growsI) (auto simp: defeated_by_def)
    ultimately show ?thesis ..
  qed
qed

lemma accept_defeats_ok:
  assumes "encounter_inv enc" and "accept_defeats ds (enc, es) = Inr (enc', es')" and "distinct ds"
  shows "encounter_inv enc' \<and> work_grows (enc, es) (enc', es')"
proof (cases "ds = []")
  case True
  with assms show ?thesis
    by (simp add: accept_defeats_def)
next
  case False
  with assms obtain stage n where state: "bl_state enc = ActiveStage stage n"
    and ds: "set ds \<subseteq> set (bl_active_instances enc)"
    and result: "and_then (try_fold remove_defeated ds (enc, es)) (finish_stage stage) = Inr (enc', es')"
    by (auto simp: accept_defeats_def list_ex_iff split: encounter_state.splits if_splits)
  obtain new where "try_fold remove_defeated ds (enc, es) =
      Inr (enc\<lparr>bl_active_instances := filter (\<lambda>i. i \<notin> set ds) (bl_active_instances enc)\<rparr>, es @ new)"
    "defeats new = ds" "clears new = []"
    using remove_defeated_all [OF stage_active_short [OF assms(1) state]] by blast
  with result finish_stage_ok [OF _ assms(1) state refl ds assms(3)] show ?thesis
    by simp
qed

text \<open>Every action except the ones that end or restart the run.\<close>

lemma process_action_ok:
  assumes "encounter_inv enc" and "process_action action (enc, es) = Inr (enc', es')" and "action \<noteq> RunAgain"
  shows "encounter_inv enc' \<and> work_grows (enc, es) (enc', es')"
proof (cases action)
  case CloseRewardPanel
  with assms(2) obtain stage where panel_open: "bl_state enc = RewardOpen stage"
    by (auto simp: process_action_def split: encounter_state.splits)
  let ?es = "es @ [RewardPanelClosed (bl_tick enc) stage]"
  have panel: "work_grows (enc, es) (enc, ?es)"
    by (intro work_growsI) auto
  have inactive: "bl_active_instances enc = []"
    and since: "since (bl_first_activity_tick enc) (active_from stage + 45) (bl_tick enc)"
    using assms(1) panel_open by (simp_all add: encounter_inv_def)
  have "encounter_inv enc' \<and> work_grows (enc, ?es) (enc', es')"
  proof (cases stage)
    case Wave3
    with assms CloseRewardPanel panel_open inactive since show ?thesis
      by (auto simp: process_action_def start_boss_introduction_exact checked_tick_add_Inr durations encounter_inv_def
          defeated_by_def intro!: work_growsI elim!: since_later)
  qed (use assms CloseRewardPanel panel_open inactive since start_wave_ok [of _ enc ?es enc' es'] in
      \<open>auto simp: process_action_def defeated_by_def encounter_inv_def\<close>)
  with work_grows_trans [OF panel] show ?thesis by blast
next
  case CloseCompletionSummary
  with assms show ?thesis
    by (auto simp: process_action_def encounter_inv_def defeated_by_def intro!: work_growsI split: if_splits)
qed (use assms in \<open>auto simp: process_action_def intro!: work_growsI\<close>)

section \<open>The errors an operation can report\<close>

text \<open>Everything else of \<open>EncounterError\<close>, and the \<open>unreachable!\<close>, is never reported.\<close>

definition rejections :: "encounter_failure set" where
  "rejections = EncounterFailed ` {DefeatIdsNotStrictlySorted, DefeatOutsideActiveCombat, UnknownActiveHostile,
     DeathCombinedWithDefeats, RewardPanelNotOpen, CompletionSummaryNotOpen, RunAgainUnavailable, DeathAlreadyAccepted}"

definition expected_failure :: "tick \<Rightarrow> u32 \<Rightarrow> encounter_failure \<Rightarrow> bool" where
  "expected_failure t run e \<longleftrightarrow> e \<in> rejections
     \<or> e = EncounterFailed TickOverflow \<and> 2 ^ 64 \<le> unat t + 60
     \<or> e = EncounterFailed RunOrdinalOverflow \<and> run = - 1"

definition tick_exhausted :: "tick \<Rightarrow> encounter_failure \<Rightarrow> bool" where
  "tick_exhausted t e \<longleftrightarrow> e = EncounterFailed TickOverflow \<and> 2 ^ 64 \<le> unat t + 60"

lemma tick_exhausted_expected: "tick_exhausted t e \<Longrightarrow> expected_failure t run e"
  by (simp add: tick_exhausted_def expected_failure_def)

lemma advance_deadline_failure:
  "encounter_inv enc \<Longrightarrow> advance_deadline (enc, es) = Inl e \<Longrightarrow> tick_exhausted (bl_tick enc) e"
  by (auto simp: advance_deadline_def start_wave_exact activate_exact checked_tick_add_Inl durations tick_exhausted_def
      encounter_inv_def split: encounter_state.splits if_splits)

lemma observe_activity_failure:
  "observe_activity activity (enc, es) = Inl e \<Longrightarrow> tick_exhausted (bl_tick enc) e"
  by (auto simp: observe_activity_def checked_tick_add_Inl durations tick_exhausted_def split: if_splits)

lemma accept_death_failure: "accept_death ds (enc, es) = Inl e \<Longrightarrow> expected_failure (bl_tick enc) (bl_run_ordinal enc) e"
  by (auto simp: accept_death_def expected_failure_def rejections_def split: if_splits)

lemma process_action_failure:
  "encounter_inv enc \<Longrightarrow> action \<noteq> PlayerDied \<Longrightarrow> process_action action (enc, es) = Inl e
     \<Longrightarrow> expected_failure (bl_tick enc) (bl_run_ordinal enc) e"
  by (auto simp: process_action_def start_wave_exact start_boss_introduction_exact checked_tick_add_Inl durations
      expected_failure_def rejections_def encounter_inv_def restart_run_def checked_add_one Let_def
      split: encounter_action.splits encounter_state.splits encounter_stage.splits if_splits)

lemma validate_invariants_ok: "encounter_inv enc \<Longrightarrow> validate_invariants enc = Inr ()"
  by (auto simp: validate_invariants_def encounter_inv_def split: encounter_state.splits)

lemma accept_defeats_failure:
  assumes inv: "encounter_inv enc" and failed: "accept_defeats ds (enc, es) = Inl e"
  shows "expected_failure (bl_tick enc) (bl_run_ordinal enc) e"
proof (cases "e \<in> rejections")
  case True
  then show ?thesis
    by (simp add: expected_failure_def)
next
  case False
  with failed obtain stage n where state: "bl_state enc = ActiveStage stage n"
    and finish: "and_then (try_fold remove_defeated ds (enc, es)) (finish_stage stage) = Inl e"
    by (auto simp: accept_defeats_def rejections_def split: encounter_state.splits if_splits)
  note short = stage_active_short [OF inv state]
  obtain first where first: "bl_first_activity_tick enc = Some first" "unat first + active_from stage \<le> unat (bl_tick enc)"
    using inv state by (auto simp: encounter_inv_def since_def)
  then have "checked_sub (bl_tick enc) first \<noteq> None"
    by (simp add: checked_sub_def word_le_nat_alt)
  moreover have "length (filter P (bl_active_instances enc)) < 2 ^ 16" for P
    by (rule le_less_trans [OF length_filter_le short])
  ultimately show ?thesis
    using remove_defeated_all [OF short, of ds es] finish first(1)
    by (auto simp: finish_stage_def complete_run_def try_from_usize_def checked_tick_add_Inl durations expected_failure_def
        Let_def split: if_splits)
qed

section \<open>A whole step\<close>

text \<open>What an accepted step does: it stays in the run and moves forward, or it starts the next run.\<close>

definition advanced :: "bell_laboratory_encounter \<Rightarrow> encounter_event list \<Rightarrow> bell_laboratory_encounter \<Rightarrow> bool" where
  "advanced enc events enc' \<longleftrightarrow>
     encounter_inv enc' \<and> unat (bl_tick enc') = unat (bl_tick enc) + 1
     \<and> distinct (defeats events) \<and> set (defeats events) \<inter> defeated_by enc = {}
     \<and> (\<forall>i \<in> set (defeats events). spawn_run i = bl_run_ordinal enc)
     \<and> (bl_state enc = DeathFrozen \<longrightarrow> defeats events = [])
     \<and> bl_best_clear_ticks enc' = best_of (bl_best_clear_ticks enc) (clears events)
     \<and> (\<forall>c \<in> set (clears events). 321 \<le> unat c)
     \<and> (bl_run_ordinal enc' = bl_run_ordinal enc \<and> state_rank (bl_state enc) \<le> state_rank (bl_state enc')
          \<and> (bl_state enc' \<noteq> DeathFrozen \<longrightarrow> defeated_by enc' = defeated_by enc \<union> set (defeats events))
        \<or> unat (bl_run_ordinal enc') = unat (bl_run_ordinal enc) + 1 \<and> bl_state enc' = AwaitingFirstActivity)"

lemma defeated_by_run: "encounter_inv enc \<Longrightarrow> i \<in> defeated_by enc \<Longrightarrow> spawn_run i = bl_run_ordinal enc"
  by (cases "bl_state enc") (auto simp: defeated_by_def dest: run_hostiles_run)

lemma stage_rank_bound: "12 \<le> n \<Longrightarrow> stage_rank stage \<le> n" "12 < n \<Longrightarrow> \<not> n \<le> stage_rank stage"
  by (cases stage; simp)+

lemma state_rank_frozen: "state_rank state \<le> 18" "18 \<le> state_rank state \<Longrightarrow> state = DeathFrozen"
  by (cases state; simp add: stage_rank_bound)+

lemma work_grows_new:
  assumes "work_grows (enc, []) (enc', events)" and "encounter_inv enc'"
  shows "distinct (defeats events)" "set (defeats events) \<inter> defeated_by enc = {}"
    "\<forall>i \<in> set (defeats events). spawn_run i = bl_run_ordinal enc"
    "bl_state enc = DeathFrozen \<longrightarrow> defeats events = []"
    "bl_best_clear_ticks enc' = best_of (bl_best_clear_ticks enc) (clears events)"
    "\<forall>c \<in> set (clears events). 321 \<le> unat c"
    "defeated_by enc' = defeated_by enc \<union> set (defeats events)"
    "bl_run_ordinal enc' = bl_run_ordinal enc" "bl_tick enc' = bl_tick enc"
    "state_rank (bl_state enc) \<le> state_rank (bl_state enc')"
proof -
  show "\<forall>i \<in> set (defeats events). spawn_run i = bl_run_ordinal enc"
    using assms defeated_by_run [OF assms(2)] by (auto simp: work_grows_def)
  show "bl_state enc = DeathFrozen \<longrightarrow> defeats events = []"
    using assms state_rank_frozen(2) [of "bl_state enc'"] by (auto simp: work_grows_def defeated_by_def)
qed (use assms in \<open>auto simp: work_grows_def\<close>)

lemma process_action_restart:
  "process_action RunAgain (enc, es) = Inr (enc', es') \<Longrightarrow>
     encounter_inv enc' \<and> unat (bl_run_ordinal enc') = unat (bl_run_ordinal enc) + 1 \<and> bl_state enc' = AwaitingFirstActivity
     \<and> bl_tick enc' = bl_tick enc \<and> bl_best_clear_ticks enc' = bl_best_clear_ticks enc
     \<and> (\<exists>e. es' = es @ [e] \<and> defeats [e] = [] \<and> clears [e] = [])"
  by (auto simp: process_action_def restart_run_def encounter_inv_def checked_add_eq_Some split: if_splits)

text \<open>
  The operations of a step before its action. Each of them either reports an expected failure or keeps the invariant
  and grows the work it started from.
\<close>

definition work_grown :: "bell_laboratory_encounter \<Rightarrow> encounter_failure + encounter_work \<Rightarrow> bool" where
  "work_grown start r = (case r of
     Inl e \<Rightarrow> expected_failure (bl_tick start) (bl_run_ordinal start) e
   | Inr (enc, es) \<Rightarrow> encounter_inv enc \<and> work_grows (start, []) (enc, es))"

lemma work_grown_and_then:
  assumes "work_grown start r"
    and "\<And>enc es e. encounter_inv enc \<Longrightarrow> r = Inr (enc, es) \<Longrightarrow> k (enc, es) = Inl e
      \<Longrightarrow> expected_failure (bl_tick enc) (bl_run_ordinal enc) e"
    and "\<And>enc es enc' es'. encounter_inv enc \<Longrightarrow> r = Inr (enc, es) \<Longrightarrow> k (enc, es) = Inr (enc', es')
      \<Longrightarrow> encounter_inv enc' \<and> work_grows (enc, es) (enc', es')"
  shows "work_grown start (and_then r k)"
proof (cases r)
  case (Inr work)
  then obtain enc es where r: "r = Inr (enc, es)"
    by (cases work) simp
  with assms(1) have start: "encounter_inv enc" "work_grows (start, []) (enc, es)"
    by (simp_all add: work_grown_def)
  show ?thesis
  proof (cases "k (enc, es)")
    case (Inl e)
    with assms(2) [OF start(1) r] work_grows_run [OF start(2)] r show ?thesis
      by (simp add: work_grown_def)
  next
    case (Inr work')
    with assms(3) [OF start(1) r] work_grows_trans [OF start(2)] r show ?thesis
      by (cases work') (auto simp: work_grown_def)
  qed
qed (use assms(1) in \<open>simp add: work_grown_def\<close>)

definition staged_prefix :: "encounter_input \<Rightarrow> bell_laboratory_encounter \<Rightarrow> encounter_failure + encounter_work" where
  "staged_prefix input enc =
     and_then (advance_deadline (enc, [])) (\<lambda>work.
       if ei_action input = PlayerDied then Inr work
       else and_then (accept_defeats (ei_defeated input) work)
              (observe_activity (ei_player_moved input \<or> ei_player_fired input)))"

lemma and_then_assoc: "and_then (and_then r f) g = and_then r (\<lambda>x. and_then (f x) g)"
  by (cases r) simp_all

lemma step_staged_split:
  "step_staged input enc =
     and_then (ok_or (checked_next (bl_tick enc)) (EncounterFailed TickOverflow)) (\<lambda>t.
     and_then (staged_prefix input (enc\<lparr>bl_tick := t\<rparr>)) (\<lambda>work.
       if ei_action input = PlayerDied then accept_death (ei_defeated input) work
       else and_then (process_action (ei_action input) work) (\<lambda>(enc', events).
            and_then (validate_invariants enc') (\<lambda>_. Inr (enc', events)))))"
  by (cases "ei_action input = PlayerDied") (simp_all add: step_staged_def staged_prefix_def and_then_assoc)

lemma staged_prefix_grown:
  assumes "encounter_inv enc" and "distinct (ei_defeated input)"
  shows "work_grown enc (staged_prefix input enc)"
proof -
  have start: "work_grown enc (Inr (enc, []))"
    using assms(1) by (simp add: work_grown_def)
  have "work_grown enc (and_then (Inr (enc, [])) advance_deadline)"
    by (rule work_grown_and_then [OF start tick_exhausted_expected [OF advance_deadline_failure] advance_deadline_ok]) simp_all
  then have deadline: "work_grown enc (advance_deadline (enc, []))"
    by simp
  have "work_grown enc (and_then (advance_deadline (enc, [])) (accept_defeats (ei_defeated input)))"
    by (rule work_grown_and_then [OF deadline accept_defeats_failure accept_defeats_ok]) (use assms(2) in simp_all)
  then have "work_grown enc (and_then (and_then (advance_deadline (enc, [])) (accept_defeats (ei_defeated input)))
      (observe_activity (ei_player_moved input \<or> ei_player_fired input)))"
    by (rule work_grown_and_then [OF _ tick_exhausted_expected [OF observe_activity_failure] observe_activity_ok]) simp_all
  then show ?thesis
    using deadline by (cases "advance_deadline (enc, [])") (auto simp: staged_prefix_def and_then_assoc)
qed

lemma ticked_inv:
  "encounter_inv enc \<Longrightarrow> unat t = unat (bl_tick enc) + 1 \<Longrightarrow> encounter_inv (enc\<lparr>bl_tick := t\<rparr>)"
  by (auto simp: encounter_inv_def elim: schedule_ok_later)

lemma step_staged_advanced:
  assumes inv: "encounter_inv enc" and sorted: "distinct (ei_defeated input)"
    and result: "step_staged input enc = Inr (enc', events)"
  shows "advanced enc events enc'"
proof -
  from result obtain t enc1 es1 where t: "unat t = unat (bl_tick enc) + 1"
    and prefix: "staged_prefix input (enc\<lparr>bl_tick := t\<rparr>) = Inr (enc1, es1)"
    and rest: "(if ei_action input = PlayerDied then accept_death (ei_defeated input) (enc1, es1)
       else and_then (process_action (ei_action input) (enc1, es1)) (\<lambda>(enc', events).
            and_then (validate_invariants enc') (\<lambda>_. Inr (enc', events)))) = Inr (enc', events)"
    by (auto simp only: step_staged_split and_then_eq_Inr ok_or_eq_Inr checked_next_def checked_add_eq_Some unsigned_1)
  let ?enc = "enc\<lparr>bl_tick := t\<rparr>"
  have one: "encounter_inv enc1" "work_grows (?enc, []) (enc1, es1)"
    using staged_prefix_grown [OF ticked_inv [OF inv t] sorted] prefix by (simp_all add: work_grown_def)
  have old: "defeated_by ?enc = defeated_by enc"
    by (simp add: defeated_by_def)
  note new = work_grows_new [OF one(2,1), unfolded old]
  consider (death) "ei_action input = PlayerDied" | (again) "ei_action input = RunAgain"
    | (act) "ei_action input \<noteq> PlayerDied" "ei_action input \<noteq> RunAgain"
    by blast
  then show ?thesis
  proof cases
    case death
    with rest have "enc' = enc1\<lparr>bl_active_instances := [], bl_state := DeathFrozen\<rparr>"
      "defeats events = defeats es1" "clears events = clears es1"
      by (auto simp: accept_death_def split: if_splits)
    with new t show ?thesis
      by (simp add: advanced_def encounter_inv_def state_rank_frozen)
  next
    case again
    with rest have "process_action RunAgain (enc1, es1) = Inr (enc', events)"
      by auto
    with process_action_restart [of enc1 es1 enc' events] new t show ?thesis
      by (auto simp: advanced_def)
  next
    case act
    with rest have "process_action (ei_action input) (enc1, es1) = Inr (enc', events)"
      by auto
    with process_action_ok [OF one(1) _ act(2)] work_grows_trans [OF one(2)]
    have "encounter_inv enc'" "work_grows (?enc, []) (enc', events)"
      by blast+
    with work_grows_new [OF this(2,1)] t show ?thesis
      unfolding old by (simp add: advanced_def)
  qed
qed

lemma step_staged_failure:
  assumes inv: "encounter_inv enc" and sorted: "distinct (ei_defeated input)" and failed: "step_staged input enc = Inl e"
  shows "e \<in> rejections \<or> e = EncounterFailed TickOverflow \<and> 2 ^ 64 \<le> unat (bl_tick enc) + 61
    \<or> e = EncounterFailed RunOrdinalOverflow \<and> bl_run_ordinal enc = - 1"
proof (cases "checked_next (bl_tick enc)")
  case None
  then have "2 ^ 64 \<le> unat (bl_tick enc) + 1"
    by (simp add: checked_next_def checked_add_eq_None)
  with failed None show ?thesis
    by (simp add: step_staged_split)
next
  case (Some t)
  then have t: "unat t = unat (bl_tick enc) + 1"
    by (simp add: checked_next_def checked_add_eq_Some)
  note prefix = staged_prefix_grown [OF ticked_inv [OF inv t] sorted]
  have "expected_failure t (bl_run_ordinal enc) e"
  proof (cases "staged_prefix input (enc\<lparr>bl_tick := t\<rparr>)")
    case (Inl e')
    with prefix failed Some show ?thesis
      by (simp add: step_staged_split work_grown_def)
  next
    case (Inr work)
    then obtain enc1 es1 where work: "staged_prefix input (enc\<lparr>bl_tick := t\<rparr>) = Inr (enc1, es1)"
      by (cases work) simp
    with prefix have one: "encounter_inv enc1" "bl_tick enc1 = t" "bl_run_ordinal enc1 = bl_run_ordinal enc"
      using work_grows_run by (fastforce simp: work_grown_def)+
    show ?thesis
    proof (cases "ei_action input = PlayerDied")
      case True
      with work failed Some accept_death_failure [of "ei_defeated input" enc1 es1 e] one show ?thesis
        by (simp add: step_staged_split)
    next
      case False
      have "validate_invariants enc' = Inr ()" if "process_action (ei_action input) (enc1, es1) = Inr (enc', es')" for enc' es'
        using that process_action_ok [OF one(1) that] process_action_restart [of enc1 es1 enc' es']
        by (cases "ei_action input = RunAgain") (auto intro: validate_invariants_ok)
      then have "process_action (ei_action input) (enc1, es1) = Inl e"
        using work failed Some False by (auto simp: step_staged_split)
      with process_action_failure [OF one(1) False] one show ?thesis
        by simp
    qed
  qed
  with t show ?thesis
    by (auto simp: expected_failure_def)
qed

lemma validate_input_Inr: "validate_input input = Inr u \<longleftrightarrow> sorted_wrt (<) (ei_defeated input)"
  by (simp add: validate_input_def windows2_all_less)

lemma step_encounter_accepted:
  assumes "encounter_inv enc" and "step_encounter input enc = (Inr s, enc')"
  shows "advanced enc (st_events s) enc'" "st_tick s = bl_tick enc'"
proof -
  obtain events where staged: "step_staged input enc = Inr (enc', events)" "sorted_wrt (<) (ei_defeated input)"
    "s = \<lparr>st_tick = bl_tick enc', st_events = events\<rparr>"
    using assms(2) by (auto simp: step_encounter_def validate_input_Inr split: sum.splits)
  then show "advanced enc (st_events s) enc'"
    using step_staged_advanced [OF assms(1) _ staged(1)] by (simp add: strict_sorted_iff)
  show "st_tick s = bl_tick enc'"
    using staged(3) by simp
qed

lemma step_encounter_refused:
  assumes "encounter_inv enc" and "step_encounter input enc = (Inl e, enc')"
  shows "enc' = enc" "e \<in> rejections \<or> e = EncounterFailed TickOverflow \<and> 2 ^ 64 \<le> unat (bl_tick enc) + 61
    \<or> e = EncounterFailed RunOrdinalOverflow \<and> bl_run_ordinal enc = - 1"
proof -
  show "enc' = enc"
    using assms(2) by (auto simp: step_encounter_def split: sum.splits)
  show "e \<in> rejections \<or> e = EncounterFailed TickOverflow \<and> 2 ^ 64 \<le> unat (bl_tick enc) + 61
    \<or> e = EncounterFailed RunOrdinalOverflow \<and> bl_run_ordinal enc = - 1"
  proof (cases "validate_input input")
    case (Inl e')
    with assms(2) show ?thesis
      by (auto simp: step_encounter_def validate_input_def rejections_def split: if_splits)
  next
    case (Inr u)
    then have "distinct (ei_defeated input)"
      by (simp add: validate_input_Inr strict_sorted_iff)
    moreover have "step_staged input enc = Inl e"
      using assms(2) Inr by (auto simp: step_encounter_def split: sum.splits)
    ultimately show ?thesis
      using step_staged_failure [OF assms(1)] by blast
  qed
qed

section \<open>The reachable encounters\<close>

definition encounter_initial :: "bell_laboratory_encounter \<Rightarrow> bool" where
  "encounter_initial enc \<longleftrightarrow> (\<exists>seed. enc = new_encounter seed)"

inductive encounter_moves :: "bell_laboratory_encounter \<Rightarrow> encounter_input \<Rightarrow> bell_laboratory_encounter \<Rightarrow> bool" where
  encounter_moved: "step_encounter input enc = (r, enc') \<Longrightarrow> encounter_moves enc input enc'"

lemma new_encounter_inv: "encounter_inv (new_encounter seed)"
  by (simp add: encounter_inv_def new_encounter_def)

definition encounter_progress :: "bell_laboratory_encounter \<Rightarrow> nat" where
  "encounter_progress enc = 19 * unat (bl_run_ordinal enc) + state_rank (bl_state enc)"

lemma encounter_moves_ok:
  assumes "encounter_inv enc" and "encounter_moves enc input enc'"
  shows "encounter_inv enc' \<and> encounter_progress enc \<le> encounter_progress enc'"
  using assms(2)
proof (cases rule: encounter_moves.cases)
  case (encounter_moved r)
  show ?thesis
  proof (cases r)
    case (Inl e)
    with step_encounter_refused(1) [OF assms(1)] encounter_moved assms(1) show ?thesis
      by blast
  next
    case (Inr s)
    then have "advanced enc (st_events s) enc'"
      using step_encounter_accepted(1) [OF assms(1)] encounter_moved by blast
    then show ?thesis
      using state_rank_frozen(1) [of "bl_state enc"] by (auto simp: advanced_def encounter_progress_def)
  qed
qed

interpretation laboratory: monotone_system encounter_initial encounter_moves encounter_inv encounter_progress
  by unfold_locales (use encounter_moves_ok new_encounter_inv in \<open>auto simp: encounter_initial_def\<close>)

text \<open>A step with nothing to report never fails while the tick counter has room.\<close>

lemma idle_step_staged:
  assumes inv: "encounter_inv enc" and room: "unat (bl_tick enc) + 61 < 2 ^ 64"
    and idle: "ei_defeated input = []" "ei_action input \<in> {NoAction, Recall}"
  shows "\<exists>work. step_staged input enc = Inr work"
proof -
  obtain t where t: "checked_next (bl_tick enc) = Some t" "unat t = unat (bl_tick enc) + 1"
    using checked_add_ex [of "bl_tick enc" 1] room by (auto simp: checked_next_def)
  have no_defeats: "accept_defeats (ei_defeated input) = Inr"
    using idle(1) by (auto simp: accept_defeats_def)
  have "staged_prefix input (enc\<lparr>bl_tick := t\<rparr>) \<noteq> Inl e" for e
  proof
    assume "staged_prefix input (enc\<lparr>bl_tick := t\<rparr>) = Inl e"
    with idle(2) no_defeats consider "advance_deadline (enc\<lparr>bl_tick := t\<rparr>, []) = Inl e"
      | enc1 es1 where "advance_deadline (enc\<lparr>bl_tick := t\<rparr>, []) = Inr (enc1, es1)"
        "observe_activity (ei_player_moved input \<or> ei_player_fired input) (enc1, es1) = Inl e"
      by (auto simp: staged_prefix_def)
    then have "tick_exhausted t e"
      using advance_deadline_failure [OF ticked_inv [OF inv t(2)]] observe_activity_failure
        advance_deadline_ok [OF ticked_inv [OF inv t(2)]] work_grows_run
      by cases fastforce+
    with room t(2) show False
      by (simp add: tick_exhausted_def)
  qed
  then obtain enc1 es1 where prefix: "staged_prefix input (enc\<lparr>bl_tick := t\<rparr>) = Inr (enc1, es1)"
    by (cases "staged_prefix input (enc\<lparr>bl_tick := t\<rparr>)") auto
  then have "encounter_inv enc1"
    using staged_prefix_grown [OF ticked_inv [OF inv t(2)], of input] idle(1) by (simp add: work_grown_def)
  with prefix t(1) idle(2) show ?thesis
    by (auto simp: step_staged_split process_action_def validate_invariants_ok)
qed

section \<open>Whole sessions\<close>

text \<open>The inputs of a session one after the other; a refused input publishes nothing.\<close>

fun run_encounter :: "encounter_input list \<Rightarrow> bell_laboratory_encounter \<Rightarrow> encounter_work" where
  "run_encounter [] enc = (enc, [])"
| "run_encounter (input # inputs) enc = (case step_encounter input enc of
     (Inl e, enc') \<Rightarrow> run_encounter inputs enc'
   | (Inr s, enc') \<Rightarrow> (case run_encounter inputs enc' of (enc'', events) \<Rightarrow> (enc'', st_events s @ events)))"

definition session_books :: "encounter_event list \<Rightarrow> bell_laboratory_encounter \<Rightarrow> bool" where
  "session_books events enc \<longleftrightarrow>
     encounter_inv enc \<and> distinct (defeats events)
     \<and> (\<forall>i \<in> set (defeats events). unat (spawn_run i) \<le> unat (bl_run_ordinal enc))
     \<and> (bl_state enc \<noteq> DeathFrozen \<longrightarrow> {i \<in> set (defeats events). spawn_run i = bl_run_ordinal enc} = defeated_by enc)
     \<and> bl_best_clear_ticks enc = best_of None (clears events)
     \<and> (\<forall>c \<in> set (clears events). 321 \<le> unat c)"

lemma session_books_start: "session_books [] (new_encounter seed)"
  using new_encounter_inv [of seed] by (simp add: session_books_def new_encounter_def defeated_by_def)

lemma session_books_step:
  assumes books: "session_books events enc" and step: "advanced enc new enc'"
  shows "session_books (events @ new) enc'"
proof -
  let ?run = "bl_run_ordinal enc"
  have fresh: "set (defeats new) \<inter> set (defeats events) = {}"
  proof (cases "bl_state enc = DeathFrozen")
    case False
    then have "{i \<in> set (defeats events). spawn_run i = ?run} = defeated_by enc"
      using books by (simp add: session_books_def)
    then show ?thesis
      using step by (auto simp: advanced_def)
  qed (use step in \<open>simp add: advanced_def\<close>)
  have bound: "unat (spawn_run i) \<le> unat ?run" if "i \<in> set (defeats (events @ new))" for i
    using that books step unfolding session_books_def advanced_def defeats_append set_append Un_iff by auto
  have run: "unat ?run \<le> unat (bl_run_ordinal enc')"
    using step by (auto simp: advanced_def)
  have "{i \<in> set (defeats (events @ new)). spawn_run i = bl_run_ordinal enc'} = defeated_by enc'"
    if live: "bl_state enc' \<noteq> DeathFrozen"
  proof (cases "bl_run_ordinal enc' = ?run")
    case True
    then have "state_rank (bl_state enc) \<le> state_rank (bl_state enc')" "defeated_by enc' = defeated_by enc \<union> set (defeats new)"
      using step live by (auto simp: advanced_def)
    moreover from this(1) live have "bl_state enc \<noteq> DeathFrozen"
      using state_rank_frozen(2) [of "bl_state enc'"] by auto
    ultimately show ?thesis
      using books step unfolding True session_books_def advanced_def defeats_append set_append by blast
  next
    case False
    then have later: "unat (bl_run_ordinal enc') = unat ?run + 1" "bl_state enc' = AwaitingFirstActivity"
      using step by (auto simp: advanced_def)
    have "spawn_run i \<noteq> bl_run_ordinal enc'" if "i \<in> set (defeats (events @ new))" for i
      using bound [OF that] later(1) by auto
    with later(2) show ?thesis
      by (auto simp: defeated_by_def)
  qed
  moreover have "unat (spawn_run i) \<le> unat (bl_run_ordinal enc')" if "i \<in> set (defeats (events @ new))" for i
    by (rule le_trans [OF bound [OF that] run])
  moreover have "distinct (defeats (events @ new))"
    using books step fresh by (auto simp: session_books_def advanced_def)
  moreover have "bl_best_clear_ticks enc' = best_of None (clears (events @ new))"
    using books step by (simp add: session_books_def advanced_def)
  moreover have "\<forall>c \<in> set (clears (events @ new)). 321 \<le> unat c"
    using books step unfolding session_books_def advanced_def clears_append set_append by blast
  moreover have "encounter_inv enc'"
    using step by (simp add: advanced_def)
  ultimately show ?thesis
    unfolding session_books_def by blast
qed

lemma run_encounter_books:
  assumes "session_books events enc" and "run_encounter inputs enc = (enc', new)"
  shows "session_books (events @ new) enc'"
  using assms
proof (induction inputs arbitrary: events enc new)
  case (Cons input inputs)
  have inv: "encounter_inv enc"
    using Cons.prems(1) by (simp add: session_books_def)
  obtain r enc1 where step: "step_encounter input enc = (r, enc1)"
    by (cases "step_encounter input enc")
  show ?case
  proof (cases r)
    case (Inl e)
    with step step_encounter_refused(1) [OF inv, of input e enc1] Cons show ?thesis
      by simp
  next
    case (Inr s)
    then have "session_books (events @ st_events s) enc1"
      using session_books_step [OF Cons.prems(1)] step_encounter_accepted(1) [OF inv] step by blast
    with Cons.IH [OF this] Cons.prems(2) step Inr show ?thesis
      by (auto split: prod.splits)
  qed
qed simp

lemma best_of_Min: "best_of b cs = (case b of None \<Rightarrow> if cs = [] then None else Some (Min (set cs)) | Some m \<Rightarrow> Some (Min (insert m (set cs))))"
proof (induction b cs rule: best_of.induct)
  case (2 b c cs)
  then show ?case
    by (cases b; cases "cs = []") (simp_all add: min.assoc)
qed (auto split: option.splits)

section \<open>The properties\<close>

text \<open>
  C23. In every reachable encounter: a refused step changes nothing and is refused for one of the eight documented
  rejections, for a tick counter within 61 of its end, or for an exhausted run ordinal, so the authored waves always
  meet their budgets and none of the internal errors nor the \<open>unreachable!\<close> is ever reported; an accepted step advances the tick by one; a
  step with nothing to report is never refused while the tick counter has room; and the
  tracked instances are strictly sorted hostiles of the active stage, as many as the state counts, and empty outside combat.
\<close>

theorem encounter_reachable_ok:
  assumes "reachable encounter_initial encounter_moves enc"
  shows "(\<forall>input e enc'. step_encounter input enc = (Inl e, enc') \<longrightarrow> enc' = enc
        \<and> (e \<in> rejections \<or> e = EncounterFailed TickOverflow \<and> 2 ^ 64 \<le> unat (bl_tick enc) + 61
            \<or> e = EncounterFailed RunOrdinalOverflow \<and> bl_run_ordinal enc = - 1))
    \<and> (\<forall>input s enc'. step_encounter input enc = (Inr s, enc') \<longrightarrow>
        unat (bl_tick enc') = unat (bl_tick enc) + 1 \<and> st_tick s = bl_tick enc')
    \<and> (\<forall>input. ei_defeated input = [] \<and> ei_action input \<in> {NoAction, Recall} \<and> unat (bl_tick enc) + 61 < 2 ^ 64 \<longrightarrow>
        (\<exists>s enc'. step_encounter input enc = (Inr s, enc')))
    \<and> sorted_wrt (<) (bl_active_instances enc)
    \<and> (case bl_state enc of
         ActiveStage stage n \<Rightarrow> 0 < unat n \<and> unat n = length (bl_active_instances enc)
           \<and> set (bl_active_instances enc) \<subseteq> stage_hostiles stage (bl_run_ordinal enc)
       | _ \<Rightarrow> bl_active_instances enc = [])"
proof -
  have inv: "encounter_inv enc"
    by (rule laboratory.reachable_inv [OF assms])
  have idle: "\<exists>s enc'. step_encounter input enc = (Inr s, enc')"
    if "ei_defeated input = []" "ei_action input \<in> {NoAction, Recall}" "unat (bl_tick enc) + 61 < 2 ^ 64" for input
  proof -
    note quiet = that
    obtain enc' events where "step_staged input enc = Inr (enc', events)"
      using idle_step_staged [OF inv quiet(3,1,2)] by auto
    with quiet(1) show ?thesis
      by (simp add: step_encounter_def validate_input_def)
  qed
  have active: "sorted_wrt (<) (bl_active_instances enc)" "case bl_state enc of
       ActiveStage stage n \<Rightarrow> 0 < unat n \<and> unat n = length (bl_active_instances enc)
         \<and> set (bl_active_instances enc) \<subseteq> stage_hostiles stage (bl_run_ordinal enc)
     | _ \<Rightarrow> bl_active_instances enc = []"
    using inv by (cases "bl_state enc"; simp add: encounter_inv_def)+
  show ?thesis
    using step_encounter_refused [OF inv] step_encounter_accepted [OF inv] idle active
    unfolding advanced_def by blast
qed

text \<open>
  C24. A run only moves forward: along any session the run ordinal never decreases, and within a run the course of
  the encounter (waiting, the telegraph, combat and reward of each wave, the boss, the summary, the cleared arena or the
  frozen death) never goes back, so no wave is fought twice and a frozen run only ends by a restart.
\<close>

theorem encounter_never_goes_back:
  assumes "reachable encounter_initial encounter_moves enc" and "trace encounter_moves enc steps" and "(input, later) \<in> set steps"
  shows "bl_run_ordinal enc \<le> bl_run_ordinal later
    \<and> (bl_run_ordinal later = bl_run_ordinal enc \<longrightarrow> state_rank (bl_state enc) \<le> state_rank (bl_state later))"
proof -
  have "encounter_progress enc \<le> encounter_progress later"
    by (rule laboratory.trace_progress [OF laboratory.reachable_inv [OF assms(1)] assms(2,3)])
  then show ?thesis
    using state_rank_frozen(1) [of "bl_state enc"] state_rank_frozen(1) [of "bl_state later"]
    by (auto simp: encounter_progress_def word_le_nat_alt)
qed

text \<open>
  C25. Whatever inputs a session sends, over all its runs and restarts no hostile is accepted as defeated twice; and
  when the completion summary of a run is open, or its arena cleared, the defeats accepted in this run are exactly its seventeen hostiles.
\<close>

theorem encounter_defeats_each_once:
  assumes "run_encounter inputs (new_encounter seed) = (enc, events)"
  shows "distinct (defeats events)
    \<and> (bl_state enc \<in> {CompletionSummary, ClearedArena} \<longrightarrow>
         {i \<in> set (defeats events). spawn_run i = bl_run_ordinal enc}
           = (\<lambda>k. SpawnInstanceId (bl_run_ordinal enc) (of_nat k)) ` {1..17})"
proof -
  have "session_books events enc"
    using run_encounter_books [OF session_books_start assms] by simp
  moreover have "run_hostiles run 17 = (\<lambda>k. SpawnInstanceId run (of_nat k)) ` {1..17}" for run
    unfolding run_hostiles_def set_map set_upt by (rule image_cong) auto
  ultimately show ?thesis
    by (auto simp: session_books_def defeated_by_def)
qed

text \<open>
  C26. No session clears a run in fewer than 321 ticks (45 to the first wave, 27 for each telegraph, 45 for each
  reward and 60 for the boss), and the record kept in the encounter is the least of all reported clear times.
\<close>

theorem encounter_clear_times:
  assumes "run_encounter inputs (new_encounter seed) = (enc, events)"
  shows "(\<forall>c \<in> set (clears events). 321 \<le> unat c)
    \<and> bl_best_clear_ticks enc = (if clears events = [] then None else Some (Min (set (clears events))))"
proof -
  have "session_books events enc"
    using run_encounter_books [OF session_books_start assms] by simp
  then show ?thesis
    by (simp add: session_books_def best_of_Min [of None])
qed

section \<open>A session that clears a run in the shortest time\<close>

definition idle :: encounter_input where
  "idle = \<lparr>ei_player_moved = False, ei_player_fired = False, ei_defeated = [], ei_action = NoAction\<rparr>"

definition defeat_all :: "encounter_stage \<Rightarrow> encounter_input" where
  "defeat_all stage = idle\<lparr>ei_defeated := map es_instance_id (spawn_specs stage 1)\<rparr>"

fun deadline :: "encounter_state \<Rightarrow> tick option" where
  "deadline (FirstWaveDelay t) = Some t"
| "deadline (SpawnTelegraph _ t) = Some t"
| "deadline (RewardDelay _ t) = Some t"
| "deadline (BossIntroduction t) = Some t"
| "deadline _ = None"

text \<open>Waiting before a deadline only advances the tick.\<close>

lemma wait_one:
  assumes "deadline (bl_state enc) = Some d" "bl_active_instances enc = []" "unat (bl_tick enc) + 1 < unat d"
  shows "step_encounter idle enc = (Inr \<lparr>st_tick = bl_tick enc + 1, st_events = []\<rparr>, enc\<lparr>bl_tick := bl_tick enc + 1\<rparr>)"
proof -
  have "bl_tick enc \<noteq> - 1"
    using assms(3) unat_bound [of d] by (auto simp: unat_max_word)
  then have next_tick: "checked_next (bl_tick enc) = Some (bl_tick enc + 1)"
    by (simp add: checked_next_def checked_add_one)
  then have "unat (bl_tick enc + 1) = unat (bl_tick enc) + 1"
    by (simp add: checked_next_def checked_add_eq_Some)
  then have "\<not> d \<le> bl_tick enc + 1"
    using assms(3) by (simp add: word_le_nat_alt)
  with assms(1,2) next_tick show ?thesis
    by (cases "bl_state enc") (auto simp: step_encounter_def validate_input_def step_staged_def idle_def advance_deadline_def
      accept_defeats_def observe_activity_def process_action_def validate_invariants_def)
qed

lemma wait:
  assumes "deadline (bl_state enc) = Some d" "bl_active_instances enc = []" "unat (bl_tick enc) + n < unat d"
  shows "run_encounter (replicate n idle) enc = (enc\<lparr>bl_tick := bl_tick enc + of_nat n\<rparr>, [])"
  using assms
proof (induction n arbitrary: enc)
  case (Suc n)
  have "unat (bl_tick enc + 1) = unat (bl_tick enc) + 1"
    using Suc.prems(3) unat_bound [of d] by (simp add: unat_word_ariths)
  with Suc show ?case
    by (simp add: wait_one add.commute add.left_commute)
qed simp

definition sample_at :: "tick \<Rightarrow> encounter_state \<Rightarrow> bell_laboratory_encounter" where
  "sample_at t state = (new_encounter 7)\<lparr>bl_tick := t, bl_state := state, bl_first_activity_tick := Some 1\<rparr>"

lemmas step_evaluation = step_encounter_def validate_input_def step_staged_def advance_deadline_def accept_defeats_def
  observe_activity_def process_action_def validate_invariants_def idle_def defeat_all_def sample_at_def new_encounter_def
  checked_next_def checked_add_def checked_tick_add_def start_wave_def validate_spawn_budget_def activate_def finish_stage_def
  remove_defeated_def try_from_usize_def spawn_def less_spawn_instance_id_def less_eq_spawn_instance_id_def
  durations start_boss_introduction_def complete_run_def checked_sub_def Let_def

lemma run_encounter_append:
  "fst (run_encounter (xs @ ys) enc) = fst (run_encounter ys (fst (run_encounter xs enc)))"
  by (induction xs enc rule: run_encounter.induct) (auto split: sum.splits prod.splits)

lemma segment:
  assumes "deadline state \<noteq> None" "unat t + n < unat (the (deadline state))" "snd (step_encounter input (sample_at (t + of_nat n) state)) = enc'"
  shows "fst (run_encounter (replicate n idle @ [input]) (sample_at t state)) = enc'"
proof -
  have "run_encounter (replicate n idle) (sample_at t state) = (sample_at (t + of_nat n) state, [])"
    using wait [of "sample_at t state" "the (deadline state)" n] assms(1,2) by (auto simp: sample_at_def new_encounter_def)
  with assms(3) show ?thesis
    by (auto simp: run_encounter_append split: sum.splits prod.splits)
qed

definition close_panel :: encounter_input where
  "close_panel = idle\<lparr>ei_action := CloseRewardPanel\<rparr>"

definition sample_session :: "encounter_input list" where
  "sample_session = [idle\<lparr>ei_player_moved := True\<rparr>] @ (replicate 44 idle @ [idle])
     @ (replicate 26 idle @ [defeat_all Wave1]) @ (replicate 44 idle @ [close_panel])
     @ (replicate 26 idle @ [defeat_all Wave2]) @ (replicate 44 idle @ [close_panel])
     @ (replicate 26 idle @ [defeat_all Wave3]) @ (replicate 44 idle @ [close_panel])
     @ (replicate 59 idle @ [defeat_all Boss])"

lemma sample_segments:
  "fst (run_encounter [idle\<lparr>ei_player_moved := True\<rparr>] (new_encounter 7)) = sample_at 1 (FirstWaveDelay 46)"
  "fst (run_encounter (replicate 44 idle @ [idle]) (sample_at 1 (FirstWaveDelay 46))) = sample_at 46 (SpawnTelegraph Wave1 73)"
  "fst (run_encounter (replicate 26 idle @ [defeat_all Wave1]) (sample_at 46 (SpawnTelegraph Wave1 73))) = sample_at 73 (RewardDelay Wave1 118)"
  "fst (run_encounter (replicate 44 idle @ [close_panel]) (sample_at 73 (RewardDelay Wave1 118))) = sample_at 118 (SpawnTelegraph Wave2 145)"
  "fst (run_encounter (replicate 26 idle @ [defeat_all Wave2]) (sample_at 118 (SpawnTelegraph Wave2 145))) = sample_at 145 (RewardDelay Wave2 190)"
  "fst (run_encounter (replicate 44 idle @ [close_panel]) (sample_at 145 (RewardDelay Wave2 190))) = sample_at 190 (SpawnTelegraph Wave3 217)"
  "fst (run_encounter (replicate 26 idle @ [defeat_all Wave3]) (sample_at 190 (SpawnTelegraph Wave3 217))) = sample_at 217 (RewardDelay Wave3 262)"
  "fst (run_encounter (replicate 44 idle @ [close_panel]) (sample_at 217 (RewardDelay Wave3 262))) = sample_at 262 (BossIntroduction 322)"
  "fst (run_encounter (replicate 59 idle @ [defeat_all Boss]) (sample_at 262 (BossIntroduction 322))) =
     (sample_at 322 CompletionSummary)\<lparr>bl_best_clear_ticks := Some 321\<rparr>"
  by (simp add: step_evaluation; fail | (rule segment; simp add: step_evaluation close_panel_def; fail))+

lemma sample_session_final:
  "fst (run_encounter sample_session (new_encounter 7)) = (sample_at 322 CompletionSummary)\<lparr>bl_best_clear_ticks := Some 321\<rparr>"
  unfolding sample_session_def by (simp only: run_encounter_append [of "[_]"] run_encounter_append [of "_ @ _"] sample_segments)

lemma sample_reachable_encounter: "reachable encounter_initial encounter_moves (new_encounter 7)"
  by (rule reachable_initial) (auto simp: encounter_initial_def)

theorem encounter_reachable_ok_witness: "\<exists>s enc'. step_encounter idle (new_encounter 7) = (Inr s, enc')"
proof -
  have "ei_defeated idle = [] \<and> ei_action idle \<in> {NoAction, Recall} \<and> unat (bl_tick (new_encounter 7)) + 61 < 2 ^ 64"
    by (simp add: idle_def new_encounter_def)
  with encounter_reachable_ok [OF sample_reachable_encounter] show ?thesis
    by blast
qed

theorem encounter_never_goes_back_witness:
  "bl_run_ordinal (new_encounter 7) \<le> bl_run_ordinal (sample_at 1 (FirstWaveDelay 46))"
proof -
  have "step_encounter (idle\<lparr>ei_player_moved := True\<rparr>) (new_encounter 7) =
      (Inr \<lparr>st_tick = 1, st_events = [FirstActivityObserved 1 46]\<rparr>, sample_at 1 (FirstWaveDelay 46))"
    by (simp add: step_evaluation)
  then have "trace encounter_moves (new_encounter 7) [(idle\<lparr>ei_player_moved := True\<rparr>, sample_at 1 (FirstWaveDelay 46))]"
    by (simp add: encounter_moved)
  from encounter_never_goes_back [OF sample_reachable_encounter this] show ?thesis
    by simp
qed

text \<open>The sample session clears its run, after seventeen defeats and at the least possible time.\<close>

theorem encounter_defeats_each_once_witness:
  "\<exists>enc events. run_encounter sample_session (new_encounter 7) = (enc, events) \<and> bl_state enc = CompletionSummary
    \<and> {i \<in> set (defeats events). spawn_run i = 1} = (\<lambda>k. SpawnInstanceId 1 (of_nat k)) ` {1..17}"
proof -
  obtain enc events where session: "run_encounter sample_session (new_encounter 7) = (enc, events)"
    by (cases "run_encounter sample_session (new_encounter 7)")
  then have "bl_state enc = CompletionSummary" "bl_run_ordinal enc = 1"
    using sample_session_final by (simp_all add: sample_at_def new_encounter_def)
  with encounter_defeats_each_once [OF session] session show ?thesis
    by auto
qed

theorem encounter_clear_times_witness:
  "\<exists>enc events. run_encounter sample_session (new_encounter 7) = (enc, events) \<and> clears events \<noteq> []
    \<and> Min (set (clears events)) = 321"
proof -
  obtain enc events where session: "run_encounter sample_session (new_encounter 7) = (enc, events)"
    by (cases "run_encounter sample_session (new_encounter 7)")
  then have "bl_best_clear_ticks enc = Some 321"
    using sample_session_final by simp
  with encounter_clear_times [OF session] session show ?thesis
    by (auto split: if_splits)
qed

end
