(* ===== verification/Spec2Isabelle.thy ===== *)
theory Spec2Isabelle
  imports Direct_Hit_Damage Recall_Properties Arbiter_Properties Boss_Lock_Properties
    Item_Lifecycle_Properties Deterministic_Rng Progression_Properties Veil_Bargain Reliable_Inbox Caldus_Pattern_Properties
    Dungeon_Layout Coordinator_Ticks Red_Tonic_Properties Caldus_Victory_Properties Bell_Laboratory_Properties
begin

text \<open>
  A verification development of the deterministic core of Gravebound, an online action game whose server
  is authoritative: a 30 Hz simulation (\<open>crates/sim_core\<close>), a terminal arbiter and its coordinator in the server
  (\<open>crates/server_app\<close>) that decide how the run of a character ends, and the reliable event
  stream between server and client (\<open>crates/protocol\<close>). Definitions are translated from the Rust sources; each theory keeps
  the names, the guards and the order of the code.

  Parts and theories. A component \<open>X\<close> that has a second theory \<open>X_Properties\<close> has its data and operations
  in the first and what is proved of them in the second.
  \<^item> \<open>Gravebound_Prelude\<close>: machine integers (checked, saturating, signed), \<open>Result\<close> with the question-mark
    operator (\<open>and_then\<close>), early-returning loops (\<open>try_fold\<close>, \<open>try_map\<close>), slices, and the contracts of
    state machines (\<open>transition_system\<close>, \<open>monotone_system\<close>). \<open>Ordered_Map\<close>: \<open>BTreeMap\<close> with its contracts
    \<open>ordered_map\<close> and \<open>ordered_map_remove\<close>. \<open>Byte_Encoding\<close>: hash input, with the contracts \<open>prefix_code\<close> and \<open>item_code\<close>.
  \<^item> Time and identity: \<open>Simulation_Clock\<close> (\<open>sim_core/src/clock.rs\<close>, \<open>entity.rs\<close>), \<open>Deterministic_Rng\<close>
    (\<open>rng.rs\<close>: named streams and unbiased bounded draws).
  \<^item> Items at rest: \<open>Durable_Slots\<close> (slots and the merge of consumables shared by the planners), \<open>Safe_Storage\<close>
    (\<open>safe_storage.rs\<close>), \<open>Item_Lifecycle\<close> (\<open>item_lifecycle.rs\<close>: identities, equipment swap, reward placement).
  \<^item> The end of a run: \<open>Terminal_Inventory\<close> (\<open>terminal_inventory.rs\<close>) with \<open>Extraction_Properties\<close> and
    \<open>Recall_Properties\<close>, and \<open>Terminal_Arbiter\<close> (\<open>server_app/src/terminal_arbiter.rs\<close>) with \<open>Arbiter_Properties\<close>: the arbiter collects the
    candidates of a tick and decides which outcome is committed; the planner computes what the outcome does
    to every item. \<open>Terminal_Coordinator\<close> (\<open>server_app/src/core_terminal_coordinator.rs\<close>) drives the arbiter: five producers evaluate
    every tick, and only their complete barrier seals it (\<open>Coordinator_Properties\<close> for its reachable states,
    \<open>Coordinator_Ticks\<close> for whole ticks).
  \<^item> The boss fight: \<open>Boss_Lock\<close> (\<open>core_boss_lock.rs\<close>: who fights, with which boss health), \<open>Caldus_Health\<close>
    (\<open>core_caldus_health.rs\<close>, \<open>friendly_intent.rs\<close>: damage, credit, defeat), \<open>Direct_Hit_Damage\<close> (\<open>damage.rs\<close>: the fixed-point
    pipeline a hit goes through), \<open>Caldus_Patterns\<close> (\<open>core_caldus.rs\<close>: phases and attack schedule), \<open>Caldus_Victory\<close>
    (\<open>core_caldus_victory.rs\<close>: stable identities and personal eligibility).
    The lock feeds the health simulation and the victory, the health simulation calls the pipeline, the eligibility calls the progression rules.
  \<^item> The player: \<open>Red_Tonic\<close> (\<open>consumable.rs\<close>: vitals, the belt, and healing behind a shared cooldown).
  \<^item> Growth: \<open>Core_Progression\<close> (\<open>progression.rs\<close>: XP, levels, eligibility), \<open>Veil_Bargain\<close> (\<open>bargain.rs\<close>, \<open>bargain_offer.rs\<close>).
  \<^item> The world: \<open>Dungeon_Room\<close> (\<open>dungeon_room.rs\<close>: room templates, rotation, the navigation proof by flood
    fill, fixed layouts and their digest), \<open>Bell_Laboratory\<close> (\<open>encounter.rs\<close>: the director of an arena of three waves and a boss,
    with rewards, death and restart).
  \<^item> The wire: \<open>Reliable_Inbox\<close> (\<open>protocol/src/reliable_inbox.rs\<close>: in-order delivery from unordered streams).

  How the model corresponds to the code. A struct is a record whose fields carry a short prefix, an enum a
  datatype, a \<open>Result<T, E>\<close> a sum with the error on the left, a panic (\<open>expect\<close>, \<open>unreachable!\<close>, an index out of range) a
  value of its own (\<open>None\<close> or \<open>Panic\<close>) that is proved unreachable. An integer is a word of its width: checked
  and saturating operations are written out, unchecked ones wrap as in the release profile. A \<open>usize\<close> measures or
  indexes an allocated slice and is a natural number. An \<open>f32\<close> is its bit pattern, carried along and tested for
  finiteness but never computed with. A fixed-size array is a list whose length is a hypothesis. Strings are
  their bytes. An operation that mutates a simulation and appends to an event list passes the pair of both; a step
  that works on a clone and assigns it at the end leaves the old state on failure.

  Code outside the repository is a parameter: the hash (\<open>blake3\<close>) in \<open>Item_Lifecycle\<close>, \<open>Deterministic_Rng\<close>,
  \<open>Veil_Bargain\<close>, \<open>Dungeon_Room\<close>, \<open>Terminal_Coordinator\<close> and \<open>Caldus_Victory\<close>, the generator (\<open>ChaCha8Rng\<close>) in \<open>Deterministic_Rng\<close>. What is
  proved speaks of the bytes fed to the hash. The payload of a reliable event and its validation are parameters of \<open>Reliable_Inbox\<close>.

  What the lemmas show. For the planners: no identity is lost or duplicated, every placement is where the plan
  says, the planners fail only where they must, and their final self-checks never reject. For the state machines
  (arbiter, coordinator, boss lock, boss scheduler, Bell Laboratory, consumables): an invariant of every reachable state through an interpretation of
  \<open>monotone_system\<close> or \<open>transition_system\<close>, totality of the step, exact transitions, and that a committed decision is final.
  For the arithmetic (damage, XP, clock, bounded draws, walkability): agreement of the
  machine-integer code with unbounded arithmetic, with explicit bounds on the inputs where the code needs them (damage
  stays below \<open>2 ^ 44\<close> before rounding). For encodings and digests: what the hashed bytes determine. For the flood fill and the
  inbox: exactness against a declarative specification. For the Bell Laboratory: the defeats and clear times of whole sessions. The interpretations are on the definitions of the model:
  \<open>arbiter\<close>, \<open>coordinator\<close>, \<open>boss\<close>, \<open>caldus\<close> and \<open>laboratory\<close> of \<open>monotone_system\<close>, \<open>flood\<close> and \<open>tonic\<close> of \<open>transition_system\<close>, \<open>btree\<close> and \<open>btree_rm\<close>
  of the map contracts, \<open>canonical\<close> and \<open>indexed\<close> of \<open>keyed_comparison\<close>, the slot locators of the storage kinds, and the
  encoders of \<open>Byte_Encoding\<close>, \<open>Dungeon_Room_Properties\<close> and \<open>Coordinator_Ticks\<close>.

  Bounds and termination. The only loop that may not end is the rejection sampling of \<open>bounded_u64\<close>; it is a
  \<open>partial_function (option)\<close>, and it is proved to return once the generator yields one value of the upper half of the range.
  No definition uses fuel. The flood fill terminates because its points are finite: each iteration
  lowers twice the number of unvisited points plus the length of the queue. Counters that can be exhausted
  (ticks, versions, ordinals, cast identifiers) appear as hypotheses of head room, and the errors at
  exhaustion are part of the models.

  Not modelled. The combat, hostile and enemy runtimes, movement, arenas and collision compute in IEEE \<open>f32\<close> over content
  tables; reasoning about them needs a floating-point theory this development does not have. The persistence
  crate is SQL executed by PostgreSQL, the server's sessions and transports are asynchronous I/O around the
  database, the client is rendering on an engine, and content compilation is deserialisation of authored
  data. They are listed as components without definitions. In \<open>core_caldus.rs\<close> the payload type
  \<open>CoreCaldusProjectileRelease\<close>, which no operation of that file uses, is left out; of \<open>combat.rs\<close>, \<open>inventory.rs\<close>,
  \<open>production_item.rs\<close> and \<open>messages.rs\<close> only the types that modelled code reads are present.
\<close>

section \<open>Properties that span components\<close>

text \<open>
  C17. A boss fight that starts from a committed lock: whenever the boss lock machine satisfies its invariant
  and holds a lock of n participants, the health simulation accepts that lock for any other entity,
  starts at 7200 plus 5184 for every participant after the first, and after any sequence of damage
  submissions the remaining health and the participants' credits still add up to that number.
\<close>

theorem boss_fight_from_lock:
  assumes "boss_inv sim" and "phase_lock (sim_phase sim) = Some lock"
    and "boss \<notin> part_entity_id ` set (lock_participants lock)"
  shows "\<exists>health. new_health_at_tick lock boss t = Inr health
    \<and> unat (ch_current_health health) = 7200 + 5184 * (length (lock_participants lock) - 1)
    \<and> (\<forall>calls results final. run_fight calls health = (results, final) \<longrightarrow>
         unat (ch_current_health final) + contributed final = 7200 + 5184 * (length (lock_participants lock) - 1))"
proof -
  have lock: "lock_ok (next_attempt_ordinal sim) lock"
    using assms(1,2) by (auto simp: boss_inv_def split: core_boss_lock_phase.splits)
  then have maximum: "unat (lock_maximum_health lock) = 7200 + 5184 * (length (lock_participants lock) - 1)"
    by (simp add: lock_ok_def caldus_health_def)
  then have "lock_maximum_health lock \<noteq> 0"
    by (auto simp: unat_eq_zero)
  moreover have "lock_participants lock \<noteq> []"
    using lock by (auto simp: lock_ok_def)
  moreover have "\<not> list_ex (\<lambda>p. part_entity_id p = boss) (lock_participants lock)"
    using assms(3) by (auto simp: list_ex_iff)
  ultimately obtain health where new: "new_health_at_tick lock boss t = Inr health"
    "ch_current_health health = lock_maximum_health lock"
    by (simp add: new_health_at_tick_def)
  with fight_books [OF new(1)] maximum show ?thesis
    by metis
qed

theorem boss_fight_from_lock_witness:
  "\<exists>health. new_health_at_tick sample_lock (EntityId 50) 225 = Inr health \<and> unat (ch_current_health health) = 7200"
proof -
  have "phase_lock (sim_phase sample_locked) = Some sample_lock"
    by (simp add: sample_locked_def)
  from boss_fight_from_lock [OF sample_inv(2) this, of "EntityId 50" 225] show ?thesis
    by (auto simp: sample_lock_def sample_player_def)
qed

end
